(* ===== verification/Prelude.thy ===== *)
theory Prelude
  imports Main "HOL-Library.Word"
begin

text \<open>
  Shared vocabulary of the development: the machine integer types of the C and C++
  sources, C strings, the result type of the conversion routines, the reference decimal
  representation of a number, and the generic lemmas on lists and words that the component
  theories use.

  A C++ \<open>std::string\<close> is a \<open>string\<close> (a list of 8-bit characters that may hold NUL); a
  \<open>const char*\<close> is a \<open>string option\<close> without its terminating NUL, with \<open>None\<close> for the
  null pointer.
\<close>

section \<open>Types\<close>

type_synonym u8 = "8 word"
type_synonym u16 = "16 word"
type_synonym u32 = "32 word"
type_synonym u64 = "64 word"

text \<open>Signed integers are words of the same width, read with \<open>sint\<close>.\<close>

type_synonym i8 = "8 word"
type_synonym i32 = "32 word"
type_synonym i64 = "64 word"

type_synonym bytes = "char list"

text \<open>The error numbers the modelled code returns or stores.\<close>

datatype errno = EINVAL | ERANGE | ENOTCONN | ETIMEDOUT | ENOMEM | EOTHER nat

type_synonym 'a result = "errno + 'a"

text \<open>Lemma collections: the frame facts of the protocol operations and the facts that
  drive a conversation with a peer whose answer is known.\<close>

named_theorems frame_simps
named_theorems numeric_simps

section \<open>C strings\<close>

abbreviation NUL :: char where
  "NUL \<equiv> CHR 0x00"

definition cstr :: "string \<Rightarrow> string" where
  "cstr s = takeWhile (\<lambda>c. c \<noteq> NUL) s"

definition c_str :: "string \<Rightarrow> string option" where
  "c_str s = Some (cstr s)"

definition is_cstring :: "string \<Rightarrow> bool" where
  "is_cstring s \<longleftrightarrow> NUL \<notin> set s"

lemma cstr_id [simp]: "is_cstring s \<Longrightarrow> cstr s = s"
  unfolding is_cstring_def cstr_def by (induction s) auto

lemma c_str_id [simp]: "is_cstring s \<Longrightarrow> c_str s = Some s"
  by (simp add: c_str_def)

lemma is_cstring_cstr [simp]: "is_cstring (cstr s)"
  unfolding is_cstring_def cstr_def by (auto dest: set_takeWhileD)

lemma is_cstring_append [simp]: "is_cstring (a @ b) \<longleftrightarrow> is_cstring a \<and> is_cstring b"
  by (auto simp: is_cstring_def)

lemma is_cstring_Nil [simp]: "is_cstring []"
  by (simp add: is_cstring_def)

lemma is_cstring_Cons [simp]: "is_cstring (c # s) \<longleftrightarrow> c \<noteq> NUL \<and> is_cstring s"
  by (auto simp: is_cstring_def)

lemma cstr_append: "is_cstring a \<Longrightarrow> cstr (a @ b) = a @ cstr b"
  by (induction a) (auto simp: cstr_def)

lemma is_cstring_rev [simp]: "is_cstring (rev s) \<longleftrightarrow> is_cstring s"
  by (simp add: is_cstring_def)

lemma is_cstring_replicate [simp]: "is_cstring (replicate n c) \<longleftrightarrow> n = 0 \<or> c \<noteq> NUL"
  by (auto simp: is_cstring_def)

lemma is_cstring_take: "is_cstring s \<Longrightarrow> is_cstring (take n s)"
  by (auto simp: is_cstring_def dest: in_set_takeD)

section \<open>Words\<close>

lemma unat_of_nat_small: "n < 2 ^ LENGTH('a) \<Longrightarrow> unat (of_nat n :: 'a::len word) = n"
  by (simp add: unat_of_nat)

lemma unat_below: "unat (w :: 'a::len word) < 2 ^ LENGTH('a)"
  by (rule unsigned_less)

lemma unat_below_64: "unat (w :: u64) < 18446744073709551616"
  using unat_below [of w] by simp

lemma unat_10: "4 \<le> LENGTH('a) \<Longrightarrow> unat (10 :: 'a::len word) = 10"
proof -
  assume "4 \<le> LENGTH('a)"
  then have "(10::nat) < 2 ^ LENGTH('a)"
    using power_increasing [of 4 "LENGTH('a)" "2::nat"] by simp
  then show ?thesis using unat_of_nat_small [of 10, where ?'a = 'a] by simp
qed

section \<open>Subtraction on \<open>size_t\<close>\<close>

text \<open>Sizes are natural numbers below \<open>2 ^ 64\<close>; the difference of two sizes wraps.\<close>

definition size_sub :: "nat \<Rightarrow> nat \<Rightarrow> nat" where
  "size_sub a b = (a + 2 ^ 64 - b) mod 2 ^ 64"

lemma size_sub_le [simp]: "b \<le> a \<Longrightarrow> a < 2 ^ 64 \<Longrightarrow> size_sub a b = a - b"
proof -
  assume h: "b \<le> a" "a < 2 ^ 64"
  have "a + 2 ^ 64 - b = (a - b) + 2 ^ 64" using h by simp
  then have "size_sub a b = ((a - b) + 2 ^ 64) mod 2 ^ 64"
    unfolding size_sub_def by presburger
  also have "\<dots> = (a - b) mod 2 ^ 64" by (rule mod_add_self2)
  also have "\<dots> = a - b" using h by (intro mod_less) linarith
  finally show ?thesis .
qed

section \<open>Decimal digits\<close>

definition digit_char :: "nat \<Rightarrow> char" where
  "digit_char d = ''0123456789'' ! d"

definition isdigit :: "char \<Rightarrow> bool" where
  "isdigit c \<longleftrightarrow> c \<in> set ''0123456789''"

definition isspace :: "char \<Rightarrow> bool" where
  "isspace c \<longleftrightarrow> c \<in> {CHR 0x09, CHR 0x0A, CHR 0x0B, CHR 0x0C, CHR 0x0D, CHR '' ''}"

text \<open>The distance of a character from \<open>'0'\<close>, as C computes \<open>c - '0'\<close> on a digit.\<close>

definition digit_val :: "char \<Rightarrow> nat" where
  "digit_val c = (of_char c :: nat) - 48"

lemma less_10_cases:
  assumes "(d::nat) < 10"
  shows "d = 0 \<or> d = 1 \<or> d = 2 \<or> d = 3 \<or> d = 4 \<or> d = 5 \<or> d = 6 \<or> d = 7 \<or> d = 8 \<or> d = 9"
  using assms by arith

lemma digit_char_props:
  assumes "d < 10"
  shows "isdigit (digit_char d)" "digit_val (digit_char d) = d"
    "\<not> isspace (digit_char d)" "digit_char d \<noteq> NUL" "digit_char d \<noteq> CHR ''-''"
    "digit_char d \<noteq> CHR ''[''"
  using less_10_cases [OF assms]
  by (elim disjE; simp add: digit_char_def isdigit_def digit_val_def isspace_def)+

lemma isdigit_digit_val:
  assumes "isdigit c"
  shows "digit_val c < 10" "digit_char (digit_val c) = c"
  using assms by (auto simp: isdigit_def digit_val_def digit_char_def)

lemma isdigit_not_isspace: "isdigit c \<Longrightarrow> \<not> isspace c"
  by (auto simp: isdigit_def isspace_def)

text \<open>The value of a digit string, most significant digit first.\<close>

definition dec_value :: "string \<Rightarrow> nat" where
  "dec_value s = foldl (\<lambda>v c. 10 * v + digit_val c) 0 s"

fun dec_nat :: "nat \<Rightarrow> string" where
  "dec_nat n = (if n < 10 then [digit_char n] else dec_nat (n div 10) @ [digit_char (n mod 10)])"

declare dec_nat.simps [simp del]

lemma dec_value_Nil [simp]: "dec_value [] = 0"
  by (simp add: dec_value_def)

lemma dec_value_snoc [simp]: "dec_value (s @ [c]) = 10 * dec_value s + digit_val c"
  by (simp add: dec_value_def)

lemma dec_nat_nonempty [simp]: "dec_nat n \<noteq> []"
  by (subst dec_nat.simps) simp

lemma dec_nat_digits: "list_all isdigit (dec_nat n)"
proof (induction n rule: dec_nat.induct)
  case (1 n)
  then show ?case
    by (cases "n < 10") (simp_all add: dec_nat.simps [of n] digit_char_props)
qed

lemma dec_value_dec_nat [simp]: "dec_value (dec_nat n) = n"
proof (induction n rule: dec_nat.induct)
  case (1 n)
  show ?case
  proof (cases "n < 10")
    case True
    then show ?thesis
      by (simp add: dec_nat.simps [of n] dec_value_def digit_char_props)
  next
    case False
    with "1.IH" show ?thesis
      by (simp add: dec_nat.simps [of n] digit_char_props)
  qed
qed

lemma dec_nat_length: "n < 10 ^ k \<Longrightarrow> 0 < k \<Longrightarrow> length (dec_nat n) \<le> k"
proof (induction n arbitrary: k rule: dec_nat.induct)
  case (1 n)
  show ?case
  proof (cases "n < 10")
    case True
    with "1.prems" show ?thesis by (simp add: dec_nat.simps [of n])
  next
    case False
    from "1.prems"(2) obtain k' where k: "k = Suc k'" by (cases k) auto
    from False "1.prems"(1) k have "0 < k'" by (cases k') auto
    moreover from "1.prems"(1) k have "n div 10 < 10 ^ k'" by auto
    ultimately have "length (dec_nat (n div 10)) \<le> k'" using "1.IH" False by simp
    with False k show ?thesis by (simp add: dec_nat.simps [of n])
  qed
qed

lemma isdigit_props: "isdigit c \<Longrightarrow> c \<noteq> NUL \<and> c \<noteq> CHR ''-'' \<and> c \<noteq> CHR ''[''"
  by (auto simp: isdigit_def)

lemma is_cstring_dec_nat [simp]: "is_cstring (dec_nat n)"
  using dec_nat_digits [of n] isdigit_props by (auto simp: is_cstring_def list_all_iff)

lemma no_bracket_dec_nat: "CHR ''['' \<notin> set (dec_nat n)"
  using dec_nat_digits [of n] isdigit_props [of "CHR ''[''"] by (auto simp: list_all_iff)

lemma dec_value_less: "dec_value s < 10 ^ length s" if "list_all isdigit s"
  using that
proof (induction s rule: rev_induct)
  case (snoc c s)
  then have "dec_value s < 10 ^ length s" "digit_val c < 10"
    by (auto simp: isdigit_digit_val)
  then show ?case by simp
qed simp

section \<open>Ordered maps\<close>

text \<open>\<open>std::map::insert\<close> on the list of the entries in the order of their keys: an entry that is there stays.\<close>

fun map_insert :: "'k :: linorder \<Rightarrow> 'v \<Rightarrow> ('k \<times> 'v) list \<Rightarrow> ('k \<times> 'v) list" where
  "map_insert k v [] = [(k, v)]"
| "map_insert k v ((k1, v1) # xs) =
     (if k < k1 then (k, v) # (k1, v1) # xs
      else if k = k1 then (k1, v1) # xs
      else (k1, v1) # map_insert k v xs)"

end
