(* ===== verification/ByteStream.thy ===== *)
theory ByteStream
  imports Prelude
begin

text \<open>
  The contract between the protocol layer and the socket it reads from, as a locale, and the
  two read loops of \<open>proto/mythprotobase.cpp\<close> that rely on it: the loop of \<open>ReadField\<close> that
  scans for the field separator, and the loop of \<open>FlushMessage\<close> (and of
  \<open>ProtoTransfer::Flush\<close>) that skips bytes. The loops are defined for any receive function;
  their lemmas are proved once, in the locale, and hold for every provider that interprets it.
\<close>

section \<open>The read loops\<close>

definition PROTO_BUFFER_SIZE :: nat where "PROTO_BUFFER_SIZE = 4000"
definition PROTO_STR_SEPARATOR :: string where "PROTO_STR_SEPARATOR = ''[]:[]''"

abbreviation SEP :: string where "SEP \<equiv> PROTO_STR_SEPARATOR"

text \<open>Skipping \<open>f\<close> bytes by blocks of the size of the local buffer: whether every block
  came complete, and the count of the bytes of complete blocks.\<close>

function flush_loop ::
    "(nat \<Rightarrow> 's \<Rightarrow> bytes \<times> 's) \<Rightarrow> nat \<Rightarrow> nat \<Rightarrow> 's \<Rightarrow> bool \<times> nat \<times> 's" where
  "flush_loop rcv f n s =
     (if f = 0 then (True, n, s)
      else let r = (if f > PROTO_BUFFER_SIZE then PROTO_BUFFER_SIZE else f)
           in case rcv r s of (d, s1) \<Rightarrow>
                (if length d \<noteq> r then (False, n, s1)
                 else flush_loop rcv (f - r) (n + r) s1))"
  by pat_completeness auto
termination
  by (relation "measure (\<lambda>(rcv, f, n, s). f)") (auto simp: PROTO_BUFFER_SIZE_def split: if_splits)

declare flush_loop.simps [simp del]

text \<open>
  The loop of \<open>ReadField\<close>. \<open>buf\<close> holds the bytes \<open>buf[0..p)\<close>, \<open>p_ss\<close> the length of the
  matched part of the separator, \<open>field\<close> what was appended so far. Every store into the
  local array is guarded: a store outside of it is the outcome \<open>FieldOverflow\<close>.
  \<open>FieldHang\<close> is a receive that delivers nothing.
\<close>

datatype field_outcome = FieldOk | FieldHang | FieldOverflow

function field_loop ::
    "(nat \<Rightarrow> 's \<Rightarrow> bytes \<times> 's) \<Rightarrow> nat \<Rightarrow> nat \<Rightarrow> bytes \<Rightarrow> nat \<Rightarrow> string \<Rightarrow> 's
     \<Rightarrow> field_outcome \<times> string \<times> nat \<times> 's" where
  "field_loop rcv l c buf p_ss field s =
     (if c < l
      then case rcv 1 s of (d, s1) \<Rightarrow>
        (case d of
           [] \<Rightarrow> (FieldHang, field, c, s1)
         | ch # _ \<Rightarrow>
             (let c' = Suc c; buf' = buf @ [ch]; p = length buf' in
              if length buf \<ge> PROTO_BUFFER_SIZE then (FieldOverflow, field, c', s1)
              else if ch = PROTO_STR_SEPARATOR ! p_ss
              then (if Suc p_ss \<ge> length PROTO_STR_SEPARATOR
                    then (FieldOk, field @ cstr (take (p - length PROTO_STR_SEPARATOR) buf'), c', s1)
                    else field_loop rcv l c' buf' (Suc p_ss) field s1)
              else if p > PROTO_BUFFER_SIZE - 2 - length PROTO_STR_SEPARATOR
              then (if p \<ge> PROTO_BUFFER_SIZE then (FieldOverflow, field, c', s1)
                    else field_loop rcv l c' [] 0 (field @ cstr buf') s1)
              else field_loop rcv l c' buf' 0 field s1))
      else if length buf \<ge> PROTO_BUFFER_SIZE then (FieldOverflow, field, c, s)
      else (FieldOk, field @ cstr buf, c, s))"
  by pat_completeness auto
termination
  by (relation "measure (\<lambda>(rcv, l, c, buf, p_ss, field, s). l - c)") auto

declare field_loop.simps [simp del]

lemma flush_loop_0 [simp]: "flush_loop rcv 0 n s = (True, n, s)"
  by (simp add: flush_loop.simps)

section \<open>The separator automaton\<close>

text \<open>The state of the match after some bytes, \<open>None\<close> once the separator is complete. A
  mismatch resets the match without looking at the current byte again.\<close>

fun sep_run :: "nat \<Rightarrow> bytes \<Rightarrow> nat option" where
  "sep_run k [] = Some k"
| "sep_run k (ch # cs) =
     (if ch = SEP ! k then (if Suc k \<ge> length SEP then None else sep_run (Suc k) cs)
      else sep_run 0 cs)"

text \<open>A field that is read back when a separator follows, and one that is read back at the
  end of the message.\<close>

definition clean_field :: "string \<Rightarrow> bool" where
  "clean_field f \<longleftrightarrow> sep_run 0 f = Some 0 \<and> is_cstring f"

definition last_field :: "string \<Rightarrow> bool" where
  "last_field f \<longleftrightarrow> sep_run 0 f \<noteq> None \<and> is_cstring f"

lemma length_SEP [simp]: "length SEP = 5"
  by (simp add: PROTO_STR_SEPARATOR_def)

lemma sep_run_Nil_0: "CHR ''['' \<notin> set f \<Longrightarrow> sep_run 0 f = Some 0"
  by (induction f) (auto simp: PROTO_STR_SEPARATOR_def)

lemma clean_field_plain [intro]: "CHR ''['' \<notin> set f \<Longrightarrow> is_cstring f \<Longrightarrow> clean_field f"
  by (simp add: clean_field_def sep_run_Nil_0)

lemma clean_field_Nil [simp]: "clean_field []"
  by (simp add: clean_field_def)

lemma clean_last: "clean_field f \<Longrightarrow> last_field f"
  by (simp add: clean_field_def last_field_def)

lemma clean_field_cstring [simp]: "clean_field f \<Longrightarrow> is_cstring f"
  by (simp add: clean_field_def)

lemma last_field_cstring: "last_field f \<Longrightarrow> is_cstring f"
  by (simp add: last_field_def)

lemma clean_field_dec_nat [simp]: "clean_field (dec_nat n)"
  by (simp add: clean_field_plain no_bracket_dec_nat)

section \<open>The contract\<close>

text \<open>
  A provider has an abstract stream of bytes. Receiving \<open>n\<close> bytes delivers the next \<open>n\<close>
  bytes of the stream, or all of it when it is shorter, and a full delivery moves the stream
  on by exactly what it delivered: nothing is lost, repeated or reordered. \<open>env\<close> relates two
  states that differ only by receiving.
\<close>

locale byte_stream =
  fixes inv :: "'s \<Rightarrow> bool"
    and stream :: "'s \<Rightarrow> bytes"
    and rcv :: "nat \<Rightarrow> 's \<Rightarrow> bytes \<times> 's"
    and env :: "'s \<Rightarrow> 's \<Rightarrow> bool"
  assumes rcv_prefix: "inv s \<Longrightarrow> \<exists>s'. rcv n s = (take n (stream s), s') \<and> inv s' \<and> env s s'
      \<and> (n \<le> length (stream s) \<longrightarrow> stream s' = drop n (stream s))"
    and env_refl: "env s s"
    and env_trans: "env a b \<Longrightarrow> env b c \<Longrightarrow> env a c"
begin

lemma rcv_full:
  assumes "inv s" "n \<le> length (stream s)"
  obtains s' where "rcv n s = (take n (stream s), s')" "inv s'" "env s s'"
    "stream s' = drop n (stream s)"
  using rcv_prefix [OF assms(1), of n] assms(2) by blast

lemma rcv_one:
  assumes "inv s" "stream s = ch # rest"
  obtains s' where "rcv 1 s = ([ch], s')" "inv s'" "env s s'" "stream s' = rest"
  using rcv_full [OF assms(1), of 1] assms(2) by auto

lemma flush_loop_full:
  assumes "inv s" "f \<le> length (stream s)"
  shows "\<exists>s'. flush_loop rcv f n s = (True, n + f, s') \<and> inv s' \<and> env s s'
    \<and> stream s' = drop f (stream s)"
  using assms
proof (induction f arbitrary: n s rule: less_induct)
  case (less f)
  show ?case
  proof (cases "f = 0")
    case True
    with less.prems show ?thesis by (simp add: env_refl)
  next
    case False
    let ?r = "if f > PROTO_BUFFER_SIZE then PROTO_BUFFER_SIZE else f"
    have r: "?r \<le> f" "f - ?r < f" using False by (auto simp: PROTO_BUFFER_SIZE_def)
    from r less.prems have "?r \<le> length (stream s)" by linarith
    from rcv_full [OF less.prems(1) this] obtain s1 where
      s1: "rcv ?r s = (take ?r (stream s), s1)" "inv s1" "env s s1"
        "stream s1 = drop ?r (stream s)" .
    have "f - ?r \<le> length (stream s1)" using s1(4) less.prems(2) by simp
    from less.IH [OF r(2) s1(2) this, of "n + ?r"] obtain s' where
      s': "flush_loop rcv (f - ?r) (n + ?r) s1 = (True, n + ?r + (f - ?r), s')" "inv s'"
        "env s1 s'" "stream s' = drop (f - ?r) (stream s1)" by auto
    have "flush_loop rcv f n s = flush_loop rcv (f - ?r) (n + ?r) s1"
      using False s1(1) r(1) less.prems(2)
      by (subst flush_loop.simps) (auto simp: Let_def)
    moreover have "stream s' = drop f (stream s)" using s'(4) s1(4) r(1) by simp
    ultimately show ?thesis using s' s1(3) r(1) env_trans by force
  qed
qed

lemma flush_loop_inv:
  assumes "inv s" shows "case flush_loop rcv f n s of (ok, m, s') \<Rightarrow> inv s' \<and> env s s' \<and> m \<le> n + f"
  using assms
proof (induction f arbitrary: n s rule: less_induct)
  case (less f)
  show ?case
  proof (cases "f = 0")
    case True
    with less.prems show ?thesis by (simp add: env_refl)
  next
    case False
    let ?r = "if f > PROTO_BUFFER_SIZE then PROTO_BUFFER_SIZE else f"
    have r: "?r \<le> f" "f - ?r < f" using False by (auto simp: PROTO_BUFFER_SIZE_def)
    from rcv_prefix [OF less.prems, of ?r] obtain d s1 where
      s1: "rcv ?r s = (d, s1)" "inv s1" "env s s1" by blast
    from less.IH [OF r(2) s1(2), of "n + ?r"] show ?thesis
      using s1 False r(1) env_trans
      by (subst flush_loop.simps) (auto simp: Let_def split: prod.splits)
  qed
qed

text \<open>The loop never stores outside of its array, keeps the provider's invariant and
  consumes at most the rest of the message.\<close>

lemma field_loop_safe:
  assumes "inv s" "p_ss < 5" "length buf \<le> 3993 + p_ss"
  shows "case field_loop rcv l c buf p_ss field s of (out, f, c', s') \<Rightarrow>
    out \<noteq> FieldOverflow \<and> inv s' \<and> env s s' \<and> c \<le> c' \<and> c' \<le> max l c"
  using assms
proof (induction "l - c" arbitrary: c buf p_ss field s rule: less_induct)
  case less
  show ?case
  proof (cases "c < l")
    case False
    with less.prems show ?thesis
      by (subst field_loop.simps) (simp add: env_refl PROTO_BUFFER_SIZE_def)
  next
    case True
    obtain d s1 where r: "rcv 1 s = (d, s1)" "inv s1" "env s s1"
      using rcv_prefix [OF less.prems(1), of 1] by blast
    show ?thesis
    proof (cases d)
      case Nil
      with True r show ?thesis by (subst field_loop.simps) simp
    next
      case (Cons ch d')
      have dec: "l - Suc c < l - c" using True by simp
      note IH = less.hyps [OF dec r(2)]
      from IH [of "Suc p_ss" "buf @ [ch]" field] IH [of 0 "[]" "field @ cstr (buf @ [ch])"]
        IH [of 0 "buf @ [ch]" field]
      show ?thesis using True r Cons less.prems(2,3) env_trans [OF r(3)]
        by (subst field_loop.simps)
          (auto simp: Let_def PROTO_BUFFER_SIZE_def split: prod.splits if_splits)
    qed
  qed
qed

text \<open>When the rest of the message is in the stream the loop ends with a field, and moves the
  stream on by what it consumed.\<close>

lemma field_loop_within:
  assumes "inv s" "p_ss < 5" "length buf \<le> 3993 + p_ss" "c \<le> l" "l - c \<le> length (stream s)"
  shows "\<exists>f c' s'. field_loop rcv l c buf p_ss field s = (FieldOk, f, c', s') \<and> inv s' \<and> env s s'
    \<and> c \<le> c' \<and> c' \<le> l \<and> stream s' = drop (c' - c) (stream s)"
  using assms
proof (induction "l - c" arbitrary: c buf p_ss field s rule: less_induct)
  case less
  show ?case
  proof (cases "c < l")
    case False
    with less.prems show ?thesis
      by (subst field_loop.simps) (simp add: env_refl PROTO_BUFFER_SIZE_def)
  next
    case True
    then obtain ch st where st: "stream s = ch # st" using less.prems(5) by (cases "stream s") auto
    obtain s1 where r: "rcv 1 s = ([ch], s1)" "inv s1" "env s s1" "stream s1 = st"
      using rcv_one [OF less.prems(1) st] .
    have dec: "l - Suc c < l - c" "Suc c \<le> l" "l - Suc c \<le> length (stream s1)"
      using True less.prems(5) st r(4) by auto
    have IH: "\<exists>f c' s'. field_loop rcv l (Suc c) b q fd s1 = (FieldOk, f, c', s') \<and> inv s' \<and> env s s'
        \<and> c \<le> c' \<and> c' \<le> l \<and> stream s' = drop (c' - c) (stream s)"
      if qb: "q < 5" "length b \<le> 3993 + q" for b q fd
    proof -
      from less.hyps [OF dec(1) r(2) qb dec(2,3), of fd] obtain f c' s' where
        1: "field_loop rcv l (Suc c) b q fd s1 = (FieldOk, f, c', s')" "inv s'" "env s1 s'"
          "Suc c \<le> c'" "c' \<le> l" "stream s' = drop (c' - Suc c) (stream s1)" by blast
      from 1(4) obtain k where "c' = Suc c + k" by (auto simp: le_iff_add)
      with 1 r st env_trans [OF r(3)] show ?thesis by auto
    qed
    from IH [of "Suc p_ss" "buf @ [ch]" field] IH [of 0 "[]" "field @ cstr (buf @ [ch])"]
      IH [of 0 "buf @ [ch]" field]
    show ?thesis using True r less.prems(2,3) st
      by (subst field_loop.simps)
        (auto simp: Let_def PROTO_BUFFER_SIZE_def Suc_diff_le split: if_splits)
  qed
qed

text \<open>Scanning bytes that do not complete the separator.\<close>

lemma field_loop_scan:
  assumes "inv s" "stream s = f @ rest" "sep_run k f = Some k'" "k < 5"
    "length buf \<le> 3993 + k" "c + length f \<le> l" "is_cstring buf" "is_cstring f"
  shows "\<exists>field' buf' s'. field_loop rcv l c buf k field s
      = field_loop rcv l (c + length f) buf' k' field' s'
    \<and> field' @ buf' = field @ buf @ f \<and> inv s' \<and> env s s' \<and> stream s' = rest
    \<and> k' < 5 \<and> length buf' \<le> 3993 + k' \<and> is_cstring buf'"
  using assms
proof (induction f arbitrary: c buf k field s)
  case Nil
  then show ?case
    by (intro exI [of _ field] exI [of _ buf] exI [of _ s]) (simp add: env_refl)
next
  case (Cons ch f)
  from rcv_one [OF Cons.prems(1)] Cons.prems(2) obtain s1 where
    r: "rcv 1 s = ([ch], s1)" "inv s1" "env s s1" "stream s1 = f @ rest" by auto
  have cl: "c < l" "Suc c + length f \<le> l" using Cons.prems(6) by auto
  have csch: "ch \<noteq> NUL" "is_cstring f" using Cons.prems(8) by auto
  have bufb: "length buf < PROTO_BUFFER_SIZE" using Cons.prems(4,5)
    by (simp add: PROTO_BUFFER_SIZE_def)
  have goal: ?case if unf: "field_loop rcv l c buf k field s = field_loop rcv l (Suc c) b1 k1 f1 s1"
    and eq: "f1 @ b1 = field @ buf @ [ch]" and run: "sep_run k1 f = Some k'"
    and kb: "k1 < 5" "length b1 \<le> 3993 + k1" "is_cstring b1" for b1 k1 f1
  proof -
    from Cons.IH [OF r(2,4) run kb(1,2) cl(2) kb(3) csch(2), of f1]
    obtain field' buf' s' where h: "field_loop rcv l (Suc c) b1 k1 f1 s1
        = field_loop rcv l (Suc c + length f) buf' k' field' s'"
      "field' @ buf' = f1 @ b1 @ f" "inv s'" "env s1 s'" "stream s' = rest"
      "k' < 5" "length buf' \<le> 3993 + k'" "is_cstring buf'" by blast
    from h(2) eq have "field' @ buf' = field @ buf @ ch # f" by (metis append.assoc append_Cons append_Nil)
    with h unf r(3) env_trans show ?thesis
      by (intro exI [of _ field'] exI [of _ buf'] exI [of _ s']) auto
  qed
  show ?case
  proof (cases "ch = SEP ! k")
    case True
    with Cons.prems(3) have k: "Suc k < 5" "sep_run (Suc k) f = Some k'"
      by (auto split: if_splits)
    show ?thesis
    proof (rule goal [of "buf @ [ch]" "Suc k" field])
      show "field_loop rcv l c buf k field s = field_loop rcv l (Suc c) (buf @ [ch]) (Suc k) field s1"
        using r cl True k bufb by (subst field_loop.simps) (simp add: Let_def)
    qed (use k Cons.prems(5,7) csch in auto)
  next
    case ne: False
    with Cons.prems(3) have run: "sep_run 0 f = Some k'" by simp
    show ?thesis
    proof (cases "length (buf @ [ch]) > PROTO_BUFFER_SIZE - 2 - length SEP")
      case True
      show ?thesis
      proof (rule goal [of "[]" 0 "field @ cstr (buf @ [ch])"])
        show "field_loop rcv l c buf k field s
            = field_loop rcv l (Suc c) [] 0 (field @ cstr (buf @ [ch])) s1"
          using r cl ne bufb True Cons.prems(4,5)
          by (subst field_loop.simps) (simp add: Let_def PROTO_BUFFER_SIZE_def)
      qed (use run Cons.prems(7) csch in auto)
    next
      case False
      show ?thesis
      proof (rule goal [of "buf @ [ch]" 0 field])
        show "field_loop rcv l c buf k field s = field_loop rcv l (Suc c) (buf @ [ch]) 0 field s1"
          using r cl ne bufb False by (subst field_loop.simps) (simp add: Let_def)
      qed (use run Cons.prems(7) csch False in \<open>auto simp: PROTO_BUFFER_SIZE_def\<close>)
    qed
  qed
qed

lemma field_loop_sep_step:
  assumes "inv s" "stream s = ch # rest" "ch = SEP ! k" "k < 4" "c < l" "length buf < 4000"
  obtains s1 where "field_loop rcv l c buf k field s
      = field_loop rcv l (Suc c) (buf @ [ch]) (Suc k) field s1"
    "inv s1" "env s s1" "stream s1 = rest"
proof -
  from rcv_one [OF assms(1,2)] obtain s1 where
    r: "rcv 1 s = ([ch], s1)" "inv s1" "env s s1" "stream s1 = rest" .
  have "field_loop rcv l c buf k field s
      = field_loop rcv l (Suc c) (buf @ [ch]) (Suc k) field s1"
    using r assms(3-6) by (subst field_loop.simps) (simp add: Let_def PROTO_BUFFER_SIZE_def)
  with r that show ?thesis by blast
qed

text \<open>Reading the separator itself ends the field.\<close>

lemma field_loop_sep:
  assumes "inv s" "stream s = SEP @ rest" "c + 5 \<le> l" "length buf \<le> 3993" "is_cstring buf"
  shows "\<exists>s'. field_loop rcv l c buf 0 field s = (FieldOk, field @ buf, c + 5, s')
    \<and> inv s' \<and> env s s' \<and> stream s' = rest"
proof -
  note S = PROTO_STR_SEPARATOR_def
  from assms(2) have st: "stream s = SEP ! 0 # SEP ! 1 # SEP ! 2 # SEP ! 3 # SEP ! 4 # rest"
    by (simp add: S)
  obtain s1 where 1: "field_loop rcv l c buf 0 field s
      = field_loop rcv l (Suc c) (buf @ [SEP ! 0]) 1 field s1" "inv s1" "env s s1"
      "stream s1 = SEP ! 1 # SEP ! 2 # SEP ! 3 # SEP ! 4 # rest"
    using field_loop_sep_step [OF assms(1) st refl, of c l buf field] assms(3,4) by auto
  obtain s2 where 2: "field_loop rcv l (Suc c) (buf @ [SEP ! 0]) 1 field s1
      = field_loop rcv l (c + 2) (buf @ [SEP ! 0, SEP ! 1]) 2 field s2" "inv s2" "env s1 s2"
      "stream s2 = SEP ! 2 # SEP ! 3 # SEP ! 4 # rest"
    using field_loop_sep_step [OF 1(2,4) refl, of "Suc c" l "buf @ [SEP ! 0]" field] assms(3,4)
    by (auto simp: numeral_2_eq_2)
  obtain s3 where 3: "field_loop rcv l (c + 2) (buf @ [SEP ! 0, SEP ! 1]) 2 field s2
      = field_loop rcv l (c + 3) (buf @ [SEP ! 0, SEP ! 1, SEP ! 2]) 3 field s3" "inv s3"
      "env s2 s3" "stream s3 = SEP ! 3 # SEP ! 4 # rest"
    using field_loop_sep_step [OF 2(2,4) refl, of "c + 2" l "buf @ [SEP ! 0, SEP ! 1]" field]
      assms(3,4) by (auto simp: numeral_2_eq_2 numeral_3_eq_3)
  have e: "Suc (c + 3) = c + 4" "Suc 3 = (4::nat)" by simp_all
  obtain s4 where 4: "field_loop rcv l (c + 3) (buf @ [SEP ! 0, SEP ! 1, SEP ! 2]) 3 field s3
      = field_loop rcv l (c + 4) (buf @ [SEP ! 0, SEP ! 1, SEP ! 2, SEP ! 3]) 4 field s4"
      "inv s4" "env s3 s4" "stream s4 = SEP ! 4 # rest"
    using field_loop_sep_step [OF 3(2,4) refl, of "c + 3" l "buf @ [SEP ! 0, SEP ! 1, SEP ! 2]" field]
      assms(3,4) unfolding e by auto
  obtain s5 where 5: "rcv 1 s4 = ([SEP ! 4], s5)" "inv s5" "env s4 s5" "stream s5 = rest"
    using rcv_one [OF 4(2,4)] .
  have "field_loop rcv l (c + 4) (buf @ [SEP ! 0, SEP ! 1, SEP ! 2, SEP ! 3]) 4 field s4
      = (FieldOk, field @ buf, c + 5, s5)"
    using 5 assms(3,4,5) by (subst field_loop.simps) (simp add: Let_def PROTO_BUFFER_SIZE_def)
  moreover have "env s s5" using 1(3) 2(3) 3(3) 4(3) 5(3) by (blast intro: env_trans)
  ultimately show ?thesis using 1(1) 2(1) 3(1) 4(1) 5 by (intro exI [of _ s5]) simp
qed

text \<open>The whole loop on a clean field followed by the separator, and on the last field.\<close>

lemma field_loop_clean:
  assumes "inv s" "stream s = f @ SEP @ rest" "clean_field f" "c + length f + 5 \<le> l"
  shows "\<exists>s'. field_loop rcv l c [] 0 [] s = (FieldOk, f, c + length f + 5, s')
    \<and> inv s' \<and> env s s' \<and> stream s' = rest"
proof -
  from assms(3) have run: "sep_run 0 f = Some 0" and cs: "is_cstring f"
    by (auto simp: clean_field_def)
  from field_loop_scan [OF assms(1,2) run, of "[]" c l "[]"] assms(4) cs
  obtain field' buf' s1 where 1: "field_loop rcv l c [] 0 [] s
      = field_loop rcv l (c + length f) buf' 0 field' s1" "field' @ buf' = f" "inv s1" "env s s1"
      "stream s1 = SEP @ rest" "length buf' \<le> 3993" "is_cstring buf'" by auto
  from field_loop_sep [OF 1(3,5) _ 1(6,7), of "c + length f" l field'] assms(4)
  show ?thesis using 1 env_trans by auto
qed

lemma field_loop_last:
  assumes "inv s" "stream s = f @ rest" "last_field f" "c + length f = l"
  shows "\<exists>s'. field_loop rcv l c [] 0 [] s = (FieldOk, f, l, s')
    \<and> inv s' \<and> env s s' \<and> stream s' = rest"
proof -
  from assms(3) obtain k' where run: "sep_run 0 f = Some k'" and cs: "is_cstring f"
    by (auto simp: last_field_def)
  from field_loop_scan [OF assms(1,2) run, of "[]" c l "[]"] assms(4) cs
  obtain field' buf' s1 where 1: "field_loop rcv l c [] 0 [] s
      = field_loop rcv l (c + length f) buf' k' field' s1" "field' @ buf' = f" "inv s1" "env s s1"
      "stream s1 = rest" "k' < 5" "length buf' \<le> 3993 + k'" "is_cstring buf'" by auto
  have "field_loop rcv l (c + length f) buf' k' field' s1 = (FieldOk, field' @ buf', l, s1)"
    using assms(4) 1(6-8) by (subst field_loop.simps) (simp add: PROTO_BUFFER_SIZE_def)
  with 1 show ?thesis by auto
qed

end

text \<open>
  The loops also keep every relation that a single receive keeps, whatever the state. This is
  the contract for the frame facts: it assumes nothing of the stream.
\<close>

locale receive_frame =
  fixes rcv :: "nat \<Rightarrow> 's \<Rightarrow> bytes \<times> 's"
    and keep :: "'s \<Rightarrow> 's \<Rightarrow> bool"
  assumes keep_rcv: "keep s (snd (rcv n s))"
    and keep_refl: "keep s s"
    and keep_trans: "keep a b \<Longrightarrow> keep b c \<Longrightarrow> keep a c"
begin

lemma keep_rcv_eq: "rcv n s = (d, s') \<Longrightarrow> keep s s'"
  using keep_rcv [of s n] by simp

lemma keep_flush_loop: "keep s (snd (snd (flush_loop rcv f n s)))"
proof (induction f arbitrary: n s rule: less_induct)
  case (less f)
  show ?case
    by (subst flush_loop.simps)
      (auto simp: Let_def keep_refl PROTO_BUFFER_SIZE_def split: prod.split
        intro: keep_rcv_eq keep_trans [OF keep_rcv_eq less.IH])
qed

lemma keep_field_loop: "keep s (snd (snd (snd (field_loop rcv l c buf p field s))))"
proof (induction "l - c" arbitrary: c buf p field s rule: less_induct)
  case less
  show ?case
    by (subst field_loop.simps)
      (auto simp: Let_def keep_refl split: prod.split list.split
        intro: keep_rcv_eq keep_trans [OF keep_rcv_eq less])
qed

end

text \<open>The scan stays within the message.\<close>

lemma field_loop_consumed:
  assumes "c \<le> l"
  shows "c \<le> fst (snd (snd (field_loop rcv l c buf p field s)))
    \<and> fst (snd (snd (field_loop rcv l c buf p field s))) \<le> l"
  using assms
proof (induction "l - c" arbitrary: c buf p field s rule: less_induct)
  case less
  show ?case
  proof (cases "c < l")
    case False
    then show ?thesis using less.prems by (subst (1 2) field_loop.simps) auto
  next
    case True
    then have IH: "Suc c \<le> fst (snd (snd (field_loop rcv l (Suc c) buf p field s)))"
        "fst (snd (snd (field_loop rcv l (Suc c) buf p field s))) \<le> l" for buf p field s
      using less.hyps [of "Suc c"] by simp_all
    show ?thesis using True
      by (subst (1 2) field_loop.simps)
        (auto simp: Let_def IH IH(1) [THEN Suc_leD] split: prod.split list.split)
  qed
qed

end
