(* ===== verification/Socket.thy ===== *)
theory Socket
  imports ByteStream
begin

text \<open>
  The TCP client socket of \<open>private/socket.cpp\<close> with its receive buffer.

  The operating system is an explicit script. A connected handle carries the events its
  future calls to \<open>poll\<close> and \<open>recv\<close> will meet (\<open>rx\<close>) and the outcomes of its future
  calls to \<open>send\<close> (\<open>tx\<close>); the socket carries the outcomes of its future connection attempts
  (\<open>os_connect\<close>) and the log of what the kernel accepted for sending (\<open>os_sent\<close>). Every
  finite run of the code against any peer is a run of the model for some script, so a theorem
  that holds for all scripts holds for all peers. An exhausted \<open>rx\<close> script means silence
  (\<open>poll\<close> times out), an exhausted \<open>tx\<close> script means that \<open>send\<close> accepts everything, an
  exhausted \<open>os_connect\<close> script means that the connection is refused.
\<close>

section \<open>The operating system\<close>

datatype rx_event =
    RxTimeout            \<comment> \<open>\<open>poll\<close> returns 0\<close>
  | RxPollError nat      \<comment> \<open>\<open>poll\<close> returns a negative value\<close>
  | RxData bytes         \<comment> \<open>\<open>POLLIN\<close>, and \<open>recv\<close> finds these bytes\<close>
  | RxRecvError nat      \<comment> \<open>\<open>POLLIN\<close>, and \<open>recv\<close> returns a negative value\<close>
  | RxEof                \<comment> \<open>\<open>POLLIN\<close>, and \<open>recv\<close> returns 0\<close>
  | RxHangup             \<comment> \<open>one of \<open>POLLHUP\<close>, \<open>POLLERR\<close>, \<open>POLLNVAL\<close> without \<open>POLLIN\<close>\<close>
  | RxOther              \<comment> \<open>none of these bits\<close>

datatype tx_event =
    TxSent               \<comment> \<open>\<open>send\<close> accepts the whole message\<close>
  | TxFailed nat nat     \<comment> \<open>\<open>send\<close> accepts only so many bytes; the error\<close>

record link =
  rx :: "rx_event list"
  tx :: "tx_event list"

datatype connect_event =
    ResolveError nat                \<comment> \<open>\<open>getaddrinfo\<close> fails\<close>
  | Addresses "(nat + link) list"   \<comment> \<open>per address: the error of \<open>__connectAddr\<close>, or a handle\<close>

definition poll_rx :: "link \<Rightarrow> rx_event \<times> link" where
  "poll_rx l =
     (case rx l of
        [] \<Rightarrow> (RxTimeout, l)
      | RxData d # _ \<Rightarrow> (RxData d, l)
      | RxRecvError e # _ \<Rightarrow> (RxRecvError e, l)
      | RxEof # _ \<Rightarrow> (RxEof, l)
      | ev # evs \<Rightarrow> (ev, l\<lparr>rx := evs\<rparr>))"

text \<open>\<open>recv\<close> for at most \<open>n\<close> bytes; without data it gives up after the receive timeout.\<close>

definition recv_rx :: "nat \<Rightarrow> link \<Rightarrow> (nat + bytes) \<times> link" where
  "recv_rx n l =
     (case rx l of
        RxData d # evs \<Rightarrow>
          (Inr (take n d), l\<lparr>rx := if length d \<le> n then evs else RxData (drop n d) # evs\<rparr>)
      | RxRecvError e # evs \<Rightarrow> (Inl e, l\<lparr>rx := evs\<rparr>)
      | RxEof # _ \<Rightarrow> (Inr [], l)
      | _ # evs \<Rightarrow> (Inl 11, l\<lparr>rx := evs\<rparr>)
      | [] \<Rightarrow> (Inl 11, l))"

section \<open>The socket\<close>

definition SOCKET_RCVBUF_MINSIZE :: int where "SOCKET_RCVBUF_MINSIZE = 16384"
definition SOCKET_BUFFER_SIZE :: nat where "SOCKET_BUFFER_SIZE = 1472"

text \<open>\<open>m_socket\<close> is \<open>None\<close> for \<open>INVALID_SOCKET_VALUE\<close>; \<open>m_bufptr\<close> is an offset into
  \<open>m_buffer\<close>; \<open>m_errno\<close> is \<open>None\<close> for 0.\<close>

record tcpsocket =
  m_timeout :: int
  m_socket :: "link option"
  m_rcvbuf :: int
  m_errno :: "errno option"
  m_buffer :: "bytes option"
  m_bufptr :: nat
  m_buflen :: nat
  m_rcvlen :: nat
  os_connect :: "connect_event list"
  os_sent :: "bytes list"
  os_hostname :: string

definition TcpSocket_new :: "connect_event list \<Rightarrow> string \<Rightarrow> tcpsocket" where
  "TcpSocket_new os host =
     \<lparr>m_timeout = 5000, m_socket = None, m_rcvbuf = SOCKET_RCVBUF_MINSIZE, m_errno = None,
      m_buffer = None, m_bufptr = 0, m_buflen = SOCKET_BUFFER_SIZE, m_rcvlen = 0,
      os_connect = os, os_sent = [], os_hostname = host\<rparr>"

definition IsValid :: "tcpsocket \<Rightarrow> bool" where
  "IsValid s \<longleftrightarrow> m_socket s \<noteq> None"

text \<open>The draining of the peer before the handle is closed reads into a local buffer and
  leaves no trace but the closed handle.\<close>

definition Disconnect :: "tcpsocket \<Rightarrow> tcpsocket" where
  "Disconnect s = (if IsValid s then s\<lparr>m_socket := None, m_rcvlen := 0\<rparr> else s)"

text \<open>The loop over the resolved addresses: the first that connects, else the last error.\<close>

fun connect_loop :: "errno option \<Rightarrow> (nat + link) list \<Rightarrow> errno option \<times> link option" where
  "connect_loop err [] = (err, None)"
| "connect_loop err (Inr l # as) = (None, Some l)"
| "connect_loop err (Inl e # as) = connect_loop (Some (EOTHER e)) as"

definition Connect :: "int \<Rightarrow> tcpsocket \<Rightarrow> bool \<times> tcpsocket" where
  "Connect rcvbuf s =
     (let s1 = (if IsValid s then Disconnect s else s);
          s2 = (if rcvbuf > SOCKET_RCVBUF_MINSIZE then s1\<lparr>m_rcvbuf := rcvbuf\<rparr> else s1)
      in case os_connect s2 of
           [] \<Rightarrow> (False, s2\<lparr>m_errno := Some (EOTHER 111)\<rparr>)
         | ResolveError e # os \<Rightarrow> (False, s2\<lparr>os_connect := os, m_errno := Some (EOTHER e)\<rparr>)
         | Addresses as # os \<Rightarrow>
             (case connect_loop None as of
                (err, l) \<Rightarrow> (err = None, s2\<lparr>os_connect := os, m_socket := l, m_errno := err\<rparr>)))"

definition SendData :: "bytes \<Rightarrow> tcpsocket \<Rightarrow> bool \<times> tcpsocket" where
  "SendData msg s =
     (case m_socket s of
        None \<Rightarrow> (False, s\<lparr>m_errno := Some ENOTCONN\<rparr>)
      | Some l \<Rightarrow>
          (case tx l of
             TxFailed k e # evs \<Rightarrow>
               (if k = length msg
                then (True, s\<lparr>m_socket := Some (l\<lparr>tx := evs\<rparr>), os_sent := os_sent s @ [msg],
                              m_errno := None\<rparr>)
                else (False, s\<lparr>m_socket := Some (l\<lparr>tx := evs\<rparr>),
                               os_sent := os_sent s @ [take k msg], m_errno := Some (EOTHER e)\<rparr>))
           | evs \<Rightarrow> (True, s\<lparr>m_socket := Some (l\<lparr>tx := tl evs\<rparr>), os_sent := os_sent s @ [msg],
                             m_errno := None\<rparr>)))"

text \<open>\<open>rcv_loop n s\<close> is the \<open>while (n > 0)\<close> loop of \<open>ReceiveData\<close>: the bytes stored from
  there on, and the socket after it. Below the size of the buffer it fills the buffer and
  copies from it; from there on it receives straight into the destination.\<close>

function rcv_loop :: "nat \<Rightarrow> tcpsocket \<Rightarrow> bytes \<times> tcpsocket" where
  "rcv_loop n s =
     (if n = 0 then ([], s) else
      case m_socket s of
        None \<Rightarrow> ([], s)
      | Some l \<Rightarrow>
        (case poll_rx l of (ev, l1) \<Rightarrow>
          (if ev = RxTimeout
           then ([], s\<lparr>m_socket := Some l1, m_errno := Some ETIMEDOUT\<rparr>)
           else case ev of
             RxPollError e \<Rightarrow> ([], s\<lparr>m_socket := Some l1, m_errno := Some (EOTHER e)\<rparr>)
           | RxHangup \<Rightarrow> ([], s\<lparr>m_socket := Some l1, m_errno := Some ENOTCONN\<rparr>)
           | RxOther \<Rightarrow> ([], s\<lparr>m_socket := Some l1\<rparr>)
           | _ \<Rightarrow>
             (if n < m_buflen s
              then (case recv_rx (m_buflen s) l1 of
                      (Inl e, l2) \<Rightarrow> ([], s\<lparr>m_socket := Some l2, m_errno := Some (EOTHER e)\<rparr>)
                    | (Inr d, l2) \<Rightarrow>
                        (if d = [] then ([], s\<lparr>m_socket := Some l2\<rparr>)
                         else let k = min (length d) n;
                                  b = (case m_buffer s of None \<Rightarrow> [] | Some b \<Rightarrow> b);
                                  s2 = s\<lparr>m_socket := Some l2, m_rcvlen := length d,
                                         m_buffer := Some (d @ drop (length d) b), m_bufptr := k\<rparr>
                              in case rcv_loop (n - k) s2 of
                                   (out, s3) \<Rightarrow> (take k d @ out, s3)))
              else (case recv_rx n l1 of
                      (Inl e, l2) \<Rightarrow> ([], s\<lparr>m_socket := Some l2, m_errno := Some (EOTHER e)\<rparr>)
                    | (Inr d, l2) \<Rightarrow>
                        (if d = [] then ([], s\<lparr>m_socket := Some l2\<rparr>)
                         else case rcv_loop (n - length d) (s\<lparr>m_socket := Some l2\<rparr>) of
                                (out, s3) \<Rightarrow> (d @ out, s3)))))))"
  by pat_completeness auto
termination
proof (relation "measure fst"; (clarsimp simp: min_def)?)
qed

declare rcv_loop.simps [simp del]

definition ReceiveData :: "nat \<Rightarrow> tcpsocket \<Rightarrow> bytes \<times> tcpsocket" where
  "ReceiveData n s =
     (if \<not> IsValid s then ([], s\<lparr>m_errno := Some ENOTCONN\<rparr>)
      else
        (let s0 = s\<lparr>m_errno := None\<rparr> in
         case m_buffer s0 of
           None \<Rightarrow> rcv_loop n (s0\<lparr>m_buffer := Some (replicate (m_buflen s0) NUL),
                                  m_bufptr := 0, m_rcvlen := 0\<rparr>)
         | Some b \<Rightarrow>
             (if m_bufptr s0 < m_rcvlen s0
              then let k = min (m_rcvlen s0 - m_bufptr s0) n;
                       d = take k (drop (m_bufptr s0) b);
                       s1 = s0\<lparr>m_bufptr := m_bufptr s0 + k\<rparr>
                   in if n - k = 0 then (d, s1)
                      else case rcv_loop (n - k) (s1\<lparr>m_bufptr := 0, m_rcvlen := 0\<rparr>) of
                             (out, s2) \<Rightarrow> (d @ out, s2)
              else rcv_loop n (s0\<lparr>m_bufptr := 0, m_rcvlen := 0\<rparr>))))"

definition BlockingRead :: "nat \<Rightarrow> tcpsocket \<Rightarrow> bytes \<times> tcpsocket" where
  "BlockingRead n s =
     (case m_socket s of
        None \<Rightarrow> ([], s)
      | Some l \<Rightarrow>
          (if n = 0 then ([], s)
           else if m_buffer s \<noteq> None \<and> m_bufptr s < m_rcvlen s
           then let k = min (m_rcvlen s - m_bufptr s) n
                in (take k (drop (m_bufptr s) (the (m_buffer s))), s\<lparr>m_bufptr := m_bufptr s + k\<rparr>)
           else case recv_rx n l of
                  (Inl e, l1) \<Rightarrow> ([], s\<lparr>m_socket := Some l1, m_errno := Some (EOTHER e)\<rparr>)
                | (Inr d, l1) \<Rightarrow> (d, s\<lparr>m_socket := Some l1\<rparr>)))"

text \<open>\<open>Listen\<close> polls the handle; it does not look at the receive buffer.\<close>

definition Listen :: "tcpsocket \<Rightarrow> int \<times> tcpsocket" where
  "Listen s =
     (case m_socket s of
        None \<Rightarrow> (-1, s\<lparr>m_errno := Some ENOTCONN\<rparr>)
      | Some l \<Rightarrow>
          (case poll_rx l of (ev, l1) \<Rightarrow>
            (case ev of
               RxTimeout \<Rightarrow> (0, s\<lparr>m_socket := Some l1\<rparr>)
             | RxPollError e \<Rightarrow> (-1, s\<lparr>m_socket := Some l1, m_errno := Some (EOTHER e)\<rparr>)
             | RxHangup \<Rightarrow> (-1, s\<lparr>m_socket := Some l1, m_errno := Some ENOTCONN\<rparr>)
             | RxOther \<Rightarrow> (0, s\<lparr>m_socket := Some l1\<rparr>)
             | _ \<Rightarrow> (1, s\<lparr>m_socket := Some l1\<rparr>))))"

section \<open>The byte stream behind the socket\<close>

text \<open>The bytes the handle will deliver before anything else than data happens, and the
  bytes the socket will deliver: the rest of its buffer, then those of the handle.\<close>

fun lead :: "rx_event list \<Rightarrow> bytes" where
  "lead (RxData d # evs) = (if d = [] then [] else d @ lead evs)"
| "lead _ = []"

definition buffered :: "tcpsocket \<Rightarrow> bytes" where
  "buffered s = (case m_buffer s of None \<Rightarrow> [] | Some b \<Rightarrow> drop (m_bufptr s) (take (m_rcvlen s) b))"

definition avail :: "tcpsocket \<Rightarrow> bytes" where
  "avail s = (case m_socket s of None \<Rightarrow> [] | Some l \<Rightarrow> buffered s @ lead (rx l))"

definition sock_inv :: "tcpsocket \<Rightarrow> bool" where
  "sock_inv s \<longleftrightarrow> 0 < m_buflen s \<and> (m_socket s = None \<longrightarrow> m_rcvlen s = 0)
     \<and> (m_buffer s = None
          \<or> length (the (m_buffer s)) = m_buflen s \<and> m_rcvlen s \<le> m_buflen s)"

text \<open>What receiving never changes.\<close>

definition same_env :: "tcpsocket \<Rightarrow> tcpsocket \<Rightarrow> bool" where
  "same_env s s' \<longleftrightarrow> m_timeout s' = m_timeout s \<and> m_rcvbuf s' = m_rcvbuf s
     \<and> m_buflen s' = m_buflen s \<and> os_connect s' = os_connect s \<and> os_sent s' = os_sent s
     \<and> os_hostname s' = os_hostname s \<and> map_option tx (m_socket s') = map_option tx (m_socket s)"

lemma same_env_refl [simp]: "same_env s s"
  by (simp add: same_env_def)

lemma same_env_trans: "same_env a b \<Longrightarrow> same_env b c \<Longrightarrow> same_env a c"
  by (simp add: same_env_def)

lemma same_env_valid: "same_env s s' \<Longrightarrow> IsValid s' = IsValid s"
  unfolding same_env_def IsValid_def by (metis map_option_is_None)

lemma lead_nonempty: "lead evs \<noteq> [] \<Longrightarrow> \<exists>d es. evs = RxData d # es \<and> d \<noteq> []"
  by (cases evs rule: lead.cases) (auto split: if_splits)

lemma recv_data:
  assumes "rx l = RxData d0 # evs" "d0 \<noteq> []" "0 < m"
  obtains d l2 where "recv_rx m l = (Inr d, l2)" "d \<noteq> []" "length d \<le> m"
    "lead (rx l) = d @ lead (rx l2)" "tx l2 = tx l"
proof
  show "recv_rx m l = (Inr (take m d0),
      l\<lparr>rx := if length d0 \<le> m then evs else RxData (drop m d0) # evs\<rparr>)"
    using assms by (simp add: recv_rx_def)
qed (use assms in auto)

lemma rcv_loop_0 [simp]: "rcv_loop 0 s = ([], s)"
  by (simp add: rcv_loop.simps)

lemma avail_drained:
  "m_socket s = Some l \<Longrightarrow> m_rcvlen s \<le> m_bufptr s \<Longrightarrow> avail s = lead (rx l)"
  by (auto simp: avail_def buffered_def split: option.splits)

text \<open>The loop delivers the leading data and stops short only where the data stops.\<close>

lemma rcv_loop_stop:
  assumes "m_socket s = Some l" "lead (rx l) = []" "sock_inv s" "m_rcvlen s \<le> m_bufptr s"
  shows "\<exists>s'. rcv_loop n s = ([], s') \<and> sock_inv s' \<and> same_env s s' \<and> (n = 0 \<longrightarrow> avail s' = [])"
proof (cases "n = 0")
  case True
  with assms show ?thesis by (simp add: avail_drained)
next
  case False
  then have n: "0 < n" and b: "0 < m_buflen s" using assms(3) by (auto simp: sock_inv_def)
  have inv: "sock_inv (s\<lparr>m_socket := Some x, m_errno := y\<rparr>)" "sock_inv (s\<lparr>m_socket := Some x\<rparr>)"
    for x y
    using assms(3) by (simp_all add: sock_inv_def)
  show ?thesis
  proof (cases "rx l")
    case Nil
    with n assms(1) inv show ?thesis
      by (simp add: rcv_loop.simps [of n s] poll_rx_def same_env_def)
  next
    case (Cons ev evs)
    with n b assms(1,2) inv show ?thesis
      by (cases ev)
        (auto simp: rcv_loop.simps [of n s] poll_rx_def recv_rx_def same_env_def split: if_splits)
  qed
qed

lemma rcv_loop_spec:
  assumes "m_socket s = Some l" "sock_inv s" "m_rcvlen s \<le> m_bufptr s" "m_buffer s = Some b"
  shows "\<exists>s'. rcv_loop n s = (take n (lead (rx l)), s') \<and> sock_inv s' \<and> same_env s s'
    \<and> (n \<le> length (lead (rx l)) \<longrightarrow> avail s' = drop n (lead (rx l)))"
  using assms
proof (induction n arbitrary: s l b rule: less_induct)
  case (less n)
  show ?case
  proof (cases "n = 0 \<or> lead (rx l) = []")
    case True
    then show ?thesis
    proof
      assume "n = 0"
      with less.prems show ?thesis by (simp add: avail_drained)
    next
      assume "lead (rx l) = []"
      with rcv_loop_stop [OF less.prems(1) this less.prems(2,3), of n] show ?thesis by auto
    qed
  next
    case False
    then obtain d0 evs where rx: "rx l = RxData d0 # evs" "d0 \<noteq> []"
      by (auto dest: lead_nonempty)
    have bl: "0 < m_buflen s" using less.prems(2) by (simp add: sock_inv_def)
    have poll: "poll_rx l = (RxData d0, l)" using rx by (simp add: poll_rx_def)
    show ?thesis
    proof (cases "n < m_buflen s")
      case True
      from recv_data [OF rx bl] obtain d l2 where r: "recv_rx (m_buflen s) l = (Inr d, l2)"
        and d: "d \<noteq> []" "length d \<le> m_buflen s" and ld: "lead (rx l) = d @ lead (rx l2)"
        and txl: "tx l2 = tx l" .
      let ?k = "min (length d) n"
      let ?s2 = "s\<lparr>m_socket := Some l2, m_rcvlen := length d,
        m_buffer := Some (d @ drop (length d) b), m_bufptr := ?k\<rparr>"
      have inv2: "sock_inv ?s2" using less.prems(2,4) d by (simp add: sock_inv_def)
      have se2: "same_env s ?s2" using less.prems(1) txl by (simp add: same_env_def)
      have unf: "rcv_loop n s = (case rcv_loop (n - ?k) ?s2 of (out, s3) \<Rightarrow> (take ?k d @ out, s3))"
        using False less.prems(1,4) poll True r d by (simp add: rcv_loop.simps [of n s] Let_def)
      show ?thesis
      proof (cases "n \<le> length d")
        case le: True
        then have "rcv_loop n s = (take n d, ?s2)" using unf by (simp add: rcv_loop.simps min_def)
        moreover have "avail ?s2 = drop n d @ lead (rx l2)"
          using le by (simp add: avail_def buffered_def min_def)
        ultimately show ?thesis using inv2 se2 ld le by simp
      next
        case gt: False
        then have lt: "n - ?k < n" using d False by (simp add: min_def)
        from less.IH [OF lt _ inv2] gt obtain s' where
          "rcv_loop (n - ?k) ?s2 = (take (n - ?k) (lead (rx l2)), s')" "sock_inv s'"
          "same_env ?s2 s'"
          "n - ?k \<le> length (lead (rx l2)) \<longrightarrow> avail s' = drop (n - ?k) (lead (rx l2))"
          by (auto simp: min_def)
        with unf ld gt same_env_trans [OF se2] show ?thesis by (auto simp: min_def)
      qed
    next
      case big: False
      from False have n0: "0 < n" by simp
      from recv_data [OF rx n0] obtain d l2 where r: "recv_rx n l = (Inr d, l2)"
        and d: "d \<noteq> []" "length d \<le> n" and ld: "lead (rx l) = d @ lead (rx l2)"
        and txl: "tx l2 = tx l" .
      let ?s2 = "s\<lparr>m_socket := Some l2\<rparr>"
      have inv2: "sock_inv ?s2" using less.prems(2) by (simp add: sock_inv_def)
      have se2: "same_env s ?s2" using less.prems(1) txl by (simp add: same_env_def)
      have unf: "rcv_loop n s = (case rcv_loop (n - length d) ?s2 of (out, s3) \<Rightarrow> (d @ out, s3))"
        using False less.prems(1,4) poll big r d by (simp add: rcv_loop.simps [of n s] Let_def)
      have lt: "n - length d < n" using d n0 by simp
      from less.IH [OF lt _ inv2] less.prems(3,4) obtain s' where
        "rcv_loop (n - length d) ?s2 = (take (n - length d) (lead (rx l2)), s')" "sock_inv s'"
        "same_env ?s2 s'"
        "n - length d \<le> length (lead (rx l2)) \<longrightarrow> avail s' = drop (n - length d) (lead (rx l2))"
        by auto
      with unf ld d same_env_trans [OF se2] show ?thesis by auto
    qed
  qed
qed

section \<open>The socket is a byte stream\<close>

lemma ReceiveData_spec:
  assumes "sock_inv s" "m_socket s = Some l"
  shows "\<exists>s'. ReceiveData n s = (take n (avail s), s') \<and> sock_inv s' \<and> same_env s s'
    \<and> (n \<le> length (avail s) \<longrightarrow> avail s' = drop n (avail s))"
proof (cases "m_buffer s")
  case None
  let ?s1 = "s\<lparr>m_errno := None, m_buffer := Some (replicate (m_buflen s) NUL), m_bufptr := 0,
    m_rcvlen := 0\<rparr>"
  have "sock_inv ?s1" "same_env s ?s1" using assms by (simp_all add: sock_inv_def same_env_def)
  moreover have "avail s = lead (rx l)" using None assms(2) by (simp add: avail_def buffered_def)
  moreover have "ReceiveData n s = rcv_loop n ?s1"
    using None assms(2) by (simp add: ReceiveData_def IsValid_def Let_def)
  ultimately show ?thesis
    using rcv_loop_spec [of ?s1 l _ n] assms(2) same_env_trans by fastforce
next
  case (Some b)
  with assms(1) have lb: "length b = m_buflen s" "m_rcvlen s \<le> m_buflen s"
    by (auto simp: sock_inv_def)
  show ?thesis
  proof (cases "m_bufptr s < m_rcvlen s")
    case False
    let ?s1 = "s\<lparr>m_errno := None, m_bufptr := 0, m_rcvlen := 0\<rparr>"
    have "sock_inv ?s1" "same_env s ?s1" using assms by (auto simp: sock_inv_def same_env_def)
    moreover have "avail s = lead (rx l)" using False assms(2) by (simp add: avail_drained)
    moreover have "ReceiveData n s = rcv_loop n ?s1"
      using Some False assms(2) by (simp add: ReceiveData_def IsValid_def Let_def)
    ultimately show ?thesis
      using rcv_loop_spec [of ?s1 l b n] assms(2) Some same_env_trans by fastforce
  next
    case True
    let ?m = "m_rcvlen s - m_bufptr s"
    let ?d = "drop (m_bufptr s) (take (m_rcvlen s) b)"
    have ld: "length ?d = ?m" using lb by simp
    have av: "avail s = ?d @ lead (rx l)" using Some assms(2) by (simp add: avail_def buffered_def)
    have tk: "take (min ?m n) (drop (m_bufptr s) b) = take (min ?m n) ?d"
      using True by (simp add: drop_take)
    show ?thesis
    proof (cases "n \<le> ?m")
      case le: True
      let ?s1 = "s\<lparr>m_errno := None, m_bufptr := m_bufptr s + n\<rparr>"
      have "ReceiveData n s = (take n ?d, ?s1)"
        using Some True assms(2) le tk by (simp add: ReceiveData_def IsValid_def Let_def min_def)
      moreover have "avail ?s1 = drop n (avail s)"
        using av ld le Some assms(2) by (simp add: avail_def buffered_def add.commute)
      moreover have "sock_inv ?s1" "same_env s ?s1"
        using assms by (auto simp: sock_inv_def same_env_def)
      ultimately show ?thesis using av ld le by simp
    next
      case gt: False
      let ?s1 = "s\<lparr>m_errno := None, m_bufptr := 0, m_rcvlen := 0\<rparr>"
      have i1: "sock_inv ?s1" "same_env s ?s1"
        using assms by (auto simp: sock_inv_def same_env_def)
      have "ReceiveData n s = (case rcv_loop (n - ?m) ?s1 of (out, s2) \<Rightarrow> (?d @ out, s2))"
        using Some True assms(2) gt tk ld
        by (simp add: ReceiveData_def IsValid_def Let_def min_def)
      then show ?thesis
        using rcv_loop_spec [of ?s1 l b "n - ?m"] assms(2) Some i1 same_env_trans [OF i1(2)] av ld gt
        by fastforce
    qed
  qed
qed

text \<open>A connected socket meets the contract of the protocol layer.\<close>

definition sock_ok :: "tcpsocket \<Rightarrow> bool" where
  "sock_ok s \<longleftrightarrow> sock_inv s \<and> IsValid s"

interpretation tcp: byte_stream sock_ok avail ReceiveData same_env
proof unfold_locales
  fix s n assume "sock_ok s"
  then obtain l where l: "sock_inv s" "m_socket s = Some l"
    by (auto simp: sock_ok_def IsValid_def)
  from ReceiveData_spec [OF l, of n] \<open>sock_ok s\<close> same_env_valid
  show "\<exists>s'. ReceiveData n s = (take n (avail s), s') \<and> sock_ok s' \<and> same_env s s'
      \<and> (n \<le> length (avail s) \<longrightarrow> avail s' = drop n (avail s))"
    by (auto simp: sock_ok_def)
qed (auto intro: same_env_trans)

text \<open>What every receive keeps, on a connected or a disconnected socket.\<close>

definition rcv_keeps :: "tcpsocket \<Rightarrow> tcpsocket \<Rightarrow> bool" where
  "rcv_keeps s s' \<longleftrightarrow> same_env s s' \<and> (sock_inv s \<longrightarrow> sock_inv s')"

lemma recv_rx_tx: "recv_rx n l = (r, l') \<Longrightarrow> tx l' = tx l"
  by (auto simp: recv_rx_def split: list.splits rx_event.splits)

lemma poll_rx_tx: "poll_rx l = (ev, l') \<Longrightarrow> tx l' = tx l"
  by (auto simp: poll_rx_def split: list.splits rx_event.splits)

lemma rcv_loop_env: "same_env s (snd (rcv_loop n s))"
proof (induction n arbitrary: s rule: less_induct)
  case (less n)
  show ?case
  proof (cases "n = 0 \<or> m_socket s = None")
    case True
    then show ?thesis by (subst rcv_loop.simps) auto
  next
    case False
    then obtain l where n: "0 < n" and l: "m_socket s = Some l" by auto
    obtain ev l1 where p: "poll_rx l = (ev, l1)" by force
    have tx1: "tx l1 = tx l" using p by (rule poll_rx_tx)
    have e: "same_env s (s\<lparr>m_socket := Some l2, m_errno := er\<rparr>)"
        "same_env s (s\<lparr>m_socket := Some l2\<rparr>)"
        "same_env s (s\<lparr>m_socket := Some l2, m_rcvlen := a, m_buffer := b, m_bufptr := c\<rparr>)"
      if "tx l2 = tx l" for l2 er a b c
      using l that by (simp_all add: same_env_def)
    have IH: "rcv_loop m s' = (out, s3) \<Longrightarrow> m < n \<Longrightarrow> same_env s s' \<Longrightarrow> same_env s s3"
      for m s' out s3
      using less.IH [of m s'] same_env_trans by fastforce
    show ?thesis using n l p e [OF tx1] e recv_rx_tx tx1
      by (subst rcv_loop.simps)
        (auto simp: Let_def split: prod.split sum.split rx_event.split intro!: e elim!: IH)
  qed
qed

lemma ReceiveData_env: "same_env s (snd (ReceiveData n s))"
proof -
  have "same_env s s1 \<Longrightarrow> same_env s (snd (rcv_loop m s1))" for s1 m
    using rcv_loop_env same_env_trans by blast
  moreover have "same_env s (s\<lparr>m_errno := e, m_bufptr := a, m_rcvlen := b\<rparr>)"
      "same_env s (s\<lparr>m_errno := e, m_bufptr := a\<rparr>)" "same_env s (s\<lparr>m_errno := e\<rparr>)"
      "same_env s (s\<lparr>m_errno := e, m_buffer := c, m_bufptr := a, m_rcvlen := b\<rparr>)" for e a b c
    by (simp_all add: same_env_def)
  ultimately show ?thesis
    by (auto simp: ReceiveData_def Let_def case_prod_beta split: option.split)
qed

lemma ReceiveData_inv: "sock_inv s \<Longrightarrow> sock_inv (snd (ReceiveData n s))"
proof (cases "m_socket s")
  case None
  assume "sock_inv s"
  with None show ?thesis by (auto simp: ReceiveData_def IsValid_def sock_inv_def)
next
  case (Some l)
  assume "sock_inv s"
  from ReceiveData_spec [OF this Some, of n] show ?thesis by auto
qed

interpretation tcpf: receive_frame ReceiveData rcv_keeps
  by unfold_locales
    (auto simp: rcv_keeps_def ReceiveData_env ReceiveData_inv intro: same_env_trans)

section \<open>Connecting and sending\<close>

lemma Connect_consumes:
  "os_connect s \<noteq> [] \<Longrightarrow> length (os_connect (snd (Connect rcvbuf s))) < length (os_connect s)"
  by (cases "os_connect s")
    (auto simp: Connect_def Disconnect_def Let_def split: connect_event.splits prod.splits)

lemma Connect_exhausted: "os_connect s = [] \<Longrightarrow> \<not> fst (Connect rcvbuf s)"
  by (simp add: Connect_def Disconnect_def)

lemma Disconnect_simps [simp]:
  "\<not> IsValid (Disconnect s)" "sock_inv s \<Longrightarrow> sock_inv (Disconnect s)"
  "os_connect (Disconnect s) = os_connect s" "os_sent (Disconnect s) = os_sent s"
  "m_buflen (Disconnect s) = m_buflen s" "m_socket (Disconnect s) = None"
  "avail (Disconnect s) = []" "Disconnect (Disconnect s) = Disconnect s"
  by (auto simp: Disconnect_def IsValid_def sock_inv_def avail_def)

lemma connect_loop_None: "connect_loop err as = (None, l) \<Longrightarrow> err \<noteq> None \<or> as \<noteq> [] \<Longrightarrow> l \<noteq> None"
  by (induction err as rule: connect_loop.induct) auto

lemma Connect_inv: "sock_inv s \<Longrightarrow> sock_inv (snd (Connect rcvbuf s))"
  by (auto simp: Connect_def Disconnect_def sock_inv_def Let_def IsValid_def
      split: list.split connect_event.split prod.split)

text \<open>The outcome of a send: all or a part of the message reaches the log, and the socket keeps
  everything else.\<close>

lemma SendData_inv: "sock_inv s \<Longrightarrow> sock_inv (snd (SendData msg s))"
  by (auto simp: SendData_def sock_inv_def split: option.split list.split tx_event.split)

lemma SendData_frame [simp]:
  "os_connect (snd (SendData msg s)) = os_connect s" "m_buflen (snd (SendData msg s)) = m_buflen s"
  "IsValid (snd (SendData msg s)) = IsValid s" "m_timeout (snd (SendData msg s)) = m_timeout s"
  "avail (snd (SendData msg s)) = avail s"
  by (auto simp: SendData_def IsValid_def avail_def buffered_def
      split: option.split list.split tx_event.split)

lemma SendData_sent:
  "fst (SendData msg s) \<Longrightarrow> os_sent (snd (SendData msg s)) = os_sent s @ [msg]"
  by (auto simp: SendData_def split: option.splits list.splits tx_event.splits if_splits)

lemma SendData_disconnected: "\<not> IsValid s \<Longrightarrow> \<not> fst (SendData msg s)"
  by (simp add: SendData_def IsValid_def)

text \<open>After a successful connection the first byte delivered is the first byte of the new peer:
  nothing of an earlier connection is left in the buffer.\<close>

lemma Connect_fresh:
  assumes "sock_inv s" "os_connect s = Addresses as # os" "connect_loop None as = (None, Some l)"
  shows "\<exists>s'. Connect rcvbuf s = (True, s') \<and> sock_ok s' \<and> m_socket s' = Some l
    \<and> avail s' = lead (rx l) \<and> os_connect s' = os \<and> os_sent s' = os_sent s"
proof -
  have z: "m_rcvlen s = 0" if "\<not> IsValid s" using that assms(1) by (auto simp: sock_inv_def IsValid_def)
  show ?thesis
    using assms z by (auto simp: Connect_def Disconnect_def Let_def sock_ok_def sock_inv_def IsValid_def
        avail_def buffered_def split: option.split)
qed

section \<open>Properties\<close>

text \<open>A connected socket whose peer sends the bytes \<open>b\<close> and then stays silent, for examples.\<close>

definition demo_socket :: "bytes \<Rightarrow> tcpsocket" where
  "demo_socket b = (TcpSocket_new [] ''localhost'')\<lparr>m_socket := Some \<lparr>rx = [RxData b], tx = []\<rparr>\<rparr>"

lemma demo_socket_ok [simp]: "sock_ok (demo_socket b)" "avail (demo_socket b) = b"
  "m_socket (demo_socket b) = Some \<lparr>rx = [RxData b], tx = []\<rparr>"
  by (simp_all add: demo_socket_def sock_ok_def sock_inv_def TcpSocket_new_def IsValid_def avail_def
      buffered_def SOCKET_BUFFER_SIZE_def)

lemma TcpSocket_new_inv [simp]: "sock_inv (TcpSocket_new os host)"
  by (simp add: sock_inv_def TcpSocket_new_def SOCKET_BUFFER_SIZE_def)

text \<open>C2: The buffered receive is a view of the byte stream: a call for \<open>n\<close> bytes yields the next
  \<open>n\<close> bytes, or all there are before the peer pauses, and a full delivery leaves exactly the
  bytes behind it. It holds for every size of the request, every fragmentation by the peer and
  every content of the receive buffer.\<close>

theorem receive_data_stream:
  assumes "sock_ok s"
  shows "\<exists>s'. ReceiveData n s = (take n (avail s), s') \<and> sock_ok s' \<and> same_env s s'
    \<and> (n \<le> length (avail s) \<longrightarrow> avail s' = drop n (avail s))"
  using assms by (rule tcp.rcv_prefix)

theorem receive_data_stream_witness:
  "\<exists>s'. ReceiveData 3 (demo_socket ''abcde'') = (''abc'', s') \<and> avail s' = ''de''"
  using receive_data_stream [of "demo_socket ''abcde''" 3] by auto

text \<open>A new connection never delivers a byte of an earlier one: after a successful
  \<open>Connect\<close> the stream is the stream of the new handle, whatever the buffer held.\<close>

theorem connect_fresh_stream:
  assumes "sock_inv s" "os_connect s = Addresses as # os" "connect_loop None as = (None, Some l)"
  shows "\<exists>s'. Connect rcvbuf s = (True, s') \<and> sock_ok s' \<and> avail s' = lead (rx l)"
  using Connect_fresh [OF assms, of rcvbuf] by blast

theorem connect_fresh_stream_witness:
  "\<exists>s'. Connect 0 (TcpSocket_new [Addresses [Inl 111, Inr \<lparr>rx = [RxData ''xy''], tx = []\<rparr>]] [])
     = (True, s') \<and> sock_ok s' \<and> avail s' = ''xy''"
  using connect_fresh_stream [of "TcpSocket_new [Addresses [Inl 111, Inr \<lparr>rx = [RxData ''xy''], tx = []\<rparr>]] []"
      "[Inl 111, Inr \<lparr>rx = [RxData ''xy''], tx = []\<rparr>]" "[]" "\<lparr>rx = [RxData ''xy''], tx = []\<rparr>" 0]
  by (simp add: TcpSocket_new_inv) (simp add: TcpSocket_new_def)

end
