(* ===== verification/Builtin.thy ===== *)
theory Builtin
  imports Prelude
begin

unbundle bit_operations_syntax

text \<open>
  The conversion routines of \<open>private/builtin.c\<close> and \<open>private/builtin.h\<close>: decimal numbers
  to and from C strings at every width the protocol uses, and the hexadecimal digits of the
  URI encoder. A routine that returns an error code and stores its result through a pointer
  becomes a function into \<open>errno + 'a\<close>: \<open>Inr\<close> is the return value 0 with the stored
  result, \<open>Inl e\<close> is the return value \<open>-(e)\<close> with nothing stored.
\<close>

section \<open>Parsing\<close>

definition INT64_MAX :: u64 where "INT64_MAX = 9223372036854775807"
definition INT32_MAX :: u64 where "INT32_MAX = 2147483647"
definition UINT32_MAX :: u64 where "UINT32_MAX = 4294967295"

fun skip_space :: "string \<Rightarrow> string" where
  "skip_space [] = []"
| "skip_space (c # cs) = (if isspace c then skip_space cs else c # cs)"

fun scan_sign :: "string \<Rightarrow> i64 \<times> string" where
  "scan_sign [] = (1, [])"
| "scan_sign (c # cs) = (if c = CHR ''-'' then (-1, cs) else (1, c # cs))"

text \<open>The digit loop, on the 64-bit accumulator of the source: the multiplication and the
  addition wrap, and the range check follows them.\<close>

fun scan_digits :: "u64 \<Rightarrow> u64 \<Rightarrow> string \<Rightarrow> u64 result" where
  "scan_digits limit val [] = Inr val"
| "scan_digits limit val (c # cs) =
     (if isspace c then Inr val
      else if \<not> isdigit c then Inl EINVAL
      else let val' = val * 10 + of_nat (digit_val c)
           in if limit < val' then Inl ERANGE else scan_digits limit val' cs)"

fun string_to_int64 :: "string option \<Rightarrow> i64 result" where
  "string_to_int64 None = Inl EINVAL"
| "string_to_int64 (Some str) =
     (case scan_sign (skip_space str) of (sign, s) \<Rightarrow>
       (case scan_digits INT64_MAX 0 s of
          Inl e \<Rightarrow> Inl e
        | Inr val \<Rightarrow> Inr (sign * val)))"

fun string_to_int32 :: "string option \<Rightarrow> i32 result" where
  "string_to_int32 None = Inl EINVAL"
| "string_to_int32 (Some str) =
     (case scan_sign (skip_space str) of (sign, s) \<Rightarrow>
       (case scan_digits INT32_MAX 0 s of
          Inl e \<Rightarrow> Inl e
        | Inr val \<Rightarrow> Inr (ucast (sign * val))))"

definition string_to_int16 :: "string option \<Rightarrow> u16 result" where
  "string_to_int16 str =
     (case string_to_int32 str of
        Inl e \<Rightarrow> Inl e
      | Inr val \<Rightarrow> if sint val > 32767 \<or> sint val < - 32768 then Inl ERANGE
                   else Inr (ucast val))"

definition string_to_int8 :: "string option \<Rightarrow> i8 result" where
  "string_to_int8 str =
     (case string_to_int32 str of
        Inl e \<Rightarrow> Inl e
      | Inr val \<Rightarrow> if sint val > 127 \<or> sint val < - 128 then Inl ERANGE
                   else Inr (ucast val))"

fun string_to_uint32 :: "string option \<Rightarrow> u32 result" where
  "string_to_uint32 None = Inl EINVAL"
| "string_to_uint32 (Some str) =
     (case scan_digits UINT32_MAX 0 (skip_space str) of
        Inl e \<Rightarrow> Inl e
      | Inr val \<Rightarrow> Inr (ucast val))"

definition string_to_uint16 :: "string option \<Rightarrow> u16 result" where
  "string_to_uint16 str =
     (case string_to_uint32 str of
        Inl e \<Rightarrow> Inl e
      | Inr val \<Rightarrow> if val > 65535 then Inl ERANGE else Inr (ucast val))"

definition string_to_uint8 :: "string option \<Rightarrow> u8 result" where
  "string_to_uint8 str =
     (case string_to_uint32 str of
        Inl e \<Rightarrow> Inl e
      | Inr val \<Rightarrow> if val > 255 then Inl ERANGE else Inr (ucast val))"

section \<open>Hexadecimal digits\<close>

definition hex_val :: "char \<Rightarrow> nat option" where
  "hex_val c =
     (let n = of_char c in
      if 48 \<le> n \<and> n \<le> 57 then Some (n - 48)
      else if 65 \<le> n \<and> n \<le> 70 then Some (n - 65 + 10)
      else if 97 \<le> n \<and> n \<le> 102 then Some (n - 97 + 10)
      else None)"

text \<open>\<open>val\<close> is a 32-bit \<open>int\<close>; the shift is taken to wrap.\<close>

fun hex_loop :: "i32 \<Rightarrow> string \<Rightarrow> i32 result" where
  "hex_loop val [] = Inr val"
| "hex_loop val (c # cs) =
     (case hex_val c of
        None \<Rightarrow> Inl EINVAL
      | Some d \<Rightarrow> hex_loop (push_bit 4 val + of_nat d) cs)"

definition hex_to_num :: "string \<Rightarrow> i32 result" where
  "hex_to_num str = hex_loop 0 str"

definition char_to_hex :: "char \<Rightarrow> string" where
  "char_to_hex c =
     (let n = of_char c :: nat in
      [''0123456789abcdef'' ! (n div 16), ''0123456789abcdef'' ! (n mod 16)])"

definition char_to_uhex :: "char \<Rightarrow> string" where
  "char_to_uhex c =
     (let n = of_char c :: nat in
      [''0123456789ABCDEF'' ! (n div 16), ''0123456789ABCDEF'' ! (n mod 16)])"

section \<open>Printing\<close>

text \<open>
  \<open>uint_to_strdec\<close> and \<open>uint64_to_strdec\<close> are the same code at two widths, so one
  polymorphic definition stands for both. \<open>strdec_loop room n\<close> is the \<open>do .. while\<close> loop:
  \<open>room\<close> is \<open>end - ptr\<close>; it yields the characters stored, least significant first, and the
  final value of \<open>n\<close>.
\<close>

fun strdec_loop :: "nat \<Rightarrow> 'a::len word \<Rightarrow> char list \<times> 'a word" where
  "strdec_loop 0 n = ([], n)"
| "strdec_loop (Suc room) n =
     (let n10 = n div 10; c = digit_char (unat (n - n10 * 10)) in
      if n10 div 10 > 0 \<and> room > 0
      then (case strdec_loop room n10 of (cs, m) \<Rightarrow> (c # cs, m))
      else ([c], n10))"

text \<open>The digits are stored in reverse; this is the loop that swaps them in place,
  with \<open>i\<close> the offset of \<open>str\<close> and \<open>j\<close> that of \<open>ptr\<close>.\<close>

function reorder :: "char list \<Rightarrow> nat \<Rightarrow> nat \<Rightarrow> char list" where
  "reorder xs i j =
     (let j' = j - 1 in
      if i < j' then reorder (xs[i := xs ! j', j' := xs ! i]) (Suc i) j' else xs)"
  by pat_completeness auto
termination
  by (relation "measure (\<lambda>(xs, i, j). j)") auto

declare reorder.simps [simp del]

definition uint_to_strdec :: "'a::len word \<Rightarrow> nat \<Rightarrow> bool \<Rightarrow> string" where
  "uint_to_strdec u len pad =
     (if len = 0 then []
      else case strdec_loop len u of (cs, n) \<Rightarrow>
        (let cs1 = (if length cs < len \<and> n > 0 then cs @ [digit_char (unat n)] else cs);
             cs2 = (if length cs < len \<and> pad
                    then cs1 @ replicate (len - length cs1) (CHR ''0'') else cs1)
         in reorder cs2 0 (length cs2)))"

definition uint64_to_string :: "u64 \<Rightarrow> string" where
  "uint64_to_string num = uint_to_strdec num 20 False"

definition uint32_to_string :: "u32 \<Rightarrow> string" where
  "uint32_to_string num = uint_to_strdec num 10 False"

definition uint16_to_string :: "u16 \<Rightarrow> string" where
  "uint16_to_string num = uint_to_strdec (ucast num :: u32) 5 False"

definition uint8_to_string :: "u8 \<Rightarrow> string" where
  "uint8_to_string num = uint_to_strdec (ucast num :: u32) 3 False"

text \<open>The signed ones call \<open>snprintf\<close> with \<open>%d\<close> on a buffer of 32 bytes.\<close>

definition dec_int :: "int \<Rightarrow> string" where
  "dec_int i = (if i < 0 then CHR ''-'' # dec_nat (nat (- i)) else dec_nat (nat i))"

definition int64_to_string :: "i64 \<Rightarrow> string" where
  "int64_to_string num = take 31 (dec_int (sint num))"

definition int32_to_string :: "i32 \<Rightarrow> string" where
  "int32_to_string num = take 31 (dec_int (sint num))"

definition int16_to_string :: "u16 \<Rightarrow> string" where
  "int16_to_string num = take 31 (dec_int (sint num))"

definition int8_to_string :: "i8 \<Rightarrow> string" where
  "int8_to_string num = take 31 (dec_int (sint num))"

section \<open>The digit loop computes the decimal value\<close>

definition dec_from :: "nat \<Rightarrow> string \<Rightarrow> nat" where
  "dec_from v s = foldl (\<lambda>v c. 10 * v + digit_val c) v s"

definition token :: "string \<Rightarrow> string" where
  "token s = takeWhile (\<lambda>c. \<not> isspace c) s"

lemma dec_from_simps [simp]:
  "dec_from v [] = v" "dec_from v (c # s) = dec_from (10 * v + digit_val c) s"
  by (simp_all add: dec_from_def)

lemma dec_from_0: "dec_from 0 s = dec_value s"
  by (simp add: dec_from_def dec_value_def)

lemma dec_from_ge: "v \<le> dec_from v s"
proof (induction s arbitrary: v)
  case (Cons c s)
  have "v \<le> 10 * v + digit_val c" by simp
  also have "\<dots> \<le> dec_from (10 * v + digit_val c) s" by (rule Cons.IH)
  finally show ?case by simp
qed simp

lemma token_simps [simp]:
  "token [] = []" "isspace c \<Longrightarrow> token (c # s) = []"
  "\<not> isspace c \<Longrightarrow> token (c # s) = c # token s"
  by (simp_all add: token_def)

lemma token_digits: "list_all isdigit s \<Longrightarrow> token s = s"
  by (induction s) (auto simp: isdigit_not_isspace)

lemma skip_space_digits: "list_all isdigit s \<Longrightarrow> skip_space s = s"
  by (cases s) (auto simp: isdigit_not_isspace)

text \<open>One step of the accumulator does not wrap while its value fits in 64 bits.\<close>

lemma unat_step:
  fixes val :: u64
  assumes "10 * unat val + digit_val c < 2 ^ 64"
  shows "unat (val * 10 + of_nat (digit_val c)) = 10 * unat val + digit_val c"
proof -
  have "val * 10 + of_nat (digit_val c) = (of_nat (10 * unat val + digit_val c) :: u64)"
    by (simp add: mult.commute)
  with assms show ?thesis
    using unat_of_nat_small [of "10 * unat val + digit_val c", where ?'a = 64]
    by (simp add: mult.commute)
qed

lemma scan_digits_value:
  assumes "list_all isdigit (token s)" "dec_from (unat val) (token s) \<le> unat limit"
  shows "scan_digits limit val s = Inr (of_nat (dec_from (unat val) (token s)))"
  using assms
proof (induction s arbitrary: val)
  case (Cons c s)
  show ?case
  proof (cases "isspace c")
    case False
    let ?v = "10 * unat val + digit_val c"
    from False Cons.prems have d: "isdigit c" and ds: "list_all isdigit (token s)"
      and le: "dec_from ?v (token s) \<le> unat limit" by auto
    from le dec_from_ge [of ?v "token s"] have vle: "?v \<le> unat limit" by linarith
    have "unat limit < 2 ^ 64" using unat_below [of limit] by simp
    with vle have un: "unat (val * 10 + of_nat (digit_val c)) = ?v"
      by (intro unat_step) linarith
    with vle have nlt: "\<not> limit < val * 10 + of_nat (digit_val c)"
      by (simp add: word_less_nat_alt)
    from ds le un have "scan_digits limit (val * 10 + of_nat (digit_val c)) s
        = Inr (of_nat (dec_from ?v (token s)))"
      using Cons.IH [of "val * 10 + of_nat (digit_val c)"] by simp
    with False d nlt show ?thesis by (simp add: Let_def)
  qed simp
qed simp

lemma scan_digits_sound:
  assumes "scan_digits limit val s = Inr r" "unat val \<le> unat limit"
    and small: "10 * unat limit + 9 < 2 ^ 64"
  shows "list_all isdigit (token s) \<and> dec_from (unat val) (token s) \<le> unat limit"
  using assms(1,2)
proof (induction s arbitrary: val)
  case (Cons c s)
  show ?case
  proof (cases "isspace c")
    case True
    with Cons.prems show ?thesis by simp
  next
    case False
    let ?w = "val * 10 + of_nat (digit_val c)"
    from Cons.prems(1) False have d: "isdigit c" and nlt: "\<not> limit < ?w"
      and rec: "scan_digits limit ?w s = Inr r"
      by (auto simp: Let_def split: if_splits)
    from d have "digit_val c < 10" by (rule isdigit_digit_val)
    with Cons.prems(2) small have "10 * unat val + digit_val c < 2 ^ 64" by linarith
    then have un: "unat ?w = 10 * unat val + digit_val c" by (rule unat_step)
    from nlt have "unat ?w \<le> unat limit" by (simp add: word_less_nat_alt)
    from Cons.IH [OF rec this] d un False show ?thesis by simp
  qed
qed simp

lemma scan_digits_iff:
  assumes "10 * unat limit + 9 < 2 ^ 64"
  shows "scan_digits limit 0 s = Inr r \<longleftrightarrow>
    list_all isdigit (token s) \<and> dec_value (token s) \<le> unat limit
    \<and> r = of_nat (dec_value (token s))"
proof
  assume h: "scan_digits limit 0 s = Inr r"
  from scan_digits_sound [OF h _ assms]
  have ok: "list_all isdigit (token s)" "dec_from (unat (0::u64)) (token s) \<le> unat limit"
    by simp_all
  with scan_digits_value [OF ok] h
  show "list_all isdigit (token s) \<and> dec_value (token s) \<le> unat limit
    \<and> r = of_nat (dec_value (token s))"
    by (simp add: dec_from_0)
next
  assume "list_all isdigit (token s) \<and> dec_value (token s) \<le> unat limit
    \<and> r = of_nat (dec_value (token s))"
  then show "scan_digits limit 0 s = Inr r"
    using scan_digits_value [of s 0 limit] by (simp add: dec_from_0)
qed

lemma limits_unat [simp]:
  "unat INT64_MAX = 9223372036854775807" "unat INT32_MAX = 2147483647"
  "unat UINT32_MAX = 4294967295"
  by (simp_all add: INT64_MAX_def INT32_MAX_def UINT32_MAX_def)

section \<open>Printing is the decimal representation\<close>

lemma rev_dec_nat:
  "rev (dec_nat n) = digit_char (n mod 10) # (if n < 10 then [] else rev (dec_nat (n div 10)))"
  by (simp add: dec_nat.simps [of n])

lemma unat_div_10: "4 \<le> LENGTH('a) \<Longrightarrow> unat (n div 10 :: 'a::len word) = unat n div 10"
  by (simp only: unat_div unat_10)

lemma unat_last_digit:
  "4 \<le> LENGTH('a) \<Longrightarrow> unat (n - n div 10 * 10 :: 'a::len word) = unat n mod 10"
  by (simp only: minus_div_mult_eq_mod unat_mod unat_10)

lemma strdec_loop_digits:
  assumes l: "4 \<le> LENGTH('a)"
    and "strdec_loop room (n :: 'a::len word) = (cs, m)" "0 < room"
  shows "0 < length cs \<and> length cs \<le> room \<and>
    (if length cs < room \<and> m > 0 then cs @ [digit_char (unat m)] else cs)
      = take room (rev (dec_nat (unat n)))
    \<and> (length cs < room \<longrightarrow> m < 10)"
  using assms(2,3)
proof (induction room arbitrary: n cs m)
  case (Suc room)
  let ?k = "unat n"
  have pos10: "(n div 10 div 10 > 0) \<longleftrightarrow> 100 \<le> ?k"
    using unat_div_10 [OF l, of n] unat_div_10 [OF l, of "n div 10"]
    by (simp add: word_less_nat_alt div_mult2_eq [symmetric]) arith
  have lt10: "m < 10 \<longleftrightarrow> unat m < 10"
    by (simp only: word_less_nat_alt unat_10 [OF l])
  show ?case
  proof (cases "n div 10 div 10 > 0 \<and> room > 0")
    case True
    obtain cs' m' where rec: "strdec_loop room (n div 10) = (cs', m')"
      by (cases "strdec_loop room (n div 10)")
    with True Suc.prems(1) have cs: "cs = digit_char (?k mod 10) # cs'" "m = m'"
      by (auto simp: Let_def unat_last_digit [OF l])
    from Suc.IH [OF rec] True
    have IH: "0 < length cs' \<and> length cs' \<le> room \<and>
      (if length cs' < room \<and> m' > 0 then cs' @ [digit_char (unat m')] else cs')
        = take room (rev (dec_nat (?k div 10))) \<and> (length cs' < room \<longrightarrow> m' < 10)"
      by (simp add: unat_div_10 [OF l])
    from True pos10 have "\<not> ?k < 10" by simp
    then have "take (Suc room) (rev (dec_nat ?k))
      = digit_char (?k mod 10) # take room (rev (dec_nat (?k div 10)))"
      using rev_dec_nat [of ?k] by simp
    with IH cs show ?thesis by (auto split: if_splits)
  next
    case False
    with Suc.prems(1) have cs: "cs = [digit_char (?k mod 10)]" "m = n div 10"
      by (auto simp: Let_def unat_last_digit [OF l])
    have um: "unat m = ?k div 10" using cs by (simp add: unat_div_10 [OF l])
    show ?thesis
    proof (cases "room = 0")
      case True
      then show ?thesis using cs rev_dec_nat [of ?k] by (auto split: if_splits)
    next
      case rm: False
      with False pos10 have "?k < 100" by simp
      then have m10: "unat m < 10" and k: "?k div 10 < 10" using um by simp_all
      have r2: "rev (dec_nat (?k div 10)) = [digit_char (?k div 10)]"
        using k by (simp add: dec_nat.simps [of "?k div 10"])
      have "m > 0 \<longleftrightarrow> \<not> ?k < 10" using um by (simp add: word_less_nat_alt) arith
      with rm cs r2 um show ?thesis
        using rev_dec_nat [of ?k] m10 lt10 by (cases room) (auto simp: min_def)
    qed
  qed
qed simp

lemma length_reorder [simp]: "length (reorder xs i j) = length xs"
proof (induction xs i j rule: reorder.induct)
  case (1 xs i j)
  then show ?case by (cases "i < j - 1") (simp_all add: reorder.simps [of xs i j] Let_def)
qed

lemma nth_reorder:
  assumes "j \<le> length xs" "k < length xs"
  shows "reorder xs i j ! k = (if i \<le> k \<and> k < j then xs ! (i + j - 1 - k) else xs ! k)"
  using assms
proof (induction xs i j rule: reorder.induct)
  case (1 xs i j)
  show ?case
  proof (cases "i < j - 1")
    case True
    let ?ys = "xs[i := xs ! (j - 1), j - 1 := xs ! i]"
    have "reorder xs i j ! k = reorder ?ys (Suc i) (j - 1) ! k"
      using True by (simp add: reorder.simps [of xs i j] Let_def)
    also have "\<dots> = (if Suc i \<le> k \<and> k < j - 1 then ?ys ! (i + j - 1 - k) else ?ys ! k)"
      using "1.IH" [OF refl True] "1.prems" True by simp
    also have "\<dots> = (if i \<le> k \<and> k < j then xs ! (i + j - 1 - k) else xs ! k)"
    proof -
      have len: "i < length xs" "j - 1 < length xs" "i < j" using True "1.prems" by arith+
      consider "k = i" | "k = j - 1" | "k \<noteq> i" "k \<noteq> j - 1" by blast
      then show ?thesis
      proof cases
        case 3
        have "i + j - 1 - k \<noteq> i" "i + j - 1 - k \<noteq> j - 1" if "Suc i \<le> k" "k < j - 1"
          using that by arith+
        with 3 show ?thesis by auto
      qed (use True len in \<open>simp_all add: nth_list_update\<close>)
    qed
    finally show ?thesis .
  next
    case False
    then have "\<And>m. i \<le> m \<Longrightarrow> m < j \<Longrightarrow> i + j - 1 - m = m" by arith
    with False show ?thesis by (simp add: reorder.simps [of xs i j])
  qed
qed

lemma reorder_rev: "reorder xs 0 (length xs) = rev xs"
  by (rule nth_equalityI) (simp_all add: nth_reorder rev_nth)

lemma uint_to_strdec_pad:
  assumes l: "4 \<le> LENGTH('a)" and "0 < len"
  shows "uint_to_strdec (u :: 'a::len word) len pad =
    (let d = dec_nat (unat u); d' = drop (length d - len) d in
     if pad then replicate (len - length d) (CHR ''0'') @ d' else d')"
proof -
  obtain cs m where sl: "strdec_loop len u = (cs, m)" by (cases "strdec_loop len u")
  let ?d = "dec_nat (unat u)"
  let ?c1 = "if length cs < len \<and> m > 0 then cs @ [digit_char (unat m)] else cs"
  note sd = strdec_loop_digits [OF l sl assms(2)]
  have c1: "?c1 = take len (rev ?d)" using sd by blast
  have tr: "rev (take len (rev ?d)) = drop (length ?d - len) ?d" by (simp add: rev_take)
  show ?thesis
  proof (cases "length cs < len")
    case True
    let ?c2 = "if pad then ?c1 @ replicate (len - length ?c1) (CHR ''0'') else ?c1"
    have "uint_to_strdec u len pad = reorder ?c2 0 (length ?c2)"
      using assms sl True by (simp add: uint_to_strdec_def Let_def)
    also have "\<dots> = rev ?c2" by (rule reorder_rev)
    finally show ?thesis using c1 tr by (simp add: Let_def min_def)
  next
    case False
    with sd have len: "length cs = len" "?c1 = cs" by auto
    with c1 have "len \<le> length ?d" by (metis length_rev length_take min.cobounded1 min_def nle_le)
    moreover have "uint_to_strdec u len pad = rev cs"
      using assms sl len by (simp add: uint_to_strdec_def Let_def reorder_rev)
    ultimately show ?thesis using c1 tr len by (simp add: Let_def)
  qed
qed

lemma uint_to_strdec_dec:
  assumes "4 \<le> LENGTH('a)" "0 < len" "unat (u :: 'a::len word) < 10 ^ len"
  shows "uint_to_strdec u len False = dec_nat (unat u)"
  using uint_to_strdec_pad [OF assms(1,2), of u False] dec_nat_length [OF assms(3,2)] by simp

lemma unat_widen: "unat (c :: u16) < 4294967296" "unat (d :: u8) < 4294967296"
  using unat_below [of c] unat_below [of d] by simp_all

lemma unat_ucast_widen [simp]:
  "unat (ucast c :: u32) = unat (c :: u16)" "unat (ucast d :: u32) = unat (d :: u8)"
  by (simp_all add: unsigned_ucast_eq take_bit_nat_eq_self_iff unat_widen)

lemma uint_to_string_dec [numeric_simps]:
  "uint64_to_string a = dec_nat (unat a)" "uint32_to_string b = dec_nat (unat b)"
  "uint16_to_string c = dec_nat (unat c)" "uint8_to_string d = dec_nat (unat d)"
proof -
  show "uint64_to_string a = dec_nat (unat a)" unfolding uint64_to_string_def
    using unat_below [of a] by (intro uint_to_strdec_dec) auto
  show "uint32_to_string b = dec_nat (unat b)" unfolding uint32_to_string_def
    using unat_below [of b] by (intro uint_to_strdec_dec) auto
  show "uint16_to_string c = dec_nat (unat c)" unfolding uint16_to_string_def
    using unat_below [of c] uint_to_strdec_dec [of 5 "ucast c :: u32"] by simp
  show "uint8_to_string d = dec_nat (unat d)" unfolding uint8_to_string_def
    using unat_below [of d] uint_to_strdec_dec [of 3 "ucast d :: u32"] by simp
qed

lemma length_dec_int: "\<bar>i\<bar> < 10 ^ 30 \<Longrightarrow> length (dec_int i) \<le> 31"
proof -
  assume h: "\<bar>i\<bar> < 10 ^ 30"
  have "length (dec_nat (nat \<bar>i\<bar>)) \<le> 30" using h by (intro dec_nat_length) auto
  then show ?thesis by (auto simp: dec_int_def abs_if split: if_splits)
qed

lemma int_to_string_dec [numeric_simps]:
  "int64_to_string a = dec_int (sint a)" "int32_to_string b = dec_int (sint b)"
  "int16_to_string c = dec_int (sint c)" "int8_to_string d = dec_int (sint d)"
proof -
  show "int64_to_string a = dec_int (sint a)"
    using sint_ge [of a] sint_lt [of a] length_dec_int [of "sint a"]
    by (simp add: int64_to_string_def)
  show "int32_to_string b = dec_int (sint b)"
    using sint_ge [of b] sint_lt [of b] length_dec_int [of "sint b"]
    by (simp add: int32_to_string_def)
  show "int16_to_string c = dec_int (sint c)"
    using sint_ge [of c] sint_lt [of c] length_dec_int [of "sint c"]
    by (simp add: int16_to_string_def)
  show "int8_to_string d = dec_int (sint d)"
    using sint_ge [of d] sint_lt [of d] length_dec_int [of "sint d"]
    by (simp add: int8_to_string_def)
qed

section \<open>What the parsers accept\<close>

text \<open>The signed value of a token: an optional minus sign and its digits.\<close>

definition sign_of :: "string \<Rightarrow> int" where
  "sign_of s = (case s of c # _ \<Rightarrow> if c = CHR ''-'' then -1 else 1 | [] \<Rightarrow> 1)"

definition unsigned_part :: "string \<Rightarrow> string" where
  "unsigned_part s = (case s of c # cs \<Rightarrow> if c = CHR ''-'' then cs else s | [] \<Rightarrow> [])"

lemma scan_sign_eq: "scan_sign s = (of_int (sign_of s), unsigned_part s)"
  by (cases s) (auto simp: sign_of_def unsigned_part_def)

lemma ucast_of_nat_32: "n < 2 ^ 64 \<Longrightarrow> ucast (of_nat n :: u64) = (of_nat n :: 32 word)"
  by (simp add: unsigned_of_nat take_bit_nat_eq_self)

lemma ucast_of_int_32: "ucast (of_int i :: u64) = (of_int i :: 32 word)"
  by (simp add: unsigned_of_int take_bit_eq_mod word_of_int_eq_iff mod_mod_cancel)

lemma string_to_uint32_iff:
  "string_to_uint32 (Some s) = Inr v \<longleftrightarrow>
    list_all isdigit (token (skip_space s)) \<and> dec_value (token (skip_space s)) < 2 ^ 32
    \<and> v = of_nat (dec_value (token (skip_space s)))"
proof -
  let ?t = "token (skip_space s)"
  have "string_to_uint32 (Some s) = Inr v \<longleftrightarrow>
    (\<exists>r. scan_digits UINT32_MAX 0 (skip_space s) = Inr r \<and> v = ucast r)"
    by (auto split: sum.splits)
  also have "\<dots> \<longleftrightarrow> list_all isdigit ?t \<and> dec_value ?t \<le> 4294967295
      \<and> v = ucast (of_nat (dec_value ?t) :: u64)"
    using scan_digits_iff [of UINT32_MAX "skip_space s"] by auto
  also have "\<dots> \<longleftrightarrow> list_all isdigit ?t \<and> dec_value ?t < 2 ^ 32
      \<and> v = of_nat (dec_value ?t)"
    using ucast_of_nat_32 [of "dec_value ?t"] by auto
  finally show ?thesis .
qed

lemma string_to_int32_iff:
  "string_to_int32 (Some s) = Inr v \<longleftrightarrow>
    (let u = skip_space s; t = token (unsigned_part u) in
      list_all isdigit t \<and> dec_value t < 2 ^ 31
      \<and> v = of_int (sign_of u * int (dec_value t)))"
proof -
  let ?u = "skip_space s"
  let ?t = "token (unsigned_part ?u)"
  have "string_to_int32 (Some s) = Inr v \<longleftrightarrow>
    (\<exists>r. scan_digits INT32_MAX 0 (unsigned_part ?u) = Inr r \<and> v = ucast (of_int (sign_of ?u) * r))"
    by (auto simp: scan_sign_eq split: sum.splits)
  also have "\<dots> \<longleftrightarrow> list_all isdigit ?t \<and> dec_value ?t \<le> 2147483647
      \<and> v = ucast (of_int (sign_of ?u) * of_nat (dec_value ?t) :: u64)"
    using scan_digits_iff [of INT32_MAX "unsigned_part ?u"] by auto
  also have "(of_int (sign_of ?u) * of_nat (dec_value ?t) :: u64)
      = of_int (sign_of ?u * int (dec_value ?t))" by simp
  finally show ?thesis by (auto simp: Let_def ucast_of_int_32 simp del: of_int_mult)
qed

lemma string_to_int64_value:
  assumes "list_all isdigit (token (unsigned_part (skip_space s)))"
    and "dec_value (token (unsigned_part (skip_space s))) < 2 ^ 63"
  shows "string_to_int64 (Some s)
    = Inr (of_int (sign_of (skip_space s) * int (dec_value (token (unsigned_part (skip_space s))))))"
  using scan_digits_value [OF assms(1), of 0 INT64_MAX] assms(2)
  by (simp add: scan_sign_eq dec_from_0)

declare string_to_int64.simps(2) [simp del] string_to_int32.simps(2) [simp del]
  string_to_uint32.simps(2) [simp del]

section \<open>Round trips\<close>

lemma dec_int_shape:
  "skip_space (dec_int i) = dec_int i" "sign_of (dec_int i) = (if i < 0 then -1 else 1)"
  "unsigned_part (dec_int i) = dec_nat (nat \<bar>i\<bar>)"
proof -
  obtain c cs where d: "dec_nat (nat \<bar>i\<bar>) = c # cs" and c: "isdigit c"
    using dec_nat_digits [of "nat \<bar>i\<bar>"] dec_nat_nonempty [of "nat \<bar>i\<bar>"]
    by (cases "dec_nat (nat \<bar>i\<bar>)") auto
  have m: "\<not> isspace (CHR ''-'')" by (simp add: isspace_def)
  show "skip_space (dec_int i) = dec_int i" "sign_of (dec_int i) = (if i < 0 then -1 else 1)"
    "unsigned_part (dec_int i) = dec_nat (nat \<bar>i\<bar>)"
    using d c m isdigit_props [OF c] isdigit_not_isspace [OF c]
    by (auto simp: dec_int_def sign_of_def unsigned_part_def)
qed

lemma token_dec_nat [simp]: "token (dec_nat n) = dec_nat n"
  by (rule token_digits [OF dec_nat_digits])

lemma skip_space_dec_nat [simp]: "skip_space (dec_nat n) = dec_nat n"
  by (rule skip_space_digits [OF dec_nat_digits])

lemma string_to_int64_dec_int [numeric_simps]:
  "\<bar>i\<bar> < 2 ^ 63 \<Longrightarrow> string_to_int64 (Some (dec_int i)) = Inr (of_int i)"
  using string_to_int64_value [of "dec_int i"] dec_nat_digits [of "nat \<bar>i\<bar>"]
  by (auto simp: dec_int_shape abs_if split: if_splits)

lemma string_to_int32_dec_int [numeric_simps]:
  "\<bar>i\<bar> < 2 ^ 31 \<Longrightarrow> string_to_int32 (Some (dec_int i)) = Inr (of_int i)"
  using string_to_int32_iff [of "dec_int i" "of_int i"] dec_nat_digits [of "nat \<bar>i\<bar>"]
  by (auto simp: dec_int_shape Let_def abs_if split: if_splits)

lemma string_to_uint32_dec_nat [numeric_simps]:
  "n < 2 ^ 32 \<Longrightarrow> string_to_uint32 (Some (dec_nat n)) = Inr (of_nat n)"
  using string_to_uint32_iff [of "dec_nat n" "of_nat n"] dec_nat_digits [of n] by simp

lemma uint32_roundtrip [numeric_simps]:
  "string_to_uint32 (Some (dec_nat (unat (a :: u32)))) = Inr a"
  using unat_below [of a] by (simp add: numeric_simps)

lemma uint16_roundtrip [numeric_simps]:
  "string_to_uint16 (Some (dec_nat (unat (a :: u16)))) = Inr a"
proof -
  have b: "unat a < 65536" using unat_below [of a] by simp
  then have "string_to_uint32 (Some (dec_nat (unat a))) = Inr (of_nat (unat a))"
    by (intro string_to_uint32_dec_nat) simp
  moreover have "\<not> (of_nat (unat a) :: u32) > 65535"
    using b by (simp add: word_less_nat_alt unat_of_nat)
  ultimately show ?thesis
    by (simp add: string_to_uint16_def ucast_up_ucast_id is_up)
qed

lemma uint8_roundtrip [numeric_simps]:
  "string_to_uint8 (Some (dec_nat (unat (a :: u8)))) = Inr a"
proof -
  have b: "unat a < 256" using unat_below [of a] by simp
  then have "string_to_uint32 (Some (dec_nat (unat a))) = Inr (of_nat (unat a))"
    by (intro string_to_uint32_dec_nat) simp
  moreover have "\<not> (of_nat (unat a) :: u32) > 255"
    using b by (simp add: word_less_nat_alt unat_of_nat)
  ultimately show ?thesis
    by (simp add: string_to_uint8_def ucast_up_ucast_id is_up)
qed

lemma int8_roundtrip [numeric_simps]:
  "string_to_int8 (Some (dec_int (sint (a :: i8)))) = Inr a"
proof -
  have b: "- 128 \<le> sint a" "sint a < 128" using sint_ge [of a] sint_lt [of a] by simp_all
  then have p: "string_to_int32 (Some (dec_int (sint a))) = Inr (of_int (sint a))"
    by (intro string_to_int32_dec_int) auto
  have s: "sint (of_int (sint a) :: i32) = sint a"
    using b by (simp add: signed_scast_eq signed_take_bit_int_eq_self)
  have "ucast (scast a :: i32) = a" by (rule bit_word_eqI) (auto simp: bit_simps)
  then have u: "ucast (of_int (sint a) :: i32) = a" by simp
  from p s u b show ?thesis by (simp add: string_to_int8_def)
qed

lemma int32_roundtrip [numeric_simps]:
  "sint (a :: i32) \<noteq> - (2 ^ 31) \<Longrightarrow> string_to_int32 (Some (dec_int (sint a))) = Inr a"
  using sint_ge [of a] sint_lt [of a] by (simp add: string_to_int32_dec_int)

lemma int64_roundtrip [numeric_simps]:
  "sint (a :: i64) \<noteq> - (2 ^ 63) \<Longrightarrow> string_to_int64 (Some (dec_int (sint a))) = Inr a"
  using sint_ge [of a] sint_lt [of a] by (simp add: string_to_int64_dec_int)

lemma is_cstring_dec_int [simp]: "is_cstring (dec_int i)"
  by (simp add: dec_int_def)

section \<open>Properties\<close>

text \<open>\<open>string_to_uint32\<close> succeeds exactly when the first word of the text is made of digits
  (the empty word included) whose value fits 32 bits, and then yields that value.\<close>

theorem uint32_parse:
  "string_to_uint32 (Some s) = Inr v \<longleftrightarrow>
    list_all isdigit (token (skip_space s)) \<and> dec_value (token (skip_space s)) < 2 ^ 32
    \<and> unat v = dec_value (token (skip_space s))"
proof -
  have "v = of_nat n \<longleftrightarrow> unat v = n" if "n < 2 ^ 32" for n
    using that unat_of_nat_small [of n, where ?'a = 32] by (auto simp: word_unat_eq_iff)
  then show ?thesis using string_to_uint32_iff [of s v] by blast
qed

text \<open>\<open>string_to_int32\<close> succeeds exactly when an optional minus sign is followed by digits
  whose value is below \<open>2 ^ 31\<close>, and then yields the signed value: no input wraps around.\<close>

theorem int32_parse:
  "string_to_int32 (Some s) = Inr v \<longleftrightarrow>
    (let u = skip_space s; t = token (unsigned_part u) in
      list_all isdigit t \<and> dec_value t < 2 ^ 31 \<and> sint v = sign_of u * int (dec_value t))"
proof -
  have "v = of_int i \<longleftrightarrow> sint v = i" if "\<bar>i\<bar> < 2 ^ 31" for i
    using that by (auto simp: signed_of_int signed_take_bit_int_eq_self abs_less_iff)
  moreover have "\<bar>sign_of u * int n\<bar> < 2 ^ 31" if "n < 2 ^ 31" for u n
    using that by (auto simp: sign_of_def split: list.split)
  ultimately show ?thesis unfolding string_to_int32_iff Let_def by blast
qed

text \<open>The printed form of every unsigned number of each width, and of every signed number
  but the most negative one, is parsed back to the number.\<close>

theorem print_parse_roundtrip:
  "string_to_uint32 (Some (uint32_to_string a)) = Inr a
   \<and> string_to_uint16 (Some (uint16_to_string b)) = Inr b
   \<and> string_to_uint8 (Some (uint8_to_string c)) = Inr c
   \<and> string_to_int8 (Some (int8_to_string d)) = Inr d
   \<and> (sint e \<noteq> - (2 ^ 31) \<longrightarrow> string_to_int32 (Some (int32_to_string e)) = Inr e)
   \<and> (sint f \<noteq> - (2 ^ 63) \<longrightarrow> string_to_int64 (Some (int64_to_string f)) = Inr f)"
  by (simp add: numeric_simps)

theorem print_parse_roundtrip_witness:
  "string_to_int32 (Some (int32_to_string (- 42))) = Inr (- 42)
   \<and> string_to_int64 (Some (int64_to_string 9000000000)) = Inr 9000000000"
  using print_parse_roundtrip [of 0 0 0 0 "- 42" 9000000000] by simp

text \<open>The decimal printer writes the decimal digits of the number, keeps the last \<open>len\<close> of
  them when there are more, and fills up with zeros on the left when padding is asked for. The
  in-place reversal and the early exit of the digit loop are correct at both widths.\<close>

theorem strdec_correct:
  "uint_to_strdec (u :: u32) (Suc len) pad =
     (let d = dec_nat (unat u); d' = drop (length d - Suc len) d in
      if pad then replicate (Suc len - length d) (CHR ''0'') @ d' else d')
   \<and> uint_to_strdec (v :: u64) (Suc len) pad =
     (let d = dec_nat (unat v); d' = drop (length d - Suc len) d in
      if pad then replicate (Suc len - length d) (CHR ''0'') @ d' else d')"
  by (intro conjI uint_to_strdec_pad) simp_all

text \<open>The 64-bit accumulator of \<open>string_to_int64\<close> wraps before it is compared with the
  limit, so a text far out of range is accepted with a wrong value.\<close>

theorem int64_parse_wraps:
  "string_to_int64 (Some ''20000000000000000000'') = Inr 1553255926290448384"
  by code_simp

end
