(* ===== verification/ProtoBase.thy ===== *)
theory ProtoBase
  imports Socket Builtin
begin

text \<open>
  The protocol connection of \<open>proto/mythprotobase.cpp\<close>: framing of commands and answers,
  reading of fields, the hang and close handling and the version negotiation. The object is
  the record \<open>protobase\<close>; the derived classes extend it, so every operation here is defined
  on \<open>'a protobase_scheme\<close>. The latch of the object is held for the whole of every operation,
  so an operation is one state transformation.

  Two fields stand for storage that is not a member of the object. \<open>my_version\<close> is the value
  the function-local static of \<open>OpenConnection\<close> has when the operation starts. \<open>stack_tail\<close> is
  the unspecified memory behind the eight bytes that \<open>RcvMessageLength\<close> receives: its array is
  not terminated, and the parser may run into it.
\<close>

section \<open>State\<close>

definition PROTO_SENDMSG_MAXSIZE :: nat where "PROTO_SENDMSG_MAXSIZE = 64000"

datatype ERROR_t =
    ERROR_NO_ERROR | ERROR_SERVER_UNREACHABLE | ERROR_SOCKET_ERROR | ERROR_UNKNOWN_VERSION

record protobase =
  sock :: tcpsocket
  m_protoVersion :: nat
  m_server :: string
  m_port :: nat
  m_hang :: bool
  m_tainted :: bool
  m_msgLength :: nat
  m_msgConsumed :: nat
  m_isOpen :: bool
  m_protoError :: ERROR_t
  my_version :: nat
  stack_tail :: bytes

text \<open>Version and token. The tokens of 86 and 87 are UTF-8 text.\<close>

definition protomap :: "(nat \<times> string) list" where
  "protomap =
    [(91, ''BuzzOff''),
     (90, ''BuzzCut''),
     (89, ''BuzzKill''),
     (88, ''XmasGift''),
     (87, [CHR 0x28, CHR 0xE3, CHR 0x83, CHR 0x8E, CHR 0xE0, CHR 0xB2, CHR 0xA0, CHR 0xE7,
       CHR 0x9B, CHR 0x8A, CHR 0xE0, CHR 0xB2, CHR 0xA0, CHR 0x29, CHR 0xE3, CHR 0x83,
       CHR 0x8E, CHR 0xE5, CHR 0xBD, CHR 0xA1, CHR 0xE2, CHR 0x94, CHR 0xBB, CHR 0xE2,
       CHR 0x94, CHR 0x81, CHR 0xE2, CHR 0x94, CHR 0xBB, CHR 0x5F, CHR 0x4E, CHR 0x6F,
       CHR 0x5F, CHR 0x65, CHR 0x6E, CHR 0x74, CHR 0x69, CHR 0x65, CHR 0x6E, CHR 0x64,
       CHR 0x6F, CHR 0x21, CHR 0x29]),
     (86, [CHR 0x28, CHR 0xE3, CHR 0x83, CHR 0x8E, CHR 0xE0, CHR 0xB2, CHR 0xA0, CHR 0xE7,
       CHR 0x9B, CHR 0x8A, CHR 0xE0, CHR 0xB2, CHR 0xA0, CHR 0x29, CHR 0xE3, CHR 0x83,
       CHR 0x8E, CHR 0xE5, CHR 0xBD, CHR 0xA1, CHR 0xE2, CHR 0x94, CHR 0xBB, CHR 0xE2,
       CHR 0x94, CHR 0x81, CHR 0xE2, CHR 0x94, CHR 0xBB]),
     (85, ''BluePool''),
     (84, ''CanaryCoalmine''),
     (83, ''BreakingGlass''),
     (82, ''IdIdO''),
     (81, ''MultiRecDos''),
     (80, ''TaDah!''),
     (79, ''BasaltGiant''),
     (77, ''WindMark''),
     (76, ''FireWilde''),
     (75, ''SweetRock''),
     (0, '''')]"

definition ProtoBase_new ::
    "connect_event list \<Rightarrow> string \<Rightarrow> string \<Rightarrow> nat \<Rightarrow> nat \<Rightarrow> bytes \<Rightarrow> protobase" where
  "ProtoBase_new os host server port my_ver junk =
     \<lparr>sock = (TcpSocket_new os host)\<lparr>m_timeout := 60000\<rparr>, m_protoVersion = 0, m_server = server,
      m_port = port, m_hang = False, m_tainted = False, m_msgLength = 0, m_msgConsumed = 0,
      m_isOpen = False, m_protoError = ERROR_NO_ERROR, my_version = my_ver, stack_tail = junk\<rparr>"

section \<open>Closing and hanging\<close>

text \<open>
  \<open>Close\<close> sends DONE through \<open>SendCommand\<close>, which flushes, which may hang, which closes. The
  recursion ends because \<open>HangException\<close> sets \<open>m_hang\<close> before it closes and \<open>Close\<close> sends
  nothing then. \<open>Close_with\<close> is the body of \<open>Close\<close> over the way it sends; a hanging close never
  uses it (lemma \<open>HangException_Close\<close> states the recursive equation of the source).
\<close>

definition Close_with ::
    "(string \<Rightarrow> bool \<Rightarrow> 'a protobase_scheme \<Rightarrow> bool \<times> 'a protobase_scheme)
     \<Rightarrow> 'a protobase_scheme \<Rightarrow> 'a protobase_scheme" where
  "Close_with send pb =
     (let pb1 = (if IsValid (sock pb)
                 then let pb' = (if m_isOpen pb \<and> \<not> m_hang pb then snd (send ''DONE'' False pb) else pb)
                      in pb'\<lparr>sock := Disconnect (sock pb')\<rparr>
                 else pb)
      in pb1\<lparr>m_isOpen := False, m_msgLength := 0, m_msgConsumed := 0\<rparr>)"

definition HangException :: "'a protobase_scheme \<Rightarrow> 'a protobase_scheme" where
  "HangException pb = Close_with (\<lambda>_ _ p. (False, p)) (pb\<lparr>m_tainted := True, m_hang := True\<rparr>)"

section \<open>Messages\<close>

definition FlushMessage :: "'a protobase_scheme \<Rightarrow> nat \<times> 'a protobase_scheme" where
  "FlushMessage pb =
     (case flush_loop ReceiveData (size_sub (m_msgLength pb) (m_msgConsumed pb)) 0 (sock pb) of
        (ok, n, s) \<Rightarrow>
          (let pb1 = pb\<lparr>sock := s\<rparr>; pb2 = (if ok then pb1 else HangException pb1)
           in (n, pb2\<lparr>m_msgLength := 0, m_msgConsumed := 0\<rparr>)))"

definition RcvMessageLength :: "'a protobase_scheme \<Rightarrow> bool \<times> 'a protobase_scheme" where
  "RcvMessageLength pb =
     (if m_msgLength pb > 0 then (False, pb)
      else case ReceiveData 8 (sock pb) of (d, s) \<Rightarrow>
        (let pb1 = pb\<lparr>sock := s\<rparr> in
         if length d = 8
         then (case string_to_uint32 (c_str (d @ stack_tail pb)) of
                 Inr val \<Rightarrow> (True, pb1\<lparr>m_msgLength := unat val, m_msgConsumed := 0\<rparr>)
               | Inl _ \<Rightarrow> (False, HangException pb1))
         else (False, HangException pb1)))"

text \<open>The header of a message: \<open>%-8u\<close> into an array of nine bytes.\<close>

definition frame_header :: "nat \<Rightarrow> string" where
  "frame_header l =
     take 8 (dec_nat l @ replicate (8 - length (dec_nat l)) (CHR '' ''))"

definition SendCommand :: "string \<Rightarrow> bool \<Rightarrow> 'a protobase_scheme \<Rightarrow> bool \<times> 'a protobase_scheme" where
  "SendCommand cmd feedback pb =
     (let l = length (cstr cmd);
          pb0 = (if m_msgConsumed pb \<noteq> m_msgLength pb then snd (FlushMessage pb) else pb)
      in if l > 0 \<and> l < PROTO_SENDMSG_MAXSIZE
         then case SendData (frame_header l @ cstr cmd) (sock pb0) of (sent, s) \<Rightarrow>
           (let pb1 = pb0\<lparr>sock := s\<rparr> in
            if sent then (if feedback then RcvMessageLength pb1 else (True, pb1))
            else (False, HangException pb1))
         else (False, pb0))"

definition Close :: "'a protobase_scheme \<Rightarrow> 'a protobase_scheme" where
  "Close pb = Close_with SendCommand pb"

definition GetMessageLength :: "'a protobase_scheme \<Rightarrow> nat" where
  "GetMessageLength pb = m_msgLength pb"

text \<open>\<open>ReadField\<close> yields its result, the field and the object. The field of a failed read is
  what was appended before the connection hung.\<close>

definition ReadField :: "'a protobase_scheme \<Rightarrow> bool \<times> string \<times> 'a protobase_scheme" where
  "ReadField pb =
     (let l = m_msgLength pb; c = m_msgConsumed pb in
      if c \<ge> l then (False, [], pb)
      else case field_loop ReceiveData l c [] 0 [] (sock pb) of (out, field, c', s) \<Rightarrow>
        (let pb1 = pb\<lparr>sock := s\<rparr> in
         if out \<noteq> FieldOk then (False, field, HangException pb1)
         else if l > c' then (True, field, pb1\<lparr>m_msgConsumed := c'\<rparr>)
         else (True, field, pb1\<lparr>m_msgConsumed := 0, m_msgLength := 0\<rparr>)))"

definition IsMessageOK :: "string \<Rightarrow> bool" where
  "IsMessageOK field =
     (if length field = 2
      then (field ! 0 = CHR ''O'' \<or> field ! 0 = CHR ''o'')
           \<and> (field ! 1 = CHR ''K'' \<or> field ! 1 = CHR ''k'')
      else False)"

section \<open>Opening\<close>

definition RcvVersion :: "'a protobase_scheme \<Rightarrow> nat option \<times> 'a protobase_scheme" where
  "RcvVersion pb =
     (case ReadField pb of (ok1, _, pb1) \<Rightarrow>
       (if \<not> ok1 then (None, snd (FlushMessage pb1))
        else case ReadField pb1 of (ok2, field, pb2) \<Rightarrow>
          (if \<not> ok2 then (None, snd (FlushMessage pb2))
           else case FlushMessage pb2 of (n, pb3) \<Rightarrow>
             (if n \<noteq> 0 then (None, pb3)
              else case string_to_uint32 (c_str field) of
                     Inl _ \<Rightarrow> (None, snd (FlushMessage pb3))
                   | Inr val \<Rightarrow> (Some (unat val), pb3)))))"

definition version_command :: "nat \<Rightarrow> string \<Rightarrow> string" where
  "version_command v tok =
     take 255 (''MYTH_PROTO_VERSION '' @ dec_nat v @ '' '' @ tok)"

text \<open>What the loop does at its end: disconnect and report no version.\<close>

definition open_failed :: "'a protobase_scheme \<Rightarrow> bool \<times> 'a protobase_scheme" where
  "open_failed pb =
     (False, pb\<lparr>sock := Disconnect (sock pb), m_isOpen := False, m_protoVersion := 0\<rparr>)"

section \<open>Frames and the invariant\<close>

text \<open>
  The invariant of a connection: the socket is well formed, the position lies inside the current
  message (or there is no message), a closed socket has no pending message, and an open
  connection speaks a version of the table and has a live socket unless it hangs.
\<close>

definition known_version :: "nat \<Rightarrow> bool" where
  "known_version v \<longleftrightarrow> v \<noteq> 0 \<and> v \<in> set (map fst protomap)"

definition pb_inv :: "'a protobase_scheme \<Rightarrow> bool" where
  "pb_inv pb \<longleftrightarrow> sock_inv (sock pb)
     \<and> (m_msgConsumed pb < m_msgLength pb \<or> m_msgConsumed pb = 0 \<and> m_msgLength pb = 0)
     \<and> m_msgLength pb < 2 ^ 32
     \<and> (\<not> IsValid (sock pb) \<longrightarrow> m_msgLength pb = 0)
     \<and> (m_isOpen pb \<longrightarrow> known_version (m_protoVersion pb) \<and> (m_hang pb \<longleftrightarrow> \<not> IsValid (sock pb)))"

text \<open>Between two operations a connection that is not open has no live socket.\<close>

definition pb_quiet :: "'a protobase_scheme \<Rightarrow> bool" where
  "pb_quiet pb \<longleftrightarrow> (IsValid (sock pb) \<longrightarrow> m_isOpen pb)"

definition pb_ok :: "'a protobase_scheme \<Rightarrow> bool" where
  "pb_ok pb \<longleftrightarrow> pb_inv pb \<and> pb_quiet pb"

text \<open>What the exchange of messages never changes: the part of the derived class, the identity of
  the connection, the negotiated version and the future connection attempts. It keeps the
  invariant, and it never opens the connection.\<close>

definition msg_frame :: "'a protobase_scheme \<Rightarrow> 'a protobase_scheme \<Rightarrow> bool" where
  "msg_frame pb pb' \<longleftrightarrow> protobase.more pb' = protobase.more pb
     \<and> m_server pb' = m_server pb \<and> m_port pb' = m_port pb
     \<and> m_protoVersion pb' = m_protoVersion pb \<and> m_protoError pb' = m_protoError pb
     \<and> my_version pb' = my_version pb \<and> stack_tail pb' = stack_tail pb
     \<and> os_connect (sock pb') = os_connect (sock pb)
     \<and> (m_isOpen pb' \<longrightarrow> m_isOpen pb) \<and> (m_tainted pb \<longrightarrow> m_tainted pb')
     \<and> (m_hang pb \<longrightarrow> m_hang pb')
     \<and> (pb_inv pb \<longrightarrow> pb_inv pb') \<and> (pb_quiet pb \<longrightarrow> pb_quiet pb')"

lemma msg_frame_refl [simp]: "msg_frame pb pb"
  by (simp add: msg_frame_def)

lemma msg_frame_trans: "msg_frame a b \<Longrightarrow> msg_frame b c \<Longrightarrow> msg_frame a c"
  by (simp add: msg_frame_def)

text \<open>Receiving: only the socket and the position in the message change.\<close>

definition rd_frame :: "'a protobase_scheme \<Rightarrow> 'a protobase_scheme \<Rightarrow> bool" where
  "rd_frame pb pb' \<longleftrightarrow> (\<exists>s l c. pb' = pb\<lparr>sock := s, m_msgLength := l, m_msgConsumed := c\<rparr>
     \<and> same_env (sock pb) s)"

lemma rd_frame_refl [simp]: "rd_frame pb pb"
  unfolding rd_frame_def
  by (rule exI [of _ "sock pb"], rule exI [of _ "m_msgLength pb"], rule exI [of _ "m_msgConsumed pb"])
    simp

lemma rd_frameI:
  "same_env (sock pb) s \<Longrightarrow> rd_frame pb (pb\<lparr>sock := s, m_msgLength := l, m_msgConsumed := c\<rparr>)"
  unfolding rd_frame_def by blast

lemma rd_frame_trans:
  assumes "rd_frame a b" "rd_frame b c"
  shows "rd_frame a c"
proof -
  from assms(1) obtain s l k where
    b: "b = a\<lparr>sock := s, m_msgLength := l, m_msgConsumed := k\<rparr>" "same_env (sock a) s"
    unfolding rd_frame_def by blast
  from assms(2) obtain s' l' k' where
    c: "c = b\<lparr>sock := s', m_msgLength := l', m_msgConsumed := k'\<rparr>" "same_env (sock b) s'"
    unfolding rd_frame_def by blast
  have "c = a\<lparr>sock := s', m_msgLength := l', m_msgConsumed := k'\<rparr>" using b c by simp
  moreover have "same_env (sock a) s'" using b c same_env_trans by auto
  ultimately show ?thesis using rd_frameI by metis
qed

lemma rd_frame_simps:
  assumes "rd_frame pb pb'"
  shows "protobase.more pb' = protobase.more pb" "m_server pb' = m_server pb"
    "m_port pb' = m_port pb" "m_protoVersion pb' = m_protoVersion pb"
    "m_protoError pb' = m_protoError pb" "my_version pb' = my_version pb"
    "stack_tail pb' = stack_tail pb" "m_isOpen pb' = m_isOpen pb" "m_hang pb' = m_hang pb"
    "m_tainted pb' = m_tainted pb" "os_connect (sock pb') = os_connect (sock pb)"
    "os_sent (sock pb') = os_sent (sock pb)" "IsValid (sock pb') = IsValid (sock pb)"
    "map_option tx (m_socket (sock pb')) = map_option tx (m_socket (sock pb))"
proof -
  from assms obtain s l k where
    b: "pb' = pb\<lparr>sock := s, m_msgLength := l, m_msgConsumed := k\<rparr>" "same_env (sock pb) s"
    unfolding rd_frame_def by blast
  note v = same_env_valid [OF b(2)]
  show "protobase.more pb' = protobase.more pb" "m_server pb' = m_server pb"
    "m_port pb' = m_port pb" "m_protoVersion pb' = m_protoVersion pb"
    "m_protoError pb' = m_protoError pb" "my_version pb' = my_version pb"
    "stack_tail pb' = stack_tail pb" "m_isOpen pb' = m_isOpen pb" "m_hang pb' = m_hang pb"
    "m_tainted pb' = m_tainted pb" "os_connect (sock pb') = os_connect (sock pb)"
    "os_sent (sock pb') = os_sent (sock pb)" "IsValid (sock pb') = IsValid (sock pb)"
    "map_option tx (m_socket (sock pb')) = map_option tx (m_socket (sock pb))"
    using b v by (simp_all add: same_env_def)
qed

lemma HangException_eq:
  "HangException pb = pb\<lparr>sock := Disconnect (sock pb), m_hang := True, m_tainted := True,
     m_msgLength := 0, m_msgConsumed := 0, m_isOpen := False\<rparr>"
  by (simp add: HangException_def Close_with_def Let_def Disconnect_def)

text \<open>The recursive equation of the source: a hanging connection is closed by \<open>Close\<close>.\<close>

lemma HangException_Close: "HangException pb = Close (pb\<lparr>m_tainted := True, m_hang := True\<rparr>)"
  by (simp add: HangException_def Close_def Close_with_def Let_def)

lemma HangException_frame: "msg_frame pb (HangException pb)"
  by (auto simp: msg_frame_def HangException_eq pb_inv_def pb_quiet_def)

lemma HangException_keeps:
  "rcv_keeps (sock pb) s \<Longrightarrow> msg_frame pb (HangException (pb\<lparr>sock := s\<rparr>))"
  by (auto simp: msg_frame_def HangException_eq pb_inv_def pb_quiet_def rcv_keeps_def same_env_def)

lemma msg_frame_rcv:
  assumes "rcv_keeps (sock pb) s" "c < l \<or> c = 0 \<and> l = 0" "l < 2 ^ 32" "\<not> IsValid (sock pb) \<longrightarrow> l = 0"
  shows "msg_frame pb (pb\<lparr>sock := s, m_msgLength := l, m_msgConsumed := c\<rparr>)"
  using assms same_env_valid [of "sock pb" s]
  by (auto simp: msg_frame_def pb_quiet_def pb_inv_def rcv_keeps_def same_env_def)

lemma FlushMessage_frame: "msg_frame pb (snd (FlushMessage pb))"
proof -
  obtain ok n s where f: "flush_loop ReceiveData (size_sub (m_msgLength pb) (m_msgConsumed pb)) 0
      (sock pb) = (ok, n, s)" by (metis prod_cases3)
  have k: "rcv_keeps (sock pb) s"
    using tcpf.keep_flush_loop [of "sock pb"] f by (metis snd_conv)
  have "msg_frame pb (pb\<lparr>sock := s, m_msgLength := 0, m_msgConsumed := 0\<rparr>)"
    using k by (intro msg_frame_rcv) auto
  moreover have "(HangException (pb\<lparr>sock := s\<rparr>))\<lparr>m_msgLength := 0, m_msgConsumed := 0\<rparr>
      = HangException (pb\<lparr>sock := s\<rparr>)"
    by (simp add: HangException_eq)
  ultimately show ?thesis
    using f HangException_keeps [OF k] by (simp add: FlushMessage_def Let_def)
qed

lemma RcvMessageLength_frame: "msg_frame pb (snd (RcvMessageLength pb))"
proof (cases "m_msgLength pb > 0")
  case True
  then show ?thesis by (simp add: RcvMessageLength_def)
next
  case False
  obtain d s where r: "ReceiveData 8 (sock pb) = (d, s)" by force
  have k: "rcv_keeps (sock pb) s" using r by (rule tcpf.keep_rcv_eq)
  have v: "IsValid (sock pb)" if "length d = 8"
    using that r by (auto simp: ReceiveData_def split: if_splits)
  have "unat val < 2 ^ 32" for val :: u32 using unat_below [of val] by simp
  then have "msg_frame pb (pb\<lparr>sock := s, m_msgLength := unat val, m_msgConsumed := 0\<rparr>)"
    if "length d = 8" for val :: u32
    using k v [OF that] by (intro msg_frame_rcv) auto
  then show ?thesis using False r HangException_keeps [OF k]
    by (auto simp: RcvMessageLength_def Let_def split: sum.split)
qed

lemma SendData_msg_frame: "msg_frame pb (pb\<lparr>sock := snd (SendData msg (sock pb))\<rparr>)"
  by (auto simp: msg_frame_def pb_quiet_def pb_inv_def SendData_inv)

lemma SendCommand_frame: "msg_frame pb (snd (SendCommand cmd feedback pb))"
proof -
  define pb0 where "pb0 = (if m_msgConsumed pb \<noteq> m_msgLength pb then snd (FlushMessage pb) else pb)"
  have 0: "msg_frame pb pb0" by (simp add: pb0_def FlushMessage_frame)
  obtain sent s where d: "SendData (frame_header (length (cstr cmd)) @ cstr cmd) (sock pb0) = (sent, s)"
    by force
  have "msg_frame pb0 (pb0\<lparr>sock := s\<rparr>)"
    using SendData_msg_frame [of pb0] d by (metis snd_conv)
  with 0 have 1: "msg_frame pb (pb0\<lparr>sock := s\<rparr>)" by (rule msg_frame_trans)
  show ?thesis
    using 0 1 d msg_frame_trans [OF 1 HangException_frame] msg_frame_trans [OF 1 RcvMessageLength_frame]
    by (simp add: SendCommand_def Let_def flip: pb0_def)
qed

lemma ReadField_frame: "msg_frame pb (snd (snd (ReadField pb)))"
proof (cases "m_msgLength pb \<le> m_msgConsumed pb")
  case True
  then show ?thesis by (simp add: ReadField_def)
next
  case False
  obtain out f c' s where fl: "field_loop ReceiveData (m_msgLength pb) (m_msgConsumed pb) [] 0 []
      (sock pb) = (out, f, c', s)" by (metis prod_cases4)
  have k: "rcv_keeps (sock pb) s"
    using tcpf.keep_field_loop [of "sock pb"] fl by (metis snd_conv)
  have le: "c' \<le> m_msgLength pb"
    using field_loop_consumed [of "m_msgConsumed pb" "m_msgLength pb" ReceiveData "[]" 0 "[]" "sock pb"]
      fl False by simp
  have "msg_frame pb (pb\<lparr>sock := s, m_msgConsumed := c'\<rparr>)" if "m_msgLength pb > c'"
    using k that same_env_valid [of "sock pb" s]
    by (auto simp: msg_frame_def pb_quiet_def pb_inv_def rcv_keeps_def same_env_def)
  moreover have "msg_frame pb (pb\<lparr>sock := s, m_msgConsumed := 0, m_msgLength := 0\<rparr>)"
    using k same_env_valid [of "sock pb" s]
    by (auto simp: msg_frame_def pb_quiet_def pb_inv_def rcv_keeps_def same_env_def)
  ultimately show ?thesis using False fl HangException_keeps [OF k]
    by (auto simp: ReadField_def Let_def)
qed

lemma RcvVersion_frame: "msg_frame pb (snd (RcvVersion pb))"
proof -
  have r: "ReadField a = (ok, f, b) \<Longrightarrow> msg_frame pb a \<Longrightarrow> msg_frame pb b" for a b ok f
    using ReadField_frame [of a] msg_frame_trans by fastforce
  have l: "FlushMessage a = (n, b) \<Longrightarrow> msg_frame pb a \<Longrightarrow> msg_frame pb b" for a b n
    using FlushMessage_frame [of a] msg_frame_trans by fastforce
  have l': "msg_frame pb a \<Longrightarrow> msg_frame pb (snd (FlushMessage a))" for a
    using FlushMessage_frame [of a] msg_frame_trans by blast
  show ?thesis
    unfolding RcvVersion_def
    by (auto split: prod.split sum.split intro!: l' dest: r [OF _ msg_frame_refl] r l)
qed

section \<open>Version negotiation\<close>

fun protomap_find :: "(nat \<times> string) list \<Rightarrow> nat \<Rightarrow> (nat \<times> string) option" where
  "protomap_find [] tmp_ver = None"
| "protomap_find ((v, tok) # rows) tmp_ver =
     (if v = 0 then None else if v = tmp_ver then Some (v, tok) else protomap_find rows tmp_ver)"

lemma round_consumes:
  assumes c: "Connect rcvbuf (sock pb) = (True, s)"
    and s: "SendCommand cmd f (pb\<lparr>sock := s, m_hang := False\<rparr>) = (sent, pb1)"
    and r: "RcvVersion pb1 = (ver, pb2)"
  shows "length (os_connect (sock pb2)) < length (os_connect (sock pb))"
proof -
  have "os_connect (sock pb) \<noteq> []" using Connect_exhausted [of "sock pb" rcvbuf] c by auto
  then have "length (os_connect s) < length (os_connect (sock pb))"
    using Connect_consumes [of "sock pb" rcvbuf] c by simp
  moreover have "os_connect (sock pb1) = os_connect s"
    using SendCommand_frame [of "pb\<lparr>sock := s, m_hang := False\<rparr>" cmd f] s
    by (simp add: msg_frame_def)
  moreover have "os_connect (sock pb2) = os_connect (sock pb1)"
    using RcvVersion_frame [of pb1] r by (simp add: msg_frame_def)
  ultimately show ?thesis by simp
qed

text \<open>The loop of \<open>OpenConnection\<close>. Every round uses one connection attempt; the model has
  finitely many of them to give, so the recursion ends (an unbounded sequence of rounds would
  need an unbounded sequence of successful connections).\<close>

function open_loop ::
    "int \<Rightarrow> nat \<Rightarrow> 'a protobase_scheme \<Rightarrow> bool \<times> 'a protobase_scheme" where
  "open_loop rcvbuf tmp_ver pb =
     (case protomap_find protomap tmp_ver of
        None \<Rightarrow> open_failed (pb\<lparr>m_protoError := ERROR_UNKNOWN_VERSION\<rparr>)
      | Some (v, tok) \<Rightarrow>
          (case Connect rcvbuf (sock pb) of (ok, s) \<Rightarrow>
            (if \<not> ok
             then open_failed (pb\<lparr>sock := s, m_hang := True, m_protoError := ERROR_SERVER_UNREACHABLE\<rparr>)
             else
               (case SendCommand (version_command v tok) True (pb\<lparr>sock := s, m_hang := False\<rparr>) of
                  (sent, pb1) \<Rightarrow>
                    (if \<not> sent then open_failed (pb1\<lparr>m_protoError := ERROR_SOCKET_ERROR\<rparr>)
                     else case RcvVersion pb1 of
                         (None, pb2) \<Rightarrow> open_failed (pb2\<lparr>m_protoError := ERROR_SOCKET_ERROR\<rparr>)
                       | (Some ver, pb2) \<Rightarrow>
                           (if v = ver
                            then (True, pb2\<lparr>my_version := ver, m_isOpen := True,
                                            m_protoVersion := ver\<rparr>)
                            else open_loop rcvbuf ver
                                   (pb2\<lparr>sock := Disconnect (sock pb2)\<rparr>)))))))"
  by pat_completeness auto
termination
  by (relation "measure (\<lambda>(_, _, pb). length (os_connect (sock pb)))") (auto intro: round_consumes [OF sym sym sym])

declare open_loop.simps [simp del]

definition OpenConnection :: "int \<Rightarrow> 'a protobase_scheme \<Rightarrow> bool \<times> 'a protobase_scheme" where
  "OpenConnection rcvbuf pb =
     (let tmp_ver = (if my_version pb = 0 then fst (hd protomap) else my_version pb);
          pb1 = (if m_isOpen pb then Close pb else pb)
      in open_loop rcvbuf tmp_ver (pb1\<lparr>m_protoError := ERROR_NO_ERROR\<rparr>))"

section \<open>Accessors\<close>

definition GetProtoVersion :: "'a protobase_scheme \<Rightarrow> nat" where
  "GetProtoVersion pb = (if m_isOpen pb then m_protoVersion pb else 0)"

definition GetSocketErrNo :: "'a protobase_scheme \<Rightarrow> errno option" where
  "GetSocketErrNo pb = m_errno (sock pb)"

definition HasHanging :: "'a protobase_scheme \<Rightarrow> bool" where
  "HasHanging pb = m_tainted pb"

definition CleanHanging :: "'a protobase_scheme \<Rightarrow> 'a protobase_scheme" where
  "CleanHanging pb = pb\<lparr>m_tainted := False\<rparr>"

section \<open>Closing and opening, whatever the peer does\<close>

lemma Close_frame: "msg_frame pb (Close pb)"
proof -
  let ?p = "\<lambda>q. q\<lparr>sock := Disconnect (sock q), m_isOpen := False, m_msgLength := 0,
    m_msgConsumed := 0\<rparr>"
  have d: "msg_frame q (?p q)" for q :: "'a protobase_scheme"
    by (auto simp: msg_frame_def pb_quiet_def pb_inv_def)
  have "Close pb = ?p (if IsValid (sock pb) \<and> m_isOpen pb \<and> \<not> m_hang pb
      then snd (SendCommand ''DONE'' False pb) else pb)"
    by (auto simp: Close_def Close_with_def Let_def Disconnect_def)
  with d msg_frame_trans [OF SendCommand_frame d] show ?thesis by simp
qed

lemma Close_closed:
  "\<not> IsValid (sock (Close pb))" "\<not> m_isOpen (Close pb)" "m_msgLength (Close pb) = 0"
  "m_msgConsumed (Close pb) = 0"
  by (auto simp: Close_def Close_with_def Let_def)

lemma protomap_find_known:
  "protomap_find protomap t = Some (v, tok) \<Longrightarrow> v = t \<and> known_version v \<and> (v, tok) \<in> set protomap"
proof -
  have "protomap_find rows t = Some (v, tok) \<Longrightarrow> v = t \<and> v \<noteq> 0 \<and> (v, tok) \<in> set rows" for rows
    by (induction rows t rule: protomap_find.induct) (auto split: if_splits)
  moreover assume "protomap_find protomap t = Some (v, tok)"
  ultimately show ?thesis unfolding known_version_def by force
qed

text \<open>A version exchange that succeeds leaves no message behind.\<close>

lemma FlushMessage_idle [simp]:
  "m_msgLength (snd (FlushMessage pb)) = 0" "m_msgConsumed (snd (FlushMessage pb)) = 0"
  by (simp_all add: FlushMessage_def Let_def split: prod.split)

lemma FlushMessage_idle_eq:
  "FlushMessage pb = (n, pb') \<Longrightarrow> m_msgLength pb' = 0 \<and> m_msgConsumed pb' = 0"
  using FlushMessage_idle [of pb] by simp

lemma RcvVersion_idle:
  "m_msgLength (snd (RcvVersion pb)) = 0 \<and> m_msgConsumed (snd (RcvVersion pb)) = 0"
  by (auto simp: RcvVersion_def split: prod.split sum.split dest: FlushMessage_idle_eq)

lemma ReadField_rd_frame:
  assumes "ReadField pb = (True, f, pb')"
  shows "rd_frame pb pb'" "m_msgConsumed pb < m_msgLength pb"
proof -
  obtain out f' c' s where fl: "field_loop ReceiveData (m_msgLength pb) (m_msgConsumed pb) [] 0 []
      (sock pb) = (out, f', c', s)" by (metis prod_cases4)
  have e: "same_env (sock pb) s"
    using tcpf.keep_field_loop [of "sock pb"] fl by (metis snd_conv rcv_keeps_def)
  have "pb\<lparr>sock := s, m_msgConsumed := c\<rparr>
      = pb\<lparr>sock := s, m_msgLength := m_msgLength pb, m_msgConsumed := c\<rparr>" for c by simp
  then have "rd_frame pb (pb\<lparr>sock := s, m_msgConsumed := c\<rparr>)" for c
    using rd_frameI [OF e] by metis
  moreover have "pb\<lparr>sock := s, m_msgConsumed := 0, m_msgLength := 0\<rparr>
      = pb\<lparr>sock := s, m_msgLength := 0, m_msgConsumed := 0\<rparr>" by simp
  then have "rd_frame pb (pb\<lparr>sock := s, m_msgConsumed := 0, m_msgLength := 0\<rparr>)"
    using rd_frameI [OF e] by metis
  ultimately show "rd_frame pb pb'" using assms fl rd_frameI [OF e]
    by (auto simp: ReadField_def Let_def split: if_splits)
  show "m_msgConsumed pb < m_msgLength pb"
    using assms by (auto simp: ReadField_def Let_def split: if_splits)
qed

lemma FlushMessage_cases:
  assumes "FlushMessage pb = (n, pb')"
  shows "rd_frame pb pb' \<or> m_hang pb' \<and> \<not> IsValid (sock pb') \<and> m_tainted pb'"
proof -
  obtain ok k s where f: "flush_loop ReceiveData (size_sub (m_msgLength pb) (m_msgConsumed pb)) 0
      (sock pb) = (ok, k, s)" by (metis prod_cases3)
  have "same_env (sock pb) s"
    using tcpf.keep_flush_loop [of "sock pb"] f by (metis snd_conv rcv_keeps_def)
  then show ?thesis using assms f rd_frameI
    by (auto simp: FlushMessage_def Let_def HangException_eq split: if_splits)
qed

lemma RcvVersion_live:
  assumes "pb_inv pb" "RcvVersion pb = (Some v, pb')" "\<not> m_hang pb"
  shows "m_hang pb' \<longleftrightarrow> \<not> IsValid (sock pb')"
proof -
  from assms(2) obtain f1 pb1 f2 pb2 n where
    1: "ReadField pb = (True, f1, pb1)" and 2: "ReadField pb1 = (True, f2, pb2)"
    and 3: "FlushMessage pb2 = (n, pb')"
    by (auto simp: RcvVersion_def split: prod.splits if_splits sum.splits)
  have "IsValid (sock pb)" using ReadField_rd_frame(2) [OF 1] assms(1) by (auto simp: pb_inv_def)
  moreover have "rd_frame pb pb2"
    using ReadField_rd_frame(1) [OF 1] ReadField_rd_frame(1) [OF 2] rd_frame_trans by blast
  ultimately show ?thesis
    using FlushMessage_cases [OF 3] assms(3) rd_frame_simps [of pb pb2] rd_frame_simps [of pb2 pb']
    by auto
qed

text \<open>The post-condition of a round of negotiations.\<close>

definition open_post :: "'a protobase_scheme \<Rightarrow> bool \<Rightarrow> 'a protobase_scheme \<Rightarrow> bool" where
  "open_post pb ok pb' \<longleftrightarrow> pb_ok pb' \<and> m_isOpen pb' = ok
     \<and> protobase.more pb' = protobase.more pb
     \<and> m_msgLength pb' = 0 \<and> (m_tainted pb \<longrightarrow> m_tainted pb')
     \<and> (if ok then known_version (m_protoVersion pb') \<and> my_version pb' = m_protoVersion pb'
           \<and> m_protoError pb' = m_protoError pb \<and> (m_hang pb' \<longleftrightarrow> \<not> IsValid (sock pb'))
        else m_protoVersion pb' = 0 \<and> my_version pb' = my_version pb \<and> \<not> IsValid (sock pb')
           \<and> m_protoError pb' \<noteq> ERROR_NO_ERROR
           \<and> (m_protoError pb' = ERROR_SERVER_UNREACHABLE \<longrightarrow> m_hang pb'))"

lemma open_failed_post:
  assumes "pb_inv pb" "m_msgLength pb = 0" "protobase.more pb = protobase.more pb0"
    "my_version pb = my_version pb0" "m_protoError pb \<noteq> ERROR_NO_ERROR"
    "m_protoError pb = ERROR_SERVER_UNREACHABLE \<longrightarrow> m_hang pb" "m_tainted pb0 \<longrightarrow> m_tainted pb"
  shows "open_post pb0 (fst (open_failed pb)) (snd (open_failed pb))"
  using assms by (auto simp: open_post_def open_failed_def pb_ok_def pb_inv_def pb_quiet_def)

lemma frame_header_length [simp]: "length (frame_header l) = 8"
  by (simp add: frame_header_def)

text \<open>A command of admissible size that fails has closed the connection.\<close>

lemma SendCommand_failed:
  assumes "SendCommand cmd feedback pb = (False, pb')" "pb_inv pb"
    "cstr cmd \<noteq> []" "length (cstr cmd) < PROTO_SENDMSG_MAXSIZE"
  shows "m_hang pb' \<and> m_tainted pb' \<and> \<not> IsValid (sock pb') \<and> \<not> m_isOpen pb' \<and> m_msgLength pb' = 0"
proof -
  define pb0 where "pb0 = (if m_msgConsumed pb \<noteq> m_msgLength pb then snd (FlushMessage pb) else pb)"
  have z: "m_msgLength pb0 = 0" using assms(2) by (auto simp: pb0_def pb_inv_def)
  show ?thesis using assms(1,3,4) z
    by (auto simp: SendCommand_def Let_def HangException_eq RcvMessageLength_def
        split: prod.splits if_splits sum.splits simp flip: pb0_def)
qed

lemma SendCommand_sent:
  assumes "SendCommand cmd feedback pb = (True, pb')" "m_msgConsumed pb = m_msgLength pb"
  shows "m_hang pb' = m_hang pb" "m_isOpen pb' = m_isOpen pb"
  using assms
  by (auto simp: SendCommand_def Let_def RcvMessageLength_def split: prod.splits if_splits sum.splits)

text \<open>One round up to the command, and up to the answer.\<close>

lemma round_sent:
  assumes inv: "pb_inv pb" "m_msgLength pb = 0" "\<not> m_isOpen pb"
    and c: "Connect rcvbuf (sock pb) = (True, s)"
    and sc: "SendCommand (version_command v tok) True (pb\<lparr>sock := s, m_hang := False\<rparr>) = (sent, pb1)"
  shows "pb_inv pb1" "msg_frame (pb\<lparr>sock := s, m_hang := False\<rparr>) pb1" "\<not> sent \<Longrightarrow> m_msgLength pb1 = 0"
    "sent \<Longrightarrow> \<not> m_hang pb1" "\<not> m_isOpen pb1"
proof -
  let ?p = "pb\<lparr>sock := s, m_hang := False\<rparr>"
  have "sock_inv s" using Connect_inv [of "sock pb" rcvbuf] c inv(1) by (simp add: pb_inv_def)
  with inv have pi: "pb_inv ?p" by (auto simp: pb_inv_def)
  show f: "msg_frame ?p pb1"
    using SendCommand_frame [of ?p "version_command v tok" True] sc by simp
  with pi inv(3) show "pb_inv pb1" "\<not> m_isOpen pb1" by (auto simp: msg_frame_def)
  have "cstr (version_command v tok) \<noteq> []" by (simp add: version_command_def cstr_def)
  moreover have "length (cstr x) \<le> length x" for x by (simp add: cstr_def length_takeWhile_le)
  then have "length (cstr (version_command v tok)) < PROTO_SENDMSG_MAXSIZE"
    by (rule le_less_trans) (simp add: version_command_def PROTO_SENDMSG_MAXSIZE_def)
  ultimately show "\<not> sent \<Longrightarrow> m_msgLength pb1 = 0"
    using SendCommand_failed [of "version_command v tok" True ?p pb1] sc pi by simp
  show "sent \<Longrightarrow> \<not> m_hang pb1"
    using SendCommand_sent [of "version_command v tok" True ?p pb1] sc inv by (auto simp: pb_inv_def)
qed

lemma open_post_frame:
  assumes "open_post pb' ok pb''" "protobase.more pb' = protobase.more pb"
    "m_protoError pb' = m_protoError pb" "my_version pb' = my_version pb"
    "m_tainted pb \<longrightarrow> m_tainted pb'"
  shows "open_post pb ok pb''"
  using assms by (auto simp: open_post_def split: if_splits)

lemma round_answered:
  assumes inv: "pb_inv pb" "m_msgLength pb = 0" "\<not> m_isOpen pb"
    and c: "Connect rcvbuf (sock pb) = (True, s)"
    and sc: "SendCommand (version_command v tok) True (pb\<lparr>sock := s, m_hang := False\<rparr>) = (True, pb1)"
    and r: "RcvVersion pb1 = (ver, pb2)"
  shows "pb_inv pb2" "m_msgLength pb2 = 0" "m_msgConsumed pb2 = 0" "\<not> m_isOpen pb2"
    "msg_frame (pb\<lparr>sock := s, m_hang := False\<rparr>) pb2"
    "ver \<noteq> None \<Longrightarrow> m_hang pb2 \<longleftrightarrow> \<not> IsValid (sock pb2)"
proof -
  note s1 = round_sent [OF inv c sc]
  have f: "msg_frame pb1 pb2" using RcvVersion_frame [of pb1] r by simp
  show "msg_frame (pb\<lparr>sock := s, m_hang := False\<rparr>) pb2" using s1(2) f by (rule msg_frame_trans)
  show "pb_inv pb2" "\<not> m_isOpen pb2" using f s1(1,5) by (auto simp: msg_frame_def)
  show "m_msgLength pb2 = 0" "m_msgConsumed pb2 = 0" using RcvVersion_idle [of pb1] r by simp_all
  show "ver \<noteq> None \<Longrightarrow> m_hang pb2 \<longleftrightarrow> \<not> IsValid (sock pb2)"
    using RcvVersion_live [OF s1(1)] r s1(4) by auto
qed

lemma open_loop_post:
  assumes "pb_inv pb" "m_msgLength pb = 0" "\<not> m_isOpen pb"
  shows "open_post pb (fst (open_loop rcvbuf t pb)) (snd (open_loop rcvbuf t pb))"
  using assms
proof (induction rcvbuf t pb rule: open_loop.induct)
  case (1 rcvbuf t pb)
  note inv = "1.prems"
  note unf = open_loop.simps [of rcvbuf t pb]
  obtain ok s where c: "Connect rcvbuf (sock pb) = (ok, s)" by force
  have si: "sock_inv s" using Connect_inv [of "sock pb" rcvbuf] c inv(1) by (simp add: pb_inv_def)
  consider (unknown) "protomap_find protomap t = None"
    | (refused) v tok where "protomap_find protomap t = Some (v, tok)" "\<not> ok"
    | (connected) v tok where "protomap_find protomap t = Some (v, tok)" "ok"
    by (cases "protomap_find protomap t") auto
  then show ?case
  proof cases
    case unknown
    then show ?thesis unfolding unf
      using inv by (auto intro!: open_failed_post simp: pb_inv_def)
  next
    case refused
    then show ?thesis unfolding unf
      using inv si c by (auto intro!: open_failed_post simp: pb_inv_def)
  next
    case connected
    note vk = protomap_find_known [OF connected(1)]
    from connected(2) c have c: "Connect rcvbuf (sock pb) = (True, s)" by simp
    obtain sent pb1 where sc: "SendCommand (version_command v tok) True
      (pb\<lparr>sock := s, m_hang := False\<rparr>) = (sent, pb1)" by force
    obtain r pb2 where rv: "RcvVersion pb1 = (r, pb2)" by force
    note s1 = round_sent [OF inv c sc]
    consider (lost) "\<not> sent" | (bad) sent "r = None" | (agreed) sent "r = Some v"
      | (other) ver where sent "r = Some ver" "ver \<noteq> v" by (cases r) auto
    then show ?thesis
    proof cases
      case lost
      then show ?thesis unfolding unf using connected(1) c sc s1
        by (auto intro!: open_failed_post simp: pb_inv_def msg_frame_def)
    next
      case bad
      with round_answered [OF inv c _ rv] sc have "pb_inv pb2" "m_msgLength pb2 = 0"
        "msg_frame (pb\<lparr>sock := s, m_hang := False\<rparr>) pb2" by auto
      then show ?thesis unfolding unf using connected(1) c sc bad rv
        by (auto intro!: open_failed_post simp: pb_inv_def msg_frame_def)
    next
      case agreed
      with round_answered [OF inv c _ rv] sc have "pb_inv pb2" "m_msgLength pb2 = 0"
        "msg_frame (pb\<lparr>sock := s, m_hang := False\<rparr>) pb2" "m_hang pb2 \<longleftrightarrow> \<not> IsValid (sock pb2)" by auto
      then show ?thesis unfolding unf using connected(1) c sc agreed rv vk
        by (auto simp: open_post_def pb_ok_def pb_quiet_def pb_inv_def msg_frame_def)
    next
      case other
      let ?q = "pb2\<lparr>sock := Disconnect (sock pb2)\<rparr>"
      from other round_answered [OF inv c _ rv] sc have a: "pb_inv pb2" "m_msgLength pb2 = 0"
        "msg_frame (pb\<lparr>sock := s, m_hang := False\<rparr>) pb2" "\<not> m_isOpen pb2" by auto
      have "open_loop rcvbuf t pb = open_loop rcvbuf ver ?q"
        unfolding unf using connected(1) c sc other rv by simp
      moreover have "open_post ?q (fst (open_loop rcvbuf ver ?q)) (snd (open_loop rcvbuf ver ?q))"
        by (rule "1.IH" [OF connected(1) refl c [symmetric] _ sc [symmetric] _ rv [symmetric]])
          (use a other in \<open>auto simp: pb_inv_def\<close>)
      ultimately show ?thesis using a(3)
        by (auto elim!: open_post_frame simp: msg_frame_def)
    qed
  qed
qed

section \<open>The outcome of opening\<close>

lemma pb_ok_step: "msg_frame pb pb' \<Longrightarrow> pb_ok pb \<Longrightarrow> pb_ok pb'"
  by (simp add: msg_frame_def pb_ok_def)

lemma OpenConnection_post:
  assumes "pb_ok pb"
  shows "open_post (pb\<lparr>m_protoError := ERROR_NO_ERROR\<rparr>) (fst (OpenConnection r pb))
    (snd (OpenConnection r pb))"
proof -
  let ?p = "(if m_isOpen pb then Close pb else pb)\<lparr>m_protoError := ERROR_NO_ERROR\<rparr>"
  have f: "msg_frame pb (if m_isOpen pb then Close pb else pb)" by (simp add: Close_frame)
  have ok: "pb_ok (if m_isOpen pb then Close pb else pb)" using pb_ok_step [OF f assms] .
  have n: "\<not> m_isOpen (if m_isOpen pb then Close pb else pb)" by (simp add: Close_closed)
  have l: "m_msgLength ?p = 0" "pb_inv ?p" "\<not> m_isOpen ?p"
    using ok n by (auto simp: pb_ok_def pb_inv_def pb_quiet_def split: if_splits)
  have "open_post ?p (fst (OpenConnection r pb)) (snd (OpenConnection r pb))"
    using open_loop_post [OF l(2,1,3)] by (simp add: OpenConnection_def Let_def)
  then show ?thesis
    by (rule open_post_frame) (use f in \<open>auto simp: msg_frame_def\<close>)
qed

lemma OpenConnection_ok: "pb_ok pb \<Longrightarrow> pb_ok (snd (OpenConnection r pb))"
  using OpenConnection_post [of pb r] by (simp add: open_post_def)

lemma OpenConnection_ok_eq: "OpenConnection r pb = (b, pb') \<Longrightarrow> pb_ok pb \<Longrightarrow> pb_ok pb'"
  using OpenConnection_ok [of pb r] by simp

lemma Close_hang_ok: "sock_inv (sock pb) \<Longrightarrow> m_hang pb \<Longrightarrow> pb_ok (Close pb)"
  by (auto simp: Close_def Close_with_def Let_def pb_ok_def pb_inv_def pb_quiet_def)

section \<open>Properties\<close>



text \<open>A command of admissible size that fails leaves the connection closed and marked: the
  socket is gone, the object is not open, the hang and taint flags are up and no message is
  pending.\<close>

theorem command_failure_closes:
  assumes "pb_inv pb" "SendCommand cmd feedback pb = (False, pb')" "is_cstring cmd" "cmd \<noteq> []"
    "length cmd < PROTO_SENDMSG_MAXSIZE"
  shows "\<not> IsValid (sock pb') \<and> \<not> m_isOpen pb' \<and> m_hang pb' \<and> HasHanging pb' \<and> m_msgLength pb' = 0"
  using SendCommand_failed [OF assms(2,1)] assms(3-5) by (simp add: HasHanging_def)

theorem command_failure_closes_witness:
  "let pb = ProtoBase_new [] [] [] 6543 0 []; pb' = snd (SendCommand ''DONE'' True pb)
   in \<not> IsValid (sock pb') \<and> m_hang pb'"
proof -
  let ?pb = "ProtoBase_new [] [] [] 6543 0 []"
  have i: "pb_inv ?pb"
    by (simp add: pb_inv_def ProtoBase_new_def sock_inv_def TcpSocket_new_def SOCKET_BUFFER_SIZE_def)
  have "fst (SendCommand ''DONE'' True ?pb) = False"
    by (simp add: SendCommand_def ProtoBase_new_def TcpSocket_new_def SendData_def cstr_def
        PROTO_SENDMSG_MAXSIZE_def)
  then have "SendCommand ''DONE'' True ?pb = (False, snd (SendCommand ''DONE'' True ?pb))"
    by (metis prod.collapse)
  from command_failure_closes [OF i this] show ?thesis
    by (simp add: Let_def PROTO_SENDMSG_MAXSIZE_def)
qed

text \<open>C1: Every operation of the base class keeps the invariant of the connection, whatever the
  peer does: the position stays inside the message, a closed socket has no pending message, an
  open connection speaks a known version and has a live socket unless it hangs, and a
  connection that is not open has no socket.\<close>

theorem base_operations_keep_invariant:
  assumes "pb_ok pb"
  shows "pb_ok (snd (SendCommand cmd feedback pb)) \<and> pb_ok (snd (snd (ReadField pb)))
    \<and> pb_ok (snd (FlushMessage pb)) \<and> pb_ok (snd (RcvMessageLength pb)) \<and> pb_ok (HangException pb)
    \<and> pb_ok (Close pb) \<and> pb_ok (snd (OpenConnection rcvbuf pb))"
proof -
  have k: "msg_frame pb pb' \<Longrightarrow> pb_ok pb'" for pb' using assms by (simp add: msg_frame_def pb_ok_def)
  show ?thesis
    by (simp add: OpenConnection_ok [OF assms] k [OF SendCommand_frame] k [OF ReadField_frame]
        k [OF FlushMessage_frame] k [OF RcvMessageLength_frame] k [OF HangException_frame]
        k [OF Close_frame])
qed

lemma ProtoBase_new_ok [simp]: "pb_ok (ProtoBase_new os host server port ver junk)"
  using TcpSocket_new_inv [of os host]
  by (simp add: pb_ok_def pb_inv_def pb_quiet_def ProtoBase_new_def sock_inv_def)
    (simp add: TcpSocket_new_def IsValid_def)

theorem base_operations_keep_invariant_witness:
  "pb_ok (snd (OpenConnection 0 (ProtoBase_new [ResolveError 2] ''h'' ''s'' 6543 0 [])))"
  using base_operations_keep_invariant [of "ProtoBase_new [ResolveError 2] ''h'' ''s'' 6543 0 []"] by simp

text \<open>C36: The outcome of opening, whatever the peer does. On success the object is open with a
  version of the table, the version is remembered for the next attempt and there is no error; on
  failure the object is closed with version 0, the remembered version is unchanged and the error
  tells why, with the hang flag up when the server was unreachable.\<close>

theorem open_connection_outcome:
  assumes "pb_ok pb" "OpenConnection rcvbuf pb = (ok, pb')"
  shows "m_isOpen pb' = ok
    \<and> (ok \<longrightarrow> known_version (GetProtoVersion pb') \<and> my_version pb' = GetProtoVersion pb'
         \<and> m_protoError pb' = ERROR_NO_ERROR \<and> (m_hang pb' \<longleftrightarrow> \<not> IsValid (sock pb')))
    \<and> (\<not> ok \<longrightarrow> GetProtoVersion pb' = 0 \<and> my_version pb' = my_version pb \<and> \<not> IsValid (sock pb')
         \<and> m_protoError pb' \<noteq> ERROR_NO_ERROR
         \<and> (m_protoError pb' = ERROR_SERVER_UNREACHABLE \<longrightarrow> m_hang pb'))"
  using OpenConnection_post [OF assms(1), of rcvbuf] assms(2)
  by (auto simp: open_post_def GetProtoVersion_def)

theorem open_connection_outcome_witness:
  "let pb' = snd (OpenConnection 0 (ProtoBase_new [ResolveError 2] ''h'' ''s'' 6543 0 []))
   in GetProtoVersion pb' = 0 \<and> m_protoError pb' \<noteq> ERROR_NO_ERROR"
proof -
  let ?pb = "ProtoBase_new [ResolveError 2] ''h'' ''s'' 6543 0 []"
  have "fst (OpenConnection 0 ?pb) = False"
    by (simp add: OpenConnection_def ProtoBase_new_def TcpSocket_new_def open_loop.simps protomap_def
        Connect_def IsValid_def open_failed_def SOCKET_RCVBUF_MINSIZE_def)
  then have "OpenConnection 0 ?pb = (False, snd (OpenConnection 0 ?pb))" by (metis prod.collapse)
  from open_connection_outcome [OF _ this] show ?thesis by (simp add: Let_def)
qed

end
