(* ===== verification/MythTypes.thy ===== *)
theory MythTypes
  imports Builtin
begin

text \<open>
  The data of \<open>mythtypes.h\<close> and the protocol mappers of \<open>mythtypes.cpp\<close>. An enumeration is a
  datatype together with its numbers and the cast from an integer; the tables keep the
  integers of the source, because the generic mapper works on integers and the callers cast.
  The structures are records. \<open>time_t\<close> is a signed 64-bit word, \<open>double\<close> its 64-bit pattern.
\<close>

section \<open>The generic mapper\<close>

text \<open>\<open>protoVer\<close>, \<open>tVal\<close>, \<open>iVal\<close> and \<open>sVal\<close> of an entry. A protocol version is an
  \<open>unsigned\<close>, only ever compared.\<close>

type_synonym protoref_t = "nat \<times> int \<times> int \<times> string"

fun tValFromString :: "protoref_t list \<Rightarrow> nat \<Rightarrow> string \<Rightarrow> int \<Rightarrow> int" where
  "tValFromString [] proto sVal unk = unk"
| "tValFromString ((v, t, i, s) # rows) proto sVal unk =
     (if proto \<ge> v \<and> sVal = s then t else tValFromString rows proto sVal unk)"

fun tValFromNum :: "protoref_t list \<Rightarrow> nat \<Rightarrow> int \<Rightarrow> int \<Rightarrow> int" where
  "tValFromNum [] proto iVal unk = unk"
| "tValFromNum ((v, t, i, s) # rows) proto iVal unk =
     (if proto \<ge> v \<and> iVal = i then t else tValFromNum rows proto iVal unk)"

fun tValToString :: "protoref_t list \<Rightarrow> nat \<Rightarrow> int \<Rightarrow> string \<Rightarrow> string" where
  "tValToString [] proto tVal unk = unk"
| "tValToString ((v, t, i, s) # rows) proto tVal unk =
     (if proto \<ge> v \<and> tVal = t then s else tValToString rows proto tVal unk)"

fun tValToNum :: "protoref_t list \<Rightarrow> nat \<Rightarrow> int \<Rightarrow> int \<Rightarrow> int" where
  "tValToNum [] proto tVal unk = unk"
| "tValToNum ((v, t, i, s) # rows) proto tVal unk =
     (if proto \<ge> v \<and> tVal = t then i else tValToNum rows proto tVal unk)"

text \<open>The cast of an integer to an enumeration: the enumerator with that number. (No call
  of the source casts a number that is not one; the unknown enumerator stands for that case.)\<close>

fun enum_cast :: "('e \<Rightarrow> int) \<Rightarrow> 'e \<Rightarrow> 'e list \<Rightarrow> int \<Rightarrow> 'e" where
  "enum_cast num d [] i = d"
| "enum_cast num d (e # es) i = (if num e = i then e else enum_cast num d es i)"

section \<open>The enumerations and their tables\<close>

datatype RT_t =
    RT_NotRecording | RT_SingleRecord | RT_DailyRecord
  | RT_ChannelRecord | RT_AllRecord | RT_WeeklyRecord
  | RT_OneRecord | RT_OverrideRecord | RT_DontRecord
  | RT_FindDailyRecord | RT_FindWeeklyRecord | RT_TemplateRecord
  | RT_UNKNOWN

primrec RT_num :: "RT_t \<Rightarrow> int" where
    "RT_num RT_NotRecording = 0"
  | "RT_num RT_SingleRecord = 1"
  | "RT_num RT_DailyRecord = 2"
  | "RT_num RT_ChannelRecord = 3"
  | "RT_num RT_AllRecord = 4"
  | "RT_num RT_WeeklyRecord = 5"
  | "RT_num RT_OneRecord = 6"
  | "RT_num RT_OverrideRecord = 7"
  | "RT_num RT_DontRecord = 8"
  | "RT_num RT_FindDailyRecord = 9"
  | "RT_num RT_FindWeeklyRecord = 10"
  | "RT_num RT_TemplateRecord = 11"
  | "RT_num RT_UNKNOWN = 12"

definition RT_cast :: "int \<Rightarrow> RT_t" where
  "RT_cast i = enum_cast RT_num RT_UNKNOWN
    [RT_NotRecording, RT_SingleRecord, RT_DailyRecord,
     RT_ChannelRecord, RT_AllRecord, RT_WeeklyRecord,
     RT_OneRecord, RT_OverrideRecord, RT_DontRecord,
     RT_FindDailyRecord, RT_FindWeeklyRecord, RT_TemplateRecord,
     RT_UNKNOWN] i"

definition ruleType :: "protoref_t list" where
  "ruleType =
    [(79, RT_num RT_TemplateRecord, 11, ''Recording Template''),
     (79, RT_num RT_NotRecording, 0, ''Not Recording''),
     (76, RT_num RT_OneRecord, 6, ''Record One''),
     (75, RT_num RT_SingleRecord, 1, ''Single Record''),
     (75, RT_num RT_DailyRecord, 2, ''Record Daily''),
     (75, RT_num RT_ChannelRecord, 3, ''Channel Record''),
     (75, RT_num RT_AllRecord, 4, ''Record All''),
     (75, RT_num RT_WeeklyRecord, 5, ''Record Weekly''),
     (75, RT_num RT_OneRecord, 6, ''Find One''),
     (75, RT_num RT_OverrideRecord, 7, ''Override Recording''),
     (75, RT_num RT_DontRecord, 8, ''Do not Record''),
     (75, RT_num RT_FindDailyRecord, 9, ''Find Daily''),
     (75, RT_num RT_FindWeeklyRecord, 10, ''Find Weekly''),
     (75, RT_num RT_TemplateRecord, 11, ''Not Recording''),
     (75, RT_num RT_NotRecording, 0, ''Not Recording'')]"

definition RuleTypeFromString :: "nat \<Rightarrow> string \<Rightarrow> RT_t" where
  "RuleTypeFromString proto type = RT_cast (tValFromString ruleType proto type (RT_num RT_UNKNOWN))"

definition RuleTypeFromNum :: "nat \<Rightarrow> int \<Rightarrow> RT_t" where
  "RuleTypeFromNum proto type = RT_cast (tValFromNum ruleType proto type (RT_num RT_UNKNOWN))"

definition RuleTypeToString :: "nat \<Rightarrow> RT_t \<Rightarrow> string" where
  "RuleTypeToString proto type = tValToString ruleType proto (RT_num type) []"

definition RuleTypeToNum :: "nat \<Rightarrow> RT_t \<Rightarrow> int" where
  "RuleTypeToNum proto type = tValToNum ruleType proto (RT_num type) 0"

datatype DI_t =
    DI_InRecorded | DI_InOldRecorded | DI_InAll
  | DI_NewEpi | DI_UNKNOWN

primrec DI_num :: "DI_t \<Rightarrow> int" where
    "DI_num DI_InRecorded = 0"
  | "DI_num DI_InOldRecorded = 1"
  | "DI_num DI_InAll = 2"
  | "DI_num DI_NewEpi = 3"
  | "DI_num DI_UNKNOWN = 4"

definition DI_cast :: "int \<Rightarrow> DI_t" where
  "DI_cast i = enum_cast DI_num DI_UNKNOWN
    [DI_InRecorded, DI_InOldRecorded, DI_InAll,
     DI_NewEpi, DI_UNKNOWN] i"

definition dupIn :: "protoref_t list" where
  "dupIn =
    [(75, DI_num DI_InRecorded, 1, ''Current Recordings''),
     (75, DI_num DI_InOldRecorded, 2, ''Previous Recordings''),
     (75, DI_num DI_InAll, 15, ''All Recordings''),
     (75, DI_num DI_NewEpi, 16, ''New Episodes Only'')]"

definition DupInFromString :: "nat \<Rightarrow> string \<Rightarrow> DI_t" where
  "DupInFromString proto type = DI_cast (tValFromString dupIn proto type (DI_num DI_UNKNOWN))"

definition DupInFromNum :: "nat \<Rightarrow> int \<Rightarrow> DI_t" where
  "DupInFromNum proto type = DI_cast (tValFromNum dupIn proto type (DI_num DI_UNKNOWN))"

definition DupInToString :: "nat \<Rightarrow> DI_t \<Rightarrow> string" where
  "DupInToString proto type = tValToString dupIn proto (DI_num type) []"

definition DupInToNum :: "nat \<Rightarrow> DI_t \<Rightarrow> int" where
  "DupInToNum proto type = tValToNum dupIn proto (DI_num type) 0"

datatype DM_t =
    DM_CheckNone | DM_CheckSubtitle | DM_CheckDescription
  | DM_CheckSubtitleAndDescription | DM_CheckSubtitleThenDescription | DM_UNKNOWN

primrec DM_num :: "DM_t \<Rightarrow> int" where
    "DM_num DM_CheckNone = 0"
  | "DM_num DM_CheckSubtitle = 1"
  | "DM_num DM_CheckDescription = 2"
  | "DM_num DM_CheckSubtitleAndDescription = 3"
  | "DM_num DM_CheckSubtitleThenDescription = 4"
  | "DM_num DM_UNKNOWN = 5"

definition DM_cast :: "int \<Rightarrow> DM_t" where
  "DM_cast i = enum_cast DM_num DM_UNKNOWN
    [DM_CheckNone, DM_CheckSubtitle, DM_CheckDescription,
     DM_CheckSubtitleAndDescription, DM_CheckSubtitleThenDescription, DM_UNKNOWN] i"

definition dupMethod_map :: "protoref_t list" where
  "dupMethod_map =
    [(75, DM_num DM_CheckNone, 1, ''None''),
     (75, DM_num DM_CheckSubtitle, 2, ''Subtitle''),
     (75, DM_num DM_CheckDescription, 4, ''Description''),
     (75, DM_num DM_CheckSubtitleAndDescription, 6, ''Subtitle and Description''),
     (75, DM_num DM_CheckSubtitleThenDescription, 8, ''Subtitle then Description'')]"

definition DupMethodFromString :: "nat \<Rightarrow> string \<Rightarrow> DM_t" where
  "DupMethodFromString proto type = DM_cast (tValFromString dupMethod_map proto type (DM_num DM_UNKNOWN))"

definition DupMethodFromNum :: "nat \<Rightarrow> int \<Rightarrow> DM_t" where
  "DupMethodFromNum proto type = DM_cast (tValFromNum dupMethod_map proto type (DM_num DM_UNKNOWN))"

definition DupMethodToString :: "nat \<Rightarrow> DM_t \<Rightarrow> string" where
  "DupMethodToString proto type = tValToString dupMethod_map proto (DM_num type) []"

definition DupMethodToNum :: "nat \<Rightarrow> DM_t \<Rightarrow> int" where
  "DupMethodToNum proto type = tValToNum dupMethod_map proto (DM_num type) 0"

datatype ST_t =
    ST_NoSearch | ST_PowerSearch | ST_TitleSearch
  | ST_KeywordSearch | ST_PeopleSearch | ST_ManualSearch
  | ST_UNKNOWN

primrec ST_num :: "ST_t \<Rightarrow> int" where
    "ST_num ST_NoSearch = 0"
  | "ST_num ST_PowerSearch = 1"
  | "ST_num ST_TitleSearch = 2"
  | "ST_num ST_KeywordSearch = 3"
  | "ST_num ST_PeopleSearch = 4"
  | "ST_num ST_ManualSearch = 5"
  | "ST_num ST_UNKNOWN = 6"

definition ST_cast :: "int \<Rightarrow> ST_t" where
  "ST_cast i = enum_cast ST_num ST_UNKNOWN
    [ST_NoSearch, ST_PowerSearch, ST_TitleSearch,
     ST_KeywordSearch, ST_PeopleSearch, ST_ManualSearch,
     ST_UNKNOWN] i"

definition searchType_map :: "protoref_t list" where
  "searchType_map =
    [(75, ST_num ST_NoSearch, 0, ''None''),
     (75, ST_num ST_PowerSearch, 1, ''Power Search''),
     (75, ST_num ST_TitleSearch, 2, ''Title Search''),
     (75, ST_num ST_KeywordSearch, 3, ''Keyword Search''),
     (75, ST_num ST_PeopleSearch, 4, ''People Search''),
     (75, ST_num ST_ManualSearch, 5, ''Manual Search'')]"

definition SearchTypeFromString :: "nat \<Rightarrow> string \<Rightarrow> ST_t" where
  "SearchTypeFromString proto type = ST_cast (tValFromString searchType_map proto type (ST_num ST_UNKNOWN))"

definition SearchTypeFromNum :: "nat \<Rightarrow> int \<Rightarrow> ST_t" where
  "SearchTypeFromNum proto type = ST_cast (tValFromNum searchType_map proto type (ST_num ST_UNKNOWN))"

definition SearchTypeToString :: "nat \<Rightarrow> ST_t \<Rightarrow> string" where
  "SearchTypeToString proto type = tValToString searchType_map proto (ST_num type) []"

definition SearchTypeToNum :: "nat \<Rightarrow> ST_t \<Rightarrow> int" where
  "SearchTypeToNum proto type = tValToNum searchType_map proto (ST_num type) 0"

datatype CATT_t =
    CATT_CategoryNone | CATT_CategoryMovie | CATT_CategorySeries
  | CATT_CategorySports | CATT_CategoryTVShow | CATT_UNKNOWN

primrec CATT_num :: "CATT_t \<Rightarrow> int" where
    "CATT_num CATT_CategoryNone = 0"
  | "CATT_num CATT_CategoryMovie = 1"
  | "CATT_num CATT_CategorySeries = 2"
  | "CATT_num CATT_CategorySports = 3"
  | "CATT_num CATT_CategoryTVShow = 4"
  | "CATT_num CATT_UNKNOWN = 5"

definition CATT_cast :: "int \<Rightarrow> CATT_t" where
  "CATT_cast i = enum_cast CATT_num CATT_UNKNOWN
    [CATT_CategoryNone, CATT_CategoryMovie, CATT_CategorySeries,
     CATT_CategorySports, CATT_CategoryTVShow, CATT_UNKNOWN] i"

definition categoryType :: "protoref_t list" where
  "categoryType =
    [(79, CATT_num CATT_CategoryNone, 0, ''''),
     (79, CATT_num CATT_CategoryMovie, 1, ''movie''),
     (79, CATT_num CATT_CategorySeries, 2, ''series''),
     (79, CATT_num CATT_CategorySports, 3, ''sports''),
     (79, CATT_num CATT_CategoryTVShow, 4, ''tvshow'')]"

definition CategoryTypeFromString :: "nat \<Rightarrow> string \<Rightarrow> CATT_t" where
  "CategoryTypeFromString proto type =
     (if type = [] then CATT_CategoryNone
      else CATT_cast (tValFromString categoryType proto type (CATT_num CATT_UNKNOWN)))"

definition CategoryTypeFromNum :: "nat \<Rightarrow> int \<Rightarrow> CATT_t" where
  "CategoryTypeFromNum proto type = CATT_cast (tValFromNum categoryType proto type (CATT_num CATT_UNKNOWN))"

definition CategoryTypeToString :: "nat \<Rightarrow> CATT_t \<Rightarrow> string" where
  "CategoryTypeToString proto type = tValToString categoryType proto (CATT_num type) []"

definition CategoryTypeToNum :: "nat \<Rightarrow> CATT_t \<Rightarrow> int" where
  "CategoryTypeToNum proto type = tValToNum categoryType proto (CATT_num type) 0"

datatype RS_t =
    RS_TUNING | RS_FAILED | RS_TUNER_BUSY
  | RS_LOW_DISKSPACE | RS_CANCELLED | RS_MISSED
  | RS_ABORTED | RS_RECORDED | RS_RECORDING
  | RS_WILL_RECORD | RS_UNKNOWN | RS_DONT_RECORD
  | RS_PREVIOUS_RECORDING | RS_CURRENT_RECORDING | RS_EARLIER_RECORDING
  | RS_TOO_MANY_RECORDINGS | RS_NOT_LISTED | RS_CONFLICT
  | RS_LATER_SHOWING | RS_REPEAT | RS_INACTIVE
  | RS_NEVER_RECORD | RS_OFFLINE | RS_OTHER_SHOWING

primrec RS_num :: "RS_t \<Rightarrow> int" where
    "RS_num RS_TUNING = -10"
  | "RS_num RS_FAILED = -9"
  | "RS_num RS_TUNER_BUSY = -8"
  | "RS_num RS_LOW_DISKSPACE = -7"
  | "RS_num RS_CANCELLED = -6"
  | "RS_num RS_MISSED = -5"
  | "RS_num RS_ABORTED = -4"
  | "RS_num RS_RECORDED = -3"
  | "RS_num RS_RECORDING = -2"
  | "RS_num RS_WILL_RECORD = -1"
  | "RS_num RS_UNKNOWN = 0"
  | "RS_num RS_DONT_RECORD = 1"
  | "RS_num RS_PREVIOUS_RECORDING = 2"
  | "RS_num RS_CURRENT_RECORDING = 3"
  | "RS_num RS_EARLIER_RECORDING = 4"
  | "RS_num RS_TOO_MANY_RECORDINGS = 5"
  | "RS_num RS_NOT_LISTED = 6"
  | "RS_num RS_CONFLICT = 7"
  | "RS_num RS_LATER_SHOWING = 8"
  | "RS_num RS_REPEAT = 9"
  | "RS_num RS_INACTIVE = 10"
  | "RS_num RS_NEVER_RECORD = 11"
  | "RS_num RS_OFFLINE = 12"
  | "RS_num RS_OTHER_SHOWING = 13"

definition RS_cast :: "int \<Rightarrow> RS_t" where
  "RS_cast i = enum_cast RS_num RS_UNKNOWN
    [RS_TUNING, RS_FAILED, RS_TUNER_BUSY,
     RS_LOW_DISKSPACE, RS_CANCELLED, RS_MISSED,
     RS_ABORTED, RS_RECORDED, RS_RECORDING,
     RS_WILL_RECORD, RS_UNKNOWN, RS_DONT_RECORD,
     RS_PREVIOUS_RECORDING, RS_CURRENT_RECORDING, RS_EARLIER_RECORDING,
     RS_TOO_MANY_RECORDINGS, RS_NOT_LISTED, RS_CONFLICT,
     RS_LATER_SHOWING, RS_REPEAT, RS_INACTIVE,
     RS_NEVER_RECORD, RS_OFFLINE, RS_OTHER_SHOWING] i"

definition recStatus :: "protoref_t list" where
  "recStatus =
    [(75, RS_num RS_TUNING, -10, ''Tuning''),
     (75, RS_num RS_FAILED, -9, ''Failed''),
     (75, RS_num RS_TUNER_BUSY, -8, ''Tuner busy''),
     (75, RS_num RS_LOW_DISKSPACE, -7, ''Low disk space''),
     (75, RS_num RS_CANCELLED, -6, ''Cancelled''),
     (75, RS_num RS_MISSED, -5, ''Missed''),
     (75, RS_num RS_ABORTED, -4, ''Aborted''),
     (75, RS_num RS_RECORDED, -3, ''Recorded''),
     (75, RS_num RS_RECORDING, -2, ''Recording''),
     (75, RS_num RS_WILL_RECORD, -1, ''Will record''),
     (75, RS_num RS_UNKNOWN, 0, ''Unknown''),
     (75, RS_num RS_DONT_RECORD, 1, ''Don'' @ [CHR 0x27] @ ''t record''),
     (75, RS_num RS_PREVIOUS_RECORDING, 2, ''Previous recording''),
     (75, RS_num RS_CURRENT_RECORDING, 3, ''Current recording''),
     (75, RS_num RS_EARLIER_RECORDING, 4, ''Earlier recording''),
     (75, RS_num RS_TOO_MANY_RECORDINGS, 5, ''Too many recordings''),
     (75, RS_num RS_NOT_LISTED, 6, ''Not listed''),
     (75, RS_num RS_CONFLICT, 7, ''Conflict''),
     (75, RS_num RS_LATER_SHOWING, 8, ''Later showing''),
     (75, RS_num RS_REPEAT, 9, ''Repeat''),
     (75, RS_num RS_INACTIVE, 10, ''Inactive''),
     (75, RS_num RS_NEVER_RECORD, 11, ''Never record''),
     (75, RS_num RS_OFFLINE, 12, ''Offline''),
     (75, RS_num RS_OTHER_SHOWING, 13, ''Other showing'')]"

definition RecStatusFromString :: "nat \<Rightarrow> string \<Rightarrow> RS_t" where
  "RecStatusFromString proto type = RS_cast (tValFromString recStatus proto type (RT_num RT_UNKNOWN))"

definition RecStatusFromNum :: "nat \<Rightarrow> int \<Rightarrow> RS_t" where
  "RecStatusFromNum proto type = RS_cast (tValFromNum recStatus proto type (RT_num RT_UNKNOWN))"

definition RecStatusToString :: "nat \<Rightarrow> RS_t \<Rightarrow> string" where
  "RecStatusToString proto type = tValToString recStatus proto (RS_num type) []"

definition RecStatusToNum :: "nat \<Rightarrow> RS_t \<Rightarrow> int" where
  "RecStatusToNum proto type = tValToNum recStatus proto (RS_num type) 0"

section \<open>The structures\<close>

type_synonym time_t = "64 word"
type_synonym double = "64 word"

datatype EVENT_t =
    EVENT_HANDLER_STATUS | EVENT_HANDLER_TIMER | EVENT_UNKNOWN | EVENT_UPDATE_FILE_SIZE
  | EVENT_LIVETV_WATCH | EVENT_LIVETV_CHAIN | EVENT_DONE_RECORDING | EVENT_QUIT_LIVETV
  | EVENT_RECORDING_LIST_CHANGE | EVENT_SCHEDULE_CHANGE | EVENT_SIGNAL | EVENT_ASK_RECORDING
  | EVENT_CLEAR_SETTINGS_CACHE | EVENT_GENERATED_PIXMAP | EVENT_SYSTEM_EVENT

datatype WHENCE_t = WHENCE_SET | WHENCE_CUR | WHENCE_END

record Artwork =
  art_url :: string
  art_fileName :: string
  art_storageGroup :: string
  art_type :: string

record Channel =
  chanId :: u32
  chanNum :: string
  callSign :: string
  iconURL :: string
  channelName :: string
  mplexId :: u32
  commFree :: bool
  chanFilters :: string
  sourceId :: u32
  inputId :: u32
  visible :: bool

definition Channel_init :: Channel where
  "Channel_init = \<lparr>chanId = 0, chanNum = [], callSign = [], iconURL = [], channelName = [],
     mplexId = 0, commFree = False, chanFilters = [], sourceId = 0, inputId = 0,
     visible = True\<rparr>"

record Recording =
  recordId :: u32
  priority :: i32
  status :: i8
  encoderId :: u32
  recType :: u8
  dupInType :: u8
  dupMethod :: u8
  startTs :: time_t
  endTs :: time_t
  profile :: string
  recGroup :: string
  storageGroup :: string
  playGroup :: string
  recordedId :: u32

definition Recording_init :: Recording where
  "Recording_init = \<lparr>recordId = 0, priority = 0, status = 0, encoderId = 0, recType = 0,
     dupInType = of_int (DI_num DI_InRecorded), dupMethod = of_int (DM_num DM_CheckNone),
     startTs = 0, endTs = 0, profile = [], recGroup = [], storageGroup = [], playGroup = [],
     recordedId = 0\<rparr>"

record Program =
  startTime :: time_t
  endTime :: time_t
  title :: string
  subTitle :: string
  description :: string
  season :: u16
  episode :: u16
  category :: string
  catType :: string
  hostName :: string
  fileName :: string
  fileSize :: i64
  repeat :: bool
  programFlags :: u32
  seriesId :: string
  programId :: string
  inetref :: string
  lastModified :: time_t
  stars :: double
  airdate :: string
  audioProps :: u16
  videoProps :: u16
  subProps :: u16
  channel :: Channel
  recording :: Recording
  artwork :: "Artwork list"

definition Program_init :: Program where
  "Program_init = \<lparr>startTime = 0, endTime = 0, title = [], subTitle = [], description = [],
     season = 0, episode = 0, category = [], catType = [], hostName = [], fileName = [],
     fileSize = 0, repeat = False, programFlags = 0, seriesId = [], programId = [],
     inetref = [], lastModified = 0, stars = 0, airdate = [], audioProps = 0, videoProps = 0,
     subProps = 0, channel = Channel_init, recording = Recording_init, artwork = []\<rparr>"

record CardInput =
  in_inputId :: u32
  in_cardId :: u32
  in_sourceId :: u32
  in_mplexId :: u32
  in_inputName :: string
  in_liveTVOrder :: u8

definition CardInput_init :: CardInput where
  "CardInput_init = \<lparr>in_inputId = 0, in_cardId = 0, in_sourceId = 0, in_mplexId = 0,
     in_inputName = [], in_liveTVOrder = 0\<rparr>"

record SignalStatus =
  sig_lock :: bool
  sig_signal :: i32
  sig_snr :: i32
  sig_ber :: i64
  sig_ucb :: i64

definition SignalStatus_init :: SignalStatus where
  "SignalStatus_init = \<lparr>sig_lock = False, sig_signal = 0, sig_snr = 0, sig_ber = 0,
     sig_ucb = 0\<rparr>"

record EventMessage =
  ev_event :: EVENT_t
  ev_subject :: "string list"
  ev_program :: "Program option"
  ev_signal :: "SignalStatus option"

definition EventMessage_init :: EventMessage where
  "EventMessage_init = \<lparr>ev_event = EVENT_UNKNOWN, ev_subject = [], ev_program = None,
     ev_signal = None\<rparr>"

record StorageGroupFile =
  sgf_fileName :: string
  sgf_storageGroup :: string
  sgf_hostName :: string
  sgf_lastModified :: time_t
  sgf_size :: i64

definition StorageGroupFile_init :: StorageGroupFile where
  "StorageGroupFile_init = \<lparr>sgf_fileName = [], sgf_storageGroup = [], sgf_hostName = [],
     sgf_lastModified = 0, sgf_size = 0\<rparr>"

text \<open>The type of a mark is kept as the number stored in the enumeration: the parser
  writes one byte of it.\<close>

record Mark =
  markType :: u32
  markValue :: i64

definition Mark_init :: Mark where
  "Mark_init = \<lparr>markType = 0, markValue = 0\<rparr>"

section \<open>Helpers\<close>

definition StringToId :: "string \<Rightarrow> u32" where
  "StringToId str = (case string_to_uint32 (c_str str) of Inl _ \<Rightarrow> 0 | Inr n \<Rightarrow> n)"

definition IdToString :: "u32 \<Rightarrow> string" where
  "IdToString n = uint32_to_string n"

definition StringToInt :: "string \<Rightarrow> i32" where
  "StringToInt str = (case string_to_int32 (c_str str) of Inl _ \<Rightarrow> 0 | Inr i \<Rightarrow> i)"

definition IntToString :: "i32 \<Rightarrow> string" where
  "IntToString i = int32_to_string i"

section \<open>The mappers invert each other\<close>

lemmas mapper_defs =
  RuleTypeFromString_def RuleTypeFromNum_def RuleTypeToString_def RuleTypeToNum_def
  DupInFromString_def DupInFromNum_def DupInToString_def DupInToNum_def
  DupMethodFromString_def DupMethodFromNum_def DupMethodToString_def DupMethodToNum_def
  SearchTypeFromString_def SearchTypeFromNum_def SearchTypeToString_def SearchTypeToNum_def
  CategoryTypeFromString_def CategoryTypeFromNum_def CategoryTypeToString_def
  CategoryTypeToNum_def
  RecStatusFromString_def RecStatusFromNum_def RecStatusToString_def RecStatusToNum_def
  ruleType_def dupIn_def dupMethod_map_def searchType_map_def categoryType_def recStatus_def
  RT_cast_def DI_cast_def DM_cast_def ST_cast_def CATT_cast_def RS_cast_def

lemma RuleType_num:
  "75 \<le> proto \<Longrightarrow> t \<noteq> RT_UNKNOWN \<Longrightarrow> RuleTypeFromNum proto (RuleTypeToNum proto t) = t"
  by (cases t) (simp_all add: mapper_defs)

lemma RuleType_string:
  "79 \<le> proto \<Longrightarrow> t \<noteq> RT_UNKNOWN \<Longrightarrow> RuleTypeFromString proto (RuleTypeToString proto t) = t"
  by (cases t) (simp_all add: mapper_defs)

lemma DupIn_num:
  "75 \<le> proto \<Longrightarrow> t \<noteq> DI_UNKNOWN \<Longrightarrow> DupInFromNum proto (DupInToNum proto t) = t"
  by (cases t) (simp_all add: mapper_defs)

lemma DupIn_string:
  "75 \<le> proto \<Longrightarrow> t \<noteq> DI_UNKNOWN \<Longrightarrow> DupInFromString proto (DupInToString proto t) = t"
  by (cases t) (simp_all add: mapper_defs)

lemma DupMethod_num:
  "75 \<le> proto \<Longrightarrow> t \<noteq> DM_UNKNOWN \<Longrightarrow> DupMethodFromNum proto (DupMethodToNum proto t) = t"
  by (cases t) (simp_all add: mapper_defs)

lemma DupMethod_string:
  "75 \<le> proto \<Longrightarrow> t \<noteq> DM_UNKNOWN
   \<Longrightarrow> DupMethodFromString proto (DupMethodToString proto t) = t"
  by (cases t) (simp_all add: mapper_defs)

lemma SearchType_num:
  "75 \<le> proto \<Longrightarrow> t \<noteq> ST_UNKNOWN \<Longrightarrow> SearchTypeFromNum proto (SearchTypeToNum proto t) = t"
  by (cases t) (simp_all add: mapper_defs)

lemma SearchType_string:
  "75 \<le> proto \<Longrightarrow> t \<noteq> ST_UNKNOWN
   \<Longrightarrow> SearchTypeFromString proto (SearchTypeToString proto t) = t"
  by (cases t) (simp_all add: mapper_defs)

lemma CategoryType_num:
  "79 \<le> proto \<Longrightarrow> t \<noteq> CATT_UNKNOWN
   \<Longrightarrow> CategoryTypeFromNum proto (CategoryTypeToNum proto t) = t"
  by (cases t) (simp_all add: mapper_defs)

lemma CategoryType_string:
  "79 \<le> proto \<Longrightarrow> t \<noteq> CATT_UNKNOWN
   \<Longrightarrow> CategoryTypeFromString proto (CategoryTypeToString proto t) = t"
  by (cases t) (simp_all add: mapper_defs)

lemma RecStatus_num:
  "75 \<le> proto \<Longrightarrow> RecStatusFromNum proto (RecStatusToNum proto t) = t"
  by (cases t) (simp_all add: mapper_defs)

lemma RecStatus_string:
  "75 \<le> proto \<Longrightarrow> RecStatusFromString proto (RecStatusToString proto t) = t"
  by (cases t) (simp_all add: mapper_defs)

section \<open>Properties\<close>

text \<open>The mappers of the protocol enumerations to numbers are inverted by the mappers from
  numbers, at every protocol version that has the value.\<close>

theorem enum_num_roundtrip:
  assumes "75 \<le> proto"
  shows "(rt \<noteq> RT_UNKNOWN \<longrightarrow> RuleTypeFromNum proto (RuleTypeToNum proto rt) = rt)
    \<and> (di \<noteq> DI_UNKNOWN \<longrightarrow> DupInFromNum proto (DupInToNum proto di) = di)
    \<and> (dm \<noteq> DM_UNKNOWN \<longrightarrow> DupMethodFromNum proto (DupMethodToNum proto dm) = dm)
    \<and> (st \<noteq> ST_UNKNOWN \<longrightarrow> SearchTypeFromNum proto (SearchTypeToNum proto st) = st)
    \<and> (79 \<le> proto \<and> ct \<noteq> CATT_UNKNOWN
         \<longrightarrow> CategoryTypeFromNum proto (CategoryTypeToNum proto ct) = ct)
    \<and> RecStatusFromNum proto (RecStatusToNum proto rs) = rs"
  using assms
  by (simp add: RuleType_num DupIn_num DupMethod_num SearchType_num CategoryType_num RecStatus_num)

theorem enum_num_roundtrip_witness:
  "RuleTypeFromNum 91 (RuleTypeToNum 91 RT_DailyRecord) = RT_DailyRecord
   \<and> DupInFromNum 91 (DupInToNum 91 DI_InRecorded) = DI_InRecorded
   \<and> CategoryTypeFromNum 91 (CategoryTypeToNum 91 CATT_CategoryMovie) = CATT_CategoryMovie
   \<and> RecStatusFromNum 91 (RecStatusToNum 91 RS_TUNING) = RS_TUNING"
  using enum_num_roundtrip [of 91 RT_DailyRecord DI_InRecorded DM_CheckNone ST_NoSearch
      CATT_CategoryMovie RS_TUNING] by simp

text \<open>A status that the table does not know, as a number or as a text, becomes
  \<open>RS_OFFLINE\<close>: the mappers return the unknown value of the rule types, whose number is 12.\<close>

theorem rec_status_unknown:
  "RecStatusFromNum 75 99 = RS_OFFLINE \<and> RecStatusFromString 75 ''nonsense'' = RS_OFFLINE"
  by (simp add: mapper_defs)

text \<open>Before protocol 79 the text of \<open>RT_NotRecording\<close> is read back as a template rule.\<close>

theorem rule_type_75:
  "RuleTypeFromString 75 (RuleTypeToString 75 RT_NotRecording) = RT_TemplateRecord"
  by (simp add: mapper_defs)

end
