(* ===== verification/Conversation.thy ===== *)
theory Conversation
  imports ProtoBase MythTypes
begin

text \<open>
  A conversation with a peer whose answer is known: the state of a connection in the middle of
  a message, and what each message operation of \<open>ProtoBase\<close> does there. The lemmas carry every
  later proof about a parser of the protocol: a parser is run by rewriting field by field.
\<close>

section \<open>Being inside a message\<close>

text \<open>\<open>m\<close> is the part of the current message that is not consumed, \<open>rest\<close> what the peer sends
  behind it.\<close>

definition has_msg :: "bytes \<Rightarrow> bytes \<Rightarrow> 'a protobase_scheme \<Rightarrow> bool" where
  "has_msg m rest pb \<longleftrightarrow> sock_ok (sock pb) \<and> avail (sock pb) = m @ rest
     \<and> m_msgLength pb = m_msgConsumed pb + length m \<and> m_msgLength pb < 2 ^ 32
     \<and> (m = [] \<longrightarrow> m_msgLength pb = 0)"

text \<open>The wire form of a message.\<close>

definition framed :: "string \<Rightarrow> bytes" where
  "framed m = frame_header (length m) @ m"

text \<open>The fields of a message, separated.\<close>

fun joined :: "string list \<Rightarrow> string" where
  "joined [] = []"
| "joined [f] = f"
| "joined (f # fs) = f @ SEP @ joined fs"

lemma has_msgE:
  assumes "has_msg m rest pb"
  obtains "sock_ok (sock pb)" "avail (sock pb) = m @ rest"
    "m_msgLength pb = m_msgConsumed pb + length m" "m_msgLength pb < 2 ^ 32"
  using assms by (auto simp: has_msg_def)

lemma ReadField_sep:
  assumes "has_msg (f @ SEP @ m) rest pb" "clean_field f"
  shows "\<exists>pb'. ReadField pb = (True, f, pb') \<and> has_msg m rest pb' \<and> rd_frame pb pb'"
proof -
  from assms(1) obtain h: "sock_ok (sock pb)" "avail (sock pb) = f @ SEP @ (m @ rest)"
    "m_msgLength pb = m_msgConsumed pb + length f + 5 + length m" "m_msgLength pb < 2 ^ 32"
    by (auto simp: has_msg_def)
  from tcp.field_loop_clean [OF h(1,2) assms(2), of "m_msgConsumed pb" "m_msgLength pb"] h(3)
  obtain s' where l: "field_loop ReceiveData (m_msgLength pb) (m_msgConsumed pb) [] 0 [] (sock pb)
      = (FieldOk, f, m_msgConsumed pb + length f + 5, s')" "sock_ok s'" "same_env (sock pb) s'"
      "avail s' = m @ rest" by auto
  show ?thesis
  proof (cases "m = []")
    case True
    let ?q = "pb\<lparr>sock := s', m_msgConsumed := 0, m_msgLength := 0\<rparr>"
    have "ReadField pb = (True, f, ?q)" using l h True by (simp add: ReadField_def)
    moreover have "has_msg m rest ?q" using True l by (simp add: has_msg_def)
    ultimately show ?thesis using ReadField_rd_frame by blast
  next
    case False
    let ?q = "pb\<lparr>sock := s', m_msgConsumed := m_msgConsumed pb + length f + 5\<rparr>"
    have "ReadField pb = (True, f, ?q)" using l h False by (simp add: ReadField_def)
    moreover have "has_msg m rest ?q" using False l h by (simp add: has_msg_def)
    ultimately show ?thesis using ReadField_rd_frame by blast
  qed
qed

lemma ReadField_last:
  assumes "has_msg f rest pb" "last_field f" "f \<noteq> []"
  shows "\<exists>pb'. ReadField pb = (True, f, pb') \<and> has_msg [] rest pb' \<and> rd_frame pb pb'"
proof -
  from assms(1) obtain h: "sock_ok (sock pb)" "avail (sock pb) = f @ rest"
    "m_msgLength pb = m_msgConsumed pb + length f"
    by (auto simp: has_msg_def)
  from tcp.field_loop_last [OF h(1,2) assms(2) h(3) [symmetric]]
  obtain s' where l: "field_loop ReceiveData (m_msgLength pb) (m_msgConsumed pb) [] 0 [] (sock pb)
      = (FieldOk, f, m_msgLength pb, s')" "sock_ok s'" "same_env (sock pb) s'"
      "avail s' = rest" by auto
  let ?q = "pb\<lparr>sock := s', m_msgConsumed := 0, m_msgLength := 0\<rparr>"
  have "ReadField pb = (True, f, ?q)" using l h assms(3) by (simp add: ReadField_def)
  moreover have "has_msg [] rest ?q" using l by (simp add: has_msg_def)
  ultimately show ?thesis using ReadField_rd_frame by blast
qed

lemma ReadField_none: "m_msgLength pb \<le> m_msgConsumed pb \<Longrightarrow> ReadField pb = (False, [], pb)"
  by (simp add: ReadField_def)

lemma ReadField_empty: "has_msg [] rest pb \<Longrightarrow> ReadField pb = (False, [], pb)"
  by (auto simp: has_msg_def intro: ReadField_none)

lemma FlushMessage_msg:
  assumes "has_msg m rest pb"
  shows "\<exists>pb'. FlushMessage pb = (length m, pb') \<and> has_msg [] rest pb' \<and> rd_frame pb pb'"
proof -
  from assms obtain h: "sock_ok (sock pb)" "avail (sock pb) = m @ rest"
    "m_msgLength pb = m_msgConsumed pb + length m" "m_msgLength pb < 2 ^ 32"
    by (rule has_msgE)
  have sz: "size_sub (m_msgLength pb) (m_msgConsumed pb) = length m"
    using h(3,4) size_sub_le [of "m_msgConsumed pb" "m_msgLength pb"] by simp
  from tcp.flush_loop_full [OF h(1), of "length m" 0] h(2)
  obtain s' where l: "flush_loop ReceiveData (length m) 0 (sock pb) = (True, length m, s')"
    "sock_ok s'" "same_env (sock pb) s'" "avail s' = rest" by auto
  let ?q = "pb\<lparr>sock := s', m_msgLength := 0, m_msgConsumed := 0\<rparr>"
  have "FlushMessage pb = (length m, ?q)" using l sz by (simp add: FlushMessage_def)
  moreover have "has_msg [] rest ?q" using l by (simp add: has_msg_def)
  ultimately show ?thesis using rd_frameI [OF l(3)] by blast
qed

section \<open>Framing\<close>

lemma digits_then_space:
  assumes "list_all isdigit ds" "ds \<noteq> []"
  shows "token (ds @ CHR '' '' # x) = ds" "skip_space (ds @ x) = ds @ x"
proof -
  have "isspace (CHR '' '')" by (simp add: isspace_def)
  with assms(1) show "token (ds @ CHR '' '' # x) = ds"
    by (induction ds) (simp_all add: isdigit_not_isspace)
  from assms obtain c cs where "ds = c # cs" "isdigit c" by (cases ds) auto
  then show "skip_space (ds @ x) = ds @ x" by (simp add: isdigit_not_isspace)
qed

lemma frame_header_parse:
  assumes "l < 10 ^ 7"
  shows "string_to_uint32 (c_str (frame_header l @ junk)) = Inr (of_nat l)"
proof -
  have len: "length (dec_nat l) \<le> 7" using dec_nat_length [OF assms] by simp
  then have "\<exists>k. 8 - length (dec_nat l) = Suc k" by arith
  then obtain k where k: "8 - length (dec_nat l) = Suc k" ..
  then have fh: "frame_header l = dec_nat l @ CHR '' '' # replicate k (CHR '' '')"
    using len by (simp add: frame_header_def)
  have "cstr (frame_header l @ junk)
      = dec_nat l @ CHR '' '' # cstr (replicate k (CHR '' '') @ junk)"
    unfolding fh using cstr_append [of "dec_nat l"] by (simp add: cstr_def)
  moreover have "l < 2 ^ 32" using assms by simp
  ultimately show ?thesis
    using string_to_uint32_iff dec_nat_digits [of l]
    by (simp add: c_str_def digits_then_space [OF dec_nat_digits])
qed

text \<open>An idle connection whose peer sends the bytes \<open>b\<close> next.\<close>

definition idle :: "bytes \<Rightarrow> 'a protobase_scheme \<Rightarrow> bool" where
  "idle b pb \<longleftrightarrow> has_msg [] b pb \<and> m_msgConsumed pb = 0"

lemma idle_alt:
  "idle b pb \<longleftrightarrow> sock_ok (sock pb) \<and> avail (sock pb) = b \<and> m_msgLength pb = 0 \<and> m_msgConsumed pb = 0"
  by (auto simp: idle_def has_msg_def)

lemma has_msg_idle: "has_msg [] b pb \<Longrightarrow> idle b pb"
  by (auto simp: idle_def has_msg_def)

lemma RcvMessageLength_framed:
  assumes "idle (framed m @ rest) pb" "length m < 10 ^ 7"
  shows "\<exists>pb'. RcvMessageLength pb = (True, pb') \<and> has_msg m rest pb' \<and> rd_frame pb pb'"
proof -
  from assms(1) have h: "sock_ok (sock pb)" "m_msgLength pb = 0"
    "avail (sock pb) = frame_header (length m) @ (m @ rest)"
    by (auto simp: idle_alt framed_def)
  from tcp.rcv_full [OF h(1), of 8] h(3) obtain s' where
    r: "ReceiveData 8 (sock pb) = (frame_header (length m), s')" "sock_ok s'"
      "same_env (sock pb) s'" "avail s' = m @ rest" by auto
  let ?q = "pb\<lparr>sock := s', m_msgLength := length m, m_msgConsumed := 0\<rparr>"
  have "length m < 2 ^ 32" using assms(2) by simp
  then have u: "unat (of_nat (length m) :: u32) = length m" by (simp add: unat_of_nat_small)
  have "RcvMessageLength pb = (True, ?q)"
    using r h(2) frame_header_parse [OF assms(2), of "stack_tail pb"] u
    by (simp add: RcvMessageLength_def)
  moreover have "has_msg m rest ?q" using r \<open>length m < 2 ^ 32\<close> by (simp add: has_msg_def)
  ultimately show ?thesis using rd_frameI [OF r(3)] by blast
qed

section \<open>Sending\<close>

definition sends :: "tcpsocket \<Rightarrow> bool" where
  "sends s \<longleftrightarrow> (case m_socket s of None \<Rightarrow> False | Some l \<Rightarrow> list_all (\<lambda>e. e = TxSent) (tx l))"

lemma SendData_sends:
  assumes "sends s" "sock_inv s"
  shows "\<exists>s'. SendData msg s = (True, s') \<and> sends s' \<and> sock_ok s' \<and> avail s' = avail s
    \<and> os_sent s' = os_sent s @ [msg]"
proof -
  from assms(1) obtain l where l: "m_socket s = Some l" "list_all (\<lambda>e. e = TxSent) (tx l)"
    by (auto simp: sends_def split: option.splits)
  let ?s = "s\<lparr>m_socket := Some (l\<lparr>tx := tl (tx l)\<rparr>), os_sent := os_sent s @ [msg], m_errno := None\<rparr>"
  have d: "SendData msg s = (True, ?s)" using l by (auto simp: SendData_def split: list.splits)
  moreover have "sends ?s" using l by (cases "tx l") (simp_all add: sends_def)
  moreover have "sock_ok ?s" using SendData_inv [OF assms(2), of msg] d
    by (simp add: sock_ok_def IsValid_def)
  moreover have "avail ?s = avail s" using SendData_frame(5) [of msg s] d by simp
  ultimately show ?thesis by auto
qed

lemma sends_env: "same_env s s' \<Longrightarrow> sends s' = sends s"
  unfolding same_env_def sends_def by (auto split: option.splits)

lemma sends_valid: "sends s \<Longrightarrow> IsValid s"
  by (auto simp: sends_def IsValid_def split: option.splits)

lemma rd_frame_sends: "rd_frame pb pb' \<Longrightarrow> sends (sock pb') = sends (sock pb)"
  using sends_env by (auto simp: rd_frame_def)

text \<open>The state after an exchange differs from the one before only in the socket and in the
  position in the message.\<close>

definition talk_frame :: "'a protobase_scheme \<Rightarrow> 'a protobase_scheme \<Rightarrow> bool" where
  "talk_frame pb pb' \<longleftrightarrow> (\<exists>s l c. pb' = pb\<lparr>sock := s, m_msgLength := l, m_msgConsumed := c\<rparr>)
     \<and> os_connect (sock pb') = os_connect (sock pb)"

lemma rd_talk_frame: "rd_frame pb pb' \<Longrightarrow> talk_frame pb pb'"
  by (auto simp: rd_frame_def talk_frame_def same_env_def)

lemma talk_frame_refl [simp]: "talk_frame pb pb"
  by (rule rd_talk_frame) simp

lemma talk_frame_trans: "talk_frame a b \<Longrightarrow> talk_frame b c \<Longrightarrow> talk_frame a c"
  unfolding talk_frame_def by (elim conjE exE) (simp, metis)

lemma talk_frame_simps:
  assumes "talk_frame pb pb'"
  shows "protobase.more pb' = protobase.more pb" "m_server pb' = m_server pb"
    "m_port pb' = m_port pb" "m_protoVersion pb' = m_protoVersion pb"
    "m_protoError pb' = m_protoError pb" "my_version pb' = my_version pb"
    "stack_tail pb' = stack_tail pb" "m_isOpen pb' = m_isOpen pb" "m_hang pb' = m_hang pb"
    "m_tainted pb' = m_tainted pb" "os_connect (sock pb') = os_connect (sock pb)"
  using assms by (auto simp: talk_frame_def)

lemma SendCommand_silent:
  assumes "idle b pb" "sends (sock pb)" "cmd \<noteq> []" "length cmd < PROTO_SENDMSG_MAXSIZE"
    "is_cstring cmd"
  shows "\<exists>pb'. SendCommand cmd False pb = (True, pb') \<and> idle b pb' \<and> talk_frame pb pb'
    \<and> sends (sock pb') \<and> os_sent (sock pb') = os_sent (sock pb) @ [framed cmd]"
proof -
  from assms(1) have h: "sock_ok (sock pb)" "avail (sock pb) = b" "m_msgLength pb = 0"
    "m_msgConsumed pb = 0" by (auto simp: idle_alt)
  from SendData_sends [OF assms(2), of "framed cmd"] h(1) obtain s' where
    d: "SendData (framed cmd) (sock pb) = (True, s')" "sends s'" "sock_ok s'"
      "avail s' = avail (sock pb)" "os_sent s' = os_sent (sock pb) @ [framed cmd]"
    by (auto simp: sock_ok_def)
  have c: "os_connect s' = os_connect (sock pb)" using SendData_frame(1) d(1) by (metis snd_conv)
  let ?q = "pb\<lparr>sock := s'\<rparr>"
  have "SendCommand cmd False pb = (True, ?q)"
    using assms(3-5) h d(1) by (simp add: SendCommand_def framed_def Let_def)
  moreover have "idle b ?q" using d h by (simp add: idle_alt)
  moreover have "\<exists>s l c. ?q = pb\<lparr>sock := s, m_msgLength := l, m_msgConsumed := c\<rparr>"
    by (rule exI [of _ s'], rule exI [of _ "m_msgLength pb"], rule exI [of _ "m_msgConsumed pb"]) simp
  ultimately show ?thesis using d c by (auto simp: talk_frame_def)
qed

lemma SendCommand_answer:
  assumes "idle (framed m @ rest) pb" "sends (sock pb)" "cmd \<noteq> []"
    "length cmd < PROTO_SENDMSG_MAXSIZE" "is_cstring cmd" "length m < 10 ^ 7"
  shows "\<exists>pb'. SendCommand cmd True pb = (True, pb') \<and> has_msg m rest pb' \<and> talk_frame pb pb'
    \<and> sends (sock pb') \<and> os_sent (sock pb') = os_sent (sock pb) @ [framed cmd]"
proof -
  from SendCommand_silent [OF assms(1-5)] obtain pb1 where
    1: "SendCommand cmd False pb = (True, pb1)" "idle (framed m @ rest) pb1" "talk_frame pb pb1"
      "sends (sock pb1)" "os_sent (sock pb1) = os_sent (sock pb) @ [framed cmd]" by blast
  have "SendCommand cmd True pb = RcvMessageLength pb1"
    using 1(1) assms(1,3,4,5)
    by (auto simp: SendCommand_def Let_def idle_alt split: prod.splits if_splits)
  with RcvMessageLength_framed [OF 1(2) assms(6)] obtain pb2 where
    2: "SendCommand cmd True pb = (True, pb2)" "has_msg m rest pb2" "rd_frame pb1 pb2" by auto
  then show ?thesis
    using 1 rd_talk_frame talk_frame_trans rd_frame_sends rd_frame_simps(12) by metis
qed

section \<open>Negotiation with a server that answers\<close>

lemma RcvVersion_answer:
  assumes "has_msg (w @ SEP @ dec_nat v) rest pb" "clean_field w" "v < 2 ^ 32"
  shows "\<exists>pb'. RcvVersion pb = (Some v, pb') \<and> idle rest pb' \<and> rd_frame pb pb'"
proof -
  from ReadField_sep [OF assms(1,2)] obtain pb1 where
    1: "ReadField pb = (True, w, pb1)" "has_msg (dec_nat v) rest pb1" "rd_frame pb pb1" by blast
  from ReadField_last [OF 1(2)] clean_last obtain pb2 where
    2: "ReadField pb1 = (True, dec_nat v, pb2)" "has_msg [] rest pb2" "rd_frame pb1 pb2" by auto
  from FlushMessage_msg [OF 2(2)] obtain pb3 where
    3: "FlushMessage pb2 = (0, pb3)" "has_msg [] rest pb3" "rd_frame pb2 pb3" by auto
  have "string_to_uint32 (c_str (dec_nat v)) = Inr (of_nat v)"
    using assms(3) by (simp add: string_to_uint32_dec_nat)
  moreover have "unat (of_nat v :: u32) = v" using assms(3) by (simp add: unat_of_nat_small)
  ultimately have "RcvVersion pb = (Some v, pb3)" using 1(1) 2(1) 3(1) by (simp add: RcvVersion_def)
  with 1(3) 2(3) 3 show ?thesis using rd_frame_trans has_msg_idle by blast
qed

lemma version_command_ok:
  assumes "protomap_find protomap t = Some (v, tok)"
  shows "is_cstring (version_command v tok)" "version_command v tok \<noteq> []"
    "length (version_command v tok) < PROTO_SENDMSG_MAXSIZE" "v = t" "v < 2 ^ 32"
proof -
  have "list_all (\<lambda>(v, tok). is_cstring tok \<and> v < 2 ^ 32) protomap" by (simp add: protomap_def)
  with protomap_find_known [OF assms] have "is_cstring tok" and v: "v < 2 ^ 32" "v = t"
    by (auto simp: list_all_iff)
  then show "is_cstring (version_command v tok)" "v < 2 ^ 32" "v = t"
    by (simp_all add: version_command_def is_cstring_take)
  show "version_command v tok \<noteq> []" by (simp add: version_command_def)
  have "length (version_command v tok) \<le> 255" unfolding version_command_def by simp
  then show "length (version_command v tok) < PROTO_SENDMSG_MAXSIZE"
    by (simp add: PROTO_SENDMSG_MAXSIZE_def)
qed

text \<open>A server that accepts the connection, lets everything be sent and answers with \<open>m\<close> first.\<close>

definition answers :: "connect_event \<Rightarrow> string \<Rightarrow> bool" where
  "answers ev m \<longleftrightarrow> (\<exists>as l rest. ev = Addresses as \<and> connect_loop None as = (None, Some l)
     \<and> list_all (\<lambda>e. e = TxSent) (tx l) \<and> lead (rx l) = framed m @ rest)"

lemma round_answer:
  assumes "sock_inv (sock pb)" "m_msgLength pb = 0" "m_msgConsumed pb = 0"
    "os_connect (sock pb) = ev # os" "answers ev (w @ SEP @ dec_nat ver)" "clean_field w"
    "length w < 1000" "ver < 2 ^ 32" "protomap_find protomap t = Some (t, tok)"
  obtains s pb1 pb2 where "Connect rcvbuf (sock pb) = (True, s)"
    "SendCommand (version_command t tok) True (pb\<lparr>sock := s, m_hang := False\<rparr>) = (True, pb1)"
    "RcvVersion pb1 = (Some ver, pb2)" "sock_inv (sock pb2)" "m_msgLength pb2 = 0"
    "m_msgConsumed pb2 = 0" "os_connect (sock pb2) = os" "sock_ok (sock pb2)"
    "talk_frame (pb\<lparr>sock := s, m_hang := False\<rparr>) pb2"
    "os_sent (sock pb2) = os_sent (sock pb) @ [framed (version_command t tok)]"
proof -
  let ?m = "w @ SEP @ dec_nat ver"
  from assms(5) obtain as l rest where ev: "ev = Addresses as" "connect_loop None as = (None, Some l)"
    "list_all (\<lambda>e. e = TxSent) (tx l)" "lead (rx l) = framed ?m @ rest"
    by (auto simp: answers_def)
  from Connect_fresh [OF assms(1) _ ev(2)] assms(4) ev(1) obtain s where
    c: "Connect rcvbuf (sock pb) = (True, s)" "sock_ok s" "m_socket s = Some l"
      "avail s = framed ?m @ rest" "os_connect s = os" "os_sent s = os_sent (sock pb)"
    using ev(4) by auto
  let ?p = "pb\<lparr>sock := s, m_hang := False\<rparr>"
  have i: "idle (framed ?m @ rest) ?p" using c assms(2,3) by (simp add: idle_alt)
  have sn: "sends (sock ?p)" using c(3) ev(3) by (simp add: sends_def)
  have "ver < 10 ^ 10" using assms(8) by simp
  then have "length ?m < 10 ^ 7" using dec_nat_length [of ver 10] assms(7) by simp
  note vc = version_command_ok [OF assms(9)]
  from SendCommand_answer [OF i sn vc(2,3,1) \<open>length ?m < 10 ^ 7\<close>] obtain pb1 where
    1: "SendCommand (version_command t tok) True ?p = (True, pb1)" "has_msg ?m rest pb1"
      "talk_frame ?p pb1" "os_sent (sock pb1) = os_sent s @ [framed (version_command t tok)]" by auto
  from RcvVersion_answer [OF 1(2) assms(6,8)] obtain pb2 where
    2: "RcvVersion pb1 = (Some ver, pb2)" "idle rest pb2" "rd_frame pb1 pb2" by blast
  have "talk_frame ?p pb2" using 1(3) rd_talk_frame [OF 2(3)] by (rule talk_frame_trans)
  moreover from this have "os_connect (sock pb2) = os"
    using talk_frame_simps(11) [of ?p pb2] c(5) by simp
  moreover have "os_sent (sock pb2) = os_sent (sock pb) @ [framed (version_command t tok)]"
    using rd_frame_simps(12) [OF 2(3)] 1(4) c(6) by simp
  ultimately show ?thesis using that c(1) 1(1) 2(1,2) by (auto simp: idle_alt sock_ok_def)
qed

lemma open_loop_accept:
  assumes "sock_inv (sock pb)" "m_msgLength pb = 0" "m_msgConsumed pb = 0"
    "os_connect (sock pb) = ev # os" "answers ev (w @ SEP @ dec_nat t)" "clean_field w"
    "length w < 1000" "protomap_find protomap t = Some (t, tok)"
  shows "\<exists>pb'. open_loop rcvbuf t pb = (True, pb') \<and> m_isOpen pb' \<and> m_protoVersion pb' = t
    \<and> my_version pb' = t \<and> IsValid (sock pb') \<and> \<not> m_hang pb'
    \<and> os_sent (sock pb') = os_sent (sock pb) @ [framed (version_command t tok)]"
proof -
  have "t < 2 ^ 32" using version_command_ok [OF assms(8)] by simp
  from round_answer [OF assms(1-7) this assms(8), of rcvbuf] obtain s pb1 pb2 where
    r: "Connect rcvbuf (sock pb) = (True, s)"
    "SendCommand (version_command t tok) True (pb\<lparr>sock := s, m_hang := False\<rparr>) = (True, pb1)"
    "RcvVersion pb1 = (Some t, pb2)" "sock_ok (sock pb2)"
    "talk_frame (pb\<lparr>sock := s, m_hang := False\<rparr>) pb2"
    "os_sent (sock pb2) = os_sent (sock pb) @ [framed (version_command t tok)]" .
  then show ?thesis using assms(8) talk_frame_simps(9) [OF r(5)]
    by (subst open_loop.simps) (simp add: sock_ok_def)
qed

lemma open_loop_redirect:
  assumes "sock_inv (sock pb)" "m_msgLength pb = 0" "m_msgConsumed pb = 0"
    "os_connect (sock pb) = ev # os" "answers ev (w @ SEP @ dec_nat ver)" "clean_field w"
    "length w < 1000" "ver < 2 ^ 32" "protomap_find protomap t = Some (t, tok)" "ver \<noteq> t"
  obtains pb2 where "open_loop rcvbuf t pb = open_loop rcvbuf ver pb2" "sock_inv (sock pb2)"
    "m_msgLength pb2 = 0" "m_msgConsumed pb2 = 0" "os_connect (sock pb2) = os"
    "os_sent (sock pb2) = os_sent (sock pb) @ [framed (version_command t tok)]"
proof -
  from round_answer [OF assms(1-9), of rcvbuf] obtain s pb1 pb2 where
    r: "Connect rcvbuf (sock pb) = (True, s)"
    "SendCommand (version_command t tok) True (pb\<lparr>sock := s, m_hang := False\<rparr>) = (True, pb1)"
    "RcvVersion pb1 = (Some ver, pb2)" "sock_inv (sock pb2)" "m_msgLength pb2 = 0"
    "m_msgConsumed pb2 = 0" "os_connect (sock pb2) = os"
    "os_sent (sock pb2) = os_sent (sock pb) @ [framed (version_command t tok)]" .
  have "open_loop rcvbuf t pb = open_loop rcvbuf ver (pb2\<lparr>sock := Disconnect (sock pb2)\<rparr>)"
    using r(1-3) assms(9,10) by (subst open_loop.simps) simp
  then show ?thesis using that r(4-8) by simp
qed

section \<open>A peer that breaks off\<close>

lemma ReadField_sep_open:
  assumes "sock_ok (sock pb)" "avail (sock pb) = f @ SEP @ b" "clean_field f"
    "m_msgConsumed pb + length f + 5 < m_msgLength pb"
  shows "\<exists>s'. ReadField pb = (True, f, pb\<lparr>sock := s', m_msgConsumed := m_msgConsumed pb + length f + 5\<rparr>)
    \<and> sock_ok s' \<and> avail s' = b"
proof -
  from tcp.field_loop_clean [OF assms(1-3), of "m_msgConsumed pb" "m_msgLength pb"] assms(4)
  obtain s' where "field_loop ReceiveData (m_msgLength pb) (m_msgConsumed pb) [] 0 [] (sock pb)
      = (FieldOk, f, m_msgConsumed pb + length f + 5, s')" "sock_ok s'" "avail s' = b" by auto
  then show ?thesis using assms(4) by (intro exI [of _ s']) (simp add: ReadField_def)
qed

text \<open>A flush whose first block does not come closes the connection and still reports that
  nothing was left.\<close>

lemma FlushMessage_dry:
  assumes "sock_ok (sock pb)" "avail (sock pb) = []" "m_msgConsumed pb < m_msgLength pb"
    "m_msgLength pb < 2 ^ 32"
  shows "\<exists>pb'. FlushMessage pb = (0, pb') \<and> \<not> IsValid (sock pb') \<and> m_hang pb'"
proof -
  let ?f = "m_msgLength pb - m_msgConsumed pb"
  let ?r = "if ?f > PROTO_BUFFER_SIZE then PROTO_BUFFER_SIZE else ?f"
  have sz: "size_sub (m_msgLength pb) (m_msgConsumed pb) = ?f" using assms(3,4) by simp
  obtain s' where "ReceiveData ?r (sock pb) = ([], s')"
    using tcp.rcv_prefix [OF assms(1), of ?r] assms(2) by auto
  moreover have "?f \<noteq> 0" "?r \<noteq> 0" using assms(3) by (auto simp: PROTO_BUFFER_SIZE_def)
  ultimately have "flush_loop ReceiveData ?f 0 (sock pb) = (False, 0, s')"
    by (subst flush_loop.simps) (simp add: Let_def)
  then show ?thesis using sz by (simp add: FlushMessage_def HangException_eq)
qed

lemma RcvVersion_truncated:
  assumes "sock_ok (sock pb)" "avail (sock pb) = w @ SEP @ dec_nat v @ SEP" "clean_field w" "v < 2 ^ 32"
    "m_msgConsumed pb + length w + length (dec_nat v) + 10 < m_msgLength pb" "m_msgLength pb < 2 ^ 32"
  shows "\<exists>pb'. RcvVersion pb = (Some v, pb') \<and> \<not> IsValid (sock pb') \<and> m_hang pb'"
proof -
  from ReadField_sep_open [OF assms(1-3)] assms(5) obtain s1 where
    1: "ReadField pb = (True, w, pb\<lparr>sock := s1, m_msgConsumed := m_msgConsumed pb + length w + 5\<rparr>)"
      "sock_ok s1" "avail s1 = dec_nat v @ SEP" by auto
  let ?p = "pb\<lparr>sock := s1, m_msgConsumed := m_msgConsumed pb + length w + 5\<rparr>"
  from ReadField_sep_open [of ?p "dec_nat v" "[]"] 1(2,3) assms(5) obtain s2 where
    2: "ReadField ?p = (True, dec_nat v,
        ?p\<lparr>sock := s2, m_msgConsumed := m_msgConsumed ?p + length (dec_nat v) + 5\<rparr>)"
      "sock_ok s2" "avail s2 = []" by auto
  let ?q = "?p\<lparr>sock := s2, m_msgConsumed := m_msgConsumed ?p + length (dec_nat v) + 5\<rparr>"
  from FlushMessage_dry [of ?q] 2(2,3) assms(5,6) obtain pb' where
    3: "FlushMessage ?q = (0, pb')" "\<not> IsValid (sock pb')" "m_hang pb'" by auto
  have "string_to_uint32 (c_str (dec_nat v)) = Inr (of_nat v)" "unat (of_nat v :: u32) = v"
    using assms(4) by (simp_all add: string_to_uint32_dec_nat unat_of_nat_small)
  then have "RcvVersion pb = (Some v, pb')" using 1(1) 2(1) 3(1) by (simp add: RcvVersion_def)
  with 3 show ?thesis by blast
qed

lemma RcvMessageLength_header:
  assumes "idle (frame_header n @ b) pb" "n < 10 ^ 7"
  shows "\<exists>s'. RcvMessageLength pb = (True, pb\<lparr>sock := s', m_msgLength := n, m_msgConsumed := 0\<rparr>)
    \<and> sock_ok s' \<and> avail s' = b"
proof -
  from assms(1) have h: "sock_ok (sock pb)" "m_msgLength pb = 0" "avail (sock pb) = frame_header n @ b"
    by (auto simp: idle_alt)
  from tcp.rcv_full [OF h(1), of 8] h(3) obtain s' where
    r: "ReceiveData 8 (sock pb) = (frame_header n, s')" "sock_ok s'" "avail s' = b" by auto
  have "n < 2 ^ 32" using assms(2) by simp
  then have "unat (of_nat n :: u32) = n" by (simp add: unat_of_nat_small)
  then have "RcvMessageLength pb = (True, pb\<lparr>sock := s', m_msgLength := n, m_msgConsumed := 0\<rparr>)"
    using r h(2) frame_header_parse [OF assms(2), of "stack_tail pb"] by (simp add: RcvMessageLength_def)
  with r show ?thesis by blast
qed

section \<open>Properties\<close>

text \<open>A connection for examples: open at version \<open>v\<close>, its peer sends \<open>b\<close>.\<close>

definition demo_pb :: "nat \<Rightarrow> bytes \<Rightarrow> protobase" where
  "demo_pb v b = (ProtoBase_new [] ''localhost'' ''server'' 6543 0 [])
     \<lparr>sock := demo_socket b, m_isOpen := True, m_protoVersion := v\<rparr>"

lemma demo_pb_idle [simp]: "idle b (demo_pb v b)" "sends (sock (demo_pb v b))"
  "m_protoVersion (demo_pb v b) = v" "m_isOpen (demo_pb v b)" "\<not> m_hang (demo_pb v b)"
  "m_socket (sock (demo_pb v b)) = Some \<lparr>rx = [RxData b], tx = []\<rparr>"
  by (simp_all add: idle_alt demo_pb_def ProtoBase_new_def sends_def)

text \<open>The same connection inside the message \<open>m\<close>.\<close>

definition demo_in :: "nat \<Rightarrow> bytes \<Rightarrow> bytes \<Rightarrow> protobase" where
  "demo_in v m rest = (demo_pb v (m @ rest))\<lparr>m_msgLength := length m\<rparr>"

lemma demo_in_msg: "length m < 2 ^ 32 \<Longrightarrow> has_msg m rest (demo_in v m rest)"
  "m_protoVersion (demo_in v m rest) = v"
  by (auto simp: has_msg_def demo_in_def demo_pb_def ProtoBase_new_def)

text \<open>Reading a message field by field. A clean field that a separator follows is read back
  exactly and leaves the bytes behind the separator; a field that ends the message is read back
  and leaves nothing; then the next read fails. Only the socket and the position change.\<close>

theorem read_fields:
  assumes "has_msg (f @ SEP @ g) rest pb" "clean_field f" "last_field g" "g \<noteq> []"
  shows "\<exists>pb1 pb2. ReadField pb = (True, f, pb1) \<and> ReadField pb1 = (True, g, pb2)
    \<and> ReadField pb2 = (False, [], pb2) \<and> idle rest pb2 \<and> rd_frame pb pb2"
proof -
  from ReadField_sep [OF assms(1,2)] obtain pb1 where
    1: "ReadField pb = (True, f, pb1)" "has_msg g rest pb1" "rd_frame pb pb1" by blast
  from ReadField_last [OF 1(2) assms(3,4)] obtain pb2 where
    2: "ReadField pb1 = (True, g, pb2)" "has_msg [] rest pb2" "rd_frame pb1 pb2" by blast
  with 1 rd_frame_trans ReadField_empty has_msg_idle show ?thesis by blast
qed

theorem read_fields_witness:
  "\<exists>pb1 pb2. ReadField (demo_in 91 (''a]b'' @ SEP @ ''c['') ''next'') = (True, ''a]b'', pb1)
     \<and> ReadField pb1 = (True, ''c['', pb2) \<and> idle ''next'' pb2"
proof -
  have "clean_field ''a]b''" by (rule clean_field_plain) simp_all
  moreover have "last_field ''c[''" by (simp add: last_field_def PROTO_STR_SEPARATOR_def)
  moreover have "has_msg (''a]b'' @ SEP @ ''c['') ''next'' (demo_in 91 (''a]b'' @ SEP @ ''c['') ''next'')"
    by (rule demo_in_msg) simp
  ultimately show ?thesis
    using read_fields [of "''a]b''" "''c[''" "''next''" "demo_in 91 (''a]b'' @ SEP @ ''c['') ''next''"]
    by auto
qed

text \<open>The separator matcher does not look again at the byte that broke a partial match: a
  field that ends in an opening bracket swallows the separator behind it, and the two fields come
  out as one.\<close>

theorem read_field_misses_separator:
  assumes "has_msg (''a['' @ SEP @ ''b'') rest pb"
  shows "\<exists>pb'. ReadField pb = (True, ''a['' @ SEP @ ''b'', pb') \<and> idle rest pb'"
proof -
  have "last_field (''a['' @ SEP @ ''b'')" by (simp add: last_field_def PROTO_STR_SEPARATOR_def)
  with ReadField_last [OF assms] has_msg_idle show ?thesis by fastforce
qed

theorem read_field_misses_separator_witness:
  "\<exists>pb'. ReadField (demo_in 91 (''a['' @ SEP @ ''b'') []) = (True, ''a['' @ SEP @ ''b'', pb')"
  using read_field_misses_separator [OF demo_in_msg(1) [of "''a['' @ SEP @ ''b''" "[]" 91]] by auto

text \<open>C8: Framing. A command that is sent goes out as its length in eight characters and its
  bytes, and the frame of an answer of less than \<open>10 ^ 7\<close> bytes makes exactly the answer the
  current message, independently of the uninitialised byte behind the header.\<close>

theorem framing:
  assumes "idle (framed answer @ rest) pb" "sends (sock pb)" "cmd \<noteq> []"
    "length cmd < PROTO_SENDMSG_MAXSIZE" "is_cstring cmd" "length answer < 10 ^ 7"
  shows "\<exists>pb'. SendCommand cmd True pb = (True, pb') \<and> has_msg answer rest pb'
    \<and> os_sent (sock pb') = os_sent (sock pb) @ [frame_header (length cmd) @ cmd]
    \<and> GetMessageLength pb' = length answer"
proof -
  from SendCommand_answer [OF assms] obtain pb' where
    1: "SendCommand cmd True pb = (True, pb')" "has_msg answer rest pb'"
      "os_sent (sock pb') = os_sent (sock pb) @ [framed cmd]" by blast
  have "m_msgConsumed pb' = 0"
    using 1(1) by (auto simp: SendCommand_def Let_def RcvMessageLength_def
        split: prod.splits if_splits sum.splits)
  with 1 show ?thesis by (auto simp: has_msg_def framed_def GetMessageLength_def)
qed

theorem framing_witness:
  "\<exists>pb'. SendCommand ''QUERY_TIME'' True (demo_pb 91 (framed ''42'')) = (True, pb')
     \<and> os_sent (sock pb') = [''10      QUERY_TIME''] \<and> GetMessageLength pb' = 2"
proof -
  have h: "frame_header (length ''QUERY_TIME'') @ ''QUERY_TIME'' = ''10      QUERY_TIME''"
    by code_simp
  have o: "os_sent (sock (demo_pb 91 (framed ''42''))) = []"
    by (simp add: demo_pb_def demo_socket_def TcpSocket_new_def)
  have i: "idle (framed ''42'' @ []) (demo_pb 91 (framed ''42''))" by simp
  from framing [OF i, of "''QUERY_TIME''", unfolded h o] show ?thesis
    by (auto simp: PROTO_SENDMSG_MAXSIZE_def)
qed

lemma protomap_find_entry:
  assumes "(v, tok) \<in> set protomap" "v \<noteq> 0"
  shows "protomap_find protomap v = Some (v, tok)"
proof -
  have "(v, tok) \<in> set rows \<Longrightarrow> sorted_wrt (>) (map fst rows) \<Longrightarrow> protomap_find rows v = Some (v, tok)"
    for rows using assms(2) by (induction rows v rule: protomap_find.induct) force+
  moreover have "sorted_wrt (>) (map fst protomap)" by (simp add: protomap_def)
  ultimately show ?thesis using assms(1) by blast
qed

text \<open>C9: Negotiation. A client without a remembered version offers the newest one; a server that
  answers with another known version is asked again with it over a new connection, and when it
  confirms, the connection is open at that version, which is remembered. The two commands sent
  are the two offers with their tokens.\<close>

theorem open_connection_negotiates:
  assumes "pb_ok pb" "\<not> m_isOpen pb" "my_version pb = 0"
    "os_connect (sock pb) = ev1 # ev2 # os"
    "answers ev1 (''REJECT'' @ SEP @ dec_nat v)" "answers ev2 (''ACCEPT'' @ SEP @ dec_nat v)"
    "(v, tok) \<in> set protomap" "v \<noteq> 0" "v \<noteq> 91"
  shows "\<exists>pb'. OpenConnection rcvbuf pb = (True, pb') \<and> GetProtoVersion pb' = v \<and> my_version pb' = v
    \<and> IsValid (sock pb') \<and> \<not> m_hang pb'
    \<and> os_sent (sock pb') = os_sent (sock pb)
        @ [framed (version_command 91 ''BuzzOff''), framed (version_command v tok)]"
proof -
  have t: "protomap_find protomap v = Some (v, tok)"
    using assms(7,8) by (rule protomap_find_entry)
  have t91: "protomap_find protomap 91 = Some (91, ''BuzzOff'')" by (simp add: protomap_def)
  have v: "v < 2 ^ 32" using version_command_ok [OF t] by simp
  have cl: "clean_field ''REJECT''" "clean_field ''ACCEPT''" by (rule clean_field_plain; simp)+
  let ?p = "pb\<lparr>m_protoError := ERROR_NO_ERROR\<rparr>"
  have p: "sock_inv (sock ?p)" "m_msgLength ?p = 0" "m_msgConsumed ?p = 0"
    "os_connect (sock ?p) = ev1 # ev2 # os"
    using assms(1,2,4) by (auto simp: pb_ok_def pb_inv_def pb_quiet_def)
  from open_loop_redirect [OF p assms(5) cl(1) _ v t91] assms(9) obtain pb2 where
    1: "open_loop rcvbuf 91 ?p = open_loop rcvbuf v pb2" "sock_inv (sock pb2)" "m_msgLength pb2 = 0"
      "m_msgConsumed pb2 = 0" "os_connect (sock pb2) = ev2 # os"
      "os_sent (sock pb2) = os_sent (sock ?p) @ [framed (version_command 91 ''BuzzOff'')]" by auto
  from open_loop_accept [OF 1(2-5) assms(6) cl(2) _ t, of rcvbuf] obtain pb' where
    2: "open_loop rcvbuf v pb2 = (True, pb')" "m_isOpen pb'" "m_protoVersion pb' = v"
      "my_version pb' = v" "IsValid (sock pb')" "\<not> m_hang pb'"
      "os_sent (sock pb') = os_sent (sock pb2) @ [framed (version_command v tok)]" by auto
  have "OpenConnection rcvbuf pb = open_loop rcvbuf 91 ?p"
    using assms(2,3) by (simp add: OpenConnection_def protomap_def)
  with 1 2 show ?thesis by (simp add: GetProtoVersion_def)
qed

definition demo_server :: "connect_event list" where
  "demo_server =
     [Addresses [Inr \<lparr>rx = [RxData (framed (''REJECT'' @ SEP @ dec_nat 85))], tx = []\<rparr>],
      Addresses [Inr \<lparr>rx = [RxData (framed (''ACCEPT'' @ SEP @ dec_nat 85))], tx = []\<rparr>]]"

theorem open_connection_negotiates_witness:
  "\<exists>pb'. OpenConnection 0 (ProtoBase_new demo_server ''me'' ''server'' 6543 0 []) = (True, pb')
     \<and> GetProtoVersion pb' = 85 \<and> length (os_sent (sock pb')) = 2"
proof -
  let ?pb = "ProtoBase_new demo_server ''me'' ''server'' 6543 0 []"
  have "answers (Addresses [Inr \<lparr>rx = [RxData (framed m)], tx = []\<rparr>]) m" for m
    by (simp add: answers_def framed_def frame_header_def)
  then have "answers (demo_server ! 0) (''REJECT'' @ SEP @ dec_nat 85)"
    "answers (demo_server ! 1) (''ACCEPT'' @ SEP @ dec_nat 85)"
    unfolding demo_server_def by simp_all
  moreover have "os_connect (sock ?pb) = [demo_server ! 0, demo_server ! 1]" "my_version ?pb = 0"
    "\<not> m_isOpen ?pb" "os_sent (sock ?pb) = []"
    by (simp_all add: ProtoBase_new_def TcpSocket_new_def demo_server_def)
  moreover have "(85, ''BluePool'') \<in> set protomap" by (simp add: protomap_def)
  ultimately show ?thesis
    using open_connection_negotiates [of ?pb "demo_server ! 0" "demo_server ! 1" "[]" 85 "''BluePool''" 0]
    by auto
qed


definition truncating_server :: "connect_event list" where
  "truncating_server =
     [Addresses [Inr \<lparr>rx = [RxData (frame_header 30 @ ''ACCEPT'' @ SEP @ dec_nat 91 @ SEP)], tx = []\<rparr>]]"

text \<open>Opening may report success on a dead connection. The server accepts the version in a
  message that announces more bytes than it sends: the flush of the rest hangs up, but counts no
  byte, so \<open>RcvVersion\<close> takes the message for complete and \<open>OpenConnection\<close> returns true with the
  object open, its socket closed and the hang flag up.\<close>

theorem open_reports_dead_connection:
  "\<exists>pb'. OpenConnection rcvbuf (ProtoBase_new truncating_server host server port 0 junk) = (True, pb')
     \<and> m_isOpen pb' \<and> \<not> IsValid (sock pb') \<and> m_hang pb'"
proof -
  define pb where "pb = ProtoBase_new truncating_server host server port 0 junk"
  note assms = pb_def [unfolded truncating_server_def]
  let ?b = "''ACCEPT'' @ SEP @ dec_nat 91 @ SEP"
  let ?l = "\<lparr>rx = [RxData (frame_header 30 @ ?b)], tx = []\<rparr>"
  have tok: "protomap_find protomap 91 = Some (91, ''BuzzOff'')" by (simp add: protomap_def)
  have sk: "sock_inv (sock pb)" "os_connect (sock pb) = [Addresses [Inr ?l]]"
    using assms by (simp_all add: ProtoBase_new_def sock_inv_def TcpSocket_new_def SOCKET_BUFFER_SIZE_def)
  from Connect_fresh [OF sk(1), of "[Inr ?l]" "[]" ?l rcvbuf] sk(2) obtain s where
    c: "Connect rcvbuf (sock pb) = (True, s)" "sock_ok s" "m_socket s = Some ?l"
      "avail s = frame_header 30 @ ?b" by (auto simp: frame_header_def)
  let ?p = "pb\<lparr>sock := s, m_hang := False\<rparr>"
  have i: "idle (frame_header 30 @ ?b) ?p" "sends (sock ?p)"
    using c assms by (simp_all add: idle_alt sends_def ProtoBase_new_def)
  note vc = version_command_ok [OF tok]
  from SendCommand_silent [OF i vc(2,3,1)] obtain pb1 where
    1: "SendCommand (version_command 91 ''BuzzOff'') False ?p = (True, pb1)"
      "idle (frame_header 30 @ ?b) pb1" by blast
  have "SendCommand (version_command 91 ''BuzzOff'') True ?p = RcvMessageLength pb1"
    using 1(1) i(1) vc by (auto simp: SendCommand_def Let_def idle_alt split: prod.splits if_splits)
  with RcvMessageLength_header [OF 1(2)] obtain s2 where
    2: "SendCommand (version_command 91 ''BuzzOff'') True ?p
        = (True, pb1\<lparr>sock := s2, m_msgLength := 30, m_msgConsumed := 0\<rparr>)" "sock_ok s2" "avail s2 = ?b" by auto
  let ?p2 = "pb1\<lparr>sock := s2, m_msgLength := 30, m_msgConsumed := 0\<rparr>"
  have "length (dec_nat 91) \<le> 2" by (rule dec_nat_length) simp_all
  moreover have "clean_field ''ACCEPT''" by (rule clean_field_plain) simp_all
  ultimately obtain pb' where 3: "RcvVersion ?p2 = (Some 91, pb')" "\<not> IsValid (sock pb')" "m_hang pb'"
    using RcvVersion_truncated [of ?p2 "''ACCEPT''" 91] 2(2,3) by auto
  have "OpenConnection rcvbuf pb = open_loop rcvbuf 91 pb"
    using assms by (simp add: OpenConnection_def ProtoBase_new_def protomap_def)
  moreover have "open_loop rcvbuf 91 pb = (True, pb'\<lparr>my_version := 91, m_isOpen := True, m_protoVersion := 91\<rparr>)"
    using tok c(1) 2(1) 3(1) by (subst open_loop.simps) simp
  ultimately show ?thesis using 3 by (simp add: pb_def)
qed

end
