(* ===== verification/ProgramInfo.thy ===== *)
theory ProgramInfo
  imports Conversation
begin

text \<open>
  The program information of the protocol (\<open>proto/mythprotobase.cpp\<close>, \<open>RcvProgramInfo*\<close> and
  \<open>MakeProgramInfo*\<close>): fifty fields whose list depends on the protocol version. A receiver is
  the list of what it does with each field, run by \<open>RcvFields\<close>, which stops at the first field
  that is missing or does not convert; a sender is the list of the fields it prints.

  \<open>strtod\<close> and the \<open>%.12g\<close> format of the C library are parameters (the record \<open>libc\<close>).
\<close>

section \<open>Receiving a list of fields\<close>

fun RcvFields ::
    "(string \<Rightarrow> 'r \<Rightarrow> 'r option) list \<Rightarrow> 'r \<Rightarrow> 'a protobase_scheme
     \<Rightarrow> 'r option \<times> 'a protobase_scheme" where
  "RcvFields [] r pb = (Some r, pb)"
| "RcvFields (a # as) r pb =
     (case ReadField pb of (ok, field, pb1) \<Rightarrow>
       (if \<not> ok then (None, pb1)
        else case a field r of None \<Rightarrow> (None, pb1) | Some r1 \<Rightarrow> RcvFields as r1 pb1))"

text \<open>\<open>ReadField(x)\<close>, \<open>ReadField(field)\<close> alone, and \<open>ReadField(field)\<close> with a conversion.\<close>

definition fstr :: "(string \<Rightarrow> 'r \<Rightarrow> 'r) \<Rightarrow> string \<Rightarrow> 'r \<Rightarrow> 'r option" where
  "fstr upd field r = Some (upd field r)"

definition fskip :: "string \<Rightarrow> 'r \<Rightarrow> 'r option" where
  "fskip field r = Some r"

definition fconv ::
    "(string option \<Rightarrow> 'v result) \<Rightarrow> ('v \<Rightarrow> 'r \<Rightarrow> 'r) \<Rightarrow> string \<Rightarrow> 'r \<Rightarrow> 'r option" where
  "fconv conv upd field r =
     (case conv (c_str field) of Inl _ \<Rightarrow> None | Inr v \<Rightarrow> Some (upd v r))"

text \<open>\<open>strtod\<close> yields the value and the number of characters it consumed.\<close>

record libc =
  strtod :: "string \<Rightarrow> double \<times> nat"
  fmt_g12 :: "double \<Rightarrow> string"

definition string_to_double :: "libc \<Rightarrow> string option \<Rightarrow> double result" where
  "string_to_double lc str =
     (case str of None \<Rightarrow> Inl EINVAL
      | Some s \<Rightarrow> (case strtod lc s of (d, n) \<Rightarrow> if n = 0 then Inl EINVAL else Inr d))"

definition double_to_string :: "libc \<Rightarrow> double \<Rightarrow> string" where
  "double_to_string lc d = take 31 (fmt_g12 lc d)"

section \<open>The receivers\<close>

definition RcvProgramInfo75 ::
    "libc \<Rightarrow> 'a protobase_scheme \<Rightarrow> Program option \<times> 'a protobase_scheme" where
  "RcvProgramInfo75 lc pb = RcvFields
    [fstr (\<lambda>x p. p\<lparr>title := x\<rparr>),
     fstr (\<lambda>x p. p\<lparr>subTitle := x\<rparr>),
     fstr (\<lambda>x p. p\<lparr>description := x\<rparr>),
     fconv string_to_uint16 (\<lambda>x p. p\<lparr>season := x\<rparr>),
     fconv string_to_uint16 (\<lambda>x p. p\<lparr>episode := x\<rparr>),
     fstr (\<lambda>x p. p\<lparr>category := x\<rparr>),
     fconv string_to_uint32 (\<lambda>x p. p\<lparr>channel := (channel p)\<lparr>chanId := x\<rparr>\<rparr>),
     fstr (\<lambda>x p. p\<lparr>channel := (channel p)\<lparr>chanNum := x\<rparr>\<rparr>),
     fstr (\<lambda>x p. p\<lparr>channel := (channel p)\<lparr>callSign := x\<rparr>\<rparr>),
     fstr (\<lambda>x p. p\<lparr>channel := (channel p)\<lparr>channelName := x\<rparr>\<rparr>),
     fstr (\<lambda>x p. p\<lparr>fileName := x\<rparr>),
     fconv string_to_int64 (\<lambda>x p. p\<lparr>fileSize := x\<rparr>),
     fconv string_to_int64 (\<lambda>x p. p\<lparr>startTime := x\<rparr>),
     fconv string_to_int64 (\<lambda>x p. p\<lparr>endTime := x\<rparr>),
     fskip,
     fstr (\<lambda>x p. p\<lparr>hostName := x\<rparr>),
     fconv string_to_uint32 (\<lambda>x p. p\<lparr>channel := (channel p)\<lparr>sourceId := x\<rparr>\<rparr>),
     fskip,
     fconv string_to_uint32 (\<lambda>x p. p\<lparr>channel := (channel p)\<lparr>inputId := x\<rparr>\<rparr>),
     fconv string_to_int32 (\<lambda>x p. p\<lparr>recording := (recording p)\<lparr>priority := x\<rparr>\<rparr>),
     fconv string_to_int8 (\<lambda>x p. p\<lparr>recording := (recording p)\<lparr>status := x\<rparr>\<rparr>),
     fconv string_to_uint32 (\<lambda>x p. p\<lparr>recording := (recording p)\<lparr>recordId := x\<rparr>\<rparr>),
     fconv string_to_uint8 (\<lambda>x p. p\<lparr>recording := (recording p)\<lparr>recType := x\<rparr>\<rparr>),
     fconv string_to_uint8 (\<lambda>x p. p\<lparr>recording := (recording p)\<lparr>dupInType := x\<rparr>\<rparr>),
     fconv string_to_uint8 (\<lambda>x p. p\<lparr>recording := (recording p)\<lparr>dupMethod := x\<rparr>\<rparr>),
     fconv string_to_int64 (\<lambda>x p. p\<lparr>recording := (recording p)\<lparr>startTs := x\<rparr>\<rparr>),
     fconv string_to_int64 (\<lambda>x p. p\<lparr>recording := (recording p)\<lparr>endTs := x\<rparr>\<rparr>),
     fconv string_to_uint32 (\<lambda>x p. p\<lparr>programFlags := x\<rparr>),
     fstr (\<lambda>x p. p\<lparr>recording := (recording p)\<lparr>recGroup := x\<rparr>\<rparr>),
     fstr (\<lambda>x p. p\<lparr>channel := (channel p)\<lparr>chanFilters := x\<rparr>\<rparr>),
     fstr (\<lambda>x p. p\<lparr>seriesId := x\<rparr>),
     fstr (\<lambda>x p. p\<lparr>programId := x\<rparr>),
     fstr (\<lambda>x p. p\<lparr>inetref := x\<rparr>),
     fconv string_to_int64 (\<lambda>x p. p\<lparr>lastModified := x\<rparr>),
     fconv (string_to_double lc) (\<lambda>x p. p\<lparr>stars := x\<rparr>),
     fstr (\<lambda>x p. p\<lparr>airdate := x\<rparr>),
     fstr (\<lambda>x p. p\<lparr>recording := (recording p)\<lparr>playGroup := x\<rparr>\<rparr>),
     fskip,
     fskip,
     fstr (\<lambda>x p. p\<lparr>recording := (recording p)\<lparr>storageGroup := x\<rparr>\<rparr>),
     fconv string_to_uint16 (\<lambda>x p. p\<lparr>audioProps := x\<rparr>),
     fconv string_to_uint16 (\<lambda>x p. p\<lparr>videoProps := x\<rparr>)] Program_init pb"

definition RcvProgramInfo76 ::
    "libc \<Rightarrow> 'a protobase_scheme \<Rightarrow> Program option \<times> 'a protobase_scheme" where
  "RcvProgramInfo76 lc pb = RcvFields
    [fstr (\<lambda>x p. p\<lparr>title := x\<rparr>),
     fstr (\<lambda>x p. p\<lparr>subTitle := x\<rparr>),
     fstr (\<lambda>x p. p\<lparr>description := x\<rparr>),
     fconv string_to_uint16 (\<lambda>x p. p\<lparr>season := x\<rparr>),
     fconv string_to_uint16 (\<lambda>x p. p\<lparr>episode := x\<rparr>),
     fskip,
     fstr (\<lambda>x p. p\<lparr>category := x\<rparr>),
     fconv string_to_uint32 (\<lambda>x p. p\<lparr>channel := (channel p)\<lparr>chanId := x\<rparr>\<rparr>),
     fstr (\<lambda>x p. p\<lparr>channel := (channel p)\<lparr>chanNum := x\<rparr>\<rparr>),
     fstr (\<lambda>x p. p\<lparr>channel := (channel p)\<lparr>callSign := x\<rparr>\<rparr>),
     fstr (\<lambda>x p. p\<lparr>channel := (channel p)\<lparr>channelName := x\<rparr>\<rparr>),
     fstr (\<lambda>x p. p\<lparr>fileName := x\<rparr>),
     fconv string_to_int64 (\<lambda>x p. p\<lparr>fileSize := x\<rparr>),
     fconv string_to_int64 (\<lambda>x p. p\<lparr>startTime := x\<rparr>),
     fconv string_to_int64 (\<lambda>x p. p\<lparr>endTime := x\<rparr>),
     fskip,
     fstr (\<lambda>x p. p\<lparr>hostName := x\<rparr>),
     fconv string_to_uint32 (\<lambda>x p. p\<lparr>channel := (channel p)\<lparr>sourceId := x\<rparr>\<rparr>),
     fskip,
     fconv string_to_uint32 (\<lambda>x p. p\<lparr>channel := (channel p)\<lparr>inputId := x\<rparr>\<rparr>),
     fconv string_to_int32 (\<lambda>x p. p\<lparr>recording := (recording p)\<lparr>priority := x\<rparr>\<rparr>),
     fconv string_to_int8 (\<lambda>x p. p\<lparr>recording := (recording p)\<lparr>status := x\<rparr>\<rparr>),
     fconv string_to_uint32 (\<lambda>x p. p\<lparr>recording := (recording p)\<lparr>recordId := x\<rparr>\<rparr>),
     fconv string_to_uint8 (\<lambda>x p. p\<lparr>recording := (recording p)\<lparr>recType := x\<rparr>\<rparr>),
     fconv string_to_uint8 (\<lambda>x p. p\<lparr>recording := (recording p)\<lparr>dupInType := x\<rparr>\<rparr>),
     fconv string_to_uint8 (\<lambda>x p. p\<lparr>recording := (recording p)\<lparr>dupMethod := x\<rparr>\<rparr>),
     fconv string_to_int64 (\<lambda>x p. p\<lparr>recording := (recording p)\<lparr>startTs := x\<rparr>\<rparr>),
     fconv string_to_int64 (\<lambda>x p. p\<lparr>recording := (recording p)\<lparr>endTs := x\<rparr>\<rparr>),
     fconv string_to_uint32 (\<lambda>x p. p\<lparr>programFlags := x\<rparr>),
     fstr (\<lambda>x p. p\<lparr>recording := (recording p)\<lparr>recGroup := x\<rparr>\<rparr>),
     fstr (\<lambda>x p. p\<lparr>channel := (channel p)\<lparr>chanFilters := x\<rparr>\<rparr>),
     fstr (\<lambda>x p. p\<lparr>seriesId := x\<rparr>),
     fstr (\<lambda>x p. p\<lparr>programId := x\<rparr>),
     fstr (\<lambda>x p. p\<lparr>inetref := x\<rparr>),
     fconv string_to_int64 (\<lambda>x p. p\<lparr>lastModified := x\<rparr>),
     fconv (string_to_double lc) (\<lambda>x p. p\<lparr>stars := x\<rparr>),
     fstr (\<lambda>x p. p\<lparr>airdate := x\<rparr>),
     fstr (\<lambda>x p. p\<lparr>recording := (recording p)\<lparr>playGroup := x\<rparr>\<rparr>),
     fskip,
     fskip,
     fstr (\<lambda>x p. p\<lparr>recording := (recording p)\<lparr>storageGroup := x\<rparr>\<rparr>),
     fconv string_to_uint16 (\<lambda>x p. p\<lparr>audioProps := x\<rparr>),
     fconv string_to_uint16 (\<lambda>x p. p\<lparr>videoProps := x\<rparr>),
     fconv string_to_uint16 (\<lambda>x p. p\<lparr>subProps := x\<rparr>),
     fskip,
     fskip,
     fskip] Program_init pb"

definition RcvProgramInfo79 ::
    "libc \<Rightarrow> 'a protobase_scheme \<Rightarrow> Program option \<times> 'a protobase_scheme" where
  "RcvProgramInfo79 lc pb = RcvFields
    [fstr (\<lambda>x p. p\<lparr>title := x\<rparr>),
     fstr (\<lambda>x p. p\<lparr>subTitle := x\<rparr>),
     fstr (\<lambda>x p. p\<lparr>description := x\<rparr>),
     fconv string_to_uint16 (\<lambda>x p. p\<lparr>season := x\<rparr>),
     fconv string_to_uint16 (\<lambda>x p. p\<lparr>episode := x\<rparr>),
     fskip,
     fskip,
     fstr (\<lambda>x p. p\<lparr>category := x\<rparr>),
     fconv string_to_uint32 (\<lambda>x p. p\<lparr>channel := (channel p)\<lparr>chanId := x\<rparr>\<rparr>),
     fstr (\<lambda>x p. p\<lparr>channel := (channel p)\<lparr>chanNum := x\<rparr>\<rparr>),
     fstr (\<lambda>x p. p\<lparr>channel := (channel p)\<lparr>callSign := x\<rparr>\<rparr>),
     fstr (\<lambda>x p. p\<lparr>channel := (channel p)\<lparr>channelName := x\<rparr>\<rparr>),
     fstr (\<lambda>x p. p\<lparr>fileName := x\<rparr>),
     fconv string_to_int64 (\<lambda>x p. p\<lparr>fileSize := x\<rparr>),
     fconv string_to_int64 (\<lambda>x p. p\<lparr>startTime := x\<rparr>),
     fconv string_to_int64 (\<lambda>x p. p\<lparr>endTime := x\<rparr>),
     fskip,
     fstr (\<lambda>x p. p\<lparr>hostName := x\<rparr>),
     fconv string_to_uint32 (\<lambda>x p. p\<lparr>channel := (channel p)\<lparr>sourceId := x\<rparr>\<rparr>),
     fskip,
     fconv string_to_uint32 (\<lambda>x p. p\<lparr>channel := (channel p)\<lparr>inputId := x\<rparr>\<rparr>),
     fconv string_to_int32 (\<lambda>x p. p\<lparr>recording := (recording p)\<lparr>priority := x\<rparr>\<rparr>),
     fconv string_to_int8 (\<lambda>x p. p\<lparr>recording := (recording p)\<lparr>status := x\<rparr>\<rparr>),
     fconv string_to_uint32 (\<lambda>x p. p\<lparr>recording := (recording p)\<lparr>recordId := x\<rparr>\<rparr>),
     fconv string_to_uint8 (\<lambda>x p. p\<lparr>recording := (recording p)\<lparr>recType := x\<rparr>\<rparr>),
     fconv string_to_uint8 (\<lambda>x p. p\<lparr>recording := (recording p)\<lparr>dupInType := x\<rparr>\<rparr>),
     fconv string_to_uint8 (\<lambda>x p. p\<lparr>recording := (recording p)\<lparr>dupMethod := x\<rparr>\<rparr>),
     fconv string_to_int64 (\<lambda>x p. p\<lparr>recording := (recording p)\<lparr>startTs := x\<rparr>\<rparr>),
     fconv string_to_int64 (\<lambda>x p. p\<lparr>recording := (recording p)\<lparr>endTs := x\<rparr>\<rparr>),
     fconv string_to_uint32 (\<lambda>x p. p\<lparr>programFlags := x\<rparr>),
     fstr (\<lambda>x p. p\<lparr>recording := (recording p)\<lparr>recGroup := x\<rparr>\<rparr>),
     fstr (\<lambda>x p. p\<lparr>channel := (channel p)\<lparr>chanFilters := x\<rparr>\<rparr>),
     fstr (\<lambda>x p. p\<lparr>seriesId := x\<rparr>),
     fstr (\<lambda>x p. p\<lparr>programId := x\<rparr>),
     fstr (\<lambda>x p. p\<lparr>inetref := x\<rparr>),
     fconv string_to_int64 (\<lambda>x p. p\<lparr>lastModified := x\<rparr>),
     fconv (string_to_double lc) (\<lambda>x p. p\<lparr>stars := x\<rparr>),
     fstr (\<lambda>x p. p\<lparr>airdate := x\<rparr>),
     fstr (\<lambda>x p. p\<lparr>recording := (recording p)\<lparr>playGroup := x\<rparr>\<rparr>),
     fskip,
     fskip,
     fstr (\<lambda>x p. p\<lparr>recording := (recording p)\<lparr>storageGroup := x\<rparr>\<rparr>),
     fconv string_to_uint16 (\<lambda>x p. p\<lparr>audioProps := x\<rparr>),
     fconv string_to_uint16 (\<lambda>x p. p\<lparr>videoProps := x\<rparr>),
     fconv string_to_uint16 (\<lambda>x p. p\<lparr>subProps := x\<rparr>),
     fskip,
     fskip,
     fskip,
     fconv string_to_int64 (\<lambda>x p. p\<lparr>catType := CategoryTypeToString (m_protoVersion pb)
       (CategoryTypeFromNum (m_protoVersion pb) (sint (ucast x :: i32)))\<rparr>)] Program_init pb"

definition RcvProgramInfo82 ::
    "libc \<Rightarrow> 'a protobase_scheme \<Rightarrow> Program option \<times> 'a protobase_scheme" where
  "RcvProgramInfo82 lc pb = RcvFields
    [fstr (\<lambda>x p. p\<lparr>title := x\<rparr>),
     fstr (\<lambda>x p. p\<lparr>subTitle := x\<rparr>),
     fstr (\<lambda>x p. p\<lparr>description := x\<rparr>),
     fconv string_to_uint16 (\<lambda>x p. p\<lparr>season := x\<rparr>),
     fconv string_to_uint16 (\<lambda>x p. p\<lparr>episode := x\<rparr>),
     fskip,
     fskip,
     fstr (\<lambda>x p. p\<lparr>category := x\<rparr>),
     fconv string_to_uint32 (\<lambda>x p. p\<lparr>channel := (channel p)\<lparr>chanId := x\<rparr>\<rparr>),
     fstr (\<lambda>x p. p\<lparr>channel := (channel p)\<lparr>chanNum := x\<rparr>\<rparr>),
     fstr (\<lambda>x p. p\<lparr>channel := (channel p)\<lparr>callSign := x\<rparr>\<rparr>),
     fstr (\<lambda>x p. p\<lparr>channel := (channel p)\<lparr>channelName := x\<rparr>\<rparr>),
     fstr (\<lambda>x p. p\<lparr>fileName := x\<rparr>),
     fconv string_to_int64 (\<lambda>x p. p\<lparr>fileSize := x\<rparr>),
     fconv string_to_int64 (\<lambda>x p. p\<lparr>startTime := x\<rparr>),
     fconv string_to_int64 (\<lambda>x p. p\<lparr>endTime := x\<rparr>),
     fskip,
     fstr (\<lambda>x p. p\<lparr>hostName := x\<rparr>),
     fconv string_to_uint32 (\<lambda>x p. p\<lparr>channel := (channel p)\<lparr>sourceId := x\<rparr>\<rparr>),
     fskip,
     fconv string_to_uint32 (\<lambda>x p. p\<lparr>channel := (channel p)\<lparr>inputId := x\<rparr>\<rparr>),
     fconv string_to_int32 (\<lambda>x p. p\<lparr>recording := (recording p)\<lparr>priority := x\<rparr>\<rparr>),
     fconv string_to_int8 (\<lambda>x p. p\<lparr>recording := (recording p)\<lparr>status := x\<rparr>\<rparr>),
     fconv string_to_uint32 (\<lambda>x p. p\<lparr>recording := (recording p)\<lparr>recordId := x\<rparr>\<rparr>),
     fconv string_to_uint8 (\<lambda>x p. p\<lparr>recording := (recording p)\<lparr>recType := x\<rparr>\<rparr>),
     fconv string_to_uint8 (\<lambda>x p. p\<lparr>recording := (recording p)\<lparr>dupInType := x\<rparr>\<rparr>),
     fconv string_to_uint8 (\<lambda>x p. p\<lparr>recording := (recording p)\<lparr>dupMethod := x\<rparr>\<rparr>),
     fconv string_to_int64 (\<lambda>x p. p\<lparr>recording := (recording p)\<lparr>startTs := x\<rparr>\<rparr>),
     fconv string_to_int64 (\<lambda>x p. p\<lparr>recording := (recording p)\<lparr>endTs := x\<rparr>\<rparr>),
     fconv string_to_uint32 (\<lambda>x p. p\<lparr>programFlags := x\<rparr>),
     fstr (\<lambda>x p. p\<lparr>recording := (recording p)\<lparr>recGroup := x\<rparr>\<rparr>),
     fstr (\<lambda>x p. p\<lparr>channel := (channel p)\<lparr>chanFilters := x\<rparr>\<rparr>),
     fstr (\<lambda>x p. p\<lparr>seriesId := x\<rparr>),
     fstr (\<lambda>x p. p\<lparr>programId := x\<rparr>),
     fstr (\<lambda>x p. p\<lparr>inetref := x\<rparr>),
     fconv string_to_int64 (\<lambda>x p. p\<lparr>lastModified := x\<rparr>),
     fconv (string_to_double lc) (\<lambda>x p. p\<lparr>stars := x\<rparr>),
     fstr (\<lambda>x p. p\<lparr>airdate := x\<rparr>),
     fstr (\<lambda>x p. p\<lparr>recording := (recording p)\<lparr>playGroup := x\<rparr>\<rparr>),
     fskip,
     fskip,
     fstr (\<lambda>x p. p\<lparr>recording := (recording p)\<lparr>storageGroup := x\<rparr>\<rparr>),
     fconv string_to_uint16 (\<lambda>x p. p\<lparr>audioProps := x\<rparr>),
     fconv string_to_uint16 (\<lambda>x p. p\<lparr>videoProps := x\<rparr>),
     fconv string_to_uint16 (\<lambda>x p. p\<lparr>subProps := x\<rparr>),
     fskip,
     fskip,
     fskip,
     fconv string_to_int64 (\<lambda>x p. p\<lparr>catType := CategoryTypeToString (m_protoVersion pb)
       (CategoryTypeFromNum (m_protoVersion pb) (sint (ucast x :: i32)))\<rparr>),
     fconv string_to_uint32 (\<lambda>x p. p\<lparr>recording := (recording p)\<lparr>recordedId := x\<rparr>\<rparr>)] Program_init pb"

definition RcvProgramInfo86 ::
    "libc \<Rightarrow> 'a protobase_scheme \<Rightarrow> Program option \<times> 'a protobase_scheme" where
  "RcvProgramInfo86 lc pb = RcvFields
    [fstr (\<lambda>x p. p\<lparr>title := x\<rparr>),
     fstr (\<lambda>x p. p\<lparr>subTitle := x\<rparr>),
     fstr (\<lambda>x p. p\<lparr>description := x\<rparr>),
     fconv string_to_uint16 (\<lambda>x p. p\<lparr>season := x\<rparr>),
     fconv string_to_uint16 (\<lambda>x p. p\<lparr>episode := x\<rparr>),
     fskip,
     fskip,
     fstr (\<lambda>x p. p\<lparr>category := x\<rparr>),
     fconv string_to_uint32 (\<lambda>x p. p\<lparr>channel := (channel p)\<lparr>chanId := x\<rparr>\<rparr>),
     fstr (\<lambda>x p. p\<lparr>channel := (channel p)\<lparr>chanNum := x\<rparr>\<rparr>),
     fstr (\<lambda>x p. p\<lparr>channel := (channel p)\<lparr>callSign := x\<rparr>\<rparr>),
     fstr (\<lambda>x p. p\<lparr>channel := (channel p)\<lparr>channelName := x\<rparr>\<rparr>),
     fstr (\<lambda>x p. p\<lparr>fileName := x\<rparr>),
     fconv string_to_int64 (\<lambda>x p. p\<lparr>fileSize := x\<rparr>),
     fconv string_to_int64 (\<lambda>x p. p\<lparr>startTime := x\<rparr>),
     fconv string_to_int64 (\<lambda>x p. p\<lparr>endTime := x\<rparr>),
     fskip,
     fstr (\<lambda>x p. p\<lparr>hostName := x\<rparr>),
     fconv string_to_uint32 (\<lambda>x p. p\<lparr>channel := (channel p)\<lparr>sourceId := x\<rparr>\<rparr>),
     fskip,
     fconv string_to_uint32 (\<lambda>x p. p\<lparr>channel := (channel p)\<lparr>inputId := x\<rparr>\<rparr>),
     fconv string_to_int32 (\<lambda>x p. p\<lparr>recording := (recording p)\<lparr>priority := x\<rparr>\<rparr>),
     fconv string_to_int8 (\<lambda>x p. p\<lparr>recording := (recording p)\<lparr>status := x\<rparr>\<rparr>),
     fconv string_to_uint32 (\<lambda>x p. p\<lparr>recording := (recording p)\<lparr>recordId := x\<rparr>\<rparr>),
     fconv string_to_uint8 (\<lambda>x p. p\<lparr>recording := (recording p)\<lparr>recType := x\<rparr>\<rparr>),
     fconv string_to_uint8 (\<lambda>x p. p\<lparr>recording := (recording p)\<lparr>dupInType := x\<rparr>\<rparr>),
     fconv string_to_uint8 (\<lambda>x p. p\<lparr>recording := (recording p)\<lparr>dupMethod := x\<rparr>\<rparr>),
     fconv string_to_int64 (\<lambda>x p. p\<lparr>recording := (recording p)\<lparr>startTs := x\<rparr>\<rparr>),
     fconv string_to_int64 (\<lambda>x p. p\<lparr>recording := (recording p)\<lparr>endTs := x\<rparr>\<rparr>),
     fconv string_to_uint32 (\<lambda>x p. p\<lparr>programFlags := x\<rparr>),
     fstr (\<lambda>x p. p\<lparr>recording := (recording p)\<lparr>recGroup := x\<rparr>\<rparr>),
     fstr (\<lambda>x p. p\<lparr>channel := (channel p)\<lparr>chanFilters := x\<rparr>\<rparr>),
     fstr (\<lambda>x p. p\<lparr>seriesId := x\<rparr>),
     fstr (\<lambda>x p. p\<lparr>programId := x\<rparr>),
     fstr (\<lambda>x p. p\<lparr>inetref := x\<rparr>),
     fconv string_to_int64 (\<lambda>x p. p\<lparr>lastModified := x\<rparr>),
     fconv (string_to_double lc) (\<lambda>x p. p\<lparr>stars := x\<rparr>),
     fstr (\<lambda>x p. p\<lparr>airdate := x\<rparr>),
     fstr (\<lambda>x p. p\<lparr>recording := (recording p)\<lparr>playGroup := x\<rparr>\<rparr>),
     fskip,
     fskip,
     fstr (\<lambda>x p. p\<lparr>recording := (recording p)\<lparr>storageGroup := x\<rparr>\<rparr>),
     fconv string_to_uint16 (\<lambda>x p. p\<lparr>audioProps := x\<rparr>),
     fconv string_to_uint16 (\<lambda>x p. p\<lparr>videoProps := x\<rparr>),
     fconv string_to_uint16 (\<lambda>x p. p\<lparr>subProps := x\<rparr>),
     fskip,
     fskip,
     fskip,
     fconv string_to_int64 (\<lambda>x p. p\<lparr>catType := CategoryTypeToString (m_protoVersion pb)
       (CategoryTypeFromNum (m_protoVersion pb) (sint (ucast x :: i32)))\<rparr>),
     fconv string_to_uint32 (\<lambda>x p. p\<lparr>recording := (recording p)\<lparr>recordedId := x\<rparr>\<rparr>),
     fskip,
     fskip] Program_init pb"

section \<open>The senders\<close>

definition MakeProgramInfo75 :: "libc \<Rightarrow> nat \<Rightarrow> Program \<Rightarrow> string" where
  "MakeProgramInfo75 lc v p = joined
    [title p,
     subTitle p,
     description p,
     uint16_to_string (season p),
     uint16_to_string (episode p),
     category p,
     uint32_to_string (chanId (channel p)),
     chanNum (channel p),
     callSign (channel p),
     channelName (channel p),
     fileName p,
     int64_to_string (fileSize p),
     int64_to_string (startTime p),
     int64_to_string (endTime p),
     ''0'',
     hostName p,
     uint32_to_string (sourceId (channel p)),
     ''0'',
     uint32_to_string (inputId (channel p)),
     int32_to_string (priority (recording p)),
     int8_to_string (status (recording p)),
     uint32_to_string (recordId (recording p)),
     uint8_to_string (recType (recording p)),
     uint8_to_string (dupInType (recording p)),
     uint8_to_string (dupMethod (recording p)),
     int64_to_string (startTs (recording p)),
     int64_to_string (endTs (recording p)),
     uint32_to_string (programFlags p),
     recGroup (recording p),
     chanFilters (channel p),
     seriesId p,
     programId p,
     inetref p,
     int64_to_string (lastModified p),
     double_to_string lc (stars p),
     airdate p,
     playGroup (recording p),
     ''0'',
     ''0'',
     storageGroup (recording p),
     uint16_to_string (audioProps p),
     uint16_to_string (videoProps p),
     uint16_to_string (subProps p),
     ''0'']"

definition MakeProgramInfo76 :: "libc \<Rightarrow> nat \<Rightarrow> Program \<Rightarrow> string" where
  "MakeProgramInfo76 lc v p = joined
    [title p,
     subTitle p,
     description p,
     uint16_to_string (season p),
     uint16_to_string (episode p),
     [],
     category p,
     uint32_to_string (chanId (channel p)),
     chanNum (channel p),
     callSign (channel p),
     channelName (channel p),
     fileName p,
     int64_to_string (fileSize p),
     int64_to_string (startTime p),
     int64_to_string (endTime p),
     ''0'',
     hostName p,
     uint32_to_string (sourceId (channel p)),
     ''0'',
     uint32_to_string (inputId (channel p)),
     int32_to_string (priority (recording p)),
     int8_to_string (status (recording p)),
     uint32_to_string (recordId (recording p)),
     uint8_to_string (recType (recording p)),
     uint8_to_string (dupInType (recording p)),
     uint8_to_string (dupMethod (recording p)),
     int64_to_string (startTs (recording p)),
     int64_to_string (endTs (recording p)),
     uint32_to_string (programFlags p),
     recGroup (recording p),
     chanFilters (channel p),
     seriesId p,
     programId p,
     inetref p,
     int64_to_string (lastModified p),
     double_to_string lc (stars p),
     airdate p,
     playGroup (recording p),
     ''0'',
     ''0'',
     storageGroup (recording p),
     uint16_to_string (audioProps p),
     uint16_to_string (videoProps p),
     uint16_to_string (subProps p),
     ''0'',
     ''0'',
     ''0'']"

definition MakeProgramInfo79 :: "libc \<Rightarrow> nat \<Rightarrow> Program \<Rightarrow> string" where
  "MakeProgramInfo79 lc v p = joined
    [title p,
     subTitle p,
     description p,
     uint16_to_string (season p),
     uint16_to_string (episode p),
     ''0'',
     [],
     category p,
     uint32_to_string (chanId (channel p)),
     chanNum (channel p),
     callSign (channel p),
     channelName (channel p),
     fileName p,
     int64_to_string (fileSize p),
     int64_to_string (startTime p),
     int64_to_string (endTime p),
     ''0'',
     hostName p,
     uint32_to_string (sourceId (channel p)),
     ''0'',
     uint32_to_string (inputId (channel p)),
     int32_to_string (priority (recording p)),
     int8_to_string (status (recording p)),
     uint32_to_string (recordId (recording p)),
     uint8_to_string (recType (recording p)),
     uint8_to_string (dupInType (recording p)),
     uint8_to_string (dupMethod (recording p)),
     int64_to_string (startTs (recording p)),
     int64_to_string (endTs (recording p)),
     uint32_to_string (programFlags p),
     recGroup (recording p),
     chanFilters (channel p),
     seriesId p,
     programId p,
     inetref p,
     int64_to_string (lastModified p),
     double_to_string lc (stars p),
     airdate p,
     playGroup (recording p),
     ''0'',
     ''0'',
     storageGroup (recording p),
     uint16_to_string (audioProps p),
     uint16_to_string (videoProps p),
     uint16_to_string (subProps p),
     ''0'',
     ''0'',
     ''0'',
     uint8_to_string (of_int (CategoryTypeToNum v (CategoryTypeFromString v (catType p))))]"

definition MakeProgramInfo82 :: "libc \<Rightarrow> nat \<Rightarrow> Program \<Rightarrow> string" where
  "MakeProgramInfo82 lc v p = joined
    [title p,
     subTitle p,
     description p,
     uint16_to_string (season p),
     uint16_to_string (episode p),
     ''0'',
     [],
     category p,
     uint32_to_string (chanId (channel p)),
     chanNum (channel p),
     callSign (channel p),
     channelName (channel p),
     fileName p,
     int64_to_string (fileSize p),
     int64_to_string (startTime p),
     int64_to_string (endTime p),
     ''0'',
     hostName p,
     uint32_to_string (sourceId (channel p)),
     ''0'',
     uint32_to_string (inputId (channel p)),
     int32_to_string (priority (recording p)),
     int8_to_string (status (recording p)),
     uint32_to_string (recordId (recording p)),
     uint8_to_string (recType (recording p)),
     uint8_to_string (dupInType (recording p)),
     uint8_to_string (dupMethod (recording p)),
     int64_to_string (startTs (recording p)),
     int64_to_string (endTs (recording p)),
     uint32_to_string (programFlags p),
     recGroup (recording p),
     chanFilters (channel p),
     seriesId p,
     programId p,
     inetref p,
     int64_to_string (lastModified p),
     double_to_string lc (stars p),
     airdate p,
     playGroup (recording p),
     ''0'',
     ''0'',
     storageGroup (recording p),
     uint16_to_string (audioProps p),
     uint16_to_string (videoProps p),
     uint16_to_string (subProps p),
     ''0'',
     ''0'',
     ''0'',
     uint8_to_string (of_int (CategoryTypeToNum v (CategoryTypeFromString v (catType p)))),
     uint32_to_string (recordedId (recording p))]"

definition MakeProgramInfo86 :: "libc \<Rightarrow> nat \<Rightarrow> Program \<Rightarrow> string" where
  "MakeProgramInfo86 lc v p = joined
    [title p,
     subTitle p,
     description p,
     uint16_to_string (season p),
     uint16_to_string (episode p),
     ''0'',
     [],
     category p,
     uint32_to_string (chanId (channel p)),
     chanNum (channel p),
     callSign (channel p),
     channelName (channel p),
     fileName p,
     int64_to_string (fileSize p),
     int64_to_string (startTime p),
     int64_to_string (endTime p),
     ''0'',
     hostName p,
     uint32_to_string (sourceId (channel p)),
     ''0'',
     uint32_to_string (inputId (channel p)),
     int32_to_string (priority (recording p)),
     int8_to_string (status (recording p)),
     uint32_to_string (recordId (recording p)),
     uint8_to_string (recType (recording p)),
     uint8_to_string (dupInType (recording p)),
     uint8_to_string (dupMethod (recording p)),
     int64_to_string (startTs (recording p)),
     int64_to_string (endTs (recording p)),
     uint32_to_string (programFlags p),
     recGroup (recording p),
     chanFilters (channel p),
     seriesId p,
     programId p,
     inetref p,
     int64_to_string (lastModified p),
     double_to_string lc (stars p),
     airdate p,
     playGroup (recording p),
     ''0'',
     ''0'',
     storageGroup (recording p),
     uint16_to_string (audioProps p),
     uint16_to_string (videoProps p),
     uint16_to_string (subProps p),
     ''0'',
     ''0'',
     ''0'',
     uint8_to_string (of_int (CategoryTypeToNum v (CategoryTypeFromString v (catType p)))),
     uint32_to_string (recordedId (recording p)),
     [],
     []]"

definition RcvProgramInfo ::
    "libc \<Rightarrow> 'a protobase_scheme \<Rightarrow> Program option \<times> 'a protobase_scheme" where
  "RcvProgramInfo lc pb =
     (if m_protoVersion pb \<ge> 86 then RcvProgramInfo86 lc pb
      else if m_protoVersion pb \<ge> 82 then RcvProgramInfo82 lc pb
      else if m_protoVersion pb \<ge> 79 then RcvProgramInfo79 lc pb
      else if m_protoVersion pb \<ge> 76 then RcvProgramInfo76 lc pb
      else RcvProgramInfo75 lc pb)"

definition MakeProgramInfo :: "libc \<Rightarrow> nat \<Rightarrow> Program \<Rightarrow> string" where
  "MakeProgramInfo lc v p =
     (if v \<ge> 86 then MakeProgramInfo86 lc v p
      else if v \<ge> 82 then MakeProgramInfo82 lc v p
      else if v \<ge> 79 then MakeProgramInfo79 lc v p
      else if v \<ge> 76 then MakeProgramInfo76 lc v p
      else MakeProgramInfo75 lc v p)"

section \<open>Running a receiver on a known message\<close>

text \<open>The same actions on a list of fields that is already split.\<close>

fun parse_fields :: "(string \<Rightarrow> 'r \<Rightarrow> 'r option) list \<Rightarrow> string list \<Rightarrow> 'r \<Rightarrow> 'r option" where
  "parse_fields [] fs r = Some r"
| "parse_fields (a # as) [] r = None"
| "parse_fields (a # as) (f # fs) r =
     (case a f r of None \<Rightarrow> None | Some r1 \<Rightarrow> parse_fields as fs r1)"

text \<open>The fields with a separator behind each of them.\<close>

definition terminated :: "string list \<Rightarrow> string" where
  "terminated fs = concat (map (\<lambda>f. f @ SEP) fs)"

lemma terminated_simps [simp]:
  "terminated [] = []" "terminated (f # fs) = f @ SEP @ terminated fs"
  by (simp_all add: terminated_def)

lemma joined_terminated: "fs \<noteq> [] \<Longrightarrow> joined fs @ SEP = terminated fs"
  by (induction fs rule: joined.induct) auto

lemma joined_split: "gs \<noteq> [] \<Longrightarrow> joined (fs @ gs) = terminated fs @ joined gs"
proof (induction fs)
  case (Cons f fs)
  then obtain g gs' where "fs @ gs = g # gs'" by (cases "fs @ gs") auto
  with Cons show ?case by simp
qed simp

lemma RcvFields_terminated:
  assumes "has_msg (terminated fs @ m) rest pb" "list_all clean_field fs"
    "length acts = length fs" "parse_fields acts fs r = Some r'"
  shows "\<exists>pb'. RcvFields acts r pb = (Some r', pb') \<and> has_msg m rest pb' \<and> rd_frame pb pb'"
  using assms
proof (induction acts fs r arbitrary: pb rule: parse_fields.induct)
  case (3 a as f fs r)
  from "3.prems"(1,2) ReadField_sep [of f "terminated fs @ m" rest pb] obtain pb1 where
    1: "ReadField pb = (True, f, pb1)" "has_msg (terminated fs @ m) rest pb1" "rd_frame pb pb1"
    by auto
  from "3.prems"(4) obtain r1 where r1: "a f r = Some r1" "parse_fields as fs r1 = Some r'"
    by (auto split: option.splits)
  from "3.IH" [OF r1(1) 1(2) _ _ r1(2)] "3.prems"(2,3) obtain pb2 where
    "RcvFields as r1 pb1 = (Some r', pb2)" "has_msg m rest pb2" "rd_frame pb1 pb2" by auto
  then show ?case using 1 r1 rd_frame_trans by fastforce
qed auto

lemma RcvFields_append:
  "RcvFields (as @ bs) r pb =
     (case RcvFields as r pb of (None, pb1) \<Rightarrow> (None, pb1) | (Some r1, pb1) \<Rightarrow> RcvFields bs r1 pb1)"
  by (induction as r pb rule: RcvFields.induct) (auto split: prod.splits option.splits)

lemma parse_fields_snoc:
  "length acts = length fs \<Longrightarrow> parse_fields (acts @ [a]) (fs @ [f]) r = Some r'
   \<Longrightarrow> \<exists>r1. parse_fields acts fs r = Some r1 \<and> a f r1 = Some r'"
  by (induction acts fs r rule: parse_fields.induct) (auto split: option.splits)

text \<open>A receiver whose last field ends the message.\<close>

lemma RcvFields_joined:
  assumes "has_msg (joined (fs @ [f])) rest pb" "list_all clean_field fs" "last_field f" "f \<noteq> []"
    "length acts = length fs" "parse_fields (acts @ [a]) (fs @ [f]) r = Some r'"
  shows "\<exists>pb'. RcvFields (acts @ [a]) r pb = (Some r', pb') \<and> has_msg [] rest pb' \<and> rd_frame pb pb'"
proof -
  from parse_fields_snoc [OF assms(5,6)] obtain r1 where
    r1: "parse_fields acts fs r = Some r1" "a f r1 = Some r'" by blast
  from RcvFields_terminated [of fs f rest pb acts r r1] assms(1,2,5) r1(1) obtain pb1 where
    1: "RcvFields acts r pb = (Some r1, pb1)" "has_msg f rest pb1" "rd_frame pb pb1"
    by (auto simp: joined_split)
  from ReadField_last [OF 1(2) assms(3,4)] obtain pb2 where
    "ReadField pb1 = (True, f, pb2)" "has_msg [] rest pb2" "rd_frame pb1 pb2" by blast
  then show ?thesis using 1 r1(2) rd_frame_trans by (fastforce simp: RcvFields_append)
qed

text \<open>A field that is missing at the end of the message makes the receiver fail.\<close>

lemma RcvFields_short:
  assumes "has_msg (terminated fs) rest pb" "list_all clean_field fs"
    "length acts = length fs" "parse_fields acts fs r = Some r'"
  shows "fst (RcvFields (acts @ a # as) r pb) = None"
proof -
  from RcvFields_terminated [of fs "[]" rest pb acts r r'] assms obtain pb1 where
    "RcvFields acts r pb = (Some r', pb1)" "has_msg [] rest pb1" by auto
  then show ?thesis by (simp add: RcvFields_append ReadField_empty)
qed

lemma RcvFields_frame: "msg_frame pb (snd (RcvFields acts r pb))"
proof (induction acts r pb rule: RcvFields.induct)
  case (2 a as r pb)
  obtain ok f pb1 where rf: "ReadField pb = (ok, f, pb1)" by (metis prod_cases3)
  have f: "msg_frame pb pb1" using ReadField_frame [of pb] rf by simp
  show ?case
    using rf f "2.IH" [OF rf [symmetric] refl] msg_frame_trans [OF f]
    by (auto split: option.split)
qed simp

lemma RcvProgramInfo_frame: "msg_frame pb (snd (RcvProgramInfo lc pb))"
  by (simp add: RcvProgramInfo_def RcvProgramInfo75_def RcvProgramInfo76_def RcvProgramInfo79_def
      RcvProgramInfo82_def RcvProgramInfo86_def RcvFields_frame del: RcvFields.simps)

section \<open>Round trips\<close>

text \<open>
  A program that survives the protocol: its texts are read back when a separator follows, no
  signed number is the most negative one, and the C library reads back what it printed for the
  rating.
\<close>

definition rating_ok :: "libc \<Rightarrow> double \<Rightarrow> bool" where
  "rating_ok lc d \<longleftrightarrow> clean_field (double_to_string lc d)
     \<and> string_to_double lc (Some (double_to_string lc d)) = Inr d"

definition wf_program :: "libc \<Rightarrow> Program \<Rightarrow> bool" where
  "wf_program lc p \<longleftrightarrow> list_all clean_field
      [title p, subTitle p, description p, category p, chanNum (channel p), callSign (channel p),
       channelName (channel p), fileName p, hostName p, recGroup (recording p),
       chanFilters (channel p), seriesId p, programId p, inetref p, airdate p,
       playGroup (recording p), storageGroup (recording p)]
    \<and> list_all (\<lambda>t. sint t \<noteq> - (2 ^ 63))
      [fileSize p, startTime p, endTime p, startTs (recording p), endTs (recording p), lastModified p]
    \<and> sint (priority (recording p)) \<noteq> - (2 ^ 31) \<and> rating_ok lc (stars p)"

text \<open>What the protocol carries of a program at version \<open>v\<close>; the rest takes its initial value.\<close>

definition carried :: "nat \<Rightarrow> Program \<Rightarrow> Program" where
  "carried v p = p\<lparr>
     catType := if v \<ge> 79 then CategoryTypeToString v (CategoryTypeFromString v (catType p)) else [],
     subProps := if v \<ge> 76 then subProps p else 0, repeat := False, artwork := [],
     channel := (channel p)\<lparr>iconURL := [], mplexId := 0, commFree := False, visible := True\<rparr>,
     recording := (recording p)\<lparr>encoderId := 0, profile := [],
       recordedId := if v \<ge> 82 then recordedId (recording p) else 0\<rparr>\<rparr>"

lemma clean_field_dec_int [simp]: "clean_field (dec_int i)"
proof (rule clean_field_plain)
  show "CHR ''['' \<notin> set (dec_int i)" using no_bracket_dec_nat by (simp add: dec_int_def)
qed simp

lemma clean_field_0 [simp]: "clean_field ''0''"
  by (rule clean_field_plain) simp_all

lemma category_roundtrip:
  fixes v :: nat and c :: string
  assumes "79 \<le> v"
  defines "n \<equiv> (of_int (CategoryTypeToNum v (CategoryTypeFromString v c)) :: u8)"
  shows "CategoryTypeToString v (CategoryTypeFromNum v (sint (ucast (ucast n :: i64) :: i32)))
      = CategoryTypeToString v (CategoryTypeFromString v c)"
  using assms(1) unfolding n_def by (cases "CategoryTypeFromString v c") (simp_all add: mapper_defs)

lemma string_to_int64_dec_nat [numeric_simps]:
  "n < 2 ^ 63 \<Longrightarrow> string_to_int64 (Some (dec_nat n)) = Inr (of_int (int n))"
  using string_to_int64_dec_int [of "int n"] by (simp add: dec_int_def)

lemma string_to_int64_u8 [numeric_simps]:
  "string_to_int64 (Some (dec_nat (unat (n :: u8)))) = Inr (of_int (int (unat n)))"
  using unat_below [of n] by (intro string_to_int64_dec_nat) simp

lemma carried_expand:
  "carried v p =
    \<lparr>startTime = startTime p, endTime = endTime p, title = title p, subTitle = subTitle p,
     description = description p, season = season p, episode = episode p, category = category p,
     catType = if v \<ge> 79 then CategoryTypeToString v (CategoryTypeFromString v (catType p)) else [],
     hostName = hostName p, fileName = fileName p, fileSize = fileSize p, repeat = False,
     programFlags = programFlags p, seriesId = seriesId p, programId = programId p,
     inetref = inetref p, lastModified = lastModified p, stars = stars p, airdate = airdate p,
     audioProps = audioProps p, videoProps = videoProps p,
     subProps = if v \<ge> 76 then subProps p else 0,
     channel = \<lparr>chanId = chanId (channel p), chanNum = chanNum (channel p),
       callSign = callSign (channel p), iconURL = [], channelName = channelName (channel p),
       mplexId = 0, commFree = False, chanFilters = chanFilters (channel p),
       sourceId = sourceId (channel p), inputId = inputId (channel p), visible = True\<rparr>,
     recording = \<lparr>recordId = recordId (recording p), priority = priority (recording p),
       status = status (recording p), encoderId = 0, recType = recType (recording p),
       dupInType = dupInType (recording p), dupMethod = dupMethod (recording p),
       startTs = startTs (recording p), endTs = endTs (recording p), profile = [],
       recGroup = recGroup (recording p), storageGroup = storageGroup (recording p),
       playGroup = playGroup (recording p),
       recordedId = if v \<ge> 82 then recordedId (recording p) else 0\<rparr>,
     artwork = []\<rparr>"
  unfolding carried_def by (cases p; cases "channel p"; cases "recording p") simp

lemmas program_defs =
  Program_init_def Channel_init_def Recording_init_def carried_expand wf_program_def rating_ok_def

lemma RcvFields_message:
  assumes "has_msg (joined fs) rest pb" "fs \<noteq> []" "list_all clean_field fs" "last fs \<noteq> []"
    "length acts = length fs" "parse_fields acts fs r = Some r'"
  shows "\<exists>pb'. RcvFields acts r pb = (Some r', pb') \<and> has_msg [] rest pb' \<and> rd_frame pb pb'"
proof -
  have f: "fs = butlast fs @ [last fs]" using assms(2) by simp
  have a: "acts = butlast acts @ [last acts]"
    using assms(2,5) by (metis append_butlast_last_id length_0_conv)
  have "list_all clean_field (butlast fs)" "clean_field (last fs)"
    using assms(2,3) by (auto simp: list_all_iff dest: in_set_butlastD)
  with RcvFields_joined [of "butlast fs" "last fs" rest pb "butlast acts" "last acts" r r'] assms f a
  show ?thesis by (simp add: clean_last)
qed

lemma RcvFields_unterminated:
  assumes "has_msg (joined fs) rest pb" "fs \<noteq> []" "list_all clean_field fs" "last fs = []"
    "length acts = length fs" "parse_fields acts fs r = Some r'"
  shows "fst (RcvFields acts r pb) = None"
proof -
  have f: "fs = butlast fs @ [[]]" using assms(2,4) by (metis append_butlast_last_id)
  have a: "acts = butlast acts @ [last acts]"
    using assms(2,5) by (metis append_butlast_last_id length_0_conv)
  have l: "length (butlast acts) = length (butlast fs)" using assms(5) by simp
  have m: "joined fs = terminated (butlast fs)" by (subst f) (simp add: joined_split)
  obtain r1 where "parse_fields (butlast acts) (butlast fs) r = Some r1"
    using parse_fields_snoc [OF l, of "last acts" "[]" r r'] assms(6) f a by auto
  moreover have "list_all clean_field (butlast fs)"
    using assms(3) by (auto simp: list_all_iff dest: in_set_butlastD)
  ultimately show ?thesis
    using RcvFields_short [of "butlast fs" rest pb "butlast acts" r r1 "last acts" "[]"] assms(1) l m a
    by simp
qed

lemmas field_defs = numeric_simps fstr_def fskip_def fconv_def program_defs category_roundtrip

lemma has_msg_terminated:
  assumes "has_msg (joined (f # fs) @ SEP @ m) rest pb"
  shows "has_msg (terminated (f # fs) @ m) rest pb"
  using assms joined_terminated [of "f # fs"] by (simp flip: append_assoc)

lemma joined_two: "joined (f # g # fs) = f @ SEP @ joined (g # fs)"
  by simp

lemma RcvProgramInfo82_roundtrip:
  assumes "has_msg (MakeProgramInfo82 lc v p) rest pb" "wf_program lc p" "v = m_protoVersion pb" "82 \<le> v"
  shows "\<exists>pb'. RcvProgramInfo82 lc pb = (Some (carried v p), pb') \<and> has_msg [] rest pb' \<and> rd_frame pb pb'"
  unfolding RcvProgramInfo82_def
  by (rule RcvFields_message [OF assms(1) [unfolded MakeProgramInfo82_def]])
    (use assms(2-4) in \<open>simp_all add: field_defs\<close>)

lemma RcvProgramInfo79_roundtrip:
  assumes "has_msg (MakeProgramInfo79 lc v p) rest pb" "wf_program lc p" "v = m_protoVersion pb"
    "79 \<le> v" "v < 82"
  shows "\<exists>pb'. RcvProgramInfo79 lc pb = (Some (carried v p), pb') \<and> has_msg [] rest pb' \<and> rd_frame pb pb'"
  unfolding RcvProgramInfo79_def
  by (rule RcvFields_message [OF assms(1) [unfolded MakeProgramInfo79_def]])
    (use assms(2-5) in \<open>simp_all add: field_defs\<close>)

lemma RcvProgramInfo76_roundtrip:
  assumes "has_msg (MakeProgramInfo76 lc v p) rest pb" "wf_program lc p" "76 \<le> v" "v < 79"
  shows "\<exists>pb'. RcvProgramInfo76 lc pb = (Some (carried v p), pb') \<and> has_msg [] rest pb' \<and> rd_frame pb pb'"
  unfolding RcvProgramInfo76_def
  by (rule RcvFields_message [OF assms(1) [unfolded MakeProgramInfo76_def]])
    (use assms(2-4) in \<open>simp_all add: field_defs\<close>)

definition fields75 :: "libc \<Rightarrow> Program \<Rightarrow> string list" where
  "fields75 lc p =
    [title p,
     subTitle p,
     description p,
     uint16_to_string (season p),
     uint16_to_string (episode p),
     category p,
     uint32_to_string (chanId (channel p)),
     chanNum (channel p),
     callSign (channel p),
     channelName (channel p),
     fileName p,
     int64_to_string (fileSize p),
     int64_to_string (startTime p),
     int64_to_string (endTime p),
     ''0'',
     hostName p,
     uint32_to_string (sourceId (channel p)),
     ''0'',
     uint32_to_string (inputId (channel p)),
     int32_to_string (priority (recording p)),
     int8_to_string (status (recording p)),
     uint32_to_string (recordId (recording p)),
     uint8_to_string (recType (recording p)),
     uint8_to_string (dupInType (recording p)),
     uint8_to_string (dupMethod (recording p)),
     int64_to_string (startTs (recording p)),
     int64_to_string (endTs (recording p)),
     uint32_to_string (programFlags p),
     recGroup (recording p),
     chanFilters (channel p),
     seriesId p,
     programId p,
     inetref p,
     int64_to_string (lastModified p),
     double_to_string lc (stars p),
     airdate p,
     playGroup (recording p),
     ''0'',
     ''0'',
     storageGroup (recording p),
     uint16_to_string (audioProps p),
     uint16_to_string (videoProps p),
     uint16_to_string (subProps p),
     ''0'']"

text \<open>The receiver of version 86 needs a separator behind the last field, which is empty; the
  one of version 75 leaves two fields of the sender unread.\<close>

lemma RcvProgramInfo86_roundtrip:
  assumes "has_msg (MakeProgramInfo86 lc v p @ SEP @ m) rest pb" "wf_program lc p"
    "v = m_protoVersion pb" "86 \<le> v"
  shows "\<exists>pb'. RcvProgramInfo86 lc pb = (Some (carried v p), pb') \<and> has_msg m rest pb' \<and> rd_frame pb pb'"
  unfolding RcvProgramInfo86_def
  by (rule RcvFields_terminated [OF has_msg_terminated [OF assms(1) [unfolded MakeProgramInfo86_def]]])
    (use assms(2-4) in \<open>simp_all add: field_defs\<close>)

lemma RcvProgramInfo75_roundtrip:
  assumes "has_msg (MakeProgramInfo75 lc v p) rest pb" "wf_program lc p" "v < 76"
  shows "\<exists>pb'. RcvProgramInfo75 lc pb = (Some (carried v p), pb')
    \<and> has_msg (uint16_to_string (subProps p) @ SEP @ ''0'') rest pb' \<and> rd_frame pb pb'"
  unfolding RcvProgramInfo75_def
proof (rule RcvFields_terminated)
  show "has_msg (terminated (take 42 (fields75 lc p)) @ uint16_to_string (subProps p) @ SEP @ ''0'')
      rest pb" using assms(1) by (simp add: MakeProgramInfo75_def fields75_def)
qed (use assms(2-3) in \<open>simp_all add: field_defs fields75_def\<close>)

lemma RcvProgramInfo86_unterminated:
  assumes "has_msg (MakeProgramInfo86 lc v p) rest pb" "wf_program lc p" "v = m_protoVersion pb" "86 \<le> v"
  shows "fst (RcvProgramInfo86 lc pb) = None"
  unfolding RcvProgramInfo86_def
  by (rule RcvFields_unterminated [OF assms(1) [unfolded MakeProgramInfo86_def]])
    (use assms(2-4) in \<open>simp_all add: field_defs\<close>)

section \<open>Properties\<close>

text \<open>C7: Round trip of the program information at the protocol versions 76 to 85. A message that
  is the printed form of a well-formed program is parsed to the program, up to the members the
  protocol does not carry, and is consumed to its end.\<close>

theorem program_info_roundtrip:
  assumes "wf_program lc p" "76 \<le> m_protoVersion pb" "m_protoVersion pb < 86"
    "has_msg (MakeProgramInfo lc (m_protoVersion pb) p) rest pb"
  shows "\<exists>pb'. RcvProgramInfo lc pb = (Some (carried (m_protoVersion pb) p), pb') \<and> idle rest pb'"
proof -
  let ?v = "m_protoVersion pb"
  consider "82 \<le> ?v" | "79 \<le> ?v" "?v < 82" | "?v < 79" by linarith
  then have "\<exists>pb'. RcvProgramInfo lc pb = (Some (carried ?v p), pb') \<and> has_msg [] rest pb'"
  proof cases
    case 1
    with assms RcvProgramInfo82_roundtrip [of lc ?v p rest pb] show ?thesis
      by (auto simp: RcvProgramInfo_def MakeProgramInfo_def)
  next
    case 2
    with assms RcvProgramInfo79_roundtrip [of lc ?v p rest pb] show ?thesis
      by (auto simp: RcvProgramInfo_def MakeProgramInfo_def)
  next
    case 3
    with assms RcvProgramInfo76_roundtrip [of lc ?v p rest pb] show ?thesis
      by (auto simp: RcvProgramInfo_def MakeProgramInfo_def)
  qed
  then show ?thesis using has_msg_idle by blast
qed

text \<open>A C library that knows two numbers, and a program, for examples.\<close>

definition demo_libc :: libc where
  "demo_libc = \<lparr>strtod = (\<lambda>s. (if s = ''0'' then 0 else 1, length s)),
     fmt_g12 = (\<lambda>d. if d = 0 then ''0'' else ''1'')\<rparr>"

definition demo_program :: Program where
  "demo_program = Program_init\<lparr>title := ''News'', startTime := 1577836800, endTime := 1577840400,
     season := 3, catType := ''series'', fileSize := - 1,
     channel := Channel_init\<lparr>chanId := 1001, chanNum := ''5_1''\<rparr>,
     recording := Recording_init\<lparr>priority := - 7, recordedId := 77\<rparr>\<rparr>"

lemma demo_program_wf [simp]: "wf_program demo_libc demo_program"
proof -
  have "clean_field ''News''" "clean_field ''5_1''" by (rule clean_field_plain; simp)+
  then show ?thesis
    by (simp add: wf_program_def demo_program_def Program_init_def Channel_init_def Recording_init_def
        rating_ok_def double_to_string_def string_to_double_def demo_libc_def)
qed


lemma length_dec_nat_numeral [simp]:
  "length (dec_nat (numeral k)) = (if numeral k < (10::nat) then 1 else Suc (length (dec_nat (numeral k div 10))))"
  by (subst dec_nat.simps) simp

lemmas demo_program_defs = demo_program_def Program_init_def Channel_init_def Recording_init_def
  double_to_string_def demo_libc_def numeric_simps dec_int_def mapper_defs dec_nat.simps [of 0]
  dec_nat.simps [of "Suc 0"]

lemma demo_program_length:
  "length (MakeProgramInfo82 demo_libc 85 demo_program) < 1000"
  "length (MakeProgramInfo86 demo_libc 91 demo_program) < 1000"
  "length (MakeProgramInfo75 demo_libc 75 demo_program) < 1000"
  by (simp_all add: MakeProgramInfo82_def MakeProgramInfo86_def MakeProgramInfo75_def demo_program_defs)

theorem program_info_roundtrip_witness:
  "\<exists>pb'. RcvProgramInfo demo_libc (demo_in 85 (MakeProgramInfo demo_libc 85 demo_program) ''x'')
     = (Some (carried 85 demo_program), pb') \<and> idle ''x'' pb'"
proof -
  let ?m = "MakeProgramInfo demo_libc 85 demo_program"
  have "length ?m < 2 ^ 32" using demo_program_length(1) by (simp add: MakeProgramInfo_def)
  from demo_in_msg(1) [OF this] show ?thesis
    using program_info_roundtrip [of demo_libc demo_program "demo_in 85 ?m ''x''" "''x''"]
    by (simp add: demo_in_msg(2))
qed

text \<open>Round trip at protocol 86 and later, when a separator follows the program in the
  message, as in a list of programs or in front of other fields: the program is read and exactly
  the bytes behind the separator are left.\<close>

theorem program_info_roundtrip_86:
  assumes "wf_program lc p" "86 \<le> m_protoVersion pb"
    "has_msg (MakeProgramInfo lc (m_protoVersion pb) p @ SEP @ m) rest pb"
  shows "\<exists>pb'. RcvProgramInfo lc pb = (Some (carried (m_protoVersion pb) p), pb') \<and> has_msg m rest pb'"
  using RcvProgramInfo86_roundtrip [of lc "m_protoVersion pb" p m rest pb] assms
  by (auto simp: RcvProgramInfo_def MakeProgramInfo_def)

theorem program_info_roundtrip_86_witness:
  "\<exists>pb'. RcvProgramInfo demo_libc
       (demo_in 91 (MakeProgramInfo demo_libc 91 demo_program @ SEP @ ''1'') [])
     = (Some (carried 91 demo_program), pb') \<and> has_msg ''1'' [] pb'"
proof -
  let ?m = "MakeProgramInfo demo_libc 91 demo_program @ SEP @ ''1''"
  have "length ?m < 2 ^ 32" using demo_program_length(2) by (simp add: MakeProgramInfo_def)
  from demo_in_msg(1) [OF this] show ?thesis
    using program_info_roundtrip_86 [of demo_libc demo_program "demo_in 91 ?m []" "''1''" "[]"]
    by (simp add: demo_in_msg(2))
qed

text \<open>At protocol 86 and later a message that ends with the program is rejected: the last
  field that the sender prints is empty, and an empty field at the end of a message cannot be
  read.\<close>

theorem program_info_86_at_end:
  assumes "wf_program lc p" "86 \<le> m_protoVersion pb"
    "has_msg (MakeProgramInfo lc (m_protoVersion pb) p) rest pb"
  shows "fst (RcvProgramInfo lc pb) = None"
  using RcvProgramInfo86_unterminated [of lc "m_protoVersion pb" p rest pb] assms
  by (simp add: RcvProgramInfo_def MakeProgramInfo_def)

theorem program_info_86_at_end_witness:
  "fst (RcvProgramInfo demo_libc (demo_in 91 (MakeProgramInfo demo_libc 91 demo_program) [])) = None"
proof -
  let ?m = "MakeProgramInfo demo_libc 91 demo_program"
  have "length ?m < 2 ^ 32" using demo_program_length(2) by (simp add: MakeProgramInfo_def)
  from demo_in_msg(1) [OF this] show ?thesis
    using program_info_86_at_end [of demo_libc demo_program "demo_in 91 ?m []" "[]"]
    by (simp add: demo_in_msg(2))
qed

text \<open>At protocol 75 the sender prints two fields more than the receiver reads: the program
  comes back, and the subtitle properties and the year are left in the message.\<close>

theorem program_info_roundtrip_75:
  assumes "wf_program lc p" "m_protoVersion pb = 75" "has_msg (MakeProgramInfo lc 75 p) rest pb"
  shows "\<exists>pb'. RcvProgramInfo lc pb = (Some (carried 75 p), pb')
    \<and> has_msg (uint16_to_string (subProps p) @ SEP @ ''0'') rest pb'"
  using RcvProgramInfo75_roundtrip [of lc 75 p rest pb] assms
  by (auto simp: RcvProgramInfo_def MakeProgramInfo_def)

theorem program_info_roundtrip_75_witness:
  "\<exists>pb'. RcvProgramInfo demo_libc (demo_in 75 (MakeProgramInfo demo_libc 75 demo_program) [])
     = (Some (carried 75 demo_program), pb')
     \<and> has_msg (uint16_to_string (subProps demo_program) @ SEP @ ''0'') [] pb'"
proof -
  let ?m = "MakeProgramInfo demo_libc 75 demo_program"
  have "length ?m < 2 ^ 32" using demo_program_length(3) by (simp add: MakeProgramInfo_def)
  from demo_in_msg(1) [OF this] show ?thesis
    using program_info_roundtrip_75 [of demo_libc demo_program "demo_in 75 ?m []" "[]"]
    by (simp add: demo_in_msg(2))
qed

end
