(* ===== verification/Query.thy ===== *)
theory Query
  imports ProgramInfo
begin

text \<open>
  The shape of nearly every operation of the protocol classes: send a command, read the fields
  of the answer one by one, and on the first field that is missing or unexpected jump to the
  label \<open>out\<close>, where the rest of the message is flushed. \<open>query\<close> is that shape over the command
  and the list of what is done with each field. Its lemmas say once for all operations that the
  connection invariant is kept, that a failed query leaves no half-read message, and that a
  query on a server that answers yields the parsed answer.
\<close>

section \<open>Sending a command and reading its answer\<close>

text \<open>\<open>!ReadField(field) || !IsMessageOK(field)\<close> as an action on a field.\<close>

definition fok :: "string \<Rightarrow> 'r \<Rightarrow> 'r option" where
  "fok field r = (if IsMessageOK field then Some r else None)"

definition rcv_or_flush ::
    "(string \<Rightarrow> 'r \<Rightarrow> 'r option) list \<Rightarrow> 'r \<Rightarrow> 'a protobase_scheme
     \<Rightarrow> 'r option \<times> 'a protobase_scheme" where
  "rcv_or_flush acts r pb =
     (case RcvFields acts r pb of
        (None, pb1) \<Rightarrow> (None, snd (FlushMessage pb1))
      | (Some r1, pb1) \<Rightarrow> (Some r1, pb1))"

definition query ::
    "string \<Rightarrow> (string \<Rightarrow> 'r \<Rightarrow> 'r option) list \<Rightarrow> 'r \<Rightarrow> 'a protobase_scheme
     \<Rightarrow> 'r option \<times> 'a protobase_scheme" where
  "query cmd acts r pb =
     (case SendCommand cmd True pb of (ok, pb1) \<Rightarrow>
        if ok then rcv_or_flush acts r pb1 else (None, pb1))"

text \<open>An operation that only reports whether the query succeeded.\<close>

definition succeeded :: "'b option \<times> 'a \<Rightarrow> bool \<times> 'a" where
  "succeeded p = (fst p \<noteq> None, snd p)"

text \<open>Operations that flush after a complete answer too.\<close>

definition query_flush ::
    "string \<Rightarrow> (string \<Rightarrow> 'r \<Rightarrow> 'r option) list \<Rightarrow> 'r \<Rightarrow> 'a protobase_scheme
     \<Rightarrow> 'r option \<times> 'a protobase_scheme" where
  "query_flush cmd acts r pb =
     (case SendCommand cmd True pb of (ok, pb1) \<Rightarrow>
        if \<not> ok then (None, pb1)
        else case RcvFields acts r pb1 of (x, pb2) \<Rightarrow> (x, snd (FlushMessage pb2)))"

section \<open>What every query keeps\<close>

lemma SendCommand_frame_eq: "SendCommand cmd fb pb = (ok, pb') \<Longrightarrow> msg_frame pb pb'"
  using SendCommand_frame [of pb cmd fb] by simp

lemma ReadField_frame_eq: "ReadField pb = (ok, f, pb') \<Longrightarrow> msg_frame pb pb'"
  using ReadField_frame [of pb] by simp

lemma FlushMessage_frame_eq: "FlushMessage pb = (n, pb') \<Longrightarrow> msg_frame pb pb'"
  using FlushMessage_frame [of pb] by simp

lemma RcvMessageLength_frame_eq: "RcvMessageLength pb = (ok, pb') \<Longrightarrow> msg_frame pb pb'"
  using RcvMessageLength_frame [of pb] by simp

lemma RcvFields_frame_eq: "RcvFields acts r pb = (x, pb') \<Longrightarrow> msg_frame pb pb'"
  using RcvFields_frame [of pb acts r] by simp

lemma RcvProgramInfo_frame_eq: "RcvProgramInfo lc pb = (x, pb') \<Longrightarrow> msg_frame pb pb'"
  using RcvProgramInfo_frame [of pb lc] by simp

lemma FlushMessage_frame_step: "msg_frame a pb \<Longrightarrow> msg_frame a (snd (FlushMessage pb))"
  by (rule msg_frame_trans [OF _ FlushMessage_frame])

lemma Close_frame_step: "msg_frame a pb \<Longrightarrow> msg_frame a (Close pb)"
  by (rule msg_frame_trans [OF _ Close_frame])

lemma HangException_frame_step: "msg_frame a pb \<Longrightarrow> msg_frame a (HangException pb)"
  by (rule msg_frame_trans [OF _ HangException_frame])

lemma rcv_or_flush_frame: "msg_frame pb (snd (rcv_or_flush acts r pb))"
  by (auto simp: rcv_or_flush_def split: prod.split option.split
      intro: FlushMessage_frame_step dest: RcvFields_frame_eq)

lemma rcv_or_flush_frame_step: "msg_frame a pb \<Longrightarrow> msg_frame a (snd (rcv_or_flush acts r pb))"
  by (rule msg_frame_trans [OF _ rcv_or_flush_frame])

lemma query_frame: "msg_frame pb (snd (query cmd acts r pb))"
  by (auto simp: query_def split: prod.split intro: rcv_or_flush_frame_step
      dest: SendCommand_frame_eq)

lemma query_frame_eq: "query cmd acts r pb = (x, pb') \<Longrightarrow> msg_frame pb pb'"
  using query_frame [of pb cmd acts r] by simp

lemma query_flush_frame: "msg_frame pb (snd (query_flush cmd acts r pb))"
proof -
  obtain ok pb1 where 1: "SendCommand cmd True pb = (ok, pb1)" by force
  obtain x pb2 where 2: "RcvFields acts r pb1 = (x, pb2)" by force
  have "msg_frame pb pb2"
    by (rule msg_frame_trans [OF SendCommand_frame_eq [OF 1] RcvFields_frame_eq [OF 2]])
  with FlushMessage_frame_step [of pb pb2] SendCommand_frame_eq [OF 1] 1 2 show ?thesis
    by (simp add: query_flush_def)
qed

lemma query_flush_frame_eq: "query_flush cmd acts r pb = (x, pb') \<Longrightarrow> msg_frame pb pb'"
  using query_flush_frame [of pb cmd acts r] by simp

lemma rcv_or_flush_frame_eq: "rcv_or_flush acts r pb = (x, pb') \<Longrightarrow> msg_frame pb pb'"
  using rcv_or_flush_frame [of pb acts r] by simp

lemmas frame_eqs = SendCommand_frame_eq ReadField_frame_eq FlushMessage_frame_eq
  RcvMessageLength_frame_eq RcvFields_frame_eq RcvProgramInfo_frame_eq query_frame_eq
  query_flush_frame_eq rcv_or_flush_frame_eq

lemma msg_frame_simps:
  assumes "msg_frame pb pb'"
  shows "protobase.more pb' = protobase.more pb" "m_server pb' = m_server pb"
    "m_port pb' = m_port pb" "m_protoVersion pb' = m_protoVersion pb"
    "m_protoError pb' = m_protoError pb" "my_version pb' = my_version pb"
    "stack_tail pb' = stack_tail pb" "os_connect (sock pb') = os_connect (sock pb)"
    "m_isOpen pb' \<Longrightarrow> m_isOpen pb" "pb_inv pb \<Longrightarrow> pb_inv pb'" "pb_ok pb \<Longrightarrow> pb_ok pb'"
  using assms by (auto simp: msg_frame_def pb_ok_def)

section \<open>A failed query leaves the connection at a message boundary\<close>

definition at_boundary :: "'a protobase_scheme \<Rightarrow> bool" where
  "at_boundary pb \<longleftrightarrow> m_msgLength pb = 0 \<and> m_msgConsumed pb = 0"

lemma FlushMessage_boundary: "at_boundary (snd (FlushMessage pb))"
  by (simp add: at_boundary_def)

lemma query_failed:
  assumes "query cmd acts r pb = (None, pb')" "pb_inv pb" "cstr cmd \<noteq> []"
    "length (cstr cmd) < PROTO_SENDMSG_MAXSIZE"
  shows "at_boundary pb'"
proof -
  obtain ok pb1 where s: "SendCommand cmd True pb = (ok, pb1)" by force
  show ?thesis
  proof (cases ok)
    case True
    with assms(1) s show ?thesis
      by (auto simp: query_def rcv_or_flush_def FlushMessage_boundary split: prod.splits option.splits)
  next
    case False
    with assms(1) s have "pb' = pb1" by (simp add: query_def)
    moreover have "pb_inv pb1" using SendCommand_frame_eq [OF s] assms(2) by (simp add: msg_frame_def)
    moreover have "m_msgLength pb1 = 0" using SendCommand_failed [of cmd True pb pb1] s False assms by simp
    ultimately show ?thesis by (auto simp: at_boundary_def pb_inv_def)
  qed
qed

section \<open>A query on a server that answers\<close>

text \<open>An idle connection that can send, with the bytes the peer sends next.\<close>

definition ready :: "bytes \<Rightarrow> 'a protobase_scheme \<Rightarrow> bool" where
  "ready b pb \<longleftrightarrow> idle b pb \<and> sends (sock pb)"

definition sendable :: "string \<Rightarrow> bool" where
  "sendable cmd \<longleftrightarrow> cmd \<noteq> [] \<and> length cmd < PROTO_SENDMSG_MAXSIZE \<and> is_cstring cmd"

text \<open>The connection has sent exactly \<open>cmd\<close>.\<close>

definition asked :: "string \<Rightarrow> 'a protobase_scheme \<Rightarrow> 'a protobase_scheme \<Rightarrow> bool" where
  "asked cmd pb pb' \<longleftrightarrow> talk_frame pb pb' \<and> os_sent (sock pb') = os_sent (sock pb) @ [framed cmd]"

lemma SendCommand_ready:
  assumes "ready (framed m @ rest) pb" "sendable cmd" "length m < 10 ^ 7"
  shows "\<exists>pb'. SendCommand cmd True pb = (True, pb') \<and> has_msg m rest pb' \<and> asked cmd pb pb'
    \<and> sends (sock pb')"
  using SendCommand_answer [of m rest pb cmd] assms
  by (auto simp: ready_def sendable_def asked_def)

lemma asked_rd:
  assumes "asked cmd pb pb1" "rd_frame pb1 pb2" "sends (sock pb1)" "has_msg [] rest pb2"
  shows "asked cmd pb pb2" "ready rest pb2"
  using assms rd_talk_frame [OF assms(2)] rd_frame_sends [OF assms(2)] rd_frame_simps(12) [OF assms(2)]
    has_msg_idle [OF assms(4)]
  by (auto simp: asked_def ready_def intro: talk_frame_trans)

lemma query_answer:
  assumes "ready (framed (joined fs) @ rest) pb" "sendable cmd" "length (joined fs) < 10 ^ 7"
    "fs \<noteq> []" "list_all clean_field fs" "last fs \<noteq> []" "length acts = length fs"
    "parse_fields acts fs r = Some r'"
  shows "\<exists>pb'. query cmd acts r pb = (Some r', pb') \<and> ready rest pb' \<and> asked cmd pb pb'"
proof -
  from SendCommand_ready [OF assms(1-3)] obtain pb1 where
    1: "SendCommand cmd True pb = (True, pb1)" "has_msg (joined fs) rest pb1" "asked cmd pb pb1"
      "sends (sock pb1)" by blast
  from RcvFields_message [OF 1(2) assms(4-8)] obtain pb2 where
    2: "RcvFields acts r pb1 = (Some r', pb2)" "has_msg [] rest pb2" "rd_frame pb1 pb2" by blast
  have "query cmd acts r pb = (Some r', pb2)" using 1 2 by (simp add: query_def rcv_or_flush_def)
  with asked_rd [OF 1(3) 2(3) 1(4) 2(2)] show ?thesis by blast
qed

lemma clean_OK [simp]: "clean_field ''OK''"
  by (rule clean_field_plain) simp_all

lemma IsMessageOK_OK [simp]: "IsMessageOK ''OK''"
  by (simp add: IsMessageOK_def)

lemma fok_OK [simp]: "fok ''OK'' r = Some r"
  by (simp add: fok_def)

lemma dec_int_nonempty [simp]: "dec_int i \<noteq> []"
  by (simp add: dec_int_def)

lemma last_dec [simp]: "last_field (dec_int i)" "last_field (dec_nat n)" "last_field ''OK''"
  by (simp_all add: clean_last)

lemma last_nonempty_dec [simp]: "last [dec_nat n] \<noteq> []" "last [dec_int i] \<noteq> []"
  by simp_all

section \<open>Printed numbers in commands\<close>

lemma length_uint32: "length (uint32_to_string (a :: u32)) \<le> 10"
  using unat_below [of a] dec_nat_length [of "unat a" 10] by (simp add: numeric_simps)

lemma length_int64: "length (int64_to_string (a :: i64)) \<le> 20"
proof -
  have "nat \<bar>sint a\<bar> < 10 ^ 19" using sint_ge [of a] sint_lt [of a] by simp
  from dec_nat_length [OF this] show ?thesis
    by (auto simp: numeric_simps dec_int_def abs_if split: if_splits)
qed

lemma length_int32: "length (int32_to_string (a :: i32)) \<le> 11"
proof -
  have "nat \<bar>sint a\<bar> < 10 ^ 10" using sint_ge [of a] sint_lt [of a] by simp
  from dec_nat_length [OF this] show ?thesis
    by (auto simp: numeric_simps dec_int_def abs_if split: if_splits)
qed

lemma length_int8: "length (int8_to_string (a :: i8)) \<le> 4"
proof -
  have "nat \<bar>sint a\<bar> < 10 ^ 3" using sint_ge [of a] sint_lt [of a] by simp
  from dec_nat_length [OF this] show ?thesis
    by (auto simp: numeric_simps dec_int_def abs_if split: if_splits)
qed

lemma cstring_numbers [simp]:
  "is_cstring (uint32_to_string (a :: u32))" "is_cstring (int64_to_string (b :: i64))"
  "is_cstring (int8_to_string (c :: i8))" "is_cstring (int32_to_string (d :: i32))"
  by (simp_all add: numeric_simps)

lemma cstring_SEP [simp]: "is_cstring SEP"
  by (simp add: PROTO_STR_SEPARATOR_def)

section \<open>Progress and lists of records\<close>

text \<open>What is left to read of the current message. A field that is read makes it shorter, so the
  loops over the fields of a message end.\<close>

definition msg_left :: "'a protobase_scheme \<Rightarrow> nat" where
  "msg_left pb = m_msgLength pb - m_msgConsumed pb"

lemma field_loop_advances:
  assumes "c < l" "field_loop rcv l c buf p field s = (FieldOk, f, c', s')"
  shows "c < c'"
proof -
  have "Suc c \<le> fst (snd (snd (field_loop rcv l (Suc c) buf p field s)))" for buf p field s
    using field_loop_consumed [of "Suc c" l rcv buf p field s] assms(1) by simp
  then have "field_loop rcv l (Suc c) b q fd s1 = (o1, f1, c', s2) \<Longrightarrow> c < c'" for b q fd s1 o1 f1 s2
    by (metis Suc_le_lessD fst_conv snd_conv)
  with assms(1) assms(2) [unfolded field_loop.simps [of rcv l c]] show ?thesis
    by (auto simp: Let_def split: prod.splits list.splits if_splits)
qed

lemma ReadField_progress:
  assumes "ReadField pb = (True, f, pb')"
  shows "msg_left pb' < msg_left pb"
  using assms field_loop_advances [of "m_msgConsumed pb" "m_msgLength pb" ReceiveData "[]" 0 "[]" "sock pb"]
  by (auto simp: ReadField_def Let_def msg_left_def split: prod.splits if_splits)

lemma RcvFields_progress:
  "RcvFields acts r pb = (Some r', pb') \<Longrightarrow> acts \<noteq> [] \<Longrightarrow> msg_left pb' < msg_left pb"
proof (induction acts r pb rule: RcvFields.induct)
  case (2 a as r pb)
  then obtain f pb1 r1 where 1: "ReadField pb = (True, f, pb1)" "a f r = Some r1"
    "RcvFields as r1 pb1 = (Some r', pb')"
    by (auto split: prod.splits if_splits option.splits)
  show ?case
  proof (cases "as = []")
    case True
    with 1 ReadField_progress [OF 1(1)] show ?thesis by simp
  next
    case False
    with "2.IH" [OF 1(1) [symmetric] refl _ 1(2) 1(3)] ReadField_progress [OF 1(1)] show ?thesis by simp
  qed
qed simp

text \<open>The loop \<open>while (m_msgConsumed < m_msgLength)\<close> over records of a fixed list of fields: the
  records that came complete, and the object. (A record has at least one field.)\<close>

function RcvRecords ::
    "(string \<Rightarrow> 'r \<Rightarrow> 'r option) list \<Rightarrow> 'r \<Rightarrow> 'a protobase_scheme \<Rightarrow> 'r list \<times> 'a protobase_scheme" where
  "RcvRecords acts r pb =
     (if acts \<noteq> [] \<and> m_msgConsumed pb < m_msgLength pb
      then case RcvFields acts r pb of
             (None, pb1) \<Rightarrow> ([], pb1)
           | (Some r1, pb1) \<Rightarrow> (case RcvRecords acts r pb1 of (rs, pb2) \<Rightarrow> (r1 # rs, pb2))
      else ([], pb))"
  by pat_completeness auto
termination
  by (relation "measure (\<lambda>(_, _, pb). msg_left pb)") (auto intro: RcvFields_progress [OF sym])

declare RcvRecords.simps [simp del]

lemma RcvRecords_frame: "msg_frame pb (snd (RcvRecords acts r pb))"
proof (induction acts r pb rule: RcvRecords.induct)
  case (1 acts r pb)
  show ?case
  proof (cases "acts \<noteq> [] \<and> m_msgConsumed pb < m_msgLength pb")
    case True
    obtain x pb1 where f: "RcvFields acts r pb = (x, pb1)" by force
    note f1 = RcvFields_frame_eq [OF f]
    show ?thesis
    proof (cases x)
      case None
      with True f f1 show ?thesis by (subst RcvRecords.simps) simp
    next
      case (Some r1)
      from "1.IH" [OF True f [symmetric] Some] have "msg_frame pb1 (snd (RcvRecords acts r pb1))" .
      with msg_frame_trans [OF f1] True f Some show ?thesis
        by (subst RcvRecords.simps) (auto simp: case_prod_beta)
    qed
  qed (auto simp: RcvRecords.simps [of acts r pb])
qed

text \<open>A message made of whole records is read back as the list of those records.\<close>

lemma RcvRecords_none: "m_msgLength pb \<le> m_msgConsumed pb \<Longrightarrow> RcvRecords acts r pb = ([], pb)"
  by (simp add: RcvRecords.simps [of acts r pb])

lemma RcvRecords_answer:
  assumes "has_msg (joined (concat fss)) rest pb" "acts \<noteq> []"
    "\<And>fs. fs \<in> set fss \<Longrightarrow> length acts = length fs \<and> list_all clean_field fs
       \<and> parse_fields acts fs r = Some (g fs)"
    "fss \<noteq> [] \<Longrightarrow> last (last fss) \<noteq> []"
  shows "\<exists>pb'. RcvRecords acts r pb = (map g fss, pb') \<and> has_msg [] rest pb' \<and> rd_frame pb pb'"
  using assms
proof (induction fss arbitrary: pb)
  case Nil
  then have "m_msgLength pb \<le> m_msgConsumed pb" by (auto simp: has_msg_def)
  with Nil show ?case by (auto simp: RcvRecords_none)
next
  case (Cons fs fss)
  from Cons.prems(3) [of fs] have fs: "length acts = length fs" "list_all clean_field fs"
    "parse_fields acts fs r = Some (g fs)" by simp_all
  with Cons.prems(2) have ne: "fs \<noteq> []" by auto
  show ?case
  proof (cases "fss = []")
    case True
    with Cons.prems(1,4) ne have h: "has_msg (joined fs) rest pb" "last fs \<noteq> []" by simp_all
    from RcvFields_message [OF h(1) ne fs(2) h(2) fs(1,3)] obtain pb1 where
      1: "RcvFields acts r pb = (Some (g fs), pb1)" "has_msg [] rest pb1" "rd_frame pb pb1" by blast
    have "m_msgConsumed pb < m_msgLength pb"
      using RcvFields_progress [OF 1(1) Cons.prems(2)] by (simp add: msg_left_def)
    moreover have "RcvRecords acts r pb1 = ([], pb1)"
      using 1(2) by (intro RcvRecords_none) (auto simp: has_msg_def)
    ultimately show ?thesis using 1 True Cons.prems(2)
      by (subst RcvRecords.simps) simp
  next
    case False
    have cne: "concat fss \<noteq> []"
    proof -
      from False Cons.prems(3) [of "hd fss"] Cons.prems(2) have "hd fss \<noteq> []" by (cases fss) auto
      with False show ?thesis by (cases fss) auto
    qed
    with Cons.prems(1) have "has_msg (terminated fs @ joined (concat fss)) rest pb"
      by (simp add: joined_split)
    from RcvFields_terminated [OF this fs(2,1,3)] obtain pb1 where
      1: "RcvFields acts r pb = (Some (g fs), pb1)" "has_msg (joined (concat fss)) rest pb1"
        "rd_frame pb pb1" by blast
    have "m_msgConsumed pb < m_msgLength pb"
      using RcvFields_progress [OF 1(1) Cons.prems(2)] by (simp add: msg_left_def)
    moreover from Cons.IH [OF 1(2) Cons.prems(2)] Cons.prems(3,4) False obtain pb2 where
      2: "RcvRecords acts r pb1 = (map g fss, pb2)" "has_msg [] rest pb2" "rd_frame pb1 pb2" by auto
    ultimately have "RcvRecords acts r pb = (map g (fs # fss), pb2)" using 1 Cons.prems(2)
      by (subst RcvRecords.simps) simp
    with 2 rd_frame_trans [OF 1(3)] show ?thesis by blast
  qed
qed

text \<open>A command whose answer is a list of records. What is left after the loop is flushed.\<close>

definition query_records ::
    "string \<Rightarrow> (string \<Rightarrow> 'r \<Rightarrow> 'r option) list \<Rightarrow> 'r \<Rightarrow> 'a protobase_scheme
     \<Rightarrow> 'r list \<times> 'a protobase_scheme" where
  "query_records cmd acts r pb =
     (case SendCommand cmd True pb of (ok, pb1) \<Rightarrow>
        if \<not> ok then ([], pb1)
        else case RcvRecords acts r pb1 of (rs, pb2) \<Rightarrow> (rs, snd (FlushMessage pb2)))"

lemma query_records_frame: "msg_frame pb (snd (query_records cmd acts r pb))"
proof -
  obtain ok pb1 where 1: "SendCommand cmd True pb = (ok, pb1)" by force
  obtain rs pb2 where 2: "RcvRecords acts r pb1 = (rs, pb2)" by force
  have "msg_frame pb pb2"
    using msg_frame_trans [OF SendCommand_frame_eq [OF 1] RcvRecords_frame [of pb1 acts r]] 2 by simp
  with FlushMessage_frame_step [of pb pb2] SendCommand_frame_eq [OF 1] 1 2 show ?thesis
    by (simp add: query_records_def)
qed

lemma query_records_frame_eq: "query_records cmd acts r pb = (x, pb') \<Longrightarrow> msg_frame pb pb'"
  using query_records_frame [of pb cmd acts r] by simp

text \<open>At the end of a message flushing does nothing.\<close>

lemma FlushMessage_done: "has_msg [] rest pb \<Longrightarrow> FlushMessage pb = (0, pb)"
  by (cases pb) (auto simp: FlushMessage_def has_msg_def size_sub_def)

lemma query_records_answer:
  assumes "ready (framed (joined (concat fss)) @ rest) pb" "sendable cmd"
    "length (joined (concat fss)) < 10 ^ 7" "acts \<noteq> []"
    "\<And>fs. fs \<in> set fss \<Longrightarrow> length acts = length fs \<and> list_all clean_field fs
       \<and> parse_fields acts fs r = Some (g fs)"
    "fss \<noteq> [] \<Longrightarrow> last (last fss) \<noteq> []"
  shows "\<exists>pb'. query_records cmd acts r pb = (map g fss, pb') \<and> ready rest pb' \<and> asked cmd pb pb'"
proof -
  from SendCommand_ready [OF assms(1-3)] obtain pb1 where
    1: "SendCommand cmd True pb = (True, pb1)" "has_msg (joined (concat fss)) rest pb1" "asked cmd pb pb1"
      "sends (sock pb1)" by blast
  from RcvRecords_answer [OF 1(2) assms(4-6)] obtain pb2 where
    2: "RcvRecords acts r pb1 = (map g fss, pb2)" "has_msg [] rest pb2" "rd_frame pb1 pb2" by blast
  have "query_records cmd acts r pb = (map g fss, pb2)"
    using 1 2 FlushMessage_done [OF 2(2)] by (simp add: query_records_def)
  with asked_rd [OF 1(3) 2(3) 1(4) 2(2)] show ?thesis by blast
qed

section \<open>Whatever the message holds\<close>

lemma ReadField_within:
  assumes "has_msg m rest pb" "m \<noteq> []"
  shows "\<exists>f m' pb'. ReadField pb = (True, f, pb') \<and> has_msg m' rest pb' \<and> rd_frame pb pb'
    \<and> length m' < length m"
proof -
  from assms(1) obtain h: "sock_ok (sock pb)" "avail (sock pb) = m @ rest"
    "m_msgLength pb = m_msgConsumed pb + length m" "m_msgLength pb < 2 ^ 32"
    by (auto simp: has_msg_def)
  from tcp.field_loop_within [OF h(1), of 0 "[]" "m_msgConsumed pb" "m_msgLength pb" "[]"] h(2,3)
  obtain f c' s' where fl: "field_loop ReceiveData (m_msgLength pb) (m_msgConsumed pb) [] 0 [] (sock pb)
      = (FieldOk, f, c', s')" and s': "sock_ok s'" and c': "m_msgConsumed pb \<le> c'" "c' \<le> m_msgLength pb"
    and av: "avail s' = drop (c' - m_msgConsumed pb) (m @ rest)" by auto
  have adv: "m_msgConsumed pb < c'"
    using field_loop_advances [OF _ fl] h(3) assms(2) by simp
  let ?m = "drop (c' - m_msgConsumed pb) m"
  have av': "avail s' = ?m @ rest" using av c' h(3) by simp
  have len: "length ?m < length m" using adv assms(2) by (cases m) auto
  show ?thesis
  proof (cases "c' < m_msgLength pb")
    case True
    let ?q = "pb\<lparr>sock := s', m_msgConsumed := c'\<rparr>"
    have e: "ReadField pb = (True, f, ?q)" using fl h True assms(2) by (simp add: ReadField_def)
    moreover have "has_msg ?m rest ?q" using s' av' h c' True by (auto simp: has_msg_def)
    ultimately show ?thesis using ReadField_rd_frame(1) [OF e] len by blast
  next
    case False
    let ?q = "pb\<lparr>sock := s', m_msgConsumed := 0, m_msgLength := 0\<rparr>"
    have e: "ReadField pb = (True, f, ?q)" using fl h False assms(2) c' by (simp add: ReadField_def)
    moreover have "has_msg ?m rest ?q" using s' av' h c' False by (simp add: has_msg_def)
    ultimately show ?thesis using ReadField_rd_frame(1) [OF e] len by blast
  qed
qed

text \<open>Every receiver stays inside the message it is given.\<close>

lemma RcvFields_within:
  assumes "has_msg m rest pb"
  shows "\<exists>x m' pb'. RcvFields acts r pb = (x, pb') \<and> has_msg m' rest pb' \<and> rd_frame pb pb'"
  using assms
proof (induction acts r pb arbitrary: m rule: RcvFields.induct)
  case (2 a as r pb)
  show ?case
  proof (cases "m = []")
    case True
    with 2 show ?thesis by (auto simp: ReadField_empty)
  next
    case False
    from ReadField_within [OF "2.prems" False] obtain f m' pb1 where
      1: "ReadField pb = (True, f, pb1)" "has_msg m' rest pb1" "rd_frame pb pb1" by blast
    show ?thesis
    proof (cases "a f r")
      case None
      with 1 show ?thesis by auto
    next
      case (Some r1)
      from "2.IH" [OF 1(1) [symmetric] refl _ Some 1(2)] obtain x m2 pb2 where
        "RcvFields as r1 pb1 = (x, pb2)" "has_msg m2 rest pb2" "rd_frame pb1 pb2" by auto
      with 1 Some rd_frame_trans [OF 1(3)] show ?thesis by auto
    qed
  qed
qed auto

lemma rcv_or_flush_within:
  assumes "has_msg m rest pb" "rcv_or_flush acts r pb = (None, pb')"
  shows "idle rest pb' \<and> rd_frame pb pb'"
proof -
  from RcvFields_within [OF assms(1), of acts r] obtain x m1 pb1 where
    1: "RcvFields acts r pb = (x, pb1)" "has_msg m1 rest pb1" "rd_frame pb pb1" by blast
  from FlushMessage_msg [OF 1(2)] obtain pb2 where
    2: "FlushMessage pb1 = (length m1, pb2)" "has_msg [] rest pb2" "rd_frame pb1 pb2" by blast
  with 1 assms(2) have "pb' = pb2" by (auto simp: rcv_or_flush_def split: option.splits)
  with 2 1 rd_frame_trans has_msg_idle show ?thesis by blast
qed

text \<open>Whatever the server answers, a query that fails on the answer has consumed exactly that
  answer: the next command starts at the next message.\<close>

lemma query_unexpected:
  assumes "ready (framed m @ rest) pb" "sendable cmd" "length m < 10 ^ 7"
    "query cmd acts r pb = (None, pb')"
  shows "ready rest pb' \<and> asked cmd pb pb'"
proof -
  from SendCommand_ready [OF assms(1-3)] obtain pb1 where
    1: "SendCommand cmd True pb = (True, pb1)" "has_msg m rest pb1" "asked cmd pb pb1"
      "sends (sock pb1)" by blast
  then have "rcv_or_flush acts r pb1 = (None, pb')" using assms(4) by (simp add: query_def)
  from rcv_or_flush_within [OF 1(2) this] have i: "idle rest pb'" "rd_frame pb1 pb'" by auto
  with asked_rd [OF 1(3) i(2) 1(4)] show ?thesis by (auto simp: idle_def)
qed

section \<open>Keeping a connection in order\<close>

lemma FlushMessage_ok: "pb_ok pb \<Longrightarrow> pb_ok (snd (FlushMessage pb))"
  by (rule pb_ok_step [OF FlushMessage_frame])

lemmas ok_steps = frame_eqs [THEN pb_ok_step] query_records_frame_eq [THEN pb_ok_step]

text \<open>The step most operations are made of: the invariant is kept, and so are the fields that a
  class adds to the connection.\<close>

definition pb_keeps :: "'a protobase_scheme \<Rightarrow> 'a protobase_scheme \<Rightarrow> bool" where
  "pb_keeps pb pb' \<longleftrightarrow> (pb_ok pb \<longrightarrow> pb_ok pb') \<and> protobase.more pb' = protobase.more pb"

lemma pb_keeps_refl [simp]: "pb_keeps pb pb"
  by (simp add: pb_keeps_def)

lemma pb_keeps_frame: "msg_frame pb pb' \<Longrightarrow> pb_keeps pb pb'"
  by (auto simp: pb_keeps_def msg_frame_simps)

lemma pb_keeps_trans: "pb_keeps a b \<Longrightarrow> pb_keeps b c \<Longrightarrow> pb_keeps a c"
  by (auto simp: pb_keeps_def)

lemmas keeps_steps = frame_eqs [THEN pb_keeps_frame] query_records_frame_eq [THEN pb_keeps_frame]

lemma FlushMessage_keeps_step: "pb_keeps a pb \<Longrightarrow> pb_keeps a (snd (FlushMessage pb))"
  by (rule pb_keeps_trans [OF _ pb_keeps_frame [OF FlushMessage_frame]])

text \<open>\<open>ProtoBase::Close\<close> followed by \<open>m_tainted = m_hang = false\<close>: the \<open>Close\<close> of the control
  connections.\<close>

definition reset_Close :: "'a protobase_scheme \<Rightarrow> 'a protobase_scheme" where
  "reset_Close pb = (Close pb)\<lparr>m_tainted := False, m_hang := False\<rparr>"

lemma reset_Close_ok: "pb_ok pb \<Longrightarrow> pb_ok (reset_Close pb)"
  using pb_ok_step [OF Close_frame, of pb] Close_closed [of pb]
  by (auto simp: reset_Close_def pb_ok_def pb_inv_def pb_quiet_def)

lemma reset_Close_state [simp]:
  "\<not> m_isOpen (reset_Close pb)" "\<not> IsValid (sock (reset_Close pb))" "\<not> m_hang (reset_Close pb)"
  "\<not> m_tainted (reset_Close pb)" "m_msgLength (reset_Close pb) = 0"
  "protobase.more (reset_Close pb) = protobase.more pb"
  using Close_closed [of pb] Close_frame [of pb] by (simp_all add: reset_Close_def msg_frame_def)

lemma RcvFields_rd_frame: "RcvFields acts r pb = (Some r', pb') \<Longrightarrow> rd_frame pb pb'"
proof (induction acts r pb rule: RcvFields.induct)
  case (2 a as r pb)
  then obtain f pb1 r1 where 1: "ReadField pb = (True, f, pb1)" "a f r = Some r1"
    "RcvFields as r1 pb1 = (Some r', pb')"
    by (auto split: prod.splits if_splits option.splits)
  with "2.IH" [OF 1(1) [symmetric] refl _ 1(2) 1(3)] ReadField_rd_frame(1) [OF 1(1)] rd_frame_trans
  show ?case by blast
qed simp

text \<open>A query that succeeds on a connection between two messages keeps it open and alive.\<close>

lemma query_kept:
  assumes "query cmd acts r pb = (Some x, pb')" "at_boundary pb"
  shows "m_isOpen pb' = m_isOpen pb \<and> m_hang pb' = m_hang pb"
proof -
  from assms(1) obtain pb1 where 1: "SendCommand cmd True pb = (True, pb1)"
    "RcvFields acts r pb1 = (Some x, pb')"
    by (auto simp: query_def rcv_or_flush_def split: prod.splits if_splits option.splits)
  from SendCommand_sent [OF 1(1)] assms(2) rd_frame_simps [OF RcvFields_rd_frame [OF 1(2)]]
  show ?thesis by (simp add: at_boundary_def)
qed

text \<open>
  The contract of the classes that open a connection and announce themselves. What \<open>Open\<close> does
  is the same code in each class; the announcement is what differs, and of it the clients need
  two laws: it only exchanges messages, and when it succeeds the connection is still there.
\<close>

locale announced_connection =
  fixes rcvbuf :: int
    and announce :: "'a protobase_scheme \<Rightarrow> bool \<times> 'a protobase_scheme"
    and opn :: "'a protobase_scheme \<Rightarrow> bool \<times> 'a protobase_scheme"
  assumes opn_eq: "opn pb =
      (case OpenConnection rcvbuf pb of (opened, pb1) \<Rightarrow>
        if \<not> opened then (False, pb1)
        else case announce pb1 of
               (ok, pb2) \<Rightarrow> if ok then (True, pb2) else (False, reset_Close pb2))"
    and announce_frame: "announce pb = (ok, pb') \<Longrightarrow> msg_frame pb pb'"
    and announce_kept: "announce pb = (True, pb') \<Longrightarrow> at_boundary pb
      \<Longrightarrow> m_isOpen pb' = m_isOpen pb \<and> m_hang pb' = m_hang pb"
begin

lemma opn_cases:
  assumes "pb_ok pb" "opn pb = (ok, pb')"
  shows "pb_ok pb' \<and> m_isOpen pb' = ok \<and> protobase.more pb' = protobase.more pb
    \<and> (ok \<longrightarrow> known_version (m_protoVersion pb')) \<and> (\<not> ok \<longrightarrow> \<not> IsValid (sock pb'))"
proof -
  obtain o1 pb1 where 1: "OpenConnection rcvbuf pb = (o1, pb1)" by force
  have p1: "open_post (pb\<lparr>m_protoError := ERROR_NO_ERROR\<rparr>) o1 pb1"
    using OpenConnection_post [OF assms(1), of rcvbuf] 1 by simp
  obtain o2 pb2 where 2: "announce pb1 = (o2, pb2)" by force
  note f = announce_frame [OF 2]
  have ok2: "pb_ok pb2" using p1 pb_ok_step [OF f] by (simp add: open_post_def)
  show ?thesis
  proof (cases o1)
    case False
    with 1 assms(2) p1 show ?thesis by (auto simp: opn_eq open_post_def)
  next
    case True
    have b: "at_boundary pb1" using p1 by (auto simp: at_boundary_def open_post_def pb_ok_def pb_inv_def)
    show ?thesis
    proof (cases o2)
      case o2: True
      with 1 2 True assms(2) have "ok" "pb' = pb2" by (auto simp: opn_eq)
      with announce_kept [of pb1 pb2] 2 o2 b p1 True ok2 f show ?thesis
        by (auto simp: open_post_def msg_frame_def)
    next
      case False
      with 1 2 True assms(2) have "\<not> ok" "pb' = reset_Close pb2" by (auto simp: opn_eq)
      with reset_Close_ok [OF ok2] f p1 show ?thesis by (auto simp: open_post_def msg_frame_def)
    qed
  qed
qed

lemma opn_ok: "pb_ok pb \<Longrightarrow> pb_ok (snd (opn pb))"
  using opn_cases [of pb] by (cases "opn pb") auto

end

text \<open>The guard \<open>if (!IsOpen()) return ...\<close> at the start of an operation.\<close>

definition guarded :: "('s \<Rightarrow> bool \<times> 's) \<Rightarrow> 'b \<Rightarrow> ('s \<Rightarrow> 'b \<times> 's) \<Rightarrow> 's \<Rightarrow> 'b \<times> 's" where
  "guarded is_open failed body s0 =
     (case is_open s0 of (opened, s) \<Rightarrow> if opened then body s else (failed, s))"

text \<open>The contract of the classes whose \<open>IsOpen\<close> connects again after a hang: with it, an
  operation that keeps the invariant and the fields of the class on an open connection does so
  behind the guard too.\<close>

locale reconnecting_connection = announced_connection rcvbuf announce opn
  for rcvbuf :: int
    and announce :: "'a protobase_scheme \<Rightarrow> bool \<times> 'a protobase_scheme"
    and opn :: "'a protobase_scheme \<Rightarrow> bool \<times> 'a protobase_scheme" +
  fixes is_open :: "'a protobase_scheme \<Rightarrow> bool \<times> 'a protobase_scheme"
  assumes is_open_eq: "is_open pb = (if m_hang pb then opn pb else (m_isOpen pb, pb))"
begin

lemma is_open_keeps:
  assumes "pb_ok pb" "is_open pb = (b, pb')"
  shows "pb_ok pb' \<and> protobase.more pb' = protobase.more pb"
  using assms opn_cases [of pb] by (auto simp: is_open_eq split: if_splits)

lemma guarded_cases:
  assumes "pb_ok pb" "guarded is_open x body pb = (y, pb')"
  obtains (closed) "y = x" "pb_ok pb'" "protobase.more pb' = protobase.more pb"
  | (opened) pb1 where "pb_ok pb1" "protobase.more pb1 = protobase.more pb" "body pb1 = (y, pb')"
proof -
  obtain b pb1 where 1: "is_open pb = (b, pb1)" by force
  note k = is_open_keeps [OF assms(1) 1]
  show ?thesis using 1 k assms(2) closed opened by (cases b) (auto simp: guarded_def)
qed

lemma guarded_keeps:
  assumes "pb_ok pb" "guarded is_open x body pb = (y, pb')"
    "\<And>pb y pb'. body pb = (y, pb') \<Longrightarrow> pb_keeps pb pb'"
  shows "pb_ok pb' \<and> protobase.more pb' = protobase.more pb"
  using assms(1,2)
proof (cases rule: guarded_cases)
  case (opened pb1)
  with assms(3) [of pb1 y pb'] show ?thesis by (simp add: pb_keeps_def)
qed simp

lemma guarded_idle: "m_isOpen pb \<Longrightarrow> \<not> m_hang pb \<Longrightarrow> guarded is_open x body pb = body pb"
  by (simp add: guarded_def is_open_eq)

end

section \<open>Properties\<close>

text \<open>C6: A query whose answer is not the expected one consumes exactly that answer, whatever the
  server put into it: the command has gone out, nothing of the answer is left and nothing behind
  it is lost, so the next query is in step with the server.\<close>

theorem query_stays_in_step:
  assumes "ready (framed answer @ rest) pb" "sendable cmd" "length answer < 10 ^ 7"
    "query cmd acts r pb = (None, pb')"
  shows "ready rest pb' \<and> os_sent (sock pb') = os_sent (sock pb) @ [framed cmd]
    \<and> protobase.more pb' = protobase.more pb \<and> m_isOpen pb' = m_isOpen pb"
  using query_unexpected [OF assms] talk_frame_simps [of pb pb'] by (auto simp: asked_def)

lemma demo_pb_ready [simp]: "ready b (demo_pb v b)"
  by (simp add: ready_def)

lemma demo_pb_ok: "known_version v \<Longrightarrow> pb_ok (demo_pb v b)"
  by (simp add: pb_ok_def pb_inv_def pb_quiet_def demo_pb_def ProtoBase_new_def IsValid_def demo_socket_def sock_inv_def
      TcpSocket_new_def SOCKET_BUFFER_SIZE_def)

lemma known_91: "known_version 91"
  by (simp add: known_version_def protomap_def)

theorem query_stays_in_step_witness:
  "ready [] (snd (query ''BLOCK_SHUTDOWN'' [fok] () (demo_pb 91 (framed ''ERROR''))))"
proof -
  let ?q = "query ''BLOCK_SHUTDOWN'' [fok] () (demo_pb 91 (framed ''ERROR''))"
  have r: "ready (framed ''ERROR'' @ []) (demo_pb 91 (framed ''ERROR''))" by simp
  have s: "sendable ''BLOCK_SHUTDOWN''" by (simp add: sendable_def PROTO_SENDMSG_MAXSIZE_def)
  have "last_field ''ERROR''" by (rule clean_last, rule clean_field_plain) simp_all
  with SendCommand_ready [OF r s] ReadField_last [of "''ERROR''" "[]"] have "fst ?q = None"
    by (fastforce simp: query_def rcv_or_flush_def fok_def IsMessageOK_def split: prod.splits)
  then have "?q = (None, snd ?q)" by (metis prod.collapse)
  from query_stays_in_step [OF r s _ this] show ?thesis by simp
qed

text \<open>A query on a server that answers with the fields the operation expects yields what the
  fields say, and leaves the connection ready for the next command.\<close>

theorem query_reads_answer:
  assumes "ready (framed (joined fs) @ rest) pb" "sendable cmd" "length (joined fs) < 10 ^ 7"
    "fs \<noteq> []" "list_all clean_field fs" "last fs \<noteq> []" "length acts = length fs"
    "parse_fields acts fs r = Some r'"
  shows "\<exists>pb'. query cmd acts r pb = (Some r', pb') \<and> ready rest pb'
    \<and> os_sent (sock pb') = os_sent (sock pb) @ [framed cmd]"
  using query_answer [OF assms] by (auto simp: asked_def)

theorem query_reads_answer_witness:
  "\<exists>pb'. query ''QUERY_FREE_SPACE_SUMMARY''
       [fconv string_to_int64 (\<lambda>x (_, b). (x, b)), fconv string_to_int64 (\<lambda>x (a, _). (a, x))] (0, 0)
       (demo_pb 91 (framed (joined [dec_nat 500, dec_nat 20])))
     = (Some (500, 20), pb') \<and> ready [] pb'"
proof -
  have l: "length (dec_nat 500) \<le> 3" "length (dec_nat 20) \<le> 3" by (rule dec_nat_length; simp)+
  show ?thesis
    using query_reads_answer [of "[dec_nat 500, dec_nat 20]" "[]"
        "demo_pb 91 (framed (joined [dec_nat 500, dec_nat 20]))" "''QUERY_FREE_SPACE_SUMMARY''"
        "[fconv string_to_int64 (\<lambda>x (_, b). (x, b)), fconv string_to_int64 (\<lambda>x (a, _). (a, x))]"
        "(0, 0)" "(500, 20)"] l
    by (auto simp: sendable_def PROTO_SENDMSG_MAXSIZE_def fconv_def numeric_simps)
qed

end
