(* ===== verification/ProtoEvent.thy ===== *)
theory ProtoEvent
  imports Query
begin

text \<open>
  The event connection (\<open>proto/mythprotoevent.cpp\<close>): the tokenizer, the signal status and the
  reception and dispatch of one backend message. The class adds no state to the connection.
\<close>

section \<open>The tokenizer\<close>

text \<open>
  \<open>pa\<close> and \<open>pb\<close> of the source are equal at the head of the loop, so the state is the rest of
  the string. \<open>n\<close> counts the tokens; the loop stops at 255 and the rest is one last token.
\<close>

function tokenize_loop :: "nat \<Rightarrow> string \<Rightarrow> bool \<Rightarrow> string \<Rightarrow> string list" where
  "tokenize_loop n delimiters trimnull str =
     (case dropWhile (\<lambda>c. c \<notin> set delimiters) str of
        [] \<Rightarrow> [str]
      | _ # r \<Rightarrow>
          (if n + 1 < 255
           then takeWhile (\<lambda>c. c \<notin> set delimiters) str
                # tokenize_loop (n + 1) delimiters trimnull
                    (if trimnull then dropWhile (\<lambda>c. c \<in> set delimiters) r else r)
           else [str]))"
  by pat_completeness auto
termination
proof (relation "measure (\<lambda>(n, _, _, _). 255 - n)")
qed auto

declare tokenize_loop.simps [simp del]

definition tokenize :: "string \<Rightarrow> string \<Rightarrow> bool \<Rightarrow> string list" where
  "tokenize str delimiters trimnull = tokenize_loop 0 delimiters trimnull str"

section \<open>Opening\<close>

definition PROTO_EVENT_RCVBUF :: int where "PROTO_EVENT_RCVBUF = 64000"

definition event_Close :: "protobase \<Rightarrow> protobase" where
  "event_Close pb = (Close pb)\<lparr>m_tainted := False, m_hang := False\<rparr>"

definition event_announce_cmd :: "protobase \<Rightarrow> string" where
  "event_announce_cmd pb = ''ANN Monitor '' @ os_hostname (sock pb) @ '' 1''"

definition event_Announce75 :: "protobase \<Rightarrow> bool \<times> protobase" where
  "event_Announce75 pb =
     (case query (event_announce_cmd pb) [fok] () pb of (r, pb1) \<Rightarrow> (r \<noteq> None, pb1))"

definition event_Open :: "protobase \<Rightarrow> bool \<times> protobase" where
  "event_Open pb =
     (case OpenConnection PROTO_EVENT_RCVBUF pb of (opened, pb1) \<Rightarrow>
       (if \<not> opened then (False, pb1)
        else case (if m_protoVersion pb1 \<ge> 75 then event_Announce75 pb1 else (False, pb1)) of
               (ok, pb2) \<Rightarrow> (if ok then (True, pb2) else (False, event_Close pb2))))"

section \<open>Signal status\<close>

text \<open>\<open>(0 == string_to_int64(...) ? tmpi : 0)\<close>\<close>

definition signal_num :: "string \<Rightarrow> i64" where
  "signal_num tok = (case string_to_int64 (c_str tok) of Inl _ \<Rightarrow> 0 | Inr v \<Rightarrow> v)"

definition signal_field :: "string \<Rightarrow> SignalStatus \<Rightarrow> SignalStatus" where
  "signal_field field sg =
     (let tokens = tokenize field '' '' False in
      if length tokens > 1
      then (let t0 = tokens ! 0; t1 = tokens ! 1 in
            if t0 = ''slock'' then sg\<lparr>sig_lock := (t1 = ''1'')\<rparr>
            else if t0 = ''signal'' then sg\<lparr>sig_signal := ucast (signal_num t1)\<rparr>
            else if t0 = ''snr'' then sg\<lparr>sig_snr := ucast (signal_num t1)\<rparr>
            else if t0 = ''ber'' then sg\<lparr>sig_ber := signal_num t1\<rparr>
            else if t0 = ''ucb'' then sg\<lparr>sig_ucb := signal_num t1\<rparr>
            else sg)
      else sg)"

function signal_loop :: "SignalStatus \<Rightarrow> protobase \<Rightarrow> SignalStatus \<times> protobase" where
  "signal_loop sg pb =
     (case ReadField pb of (ok, field, pb1) \<Rightarrow>
       (if ok then signal_loop (signal_field field sg) pb1 else (sg, pb1)))"
  by pat_completeness auto
termination
  by (relation "measure (\<lambda>(_, pb). msg_left pb)") (auto intro: ReadField_progress [OF sym])

declare signal_loop.simps [simp del]

definition RcvSignalStatus :: "protobase \<Rightarrow> SignalStatus \<times> protobase" where
  "RcvSignalStatus pb = signal_loop SignalStatus_init pb"

section \<open>Backend messages\<close>

text \<open>The part of \<open>RcvBackendMessage\<close> that classifies the subject and reads what belongs to it.\<close>

definition event_body :: "libc \<Rightarrow> string list \<Rightarrow> protobase \<Rightarrow> EventMessage \<times> protobase" where
  "event_body lc subject pb =
     (let m = EventMessage_init\<lparr>ev_subject := subject\<rparr>; s0 = subject ! 0 in
      if s0 = ''UPDATE_FILE_SIZE'' then (m\<lparr>ev_event := EVENT_UPDATE_FILE_SIZE\<rparr>, pb)
      else if s0 = ''DONE_RECORDING'' then (m\<lparr>ev_event := EVENT_DONE_RECORDING\<rparr>, pb)
      else if s0 = ''QUIT_LIVETV'' then (m\<lparr>ev_event := EVENT_QUIT_LIVETV\<rparr>, pb)
      else if s0 = ''LIVETV_WATCH'' then (m\<lparr>ev_event := EVENT_LIVETV_WATCH\<rparr>, pb)
      else if s0 = ''LIVETV_CHAIN'' then (m\<lparr>ev_event := EVENT_LIVETV_CHAIN\<rparr>, pb)
      else if s0 = ''SIGNAL''
        then (case RcvSignalStatus pb of
                (sg, pb1) \<Rightarrow> (m\<lparr>ev_event := EVENT_SIGNAL, ev_signal := Some sg\<rparr>, pb1))
      else if s0 = ''RECORDING_LIST_CHANGE''
        then (if length subject > 1 \<and> subject ! 1 = ''UPDATE''
              then (case RcvProgramInfo lc pb of
                      (p, pb1) \<Rightarrow> (m\<lparr>ev_event := EVENT_RECORDING_LIST_CHANGE, ev_program := p\<rparr>, pb1))
              else (m\<lparr>ev_event := EVENT_RECORDING_LIST_CHANGE\<rparr>, pb))
      else if s0 = ''SCHEDULE_CHANGE'' then (m\<lparr>ev_event := EVENT_SCHEDULE_CHANGE\<rparr>, pb)
      else if s0 = ''ASK_RECORDING''
        then (case RcvProgramInfo lc pb of
                (p, pb1) \<Rightarrow> (m\<lparr>ev_event := EVENT_ASK_RECORDING, ev_program := p\<rparr>, pb1))
      else if s0 = ''CLEAR_SETTINGS_CACHE'' then (m\<lparr>ev_event := EVENT_CLEAR_SETTINGS_CACHE\<rparr>, pb)
      else if s0 = ''GENERATED_PIXMAP'' then (m\<lparr>ev_event := EVENT_GENERATED_PIXMAP\<rparr>, pb)
      else if s0 = ''SYSTEM_EVENT'' then (m\<lparr>ev_event := EVENT_SYSTEM_EVENT\<rparr>, pb)
      else (m, pb))"

definition ENOTCONN_num :: int where "ENOTCONN_num = 107"

text \<open>\<open>RcvMessageLength() && ReadField(field) && field == "BACKEND_MESSAGE"\<close>, in this order, and
  the branch it guards. The result of the second \<open>ReadField\<close> is not looked at.\<close>

definition event_receive :: "libc \<Rightarrow> protobase \<Rightarrow> EventMessage \<times> protobase" where
  "event_receive lc pb =
     (case RcvMessageLength pb of (ok1, pb1) \<Rightarrow>
       (if \<not> ok1 then (EventMessage_init, pb1)
        else case ReadField pb1 of (ok2, field, pb2) \<Rightarrow>
          (if \<not> ok2 \<or> field \<noteq> ''BACKEND_MESSAGE'' then (EventMessage_init, pb2)
           else case ReadField pb2 of (_, subject, pb3) \<Rightarrow>
                  event_body lc (tokenize subject '' '' False) pb3)))"

text \<open>The message is \<open>None\<close> when none is handed out.\<close>

definition RcvBackendMessage :: "libc \<Rightarrow> protobase \<Rightarrow> int \<times> EventMessage option \<times> protobase" where
  "RcvBackendMessage lc pb =
     (case Listen (sock pb) of (r, s) \<Rightarrow>
       (let pb0 = pb\<lparr>sock := s\<rparr> in
        if r > 0
        then case event_receive lc pb0 of (msg, pb1) \<Rightarrow>
               (let pb2 = snd (FlushMessage pb1)
                in (if m_hang pb2 then - ENOTCONN_num else 1, Some msg, pb2))
        else if r < 0 then (r, None, pb0)
        else (if m_isOpen pb0 \<and> \<not> m_hang pb0 then 0 else - ENOTCONN_num, None, pb0)))"

section \<open>What the tokenizer does\<close>

fun joined_with :: "string \<Rightarrow> string list \<Rightarrow> string" where
  "joined_with d [] = []"
| "joined_with d [f] = f"
| "joined_with d (f # fs) = f @ d @ joined_with d fs"

lemma tokenize_loop_nonempty [simp]: "tokenize_loop n ds trim s \<noteq> []"
  by (subst tokenize_loop.simps) (auto split: list.split)

lemma joined_with_Cons: "fs \<noteq> [] \<Longrightarrow> joined_with d (f # fs) = f @ d @ joined_with d fs"
  by (cases fs) simp_all

lemma tokenize_loop_join: "joined_with [d] (tokenize_loop n [d] False s) = s"
proof (induction n "[d]" False s rule: tokenize_loop.induct)
  case (1 n s)
  show ?case
  proof (cases "dropWhile (\<lambda>c. c \<notin> set [d]) s")
    case Nil
    then have "tokenize_loop n [d] False s = [s]" by (subst tokenize_loop.simps) (simp only: list.case)
    then show ?thesis by simp
  next
    case (Cons x r)
    then have x: "x = d" using hd_dropWhile [of "\<lambda>c. c \<notin> set [d]" s] by simp
    have s: "takeWhile (\<lambda>c. c \<noteq> d) s @ d # r = s"
    proof -
      have "dropWhile (\<lambda>c. c \<noteq> d) s = d # r" using Cons x by simp
      then show ?thesis using takeWhile_dropWhile_id [of "\<lambda>c. c \<noteq> d" s] by metis
    qed
    show ?thesis using Cons "1.hyps" [OF Cons] s
      by (subst tokenize_loop.simps) (simp add: joined_with_Cons)
  qed
qed

lemma tokenize_loop_length: "n \<le> 254 \<Longrightarrow> n + length (tokenize_loop n ds trim s) \<le> 255"
proof (induction n ds trim s rule: tokenize_loop.induct)
  case (1 n ds trim s)
  then show ?case
    by (subst tokenize_loop.simps) (fastforce split: list.split)
qed

lemma tokenize_loop_clean:
  assumes "n + length (tokenize_loop n ds trim s) < 255" "n \<le> 254" "tok \<in> set (tokenize_loop n ds trim s)"
  shows "set tok \<inter> set ds = {}"
  using assms
proof (induction n ds trim s rule: tokenize_loop.induct)
  case (1 n ds trim s)
  show ?case
  proof (cases "dropWhile (\<lambda>c. c \<notin> set ds) s")
    case Nil
    with "1.prems" show ?thesis
      by (subst (asm) (1 2) tokenize_loop.simps) (auto simp: dropWhile_eq_Nil_conv)
  next
    case (Cons x r)
    have t: "set (takeWhile (\<lambda>c. c \<notin> set ds) s) \<inter> set ds = {}" by (auto dest: set_takeWhileD)
    let ?r = "if trim then dropWhile (\<lambda>c. c \<in> set ds) r else r"
    show ?thesis
    proof (cases "n + 1 < 255")
      case True
      then have e: "tokenize_loop n ds trim s
          = takeWhile (\<lambda>c. c \<notin> set ds) s # tokenize_loop (n + 1) ds trim ?r"
        using Cons by (subst tokenize_loop.simps) simp
      show ?thesis
        using "1.IH" [OF Cons True] "1.prems" t e True by auto
    next
      case False
      with "1.prems"(1,2) Cons show ?thesis by (subst (asm) (1) tokenize_loop.simps) auto
    qed
  qed
qed

section \<open>The event connection\<close>

lemma signal_loop_frame: "msg_frame pb (snd (signal_loop sg pb))"
proof (induction sg pb rule: signal_loop.induct)
  case (1 sg pb)
  obtain ok f pb1 where r: "ReadField pb = (ok, f, pb1)" by (metis prod_cases3)
  show ?case using r ReadField_frame_eq [OF r] "1.IH" [OF r [symmetric] refl]
    by (subst signal_loop.simps) (auto intro: msg_frame_trans)
qed

lemma event_body_frame: "msg_frame pb (snd (event_body lc subject pb))"
  using signal_loop_frame [of pb SignalStatus_init] RcvProgramInfo_frame [of pb lc]
  by (simp add: event_body_def Let_def RcvSignalStatus_def case_prod_beta)

lemma Listen_frame: "msg_frame pb (pb\<lparr>sock := snd (Listen (sock pb))\<rparr>)"
proof -
  have "sock_inv s \<Longrightarrow> sock_inv (snd (Listen s))" "IsValid (snd (Listen s)) = IsValid s"
    "os_connect (snd (Listen s)) = os_connect s" for s
    by (auto simp: Listen_def sock_inv_def IsValid_def split: option.split prod.split rx_event.split)
  then show ?thesis by (auto simp: msg_frame_def pb_inv_def pb_quiet_def)
qed

lemma event_receive_frame: "msg_frame pb (snd (event_receive lc pb))"
proof -
  obtain ok1 pb1 where 1: "RcvMessageLength pb = (ok1, pb1)" by force
  obtain ok2 f pb2 where 2: "ReadField pb1 = (ok2, f, pb2)" by (metis prod_cases3)
  obtain ok3 g pb3 where 3: "ReadField pb2 = (ok3, g, pb3)" by (metis prod_cases3)
  note f1 = RcvMessageLength_frame_eq [OF 1]
  note f2 = msg_frame_trans [OF f1 ReadField_frame_eq [OF 2]]
  note f3 = msg_frame_trans [OF msg_frame_trans [OF f2 ReadField_frame_eq [OF 3]] event_body_frame]
  show ?thesis using 1 2 3 f1 f2 f3 by (simp add: event_receive_def)
qed

lemma RcvBackendMessage_frame: "msg_frame pb (snd (snd (RcvBackendMessage lc pb)))"
proof -
  obtain r s where l: "Listen (sock pb) = (r, s)" by force
  have 0: "msg_frame pb (pb\<lparr>sock := s\<rparr>)" using Listen_frame [of pb] l by simp
  note 1 = FlushMessage_frame_step [OF msg_frame_trans [OF 0 event_receive_frame]]
  show ?thesis using l 0 1 [of lc] by (simp add: RcvBackendMessage_def Let_def case_prod_beta)
qed

lemma RcvBackendMessage_boundary:
  "RcvBackendMessage lc pb = (r, Some m, pb') \<Longrightarrow> at_boundary pb'"
  by (auto simp: RcvBackendMessage_def Let_def FlushMessage_boundary split: prod.splits if_splits)

section \<open>Delivery of a message\<close>

lemma signal_loop_within:
  assumes "has_msg m rest pb"
  shows "\<exists>sg' m' pb'. signal_loop sg pb = (sg', pb') \<and> has_msg m' rest pb' \<and> rd_frame pb pb'"
  using assms
proof (induction "length m" arbitrary: m sg pb rule: less_induct)
  case less
  show ?case
  proof (cases "m = []")
    case True
    with less.prems show ?thesis by (subst signal_loop.simps) (auto simp: ReadField_empty)
  next
    case False
    from ReadField_within [OF less.prems False] obtain f m' pb1 where
      1: "ReadField pb = (True, f, pb1)" "has_msg m' rest pb1" "rd_frame pb pb1"
        "length m' < length m" by blast
    from less.hyps [OF 1(4,2), of "signal_field f sg"] obtain sg' m2 pb2 where
      "signal_loop (signal_field f sg) pb1 = (sg', pb2)" "has_msg m2 rest pb2" "rd_frame pb1 pb2"
      by blast
    with 1 rd_frame_trans [OF 1(3)] show ?thesis by (subst signal_loop.simps) auto
  qed
qed

lemma RcvProgramInfo_within:
  assumes "has_msg m rest pb"
  shows "\<exists>x m' pb'. RcvProgramInfo lc pb = (x, pb') \<and> has_msg m' rest pb' \<and> rd_frame pb pb'"
proof -
  have w: "\<exists>x m' pb'. RcvFields acts Program_init pb = (x, pb') \<and> has_msg m' rest pb' \<and> rd_frame pb pb'"
    for acts by (rule RcvFields_within [OF assms])
  show ?thesis
    unfolding RcvProgramInfo_def RcvProgramInfo75_def RcvProgramInfo76_def RcvProgramInfo79_def
      RcvProgramInfo82_def RcvProgramInfo86_def
    by (simp only: split: if_split) (intro conjI impI w)
qed

lemma event_body_within:
  assumes "has_msg m rest pb"
  shows "\<exists>e m' pb'. event_body lc subject pb = (e, pb') \<and> has_msg m' rest pb' \<and> rd_frame pb pb'"
  using assms signal_loop_within [OF assms, of SignalStatus_init] RcvProgramInfo_within [OF assms, of lc]
  by (auto simp: event_body_def Let_def RcvSignalStatus_def)

text \<open>The kind of an event by the first word of its subject.\<close>

definition event_kind :: "string \<Rightarrow> EVENT_t" where
  "event_kind s0 =
     (case map_of
        [(''UPDATE_FILE_SIZE'', EVENT_UPDATE_FILE_SIZE), (''DONE_RECORDING'', EVENT_DONE_RECORDING),
         (''QUIT_LIVETV'', EVENT_QUIT_LIVETV), (''LIVETV_WATCH'', EVENT_LIVETV_WATCH),
         (''LIVETV_CHAIN'', EVENT_LIVETV_CHAIN), (''SIGNAL'', EVENT_SIGNAL),
         (''RECORDING_LIST_CHANGE'', EVENT_RECORDING_LIST_CHANGE),
         (''SCHEDULE_CHANGE'', EVENT_SCHEDULE_CHANGE), (''ASK_RECORDING'', EVENT_ASK_RECORDING),
         (''CLEAR_SETTINGS_CACHE'', EVENT_CLEAR_SETTINGS_CACHE),
         (''GENERATED_PIXMAP'', EVENT_GENERATED_PIXMAP), (''SYSTEM_EVENT'', EVENT_SYSTEM_EVENT)] s0 of
        Some e \<Rightarrow> e | None \<Rightarrow> EVENT_UNKNOWN)"

lemma event_body_kind:
  "ev_event (fst (event_body lc subject pb)) = event_kind (subject ! 0)
   \<and> ev_subject (fst (event_body lc subject pb)) = subject"
  by (simp add: event_body_def event_kind_def Let_def EventMessage_init_def case_prod_beta)

lemma clean_BACKEND [simp]: "clean_field ''BACKEND_MESSAGE''"
  by (rule clean_field_plain) simp_all

lemma event_receive_message:
  assumes "idle (framed (''BACKEND_MESSAGE'' @ SEP @ subject @ SEP @ m) @ rest) pb"
    "length (''BACKEND_MESSAGE'' @ SEP @ subject @ SEP @ m) < 10 ^ 7" "clean_field subject"
  shows "\<exists>e m' pb'. event_receive lc pb = (e, pb') \<and> has_msg m' rest pb' \<and> rd_frame pb pb'
    \<and> ev_subject e = tokenize subject '' '' False
    \<and> ev_event e = event_kind (tokenize subject '' '' False ! 0)"
proof -
  from RcvMessageLength_framed [OF assms(1,2)] obtain pb1 where
    1: "RcvMessageLength pb = (True, pb1)"
      "has_msg (''BACKEND_MESSAGE'' @ SEP @ subject @ SEP @ m) rest pb1" "rd_frame pb pb1" by blast
  from ReadField_sep [OF 1(2)] obtain pb2 where
    2: "ReadField pb1 = (True, ''BACKEND_MESSAGE'', pb2)" "has_msg (subject @ SEP @ m) rest pb2"
      "rd_frame pb1 pb2" by auto
  from ReadField_sep [OF 2(2) assms(3)] obtain pb3 where
    3: "ReadField pb2 = (True, subject, pb3)" "has_msg m rest pb3" "rd_frame pb2 pb3" by blast
  from event_body_within [OF 3(2), of lc "tokenize subject '' '' False"] obtain e m' pb4 where
    4: "event_body lc (tokenize subject '' '' False) pb3 = (e, pb4)" "has_msg m' rest pb4"
      "rd_frame pb3 pb4" by blast
  have "event_receive lc pb = (e, pb4)" using 1 2 3 4 by (simp add: event_receive_def)
  moreover have "rd_frame pb pb4"
    using 1(3) 2(3) 3(3) 4(3) by (rule rd_frame_trans [OF rd_frame_trans [OF rd_frame_trans]])
  ultimately show ?thesis
    using 4 event_body_kind [of lc "tokenize subject '' '' False" pb3] by auto
qed

lemma RcvBackendMessage_message:
  assumes "idle (framed (''BACKEND_MESSAGE'' @ SEP @ subject @ SEP @ m) @ rest) pb"
    "length (''BACKEND_MESSAGE'' @ SEP @ subject @ SEP @ m) < 10 ^ 7" "clean_field subject"
    "m_socket (sock pb) = Some l" "rx l = RxData d # evs" "\<not> m_hang pb"
  shows "\<exists>e pb'. RcvBackendMessage lc pb = (1, Some e, pb') \<and> idle rest pb' \<and> rd_frame pb pb'
    \<and> ev_subject e = tokenize subject '' '' False
    \<and> ev_event e = event_kind (tokenize subject '' '' False ! 0)"
proof -
  have "Listen (sock pb) = (1, sock pb)" using assms(4,5) by (simp add: Listen_def poll_rx_def)
  moreover from event_receive_message [OF assms(1-3), of lc] obtain e m' pb1 where
    1: "event_receive lc pb = (e, pb1)" "has_msg m' rest pb1" "rd_frame pb pb1"
      "ev_subject e = tokenize subject '' '' False"
      "ev_event e = event_kind (tokenize subject '' '' False ! 0)" by blast
  moreover from FlushMessage_msg [OF 1(2)] obtain pb2 where
    2: "FlushMessage pb1 = (length m', pb2)" "has_msg [] rest pb2" "rd_frame pb1 pb2" by blast
  moreover have f: "rd_frame pb pb2" using 1(3) 2(3) by (rule rd_frame_trans)
  ultimately have "RcvBackendMessage lc pb = (1, Some e, pb2)"
    using rd_frame_simps(9) [OF f] assms(6) by (simp add: RcvBackendMessage_def)
  then show ?thesis using 1 f has_msg_idle [OF 2(2)] by blast
qed

text \<open>\<open>Listen\<close> asks the operating system only: a message that already sits in the receive buffer
  is not seen, and the caller is told that there is none.\<close>

lemma RcvBackendMessage_buffered:
  assumes "m_socket (sock pb) = Some l" "rx l = []" "m_isOpen pb" "\<not> m_hang pb"
  shows "RcvBackendMessage lc pb = (0, None, pb)"
  using assms by (simp add: RcvBackendMessage_def Listen_def poll_rx_def)

section \<open>The invariant\<close>

lemma RcvBackendMessage_ok: "pb_ok pb \<Longrightarrow> pb_ok (snd (snd (RcvBackendMessage lc pb)))"
  by (rule pb_ok_step [OF RcvBackendMessage_frame])

interpretation event: announced_connection PROTO_EVENT_RCVBUF
  "\<lambda>pb. if m_protoVersion pb \<ge> 75 then event_Announce75 pb else (False, pb)" event_Open
proof unfold_locales
  show "event_Open pb =
      (case OpenConnection PROTO_EVENT_RCVBUF pb of (opened, pb1) \<Rightarrow>
        if \<not> opened then (False, pb1)
        else case if m_protoVersion pb1 \<ge> 75 then event_Announce75 pb1 else (False, pb1) of
               (ok, pb2) \<Rightarrow> if ok then (True, pb2) else (False, reset_Close pb2))" for pb
    unfolding event_Open_def event_Close_def reset_Close_def ..
qed (auto simp: event_Announce75_def query_frame query_kept split: if_splits prod.splits
    dest: query_frame_eq query_kept)

section \<open>Properties\<close>

text \<open>The tokenizer loses nothing: joining the tokens with the delimiter gives the text back,
  there are between 1 and 255 of them, and below that limit no token contains the delimiter.\<close>

theorem tokenize_correct:
  "joined_with [d] (tokenize s [d] False) = s
   \<and> 1 \<le> length (tokenize s [d] False) \<and> length (tokenize s [d] False) \<le> 255
   \<and> (length (tokenize s [d] False) < 255 \<longrightarrow> (\<forall>tok \<in> set (tokenize s [d] False). d \<notin> set tok))"
  using tokenize_loop_join [of d 0 s] tokenize_loop_length [of 0 "[d]" False s]
    tokenize_loop_nonempty [of 0 "[d]" False s] tokenize_loop_clean [of 0 "[d]" False s]
  by (auto simp: tokenize_def Suc_le_eq)

theorem tokenize_correct_witness:
  "tokenize ''a b'' '' '' False = [''a'', ''b''] \<and> CHR '' '' \<notin> set ''a''"
proof -
  have e: "tokenize ''a b'' '' '' False = [''a'', ''b'']"
    by (simp add: tokenize_def tokenize_loop.simps)
  with tokenize_correct [of "CHR '' ''" "''a b''"] show ?thesis by simp
qed

text \<open>A backend message that has arrived is delivered as one event, classified by the first
  word of its subject, with the words of the subject; the connection then stands exactly at the
  next message, whatever else the message contained.\<close>

theorem event_delivered:
  assumes "idle (framed (''BACKEND_MESSAGE'' @ SEP @ subject @ SEP @ m) @ rest) pb"
    "length (''BACKEND_MESSAGE'' @ SEP @ subject @ SEP @ m) < 10 ^ 7" "clean_field subject"
    "m_socket (sock pb) = Some l" "rx l = RxData d # evs" "\<not> m_hang pb"
  shows "\<exists>e pb'. RcvBackendMessage lc pb = (1, Some e, pb') \<and> idle rest pb'
    \<and> ev_subject e = tokenize subject '' '' False
    \<and> ev_event e = event_kind (tokenize subject '' '' False ! 0)"
  using RcvBackendMessage_message [OF assms, of lc] by blast

theorem event_delivered_witness:
  "\<exists>e pb'. RcvBackendMessage demo_libc
       (demo_pb 91 (framed (''BACKEND_MESSAGE'' @ SEP @ ''SCHEDULE_CHANGE'' @ SEP @ ''empty'') @ ''next''))
     = (1, Some e, pb') \<and> ev_event e = EVENT_SCHEDULE_CHANGE \<and> idle ''next'' pb'"
proof -
  let ?m = "''BACKEND_MESSAGE'' @ SEP @ ''SCHEDULE_CHANGE'' @ SEP @ ''empty''"
  have t: "tokenize ''SCHEDULE_CHANGE'' '' '' False = [''SCHEDULE_CHANGE'']"
    by (simp add: tokenize_def tokenize_loop.simps)
  have "clean_field ''SCHEDULE_CHANGE''" by (rule clean_field_plain) simp_all
  moreover have "length ?m < 10 ^ 7" by simp
  moreover have "rx \<lparr>rx = [RxData x], tx = []\<rparr> = RxData x # []" for x by simp
  ultimately obtain e pb' where
    "RcvBackendMessage demo_libc (demo_pb 91 (framed ?m @ ''next'')) = (1, Some e, pb')"
    "idle ''next'' pb'" "ev_event e = event_kind ''SCHEDULE_CHANGE''"
    using event_delivered [OF demo_pb_idle(1) _ _ demo_pb_idle(6) _ demo_pb_idle(5)] t
    by (metis nth_Cons_0)
  then show ?thesis by (auto simp: event_kind_def)
qed

text \<open>A message that already sits in the receive buffer is not seen: with nothing new at the
  operating system the call reports that there is no message, although a complete one is
  available.\<close>

theorem event_in_buffer_is_missed:
  assumes "avail (sock pb) = framed m @ rest" "m_socket (sock pb) = Some l" "rx l = []" "m_isOpen pb" "\<not> m_hang pb"
  shows "RcvBackendMessage lc pb = (0, None, pb)"
  using RcvBackendMessage_buffered [OF assms(2-5)] .

theorem event_in_buffer_is_missed_witness:
  "let pb = (demo_pb 91 [])\<lparr>sock := (demo_socket [])\<lparr>m_socket := Some \<lparr>rx = [], tx = []\<rparr>,
        m_buffer := Some (framed ''X''), m_bufptr := 0, m_rcvlen := 9\<rparr>\<rparr>
   in avail (sock pb) = framed ''X'' \<and> RcvBackendMessage demo_libc pb = (0, None, pb)"
proof -
  let ?pb = "(demo_pb 91 [])\<lparr>sock := (demo_socket [])\<lparr>m_socket := Some \<lparr>rx = [], tx = []\<rparr>,
        m_buffer := Some (framed ''X''), m_bufptr := 0, m_rcvlen := 9\<rparr>\<rparr>"
  have "avail (sock ?pb) = framed ''X''" by (simp add: avail_def buffered_def framed_def)
  with event_in_buffer_is_missed [of ?pb "''X''" "[]" "\<lparr>rx = [], tx = []\<rparr>" demo_libc] show ?thesis
    by (simp add: Let_def)
qed

end
