(* ===== verification/RingBuffer.thy ===== *)
theory RingBuffer
  imports Prelude
begin

text \<open>
  The ring buffer of packets (\<open>private/ringbuffer.cpp\<close>). The chunks of the ring are the list
  \<open>m_buffer\<close>; the pointers \<open>m_read\<close> and \<open>m_write\<close> are positions in it, and the pointer \<open>next\<close> of
  a chunk is the following position, the first one after the last. A packet owns the array
  \<open>pk_data\<close>, of which the first \<open>pk_size\<close> bytes are valid; packets are recycled through a pool.
  The operations run under the lock of the ring, so they are atomic.
\<close>

section \<open>State\<close>

record packet =
  pk_id :: u32
  pk_size :: nat
  pk_data :: bytes

definition pk_capacity :: "packet \<Rightarrow> nat" where
  "pk_capacity p = length (pk_data p)"

definition payload :: "packet \<Rightarrow> bytes" where
  "payload p = take (pk_size p) (pk_data p)"

record ringbuffer =
  m_count :: u32
  m_unread :: u32
  m_buffer :: "packet option list"
  m_read :: nat
  m_write :: nat
  m_pool :: "packet list"

definition capacity :: "ringbuffer \<Rightarrow> nat" where
  "capacity rb = length (m_buffer rb)"

definition next_chunk :: "ringbuffer \<Rightarrow> nat \<Rightarrow> nat" where
  "next_chunk rb i = (if Suc i < length (m_buffer rb) then Suc i else 0)"

definition RingBuffer_new :: "nat \<Rightarrow> ringbuffer" where
  "RingBuffer_new cap =
     \<lparr>m_count = 0, m_unread = 0, m_buffer = replicate cap None, m_read = 0, m_write = 0, m_pool = []\<rparr>"

section \<open>Operations\<close>

text \<open>The contents of a new array are not determined; \<open>junk\<close> stands for them.\<close>

definition RingBufferPacket_new :: "(nat \<Rightarrow> bytes) \<Rightarrow> nat \<Rightarrow> packet" where
  "RingBufferPacket_new junk cap =
     \<lparr>pk_id = 0, pk_size = 0, pk_data = take cap (junk cap @ replicate cap NUL)\<rparr>"

definition freePacket :: "packet \<Rightarrow> ringbuffer \<Rightarrow> ringbuffer" where
  "freePacket p rb = rb\<lparr>m_pool := m_pool rb @ [p]\<rparr>"

definition needPacket :: "(nat \<Rightarrow> bytes) \<Rightarrow> nat \<Rightarrow> ringbuffer \<Rightarrow> packet \<times> ringbuffer" where
  "needPacket junk sz rb =
     (case m_pool rb of
        [] \<Rightarrow> (RingBufferPacket_new junk sz, rb)
      | p # ps \<Rightarrow>
          (if pk_capacity p \<ge> sz then (p\<lparr>pk_id := 0\<rparr>, rb\<lparr>m_pool := ps\<rparr>)
           else (RingBufferPacket_new junk sz, rb\<lparr>m_pool := ps\<rparr>)))"

definition newPacket :: "(nat \<Rightarrow> bytes) \<Rightarrow> nat \<Rightarrow> ringbuffer \<Rightarrow> packet \<times> ringbuffer" where
  "newPacket junk len rb =
     (case needPacket junk len rb of (p, rb1) \<Rightarrow> (p\<lparr>pk_size := 0\<rparr>, rb1))"

text \<open>Storing a packet at the write position. A packet that is still there is destroyed.\<close>

definition writePacket :: "packet \<Rightarrow> ringbuffer \<Rightarrow> ringbuffer" where
  "writePacket p rb =
     (let rb1 = (case m_buffer rb ! m_write rb of
                   None \<Rightarrow> rb
                 | Some old \<Rightarrow> freePacket old (rb\<lparr>m_unread := m_unread rb - of_nat (pk_size old)\<rparr>)) in
      rb1\<lparr>m_count := m_count rb1 + 1,
          m_buffer := (m_buffer rb1)[m_write rb1 := Some (p\<lparr>pk_id := m_count rb1 + 1\<rparr>)],
          m_write := next_chunk rb1 (m_write rb1),
          m_unread := m_unread rb1 + of_nat (pk_size p)\<rparr>)"

text \<open>The \<open>memcpy\<close> into the array of a packet.\<close>

definition fill :: "bytes \<Rightarrow> packet \<Rightarrow> packet" where
  "fill d p = p\<lparr>pk_size := length d, pk_data := d @ drop (length d) (pk_data p)\<rparr>"

definition rb_write :: "(nat \<Rightarrow> bytes) \<Rightarrow> bytes \<Rightarrow> ringbuffer \<Rightarrow> int \<times> ringbuffer" where
  "rb_write junk d rb =
     (int (length d),
      if length d > 0
      then (case needPacket junk (length d) rb of (p, rb1) \<Rightarrow> writePacket (fill d p) rb1)
      else rb)"

text \<open>The loop \<open>while (m_read->packet == nullptr) m_read = m_read->next\<close>. After one round over the
  whole ring it is back where it was, so it has not found a packet in \<open>n\<close> steps, with \<open>n\<close> the
  number of chunks, exactly if it never ends; that is \<open>None\<close>.\<close>

fun skip_empty :: "nat \<Rightarrow> ringbuffer \<Rightarrow> nat \<Rightarrow> nat option" where
  "skip_empty 0 rb i = None"
| "skip_empty (Suc n) rb i =
     (case m_buffer rb ! i of Some _ \<Rightarrow> Some i | None \<Rightarrow> skip_empty n rb (next_chunk rb i))"

text \<open>\<open>None\<close> is a call that does not return.\<close>

definition rb_read :: "ringbuffer \<Rightarrow> (packet option \<times> ringbuffer) option" where
  "rb_read rb =
     (if m_unread rb = 0 then Some (None, rb)
      else case skip_empty (capacity rb) rb (m_read rb) of
             None \<Rightarrow> None
           | Some i \<Rightarrow>
               (case m_buffer rb ! i of
                  None \<Rightarrow> None
                | Some p \<Rightarrow>
                    Some (Some p, rb\<lparr>m_buffer := (m_buffer rb)[i := None], m_read := next_chunk rb i,
                                     m_unread := m_unread rb - of_nat (pk_size p)\<rparr>)))"

definition bytesAvailable :: "ringbuffer \<Rightarrow> (int \<times> ringbuffer) option" where
  "bytesAvailable rb =
     (if m_unread rb = 0 then Some (0, rb)
      else case skip_empty (capacity rb) rb (m_read rb) of
             None \<Rightarrow> None
           | Some i \<Rightarrow>
               (case m_buffer rb ! i of
                  None \<Rightarrow> None
                | Some p \<Rightarrow> Some (int (pk_size p), rb\<lparr>m_read := i\<rparr>)))"

definition bytesUnread :: "ringbuffer \<Rightarrow> u32" where
  "bytesUnread rb = m_unread rb"

definition rb_full :: "ringbuffer \<Rightarrow> bool" where
  "rb_full rb \<longleftrightarrow> m_unread rb \<noteq> 0 \<and> m_read rb = m_write rb"

fun free_chunks :: "packet option list \<Rightarrow> packet list" where
  "free_chunks [] = []"
| "free_chunks (None # cs) = free_chunks cs"
| "free_chunks (Some p # cs) = p # free_chunks cs"

definition rb_clear :: "ringbuffer \<Rightarrow> ringbuffer" where
  "rb_clear rb =
     rb\<lparr>m_pool := m_pool rb @ free_chunks (m_buffer rb),
        m_buffer := replicate (length (m_buffer rb)) None,
        m_count := 0, m_unread := 0, m_read := m_write rb\<rparr>"

section \<open>Well-formed rings\<close>

definition ring_total :: "packet option list \<Rightarrow> nat" where
  "ring_total cs = sum_list (map pk_size (free_chunks cs))"

text \<open>The packets in the ring from the read position on.\<close>

definition pending :: "ringbuffer \<Rightarrow> packet list" where
  "pending rb = free_chunks (rotate (m_read rb) (m_buffer rb))"

definition rb_wf :: "ringbuffer \<Rightarrow> bool" where
  "rb_wf rb \<longleftrightarrow> m_read rb < capacity rb \<and> m_write rb < capacity rb
     \<and> ring_total (m_buffer rb) < 2 ^ 32 \<and> m_unread rb = of_nat (ring_total (m_buffer rb))
     \<and> list_all (\<lambda>p. 0 < pk_size p) (free_chunks (m_buffer rb))"

lemma free_chunks_append [simp]: "free_chunks (xs @ ys) = free_chunks xs @ free_chunks ys"
  by (induction xs rule: free_chunks.induct) auto

lemma free_chunks_None [simp]: "free_chunks (replicate n None) = []"
  by (induction n) auto

lemma free_chunks_Some [simp]: "free_chunks (map Some ps) = ps"
  by (induction ps) auto

lemma ring_total_simps [simp]:
  "ring_total [] = 0" "ring_total (None # cs) = ring_total cs" "ring_total (Some p # cs) = pk_size p + ring_total cs"
  "ring_total (xs @ ys) = ring_total xs + ring_total ys" "ring_total (replicate n None) = 0"
  by (simp_all add: ring_total_def)

lemma ring_total_rotate [simp]: "ring_total (rotate n cs) = ring_total cs"
proof -
  have "ring_total (drop k cs @ take k cs) = ring_total (take k cs @ drop k cs)" for k
    unfolding ring_total_simps by (rule add.commute)
  then show ?thesis by (simp add: rotate_drop_take)
qed

lemma list_all_rotate: "list_all P (free_chunks (rotate n cs)) = list_all P (free_chunks cs)"
proof -
  have "list_all P (free_chunks (drop k cs @ take k cs)) = list_all P (free_chunks (take k cs @ drop k cs))" for k
    unfolding free_chunks_append list_all_append by blast
  then show ?thesis by (simp add: rotate_drop_take)
qed

lemma next_chunk_mod: "i < capacity rb \<Longrightarrow> next_chunk rb i = Suc i mod capacity rb"
  by (auto simp: next_chunk_def capacity_def mod_Suc)

lemma ring_total_0: "list_all (\<lambda>p. 0 < pk_size p) (free_chunks cs) \<Longrightarrow> ring_total cs = 0 \<longleftrightarrow> free_chunks cs = []"
  by (cases "free_chunks cs") (auto simp: ring_total_def)

section \<open>Positions in the rotated ring\<close>

lemma mod_shift_inj: "i < n \<Longrightarrow> j < n \<Longrightarrow> (r + i) mod n = (r + j) mod n \<longleftrightarrow> i = (j :: nat)"
proof (induction i j rule: linorder_wlog)
  case (le i j)
  then show ?case
    by (metis add_less_cancel_left le_add_diff_inverse mod_add_left_eq mod_eq_dvd_iff_nat add_diff_cancel_left nat_dvd_not_less
        diff_is_0_eq' leD le_less_trans diff_le_self le_add1 nat_add_left_cancel_le zero_less_diff nat_less_le)
qed auto

lemma rotate_update:
  assumes "k < length xs"
  shows "rotate r (xs[(r + k) mod length xs := x]) = (rotate r xs)[k := x]"
proof (rule nth_equalityI)
  fix i assume "i < length (rotate r (xs[(r + k) mod length xs := x]))"
  then have i: "i < length xs" by simp
  have "(r + i) mod length xs < length xs" using i by (intro mod_less_divisor) linarith
  with i assms show "rotate r (xs[(r + k) mod length xs := x]) ! i = (rotate r xs)[k := x] ! i"
    using mod_shift_inj [of i "length xs" k r]
    by (cases "i = k") (auto simp: nth_rotate nth_list_update ac_simps)
qed simp

lemma rotate_Suc_mod: "r < length xs \<Longrightarrow> rotate (Suc r mod length xs) xs = rotate1 (rotate r xs)"
  by (metis rotate_Suc rotate_conv_mod)

text \<open>The loop over the empty chunks finds the first packet of the rotated ring.\<close>

lemma skip_empty_finds:
  assumes "rotate r (m_buffer rb) = replicate i None @ Some p # cs" "r < capacity rb" "i < n"
  shows "skip_empty n rb r = Some ((r + i) mod capacity rb)"
  using assms
proof (induction i arbitrary: n r cs)
  case 0
  then obtain n' where n: "n = Suc n'" by (cases n) auto
  have "rotate r (m_buffer rb) ! 0 = m_buffer rb ! r"
    using 0 by (subst nth_rotate) (auto simp: capacity_def)
  with 0 have "m_buffer rb ! r = Some p" by simp
  with 0 n show ?case by simp
next
  case (Suc i)
  then obtain n' where n: "n = Suc n'" "i < n'" by (cases n) auto
  have "rotate r (m_buffer rb) ! 0 = m_buffer rb ! r"
    using Suc.prems by (subst nth_rotate) (auto simp: capacity_def)
  with Suc.prems have e: "m_buffer rb ! r = None" by simp
  let ?r = "Suc r mod capacity rb"
  have "rotate ?r (m_buffer rb) = rotate1 (rotate r (m_buffer rb))"
    using Suc.prems(2) by (simp add: rotate_Suc_mod capacity_def)
  then have "rotate ?r (m_buffer rb) = replicate i None @ Some p # (cs @ [None])"
    using Suc.prems(1) by simp
  moreover have "?r < capacity rb" using Suc.prems(2) by simp
  ultimately have "skip_empty n' rb ?r = Some ((?r + i) mod capacity rb)" using n(2) by (rule Suc.IH)
  with e n Suc.prems(2) show ?case by (simp add: next_chunk_mod mod_simps)
qed

lemma first_packet:
  "free_chunks cs = p # ps \<Longrightarrow> \<exists>i ds. cs = replicate i None @ Some p # ds \<and> free_chunks ds = ps"
proof (induction cs rule: free_chunks.induct)
  case (2 cs)
  then obtain i ds where "cs = replicate i None @ Some p # ds" "free_chunks ds = ps" by auto
  then show ?case by (intro exI [of _ "Suc i"] exI [of _ ds]) simp
qed (auto intro: exI [of _ 0])

text \<open>A ring that was never overwritten: from the read position on there are the packets in their
  order, then empty chunks, and the write position is behind the packets.\<close>

definition in_order :: "ringbuffer \<Rightarrow> bool" where
  "in_order rb \<longleftrightarrow>
     (let ps = pending rb; n = capacity rb in
      rotate (m_read rb) (m_buffer rb) = map Some ps @ replicate (n - length ps) None
      \<and> length ps \<le> n \<and> m_write rb = (m_read rb + length ps) mod n)"

text \<open>What a read does, in every well-formed ring: it takes the first of the pending packets.\<close>

lemma rb_read_pending:
  assumes "rb_wf rb" "pending rb = p # ps"
  shows "\<exists>rb'. rb_read rb = Some (Some p, rb') \<and> rb_wf rb' \<and> pending rb' = ps \<and> m_pool rb' = m_pool rb
    \<and> m_write rb' = m_write rb \<and> capacity rb' = capacity rb \<and> m_count rb' = m_count rb
    \<and> (in_order rb \<longrightarrow> in_order rb')"
proof -
  let ?n = "capacity rb" and ?r = "m_read rb" and ?b = "m_buffer rb"
  from assms(2) obtain i ds where ro: "rotate ?r ?b = replicate i None @ Some p # ds" "free_chunks ds = ps"
    using first_packet [of "rotate ?r ?b" p ps] by (auto simp: pending_def)
  have len: "?n = Suc (i + length ds)" using arg_cong [OF ro(1), of length] by (simp add: capacity_def)
  have r: "?r < ?n" using assms(1) by (simp add: rb_wf_def)
  let ?j = "(?r + i) mod ?n"
  have "i < ?n" using len by simp
  with ro(1) r have sk: "skip_empty ?n rb ?r = Some ?j" by (rule skip_empty_finds)
  have j: "?j < ?n" using r by simp
  have at: "?b ! ?j = Some p"
    using ro(1) len nth_rotate [of i ?b ?r] by (simp add: capacity_def nth_append ac_simps)
  have upd: "rotate ?r (?b[?j := None]) = replicate i None @ None # ds"
    using rotate_update [of i ?b ?r None] ro(1) len by (simp add: capacity_def list_update_append)
  let ?rb = "rb\<lparr>m_buffer := ?b[?j := None], m_read := next_chunk rb ?j, m_unread := m_unread rb - of_nat (pk_size p)\<rparr>"
  have e: "replicate i None @ None # ds = replicate (Suc i) None @ ds" by (simp add: replicate_app_Cons_same)
  have "rotate (Suc ?j mod ?n) (?b[?j := None]) = rotate (Suc i) (rotate ?r (?b[?j := None]))"
    unfolding rotate_rotate by (rule rotate_conv_mod [THEN trans], rule sym, rule rotate_conv_mod [THEN trans])
      (simp add: capacity_def mod_simps ac_simps)
  also have "\<dots> = ds @ replicate (Suc i) None"
    unfolding upd e by (rule rotate_append [of "replicate (Suc i) None" ds, unfolded length_replicate])
  finally have rot: "rotate (next_chunk rb ?j) (?b[?j := None]) = ds @ replicate (Suc i) None"
    using j by (simp add: next_chunk_mod)
  have tot: "ring_total ?b = pk_size p + ring_total ds"
    using ring_total_rotate [of ?r ?b] ro(1) by simp
  have tot': "ring_total (?b[?j := None]) = ring_total ds"
    using ring_total_rotate [of ?r "?b[?j := None]"] upd by simp
  have al0: "list_all (\<lambda>p. 0 < pk_size p) (free_chunks (rotate ?r ?b))"
    using assms(1) by (simp add: rb_wf_def list_all_rotate)
  then have ge: "0 < ring_total ?b" unfolding tot ro(1) by simp
  have nz: "m_unread rb \<noteq> 0"
    using assms(1) ge by (simp add: rb_wf_def word_unat_eq_iff unsigned_of_nat take_bit_nat_eq_self)
  have "list_all (\<lambda>p. 0 < pk_size p) (free_chunks ds)"
    using al0 unfolding ro(1) by simp
  then have al: "list_all (\<lambda>p. 0 < pk_size p) (free_chunks (?b[?j := None]))"
    using list_all_rotate [of "\<lambda>p. 0 < pk_size p" ?r "?b[?j := None]"] upd by simp
  have nx: "next_chunk rb ?j < ?n" using j by (auto simp: next_chunk_def capacity_def)
  have "rb_wf ?rb" using assms(1) tot tot' al nx by (simp add: rb_wf_def capacity_def)
  moreover have "pending ?rb = ps" using rot ro(2) by (simp add: pending_def)
  moreover have "rb_read rb = Some (Some p, ?rb)" using nz sk at by (simp add: rb_read_def)
  moreover have "in_order ?rb" if "in_order rb"
  proof -
    let ?k = "length ps"
    have o: "replicate i None @ Some p # ds = Some p # map Some ps @ replicate (?n - Suc ?k) None" "Suc ?k \<le> ?n"
      "m_write rb = (?r + Suc ?k) mod ?n"
      using that assms(2) ro(1) by (simp_all add: in_order_def Let_def)
    then have i: "i = 0" by (cases i) auto
    with o have ds: "ds = map Some ps @ replicate (?n - Suc ?k) None" by simp
    have "replicate (?n - Suc ?k) None @ [None] = replicate (?n - ?k) None"
      using o(2) by (metis Suc_diff_le diff_Suc_Suc replicate_Suc replicate_append_same)
    then have "rotate (next_chunk rb ?j) (?b[?j := None]) = map Some ps @ replicate (?n - ?k) None"
      unfolding rot by (simp add: ds i)
    moreover have "m_write rb = (next_chunk rb ?j + ?k) mod ?n"
      using o(3) r i by (simp add: next_chunk_mod mod_simps)
    ultimately show ?thesis using o(2) \<open>pending ?rb = ps\<close> by (simp add: in_order_def Let_def capacity_def)
  qed
  ultimately show ?thesis by (intro exI [of _ ?rb]) (simp add: capacity_def)
qed

lemma rb_read_none: "rb_wf rb \<Longrightarrow> pending rb = [] \<Longrightarrow> rb_read rb = Some (None, rb)"
  using ring_total_0 [of "rotate (m_read rb) (m_buffer rb)"] list_all_rotate [of _ "m_read rb" "m_buffer rb"]
  by (auto simp: rb_read_def rb_wf_def pending_def)

section \<open>Writing\<close>

lemma writePacket_wf:
  assumes "rb_wf rb" "0 < pk_size p" "ring_total (m_buffer rb) + pk_size p < 2 ^ 32"
  shows "rb_wf (writePacket p rb)"
proof -
  let ?n = "capacity rb" and ?w = "m_write rb" and ?b = "m_buffer rb"
  let ?q = "p\<lparr>pk_id := m_count rb + 1\<rparr>"
  have w: "?w < length ?b" using assms(1) by (simp add: rb_wf_def capacity_def)
  have b: "?b = take ?w ?b @ ?b ! ?w # drop (Suc ?w) ?b" using w by (rule id_take_nth_drop)
  have b': "?b[?w := Some ?q] = take ?w ?b @ Some ?q # drop (Suc ?w) ?b" using w by (rule upd_conv_take_nth_drop)
  have t: "ring_total ?b = ring_total (take ?w ?b) + ring_total [?b ! ?w] + ring_total (drop (Suc ?w) ?b)"
    by (subst b) (cases "?b ! ?w"; simp)
  have t': "ring_total (?b[?w := Some ?q]) = ring_total (take ?w ?b) + pk_size p + ring_total (drop (Suc ?w) ?b)"
    unfolding b' by simp
  have "list_all (\<lambda>p. 0 < pk_size p) (free_chunks (take ?w ?b @ ?b ! ?w # drop (Suc ?w) ?b))"
    using assms(1) b by (simp add: rb_wf_def)
  then have al: "list_all (\<lambda>p. 0 < pk_size p) (free_chunks (?b[?w := Some ?q]))"
    unfolding b' using assms(2) by (cases "?b ! ?w") auto
  have f: "m_buffer (writePacket p rb) = ?b[?w := Some ?q]" "m_write (writePacket p rb) = next_chunk rb ?w"
    "m_read (writePacket p rb) = m_read rb"
    "m_unread (writePacket p rb) = m_unread rb - of_nat (ring_total [?b ! ?w]) + of_nat (pk_size p)"
    by (cases "?b ! ?w"; simp add: writePacket_def freePacket_def next_chunk_def)+
  have "next_chunk rb ?w < ?n" using w by (auto simp: next_chunk_def capacity_def)
  moreover have "m_unread (writePacket p rb) = of_nat (ring_total (?b[?w := Some ?q]))"
    using assms(1) t t' f(4) by (simp add: rb_wf_def)
  ultimately show ?thesis using assms t t' al f by (simp add: rb_wf_def capacity_def)
qed

lemma writePacket_appends:
  assumes "rb_wf rb" "in_order rb" "length (pending rb) < capacity rb"
  shows "in_order (writePacket p rb) \<and> pending (writePacket p rb) = pending rb @ [p\<lparr>pk_id := m_count rb + 1\<rparr>]
    \<and> m_pool (writePacket p rb) = m_pool rb \<and> capacity (writePacket p rb) = capacity rb"
proof -
  let ?n = "capacity rb" and ?r = "m_read rb" and ?b = "m_buffer rb" and ?ps = "pending rb"
  let ?k = "length ?ps" and ?q = "p\<lparr>pk_id := m_count rb + 1\<rparr>"
  have o: "rotate ?r ?b = map Some ?ps @ replicate (?n - ?k) None" "m_write rb = (?r + ?k) mod ?n"
    using assms(2) by (simp_all add: in_order_def Let_def)
  have k: "?k < length ?b" using assms(3) by (simp add: capacity_def)
  have "?b ! m_write rb = rotate ?r ?b ! ?k"
    using nth_rotate [OF k, of ?r] o(2) by (simp add: capacity_def ac_simps)
  also have "\<dots> = None" using assms(3) by (simp add: o(1) nth_append)
  finally have e: "?b ! m_write rb = None" .
  have f: "m_buffer (writePacket p rb) = ?b[m_write rb := Some ?q]" "m_write (writePacket p rb) = next_chunk rb (m_write rb)"
    "m_read (writePacket p rb) = ?r" "m_pool (writePacket p rb) = m_pool rb"
    using e by (simp_all add: writePacket_def)
  obtain d where d: "?n - ?k = Suc d" using assms(3) by (metis Suc_diff_Suc)
  have "rotate ?r (?b[m_write rb := Some ?q]) = (rotate ?r ?b)[?k := Some ?q]"
    using rotate_update [OF k, of ?r "Some ?q"] o(2) by (simp add: capacity_def)
  also have "\<dots> = map Some (?ps @ [?q]) @ replicate d None"
    unfolding o(1) d by (simp add: list_update_append)
  finally have rot: "rotate ?r (?b[m_write rb := Some ?q]) = map Some (?ps @ [?q]) @ replicate d None" .
  then have pend: "pending (writePacket p rb) = ?ps @ [?q]"
    using f(1,3) by (simp add: pending_def)
  have c: "capacity (writePacket p rb) = ?n" by (simp add: capacity_def f(1))
  have "next_chunk rb (m_write rb) = (?r + Suc ?k) mod ?n"
    using assms(1) o(2) by (simp add: next_chunk_mod rb_wf_def mod_simps)
  moreover have "?n - length (?ps @ [?q]) = d" using d by simp
  ultimately have "in_order (writePacket p rb)"
    unfolding in_order_def pend c f Let_def using rot assms(3) by simp
  with pend c f(4) show ?thesis by blast
qed

section \<open>The interface of a bounded queue\<close>

datatype 'a qop = QPut 'a | QGet

text \<open>Running a sequence of puts and gets, with the results of the gets; and what a queue does.\<close>

fun q_run :: "('a \<Rightarrow> 's \<Rightarrow> 's) \<Rightarrow> ('s \<Rightarrow> ('a option \<times> 's) option) \<Rightarrow> 'a qop list \<Rightarrow> 's
    \<Rightarrow> ('a option list \<times> 's) option" where
  "q_run put_op get_op [] s = Some ([], s)"
| "q_run put_op get_op (QPut x # ops) s = q_run put_op get_op ops (put_op x s)"
| "q_run put_op get_op (QGet # ops) s =
     (case get_op s of
        None \<Rightarrow> None
      | Some (x, s1) \<Rightarrow> map_option (\<lambda>(xs, s2). (x # xs, s2)) (q_run put_op get_op ops s1))"

fun q_spec :: "'a qop list \<Rightarrow> 'a list \<Rightarrow> 'a option list \<times> 'a list" where
  "q_spec [] xs = ([], xs)"
| "q_spec (QPut x # ops) xs = q_spec ops (xs @ [x])"
| "q_spec (QGet # ops) xs =
     (case q_spec ops (tl xs) of (ys, zs) \<Rightarrow> ((if xs = [] then None else Some (hd xs)) # ys, zs))"

fun q_fits :: "('a list \<Rightarrow> 'a \<Rightarrow> bool) \<Rightarrow> 'a qop list \<Rightarrow> 'a list \<Rightarrow> bool" where
  "q_fits fits [] xs = True"
| "q_fits fits (QPut x # ops) xs = (fits xs x \<and> q_fits fits ops (xs @ [x]))"
| "q_fits fits (QGet # ops) xs = q_fits fits ops (tl xs)"

locale bounded_queue =
  fixes inv :: "'s \<Rightarrow> bool"
    and items :: "'s \<Rightarrow> 'a list"
    and fits :: "'a list \<Rightarrow> 'a \<Rightarrow> bool"
    and put_op :: "'a \<Rightarrow> 's \<Rightarrow> 's"
    and get_op :: "'s \<Rightarrow> ('a option \<times> 's) option"
  assumes put_law: "inv s \<Longrightarrow> fits (items s) x \<Longrightarrow> inv (put_op x s) \<and> items (put_op x s) = items s @ [x]"
    and get_law: "inv s \<Longrightarrow> \<exists>s'. get_op s = Some (if items s = [] then None else Some (hd (items s)), s')
      \<and> inv s' \<and> items s' = tl (items s)"
begin

lemma run_refines:
  "inv s \<Longrightarrow> q_fits fits ops (items s) \<Longrightarrow>
     \<exists>s'. q_run put_op get_op ops s = Some (fst (q_spec ops (items s)), s')
       \<and> inv s' \<and> items s' = snd (q_spec ops (items s))"
proof (induction ops arbitrary: s)
  case (Cons op ops)
  show ?case
  proof (cases op)
    case (QPut x)
    with Cons.prems Cons.IH [of "put_op x s"] put_law [of s x] show ?thesis by simp
  next
    case QGet
    from get_law [OF Cons.prems(1)] obtain s1 where
      1: "get_op s = Some (if items s = [] then None else Some (hd (items s)), s1)" "inv s1" "items s1 = tl (items s)"
      by blast
    with Cons.prems(2) QGet have "q_fits fits ops (items s1)" by simp
    from Cons.IH [OF 1(2) this] 1 QGet show ?thesis by (auto split: prod.splits)
  qed
qed simp

end

section \<open>The ring is a bounded queue until it is overwritten\<close>

definition ring_items :: "ringbuffer \<Rightarrow> bytes list" where
  "ring_items rb = map payload (pending rb)"

definition ring_inv :: "nat \<Rightarrow> ringbuffer \<Rightarrow> bool" where
  "ring_inv cap rb \<longleftrightarrow> rb_wf rb \<and> in_order rb \<and> capacity rb = cap
     \<and> list_all (\<lambda>p. pk_size p \<le> pk_capacity p) (pending rb)"

definition ring_fits :: "nat \<Rightarrow> bytes list \<Rightarrow> bytes \<Rightarrow> bool" where
  "ring_fits cap xs d \<longleftrightarrow> d \<noteq> [] \<and> length xs < cap \<and> sum_list (map length xs) + length d < 2 ^ 32"

text \<open>A reader takes a packet, uses its bytes and gives the packet back.\<close>

definition ring_get :: "ringbuffer \<Rightarrow> (bytes option \<times> ringbuffer) option" where
  "ring_get rb =
     (case rb_read rb of
        None \<Rightarrow> None
      | Some (None, rb1) \<Rightarrow> Some (None, rb1)
      | Some (Some p, rb1) \<Rightarrow> Some (Some (payload p), freePacket p rb1))"

lemma pool_irrelevant [simp]:
  "rb_wf (rb\<lparr>m_pool := x\<rparr>) = rb_wf rb" "pending (rb\<lparr>m_pool := x\<rparr>) = pending rb"
  "in_order (rb\<lparr>m_pool := x\<rparr>) = in_order rb" "capacity (rb\<lparr>m_pool := x\<rparr>) = capacity rb"
  "ring_inv cap (rb\<lparr>m_pool := x\<rparr>) = ring_inv cap rb"
  by (simp_all add: rb_wf_def pending_def in_order_def capacity_def ring_inv_def Let_def)

lemma needPacket_spec:
  "needPacket junk sz rb = (p, rb1) \<Longrightarrow> (\<exists>pool. rb1 = rb\<lparr>m_pool := pool\<rparr>) \<and> sz \<le> pk_capacity p"
  by (auto simp: needPacket_def RingBufferPacket_new_def pk_capacity_def split: list.splits if_splits
      intro: exI [of _ "m_pool rb"])

lemma payload_fill [simp]:
  "payload (fill d p) = d" "pk_size (fill d p) = length d" "payload (p\<lparr>pk_id := i\<rparr>) = payload p"
  "length d \<le> pk_capacity (fill d p)"
  by (simp_all add: payload_def fill_def pk_capacity_def)

lemma ring_total_pending: "ring_total (m_buffer rb) = sum_list (map pk_size (pending rb))"
  using ring_total_rotate [of "m_read rb" "m_buffer rb"] by (simp add: pending_def ring_total_def)

lemma sizes_items: "ring_inv cap rb \<Longrightarrow> map pk_size (pending rb) = map length (ring_items rb)"
  by (auto simp: ring_inv_def ring_items_def payload_def pk_capacity_def list_all_iff)

interpretation ring: bounded_queue "ring_inv cap" ring_items "ring_fits cap" "\<lambda>d rb. snd (rb_write junk d rb)" ring_get
  for cap junk
proof unfold_locales
  fix rb d
  assume i: "ring_inv cap rb" and f: "ring_fits cap (ring_items rb) d"
  obtain p rb1 where n: "needPacket junk (length d) rb = (p, rb1)" by force
  from needPacket_spec [OF n] obtain pool where rb1: "rb1 = rb\<lparr>m_pool := pool\<rparr>" by blast
  have i1: "ring_inv cap rb1" "ring_items rb1 = ring_items rb" using i by (simp_all add: rb1 ring_items_def)
  have w: "snd (rb_write junk d rb) = writePacket (fill d p) rb1" using n f by (simp add: rb_write_def ring_fits_def)
  have "ring_total (m_buffer rb1) + length d < 2 ^ 32"
    using f i1 sizes_items [OF i1(1)] by (simp add: ring_total_pending ring_fits_def)
  then have "rb_wf (writePacket (fill d p) rb1)"
    using writePacket_wf [of rb1 "fill d p"] i1 f by (simp add: ring_inv_def ring_fits_def)
  moreover have "length (pending rb1) < capacity rb1"
    using f i by (simp add: rb1 ring_fits_def ring_inv_def ring_items_def)
  note a = writePacket_appends [of rb1 "fill d p", OF _ _ this]
  have "pk_size (fill d p\<lparr>pk_id := m_count rb1 + 1\<rparr>) \<le> pk_capacity (fill d p\<lparr>pk_id := m_count rb1 + 1\<rparr>)"
    by (simp add: pk_capacity_def fill_def)
  ultimately show "ring_inv cap (snd (rb_write junk d rb)) \<and> ring_items (snd (rb_write junk d rb)) = ring_items rb @ [d]"
    using a i1 w by (simp add: ring_inv_def ring_items_def)
next
  fix rb
  assume i: "ring_inv cap rb"
  then have wf: "rb_wf rb" by (simp add: ring_inv_def)
  show "\<exists>s'. ring_get rb = Some (if ring_items rb = [] then None else Some (hd (ring_items rb)), s')
      \<and> ring_inv cap s' \<and> ring_items s' = tl (ring_items rb)"
  proof (cases "pending rb")
    case Nil
    with rb_read_none [OF wf] i show ?thesis by (simp add: ring_get_def ring_items_def)
  next
    case (Cons p ps)
    from rb_read_pending [OF wf Cons] obtain rb' where
      r: "rb_read rb = Some (Some p, rb')" "rb_wf rb'" "pending rb' = ps" "capacity rb' = capacity rb"
        "in_order rb \<longrightarrow> in_order rb'" by blast
    with i Cons show ?thesis by (simp add: ring_get_def ring_items_def freePacket_def ring_inv_def)
  qed
qed

lemma ring_inv_new: "0 < cap \<Longrightarrow> ring_inv cap (RingBuffer_new cap) \<and> ring_items (RingBuffer_new cap) = []"
  by (simp add: ring_inv_def RingBuffer_new_def rb_wf_def capacity_def in_order_def pending_def ring_items_def)

text \<open>C21: The ring buffer implements a bounded first-in first-out queue. Starting with a new ring,
  any sequence of writes and reads in which no write comes while the ring is full returns exactly
  what a queue returns: each read the oldest unread packet with its bytes, or nothing when all are
  read. Every call returns, although packets are recycled with other contents in between.\<close>

theorem ring_buffer_is_queue:
  assumes "0 < cap" "q_fits (ring_fits cap) ops []"
  shows "\<exists>rb. q_run (\<lambda>d rb. snd (rb_write junk d rb)) ring_get ops (RingBuffer_new cap)
      = Some (fst (q_spec ops []), rb) \<and> ring_items rb = snd (q_spec ops [])"
  using ring.run_refines [of cap "RingBuffer_new cap" ops junk] ring_inv_new [OF assms(1)] assms(2) by auto

theorem ring_buffer_is_queue_witness:
  "\<exists>rb. q_run (\<lambda>d rb. snd (rb_write (\<lambda>_. []) d rb)) ring_get [QPut ''ab'', QPut ''c'', QGet, QPut ''def'', QGet, QGet, QGet]
     (RingBuffer_new 2) = Some ([Some ''ab'', Some ''c'', Some ''def'', None], rb)"
  using ring_buffer_is_queue [of 2 "[QPut ''ab'', QPut ''c'', QGet, QPut ''def'', QGet, QGet, QGet]" "\<lambda>_. []"]
  by (auto simp: ring_fits_def)

text \<open>C35: In every well-formed ring, also after packets were overwritten, a read returns: the first
  pending packet and a well-formed ring without it, or nothing exactly if no byte is unread. The
  counter of unread bytes is the sum of the sizes of the packets in the ring, before and after a
  write too, as long as it does not exceed 32 bits.\<close>

theorem ring_buffer_reads:
  assumes "rb_wf rb"
  shows "(pending rb = [] \<longrightarrow> bytesUnread rb = 0 \<and> rb_read rb = Some (None, rb))
    \<and> (pending rb \<noteq> [] \<longrightarrow> (\<exists>rb'. rb_read rb = Some (Some (hd (pending rb)), rb') \<and> rb_wf rb'
         \<and> pending rb' = tl (pending rb) \<and> bytesUnread rb' = of_nat (sum_list (map pk_size (tl (pending rb))))))
    \<and> (0 < pk_size p \<and> ring_total (m_buffer rb) + pk_size p < 2 ^ 32 \<longrightarrow> rb_wf (writePacket p rb))"
proof (intro conjI impI)
  assume e: "pending rb = []"
  with assms ring_total_pending [of rb] show "bytesUnread rb = 0" by (simp add: bytesUnread_def rb_wf_def)
  from rb_read_none [OF assms e] show "rb_read rb = Some (None, rb)" .
next
  assume "pending rb \<noteq> []"
  then obtain p ps where c: "pending rb = p # ps" by (cases "pending rb") auto
  from rb_read_pending [OF assms c] obtain rb' where
    r: "rb_read rb = Some (Some p, rb')" "rb_wf rb'" "pending rb' = ps" by blast
  then have "bytesUnread rb' = of_nat (sum_list (map pk_size ps))"
    using ring_total_pending [of rb'] by (simp add: bytesUnread_def rb_wf_def)
  with r c show "\<exists>rb'. rb_read rb = Some (Some (hd (pending rb)), rb') \<and> rb_wf rb'
         \<and> pending rb' = tl (pending rb) \<and> bytesUnread rb' = of_nat (sum_list (map pk_size (tl (pending rb))))"
    by auto
next
  assume "0 < pk_size p \<and> ring_total (m_buffer rb) + pk_size p < 2 ^ 32"
  with assms show "rb_wf (writePacket p rb)" by (simp add: writePacket_wf)
qed

theorem ring_buffer_reads_witness:
  "let rb = snd (rb_write (\<lambda>_. []) ''abc'' (RingBuffer_new 2))
   in bytesUnread rb = 3 \<and> (\<exists>p rb'. rb_read rb = Some (Some p, rb') \<and> bytesUnread rb' = 0)"
proof -
  let ?rb = "snd (rb_write (\<lambda>_. []) ''abc'' (RingBuffer_new 2))"
  have rb2: "replicate 2 None = [None, None]" by (simp add: numeral_2_eq_2)
  have w: "rb_wf ?rb \<and> pending ?rb \<noteq> [] \<and> tl (pending ?rb) = [] \<and> bytesUnread ?rb = 3"
    by (simp add: rb_write_def RingBuffer_new_def needPacket_def RingBufferPacket_new_def writePacket_def fill_def
        rb_wf_def capacity_def next_chunk_def pending_def bytesUnread_def rb2)
  with ring_buffer_reads [of ?rb "fill [] (RingBufferPacket_new (\<lambda>_. []) 0)"] show ?thesis by fastforce
qed

text \<open>Overwriting breaks the order. With a full ring the next write destroys the oldest packet,
  and the read position stays on the chunk that now holds the newest one: it is read first, before
  the older ones; and the ring does not report to be full.\<close>

theorem ring_buffer_overwrite_order:
  "\<exists>rb. q_run (\<lambda>d rb. snd (rb_write junk d rb)) ring_get [QPut ''a'', QPut ''b'', QPut ''c'', QGet, QGet, QGet]
       (RingBuffer_new 2) = Some ([Some ''c'', Some ''b'', None], rb)
   \<and> rb_full (snd (rb_write junk ''b'' (snd (rb_write junk ''a'' (RingBuffer_new 2)))))
   \<and> \<not> rb_full (snd (rb_write junk ''c'' (snd (rb_write junk ''b'' (snd (rb_write junk ''a'' (RingBuffer_new 2)))))))"
  by (simp add: rb_write_def RingBuffer_new_def needPacket_def RingBufferPacket_new_def writePacket_def fill_def
      next_chunk_def ring_get_def rb_read_def freePacket_def capacity_def payload_def rb_full_def numeral_2_eq_2)

end
