(* ===== verification/Latch.thy ===== *)
theory Latch
  imports Prelude
begin

text \<open>
  The read-write latch that guards every connection (\<open>private/os/threads/latch.cpp\<close>). Each part of
  a method between \<open>spin_lock\<close> and \<open>spin_unlock\<close> runs alone, so it is one atomic step, a function
  on the state; a method that waits on a condition leaves the thread in a waiting state, from
  which it may run on at any time: every wait has a timeout, so a thread can wake up without
  having been signalled, and the code tests its condition again.

  Threads are numbers other than 0, the value of \<open>x_owner\<close> without owner. The nodes of the shared
  locks are the list \<open>s_nodes\<close> of threads and counts; the list of freed nodes only saves
  allocations and is left out.
\<close>

section \<open>State and atomic steps\<close>

record latch =
  x_owner :: nat
  x_wait :: int
  x_flag :: int
  px :: bool
  s_nodes :: "(nat \<times> int) list"

text \<open>Where a thread is: outside of the latch, waiting for X in \<open>lock\<close>, waiting there for the
  release of S, or waiting in \<open>lock_shared\<close>. The local \<open>n\<close>, looked up before the wait, is kept as
  whether it is a node of the thread.\<close>

datatype pc = Running | WaitX | WaitS bool | WaitShared bool

definition Latch_new :: "bool \<Rightarrow> latch" where
  "Latch_new p = \<lparr>x_owner = 0, x_wait = 0, x_flag = 0, px = p, s_nodes = []\<rparr>"

definition find_node :: "nat \<Rightarrow> latch \<Rightarrow> int option" where
  "find_node tid l = map_of (s_nodes l) tid"

definition new_node :: "nat \<Rightarrow> latch \<Rightarrow> latch" where
  "new_node tid l = l\<lparr>s_nodes := (tid, 0) # s_nodes l\<rparr>"

definition free_node :: "nat \<Rightarrow> latch \<Rightarrow> latch" where
  "free_node tid l = l\<lparr>s_nodes := filter (\<lambda>(t, _). t \<noteq> tid) (s_nodes l)\<rparr>"

definition set_count :: "nat \<Rightarrow> int \<Rightarrow> latch \<Rightarrow> latch" where
  "set_count tid k l = l\<lparr>s_nodes := map (\<lambda>(t, c). if t = tid then (t, k) else (t, c)) (s_nodes l)\<rparr>"

text \<open>The second loop of \<open>lock\<close>: X is asked for, the shared locks of others have to go.\<close>

definition check_s :: "nat \<Rightarrow> bool \<Rightarrow> latch \<Rightarrow> latch \<times> pc" where
  "check_s tid n l =
     (if s_nodes l = [] \<or> n \<and> map fst (s_nodes l) = [tid]
      then (l\<lparr>x_flag := 3, x_owner := tid\<rparr>, Running)
      else (l, WaitS n))"

text \<open>The first loop of \<open>lock\<close>.\<close>

definition check_x :: "nat \<Rightarrow> latch \<Rightarrow> latch \<times> pc" where
  "check_x tid l =
     (if x_flag l = 0 \<or> x_flag l = 2
      then (let l1 = l\<lparr>x_flag := 1, x_wait := x_wait l - 1\<rparr>
            in check_s tid (find_node tid l1 \<noteq> None) l1)
      else (l, WaitX))"

definition latch_lock :: "nat \<Rightarrow> latch \<Rightarrow> latch \<times> pc" where
  "latch_lock tid l =
     (if x_owner l \<noteq> tid then check_x tid (l\<lparr>x_wait := x_wait l + 1\<rparr>)
      else (l\<lparr>x_flag := x_flag l + 1\<rparr>, Running))"

definition resume_s :: "nat \<Rightarrow> bool \<Rightarrow> latch \<Rightarrow> latch \<times> pc" where
  "resume_s tid n l =
     (if x_flag l = 3 then (l\<lparr>x_owner := tid\<rparr>, Running) else check_s tid n l)"

definition latch_unlock :: "nat \<Rightarrow> latch \<Rightarrow> latch" where
  "latch_unlock tid l =
     (if x_owner l = tid
      then (let l1 = l\<lparr>x_flag := x_flag l - 1\<rparr> in
            if x_flag l1 = 2
            then (let l2 = l1\<lparr>x_owner := 0\<rparr> in if x_wait l2 = 0 then l2\<lparr>x_flag := 0\<rparr> else l2)
            else l1)
      else l)"

text \<open>The end of \<open>lock_shared\<close>.\<close>

definition grant_shared :: "nat \<Rightarrow> bool \<Rightarrow> latch \<Rightarrow> latch" where
  "grant_shared tid n l =
     (let l1 = (if n then l else new_node tid l)
      in set_count tid (the (find_node tid l1) + 1) l1)"

definition check_shared :: "nat \<Rightarrow> bool \<Rightarrow> latch \<Rightarrow> latch \<times> pc" where
  "check_shared tid n l =
     (if (if px l then x_flag l = 0 \<or> x_flag l = 1 \<and> n else x_flag l < 2)
      then (grant_shared tid n l, Running)
      else (l, WaitShared n))"

definition latch_lock_shared :: "nat \<Rightarrow> latch \<Rightarrow> latch \<times> pc" where
  "latch_lock_shared tid l =
     (let n = (find_node tid l \<noteq> None) in
      if x_owner l \<noteq> tid then check_shared tid n l else (grant_shared tid n l, Running))"

text \<open>\<open>None\<close> is the failed assertion.\<close>

definition latch_unlock_shared :: "nat \<Rightarrow> latch \<Rightarrow> latch option" where
  "latch_unlock_shared tid l =
     (case find_node tid l of
        None \<Rightarrow> None
      | Some c \<Rightarrow>
          Some (if c - 1 = 0
                then (let l1 = free_node tid l in
                      if x_flag l1 = 1 \<and> x_owner l1 \<noteq> tid
                      then (if s_nodes l1 = [] then l1\<lparr>x_flag := 3\<rparr> else l1)
                      else l1)
                else set_count tid (c - 1) l))"

definition try_lock_shared :: "nat \<Rightarrow> latch \<Rightarrow> bool \<times> latch" where
  "try_lock_shared tid l =
     (if x_flag l = 0 \<or> x_owner l = tid
      then (True, grant_shared tid (find_node tid l \<noteq> None) l)
      else (False, l))"

section \<open>Interleavings\<close>

type_synonym threads = "nat \<Rightarrow> pc"

text \<open>Any thread may call a method or wake up at any time.\<close>

inductive latch_step :: "latch \<times> threads \<Rightarrow> nat \<Rightarrow> latch \<times> threads \<Rightarrow> bool" where
  step_lock: "t \<noteq> 0 \<Longrightarrow> T t = Running \<Longrightarrow> latch_lock t l = (l', q) \<Longrightarrow> latch_step (l, T) t (l', T(t := q))"
| step_x: "T t = WaitX \<Longrightarrow> check_x t l = (l', q) \<Longrightarrow> latch_step (l, T) t (l', T(t := q))"
| step_s: "T t = WaitS n \<Longrightarrow> resume_s t n l = (l', q) \<Longrightarrow> latch_step (l, T) t (l', T(t := q))"
| step_unlock: "t \<noteq> 0 \<Longrightarrow> T t = Running \<Longrightarrow> latch_step (l, T) t (latch_unlock t l, T)"
| step_lock_shared: "t \<noteq> 0 \<Longrightarrow> T t = Running \<Longrightarrow> latch_lock_shared t l = (l', q) \<Longrightarrow>
    latch_step (l, T) t (l', T(t := q))"
| step_shared: "T t = WaitShared n \<Longrightarrow> check_shared t n l = (l', q) \<Longrightarrow> latch_step (l, T) t (l', T(t := q))"
| step_unlock_shared: "t \<noteq> 0 \<Longrightarrow> T t = Running \<Longrightarrow> latch_unlock_shared t l = Some l' \<Longrightarrow>
    latch_step (l, T) t (l', T)"
| step_try: "t \<noteq> 0 \<Longrightarrow> T t = Running \<Longrightarrow> try_lock_shared t l = (b, l') \<Longrightarrow> latch_step (l, T) t (l', T)"

inductive latch_reachable :: "bool \<Rightarrow> latch \<times> threads \<Rightarrow> bool" for p where
  reach_new: "latch_reachable p (Latch_new p, \<lambda>_. Running)"
| reach_step: "latch_reachable p s \<Longrightarrow> latch_step s t s' \<Longrightarrow> latch_reachable p s'"

inductive_cases latch_stepE: "latch_step (l, T) t (l', T')"

section \<open>The invariant\<close>

definition waiters_x :: "threads \<Rightarrow> nat set" where
  "waiters_x T = {t. T t = WaitX}"

definition waiters_s :: "threads \<Rightarrow> nat set" where
  "waiters_s T = {t. \<exists>n. T t = WaitS n}"

definition holders :: "latch \<Rightarrow> nat set" where
  "holders l = fst ` set (s_nodes l)"

text \<open>The meaning of the flag: 0 and 2, no owner and no thread waiting for the release of S; 1, no
  owner and one thread waiting for the release of S; 3 and more, held by a thread that is the
  only one with a shared lock, or handed over to the thread that waits for the release of S.\<close>

definition flag_ok :: "latch \<Rightarrow> threads \<Rightarrow> bool" where
  "flag_ok l T \<longleftrightarrow>
     0 \<le> x_flag l
     \<and> (x_flag l = 0 \<or> x_flag l = 2 \<longrightarrow> x_owner l = 0 \<and> waiters_s T = {})
     \<and> (x_flag l = 1 \<longrightarrow> x_owner l = 0 \<and> (\<exists>t. waiters_s T = {t}))
     \<and> (3 \<le> x_flag l \<and> x_owner l \<noteq> 0 \<longrightarrow>
          waiters_s T = {} \<and> holders l \<subseteq> {x_owner l} \<and> T (x_owner l) = Running)
     \<and> (3 \<le> x_flag l \<and> x_owner l = 0 \<longrightarrow>
          x_flag l = 3 \<and> holders l = {} \<and> (\<exists>t. waiters_s T = {t}))
     \<and> (x_flag l = 2 \<longrightarrow> 0 < x_wait l)"

definition nodes_ok :: "latch \<Rightarrow> bool" where
  "nodes_ok l \<longleftrightarrow> distinct (map fst (s_nodes l)) \<and> 0 \<notin> holders l \<and> (\<forall>c \<in> snd ` set (s_nodes l). 0 < c)"

text \<open>What a waiting thread knows of its node stays true.\<close>

definition locals_ok :: "latch \<Rightarrow> threads \<Rightarrow> bool" where
  "locals_ok l T \<longleftrightarrow> (\<forall>t n. T t = WaitS n \<or> T t = WaitShared n \<longrightarrow> n = (t \<in> holders l))"

definition latch_inv :: "latch \<times> threads \<Rightarrow> bool" where
  "latch_inv s \<longleftrightarrow>
     (case s of (l, T) \<Rightarrow> flag_ok l T \<and> nodes_ok l \<and> locals_ok l T \<and> T 0 = Running
        \<and> finite (waiters_x T) \<and> x_wait l = int (card (waiters_x T)))"

lemma waiters_x_upd [simp]:
  "waiters_x (T(t := q)) = (if q = WaitX then insert t (waiters_x T) else waiters_x T - {t})"
  by (auto simp: waiters_x_def)

lemma waiters_s_upd [simp]:
  "waiters_s (T(t := q)) = (case q of WaitS n \<Rightarrow> insert t (waiters_s T) | _ \<Rightarrow> waiters_s T - {t})"
  by (auto simp: waiters_s_def split: pc.splits)

lemma waiters_mem:
  "T t = Running \<Longrightarrow> t \<notin> waiters_x T \<and> t \<notin> waiters_s T"
  "T t = WaitX \<Longrightarrow> t \<in> waiters_x T \<and> t \<notin> waiters_s T"
  "T t = WaitS n \<Longrightarrow> t \<notin> waiters_x T \<and> t \<in> waiters_s T"
  "T t = WaitShared n \<Longrightarrow> t \<notin> waiters_x T \<and> t \<notin> waiters_s T"
  by (auto simp: waiters_x_def waiters_s_def)

lemma find_node_holders [simp]: "find_node t l = None \<longleftrightarrow> t \<notin> holders l"
  by (simp add: find_node_def holders_def map_of_eq_None_iff)

lemma holders_upd [simp]:
  "holders (x_flag_update f l) = holders l" "holders (x_owner_update g l) = holders l"
  "holders (x_wait_update h l) = holders l"
  by (simp_all add: holders_def)

lemma nodes_ok_upd [simp]:
  "nodes_ok (x_flag_update f l) = nodes_ok l" "nodes_ok (x_owner_update g l) = nodes_ok l"
  "nodes_ok (x_wait_update h l) = nodes_ok l"
  by (simp_all add: nodes_ok_def)

lemma holders_empty: "s_nodes l = [] \<longleftrightarrow> holders l = {}"
  by (simp add: holders_def)

lemma holders_single: "nodes_ok l \<Longrightarrow> map fst (s_nodes l) = [t] \<longleftrightarrow> holders l = {t}"
  unfolding nodes_ok_def holders_def
  by (metis distinct.simps(2) distinct_singleton empty_set list.simps(15) set_empty set_map
      list.exhaust list.set_intros(1,2) singletonD)

lemma set_count_fst: "map fst (s_nodes (set_count t k l)) = map fst (s_nodes l)"
  by (auto simp: set_count_def)

lemma set_count_simps [simp]:
  "x_flag (set_count t k l) = x_flag l" "x_owner (set_count t k l) = x_owner l"
  "x_wait (set_count t k l) = x_wait l" "px (set_count t k l) = px l"
  by (simp_all add: set_count_def)

lemma holders_set_count [simp]: "holders (set_count t k l) = holders l"
  using arg_cong [OF set_count_fst, of set t k l] by (simp only: holders_def set_map)

lemma set_count_ok: "nodes_ok l \<Longrightarrow> 0 < k \<Longrightarrow> nodes_ok (set_count t k l)"
proof -
  assume a: "nodes_ok l" "0 < k"
  have "\<forall>c \<in> snd ` set (s_nodes (set_count t k l)). 0 < c"
    using a by (auto simp: nodes_ok_def set_count_def)
  with a show ?thesis by (simp add: nodes_ok_def set_count_fst)
qed

lemma free_node_simps [simp]:
  "x_flag (free_node t l) = x_flag l" "x_owner (free_node t l) = x_owner l"
  "x_wait (free_node t l) = x_wait l" "px (free_node t l) = px l"
  "holders (free_node t l) = holders l - {t}"
  by (auto simp: free_node_def holders_def image_iff)

lemma free_node_ok: "nodes_ok l \<Longrightarrow> nodes_ok (free_node t l)"
  by (auto simp: nodes_ok_def free_node_def holders_def distinct_map inj_on_def)

lemma free_node_last: "free_node t l = l\<lparr>s_nodes := s_nodes (free_node t l)\<rparr>"
  by (simp add: free_node_def)

lemma grant_shared_simps [simp]:
  "x_flag (grant_shared t n l) = x_flag l" "x_owner (grant_shared t n l) = x_owner l"
  "x_wait (grant_shared t n l) = x_wait l" "px (grant_shared t n l) = px l"
  by (simp_all add: grant_shared_def new_node_def Let_def)

lemma new_node_holders [simp]: "holders (new_node t l) = insert t (holders l)"
  by (simp add: new_node_def holders_def)

lemma grant_shared_nodes:
  assumes "nodes_ok l" "n = (t \<in> holders l)" "t \<noteq> 0"
  shows "nodes_ok (grant_shared t n l)" "holders (grant_shared t n l) = insert t (holders l)"
proof -
  show "holders (grant_shared t n l) = insert t (holders l)"
    using assms by (auto simp: grant_shared_def Let_def)
  show "nodes_ok (grant_shared t n l)"
  proof (cases n)
    case True
    with assms obtain c where c: "find_node t l = Some c" using find_node_holders [of t l] by blast
    then have "(t, c) \<in> set (s_nodes l)" by (simp add: find_node_def map_of_SomeD)
    with assms have "0 < c" by (force simp: nodes_ok_def)
    with True c assms show ?thesis by (simp add: grant_shared_def set_count_ok)
  next
    case False
    have "map (\<lambda>(u, c). if u = t then (u, k) else (u, c)) (s_nodes l) = s_nodes l" for k :: int
      using False assms by (intro map_idI) (force simp: holders_def)
    then have "s_nodes (grant_shared t n l) = (t, 1) # s_nodes l"
      using False by (simp add: grant_shared_def new_node_def set_count_def find_node_def)
    with False assms show ?thesis by (auto simp: nodes_ok_def holders_def)
  qed
qed

lemma locals_ok_frame:
  assumes "locals_ok l T" "holders l' - {t} = holders l - {t}"
    and "\<And>n. q = WaitS n \<or> q = WaitShared n \<Longrightarrow> n = (t \<in> holders l')"
  shows "locals_ok l' (T(t := q))"
  using assms unfolding locals_ok_def by (metis Diff_iff empty_iff fun_upd_apply insert_iff)

lemma locals_okD: "locals_ok l T \<Longrightarrow> T t = WaitS n \<or> T t = WaitShared n \<Longrightarrow> n = (t \<in> holders l)"
  unfolding locals_ok_def by blast

section \<open>Each step keeps the invariant\<close>

lemma inv_check_s:
  assumes "nodes_ok l" "locals_ok l T" "T 0 = Running" "t \<noteq> 0" "n = (t \<in> holders l)"
    and "x_flag l = 1" "x_owner l = 0" "waiters_s T \<subseteq> {t}"
    and "finite (waiters_x T)" "x_wait l = int (card (waiters_x T - {t}))"
    and "check_s t n l = (l', q)"
  shows "latch_inv (l', T(t := q))"
proof (cases "s_nodes l = [] \<or> n \<and> map fst (s_nodes l) = [t]")
  case True
  then have "l' = l\<lparr>x_flag := 3, x_owner := t\<rparr>" "q = Running" using assms by (auto simp: check_s_def)
  moreover have "holders l \<subseteq> {t}" using True holders_single [OF assms(1)] by (auto simp: holders_empty)
  ultimately show ?thesis using assms by (auto simp: latch_inv_def flag_ok_def intro!: locals_ok_frame [of l])
next
  case False
  then have "l' = l" "q = WaitS n" using assms by (auto simp: check_s_def)
  then show ?thesis using assms by (auto simp: latch_inv_def flag_ok_def intro!: locals_ok_frame [of l])
qed

lemma inv_check_x:
  assumes "nodes_ok l" "locals_ok l T" "T 0 = Running" "t \<noteq> 0" "T t = Running \<or> T t = WaitX"
    and "flag_ok l T" "x_owner l \<noteq> t"
    and "finite (waiters_x T)" "x_wait l = int (card (insert t (waiters_x T)))"
    and "check_x t l = (l', q)"
  shows "latch_inv (l', T(t := q))"
proof (cases "x_flag l = 0 \<or> x_flag l = 2")
  case True
  then have own: "x_owner l = 0" "waiters_s T = {}" using assms by (auto simp: flag_ok_def)
  have "card (insert t (waiters_x T)) = Suc (card (waiters_x T - {t}))"
    using assms by (metis card.insert_remove)
  then show ?thesis using assms True own
    by (intro inv_check_s [of "l\<lparr>x_flag := 1, x_wait := x_wait l - 1\<rparr>" T t "t \<in> holders l"])
       (auto simp: check_x_def Let_def locals_ok_def)
next
  case False
  then have "l' = l" "q = WaitX" using assms by (auto simp: check_x_def)
  then show ?thesis using assms waiters_mem(1,2) [of T t] False
    by (auto simp: latch_inv_def flag_ok_def intro!: locals_ok_frame [of l])
qed

lemma inv_parts:
  assumes "latch_inv (l, T)"
  shows "flag_ok l T" "nodes_ok l" "locals_ok l T" "T 0 = Running" "finite (waiters_x T)"
    "x_wait l = int (card (waiters_x T))"
  using assms by (simp_all add: latch_inv_def)

lemma inv_grant:
  assumes inv: "latch_inv (l, T)" and "t \<noteq> 0" "n = (t \<in> holders l)"
    and who: "T t = Running \<or> T t = WaitShared n"
    and may: "x_flag l < 2 \<or> x_owner l = t"
  shows "latch_inv (grant_shared t n l, T(t := Running))"
proof -
  note g = grant_shared_nodes [OF inv_parts(2) [OF inv] assms(3,2)]
  have w: "t \<notin> waiters_x T" "t \<notin> waiters_s T" using waiters_mem(1,4) [of T t] who by auto
  have "locals_ok (grant_shared t n l) (T(t := Running))"
    using inv_parts(3) [OF inv] by (rule locals_ok_frame) (auto simp: g)
  moreover have "flag_ok (grant_shared t n l) (T(t := Running))"
    using inv_parts(1) [OF inv] may w assms(2) by (auto simp: flag_ok_def g)
  ultimately show ?thesis using inv w g by (simp add: latch_inv_def)
qed

lemma inv_wait_shared:
  assumes "latch_inv (l, T)" "n = (t \<in> holders l)" "t \<noteq> 0" "T t = Running \<or> T t = WaitShared n" "x_owner l \<noteq> t"
  shows "latch_inv (l, T(t := WaitShared n))"
proof -
  have w: "t \<notin> waiters_x T" "t \<notin> waiters_s T" using waiters_mem(1,4) [of T t] assms(4) by auto
  have "locals_ok l (T(t := WaitShared n))" using inv_parts(3) [OF assms(1)] by (rule locals_ok_frame) (auto simp: assms(2))
  then show ?thesis using assms w by (auto simp: latch_inv_def flag_ok_def)
qed

lemma inv_check_shared:
  assumes "latch_inv (l, T)" "n = (t \<in> holders l)" "t \<noteq> 0" "T t = Running \<or> T t = WaitShared n" "x_owner l \<noteq> t"
    and "check_shared t n l = (l', q)"
  shows "latch_inv (l', T(t := q))"
  using assms(6) inv_grant [OF assms(1,3,2,4)] inv_wait_shared [OF assms(1-5)]
  by (auto simp: check_shared_def split: if_splits)

lemma inv_resume_s:
  assumes inv: "latch_inv (l, T)" and t: "T t = WaitS n" and r: "resume_s t n l = (l', q)"
  shows "latch_inv (l', T(t := q))"
proof -
  note p = inv_parts [OF inv]
  have n: "n = (t \<in> holders l)" using p(3) t locals_okD by blast
  have t0: "t \<noteq> 0" using p(4) t by (cases t) auto
  have w: "t \<in> waiters_s T" "t \<notin> waiters_x T" using waiters_mem(3) [of T t n] t by auto
  have own: "x_owner l = 0" and ws: "waiters_s T = {t}" and fl: "x_flag l = 1 \<or> x_flag l = 3 \<and> holders l = {}"
    using p(1) w by (auto simp: flag_ok_def)
  show ?thesis
  proof (cases "x_flag l = 3")
    case True
    then show ?thesis using r p own ws fl w t0
      by (auto simp: resume_s_def latch_inv_def flag_ok_def intro!: locals_ok_frame [of l])
  next
    case False
    then show ?thesis using r p own ws fl w t0 n
      by (intro inv_check_s [of l T t n]) (auto simp: resume_s_def)
  qed
qed

lemma inv_unlock:
  assumes inv: "latch_inv (l, T)" and "t \<noteq> 0" "T t = Running"
  shows "latch_inv (latch_unlock t l, T)"
proof -
  note p = inv_parts [OF inv]
  have lo: "locals_ok l' T" if "holders l' = holders l" for l' using p(3) that by (simp add: locals_ok_def)
  show ?thesis
  proof (cases "x_owner l = t")
    case True
    then have f: "3 \<le> x_flag l" "waiters_s T = {}" "holders l \<subseteq> {t}"
      using p(1) assms(2) by (force simp: flag_ok_def)+
    consider "x_flag l = 3" "x_wait l = 0" | "x_flag l = 3" "0 < x_wait l" | "3 < x_flag l" using f(1) p(6) by linarith
    then show ?thesis
      by cases (use True f p assms(2,3) in \<open>simp_all add: latch_unlock_def Let_def latch_inv_def flag_ok_def lo\<close>)
  qed (use inv in \<open>simp add: latch_unlock_def\<close>)
qed

lemma inv_unlock_shared:
  assumes inv: "latch_inv (l, T)" and "t \<noteq> 0" "T t = Running" and u: "latch_unlock_shared t l = Some l'"
  shows "latch_inv (l', T)"
proof -
  note p = inv_parts [OF inv]
  obtain c where c: "find_node t l = Some c" using u by (auto simp: latch_unlock_shared_def split: option.splits)
  then have "(t, c) \<in> set (s_nodes l)" by (simp add: find_node_def map_of_SomeD)
  then have cp: "0 < c" using p(2) by (force simp: nodes_ok_def)
  show ?thesis
  proof (cases "c = 1")
    case False
    then have "l' = set_count t (c - 1) l" using u c by (simp add: latch_unlock_shared_def)
    then show ?thesis using p False cp by (auto simp: latch_inv_def flag_ok_def locals_ok_def set_count_ok)
  next
    case True
    have lo: "locals_ok k (T(t := Running))" if "holders k = holders l - {t}" for k
      using p(3) by (rule locals_ok_frame) (auto simp: that)
    have T: "T(t := Running) = T" using assms(3) by auto
    define k where "k = free_node t l"
    have k: "x_flag k = x_flag l" "x_owner k = x_owner l" "x_wait k = x_wait l" "holders k = holders l - {t}"
        "nodes_ok k" "locals_ok k T"
      using free_node_ok [OF p(2), of t] lo [unfolded T] by (simp_all add: k_def)
    have fk: "flag_ok k T" using p(1) unfolding flag_ok_def k by blast
    show ?thesis
    proof (cases "x_flag l = 1 \<and> holders k = {}")
      case True
      then have "l' = k\<lparr>x_flag := 3\<rparr>" using u c \<open>c = 1\<close> p(1) assms(2)
        by (simp add: latch_unlock_shared_def holders_empty k_def flag_ok_def)
      then show ?thesis using True p(1,4-) k by (simp add: latch_inv_def flag_ok_def locals_ok_def)
    next
      case False
      then have "l' = k" using u c \<open>c = 1\<close> k(1)
        by (simp add: latch_unlock_shared_def holders_empty Let_def flip: k_def split: if_splits)
      then show ?thesis using fk p k by (simp add: latch_inv_def)
    qed
  qed
qed

lemma inv_lock:
  assumes inv: "latch_inv (l, T)" and "t \<noteq> 0" "T t = Running" and "latch_lock t l = (l', q)"
  shows "latch_inv (l', T(t := q))"
proof (cases "x_owner l = t")
  case True
  have "T(t := Running) = T" using assms(3) by auto
  moreover have "l' = l\<lparr>x_flag := x_flag l + 1\<rparr>" "q = Running" using assms(4) True by (auto simp: latch_lock_def)
  ultimately show ?thesis using inv True assms(2) by (auto simp: latch_inv_def flag_ok_def locals_ok_def)
next
  case False
  have w: "t \<notin> waiters_x T" using waiters_mem(1) [of T t] assms(3) by simp
  have "flag_ok (l\<lparr>x_wait := x_wait l + 1\<rparr>) T" "locals_ok (l\<lparr>x_wait := x_wait l + 1\<rparr>) T"
    using inv by (auto simp: latch_inv_def flag_ok_def locals_ok_def)
  then show ?thesis using inv_parts [OF inv] w assms False
    by (intro inv_check_x [of "l\<lparr>x_wait := x_wait l + 1\<rparr>" T t]) (auto simp: latch_lock_def)
qed

lemma inv_lock_shared:
  assumes inv: "latch_inv (l, T)" and "t \<noteq> 0" "T t = Running" and "latch_lock_shared t l = (l', q)"
  shows "latch_inv (l', T(t := q))"
  using inv_grant [OF inv assms(2) refl] inv_check_shared [OF inv refl assms(2)] assms(3,4)
  by (auto simp: latch_lock_shared_def Let_def split: if_splits)

lemma inv_try:
  assumes inv: "latch_inv (l, T)" and "t \<noteq> 0" "T t = Running" and "try_lock_shared t l = (b, l')"
  shows "latch_inv (l', T)"
proof -
  have "T(t := Running) = T" using assms(3) by auto
  with inv_grant [OF inv assms(2) refl] show ?thesis using assms(3,4) inv
    by (auto simp: try_lock_shared_def split: if_splits)
qed

lemma inv_owner:
  assumes "latch_inv (l, T)" "x_owner l \<noteq> 0"
  shows "3 \<le> x_flag l" "waiters_s T = {}" "holders l \<subseteq> {x_owner l}" "T (x_owner l) = Running"
proof -
  have f: "flag_ok l T" using inv_parts(1) [OF assms(1)] .
  then show "3 \<le> x_flag l" using assms(2) unfolding flag_ok_def by linarith
  with f assms(2) show "waiters_s T = {}" "holders l \<subseteq> {x_owner l}" "T (x_owner l) = Running"
    by (simp_all add: flag_ok_def)
qed

lemma waiting_nonzero:
  assumes "latch_inv (l, T)" "T t \<noteq> Running"
  shows "t \<noteq> 0" "x_owner l \<noteq> t"
  using inv_parts(4) [OF assms(1)] inv_owner(4) [OF assms(1)] assms(2) by metis+

lemma latch_step_inv:
  assumes "latch_step s t s'" "latch_inv s"
  shows "latch_inv s'"
  using assms
proof (induction rule: latch_step.induct)
  case (step_x T t l l' q)
  then show ?case using inv_parts [OF step_x.prems] waiting_nonzero [OF step_x.prems, of t] waiters_mem(2) [of T t]
    by (intro inv_check_x [of l T t]) (auto simp: insert_absorb)
next
  case (step_shared T t n l l' q)
  then show ?case using locals_okD [OF inv_parts(3) [OF step_shared.prems], of t n] waiting_nonzero [OF step_shared.prems, of t]
    by (intro inv_check_shared [of l T n t]) auto
qed (auto intro: inv_lock inv_resume_s inv_unlock inv_lock_shared inv_unlock_shared inv_try)

lemma latch_reachable_inv: "latch_reachable p s \<Longrightarrow> latch_inv s"
proof (induction rule: latch_reachable.induct)
  case reach_new
  show ?case by (simp add: latch_inv_def Latch_new_def flag_ok_def nodes_ok_def locals_ok_def holders_def waiters_x_def waiters_s_def)
qed (rule latch_step_inv)

section \<open>What the latch guarantees\<close>

lemma check_s_owner: "check_s t n l = (l', q) \<Longrightarrow> x_owner l' = x_owner l \<or> x_owner l' = t"
  by (auto simp: check_s_def split: if_splits)

lemma check_x_owner:
  "check_x t l = (l', q) \<Longrightarrow> x_owner l' = x_owner l \<or> x_owner l' = t \<and> x_flag l \<in> {0, 2}"
  using check_s_owner [of t "find_node t l \<noteq> None" "l\<lparr>x_flag := 1, x_wait := x_wait l - 1\<rparr>" l' q]
  by (auto simp: check_x_def find_node_def Let_def split: if_splits)

lemma latch_lock_owner:
  "latch_lock t l = (l', q) \<Longrightarrow> x_owner l' = x_owner l \<or> x_owner l' = t \<and> x_flag l \<in> {0, 2}"
  using check_x_owner [of t "l\<lparr>x_wait := x_wait l + 1\<rparr>" l' q] by (auto simp: latch_lock_def split: if_splits)

lemma resume_s_owner: "resume_s t n l = (l', q) \<Longrightarrow> x_owner l' = x_owner l \<or> x_owner l' = t"
  using check_s_owner [of t n l l' q] by (auto simp: resume_s_def split: if_splits)

lemma latch_unlock_owner: "x_owner (latch_unlock t l) = x_owner l \<or> x_owner (latch_unlock t l) = 0 \<and> x_owner l = t"
  by (simp add: latch_unlock_def Let_def)

lemma shared_owner:
  "latch_lock_shared t l = (l', q) \<Longrightarrow> x_owner l' = x_owner l"
  "check_shared t n l = (l', q) \<Longrightarrow> x_owner l' = x_owner l"
  "latch_unlock_shared t l = Some l' \<Longrightarrow> x_owner l' = x_owner l"
  "try_lock_shared t l = (b, l') \<Longrightarrow> x_owner l' = x_owner l"
  by (auto simp: latch_lock_shared_def check_shared_def latch_unlock_shared_def try_lock_shared_def Let_def
      split: if_splits option.splits)

lemma latch_owner_changes:
  assumes "latch_step (l, T) t (l', T')" and inv: "latch_inv (l, T)" and "x_owner l' \<noteq> x_owner l"
  shows "x_owner l' = 0 \<and> x_owner l = t \<or> x_owner l = 0 \<and> x_owner l' = t"
proof -
  have flag: "x_owner l = 0" if "x_flag l \<in> {0, 2}" using that inv_owner(1) [OF inv] by fastforce
  have wait: "x_owner l = 0" if "T t = WaitS n" for n
    using that inv_owner(2) [OF inv] waiters_mem(3) [of T t n] by blast
  from assms(1) show ?thesis
  proof (cases rule: latch_step.cases)
    case step_lock
    then show ?thesis using latch_lock_owner flag assms(3) by blast
  next
    case step_x
    then show ?thesis using check_x_owner flag assms(3) by blast
  next
    case step_s
    then show ?thesis using resume_s_owner wait assms(3) by blast
  next
    case step_unlock
    then show ?thesis using latch_unlock_owner [of t l] assms(3) by simp
  qed (use assms(3) in \<open>auto dest: shared_owner\<close>)
qed

text \<open>C30: Whatever the order in which threads call the methods of the latch, wait and wake up: when a
  thread owns the exclusive lock no other thread has a shared lock, nobody else is past the gate
  of X, and the owner is not waiting; and the ownership changes in two ways only, the
  owner gives it back by a step of its own, or a thread takes a free latch by a step of its own.\<close>

theorem latch_exclusion:
  assumes "latch_reachable p (l, T)"
  shows "(x_owner l \<noteq> 0 \<longrightarrow> holders l \<subseteq> {x_owner l} \<and> waiters_s T = {} \<and> T (x_owner l) = Running)
       \<and> (latch_step (l, T) t (l', T') \<longrightarrow> x_owner l' \<noteq> x_owner l \<longrightarrow>
           x_owner l' = 0 \<and> x_owner l = t \<or> x_owner l = 0 \<and> x_owner l' = t)"
  using inv_owner(2-4) [OF latch_reachable_inv [OF assms]] latch_owner_changes [OF _ latch_reachable_inv [OF assms]]
  by blast

text \<open>C31: The latch does not block for ever: when no thread owns the exclusive lock and every shared
  lock is released, and some thread waits, then a waiting thread goes on with the lock as soon as
  it wakes up; and when no thread waits the latch is back to its step 0.\<close>

theorem latch_progress:
  assumes "latch_reachable p (l, T)" "x_owner l = 0" "holders l = {}"
  shows "if \<forall>t. T t = Running then x_flag l = 0
         else \<exists>t l'. T t \<noteq> Running \<and> latch_step (l, T) t (l', T(t := Running))"
proof -
  note inv = latch_reachable_inv [OF assms(1)]
  have f: "flag_ok l T" and w: "x_wait l = int (card (waiters_x T))" using inv_parts [OF inv] by simp_all
  have e: "s_nodes l = []" using assms(3) by (simp add: holders_empty)
  have S: "\<exists>l'. latch_step (l, T) t (l', T(t := Running))" if "T t = WaitS n" "x_flag l \<in> {1, 3}" for t n
    using step_s [of T t n l] that(1) e that(2) by (force simp: resume_s_def check_s_def)
  have X: "\<exists>l'. latch_step (l, T) t (l', T(t := Running))" if "T t = WaitX" "x_flag l \<in> {0, 2}" for t
    using step_x [of T t l] that(1) e that(2) by (force simp: check_x_def check_s_def Let_def)
  have H: "\<exists>l'. latch_step (l, T) t (l', T(t := Running))" if "T t = WaitShared n" "x_flag l = 0" for t n
    by (rule exI, rule step_shared [where n = n and l = l and l' = "grant_shared t n l"]) (simp_all add: check_shared_def that)
  consider "x_flag l = 0" "waiters_s T = {}" | "x_flag l = 2" "0 < x_wait l" | t where "x_flag l \<in> {1, 3}" "waiters_s T = {t}"
    using f assms(2) unfolding flag_ok_def by (smt (verit) insertCI)
  then show ?thesis
  proof cases
    case 1
    then show ?thesis using X H by (auto simp: waiters_s_def) (metis (full_types) pc.exhaust)
  next
    case 2
    then obtain t where "T t = WaitX" using w by (fastforce simp: waiters_x_def card_gt_0_iff)
    then show ?thesis using 2 X by (metis insertCI pc.distinct(1))
  next
    case 3
    then obtain n where "T t = WaitS n" by (auto simp: waiters_s_def)
    then show ?thesis using 3 S by (metis pc.distinct(3))
  qed
qed

text \<open>One thread takes the exclusive lock, a second one asks for a shared lock and waits, the first
  one releases.\<close>

lemma running_upd [simp]: "(\<lambda>_. Running)(t := Running) = (\<lambda>_. Running)"
  by auto

definition demo_held :: latch where
  "demo_held = (Latch_new True)\<lparr>x_flag := 3, x_owner := 2\<rparr>"

definition demo_waits :: threads where
  "demo_waits = (\<lambda>_. Running)(3 := WaitShared False)"

lemma demo_held_reachable: "latch_reachable True (demo_held, \<lambda>_. Running)"
proof -
  have "latch_step (Latch_new True, \<lambda>_. Running) 2 (demo_held, (\<lambda>_. Running)(2 := Running))"
    by (rule step_lock) (simp_all add: demo_held_def latch_lock_def check_x_def check_s_def Latch_new_def Let_def)
  from reach_step [OF reach_new this] show ?thesis by simp
qed

lemma demo_released: "latch_unlock 2 demo_held = Latch_new True"
  by (simp add: demo_held_def latch_unlock_def Latch_new_def)

lemma demo_unlock: "latch_step (demo_held, T) 2 (Latch_new True, T)" if "T 2 = Running"
  using step_unlock [of 2 T demo_held] that by (simp add: demo_released)

lemma demo_free_reachable: "latch_reachable True (Latch_new True, demo_waits)"
proof -
  have "latch_step (demo_held, \<lambda>_. Running) 3 (demo_held, demo_waits)"
    unfolding demo_waits_def
    by (rule step_lock_shared) (simp_all add: demo_held_def latch_lock_shared_def check_shared_def holders_def Latch_new_def Let_def)
  from reach_step [OF reach_step [OF demo_held_reachable this] demo_unlock]
  show ?thesis by (simp add: demo_waits_def)
qed

theorem latch_exclusion_witness:
  "x_owner demo_held = 2 \<and> holders demo_held \<subseteq> {2}
   \<and> latch_step (demo_held, \<lambda>_. Running) 2 (Latch_new True, \<lambda>_. Running) \<and> x_owner (Latch_new True) = 0"
  using latch_exclusion [OF demo_held_reachable, of 2 "Latch_new True" "\<lambda>_. Running"] demo_unlock
  by (simp add: demo_held_def Latch_new_def)

theorem latch_progress_witness:
  "\<exists>t l'. demo_waits t \<noteq> Running \<and> latch_step (Latch_new True, demo_waits) t (l', demo_waits(t := Running))"
proof -
  have "\<not> (\<forall>t. demo_waits t = Running)" by (auto simp: demo_waits_def)
  with latch_progress [OF demo_free_reachable] show ?thesis
    by (simp add: Latch_new_def holders_def)
qed

definition upgrade_locks :: latch where
  "upgrade_locks = \<lparr>x_owner = 0, x_wait = 1, x_flag = 1, px = True, s_nodes = [(3, 1), (2, 1)]\<rparr>"

definition upgrade_threads :: threads where
  "upgrade_threads = (\<lambda>_. Running)(2 := WaitS True, 3 := WaitX)"

lemma upgrade_reachable: "latch_reachable True (upgrade_locks, upgrade_threads)"
proof -
  let ?l1 = "upgrade_locks\<lparr>x_wait := 0, x_flag := 0, s_nodes := [(2, 1)]\<rparr>"
  let ?l2 = "upgrade_locks\<lparr>x_wait := 0, x_flag := 0\<rparr>" and ?l3 = "upgrade_locks\<lparr>x_wait := 0\<rparr>"
  note defs = upgrade_locks_def Latch_new_def latch_lock_shared_def check_shared_def holders_def grant_shared_def
    new_node_def set_count_def find_node_def latch_lock_def check_x_def check_s_def Let_def
  have a: "latch_step (Latch_new True, \<lambda>_. Running) 2 (?l1, (\<lambda>_. Running)(2 := Running))"
    by (rule step_lock_shared) (simp_all add: defs)
  have b: "latch_step (?l1, \<lambda>_. Running) 3 (?l2, (\<lambda>_. Running)(3 := Running))"
    by (rule step_lock_shared) (simp_all add: defs)
  have c: "latch_step (?l2, \<lambda>_. Running) 2 (?l3, (\<lambda>_. Running)(2 := WaitS True))"
    by (rule step_lock) (simp_all add: defs)
  have d: "latch_step (?l3, (\<lambda>_. Running)(2 := WaitS True)) 3 (upgrade_locks, upgrade_threads)"
    unfolding upgrade_threads_def by (rule step_lock) (simp_all add: defs)
  from reach_step [OF reach_new a, simplified] have "latch_reachable True (?l1, \<lambda>_. Running)" .
  from reach_step [OF reach_step [OF this b, simplified running_upd] c] show ?thesis
    using reach_step d by blast
qed

text \<open>Two threads that hold a shared lock and both ask for the exclusive lock block each other for
  ever: such a state is reached, and then no step of either of them changes anything.\<close>

theorem latch_upgrade_deadlock:
  "latch_reachable True (upgrade_locks, upgrade_threads)
   \<and> {s. latch_step (upgrade_locks, upgrade_threads) 2 s \<or> latch_step (upgrade_locks, upgrade_threads) 3 s}
       = {(upgrade_locks, upgrade_threads)}"
proof -
  have "s = (upgrade_locks, upgrade_threads)" if "latch_step (upgrade_locks, upgrade_threads) t s" "t = 2 \<or> t = 3" for t s
    using that by (cases rule: latch_step.cases)
      (auto simp: upgrade_locks_def upgrade_threads_def check_x_def resume_s_def check_s_def fun_upd_idem fun_upd_twist)
  moreover have "latch_step (upgrade_locks, upgrade_threads) 3 (upgrade_locks, upgrade_threads(3 := WaitX))"
    by (rule step_x) (simp_all add: upgrade_locks_def upgrade_threads_def check_x_def)
  ultimately show ?thesis using upgrade_reachable by (auto simp: upgrade_threads_def)
qed

end
