(* ===== verification/ThreadPool.thy ===== *)
theory ThreadPool
  imports Prelude
begin

text \<open>
  The pool of threads that runs queued workers (\<open>private/os/threads/threadpool.cpp\<close>, \<open>threadpool.h\<close>, with
  the classes \<open>Event\<close> of \<open>event.h\<close> and \<open>Thread\<close> of \<open>thread.h\<close>). What a method does under the mutex of the pool, of an
  event or of a thread is one atomic step, a function on the state; a thread of the pool is at one
  of the places \<open>tpc\<close> between two of them. Every wait of such a thread has a timeout, so a blocked thread can go
  on at any time.

  The objects of the threads stand in a store and are numbered as they are created. They are chained by
  pointers, from the newest, \<open>tp_pool\<close>, to the oldest. Two fields are logs and not part of the code: \<open>tp_accepted\<close>, the workers in
  the order in which the pool took them, and \<open>tp_out\<close>, those that have left the queue.
\<close>

section \<open>Events\<close>

record os_event =
  oe_notified :: bool
  oe_notifyOne :: bool
  oe_waitingCount :: u32
  oe_autoReset :: bool

definition Event_new :: "bool \<Rightarrow> os_event" where
  "Event_new autoReset = \<lparr>oe_notified = False, oe_notifyOne = False, oe_waitingCount = 0, oe_autoReset = autoReset\<rparr>"

definition notify_all :: "os_event \<Rightarrow> os_event" where
  "notify_all e = e\<lparr>oe_notifyOne := False, oe_notified := True\<rparr>"

definition notify_one :: "os_event \<Rightarrow> os_event" where
  "notify_one e = e\<lparr>oe_notifyOne := True, oe_notified := True\<rparr>"

definition event_reset :: "bool \<Rightarrow> os_event \<Rightarrow> os_event" where
  "event_reset force e = (if force \<or> oe_waitingCount e = 0 then e\<lparr>oe_notified := False\<rparr> else e)"

text \<open>The two halves of \<open>wait\<close> and \<open>wait_for\<close>: before the condition is waited for, and after. The result is whether the
  event has been notified; a wait that gives up by its timeout finds it as it is.\<close>

definition event_enter :: "os_event \<Rightarrow> os_event" where
  "event_enter e = e\<lparr>oe_waitingCount := oe_waitingCount e + 1\<rparr>"

definition event_leave :: "os_event \<Rightarrow> bool \<times> os_event" where
  "event_leave e =
     (let e1 = e\<lparr>oe_waitingCount := oe_waitingCount e - 1\<rparr> in
      (oe_notified e, if oe_autoReset e \<and> oe_notified e then event_reset (oe_notifyOne e) e1 else e1))"

section \<open>Threads and the pool\<close>

text \<open>Where a thread of the pool is: not yet running; before \<open>is_stopped\<close> or \<open>pop_queue\<close>, with the local
  \<open>waiting\<close>; at its worker; at the three parts of \<open>wait_queue\<close>, with the wait for the event in two; behind
  \<open>process\<close>; before \<open>finalize\<close>.\<close>

datatype tpc =
    Starting | Testing bool | Popping bool | Working nat | Entering | Filling | Blocked | Left | Ending | Finalizing

record pthread =
  th_old :: "nat option"
  th_new :: "nat option"
  th_running :: bool
  th_stopped :: bool
  th_notifiedStop :: bool
  th_pc :: tpc

record threadpool =
  tp_maxSize :: u32
  tp_keepAlive :: u32
  tp_poolSize :: u32
  tp_waitingCount :: u32
  tp_stopped :: bool
  tp_suspended :: bool
  tp_empty :: bool
  tp_pool :: "nat option"
  tp_queue :: "nat list"
  tp_queueFill :: os_event
  tp_queueEmpty :: os_event
  tp_queued :: "nat \<Rightarrow> bool"
  tp_threads :: "nat \<Rightarrow> pthread option"
  tp_next :: nat
  tp_creates :: "nat \<Rightarrow> bool"
  tp_accepted :: "nat list"
  tp_out :: "nat list"

text \<open>Whether the system can create the thread of a number is the parameter \<open>tp_creates\<close>; \<open>tp_queued\<close> is the field
  \<open>m_queued\<close> of the workers.\<close>

definition ThreadPool_new :: "u32 \<Rightarrow> (nat \<Rightarrow> bool) \<Rightarrow> threadpool" where
  "ThreadPool_new n creates =
     \<lparr>tp_maxSize = n, tp_keepAlive = 5000, tp_poolSize = 0, tp_waitingCount = 0, tp_stopped = False,
      tp_suspended = False, tp_empty = False, tp_pool = None, tp_queue = [], tp_queueFill = Event_new True,
      tp_queueEmpty = Event_new True, tp_queued = (\<lambda>k. False), tp_threads = (\<lambda>p. None), tp_next = 0,
      tp_creates = creates, tp_accepted = [], tp_out = []\<rparr>"

definition upd_thread :: "nat \<Rightarrow> (pthread \<Rightarrow> pthread) \<Rightarrow> threadpool \<Rightarrow> threadpool" where
  "upd_thread p f tp = tp\<lparr>tp_threads := (tp_threads tp)(p := map_option f (tp_threads tp p))\<rparr>"

definition upd_at :: "nat option \<Rightarrow> (pthread \<Rightarrow> pthread) \<Rightarrow> threadpool \<Rightarrow> threadpool" where
  "upd_at q f tp = (case q of None \<Rightarrow> tp | Some p \<Rightarrow> upd_thread p f tp)"

definition Thread_new :: "nat option \<Rightarrow> pthread" where
  "Thread_new old =
     \<lparr>th_old = old, th_new = None, th_running = False, th_stopped = True, th_notifiedStop = False, th_pc = Starting\<rparr>"

text \<open>\<open>create_thread_unlocked\<close>: the object becomes the head of the chain.\<close>

definition create_thread :: "threadpool \<Rightarrow> nat \<times> threadpool" where
  "create_thread tp =
     (let p = tp_next tp; tp1 = upd_at (tp_pool tp) (\<lambda>th. th\<lparr>th_new := Some p\<rparr>) tp in
      (p, tp1\<lparr>tp_threads := (tp_threads tp1)(p := Some (Thread_new (tp_pool tp))), tp_pool := Some p,
              tp_poolSize := tp_poolSize tp + 1, tp_next := p + 1\<rparr>))"

text \<open>\<open>finalize\<close>: the object is taken out of the chain and deleted.\<close>

definition unchain :: "pthread \<Rightarrow> threadpool \<Rightarrow> threadpool" where
  "unchain th tp =
     (case th_new th of
        Some n \<Rightarrow> upd_at (th_old th) (\<lambda>t. t\<lparr>th_new := Some n\<rparr>) (upd_thread n (\<lambda>t. t\<lparr>th_old := th_old th\<rparr>) tp)
      | None \<Rightarrow>
          (case th_old th of
             Some q \<Rightarrow> (upd_thread q (\<lambda>t. t\<lparr>th_new := None\<rparr>) tp)\<lparr>tp_pool := Some q\<rparr>
           | None \<Rightarrow> tp\<lparr>tp_pool := None, tp_empty := True\<rparr>))"

definition finalize :: "nat \<Rightarrow> threadpool \<Rightarrow> threadpool" where
  "finalize p tp =
     (case tp_threads tp p of
        None \<Rightarrow> tp
      | Some th \<Rightarrow>
          (let tp1 = unchain th (tp\<lparr>tp_poolSize := tp_poolSize tp - 1\<rparr>)
           in tp1\<lparr>tp_threads := (tp_threads tp1)(p := None)\<rparr>))"

definition start_thread :: "nat \<Rightarrow> threadpool \<Rightarrow> bool \<times> threadpool" where
  "start_thread p tp =
     (case tp_threads tp p of
        None \<Rightarrow> (False, tp)
      | Some th \<Rightarrow>
          if th_running th then (False, tp)
          else (tp_creates tp p, upd_thread p (\<lambda>t. t\<lparr>th_notifiedStop := False\<rparr>) tp))"

definition stop_thread :: "nat \<Rightarrow> threadpool \<Rightarrow> threadpool" where
  "stop_thread p tp = upd_thread p (\<lambda>t. t\<lparr>th_notifiedStop := True\<rparr>) tp"

fun grow :: "nat \<Rightarrow> threadpool \<Rightarrow> threadpool" where
  "grow 0 tp = tp"
| "grow (Suc i) tp =
     (if tp_poolSize tp \<ge> tp_maxSize tp then tp
      else (case create_thread tp of (p, tp1) \<Rightarrow>
              (case start_thread p tp1 of (ok, tp2) \<Rightarrow> grow i (if ok then tp2 else finalize p tp2))))"

fun shrink :: "nat \<Rightarrow> nat option \<Rightarrow> threadpool \<Rightarrow> threadpool" where
  "shrink (Suc i) (Some p) tp =
     (let tp1 = stop_thread p tp in
      shrink i (case tp_threads tp1 p of None \<Rightarrow> None | Some th \<Rightarrow> th_old th) tp1)"
| "shrink i it tp = tp"

definition resize :: "threadpool \<Rightarrow> threadpool" where
  "resize tp =
     (if tp_poolSize tp < tp_maxSize tp \<and> tp_queue tp \<noteq> []
      then grow (unat (of_nat (length (tp_queue tp)) :: u32)) tp
      else if tp_poolSize tp > tp_maxSize tp
      then (let tp1 = shrink (unat (tp_poolSize tp - tp_maxSize tp)) (tp_pool tp) tp
            in if tp_waitingCount tp1 \<noteq> 0 then tp1\<lparr>tp_queueFill := notify_all (tp_queueFill tp1)\<rparr> else tp1)
      else tp)"

section \<open>The operations\<close>

text \<open>\<open>None\<close> is the failed assertion: a worker is queued once.\<close>

definition enqueue :: "nat \<Rightarrow> threadpool \<Rightarrow> (bool \<times> threadpool) option" where
  "enqueue k tp =
     (if tp_queued tp k then None
      else if tp_stopped tp then Some (False, tp)
      else (let tp1 = tp\<lparr>tp_queued := (tp_queued tp)(k := True), tp_queue := tp_queue tp @ [k],
                         tp_accepted := tp_accepted tp @ [k]\<rparr> in
            Some (True,
              if tp_suspended tp1 then tp1
              else if tp_waitingCount tp1 \<noteq> 0 then tp1\<lparr>tp_queueFill := notify_one (tp_queueFill tp1)\<rparr>
              else resize tp1)))"

definition set_max_size :: "u32 \<Rightarrow> threadpool \<Rightarrow> threadpool" where
  "set_max_size n tp =
     (let tp1 = tp\<lparr>tp_maxSize := n\<rparr> in if tp_suspended tp1 then tp1 else resize tp1)"

definition set_keep_alive :: "u32 \<Rightarrow> threadpool \<Rightarrow> threadpool" where
  "set_keep_alive millisec tp = tp\<lparr>tp_keepAlive := millisec\<rparr>"

definition suspend :: "threadpool \<Rightarrow> threadpool" where
  "suspend tp = tp\<lparr>tp_suspended := True\<rparr>"

definition resume :: "threadpool \<Rightarrow> threadpool" where
  "resume tp = resize (tp\<lparr>tp_suspended := False\<rparr>)"

definition drop_queue :: "threadpool \<Rightarrow> threadpool" where
  "drop_queue tp = tp\<lparr>tp_out := tp_out tp @ tp_queue tp, tp_queue := []\<rparr>"

definition pool_reset :: "threadpool \<Rightarrow> threadpool" where
  "pool_reset tp = drop_queue (tp\<lparr>tp_stopped := True\<rparr>)"

definition pool_stop :: "threadpool \<Rightarrow> threadpool" where
  "pool_stop tp = tp\<lparr>tp_stopped := True\<rparr>"

definition pool_start :: "threadpool \<Rightarrow> threadpool" where
  "pool_start tp = tp\<lparr>tp_stopped := False\<rparr>"

definition is_queue_empty :: "threadpool \<Rightarrow> bool" where
  "is_queue_empty tp \<longleftrightarrow> tp_queue tp = []"

text \<open>\<open>wait_empty\<close> up to the wait for the event: the result, or \<open>None\<close> when it blocks.\<close>

definition wait_empty :: "threadpool \<Rightarrow> bool option \<times> threadpool" where
  "wait_empty tp =
     (if is_queue_empty tp then (Some True, tp)
      else (let e = event_enter (tp_queueEmpty tp) in
            if oe_notified e then (case event_leave e of (r, e1) \<Rightarrow> (Some r, tp\<lparr>tp_queueEmpty := e1\<rparr>))
            else (None, tp\<lparr>tp_queueEmpty := e\<rparr>)))"

definition pop_queue :: "threadpool \<Rightarrow> nat option \<times> threadpool" where
  "pop_queue tp =
     (if tp_suspended tp then (None, tp)
      else (let tp1 = tp\<lparr>tp_queueEmpty := notify_one (tp_queueEmpty tp)\<rparr> in
            case tp_queue tp1 of
              [] \<Rightarrow> (None, tp1)
            | k # q \<Rightarrow> (Some k, tp1\<lparr>tp_queue := q, tp_out := tp_out tp @ [k]\<rparr>)))"

text \<open>The destructor up to its wait for \<open>m_empty\<close>. It follows the pointers to the end of the chain.\<close>

partial_function (option) stop_all :: "nat \<Rightarrow> threadpool \<Rightarrow> threadpool option" where
  [code]: "stop_all it tp =
     (let tp1 = stop_thread it tp in
      case tp_threads tp1 it of
        None \<Rightarrow> None
      | Some th \<Rightarrow> (case th_old th of None \<Rightarrow> Some tp1 | Some q \<Rightarrow> stop_all q tp1))"

definition destroy :: "threadpool \<Rightarrow> threadpool option" where
  "destroy tp =
     (let tp1 = drop_queue (tp\<lparr>tp_stopped := True\<rparr>) in
      case tp_pool tp1 of
        None \<Rightarrow> Some tp1
      | Some it \<Rightarrow>
          map_option (\<lambda>tp2. tp2\<lparr>tp_queueFill := notify_all (tp_queueFill tp2)\<rparr>)
            (stop_all it (tp1\<lparr>tp_empty := False\<rparr>)))"

section \<open>The threads\<close>

definition at_pc :: "nat \<Rightarrow> tpc \<Rightarrow> threadpool \<Rightarrow> threadpool" where
  "at_pc p pc tp = upd_thread p (\<lambda>t. t\<lparr>th_pc := pc\<rparr>) tp"

definition leave_fill :: "nat \<Rightarrow> threadpool \<Rightarrow> threadpool" where
  "leave_fill p tp = at_pc p Left (tp\<lparr>tp_queueFill := snd (event_leave (tp_queueFill tp))\<rparr>)"

definition step_at :: "nat \<Rightarrow> pthread \<Rightarrow> threadpool \<Rightarrow> threadpool" where
  "step_at p th tp =
     (case th_pc th of
        Starting \<Rightarrow> at_pc p (Testing False) (upd_thread p (\<lambda>t. t\<lparr>th_running := True, th_stopped := False\<rparr>) tp)
      | Testing w \<Rightarrow> at_pc p (if th_notifiedStop th \<or> th_stopped th then Ending else Popping w) tp
      | Popping w \<Rightarrow>
          (case pop_queue tp of
             (Some k, tp1) \<Rightarrow> at_pc p (Working k) tp1
           | (None, tp1) \<Rightarrow> at_pc p (if w then Ending else Entering) tp1)
      | Working k \<Rightarrow> at_pc p (Testing False) tp
      | Entering \<Rightarrow> at_pc p Filling (tp\<lparr>tp_waitingCount := tp_waitingCount tp + 1\<rparr>)
      | Filling \<Rightarrow>
          (let tp1 = tp\<lparr>tp_queueFill := event_enter (tp_queueFill tp)\<rparr> in
           if oe_notified (tp_queueFill tp1) then leave_fill p tp1 else at_pc p Blocked tp1)
      | Blocked \<Rightarrow> leave_fill p tp
      | Left \<Rightarrow> at_pc p (Testing True) (tp\<lparr>tp_waitingCount := tp_waitingCount tp - 1\<rparr>)
      | Ending \<Rightarrow> at_pc p Finalizing (upd_thread p (\<lambda>t. t\<lparr>th_running := False, th_stopped := True\<rparr>) tp)
      | Finalizing \<Rightarrow> finalize p tp)"

definition thread_step :: "nat \<Rightarrow> threadpool \<Rightarrow> threadpool option" where
  "thread_step p tp = (case tp_threads tp p of None \<Rightarrow> None | Some th \<Rightarrow> Some (step_at p th tp))"

inductive pool_step :: "threadpool \<Rightarrow> threadpool \<Rightarrow> bool" where
  step_thread: "thread_step p tp = Some tp1 \<Longrightarrow> pool_step tp tp1"
| step_enqueue: "enqueue k tp = Some (ok, tp1) \<Longrightarrow> pool_step tp tp1"
| step_max_size: "pool_step tp (set_max_size n tp)"
| step_keep_alive: "pool_step tp (set_keep_alive n tp)"
| step_suspend: "pool_step tp (suspend tp)"
| step_resume: "pool_step tp (resume tp)"
| step_reset: "pool_step tp (pool_reset tp)"
| step_stop: "pool_step tp (pool_stop tp)"
| step_start: "pool_step tp (pool_start tp)"
| step_wait: "pool_step tp (snd (wait_empty tp))"
| step_woken: "pool_step tp (tp\<lparr>tp_queueEmpty := snd (event_leave (tp_queueEmpty tp))\<rparr>)"

inductive pool_reachable :: "threadpool \<Rightarrow> bool" where
  pool_new: "pool_reachable (ThreadPool_new n creates)"
| pool_more: "pool_reachable tp \<Longrightarrow> pool_step tp tp1 \<Longrightarrow> pool_reachable tp1"

end
