(* ===== verification/PoolLaws.thy ===== *)
theory PoolLaws
  imports ThreadPool
begin

text \<open>
  The laws of the thread pool: the pointers of its threads are one chain of all threads that exist, and the invariant of the
  pool, which every step of a thread keeps.
\<close>

section \<open>Chains\<close>

fun seg :: "(nat \<Rightarrow> pthread option) \<Rightarrow> nat option \<Rightarrow> nat option \<Rightarrow> nat list \<Rightarrow> nat option \<Rightarrow> bool" where
  "seg h prev p [] nxt = (p = nxt)"
| "seg h prev p (x # xs) nxt =
     (p = Some x \<and> (case h x of None \<Rightarrow> False | Some th \<Rightarrow> th_new th = prev \<and> seg h (Some x) (th_old th) xs nxt))"

definition links :: "pthread \<Rightarrow> nat option \<times> nat option" where
  "links th = (th_old th, th_new th)"

definition end_of :: "nat option \<Rightarrow> nat list \<Rightarrow> nat option" where
  "end_of prev xs = (if xs = [] then prev else Some (last xs))"

definition start_of :: "nat list \<Rightarrow> nat option \<Rightarrow> nat option" where
  "start_of xs nxt = (if xs = [] then nxt else Some (hd xs))"

lemma end_of_simps [simp]: "end_of prev [] = prev" "end_of prev (x # xs) = end_of (Some x) xs"
  by (simp_all add: end_of_def)

lemma start_of_simps [simp]: "start_of [] nxt = nxt" "start_of (x # xs) nxt = Some x"
  by (simp_all add: start_of_def)

lemma seg_append:
  "seg h prev p (xs @ ys) nxt \<longleftrightarrow> seg h prev p xs (start_of ys nxt) \<and> seg h (end_of prev xs) (start_of ys nxt) ys nxt"
  by (induction h prev p xs nxt rule: seg.induct) (auto split: option.splits; cases ys; auto split: option.splits)+

lemma seg_cong:
  "(\<And>x. x \<in> set xs \<Longrightarrow> map_option links (h x) = map_option links (h' x)) \<Longrightarrow> seg h prev p xs nxt \<longleftrightarrow> seg h' prev p xs nxt"
proof (induction xs arbitrary: prev p)
  case (Cons x xs)
  from Cons.prems [of x] show ?case
    by (cases "h x"; cases "h' x") (auto simp: links_def Cons.IH [OF Cons.prems])
qed simp

lemma seg_start: "seg h prev p xs nxt \<Longrightarrow> p = start_of xs nxt"
  by (cases xs) auto

lemma seg_set_old:
  assumes "seg h prev p (xs @ [x]) nxt" "x \<notin> set xs"
  shows "seg (h(x := map_option (\<lambda>t. t\<lparr>th_old := q\<rparr>) (h x))) prev p (xs @ [x]) q"
proof -
  let ?h = "h(x := map_option (\<lambda>t. t\<lparr>th_old := q\<rparr>) (h x))"
  from assms(1) have a: "seg h prev p xs (Some x)" "seg h (end_of prev xs) (Some x) [x] nxt"
    by (simp_all add: seg_append)
  from a(1) assms(2) have "seg ?h prev p xs (Some x)" by (subst seg_cong [of _ _ h]) auto
  moreover from a(2) have "seg ?h (end_of prev xs) (Some x) [x] q" by (auto split: option.splits)
  ultimately show ?thesis by (simp add: seg_append)
qed

lemma seg_set_new:
  assumes "seg h prev (Some x) (x # xs) nxt" "x \<notin> set xs"
  shows "seg (h(x := map_option (\<lambda>t. t\<lparr>th_new := r\<rparr>) (h x))) r (Some x) (x # xs) nxt"
proof -
  let ?h = "h(x := map_option (\<lambda>t. t\<lparr>th_new := r\<rparr>) (h x))"
  from assms obtain th where t: "h x = Some th" "seg h (Some x) (th_old th) xs nxt" by (auto split: option.splits)
  from t(2) assms(2) have "seg ?h (Some x) (th_old th) xs nxt" by (subst seg_cong [of _ _ h]) auto
  with t(1) show ?thesis by simp
qed

definition chained :: "threadpool \<Rightarrow> nat list \<Rightarrow> bool" where
  "chained tp xs \<longleftrightarrow> distinct xs \<and> seg (tp_threads tp) None (tp_pool tp) xs None
     \<and> dom (tp_threads tp) = set xs \<and> (\<forall>p\<in>set xs. p < tp_next tp)"

lemma upd_thread_simps [simp]:
  "tp_pool (upd_thread p f tp) = tp_pool tp" "tp_next (upd_thread p f tp) = tp_next tp"
  "tp_threads (upd_thread p f tp) = (tp_threads tp)(p := map_option f (tp_threads tp p))"
  "tp_poolSize (upd_thread p f tp) = tp_poolSize tp" "tp_waitingCount (upd_thread p f tp) = tp_waitingCount tp"
  "tp_maxSize (upd_thread p f tp) = tp_maxSize tp" "tp_queue (upd_thread p f tp) = tp_queue tp"
  "tp_suspended (upd_thread p f tp) = tp_suspended tp" "tp_queueFill (upd_thread p f tp) = tp_queueFill tp"
  "tp_stopped (upd_thread p f tp) = tp_stopped tp" "tp_queued (upd_thread p f tp) = tp_queued tp"
  "tp_accepted (upd_thread p f tp) = tp_accepted tp" "tp_out (upd_thread p f tp) = tp_out tp"
  "tp_empty (upd_thread p f tp) = tp_empty tp" "tp_creates (upd_thread p f tp) = tp_creates tp"
  "tp_queueEmpty (upd_thread p f tp) = tp_queueEmpty tp"
  by (simp_all add: upd_thread_def)

text \<open>Updates that leave the links of a thread alone leave the chain alone.\<close>

lemma chained_upd:
  assumes "\<And>t. links (f t) = links t"
  shows "chained (upd_thread p f tp) xs \<longleftrightarrow> chained tp xs"
proof -
  have "seg ((tp_threads tp)(p := map_option f (tp_threads tp p))) None (tp_pool tp) xs None
      \<longleftrightarrow> seg (tp_threads tp) None (tp_pool tp) xs None"
    by (rule seg_cong) (auto simp: assms option.map_comp comp_def)
  moreover have "dom ((tp_threads tp)(p := map_option f (tp_threads tp p))) = dom (tp_threads tp)" by auto
  ultimately show ?thesis by (simp only: chained_def upd_thread_simps)
qed

lemma chained_links:
  assumes "chained tp (as @ p # bs)" "tp_threads tp p = Some th"
  shows "th_new th = end_of None as" "th_old th = start_of bs None" "p \<notin> set as" "p \<notin> set bs"
  using assms seg_start [of "tp_threads tp" "Some p" "th_old th" bs None] by (auto simp: chained_def seg_append)

lemma chained_new:
  assumes "chained tp xs"
  shows "chained (snd (create_thread tp)) (fst (create_thread tp) # xs)"
proof -
  let ?p = "tp_next tp" and ?h = "tp_threads tp"
  note c = assms [unfolded chained_def]
  have new: "?p \<notin> set xs" using c by auto
  show ?thesis
  proof (cases xs)
    case Nil
    then show ?thesis using c by (auto simp: create_thread_def chained_def upd_at_def Thread_new_def Let_def)
  next
    case (Cons x ys)
    with c have t: "tp_pool tp = Some x" by simp
    let ?g = "?h(x := map_option (\<lambda>th. th\<lparr>th_new := Some ?p\<rparr>) (?h x))"
    have "seg ?g (Some ?p) (Some x) xs None"
      using seg_set_new [of ?h None x ys None] c t Cons by simp
    then have "seg (?g(?p := Some (Thread_new (Some x)))) (Some ?p) (Some x) xs None"
      by (subst seg_cong [of _ _ ?g]) (use new in auto)
    moreover have "x \<noteq> ?p" "?h x \<noteq> None" using new Cons c by auto
    ultimately show ?thesis using c t new Cons
      by (auto simp: create_thread_def chained_def upd_at_def Thread_new_def Let_def)
  qed
qed


lemma seg_outside: "x \<notin> set xs \<Longrightarrow> seg (h(x := v)) prev p xs nxt \<longleftrightarrow> seg h prev p xs nxt"
  by (rule seg_cong) auto

lemma chained_finalize:
  assumes c: "chained tp (as @ p # bs)"
  shows "chained (finalize p tp) (as @ bs)"
proof -
  let ?h = "tp_threads tp"
  from c have "p \<in> dom ?h" by (simp add: chained_def)
  then obtain th where th: "?h p = Some th" by blast
  note l = chained_links [OF c th]
  note d = c [unfolded chained_def]
  have segs: "seg ?h None (tp_pool tp) as (Some p)" "seg ?h (Some p) (start_of bs None) bs None"
    using d th l(2) by (auto simp: seg_append)
  define h1 where "h1 = (case end_of None as of None \<Rightarrow> ?h
      | Some n \<Rightarrow> ?h(n := map_option (\<lambda>t. t\<lparr>th_old := start_of bs None\<rparr>) (?h n)))"
  define h2 where "h2 = (case start_of bs None of None \<Rightarrow> h1
      | Some q \<Rightarrow> h1(q := map_option (\<lambda>t. t\<lparr>th_new := end_of None as\<rparr>) (h1 q)))"
  have fin: "tp_threads (finalize p tp) = h2(p := None)" "tp_next (finalize p tp) = tp_next tp"
    "tp_pool (finalize p tp) = (if as = [] then start_of bs None else tp_pool tp)"
    by (auto simp: finalize_def th l unchain_def h1_def h2_def upd_at_def start_of_def end_of_def split: option.splits)
  have dom: "dom h2 = set (as @ p # bs)" using d
    by (auto simp: h2_def h1_def start_of_def end_of_def)
  have dist: "distinct (as @ bs)" "p \<notin> set as" "p \<notin> set bs" using d by auto
  have left: "seg h1 None (tp_pool (finalize p tp)) as (start_of bs None)"
  proof (cases as rule: rev_cases)
    case (snoc ys n)
    then show ?thesis using seg_set_old [of ?h None "tp_pool tp" ys n] segs(1) dist by (simp add: h1_def end_of_def fin)
  qed (simp add: fin)
  have h1_bs: "h1 x = ?h x" if "x \<in> set bs" for x
    using that dist(1) by (cases as rule: rev_cases) (auto simp: h1_def end_of_def)
  have "seg h1 (Some p) (start_of bs None) bs None" using segs(2) seg_cong [of bs h1 ?h] h1_bs by simp
  then have right: "seg h2 (end_of None as) (start_of bs None) bs None"
  proof (cases bs)
    case (Cons q ys)
    with dist \<open>seg h1 (Some p) (start_of bs None) bs None\<close> show ?thesis
      using seg_set_new [of h1 "Some p" q ys None] by (simp add: h2_def)
  qed simp
  have left2: "seg h2 None (tp_pool (finalize p tp)) as (start_of bs None)"
    using left dist(1) by (cases bs) (auto simp: h2_def seg_outside)
  have "seg (h2(p := None)) None (tp_pool (finalize p tp)) (as @ bs) None"
    using left2 right dist by (simp add: seg_append seg_outside)
  with d dist dom fin show ?thesis by (auto simp: chained_def)
qed


section \<open>What the threads are besides their links\<close>

definition strip :: "pthread \<Rightarrow> pthread" where
  "strip th = th\<lparr>th_old := None, th_new := None\<rparr>"

definition bodies :: "threadpool \<Rightarrow> nat \<Rightarrow> pthread option" where
  "bodies tp = (\<lambda>p. map_option strip (tp_threads tp p))"

definition crew :: "(pthread \<Rightarrow> bool) \<Rightarrow> (nat \<Rightarrow> pthread option) \<Rightarrow> nat set" where
  "crew P B = {p. \<exists>th. B p = Some th \<and> P th}"

lemma strip_simps [simp]:
  "strip (t\<lparr>th_old := q\<rparr>) = strip t" "strip (t\<lparr>th_new := q\<rparr>) = strip t"
  "strip (t\<lparr>th_pc := pc\<rparr>) = (strip t)\<lparr>th_pc := pc\<rparr>" "strip (t\<lparr>th_notifiedStop := b\<rparr>) = (strip t)\<lparr>th_notifiedStop := b\<rparr>"
  "strip (t\<lparr>th_running := b, th_stopped := c\<rparr>) = (strip t)\<lparr>th_running := b, th_stopped := c\<rparr>"
  "th_pc (strip t) = th_pc t" "th_notifiedStop (strip t) = th_notifiedStop t"
  "th_running (strip t) = th_running t" "th_stopped (strip t) = th_stopped t"
  by (simp_all add: strip_def)

lemma crew_Some: "crew P (B(p \<mapsto> th)) = (if P th then insert p (crew P B) else crew P B - {p})"
  by (auto simp: crew_def)

lemma crew_None: "crew P (B(p := None)) = crew P B - {p}"
  by (auto simp: crew_def)

lemma crew_mem: "B p = Some th \<Longrightarrow> p \<in> crew P B \<longleftrightarrow> P th"
  by (auto simp: crew_def)

lemma dom_bodies: "dom (bodies tp) = dom (tp_threads tp)"
  by (auto simp: bodies_def)

lemma crew_dom: "crew P (bodies tp) \<subseteq> dom (tp_threads tp)"
  by (auto simp: crew_def bodies_def)

lemma card_crew_upd:
  assumes "finite (dom B)" "B p = Some t"
  shows "card (crew P (B(p \<mapsto> u))) + of_bool (P t) = card (crew P B) + of_bool (P u)"
proof -
  have f: "finite (crew P B)" using assms(1) by (rule finite_subset [rotated]) (auto simp: crew_def)
  then have "0 < card (crew P B)" if "P t" using that assms(2) by (auto simp: crew_def card_gt_0_iff)
  with f assms(2) show ?thesis by (auto simp: crew_Some crew_mem card_insert_if card_Diff_singleton)
qed

lemma bodies_upd:
  "(\<And>t. strip (f t) = f (strip t)) \<Longrightarrow> bodies (upd_thread p f tp) = (bodies tp)(p := map_option f (bodies tp p))"
  by (auto simp: bodies_def fun_eq_iff option.map_comp comp_def)

lemma strip_Thread_new [simp]: "strip (Thread_new q) = Thread_new None"
  by (simp add: strip_def Thread_new_def)

lemma bodies_create:
  "bodies (snd (create_thread tp)) = (bodies tp)(tp_next tp \<mapsto> Thread_new None)"
  by (auto simp: bodies_def create_thread_def upd_at_def Let_def fun_eq_iff option.map_comp comp_def
      split: option.splits)

lemma bodies_finalize: "bodies (finalize p tp) = (bodies tp)(p := None)"
  by (auto simp: bodies_def finalize_def unchain_def upd_at_def Let_def fun_eq_iff option.map_comp comp_def
      split: option.splits)

section \<open>The invariant\<close>

text \<open>The threads that exist are the chain, and \<open>m_poolSize\<close> is their number.\<close>

definition pool_chain :: "threadpool \<Rightarrow> bool" where
  "pool_chain tp \<longleftrightarrow> (\<exists>xs. chained tp xs \<and> unat (tp_poolSize tp) = length xs)"

definition in_wait :: "pthread \<Rightarrow> bool" where
  "in_wait t \<longleftrightarrow> th_pc t = Filling \<or> th_pc t = Blocked \<or> th_pc t = Left"

definition pool_counts :: "threadpool \<Rightarrow> bool" where
  "pool_counts tp \<longleftrightarrow> unat (tp_waitingCount tp) = card (crew in_wait (bodies tp))
     \<and> unat (oe_waitingCount (tp_queueFill tp)) = card (crew (\<lambda>t. th_pc t = Blocked) (bodies tp))"

definition pool_active :: "threadpool \<Rightarrow> bool" where
  "pool_active tp \<longleftrightarrow> tp_suspended tp \<or> card (crew (\<lambda>t. \<not> th_notifiedStop t) (bodies tp)) \<le> unat (tp_maxSize tp)"

definition flags_ok :: "pthread \<Rightarrow> bool" where
  "flags_ok t \<longleftrightarrow> th_running t = (th_pc t \<noteq> Starting \<and> th_pc t \<noteq> Finalizing) \<and> th_stopped t = (\<not> th_running t)"

definition pool_flags :: "threadpool \<Rightarrow> bool" where
  "pool_flags tp \<longleftrightarrow> (\<forall>p t. bodies tp p = Some t \<longrightarrow> flags_ok t)"

text \<open>The workers: each is taken once, they leave the queue in the order in which they came, and no two threads have the
  same one.\<close>

definition pool_work :: "threadpool \<Rightarrow> bool" where
  "pool_work tp \<longleftrightarrow> distinct (tp_accepted tp) \<and> tp_accepted tp = tp_out tp @ tp_queue tp
     \<and> (\<forall>k. tp_queued tp k \<longleftrightarrow> k \<in> set (tp_accepted tp))
     \<and> (\<forall>p t k. bodies tp p = Some t \<and> th_pc t = Working k \<longrightarrow> k \<in> set (tp_out tp))
     \<and> (\<forall>p q t u k. bodies tp p = Some t \<and> bodies tp q = Some u \<and> th_pc t = Working k \<and> th_pc u = Working k \<longrightarrow> p = q)"

definition pool_inv :: "threadpool \<Rightarrow> bool" where
  "pool_inv tp \<longleftrightarrow> pool_chain tp \<and> pool_counts tp \<and> pool_active tp \<and> pool_flags tp \<and> pool_work tp"

lemma unat_u32: "unat (x :: u32) < 4294967296"
  using unsigned_less [of x] by simp

lemma unat_inc: "unat x < 2 ^ 32 - 1 \<Longrightarrow> unat (x + 1 :: u32) = unat x + 1"
  by (simp add: unat_plus_if' del: unat_plus_simple)

lemma unat_dec: "0 < unat x \<Longrightarrow> unat (x - 1 :: u32) = unat x - 1"
  by (metis less_numeral_extra(3) unat_0 unat_minus_one)

lemma pool_chain_card:
  assumes "pool_chain tp"
  shows "finite (dom (tp_threads tp))" "card (dom (tp_threads tp)) = unat (tp_poolSize tp)"
proof -
  from assms obtain xs where "chained tp xs" "unat (tp_poolSize tp) = length xs" by (auto simp: pool_chain_def)
  then show "finite (dom (tp_threads tp))" "card (dom (tp_threads tp)) = unat (tp_poolSize tp)"
    by (simp_all add: chained_def distinct_card)
qed

lemma crew_bound:
  assumes "pool_chain tp"
  shows "finite (crew P (bodies tp))" "card (crew P (bodies tp)) \<le> unat (tp_poolSize tp)"
    "tp_threads tp p = Some t \<Longrightarrow> p \<notin> crew P (bodies tp) \<Longrightarrow> card (crew P (bodies tp)) < unat (tp_poolSize tp)"
proof -
  note c = pool_chain_card [OF assms]
  show f: "finite (crew P (bodies tp))" using c(1) crew_dom by (rule finite_subset [rotated])
  show "card (crew P (bodies tp)) \<le> unat (tp_poolSize tp)" using c card_mono [OF c(1) crew_dom] by simp
  show "card (crew P (bodies tp)) < unat (tp_poolSize tp)" if "tp_threads tp p = Some t" "p \<notin> crew P (bodies tp)"
  proof -
    have "crew P (bodies tp) \<subset> dom (tp_threads tp)" using crew_dom [of P tp] that by blast
    from psubset_card_mono [OF c(1) this] c(2) show ?thesis by simp
  qed
qed

section \<open>Steps of a thread\<close>

lemma bodies_cong: "tp_threads a = tp_threads b \<Longrightarrow> bodies a = bodies b"
  by (simp add: bodies_def)

lemma pool_chain_cong:
  "tp_threads a = tp_threads b \<Longrightarrow> tp_pool a = tp_pool b \<Longrightarrow> tp_next a = tp_next b \<Longrightarrow> tp_poolSize a = tp_poolSize b
   \<Longrightarrow> pool_chain a \<longleftrightarrow> pool_chain b"
  by (simp add: pool_chain_def chained_def)

lemma bodies_Some: "tp_threads tp p = Some th \<Longrightarrow> bodies tp p = Some (strip th)"
  by (simp add: bodies_def)

lemma bodies_fields [simp]:
  "bodies (tp\<lparr>tp_waitingCount := n\<rparr>) = bodies tp" "bodies (tp\<lparr>tp_queueFill := e\<rparr>) = bodies tp"
  "bodies (tp\<lparr>tp_queueEmpty := e\<rparr>) = bodies tp" "bodies (tp\<lparr>tp_queue := q, tp_out := r\<rparr>) = bodies tp"
  "bodies (tp\<lparr>tp_queueEmpty := e, tp_queue := q, tp_out := r\<rparr>) = bodies tp"
  by (simp_all add: bodies_def)

lemma at_pc_bodies [simp]: "bodies (at_pc p pc tp) = (bodies tp)(p := map_option (\<lambda>t. t\<lparr>th_pc := pc\<rparr>) (bodies tp p))"
  unfolding at_pc_def by (rule bodies_upd) simp

lemma chain_upd: "(\<And>t. links (f t) = links t) \<Longrightarrow> pool_chain (upd_thread p f tp) \<longleftrightarrow> pool_chain tp"
  by (simp add: pool_chain_def chained_upd)

lemma chain_at_pc [simp]: "pool_chain (at_pc p pc tp) \<longleftrightarrow> pool_chain tp"
  unfolding at_pc_def by (rule chain_upd) (simp add: links_def)

lemma at_pc_simps [simp]:
  "tp_waitingCount (at_pc p pc tp) = tp_waitingCount tp" "tp_queueFill (at_pc p pc tp) = tp_queueFill tp"
  "tp_suspended (at_pc p pc tp) = tp_suspended tp" "tp_maxSize (at_pc p pc tp) = tp_maxSize tp"
  "tp_queue (at_pc p pc tp) = tp_queue tp" "tp_out (at_pc p pc tp) = tp_out tp"
  "tp_accepted (at_pc p pc tp) = tp_accepted tp" "tp_queued (at_pc p pc tp) = tp_queued tp"
  "tp_stopped (at_pc p pc tp) = tp_stopped tp" "tp_poolSize (at_pc p pc tp) = tp_poolSize tp"
  by (simp_all add: at_pc_def)

lemma counts_move:
  assumes "pool_chain tp" "pool_counts tp" "bodies tp p = Some t" "bodies tp1 = (bodies tp)(p \<mapsto> u)"
    "unat (tp_waitingCount tp1) + of_bool (in_wait t) = unat (tp_waitingCount tp) + of_bool (in_wait u)"
    "unat (oe_waitingCount (tp_queueFill tp1)) + of_bool (th_pc t = Blocked)
      = unat (oe_waitingCount (tp_queueFill tp)) + of_bool (th_pc u = Blocked)"
  shows "pool_counts tp1"
proof -
  have f: "finite (dom (bodies tp))" using pool_chain_card [OF assms(1)] by (simp add: dom_bodies)
  from card_crew_upd [OF f assms(3), of in_wait u] card_crew_upd [OF f assms(3), of "\<lambda>t. th_pc t = Blocked" u] assms(2,5,6)
  show ?thesis by (simp add: pool_counts_def assms(4))
qed

lemma active_move:
  assumes "pool_active tp" "bodies tp p = Some t" "bodies tp1 = (bodies tp)(p \<mapsto> u)" "th_notifiedStop u = th_notifiedStop t"
    "tp_suspended tp1 = tp_suspended tp" "tp_maxSize tp1 = tp_maxSize tp"
  shows "pool_active tp1"
proof -
  have "crew (\<lambda>t. \<not> th_notifiedStop t) (bodies tp1) = crew (\<lambda>t. \<not> th_notifiedStop t) (bodies tp)"
    using assms(2-4) by (auto simp: crew_def)
  with assms(1,5,6) show ?thesis by (simp add: pool_active_def)
qed

lemma flags_move:
  "pool_flags tp \<Longrightarrow> bodies tp1 = (bodies tp)(p \<mapsto> u) \<Longrightarrow> flags_ok u \<Longrightarrow> pool_flags tp1"
  by (auto simp: pool_flags_def)

lemma work_move:
  assumes "pool_work tp" "bodies tp1 = (bodies tp)(p \<mapsto> u)" "\<And>k. th_pc u \<noteq> Working k"
    "tp_accepted tp1 = tp_accepted tp" "tp_out tp1 = tp_out tp" "tp_queue tp1 = tp_queue tp" "tp_queued tp1 = tp_queued tp"
  shows "pool_work tp1"
  using assms by (auto simp: pool_work_def)

lemma work_pop:
  assumes "pool_work tp" "bodies tp1 = (bodies tp)(p \<mapsto> u)" "th_pc u = Working k" "tp_queue tp = k # q"
    "tp_accepted tp1 = tp_accepted tp" "tp_out tp1 = tp_out tp @ [k]" "tp_queue tp1 = q" "tp_queued tp1 = tp_queued tp"
  shows "pool_work tp1"
proof -
  have "k \<notin> set (tp_out tp)" using assms(1,4) by (auto simp: pool_work_def)
  with assms show ?thesis by (fastforce simp: pool_work_def)
qed

text \<open>A move of one thread that changes its place, its flags and the counters as it must.\<close>

lemma inv_move:
  assumes inv: "pool_inv tp" "bodies tp p = Some t" and b: "bodies tp1 = (bodies tp)(p \<mapsto> u)" and c: "pool_chain tp1"
    and w: "unat (tp_waitingCount tp1) + of_bool (in_wait t) = unat (tp_waitingCount tp) + of_bool (in_wait u)"
    and e: "unat (oe_waitingCount (tp_queueFill tp1)) + of_bool (th_pc t = Blocked)
      = unat (oe_waitingCount (tp_queueFill tp)) + of_bool (th_pc u = Blocked)"
    and s: "th_notifiedStop u = th_notifiedStop t" "tp_suspended tp1 = tp_suspended tp" "tp_maxSize tp1 = tp_maxSize tp"
    and f: "flags_ok u" and k: "pool_work tp1"
  shows "pool_inv tp1"
  using counts_move [OF _ _ inv(2) b w e] active_move [OF _ inv(2) b s] flags_move [OF _ b f] c k inv(1)
  by (simp add: pool_inv_def)

lemma event_leave_count [simp]: "oe_waitingCount (snd (event_leave e)) = oe_waitingCount e - 1"
  by (simp add: event_leave_def event_reset_def Let_def)

lemma event_enter_count [simp]: "oe_waitingCount (event_enter e) = oe_waitingCount e + 1"
  by (simp add: event_enter_def)

lemma leave_fill_simps [simp]:
  "bodies (leave_fill p tp) = (bodies tp)(p := map_option (\<lambda>t. t\<lparr>th_pc := Left\<rparr>) (bodies tp p))"
  "tp_waitingCount (leave_fill p tp) = tp_waitingCount tp"
  "oe_waitingCount (tp_queueFill (leave_fill p tp)) = oe_waitingCount (tp_queueFill tp) - 1"
  "tp_suspended (leave_fill p tp) = tp_suspended tp" "tp_maxSize (leave_fill p tp) = tp_maxSize tp"
  "pool_chain (leave_fill p tp) \<longleftrightarrow> pool_chain tp"
  "tp_accepted (leave_fill p tp) = tp_accepted tp" "tp_out (leave_fill p tp) = tp_out tp"
  "tp_queue (leave_fill p tp) = tp_queue tp" "tp_queued (leave_fill p tp) = tp_queued tp"
  by (simp_all add: leave_fill_def cong: pool_chain_cong)

lemma pop_queue_simps:
  "pop_queue tp = (r, tp1) \<Longrightarrow> bodies tp1 = bodies tp \<and> tp_waitingCount tp1 = tp_waitingCount tp
     \<and> tp_queueFill tp1 = tp_queueFill tp \<and> tp_suspended tp1 = tp_suspended tp \<and> tp_maxSize tp1 = tp_maxSize tp
     \<and> pool_chain tp1 = pool_chain tp \<and> tp_accepted tp1 = tp_accepted tp \<and> tp_queued tp1 = tp_queued tp
     \<and> (case r of None \<Rightarrow> tp_out tp1 = tp_out tp \<and> tp_queue tp1 = tp_queue tp
        | Some k \<Rightarrow> tp_queue tp = k # tp_queue tp1 \<and> tp_out tp1 = tp_out tp @ [k])"
  by (auto simp: pop_queue_def Let_def pool_chain_def chained_def bodies_def split: if_splits list.splits)


lemma pool_inv_finalize:
  assumes inv: "pool_inv tp" and th: "tp_threads tp p = Some th" "\<not> in_wait th"
  shows "pool_inv (finalize p tp)"
proof -
  let ?f = "finalize p tp"
  from inv obtain xs where xs: "chained tp xs" "unat (tp_poolSize tp) = length xs" by (auto simp: pool_inv_def pool_chain_def)
  have "p \<in> set xs" using xs(1) th(1) by (auto simp: chained_def)
  then obtain as bs where s: "xs = as @ p # bs" by (meson split_list)
  have rest: "tp_poolSize ?f = tp_poolSize tp - 1" "tp_waitingCount ?f = tp_waitingCount tp" "tp_queueFill ?f = tp_queueFill tp"
    "tp_suspended ?f = tp_suspended tp" "tp_maxSize ?f = tp_maxSize tp" "tp_accepted ?f = tp_accepted tp"
    "tp_out ?f = tp_out tp" "tp_queue ?f = tp_queue tp" "tp_queued ?f = tp_queued tp"
    by (simp_all add: finalize_def th unchain_def upd_at_def Let_def split: option.splits)
  have c: "pool_chain ?f" using chained_finalize xs(2) unfolding pool_chain_def rest(1)
    by (intro exI [of _ "as @ bs"]) (use xs(1) s in \<open>auto simp: unat_dec\<close>)
  have w: "\<not> in_wait (strip th)" "th_pc (strip th) \<noteq> Blocked" using th(2) by (auto simp: in_wait_def)
  have out: "p \<notin> crew in_wait (bodies tp)" "p \<notin> crew (\<lambda>t. th_pc t = Blocked) (bodies tp)"
    using w bodies_Some [of tp p] th(1) by (auto simp: crew_def)
  have "pool_counts ?f" using inv out by (simp add: pool_inv_def pool_counts_def bodies_finalize crew_None rest)
  moreover have "card (crew (\<lambda>t. \<not> th_notifiedStop t) (bodies ?f)) \<le> card (crew (\<lambda>t. \<not> th_notifiedStop t) (bodies tp))"
    using crew_bound(1) inv by (auto simp: bodies_finalize crew_None pool_inv_def intro!: card_mono)
  then have "pool_active ?f" using inv by (auto simp: pool_inv_def pool_active_def rest)
  moreover have "pool_flags ?f" "pool_work ?f" using inv
    by (auto simp: pool_inv_def pool_flags_def pool_work_def bodies_finalize rest split: if_split_asm)
  ultimately show ?thesis using c by (simp add: pool_inv_def)
qed

lemma step_flags: "pool_inv tp \<Longrightarrow> tp_threads tp p = Some th \<Longrightarrow> flags_ok (strip th)"
  using bodies_Some by (fastforce simp: pool_inv_def pool_flags_def)

lemma pool_inv_wait:
  assumes inv: "pool_inv tp" and th: "tp_threads tp p = Some th"
  shows "th_pc th = Entering \<Longrightarrow> unat (tp_waitingCount tp + 1) = unat (tp_waitingCount tp) + 1"
    "th_pc th = Filling \<Longrightarrow> unat (oe_waitingCount (tp_queueFill tp) + 1) = unat (oe_waitingCount (tp_queueFill tp)) + 1"
    "th_pc th = Blocked \<Longrightarrow> unat (oe_waitingCount (tp_queueFill tp) - 1) = unat (oe_waitingCount (tp_queueFill tp)) - 1 \<and> 0 < unat (oe_waitingCount (tp_queueFill tp))"
    "th_pc th = Left \<Longrightarrow> unat (tp_waitingCount tp - 1) = unat (tp_waitingCount tp) - 1 \<and> 0 < unat (tp_waitingCount tp)"
proof -
  have c: "pool_chain tp" and k: "pool_counts tp" using inv by (simp_all add: pool_inv_def)
  note b = bodies_Some [OF th] and bound = crew_bound [OF c]
  have size: "unat (tp_poolSize tp) < 2 ^ 32" using unat_u32 [of "tp_poolSize tp"] by simp
  show "unat (tp_waitingCount tp + 1) = unat (tp_waitingCount tp) + 1" if "th_pc th = Entering"
  proof -
    have "p \<notin> crew in_wait (bodies tp)" using that b by (auto simp: crew_def in_wait_def)
    from bound(3) [OF th this] k size show ?thesis by (simp add: pool_counts_def unat_inc)
  qed
  show "unat (oe_waitingCount (tp_queueFill tp) + 1) = unat (oe_waitingCount (tp_queueFill tp)) + 1" if "th_pc th = Filling"
  proof -
    have "p \<notin> crew (\<lambda>t. th_pc t = Blocked) (bodies tp)" using that b by (auto simp: crew_def)
    from bound(3) [OF th this] k size show ?thesis by (simp add: pool_counts_def unat_inc)
  qed
  show "unat (oe_waitingCount (tp_queueFill tp) - 1) = unat (oe_waitingCount (tp_queueFill tp)) - 1 \<and> 0 < unat (oe_waitingCount (tp_queueFill tp))"
    if "th_pc th = Blocked"
  proof -
    have "p \<in> crew (\<lambda>t. th_pc t = Blocked) (bodies tp)" using that b by (auto simp: crew_def)
    then have "0 < unat (oe_waitingCount (tp_queueFill tp))" using k bound(1) by (auto simp: pool_counts_def card_gt_0_iff)
    then show ?thesis by (simp add: unat_dec)
  qed
  show "unat (tp_waitingCount tp - 1) = unat (tp_waitingCount tp) - 1 \<and> 0 < unat (tp_waitingCount tp)" if "th_pc th = Left"
  proof -
    have "p \<in> crew in_wait (bodies tp)" using that b by (auto simp: crew_def in_wait_def)
    then have "0 < unat (tp_waitingCount tp)" using k bound(1) by (auto simp: pool_counts_def card_gt_0_iff)
    then show ?thesis by (simp add: unat_dec)
  qed
qed


lemma step_at_inv:
  assumes inv: "pool_inv tp" and th: "tp_threads tp p = Some th"
  shows "pool_inv (step_at p th tp)"
proof -
  note b = bodies_Some [OF th] and f = step_flags [OF inv th] and w = pool_inv_wait [OF inv th]
  have c: "pool_chain tp" and k: "pool_work tp" using inv by (simp_all add: pool_inv_def)
  note move = inv_move [OF inv b]
  show ?thesis
  proof (cases "th_pc th")
    case Starting
    have "bodies (step_at p th tp) = (bodies tp)(p \<mapsto> (strip th)\<lparr>th_running := True, th_stopped := False, th_pc := Testing False\<rparr>)"
      by (simp add: step_at_def Starting bodies_upd b)
    then show ?thesis
      by (rule move) (use Starting c work_move [OF k] in \<open>auto simp: step_at_def chain_upd links_def in_wait_def flags_ok_def
          bodies_upd b\<close>)
  next
    case (Testing v)
    show ?thesis
      by (rule move [where u = "(strip th)\<lparr>th_pc := (if th_notifiedStop th \<or> th_stopped th then Ending else Popping v)\<rparr>"])
        (use Testing c f work_move [OF k] in \<open>auto simp: step_at_def b in_wait_def flags_ok_def\<close>)
  next
    case (Popping v)
    obtain r tp1 where r: "pop_queue tp = (r, tp1)" by (cases "pop_queue tp")
    note q = pop_queue_simps [OF r]
    show ?thesis
    proof (cases r)
      case None
      show ?thesis
        by (rule move [where u = "(strip th)\<lparr>th_pc := (if v then Ending else Entering)\<rparr>"])
          (use Popping None c f r q work_move [OF k] in \<open>auto simp: step_at_def b in_wait_def flags_ok_def\<close>)
    next
      case (Some n)
      show ?thesis
        by (rule move [where u = "(strip th)\<lparr>th_pc := Working n\<rparr>"])
          (use Popping Some c f r q in \<open>auto simp: step_at_def b in_wait_def flags_ok_def intro!: work_pop [OF k]\<close>)
    qed
  next
    case (Working n)
    show ?thesis
      by (rule move [where u = "(strip th)\<lparr>th_pc := Testing False\<rparr>"])
        (use Working c f work_move [OF k] in \<open>auto simp: step_at_def b in_wait_def flags_ok_def\<close>)
  next
    case Entering
    show ?thesis
      by (rule move [where u = "(strip th)\<lparr>th_pc := Filling\<rparr>"])
        (use Entering c f w(1) work_move [OF k] in \<open>auto simp: step_at_def b in_wait_def flags_ok_def cong: pool_chain_cong\<close>)
  next
    case Filling
    show ?thesis
      by (rule move [where u = "(strip th)\<lparr>th_pc := (if oe_notified (tp_queueFill tp) then Left else Blocked)\<rparr>"])
        (use Filling c f w(2) work_move [OF k] in \<open>auto simp: step_at_def b in_wait_def flags_ok_def Let_def event_enter_def cong: pool_chain_cong\<close>)
  next
    case Blocked
    show ?thesis
      by (rule move [where u = "(strip th)\<lparr>th_pc := Left\<rparr>"])
        (use Blocked c f w(3) work_move [OF k] in \<open>auto simp: step_at_def b in_wait_def flags_ok_def\<close>)
  next
    case Left
    show ?thesis
      by (rule move [where u = "(strip th)\<lparr>th_pc := Testing True\<rparr>"])
        (use Left c f w(4) work_move [OF k] in \<open>auto simp: step_at_def b in_wait_def flags_ok_def cong: pool_chain_cong\<close>)
  next
    case Ending
    show ?thesis
      by (rule move [where u = "(strip th)\<lparr>th_running := False, th_stopped := True, th_pc := Finalizing\<rparr>"])
        (use Ending c work_move [OF k] in \<open>auto simp: step_at_def chain_upd links_def in_wait_def flags_ok_def bodies_upd b\<close>)
  next
    case Finalizing
    then show ?thesis using pool_inv_finalize [OF inv th] by (simp add: step_at_def in_wait_def)
  qed
qed

end
