(* ===== verification/PoolRuns.thy ===== *)
theory PoolRuns
  imports PoolLaws
begin

text \<open>
  The thread pool as a whole: growing, shrinking and the operations keep the invariant, so it holds in every state
  that can be reached; a destroyed pool comes to its end; and states that the code does not mean to reach.
\<close>

section \<open>Growing and shrinking\<close>

lemma pool_inv_cong:
  assumes "bodies a = bodies b" "pool_chain a \<longleftrightarrow> pool_chain b" "tp_waitingCount a = tp_waitingCount b"
    "oe_waitingCount (tp_queueFill a) = oe_waitingCount (tp_queueFill b)" "tp_suspended a = tp_suspended b"
    "tp_maxSize a = tp_maxSize b" "tp_accepted a = tp_accepted b" "tp_out a = tp_out b" "tp_queue a = tp_queue b"
    "tp_queued a = tp_queued b"
  shows "pool_inv a \<longleftrightarrow> pool_inv b"
  by (simp add: pool_inv_def pool_counts_def pool_active_def pool_flags_def pool_work_def assms)

definition pool_base :: "threadpool \<Rightarrow> bool" where
  "pool_base tp \<longleftrightarrow> pool_chain tp \<and> pool_counts tp \<and> pool_flags tp \<and> pool_work tp"

lemma pool_inv_base: "pool_inv tp \<longleftrightarrow> pool_base tp \<and> pool_active tp"
  by (auto simp: pool_inv_def pool_base_def)

lemma small_active: "pool_chain tp \<Longrightarrow> tp_poolSize tp \<le> tp_maxSize tp \<Longrightarrow> pool_active tp"
  using crew_bound(2) [of tp "\<lambda>t. \<not> th_notifiedStop t"] by (fastforce simp: pool_active_def word_le_nat_alt)

lemma small_inv: "pool_base tp \<Longrightarrow> tp_poolSize tp \<le> tp_maxSize tp \<Longrightarrow> pool_inv tp"
  by (simp add: pool_inv_base small_active pool_base_def)

lemma create_thread_fields:
  assumes "create_thread tp = (p, tp1)"
  shows "tp_poolSize tp1 = tp_poolSize tp + 1" "tp_maxSize tp1 = tp_maxSize tp" "tp_waitingCount tp1 = tp_waitingCount tp"
    "tp_queueFill tp1 = tp_queueFill tp" "tp_suspended tp1 = tp_suspended tp" "tp_accepted tp1 = tp_accepted tp"
    "tp_out tp1 = tp_out tp" "tp_queue tp1 = tp_queue tp" "tp_queued tp1 = tp_queued tp" "p = tp_next tp"
    "tp_stopped tp1 = tp_stopped tp"
  using assms by (auto simp: create_thread_def upd_at_def Let_def split: option.splits)

lemma next_fresh: "pool_chain tp \<Longrightarrow> bodies tp (tp_next tp) = None"
proof -
  assume "pool_chain tp"
  then obtain xs where "chained tp xs" by (auto simp: pool_chain_def)
  then have "tp_next tp \<notin> dom (tp_threads tp)" by (auto simp: chained_def)
  then show ?thesis by (auto simp: bodies_def)
qed

lemma create_thread_base:
  assumes inv: "pool_base tp" and room: "tp_poolSize tp < tp_maxSize tp" and c: "create_thread tp = (p, tp1)"
  shows "pool_base tp1" "tp_poolSize tp1 \<le> tp_maxSize tp1" "bodies tp1 p = Some (Thread_new None)"
proof -
  note f = create_thread_fields [OF c]
  have b: "bodies tp1 = (bodies tp)(p \<mapsto> Thread_new None)" using bodies_create [of tp] c f(10) by simp
  have fresh: "bodies tp p = None" using next_fresh inv f(10) by (simp add: pool_base_def)
  have size: "unat (tp_poolSize tp1) = unat (tp_poolSize tp) + 1"
    using room unat_u32 [of "tp_maxSize tp"] by (simp add: f unat_inc word_less_nat_alt)
  then show "tp_poolSize tp1 \<le> tp_maxSize tp1" using room by (simp add: f(2) word_le_nat_alt word_less_nat_alt)
  show "bodies tp1 p = Some (Thread_new None)" by (simp add: b)
  have same: "crew P (bodies tp1) = crew P (bodies tp)" if "\<not> P (Thread_new None)" for P
    using that fresh by (auto simp: b crew_Some crew_def)
  obtain xs where "chained tp xs" "unat (tp_poolSize tp) = length xs" using inv by (auto simp: pool_base_def pool_chain_def)
  then have "pool_chain tp1" using chained_new [of tp xs] c size by (auto simp: pool_chain_def intro!: exI [of _ "p # xs"])
  moreover have "pool_counts tp1" using inv
    by (simp add: pool_base_def pool_counts_def f same in_wait_def Thread_new_def)
  moreover have "pool_flags tp1" using inv flags_move [OF _ b]
    by (simp add: pool_base_def flags_ok_def Thread_new_def)
  moreover have "pool_work tp1" using inv work_move [OF _ b] by (simp add: pool_base_def f Thread_new_def)
  ultimately show "pool_base tp1" by (simp add: pool_base_def)
qed

lemma start_thread_new:
  assumes "bodies tp p = Some (Thread_new None)" "start_thread p tp = (ok, tp1)"
  shows "bodies tp1 = bodies tp" "pool_chain tp1 \<longleftrightarrow> pool_chain tp" "pool_inv tp1 \<longleftrightarrow> pool_inv tp"
    "tp_poolSize tp1 = tp_poolSize tp" "tp_maxSize tp1 = tp_maxSize tp"
proof -
  from assms(1) obtain th where th: "tp_threads tp p = Some th" "strip th = Thread_new None" by (auto simp: bodies_def)
  have r: "\<not> th_running th" using arg_cong [OF th(2), of th_running] by (simp add: Thread_new_def)
  have eq: "tp1 = upd_thread p (\<lambda>t. t\<lparr>th_notifiedStop := False\<rparr>) tp" using assms(2) th(1) r by (simp add: start_thread_def)
  have "bodies tp1 = (bodies tp)(p := map_option (\<lambda>t. t\<lparr>th_notifiedStop := False\<rparr>) (bodies tp p))"
    unfolding eq by (rule bodies_upd) simp
  then show b: "bodies tp1 = bodies tp" using assms(1) by (simp add: fun_eq_iff Thread_new_def)
  show c: "pool_chain tp1 \<longleftrightarrow> pool_chain tp" unfolding eq by (rule chain_upd) (simp add: links_def)
  show "pool_inv tp1 \<longleftrightarrow> pool_inv tp" by (rule pool_inv_cong [OF b c]) (simp_all add: eq)
  show "tp_poolSize tp1 = tp_poolSize tp" "tp_maxSize tp1 = tp_maxSize tp" by (simp_all add: eq)
qed

lemma finalize_sizes: "tp_threads tp p = Some th \<Longrightarrow> tp_poolSize (finalize p tp) = tp_poolSize tp - 1 \<and> tp_maxSize (finalize p tp) = tp_maxSize tp"
  by (simp add: finalize_def unchain_def upd_at_def Let_def split: option.splits)

lemma grow_inv: "pool_inv tp \<Longrightarrow> tp_poolSize tp \<le> tp_maxSize tp \<Longrightarrow> pool_inv (grow i tp) \<and> tp_poolSize (grow i tp) \<le> tp_maxSize (grow i tp)"
proof (induction i tp rule: grow.induct)
  case (2 i tp)
  show ?case
  proof (cases "tp_poolSize tp \<ge> tp_maxSize tp")
    case False
    obtain p tp1 where c: "create_thread tp = (p, tp1)" by (cases "create_thread tp")
    obtain ok tp2 where s: "start_thread p tp1 = (ok, tp2)" by (cases "start_thread p tp1")
    have base: "pool_base tp" using 2(2) by (simp add: pool_inv_base)
    note n = create_thread_base [OF base _ c]
    note t = start_thread_new [OF n(3) s]
    have i: "pool_inv tp2" "tp_poolSize tp2 \<le> tp_maxSize tp2" using n small_inv [OF n(1,2)] t False by simp_all
    have "bodies tp2 p = Some (Thread_new None)" using n(3) t(1) False by simp
    then obtain th where th: "tp_threads tp2 p = Some th" "strip th = Thread_new None" by (auto simp: bodies_def)
    have "\<not> in_wait th" using arg_cong [OF th(2), of th_pc] by (simp add: in_wait_def Thread_new_def)
    then have "pool_inv (finalize p tp2)" using pool_inv_finalize [OF i(1) th(1)] by simp
    moreover have "tp_poolSize (finalize p tp2) \<le> tp_maxSize (finalize p tp2)"
      using finalize_sizes [OF th(1)] create_thread_fields [OF c] t n(3) False by (simp add: not_le)
    ultimately show ?thesis using "2.IH" [OF False c [symmetric] s [symmetric]] False c s i by simp
  qed (use 2 in simp)
qed simp


text \<open>Stopping the first threads of the chain.\<close>

lemma links_flags [simp]: "links (t\<lparr>th_notifiedStop := b\<rparr>) = links t"
  by (simp add: links_def)

lemma shrink_threads:
  assumes "seg (tp_threads tp) prev p xs None" "distinct xs"
  shows "tp_threads (shrink k p tp) =
    (\<lambda>x. if x \<in> set (take k xs) then map_option (\<lambda>t. t\<lparr>th_notifiedStop := True\<rparr>) (tp_threads tp x) else tp_threads tp x)"
  using assms
proof (induction k arbitrary: tp prev p xs)
  case (Suc k)
  show ?case
  proof (cases xs)
    case (Cons x ys)
    with Suc.prems obtain th where th: "p = Some x" "tp_threads tp x = Some th" "seg (tp_threads tp) (Some x) (th_old th) ys None"
      "x \<notin> set ys" "distinct ys" by (auto split: option.splits)
    have "seg (tp_threads (stop_thread x tp)) (Some x) (th_old th) ys None"
      using th(3,4) by (simp add: stop_thread_def seg_outside)
    from Suc.IH [OF this th(5)] th Cons show ?thesis
      by (auto simp: stop_thread_def Let_def fun_eq_iff dest: in_set_takeD)
  next
    case Nil
    with Suc.prems show ?thesis by simp
  qed
qed simp

lemma shrink_fields [simp]:
  "tp_pool (shrink k p tp) = tp_pool tp" "tp_next (shrink k p tp) = tp_next tp"
  "tp_poolSize (shrink k p tp) = tp_poolSize tp" "tp_waitingCount (shrink k p tp) = tp_waitingCount tp"
  "tp_maxSize (shrink k p tp) = tp_maxSize tp" "tp_queue (shrink k p tp) = tp_queue tp"
  "tp_suspended (shrink k p tp) = tp_suspended tp" "tp_queueFill (shrink k p tp) = tp_queueFill tp"
  "tp_queued (shrink k p tp) = tp_queued tp" "tp_accepted (shrink k p tp) = tp_accepted tp" "tp_out (shrink k p tp) = tp_out tp"
  by (induction k p tp rule: shrink.induct) (simp_all add: stop_thread_def Let_def)

lemma stopped_parts:
  assumes b: "bodies tp1 = (\<lambda>x. if x \<in> S then map_option (\<lambda>t. t\<lparr>th_notifiedStop := True\<rparr>) (bodies tp x) else bodies tp x)"
    and f: "tp_waitingCount tp1 = tp_waitingCount tp" "tp_queueFill tp1 = tp_queueFill tp" "tp_accepted tp1 = tp_accepted tp"
      "tp_out tp1 = tp_out tp" "tp_queue tp1 = tp_queue tp" "tp_queued tp1 = tp_queued tp"
    and k: "pool_counts tp" "pool_flags tp" "pool_work tp"
  shows "pool_counts tp1" "pool_flags tp1" "pool_work tp1"
proof -
  have crew: "crew P (bodies tp1) = crew P (bodies tp)" if "\<And>t. P (t\<lparr>th_notifiedStop := True\<rparr>) = P t" for P
    using that by (auto simp: crew_def b)
  show "pool_counts tp1" using k(1) by (simp add: pool_counts_def f crew in_wait_def)
  show "pool_flags tp1" using k(2) by (force simp: pool_flags_def b flags_ok_def split: if_split_asm)
  have w: "(bodies tp1 x = Some t \<and> th_pc t = Working n) \<Longrightarrow> \<exists>u. bodies tp x = Some u \<and> th_pc u = Working n" for x t n
    by (auto simp: b split: if_split_asm)
  have out: "n \<in> set (tp_out tp)" if "bodies tp1 x = Some t" "th_pc t = Working n" for x t n
    using w [of x t n] that k(3) unfolding pool_work_def by blast
  have "x = y" if "bodies tp1 x = Some t" "bodies tp1 y = Some u" "th_pc t = Working n" "th_pc u = Working n" for x y t u n
    using w [of x t n] w [of y u n] that k(3) unfolding pool_work_def by blast
  with out show "pool_work tp1" using k(3) unfolding pool_work_def f by blast
qed

lemma chained_flags:
  assumes "chained tp xs" "\<And>x. map_option links (tp_threads tp1 x) = map_option links (tp_threads tp x)"
    "tp_pool tp1 = tp_pool tp" "tp_next tp1 = tp_next tp"
  shows "chained tp1 xs"
proof -
  have "dom (tp_threads tp1) = dom (tp_threads tp)" using assms(2) by (auto simp: dom_def) (metis map_option_eq_Some)+
  moreover have "seg (tp_threads tp1) None (tp_pool tp) xs None" using assms(1,2) seg_cong [of xs "tp_threads tp1" "tp_threads tp"]
    by (simp add: chained_def)
  ultimately show ?thesis using assms(1,3,4) by (simp add: chained_def)
qed

lemma shrink_base:
  assumes "pool_base tp" "tp_maxSize tp < tp_poolSize tp"
  shows "pool_inv (shrink (unat (tp_poolSize tp - tp_maxSize tp)) (tp_pool tp) tp)"
proof -
  let ?k = "unat (tp_poolSize tp - tp_maxSize tp)" let ?s = "shrink ?k (tp_pool tp) tp"
  obtain xs where xs: "chained tp xs" "unat (tp_poolSize tp) = length xs" using assms(1) by (auto simp: pool_base_def pool_chain_def)
  have t: "tp_threads ?s = (\<lambda>x. if x \<in> set (take ?k xs) then map_option (\<lambda>t. t\<lparr>th_notifiedStop := True\<rparr>) (tp_threads tp x) else tp_threads tp x)"
    by (rule shrink_threads [of _ None]) (use xs(1) in \<open>simp_all add: chained_def\<close>)
  have b: "bodies ?s = (\<lambda>x. if x \<in> set (take ?k xs) then map_option (\<lambda>t. t\<lparr>th_notifiedStop := True\<rparr>) (bodies tp x) else bodies tp x)"
    by (auto simp: bodies_def t fun_eq_iff option.map_comp comp_def)
  have c: "chained ?s xs" by (rule chained_flags [OF xs(1)]) (simp_all add: t option.map_comp comp_def)
  have "crew (\<lambda>t. \<not> th_notifiedStop t) (bodies ?s) \<subseteq> set (drop ?k xs)"
  proof
    fix x assume x: "x \<in> crew (\<lambda>t. \<not> th_notifiedStop t) (bodies ?s)"
    then have "x \<in> set xs" using crew_dom [of _ ?s] c unfolding chained_def by blast
    moreover have "x \<notin> set (take ?k xs)" using x by (auto simp: crew_def b)
    ultimately show "x \<in> set (drop ?k xs)" by (metis append_take_drop_id set_append UnE)
  qed
  then have "card (crew (\<lambda>t. \<not> th_notifiedStop t) (bodies ?s)) \<le> length (drop ?k xs)"
    by (meson List.finite_set card_length card_mono le_trans)
  moreover have "unat (tp_maxSize tp) < length xs" "?k = length xs - unat (tp_maxSize tp)"
    using assms(2) xs(2) by (simp_all add: word_less_nat_alt unat_sub_if')
  ultimately have "pool_active ?s" using xs(2) by (simp add: pool_active_def)
  moreover have "pool_chain ?s" using c xs(2) by (auto simp: pool_chain_def)
  ultimately show ?thesis using stopped_parts [OF b] assms(1) by (simp add: pool_inv_def pool_base_def)
qed

lemma resize_inv:
  assumes "pool_base tp"
  shows "pool_inv (resize tp)"
proof -
  have fill: "pool_inv (tp\<lparr>tp_queueFill := notify_all e\<rparr>) \<longleftrightarrow> pool_inv tp"
    if "oe_waitingCount e = oe_waitingCount (tp_queueFill tp)" for tp e
    using that by (intro pool_inv_cong) (simp_all add: notify_all_def cong: pool_chain_cong)
  consider "tp_poolSize tp \<le> tp_maxSize tp" | "tp_maxSize tp < tp_poolSize tp" by fastforce
  then show ?thesis
  proof cases
    case 1
    then show ?thesis using grow_inv [OF small_inv [OF assms 1]] small_inv [OF assms 1] by (auto simp: resize_def)
  next
    case 2
    then show ?thesis using shrink_base [OF assms 2] fill by (simp add: resize_def Let_def less_not_sym)
  qed
qed


section \<open>The operations keep the invariant\<close>

lemma enqueue_inv:
  assumes inv: "pool_inv tp" and e: "enqueue k tp = Some (ok, tp1)"
  shows "pool_inv tp1"
proof (cases "tp_stopped tp")
  case True
  then show ?thesis using inv e by (simp add: enqueue_def split: if_split_asm)
next
  case False
  let ?t = "tp\<lparr>tp_queued := (tp_queued tp)(k := True), tp_queue := tp_queue tp @ [k], tp_accepted := tp_accepted tp @ [k]\<rparr>"
  have k: "\<not> tp_queued tp k" using e by (simp add: enqueue_def split: if_split_asm)
  have b: "bodies (tp\<lparr>tp_queued := d, tp_queue := q, tp_accepted := a\<rparr>) = bodies tp" for d q a by (simp add: bodies_def)
  have base: "pool_base ?t"
    using inv k by (auto simp: pool_base_def pool_inv_def pool_counts_def pool_flags_def pool_work_def b cong: pool_chain_cong)
  have t: "pool_inv ?t" using base inv by (simp add: pool_inv_base pool_active_def b)
  have "pool_inv (?t\<lparr>tp_queueFill := notify_one (tp_queueFill tp)\<rparr>) \<longleftrightarrow> pool_inv ?t"
    by (rule pool_inv_cong) (simp_all add: notify_one_def bodies_def cong: pool_chain_cong)
  with t resize_inv [OF base] e k False show ?thesis by (auto simp: enqueue_def Let_def split: if_split_asm)
qed

lemma drop_queue_inv: "pool_inv tp \<Longrightarrow> pool_inv (drop_queue tp)"
  by (auto simp: drop_queue_def pool_inv_def pool_counts_def pool_active_def pool_flags_def pool_work_def bodies_def
      cong: pool_chain_cong)

lemma base_fields:
  "pool_base (tp\<lparr>tp_maxSize := n\<rparr>) \<longleftrightarrow> pool_base tp" "pool_base (tp\<lparr>tp_suspended := b\<rparr>) \<longleftrightarrow> pool_base tp"
  by (simp_all add: pool_base_def pool_counts_def pool_flags_def pool_work_def bodies_def cong: pool_chain_cong)

lemma pool_step_inv:
  assumes "pool_step tp tp1" "pool_inv tp"
  shows "pool_inv tp1"
  using assms
proof cases
  case (step_thread p)
  then show ?thesis using step_at_inv [OF assms(2)] by (auto simp: thread_step_def split: option.splits)
next
  case (step_max_size n)
  have "pool_base (tp\<lparr>tp_maxSize := n\<rparr>)" using assms(2) by (simp add: base_fields pool_inv_base)
  then show ?thesis using step_max_size resize_inv by (simp add: set_max_size_def Let_def pool_inv_base pool_active_def)
next
  case step_resume
  then show ?thesis using assms(2) resize_inv by (simp add: resume_def base_fields pool_inv_base)
next
  case step_suspend
  then show ?thesis using assms(2) by (simp add: suspend_def base_fields pool_inv_base pool_active_def)
next
  case step_reset
  have "pool_inv (tp\<lparr>tp_stopped := True\<rparr>) \<longleftrightarrow> pool_inv tp"
    by (rule pool_inv_cong) (simp_all add: bodies_def cong: pool_chain_cong)
  then show ?thesis using assms(2) step_reset by (simp add: pool_reset_def drop_queue_inv)
next
  case step_wait
  have "pool_inv (tp\<lparr>tp_queueEmpty := e\<rparr>) \<longleftrightarrow> pool_inv tp" for e
    by (rule pool_inv_cong) (simp_all cong: pool_chain_cong)
  then show ?thesis using assms(2) step_wait by (simp add: wait_empty_def Let_def split: prod.splits)
next
  case step_woken
  have "pool_inv tp1 \<longleftrightarrow> pool_inv tp" unfolding step_woken by (rule pool_inv_cong) (simp_all cong: pool_chain_cong)
  then show ?thesis using assms(2) by simp
next
  case (step_keep_alive n)
  have "pool_inv tp1 \<longleftrightarrow> pool_inv tp" unfolding step_keep_alive set_keep_alive_def
    by (rule pool_inv_cong) (simp_all add: bodies_def cong: pool_chain_cong)
  then show ?thesis using assms(2) by simp
next
  case step_stop
  have "pool_inv tp1 \<longleftrightarrow> pool_inv tp" unfolding step_stop pool_stop_def
    by (rule pool_inv_cong) (simp_all add: bodies_def cong: pool_chain_cong)
  then show ?thesis using assms(2) by simp
next
  case step_start
  have "pool_inv tp1 \<longleftrightarrow> pool_inv tp" unfolding step_start pool_start_def
    by (rule pool_inv_cong) (simp_all add: bodies_def cong: pool_chain_cong)
  then show ?thesis using assms(2) by simp
qed (rule enqueue_inv)

lemma pool_new_inv: "pool_inv (ThreadPool_new n creates)"
  by (simp add: ThreadPool_new_def pool_inv_def pool_chain_def chained_def pool_counts_def pool_active_def pool_flags_def
      pool_work_def bodies_def crew_def Event_new_def)

lemma pool_reachable_inv: "pool_reachable tp \<Longrightarrow> pool_inv tp"
  by (induction rule: pool_reachable.induct) (auto intro: pool_new_inv pool_step_inv)

section \<open>The destructor\<close>

lemma stop_all_shrink:
  assumes "seg (tp_threads tp) prev (Some x) (x # xs) None" "distinct (x # xs)"
  shows "stop_all x tp = Some (shrink (length (x # xs)) (Some x) tp)"
  using assms
proof (induction xs arbitrary: x prev tp)
  case Nil
  then show ?case by (auto simp: stop_all.simps [of x tp] stop_thread_def Let_def split: option.splits)
next
  case (Cons y ys)
  from Cons.prems obtain th where th: "tp_threads tp x = Some th" "th_old th = Some y"
    "seg (tp_threads tp) (Some x) (Some y) (y # ys) None" "x \<notin> set (y # ys)" "distinct (y # ys)"
    by (auto split: option.splits)
  have "seg (tp_threads (stop_thread x tp)) (Some x) (Some y) (y # ys) None"
    using th(3,4) seg_outside [of x "y # ys"] by (simp add: stop_thread_def del: seg.simps)
  from Cons.IH [OF this th(5)] th(1,2) show ?case
    by (simp add: stop_all.simps [of x tp] stop_thread_def Let_def)
qed

text \<open>A pool that is coming to its end: nothing is queued and every thread has been told to stop.\<close>

definition closing :: "threadpool \<Rightarrow> bool" where
  "closing tp \<longleftrightarrow> pool_inv tp \<and> tp_queue tp = [] \<and> (\<forall>p t. bodies tp p = Some t \<longrightarrow> th_notifiedStop t)"

lemma destroy_closing:
  assumes inv: "pool_inv tp"
  shows "\<exists>tp1. destroy tp = Some tp1 \<and> closing tp1 \<and> tp_poolSize tp1 = tp_poolSize tp \<and> (tp_pool tp1 = None \<longleftrightarrow> tp_pool tp = None)"
proof -
  let ?d = "drop_queue (tp\<lparr>tp_stopped := True\<rparr>)"
  obtain xs where xs: "chained tp xs" "unat (tp_poolSize tp) = length xs" using inv by (auto simp: pool_inv_def pool_chain_def)
  have "pool_inv (tp\<lparr>tp_stopped := True\<rparr>) \<longleftrightarrow> pool_inv tp"
    by (rule pool_inv_cong) (simp_all add: bodies_def cong: pool_chain_cong)
  then have "pool_inv ?d" using inv drop_queue_inv by blast
  moreover have "tp_queue ?d = []" by (simp add: drop_queue_def)
  ultimately have d: "pool_inv ?d" "tp_queue ?d = []" by blast+
  have same: "tp_pool ?d = tp_pool tp" "tp_threads ?d = tp_threads tp" "tp_poolSize ?d = tp_poolSize tp" "tp_next ?d = tp_next tp"
    by (simp_all add: drop_queue_def)
  show ?thesis
  proof (cases xs)
    case Nil
    then have "tp_pool tp = None" "tp_threads tp = Map.empty" using xs(1) by (simp_all add: chained_def)
    then show ?thesis using d same by (auto simp: destroy_def closing_def bodies_def)
  next
    case (Cons x ys)
    let ?e = "?d\<lparr>tp_empty := False\<rparr>" let ?s = "shrink (length xs) (Some x) ?e"
    have c: "seg (tp_threads tp) None (Some x) (x # ys) None" "distinct (x # ys)" "tp_pool tp = Some x"
      using xs(1) Cons by (auto simp: chained_def)
    have st: "stop_all x ?e = Some ?s" using stop_all_shrink [of ?e None x ys] c Cons same by simp
    have t: "tp_threads ?s = (\<lambda>x. if x \<in> set (take (length xs) xs) then map_option (\<lambda>t. t\<lparr>th_notifiedStop := True\<rparr>) (tp_threads ?e x) else tp_threads ?e x)"
      by (rule shrink_threads [of _ None]) (use c Cons same in \<open>simp_all\<close>)
    have b: "bodies ?s = (\<lambda>x. if x \<in> set xs then map_option (\<lambda>t. t\<lparr>th_notifiedStop := True\<rparr>) (bodies ?d x) else bodies ?d x)"
      by (auto simp: bodies_def t fun_eq_iff option.map_comp comp_def)
    have "bodies ?d p = None" if "p \<notin> set xs" for p
      using that xs(1) by (auto simp: bodies_def same chained_def domIff)
    then have stopped: "th_notifiedStop t" if "bodies ?s p = Some t" for p t
      using that by (auto simp: b split: if_split_asm)
    then have none: "crew (\<lambda>t. \<not> th_notifiedStop t) (bodies ?s) = {}" by (auto simp: crew_def)
    have "chained ?d xs" using xs(1) same by (simp add: chained_def)
    then have "chained ?s xs" by (rule chained_flags) (simp_all add: t option.map_comp comp_def)
    then have "pool_inv ?s" using stopped_parts [OF b] d(1) none xs(2) same
      by (auto simp: pool_inv_def pool_active_def pool_chain_def)
    moreover have "pool_inv (?s\<lparr>tp_queueFill := notify_all (tp_queueFill ?s)\<rparr>) \<longleftrightarrow> pool_inv ?s"
      by (rule pool_inv_cong) (simp_all add: notify_all_def cong: pool_chain_cong)
    ultimately show ?thesis using st c(3) same d(2) stopped
      by (auto simp: destroy_def closing_def Let_def)
  qed
qed

text \<open>How many steps a thread that has been told to stop can still make.\<close>

fun steps_left :: "tpc \<Rightarrow> nat" where
  "steps_left Finalizing = 1"
| "steps_left Ending = 2"
| "steps_left (Testing w) = 3"
| "steps_left Starting = 4"
| "steps_left (Working k) = 4"
| "steps_left Left = 4"
| "steps_left Blocked = 5"
| "steps_left Filling = 6"
| "steps_left Entering = 7"
| "steps_left (Popping w) = 8"

definition all_left :: "threadpool \<Rightarrow> nat" where
  "all_left tp = (\<Sum>p\<in>dom (bodies tp). steps_left (th_pc (the (bodies tp p))))"

lemma all_left_move:
  assumes "finite (dom (bodies tp))" "bodies tp p = Some t" "bodies tp1 = (bodies tp)(p \<mapsto> u)"
    "steps_left (th_pc u) < steps_left (th_pc t)"
  shows "all_left tp1 < all_left tp"
proof -
  have d: "dom (bodies tp1) = dom (bodies tp)" using assms(2,3) by auto
  have p: "p \<in> dom (bodies tp)" using assms(2) by auto
  show ?thesis unfolding all_left_def d sum.remove [OF assms(1) p] by (simp add: assms)
qed

lemma all_left_remove:
  assumes "finite (dom (bodies tp))" "bodies tp p = Some t" "bodies tp1 = (bodies tp)(p := None)"
    "0 < steps_left (th_pc t)"
  shows "all_left tp1 < all_left tp"
proof -
  have p: "p \<in> dom (bodies tp)" using assms(2) by auto
  have "dom (bodies tp1) = dom (bodies tp) - {p}" using assms(3) by auto
  then show ?thesis unfolding all_left_def sum.remove [OF assms(1) p] using assms by simp
qed

lemma all_left_bound:
  assumes "pool_chain tp"
  shows "all_left tp \<le> 8 * unat (tp_poolSize tp)"
proof -
  have "steps_left pc \<le> 8" for pc by (cases pc) simp_all
  then have "all_left tp \<le> (\<Sum>p\<in>dom (bodies tp). 8)" unfolding all_left_def by (rule sum_mono)
  then show ?thesis using pool_chain_card [OF assms] by (simp add: dom_bodies)
qed


lemma closing_step:
  assumes c: "closing tp" and s: "thread_step p tp = Some tp1"
  shows "closing tp1" "all_left tp1 < all_left tp" "tp_empty tp1 = tp_empty tp \<and> (tp_pool tp1 = None \<longleftrightarrow> tp_pool tp = None) \<or> tp_empty tp1"
proof -
  from s obtain th where th: "tp_threads tp p = Some th" "tp1 = step_at p th tp" by (auto simp: thread_step_def split: option.splits)
  have inv: "pool_inv tp" and q: "tp_queue tp = []" and n: "\<And>p t. bodies tp p = Some t \<Longrightarrow> th_notifiedStop t"
    using c by (auto simp: closing_def)
  note b = bodies_Some [OF th(1)]
  have stop: "th_notifiedStop th" using n [OF b] by simp
  have fin: "finite (dom (bodies tp))" using pool_chain_card inv by (simp add: dom_bodies pool_inv_def)
  have pop: "fst (pop_queue tp) = None" by (simp add: pop_queue_def q)
  obtain tp2 where pop2: "pop_queue tp = (None, tp2)" using pop by (cases "pop_queue tp") auto
  note pq = pop_queue_simps [OF pop2]
  have "(\<exists>u. bodies tp1 = (bodies tp)(p \<mapsto> u) \<and> th_notifiedStop u \<and> steps_left (th_pc u) < steps_left (th_pc th)
          \<and> tp_empty tp1 = tp_empty tp \<and> tp_pool tp1 = tp_pool tp) \<and> tp_queue tp1 = []
      \<or> bodies tp1 = (bodies tp)(p := None) \<and> tp_queue tp1 = [] \<and> (tp_empty tp1 = tp_empty tp \<and> (tp_pool tp1 = None \<longleftrightarrow> tp_pool tp = None) \<or> tp_empty tp1)"
  proof (cases "th_pc th = Finalizing")
    case True
    then have f: "tp1 = finalize p tp" using th(2) by (simp add: step_at_def)
    obtain xs where xs: "chained tp xs" using inv by (auto simp: pool_inv_def pool_chain_def)
    then have "tp_pool tp \<noteq> None" using th(1) by (cases xs) (auto simp: chained_def)
    then show ?thesis unfolding f bodies_finalize
      by (auto simp: finalize_def th(1) unchain_def upd_at_def Let_def q split: option.splits)
  next
    case False
    have pop3: "tp_empty tp2 = tp_empty tp" "tp_pool tp2 = tp_pool tp" "tp_queue tp2 = []"
      using pop2 q by (auto simp: pop_queue_def Let_def split: if_split_asm)
    show ?thesis using False th stop q
      by (cases "th_pc th") (auto simp: step_at_def b bodies_upd stop pop2 pq pop3 Let_def leave_fill_def at_pc_def)
  qed
  moreover have "pool_inv tp1" using step_at_inv [OF inv th(1)] th(2) by simp
  ultimately show "closing tp1" "all_left tp1 < all_left tp" "tp_empty tp1 = tp_empty tp \<and> (tp_pool tp1 = None \<longleftrightarrow> tp_pool tp = None) \<or> tp_empty tp1"
    using n all_left_move [OF fin b] all_left_remove [OF fin b] by (auto simp: closing_def split: if_split_asm)
      (cases "th_pc th"; force)+
qed


text \<open>The threads run in the order of a schedule.\<close>

fun run_threads :: "nat list \<Rightarrow> threadpool \<Rightarrow> threadpool option" where
  "run_threads [] tp = Some tp"
| "run_threads (p # ps) tp = (case thread_step p tp of None \<Rightarrow> None | Some tp1 \<Rightarrow> run_threads ps tp1)"

lemma run_reachable: "pool_reachable tp \<Longrightarrow> run_threads ps tp = Some tp1 \<Longrightarrow> pool_reachable tp1"
  by (induction ps tp rule: run_threads.induct) (auto split: option.splits intro: pool_more step_thread)

lemma closing_run:
  "closing tp \<Longrightarrow> run_threads ps tp = Some tp1 \<Longrightarrow> closing tp1 \<and> length ps + all_left tp1 \<le> all_left tp
    \<and> (tp_empty tp1 = tp_empty tp \<and> (tp_pool tp1 = None \<longleftrightarrow> tp_pool tp = None) \<or> tp_empty tp1)"
proof (induction ps tp rule: run_threads.induct)
  case (2 p ps tp)
  then obtain tp2 where s: "thread_step p tp = Some tp2" "run_threads ps tp2 = Some tp1" by (auto split: option.splits)
  note c = closing_step [OF 2(2) s(1)]
  from "2.IH" [OF s(1) c(1) s(2)] have "closing tp1" "length ps + all_left tp1 \<le> all_left tp2"
    "tp_empty tp1 = tp_empty tp2 \<and> (tp_pool tp1 = None \<longleftrightarrow> tp_pool tp2 = None) \<or> tp_empty tp1" by blast+
  moreover have "length (p # ps) + all_left tp1 \<le> all_left tp" using calculation(2) c(2) by simp
  ultimately show ?case using c(3) by (cases "tp_empty tp1") (simp, force)
qed simp

lemma pool_None:
  assumes "pool_chain tp"
  shows "tp_pool tp = None \<longleftrightarrow> tp_threads tp = Map.empty" "tp_pool tp = None \<longleftrightarrow> tp_poolSize tp = 0"
proof -
  from assms obtain xs where xs: "chained tp xs" "unat (tp_poolSize tp) = length xs" by (auto simp: pool_chain_def)
  have a: "tp_pool tp = None \<longleftrightarrow> xs = []" using xs(1) by (cases xs) (auto simp: chained_def)
  show "tp_pool tp = None \<longleftrightarrow> tp_threads tp = Map.empty" using xs(1) a by (auto simp: chained_def)
  show "tp_pool tp = None \<longleftrightarrow> tp_poolSize tp = 0" using xs(2) a by (auto simp: unat_eq_0)
qed

text \<open>C33: Destroying a pool ends: every thread that is not at a worker leaves after at most eight steps whatever the order in which they
  run, while the pool is not empty one of its threads can go on, and in the end no
  thread is left and the flag that the destructor waits for is set.\<close>

theorem pool_shutdown:
  assumes "pool_reachable tp"
  shows "\<exists>tp1. destroy tp = Some tp1
    \<and> (\<forall>ps tp2. run_threads ps tp1 = Some tp2 \<longrightarrow>
        length ps \<le> 8 * unat (tp_poolSize tp)
        \<and> (tp_pool tp2 \<noteq> None \<longrightarrow> (\<exists>p. thread_step p tp2 \<noteq> None))
        \<and> (tp_pool tp2 = None \<longrightarrow> tp_threads tp2 = Map.empty \<and> tp_poolSize tp2 = 0 \<and> (tp_pool tp \<noteq> None \<longrightarrow> tp_empty tp2)))"
proof -
  obtain tp1 where d: "destroy tp = Some tp1" "closing tp1"
    "tp_poolSize tp1 = tp_poolSize tp" "tp_pool tp1 = None \<longleftrightarrow> tp_pool tp = None"
    using destroy_closing [OF pool_reachable_inv [OF assms]] by (elim exE conjE)
  have "length ps \<le> 8 * unat (tp_poolSize tp)
      \<and> (tp_pool tp2 \<noteq> None \<longrightarrow> (\<exists>p. thread_step p tp2 \<noteq> None))
      \<and> (tp_pool tp2 = None \<longrightarrow> tp_threads tp2 = Map.empty \<and> tp_poolSize tp2 = 0 \<and> (tp_pool tp \<noteq> None \<longrightarrow> tp_empty tp2))"
    if r: "run_threads ps tp1 = Some tp2" for ps tp2
  proof -
    note c = closing_run [OF d(2) r]
    have ch: "pool_chain tp1" "pool_chain tp2" using c d(2) by (simp_all add: closing_def pool_inv_def)
    have "\<exists>p. thread_step p tp2 \<noteq> None" if "tp_pool tp2 \<noteq> None"
    proof -
      from that pool_None(1) [OF ch(2)] obtain p where "tp_threads tp2 p \<noteq> None" by (metis ext)
      then have "thread_step p tp2 \<noteq> None" by (auto simp: thread_step_def)
      then show ?thesis ..
    qed
    moreover have "length ps \<le> 8 * unat (tp_poolSize tp)" using c all_left_bound [OF ch(1)] d(3) by simp
    moreover have "tp_empty tp2" if "tp_pool tp2 = None" "tp_pool tp \<noteq> None" using that c d(4) by auto
    ultimately show ?thesis using pool_None [OF ch(2)] by blast
  qed
  with d(1) show ?thesis by blast
qed

section \<open>What can go wrong\<close>

definition demo_pool :: threadpool where
  "demo_pool = snd (the (enqueue 7 (ThreadPool_new 1 (\<lambda>p. True))))"

definition idle_pool :: threadpool where
  "idle_pool = the (run_threads (replicate 12 0) demo_pool)"

definition stranded_pool :: threadpool where
  "stranded_pool = the (run_threads [0, 0] (snd (the (enqueue 8 idle_pool))))"

text \<open>The only thread of a pool of one has found the queue empty twice and is about to leave. A worker that is taken
  now starts no thread, as the pool still counts that one, and when it has gone nobody is there: the worker
  stays in the queue until somebody calls the pool again.\<close>

lemma demo_pool_reachable: "pool_reachable demo_pool"
proof -
  have "enqueue 7 (ThreadPool_new 1 (\<lambda>p. True)) = Some (True, demo_pool)" by (simp add: demo_pool_def enqueue_def ThreadPool_new_def Let_def)
  then show ?thesis using pool_more [OF pool_new step_enqueue] by blast
qed

lemma idle_pool_reachable: "pool_reachable idle_pool"
proof -
  have "run_threads (replicate 12 0) demo_pool \<noteq> None" by code_simp
  then show ?thesis using run_reachable [OF demo_pool_reachable] by (auto simp: idle_pool_def)
qed

lemma worker_stranded:
  "\<exists>tp. pool_reachable tp \<and> tp_accepted tp = [7, 8] \<and> tp_queue tp = [8] \<and> \<not> tp_stopped tp \<and> \<not> tp_suspended tp
     \<and> tp_maxSize tp = 1 \<and> (\<forall>p. thread_step p tp = None)"
proof -
  have "fst (the (enqueue 8 idle_pool)) = True" "enqueue 8 idle_pool \<noteq> None" by code_simp+
  then have "pool_reachable (snd (the (enqueue 8 idle_pool)))"
    using pool_more [OF idle_pool_reachable step_enqueue] by auto
  moreover have "run_threads [0, 0] (snd (the (enqueue 8 idle_pool))) \<noteq> None" by code_simp
  ultimately have r: "pool_reachable stranded_pool" using run_reachable by (auto simp: stranded_pool_def simp del: run_threads.simps)
  have "tp_poolSize stranded_pool = 0" by code_simp
  then have "tp_threads stranded_pool = Map.empty"
    using pool_None [of stranded_pool] pool_reachable_inv [OF r] by (simp add: pool_inv_def)
  then have "\<forall>p. thread_step p stranded_pool = None" by (simp add: thread_step_def)
  moreover have "tp_accepted stranded_pool = [7, 8]" "tp_queue stranded_pool = [8]" "\<not> tp_stopped stranded_pool"
    "\<not> tp_suspended stranded_pool" "tp_maxSize stranded_pool = 1" by code_simp+
  ultimately show ?thesis using r by blast
qed

text \<open>\<open>pop_queue\<close> announces an empty queue before it looks, so who waits for that goes on while workers are queued.\<close>

lemma wait_empty_early:
  "\<exists>tp. pool_reachable tp \<and> tp_queue tp = [8] \<and> fst (wait_empty tp) = Some True"
proof -
  have "enqueue 8 idle_pool \<noteq> None" by code_simp
  then have "pool_reachable (snd (the (enqueue 8 idle_pool)))"
    using pool_more [OF idle_pool_reachable step_enqueue] by auto
  moreover have "tp_queue (snd (the (enqueue 8 idle_pool))) = [8]" "fst (wait_empty (snd (the (enqueue 8 idle_pool)))) = Some True"
    by code_simp+
  ultimately show ?thesis by blast
qed

text \<open>Two calls of \<open>notify_one\<close> before a waiting thread has run wake one thread only.\<close>

lemma notify_one_twice: "oe_autoReset e \<Longrightarrow> \<not> oe_notified (snd (event_leave (notify_one (notify_one e))))"
  by (simp add: event_leave_def event_reset_def notify_one_def Let_def)

text \<open>C32: In every interleaving of the threads and the calls the pointers make one chain of all
  threads that exist, the size of the pool is their number, the counters of waiting threads count
  them, no more threads than allowed are without the order to stop unless the pool is suspended, every worker is
  taken once and in order, and no two threads have the same one.\<close>

theorem pool_invariant:
  assumes "pool_reachable tp"
  shows "pool_inv tp"
  using assms by (rule pool_reachable_inv)

lemma pool_invariant_witness: "pool_inv idle_pool \<and> tp_accepted idle_pool = [7] \<and> tp_poolSize idle_pool = 1"
proof -
  have "tp_accepted idle_pool = [7]" "tp_poolSize idle_pool = 1" by code_simp+
  with pool_invariant [OF idle_pool_reachable] show ?thesis by blast
qed

lemma pool_shutdown_witness:
  "\<exists>tp1 tp2. destroy demo_pool = Some tp1 \<and> run_threads [0, 0, 0, 0] tp1 = Some tp2 \<and> tp_threads tp2 = Map.empty \<and> tp_empty tp2"
proof -
  obtain tp1 where d: "destroy demo_pool = Some tp1"
    "\<And>ps tp2. run_threads ps tp1 = Some tp2 \<Longrightarrow> tp_pool tp2 = None \<Longrightarrow> tp_threads tp2 = Map.empty \<and> (tp_pool demo_pool \<noteq> None \<longrightarrow> tp_empty tp2)"
    using pool_shutdown [OF demo_pool_reachable] by blast
  have "run_threads [0, 0, 0, 0] (the (destroy demo_pool)) \<noteq> None"
    "map_option tp_pool (run_threads [0, 0, 0, 0] (the (destroy demo_pool))) = Some None" "tp_pool demo_pool = Some 0" by code_simp+
  then show ?thesis using d by (auto simp del: run_threads.simps)
qed

end
