(* ===== verification/ProtoTransfer.thy ===== *)
theory ProtoTransfer
  imports Query
begin

text \<open>
  The data connection of a file transfer (\<open>proto/mythprototransfer.cpp\<close>). The object extends
  the connection with the file's size, the position of the next byte to read, the position up
  to which blocks were requested and the file id. The positions are \<open>int64_t\<close>.
\<close>

section \<open>State and operations\<close>

definition PROTO_TRANSFER_RCVBUF :: nat where "PROTO_TRANSFER_RCVBUF = 262000"

record transfer = protobase +
  m_fileSize :: i64
  m_filePosition :: i64
  m_fileRequest :: i64
  m_fileId :: u32
  m_pathName :: string
  m_storageGroupName :: string

definition ProtoTransfer_new :: "protobase \<Rightarrow> string \<Rightarrow> string \<Rightarrow> transfer" where
  "ProtoTransfer_new pb pathname sgname =
     protobase.extend pb \<lparr>m_fileSize = 0, m_filePosition = 0, m_fileRequest = 0, m_fileId = 0,
       m_pathName = pathname, m_storageGroupName = sgname\<rparr>"

definition transfer_Close :: "transfer \<Rightarrow> transfer" where
  "transfer_Close t =
     (Close t)\<lparr>m_tainted := False, m_hang := False, m_filePosition := 0, m_fileRequest := 0,
       m_fileId := 0\<rparr>"

text \<open>The bytes that were requested and not read are skipped. A short delivery ends the loop;
  the position moves on in any case.\<close>

definition Flush :: "transfer \<Rightarrow> transfer" where
  "Flush t =
     (let unread = m_fileRequest t - m_filePosition t in
      if sint unread > 0
      then (case flush_loop ReceiveData (nat (sint unread)) 0 (sock t) of
              (_, _, s) \<Rightarrow> t\<lparr>sock := s, m_filePosition := m_fileRequest t\<rparr>)
      else t)"

definition transfer_announce_cmd :: "transfer \<Rightarrow> string" where
  "transfer_announce_cmd t =
     ''ANN FileTransfer '' @ os_hostname (sock t) @ '' 0 0 1000'' @ SEP @ m_pathName t @ SEP
       @ m_storageGroupName t"

text \<open>The members \<open>m_fileId\<close> and \<open>m_fileSize\<close> are the destinations of the conversions, so the
  id is kept when the size is bad.\<close>

definition transfer_Announce75 :: "transfer \<Rightarrow> bool \<times> transfer" where
  "transfer_Announce75 t0 =
     (let t = t0\<lparr>m_filePosition := 0, m_fileSize := 0, m_fileRequest := 0\<rparr> in
      case SendCommand (transfer_announce_cmd t) True t of (sent, t1) \<Rightarrow>
       (if \<not> sent then (False, t1)
        else case ReadField t1 of (ok1, f1, t2) \<Rightarrow>
         (if \<not> ok1 \<or> \<not> IsMessageOK f1 then (False, snd (FlushMessage t2))
          else case ReadField t2 of (ok2, f2, t3) \<Rightarrow>
           (if \<not> ok2 then (False, snd (FlushMessage t3))
            else case string_to_uint32 (c_str f2) of
               Inl _ \<Rightarrow> (False, snd (FlushMessage t3))
             | Inr fid \<Rightarrow>
               (let t4 = t3\<lparr>m_fileId := fid\<rparr> in
                case ReadField t4 of (ok3, f3, t5) \<Rightarrow>
                 (if \<not> ok3 then (False, snd (FlushMessage t5))
                  else case string_to_int64 (c_str f3) of
                     Inl _ \<Rightarrow> (False, snd (FlushMessage t5))
                   | Inr sz \<Rightarrow> (True, t5\<lparr>m_fileSize := sz\<rparr>)))))))"

definition transfer_Open :: "transfer \<Rightarrow> bool \<times> transfer" where
  "transfer_Open t =
     (if m_isOpen t then (True, t)
      else case OpenConnection (int PROTO_TRANSFER_RCVBUF) t of (opened, t1) \<Rightarrow>
       (if \<not> opened then (False, t1)
        else case (if m_protoVersion t1 \<ge> 75 then transfer_Announce75 t1 else (False, t1)) of
               (ok, t2) \<Rightarrow>
                 (if ok then (True, t2) else (False, transfer_Close (t2\<lparr>m_hang := True\<rparr>)))))"

definition GetFileId :: "transfer \<Rightarrow> u32" where "GetFileId t = m_fileId t"
definition GetSize :: "transfer \<Rightarrow> i64" where "GetSize t = m_fileSize t"
definition GetPosition :: "transfer \<Rightarrow> i64" where "GetPosition t = m_filePosition t"
definition GetRequested :: "transfer \<Rightarrow> i64" where "GetRequested t = m_fileRequest t"
definition GetRemaining :: "transfer \<Rightarrow> i64" where
  "GetRemaining t = m_fileSize t - m_filePosition t"
definition SetSize :: "i64 \<Rightarrow> transfer \<Rightarrow> transfer" where
  "SetSize sz t = t\<lparr>m_fileSize := sz\<rparr>"
definition SetPosition :: "i64 \<Rightarrow> transfer \<Rightarrow> transfer" where
  "SetPosition position t = t\<lparr>m_filePosition := position\<rparr>"
definition SetRequested :: "i64 \<Rightarrow> transfer \<Rightarrow> transfer" where
  "SetRequested requested t = t\<lparr>m_fileRequest := requested\<rparr>"

section \<open>The invariant\<close>

lemma pb_ok_transfer_update [simp]:
  "pb_ok (t\<lparr>m_fileSize := a\<rparr>) = pb_ok t" "pb_ok (t\<lparr>m_filePosition := b\<rparr>) = pb_ok t"
  "pb_ok (t\<lparr>m_fileRequest := b\<rparr>) = pb_ok t" "pb_ok (t\<lparr>m_fileId := c\<rparr>) = pb_ok t"
  by (simp_all add: pb_ok_def pb_inv_def pb_quiet_def)

lemma Flush_ok: "pb_ok t \<Longrightarrow> pb_ok (Flush t)"
proof -
  assume ok: "pb_ok t"
  obtain b n s where f: "flush_loop ReceiveData (nat (sint (m_fileRequest t - m_filePosition t))) 0
      (sock t) = (b, n, s)" by (metis prod_cases3)
  have "rcv_keeps (sock t) s" using tcpf.keep_flush_loop [of "sock t"] f by (metis snd_conv)
  then have "pb_ok (t\<lparr>sock := s\<rparr>)" using ok same_env_valid [of "sock t" s]
    by (auto simp: pb_ok_def pb_inv_def pb_quiet_def rcv_keeps_def)
  moreover have "pb_ok (t\<lparr>sock := s, m_filePosition := x\<rparr>) = pb_ok (t\<lparr>sock := s\<rparr>)" for x
    by (simp add: pb_ok_def pb_inv_def pb_quiet_def)
  ultimately show ?thesis using ok f by (simp add: Flush_def Let_def)
qed

lemma transfer_Close_ok: "pb_ok t \<Longrightarrow> pb_ok (transfer_Close t)"
  using pb_ok_step [OF Close_frame, of t] Close_closed [of t]
  by (auto simp: transfer_Close_def pb_ok_def pb_inv_def pb_quiet_def)

lemma transfer_Announce75_ok: "pb_ok t \<Longrightarrow> pb_ok (snd (transfer_Announce75 t))"
  unfolding transfer_Announce75_def Let_def
  by (auto split: prod.split sum.split intro!: FlushMessage_ok dest!: ok_steps)

lemma transfer_Close_hang_ok: "sock_inv (sock t) \<Longrightarrow> m_hang t \<Longrightarrow> pb_ok (transfer_Close t)"
  using Close_hang_ok [of t] Close_closed [of t]
  by (auto simp: transfer_Close_def pb_ok_def pb_inv_def pb_quiet_def)

lemma transfer_Open_ok:
  assumes "pb_ok t"
  shows "pb_ok (snd (transfer_Open t))"
proof -
  have inv: "pb_ok x \<Longrightarrow> pb_ok (transfer_Close (x\<lparr>m_hang := True\<rparr>))" for x
    by (rule transfer_Close_hang_ok) (simp_all add: pb_ok_def pb_inv_def)
  have "transfer_Announce75 a = (b, c) \<Longrightarrow> pb_ok a \<Longrightarrow> pb_ok c" for a b c
    using transfer_Announce75_ok [of a] by simp
  with assms show ?thesis unfolding transfer_Open_def
    by (auto split: prod.split intro!: inv dest!: OpenConnection_ok_eq)
qed

section \<open>Behaviour\<close>

lemma has_msg_transfer_update [simp]:
  "has_msg m rest (t\<lparr>m_fileSize := a\<rparr>) = has_msg m rest t"
  "has_msg m rest (t\<lparr>m_filePosition := a\<rparr>) = has_msg m rest t"
  "has_msg m rest (t\<lparr>m_fileRequest := a\<rparr>) = has_msg m rest t"
  "has_msg m rest (t\<lparr>m_fileId := c\<rparr>) = has_msg m rest t"
  by (simp_all add: has_msg_def)

lemma ready_transfer_update [simp]:
  "ready b (t\<lparr>m_fileSize := a\<rparr>) = ready b t" "ready b (t\<lparr>m_filePosition := a\<rparr>) = ready b t"
  "ready b (t\<lparr>m_fileRequest := a\<rparr>) = ready b t" "ready b (t\<lparr>m_fileId := c\<rparr>) = ready b t"
  by (simp_all add: ready_def idle_def)

lemma transfer_more_eq:
  assumes "protobase.more (a :: transfer) = protobase.more b"
  shows "m_fileSize a = m_fileSize b" "m_filePosition a = m_filePosition b"
    "m_fileRequest a = m_fileRequest b" "m_fileId a = m_fileId b" "m_pathName a = m_pathName b"
    "m_storageGroupName a = m_storageGroupName b"
  using assms by (cases a; cases b; simp)+

text \<open>Skipping what was requested: exactly the unread bytes leave the stream.\<close>

lemma Flush_skips:
  assumes "sock_ok (sock t)" "avail (sock t) = unread @ rest"
    "sint (m_fileRequest t - m_filePosition t) = int (length unread)"
  shows "avail (sock (Flush t)) = rest" "m_filePosition (Flush t) = m_fileRequest t"
    "m_fileRequest (Flush t) = m_fileRequest t"
proof -
  from tcp.flush_loop_full [OF assms(1), of "length unread" 0] assms(2) obtain s' where
    f: "flush_loop ReceiveData (length unread) 0 (sock t) = (True, length unread, s')"
      "avail s' = rest" by auto
  consider "unread = []" | "sint (m_fileRequest t - m_filePosition t) > 0" using assms(3) by force
  then have "avail (sock (Flush t)) = rest \<and> m_filePosition (Flush t) = m_fileRequest t
    \<and> m_fileRequest (Flush t) = m_fileRequest t"
  proof cases
    case 1
    with assms(3) have "m_fileRequest t - m_filePosition t = 0"
      by (simp add: signed_eq_0_iff)
    then have "m_fileRequest t = m_filePosition t" by simp
    with 1 assms(2,3) show ?thesis by (simp add: Flush_def)
  next
    case 2
    with f assms(3) show ?thesis by (simp add: Flush_def)
  qed
  then show "avail (sock (Flush t)) = rest" "m_filePosition (Flush t) = m_fileRequest t"
    "m_fileRequest (Flush t) = m_fileRequest t" by simp_all
qed

lemma transfer_Announce75_answer:
  fixes fid :: u32 and sz :: i64
  assumes "ready (framed (joined [''OK'', dec_nat (unat fid), dec_int (sint sz)]) @ rest) t"
    "sendable (transfer_announce_cmd t)" "sint sz \<noteq> - (2 ^ 63)"
  shows "\<exists>t'. transfer_Announce75 t = (True, t') \<and> m_fileId t' = fid \<and> m_fileSize t' = sz
    \<and> m_filePosition t' = 0 \<and> m_fileRequest t' = 0 \<and> ready rest t'"
proof -
  let ?m = "joined [''OK'', dec_nat (unat fid), dec_int (sint sz)]"
  let ?t = "t\<lparr>m_filePosition := 0, m_fileSize := 0, m_fileRequest := 0\<rparr>"
  have c: "transfer_announce_cmd ?t = transfer_announce_cmd t" by (simp add: transfer_announce_cmd_def)
  have "unat fid < 10 ^ 10" using unat_below [of fid] by simp
  moreover have "nat \<bar>sint sz\<bar> < 10 ^ 19" using sint_ge [of sz] sint_lt [of sz] by simp
  ultimately have len: "length ?m < 10 ^ 7"
    using dec_nat_length [of "unat fid" 10] dec_nat_length [of "nat \<bar>sint sz\<bar>" 19]
    by (simp add: dec_int_def abs_if split: if_splits)
  have "ready (framed ?m @ rest) ?t" using assms(1) by simp
  from SendCommand_ready [OF this _ len, of "transfer_announce_cmd t"] assms(2) obtain t1 where
    1: "SendCommand (transfer_announce_cmd t) True ?t = (True, t1)" "has_msg ?m rest t1"
      "asked (transfer_announce_cmd t) ?t t1" "sends (sock t1)" by auto
  have m1: "protobase.more t1 = protobase.more ?t"
    using 1(3) talk_frame_simps(1) by (auto simp: asked_def)
  from ReadField_sep [of "''OK''" _ rest t1] 1(2) obtain t2 where
    2: "ReadField t1 = (True, ''OK'', t2)"
      "has_msg (dec_nat (unat fid) @ SEP @ dec_int (sint sz)) rest t2" "rd_frame t1 t2" by auto
  from ReadField_sep [OF 2(2)] obtain t3 where
    3: "ReadField t2 = (True, dec_nat (unat fid), t3)" "has_msg (dec_int (sint sz)) rest t3"
      "rd_frame t2 t3" by auto
  have "has_msg (dec_int (sint sz)) rest (t3\<lparr>m_fileId := fid\<rparr>)" using 3(2) by simp
  from ReadField_last [OF this] obtain t4 where
    4: "ReadField (t3\<lparr>m_fileId := fid\<rparr>) = (True, dec_int (sint sz), t4)" "has_msg [] rest t4"
      "rd_frame (t3\<lparr>m_fileId := fid\<rparr>) t4" by auto
  have e: "transfer_Announce75 t = (True, t4\<lparr>m_fileSize := sz\<rparr>)"
    using 1(1) 2(1) 3(1) 4(1) c assms(3) by (simp add: transfer_Announce75_def numeric_simps)
  have more: "protobase.more t3 = protobase.more ?t"
    using m1 rd_frame_simps(1) [OF 2(3)] rd_frame_simps(1) [OF 3(3)] by simp
  moreover have "protobase.more t4 = protobase.more (t3\<lparr>m_fileId := fid\<rparr>)"
    by (rule rd_frame_simps(1) [OF 4(3)])
  ultimately have "m_fileId t4 = fid" "m_filePosition t4 = 0" "m_fileRequest t4 = 0"
    using transfer_more_eq [of t3 ?t] transfer_more_eq [of t4 "t3\<lparr>m_fileId := fid\<rparr>"] by simp_all
  moreover have "sends (sock t4)"
    using 1(4) rd_frame_sends [OF 2(3)] rd_frame_sends [OF 3(3)] rd_frame_sends [OF 4(3)] by simp
  ultimately show ?thesis using e has_msg_idle [OF 4(2)] by (simp add: ready_def idle_def)
qed

text \<open>A failed opening leaves a closed transfer with no file.\<close>

lemma transfer_Close_state:
  "\<not> m_isOpen (transfer_Close t)" "\<not> IsValid (sock (transfer_Close t))"
  "m_fileId (transfer_Close t) = 0" "m_filePosition (transfer_Close t) = 0"
  "m_fileRequest (transfer_Close t) = 0" "\<not> m_hang (transfer_Close t)"
  "\<not> m_tainted (transfer_Close t)"
  using Close_closed [of t] by (simp_all add: transfer_Close_def)

lemma transfer_Open_failed:
  assumes "pb_ok t" "transfer_Open t = (False, t')"
  shows "\<not> m_isOpen t' \<and> \<not> IsValid (sock t')"
proof -
  obtain b t1 where oc: "OpenConnection (int PROTO_TRANSFER_RCVBUF) t = (b, t1)" by force
  have "\<not> b \<Longrightarrow> \<not> m_isOpen t1 \<and> \<not> IsValid (sock t1)"
    using OpenConnection_post [OF assms(1), of "int PROTO_TRANSFER_RCVBUF"] oc
    by (auto simp: open_post_def)
  with assms(2) oc transfer_Close_state show ?thesis
    by (auto simp: transfer_Open_def split: if_splits prod.splits)
qed

section \<open>Properties\<close>

text \<open>Flushing a transfer skips exactly the bytes that were requested and not read, and moves
  the position to the end of the request.\<close>

theorem transfer_flush:
  assumes "sock_ok (sock t)" "avail (sock t) = unread @ rest"
    "sint (m_fileRequest t - m_filePosition t) = int (length unread)"
  shows "avail (sock (Flush t)) = rest \<and> GetPosition (Flush t) = GetRequested t
    \<and> GetRequested (Flush t) = GetRequested t"
  using Flush_skips [OF assms] by (simp add: GetPosition_def GetRequested_def)

definition demo_transfer :: "bytes \<Rightarrow> transfer" where
  "demo_transfer b = (ProtoTransfer_new (demo_pb 91 b) ''file.ts'' ''Default'')
     \<lparr>m_fileSize := 1000, m_filePosition := 10, m_fileRequest := 13, m_fileId := 7\<rparr>"

lemma demo_transfer_simps [simp]: "sock (demo_transfer b) = demo_socket b"
  "m_isOpen (demo_transfer b)" "m_fileSize (demo_transfer b) = 1000"
  "m_filePosition (demo_transfer b) = 10" "m_fileRequest (demo_transfer b) = 13"
  "m_fileId (demo_transfer b) = 7" "ready b (demo_transfer b)"
  by (simp_all add: demo_transfer_def ProtoTransfer_new_def protobase.defs demo_pb_def
      ProtoBase_new_def ready_def idle_alt sends_def)

theorem transfer_flush_witness:
  "avail (sock (Flush (demo_transfer ''abcXY''))) = ''XY''"
  using transfer_flush [of "demo_transfer ''abcXY''" "''abc''" "''XY''"] by simp

text \<open>Announcing a transfer to a server that answers with a file id and a size: the id and the
  size are those of the answer and reading starts at position 0 with nothing requested.\<close>

theorem transfer_announce:
  assumes "ready (framed (joined [''OK'', uint32_to_string fid, int64_to_string sz]) @ rest) t"
    "sendable (transfer_announce_cmd t)" "sint sz \<noteq> - (2 ^ 63)"
  shows "\<exists>t'. transfer_Announce75 t = (True, t') \<and> GetFileId t' = fid \<and> GetSize t' = sz
    \<and> GetPosition t' = 0 \<and> GetRequested t' = 0 \<and> GetRemaining t' = sz \<and> ready rest t'"
  using transfer_Announce75_answer [of fid sz rest t] assms
  by (auto simp: numeric_simps GetFileId_def GetSize_def GetPosition_def GetRequested_def GetRemaining_def)

theorem transfer_announce_witness:
  "\<exists>t'. transfer_Announce75 (demo_transfer (framed (joined [''OK'', uint32_to_string 7, int64_to_string 1000])))
     = (True, t') \<and> GetFileId t' = 7 \<and> GetRemaining t' = 1000"
proof -
  let ?b = "framed (joined [''OK'', uint32_to_string 7, int64_to_string 1000])"
  have "sendable (transfer_announce_cmd (demo_transfer ?b))"
    by (simp add: sendable_def transfer_announce_cmd_def demo_transfer_def ProtoTransfer_new_def
        protobase.defs demo_pb_def ProtoBase_new_def demo_socket_def TcpSocket_new_def
        PROTO_SENDMSG_MAXSIZE_def)
  with transfer_announce [of 7 1000 "[]" "demo_transfer ?b"] show ?thesis by auto
qed

end
