(* ===== verification/ProtoPlayback.thy ===== *)
theory ProtoPlayback
  imports ProtoTransfer
begin

text \<open>
  The control connection of playback (\<open>proto/mythprotoplayback.cpp\<close>), which drives file
  transfers: seeking, asking for blocks and reading them from the transfer's socket. The class
  adds no state to the connection, so its object is any extension of \<open>protobase\<close>; the operations on a transfer
  pass both objects.

  \<open>TransferRequestBlock\<close> polls the two sockets. The outcomes of its calls to \<open>poll\<close> are a list
  given by the environment, and any list is allowed; the result \<open>None\<close> means that the loop has
  not returned when the list is used up.
\<close>

section \<open>Opening\<close>

definition PROTO_PLAYBACK_RCVBUF :: int where "PROTO_PLAYBACK_RCVBUF = 64000"

definition playback_Close :: "'p protobase_scheme \<Rightarrow> 'p protobase_scheme" where
  "playback_Close pb = (Close pb)\<lparr>m_tainted := False, m_hang := False\<rparr>"

definition playback_announce_cmd :: "'p protobase_scheme \<Rightarrow> string" where
  "playback_announce_cmd pb = ''ANN Playback '' @ os_hostname (sock pb) @ '' 0''"

definition playback_Announce75 :: "'p protobase_scheme \<Rightarrow> bool \<times> 'p protobase_scheme" where
  "playback_Announce75 pb =
     (case query (playback_announce_cmd pb) [fok] () pb of (r, pb1) \<Rightarrow> (r \<noteq> None, pb1))"

definition playback_Open :: "'p protobase_scheme \<Rightarrow> bool \<times> 'p protobase_scheme" where
  "playback_Open pb =
     (case OpenConnection PROTO_PLAYBACK_RCVBUF pb of (opened, pb1) \<Rightarrow>
       (if \<not> opened then (False, pb1)
        else case (if m_protoVersion pb1 \<ge> 75 then playback_Announce75 pb1 else (False, pb1)) of
               (ok, pb2) \<Rightarrow> (if ok then (True, pb2) else (False, playback_Close pb2))))"

definition playback_IsOpen :: "'p protobase_scheme \<Rightarrow> bool \<times> 'p protobase_scheme" where
  "playback_IsOpen pb = (if m_hang pb then playback_Open pb else (m_isOpen pb, pb))"

section \<open>Operations on a transfer\<close>

definition transfer_cmd :: "transfer \<Rightarrow> string list \<Rightarrow> string" where
  "transfer_cmd t args =
     ''QUERY_FILETRANSFER '' @ joined (uint32_to_string (GetFileId t) # args)"

definition TransferDone75 :: "transfer \<Rightarrow> 'p protobase_scheme \<Rightarrow> 'p protobase_scheme" where
  "TransferDone75 t pb =
     (if \<not> m_isOpen t then pb else snd (query (transfer_cmd t [''DONE'']) [fok] () pb))"

definition TransferIsOpen75 :: "transfer \<Rightarrow> 'p protobase_scheme \<Rightarrow> bool \<times> 'p protobase_scheme" where
  "TransferIsOpen75 t pb0 =
     (case playback_IsOpen pb0 of (opened, pb) \<Rightarrow>
       (if \<not> opened then (False, pb)
        else case query (transfer_cmd t [''IS_OPEN'']) [fconv string_to_int8 (\<lambda>x _. x)] 0 pb of
               (None, pb1) \<Rightarrow> (False, pb1)
             | (Some st, pb1) \<Rightarrow> (st \<noteq> 0, pb1)))"

definition whence_num :: "WHENCE_t \<Rightarrow> i8" where
  "whence_num w = (case w of WHENCE_SET \<Rightarrow> 0 | WHENCE_CUR \<Rightarrow> 1 | WHENCE_END \<Rightarrow> 2)"

text \<open>The checks before a seek is sent: \<open>Inl\<close> is an immediate return.\<close>

definition seek_check :: "transfer \<Rightarrow> i64 \<Rightarrow> WHENCE_t \<Rightarrow> i64 + unit" where
  "seek_check t offset whence =
     (let filePosition = GetPosition t; fileSize = GetSize t in
      case whence of
        WHENCE_CUR \<Rightarrow>
          (if offset = 0 then Inl filePosition
           else let position = filePosition + offset in
                if sint position < 0 \<or> sint position > sint fileSize then Inl (-1) else Inr ())
      | WHENCE_SET \<Rightarrow>
          (if offset = filePosition then Inl filePosition
           else if sint offset < 0 \<or> sint offset > sint fileSize then Inl (-1) else Inr ())
      | WHENCE_END \<Rightarrow>
          (let position = fileSize - offset in
           if sint position < 0 \<or> sint position > sint fileSize then Inl (-1) else Inr ()))"

definition seek_cmd :: "transfer \<Rightarrow> i64 \<Rightarrow> WHENCE_t \<Rightarrow> string" where
  "seek_cmd t offset whence =
     transfer_cmd t [''SEEK'', int64_to_string offset, int8_to_string (whence_num whence),
                     int64_to_string (GetPosition t)]"

definition TransferSeek75 ::
    "i64 \<Rightarrow> WHENCE_t \<Rightarrow> transfer \<Rightarrow> 'p protobase_scheme \<Rightarrow> i64 \<times> transfer \<times> 'p protobase_scheme" where
  "TransferSeek75 offset whence t pb =
     (case seek_check t offset whence of
        Inl r \<Rightarrow> (r, t, pb)
      | Inr _ \<Rightarrow>
          (if \<not> m_isOpen t then (-1, t, pb)
           else case query (seek_cmd t offset whence) [fconv string_to_int64 (\<lambda>x _. x)] 0 pb of
                  (None, pb1) \<Rightarrow> (-1, t, pb1)
                | (Some position, pb1) \<Rightarrow>
                    (position, SetPosition position (SetRequested position (Flush t)), pb1)))"

section \<open>Reading a block\<close>

definition TransferRequestBlock75 :: "transfer \<Rightarrow> nat \<Rightarrow> 'p protobase_scheme \<Rightarrow> bool \<times> 'p protobase_scheme" where
  "TransferRequestBlock75 t n pb =
     (if \<not> m_isOpen t then (False, pb)
      else SendCommand (transfer_cmd t [''REQUEST_BLOCK'', uint32_to_string (of_nat n)]) False pb)"

definition TransferRequestBlockFeedback75 :: "'p protobase_scheme \<Rightarrow> i32 \<times> 'p protobase_scheme" where
  "TransferRequestBlockFeedback75 pb =
     (case RcvMessageLength pb of (ok, pb1) \<Rightarrow>
       (if \<not> ok then (-1, snd (FlushMessage pb1))
        else case ReadField pb1 of (ok2, field, pb2) \<Rightarrow>
         (if \<not> ok2 then (-1, snd (FlushMessage pb2))
          else case string_to_int32 (c_str field) of
                 Inl _ \<Rightarrow> (-1, snd (FlushMessage pb2))
               | Inr rlen \<Rightarrow>
                   (if sint rlen < 0 then (-1, snd (FlushMessage pb2)) else (rlen, pb2)))))"

text \<open>What \<open>poll\<close> reports of one handle: \<open>POLLIN\<close>, one of the error bits without it, or
  nothing.\<close>

datatype revents = RevIn | RevErr | RevNone

datatype poll2 = PollFail | PollNone | PollReady revents revents

text \<open>The locals of the loop. \<open>out\<close> are the bytes stored so far, so \<open>s\<close> is their number;
  \<open>stop\<close> is the \<open>break\<close>.\<close>

record 'p block =
  blk_ok :: bool
  blk_request :: bool
  blk_data :: bool
  blk_stop :: bool
  blk_out :: bytes
  blk_filePosition :: i64
  blk_fileRequest :: i64
  blk_t :: transfer
  blk_pb :: "'p protobase_scheme"

text \<open>The part on the transfer socket. A full buffer clears the requested events, so \<open>POLLIN\<close>
  is not reported any more.\<close>

definition block_data :: "nat \<Rightarrow> revents \<Rightarrow> 'p block \<Rightarrow> 'p block" where
  "block_data n rvs b =
     (case (if length (blk_out b) = n \<and> rvs = RevIn then RevNone else rvs) of
        RevIn \<Rightarrow>
          (case m_socket (sock (blk_t b)) of
             None \<Rightarrow> b\<lparr>blk_ok := False\<rparr>
           | Some l \<Rightarrow>
               (case recv_rx (n - length (blk_out b)) l of
                  (Inl _, l1) \<Rightarrow>
                    b\<lparr>blk_ok := False, blk_t := (blk_t b)\<lparr>sock := (sock (blk_t b))\<lparr>m_socket := Some l1\<rparr>\<rparr>\<rparr>
                | (Inr d, l1) \<Rightarrow>
                    (let t1 = (blk_t b)\<lparr>sock := (sock (blk_t b))\<lparr>m_socket := Some l1\<rparr>\<rparr> in
                     if d = [] then b\<lparr>blk_t := t1\<rparr>
                     else let pos = blk_filePosition b + of_nat (length d); out = blk_out b @ d
                          in b\<lparr>blk_out := out, blk_filePosition := pos, blk_t := SetPosition pos t1,
                               blk_data := (length out \<noteq> n)\<rparr>)))
      | RevErr \<Rightarrow> b\<lparr>blk_ok := False\<rparr>
      | RevNone \<Rightarrow> b)"

text \<open>The part on the control socket, while a request is pending.\<close>

definition block_feedback :: "revents \<Rightarrow> 'p block \<Rightarrow> 'p block" where
  "block_feedback rvs b =
     (if \<not> blk_request b then b
      else case rvs of
        RevIn \<Rightarrow>
          (case TransferRequestBlockFeedback75 (blk_pb b) of (rlen, pb1) \<Rightarrow>
            (let b1 = b\<lparr>blk_pb := pb1, blk_request := False\<rparr> in
             if sint rlen < 0 then b1\<lparr>blk_ok := False\<rparr>
             else if rlen = 0 \<and> \<not> blk_data b1 then b1\<lparr>blk_stop := True\<rparr>
             else let req = blk_fileRequest b1 + scast rlen
                  in b1\<lparr>blk_fileRequest := req, blk_t := SetRequested req (blk_t b1)\<rparr>))
      | RevErr \<Rightarrow> b\<lparr>blk_ok := False\<rparr>
      | RevNone \<Rightarrow> b)"

definition block_step :: "nat \<Rightarrow> poll2 \<Rightarrow> 'p block \<Rightarrow> 'p block" where
  "block_step n ev b =
     (case ev of
        PollFail \<Rightarrow> b\<lparr>blk_ok := False\<rparr>
      | PollNone \<Rightarrow> (if blk_data b then b\<lparr>blk_data := False\<rparr> else b\<lparr>blk_ok := False\<rparr>)
      | PollReady rev0 rev1 \<Rightarrow> block_feedback rev1 (block_data n rev0 (b\<lparr>blk_data := False\<rparr>)))"

definition block_continues :: "'p block \<Rightarrow> bool" where
  "block_continues b \<longleftrightarrow> \<not> blk_stop b \<and> blk_ok b \<and> (blk_request b \<or> blk_data b \<or> blk_out b = [])"

fun block_loop :: "nat \<Rightarrow> poll2 list \<Rightarrow> 'p block \<Rightarrow> 'p block option" where
  "block_loop n [] b = (if block_continues b then None else Some b)"
| "block_loop n (ev # evs) b =
     (if block_continues b then block_loop n evs (block_step n ev b) else Some b)"

text \<open>The end of the call: the count, or the cancelled request and the recovery.\<close>

definition block_finish :: "'p block \<Rightarrow> int \<times> transfer \<times> 'p protobase_scheme" where
  "block_finish b =
     (if blk_ok b then (int (length (blk_out b)), blk_t b, blk_pb b)
      else
        (let pb1 = (if blk_request b
                    then (case RcvMessageLength (blk_pb b) of
                            (True, p) \<Rightarrow> snd (FlushMessage p) | (False, p) \<Rightarrow> p)
                    else blk_pb b)
         in case TransferSeek75 (blk_filePosition b) WHENCE_SET (blk_t b) pb1 of
              (r, t2, pb2) \<Rightarrow> (-1, t2, if sint r < 0 then HangException pb2 else pb2)))"

definition block_start :: "transfer \<Rightarrow> nat \<Rightarrow> 'p protobase_scheme \<Rightarrow> nat \<times> 'p block" where
  "block_start t n0 pb =
     (let n = (if n0 > PROTO_TRANSFER_RCVBUF then PROTO_TRANSFER_RCVBUF else n0);
          b = \<lparr>blk_ok = True, blk_request = False, blk_data = False, blk_stop = False, blk_out = [],
               blk_filePosition = GetPosition t, blk_fileRequest = GetRequested t, blk_t = t,
               blk_pb = pb\<rparr>
      in if sint (GetPosition t + of_nat n) > sint (GetRequested t)
         then case TransferRequestBlock75 t n pb of
                (ok, pb1) \<Rightarrow> (n, b\<lparr>blk_request := True, blk_ok := ok, blk_pb := pb1\<rparr>)
         else (n, b))"

text \<open>The result, the bytes stored in the buffer, and both objects.\<close>

definition TransferRequestBlock ::
    "poll2 list \<Rightarrow> nat \<Rightarrow> transfer \<Rightarrow> 'p protobase_scheme \<Rightarrow> (int \<times> bytes \<times> transfer \<times> 'p protobase_scheme) option" where
  "TransferRequestBlock evs n0 t pb =
     (if n0 = 0 then Some (0, [], t, pb)
      else if \<not> IsValid (sock t) then Some (-1, [], t, pb)
      else if \<not> IsValid (sock pb) then Some (-1, [], t, pb)
      else case block_start t n0 pb of (n, b) \<Rightarrow>
        (case block_loop n evs b of
           None \<Rightarrow> None
         | Some b1 \<Rightarrow> (case block_finish b1 of (r, t1, pb1) \<Rightarrow> Some (r, blk_out b1, t1, pb1))))"

section \<open>The invariant of the connection\<close>

interpretation playback: reconnecting_connection PROTO_PLAYBACK_RCVBUF
  "\<lambda>pb. if m_protoVersion pb \<ge> 75 then playback_Announce75 pb else (False, pb)" playback_Open playback_IsOpen
proof unfold_locales
  show "playback_Open pb =
      (case OpenConnection PROTO_PLAYBACK_RCVBUF pb of (opened, pb1) \<Rightarrow>
        if \<not> opened then (False, pb1)
        else case if m_protoVersion pb1 \<ge> 75 then playback_Announce75 pb1 else (False, pb1) of
               (ok, pb2) \<Rightarrow> if ok then (True, pb2) else (False, reset_Close pb2))" for pb
    unfolding playback_Open_def playback_Close_def reset_Close_def ..
qed (auto simp: playback_IsOpen_def playback_Announce75_def query_frame query_kept split: if_splits prod.splits
    dest: query_frame_eq query_kept)

lemma TransferSeek75_ok:
  "pb_ok pb \<Longrightarrow> pb_ok t \<Longrightarrow> TransferSeek75 offset whence t pb = (r, t', pb') \<Longrightarrow> pb_ok t' \<and> pb_ok pb'"
  by (auto simp: TransferSeek75_def SetPosition_def SetRequested_def Flush_ok
      split: sum.splits if_splits prod.splits option.splits dest!: ok_steps)

section \<open>Seeking\<close>

text \<open>The position a seek asks for, as a mathematical integer.\<close>

definition seek_target :: "transfer \<Rightarrow> i64 \<Rightarrow> WHENCE_t \<Rightarrow> int" where
  "seek_target t offset whence =
     (case whence of
        WHENCE_SET \<Rightarrow> sint offset
      | WHENCE_CUR \<Rightarrow> sint (GetPosition t) + sint offset
      | WHENCE_END \<Rightarrow> sint (GetSize t) - sint offset)"

lemma sint_word_add:
  "- (2 ^ 63) \<le> sint a + sint b \<Longrightarrow> sint a + sint b < 2 ^ 63 \<Longrightarrow> sint (a + b :: i64) = sint a + sint b"
  by (simp add: signed_take_bit_int_eq_self sint_word_ariths)

lemma sint_word_sub:
  "- (2 ^ 63) \<le> sint a - sint b \<Longrightarrow> sint a - sint b < 2 ^ 63 \<Longrightarrow> sint (a - b :: i64) = sint a - sint b"
  by (simp add: signed_take_bit_int_eq_self sint_word_ariths)

lemma seek_check_send:
  assumes "seek_check t offset whence = Inr u"
    "- (2 ^ 63) \<le> seek_target t offset whence" "seek_target t offset whence < 2 ^ 63"
  shows "0 \<le> seek_target t offset whence \<and> seek_target t offset whence \<le> sint (GetSize t)"
  using assms sint_word_add [of "GetPosition t" offset] sint_word_sub [of "GetSize t" offset]
  by (cases whence) (auto simp: seek_check_def seek_target_def Let_def split: if_splits)

lemma seek_check_reject:
  assumes "seek_target t offset whence < 0 \<or> seek_target t offset whence > sint (GetSize t)"
    "- (2 ^ 63) \<le> seek_target t offset whence" "seek_target t offset whence < 2 ^ 63"
    "0 \<le> sint (GetPosition t)" "sint (GetPosition t) \<le> sint (GetSize t)"
  shows "seek_check t offset whence = Inl (-1)"
  using assms sint_word_add [of "GetPosition t" offset] sint_word_sub [of "GetSize t" offset]
  by (cases whence) (auto simp: seek_check_def seek_target_def Let_def split: if_splits)

section \<open>Reading blocks\<close>

text \<open>All the data bytes a handle will ever deliver, and those of a transfer.\<close>

fun flow :: "rx_event list \<Rightarrow> bytes" where
  "flow [] = []"
| "flow (RxData d # evs) = d @ flow evs"
| "flow (_ # evs) = flow evs"

definition transfer_flow :: "transfer \<Rightarrow> bytes" where
  "transfer_flow t = (case m_socket (sock t) of None \<Rightarrow> [] | Some l \<Rightarrow> flow (rx l))"

lemma recv_flow: "recv_rx n l = (Inr d, l') \<Longrightarrow> flow (rx l) = d @ flow (rx l') \<and> length d \<le> n"
  by (auto simp: recv_rx_def split: list.splits rx_event.splits if_splits)

lemma recv_flow_error: "recv_rx n l = (Inl e, l') \<Longrightarrow> flow (rx l) = flow (rx l')"
  by (auto simp: recv_rx_def split: list.splits rx_event.splits if_splits)

text \<open>The bookkeeping of the loop: it stores at most \<open>n\<close> bytes, they are the next bytes of the
  transfer, and the position of the transfer has moved by exactly their number.\<close>

definition block_inv :: "nat \<Rightarrow> transfer \<Rightarrow> 'p block \<Rightarrow> bool" where
  "block_inv n t b \<longleftrightarrow> length (blk_out b) \<le> n
     \<and> transfer_flow t = blk_out b @ transfer_flow (blk_t b)
     \<and> blk_filePosition b = GetPosition t + of_nat (length (blk_out b))
     \<and> GetPosition (blk_t b) = blk_filePosition b
     \<and> GetRequested (blk_t b) = blk_fileRequest b"

lemma block_inv_flags [simp]:
  "block_inv n t (b\<lparr>blk_ok := x\<rparr>) = block_inv n t b"
  "block_inv n t (b\<lparr>blk_data := x\<rparr>) = block_inv n t b"
  "block_inv n t (b\<lparr>blk_stop := x\<rparr>) = block_inv n t b"
  "block_inv n t (b\<lparr>blk_request := x\<rparr>) = block_inv n t b"
  "block_inv n t (b\<lparr>blk_pb := y\<rparr>) = block_inv n t b"
  by (simp_all add: block_inv_def)

lemma block_data_inv:
  assumes "block_inv n t b"
  shows "block_inv n t (block_data n rvs b)"
proof (cases "rvs = RevIn \<and> length (blk_out b) \<noteq> n \<and> m_socket (sock (blk_t b)) \<noteq> None")
  case False
  with assms show ?thesis by (cases rvs) (auto simp: block_data_def)
next
  case True
  then obtain l where l: "m_socket (sock (blk_t b)) = Some l" by auto
  let ?t = "\<lambda>l1. (blk_t b)\<lparr>sock := (sock (blk_t b))\<lparr>m_socket := Some l1\<rparr>\<rparr>"
  obtain r l1 where r: "recv_rx (n - length (blk_out b)) l = (r, l1)" by force
  show ?thesis
  proof (cases r)
    case (Inl e)
    with recv_flow_error r l assms True show ?thesis
      by (auto simp: block_data_def block_inv_def transfer_flow_def GetPosition_def GetRequested_def)
  next
    case (Inr d)
    with recv_flow [of _ l d l1] r have "flow (rx l) = d @ flow (rx l1)"
      "length d \<le> n - length (blk_out b)" by auto
    with Inr r l assms True show ?thesis
      by (auto simp: block_data_def block_inv_def transfer_flow_def GetPosition_def GetRequested_def
          SetPosition_def Let_def)
  qed
qed

lemma block_feedback_inv: "block_inv n t b \<Longrightarrow> block_inv n t (block_feedback rvs b)"
  by (auto simp: block_feedback_def Let_def block_inv_def transfer_flow_def GetPosition_def
      GetRequested_def SetRequested_def split: revents.split prod.split)

lemma block_step_inv: "block_inv n t b \<Longrightarrow> block_inv n t (block_step n ev b)"
  by (cases ev) (auto simp: block_step_def intro!: block_feedback_inv block_data_inv)

lemma block_loop_inv: "block_inv n t b \<Longrightarrow> block_loop n evs b = Some b' \<Longrightarrow> block_inv n t b'"
  by (induction n evs b rule: block_loop.induct) (auto split: if_splits intro: block_step_inv)

text \<open>The recovery at the end asks for the position the transfer already has, so it sends
  nothing.\<close>

lemma recovery_idle:
  assumes "block_inv n t b"
  shows "TransferSeek75 (blk_filePosition b) WHENCE_SET (blk_t b) pb
    = (blk_filePosition b, blk_t b, pb)"
  using assms by (simp add: TransferSeek75_def seek_check_def block_inv_def Let_def)

lemma block_finish_spec:
  assumes "block_inv n t b" "block_finish b = (r, t', pb')"
  shows "t' = blk_t b" "blk_ok b \<Longrightarrow> r = int (length (blk_out b))" "\<not> blk_ok b \<Longrightarrow> r = -1"
  using assms
  by (auto simp: block_finish_def Let_def recovery_idle [OF assms(1)] split: if_splits prod.splits)

lemma block_start_inv:
  assumes "block_start t n0 pb = (n, b)"
  shows "block_inv n t b \<and> n \<le> n0 \<and> n \<le> PROTO_TRANSFER_RCVBUF"
  using assms
  by (auto simp: block_start_def Let_def block_inv_def GetPosition_def GetRequested_def
      split: if_splits prod.splits)

lemma TransferRequestBlock_spec:
  assumes "TransferRequestBlock evs n0 t pb = Some (r, out, t', pb')"
  shows "length out \<le> n0" "length out \<le> PROTO_TRANSFER_RCVBUF" "r = -1 \<or> r = int (length out)"
    "transfer_flow t = out @ transfer_flow t'" "GetPosition t' = GetPosition t + of_nat (length out)"
proof -
  have "length out \<le> n0 \<and> length out \<le> PROTO_TRANSFER_RCVBUF \<and> (r = -1 \<or> r = int (length out))
    \<and> transfer_flow t = out @ transfer_flow t' \<and> GetPosition t' = GetPosition t + of_nat (length out)"
  proof (cases "n0 = 0 \<or> \<not> IsValid (sock t) \<or> \<not> IsValid (sock pb)")
    case True
    with assms show ?thesis by (auto simp: TransferRequestBlock_def split: if_splits)
  next
    case False
    obtain n b where st: "block_start t n0 pb = (n, b)" by force
    note i = block_start_inv [OF st]
    from False assms st obtain b1 where l: "block_loop n evs b = Some b1"
      and f: "block_finish b1 = (r, t', pb')" and o: "out = blk_out b1"
      by (auto simp: TransferRequestBlock_def split: option.splits prod.splits)
    have inv: "block_inv n t b1" using block_loop_inv [OF _ l] i by blast
    with block_finish_spec [OF inv f] i o show ?thesis
      by (cases "blk_ok b1") (auto simp: block_inv_def)
  qed
  then show "length out \<le> n0" "length out \<le> PROTO_TRANSFER_RCVBUF" "r = -1 \<or> r = int (length out)"
    "transfer_flow t = out @ transfer_flow t'" "GetPosition t' = GetPosition t + of_nat (length out)"
    by simp_all
qed

text \<open>When the peer has closed the transfer connection, \<open>poll\<close> reports it readable and \<open>recv\<close>
  returns 0. The loop takes that for no data and polls again.\<close>

lemma block_step_eof:
  assumes "m_socket (sock (blk_t b)) = Some l" "rx l = RxEof # evs" "blk_out b = []" "0 < n"
    "\<not> blk_data b" "\<not> blk_request b"
  shows "block_step n (PollReady RevIn rvs1) b = b"
  using assms by (simp add: block_step_def block_data_def block_feedback_def recv_rx_def Let_def)

lemma block_loop_eof:
  assumes "m_socket (sock (blk_t b)) = Some l" "rx l = RxEof # evs" "blk_out b = []" "0 < n"
    "\<not> blk_data b" "\<not> blk_request b" "blk_ok b" "\<not> blk_stop b"
  shows "block_loop n (replicate k (PollReady RevIn RevNone)) b = None"
  using assms by (induction k) (simp_all add: block_continues_def block_step_eof)

lemma TransferRequestBlock_eof:
  assumes "m_socket (sock t) = Some l" "rx l = RxEof # evs" "IsValid (sock pb)" "0 < n"
    "n \<le> PROTO_TRANSFER_RCVBUF" "sint (GetPosition t + of_nat n) \<le> sint (GetRequested t)"
  shows "TransferRequestBlock (replicate k (PollReady RevIn RevNone)) n t pb = None"
  using assms by (simp add: TransferRequestBlock_def block_start_def IsValid_def block_loop_eof)

section \<open>Commands are sendable\<close>

lemma sendable_seek: "sendable (seek_cmd t offset whence)"
proof -
  have "length (uint32_to_string (GetFileId t)) \<le> 10" "length (int64_to_string offset) \<le> 20"
    "length (int8_to_string (whence_num whence)) \<le> 4" "length (int64_to_string (GetPosition t)) \<le> 20"
    by (rule length_uint32 length_int64 length_int8)+
  then show ?thesis
    by (simp add: sendable_def seek_cmd_def transfer_cmd_def PROTO_SENDMSG_MAXSIZE_def)
qed

text \<open>A seek on a server that answers: the command carries the file, the offset, the origin and
  the current position, and the answer becomes the position from which reading goes on.\<close>

lemma TransferSeek75_answer:
  assumes "seek_check t offset whence = Inr ()" "m_isOpen t" "sint pos \<noteq> - (2 ^ 63)"
    "ready (framed (dec_int (sint pos)) @ rest) pb"
  shows "\<exists>t' pb'. TransferSeek75 offset whence t pb = (pos, t', pb') \<and> GetPosition t' = pos
    \<and> GetRequested t' = pos \<and> ready rest pb' \<and> asked (seek_cmd t offset whence) pb pb'"
proof -
  have "length (dec_int (sint pos)) < 10 ^ 7"
    using length_int64 [of pos] by (simp add: numeric_simps)
  with query_answer [of "[dec_int (sint pos)]" rest pb "seek_cmd t offset whence"
      "[fconv string_to_int64 (\<lambda>x _. x)]" 0 pos] assms(3,4) sendable_seek
  obtain pb' where "query (seek_cmd t offset whence) [fconv string_to_int64 (\<lambda>x _. x)] 0 pb
      = (Some pos, pb')" "ready rest pb'" "asked (seek_cmd t offset whence) pb pb'"
    by (auto simp: fconv_def numeric_simps)
  with assms(1,2) show ?thesis
    by (auto simp: TransferSeek75_def SetPosition_def SetRequested_def GetPosition_def GetRequested_def)
qed

section \<open>Properties\<close>

text \<open>C3: Reading a block, whatever the two sockets do. The call stores at most the requested
  number of bytes and at most the size of the socket buffer, the bytes stored are the next bytes
  of the transfer in order, the position of the transfer moves by exactly their number (also when
  the call fails), and the result is their number or -1.\<close>

theorem request_block_accounts:
  assumes "TransferRequestBlock evs n t pb = Some (r, out, t', pb')"
  shows "length out \<le> n \<and> length out \<le> PROTO_TRANSFER_RCVBUF \<and> (r = -1 \<or> r = int (length out))
    \<and> transfer_flow t = out @ transfer_flow t'
    \<and> GetPosition t' = GetPosition t + of_nat (length out)"
  using TransferRequestBlock_spec [OF assms] by blast

theorem request_block_accounts_witness:
  "\<exists>t' pb'. TransferRequestBlock [PollReady RevIn RevNone, PollNone] 3 (demo_transfer ''abc'') (demo_pb 91 [])
     = Some (3, ''abc'', t', pb') \<and> GetPosition t' = 13"
proof -
  let ?r = "TransferRequestBlock [PollReady RevIn RevNone, PollNone] 3 (demo_transfer ''abc'') (demo_pb 91 [])"
  have v: "IsValid (demo_socket x)" for x by (simp add: IsValid_def)
  have d: "sock (demo_pb 91 []) = demo_socket []" by (simp add: demo_pb_def)
  obtain t' pb' where e: "?r = Some (3, ''abc'', t', pb')"
    by (simp add: TransferRequestBlock_def v d block_start_def PROTO_TRANSFER_RCVBUF_def GetPosition_def
        GetRequested_def block_continues_def block_step_def block_data_def block_feedback_def recv_rx_def
        block_finish_def SetPosition_def Let_def)
  from request_block_accounts [OF e] have "GetPosition t' = 13" by (simp add: GetPosition_def)
  with e show ?thesis by blast
qed

text \<open>The checks of a seek. A seek is sent only when the position it asks for lies between 0
  and the size of the file, and one that asks for a position outside is refused with -1 and
  changes nothing (as long as the sum that gives the position does not leave 64 bits).\<close>

theorem seek_guard:
  assumes "- (2 ^ 63) \<le> seek_target t offset whence" "seek_target t offset whence < 2 ^ 63"
    "0 \<le> sint (GetPosition t)" "sint (GetPosition t) \<le> sint (GetSize t)"
  shows "(seek_target t offset whence < 0 \<or> seek_target t offset whence > sint (GetSize t)
      \<longrightarrow> TransferSeek75 offset whence t pb = (-1, t, pb))
    \<and> (\<forall>u. seek_check t offset whence = Inr u
        \<longrightarrow> 0 \<le> seek_target t offset whence \<and> seek_target t offset whence \<le> sint (GetSize t))"
  using seek_check_reject [OF _ assms] seek_check_send [OF _ assms(1,2)]
  by (auto simp: TransferSeek75_def)

theorem seek_guard_witness:
  "TransferSeek75 991 WHENCE_CUR (demo_transfer []) (demo_pb 91 [])
     = (-1, demo_transfer [], demo_pb 91 [])"
  using seek_guard [of "demo_transfer []" 991 WHENCE_CUR "demo_pb 91 []"]
  by (simp add: seek_target_def GetPosition_def GetSize_def)

text \<open>A seek on a server that answers: the command names the file, the offset, the origin and
  the current position, the answer becomes the position, and the next block is requested from
  there.\<close>

theorem seek_moves:
  assumes "seek_check t offset whence = Inr ()" "m_isOpen t" "sint pos \<noteq> - (2 ^ 63)"
    "ready (framed (int64_to_string pos) @ rest) pb"
  shows "\<exists>t' pb'. TransferSeek75 offset whence t pb = (pos, t', pb') \<and> GetPosition t' = pos
    \<and> GetRequested t' = pos \<and> ready rest pb'
    \<and> os_sent (sock pb') = os_sent (sock pb) @ [framed (seek_cmd t offset whence)]"
  using TransferSeek75_answer [OF assms(1-3), of rest pb] assms(4)
  by (auto simp: numeric_simps asked_def)

theorem seek_moves_witness:
  "\<exists>t' pb'. TransferSeek75 500 WHENCE_SET (demo_transfer []) (demo_pb 91 (framed (int64_to_string 500)))
     = (500, t', pb') \<and> GetPosition t' = 500 \<and> GetRequested t' = 500"
proof -
  have "seek_check (demo_transfer []) 500 WHENCE_SET = Inr ()"
    by (simp add: seek_check_def GetPosition_def GetSize_def)
  from seek_moves [OF this, of 500 "[]" "demo_pb 91 (framed (int64_to_string 500))"] show ?thesis by auto
qed

text \<open>The recovery after a failed block does nothing: it seeks to the position that the
  transfer already has, so no command is sent and the connection is not closed either, although
  bytes that were requested may still arrive.\<close>

theorem recovery_does_nothing:
  assumes "block_inv n t b" "\<not> blk_ok b" "\<not> blk_request b" "0 \<le> sint (blk_filePosition b)"
  shows "block_finish b = (-1, blk_t b, blk_pb b)"
  using assms(2-4) by (simp add: block_finish_def recovery_idle [OF assms(1)])

theorem recovery_does_nothing_witness:
  "let b = (snd (block_start (demo_transfer []) 1 (demo_pb 91 [])))\<lparr>blk_ok := False\<rparr>
   in block_finish b = (-1, demo_transfer [], demo_pb 91 [])"
proof -
  have e: "block_start (demo_transfer []) 1 (demo_pb 91 []) = (1, snd (block_start (demo_transfer []) 1 (demo_pb 91 [])))"
    by (simp add: block_start_def PROTO_TRANSFER_RCVBUF_def GetPosition_def GetRequested_def)
  let ?b = "(snd (block_start (demo_transfer []) 1 (demo_pb 91 [])))\<lparr>blk_ok := False\<rparr>"
  have "block_inv 1 (demo_transfer []) ?b" using block_start_inv [OF e] by simp
  from recovery_does_nothing [OF this] show ?thesis
    by (simp add: block_start_def PROTO_TRANSFER_RCVBUF_def GetPosition_def GetRequested_def)
qed

text \<open>When the peer has closed the transfer connection, the loop never returns: it polls again
  for every readiness report, however many there are.\<close>

theorem request_block_spins:
  assumes "m_socket (sock t) = Some l" "rx l = RxEof # evs" "IsValid (sock pb)" "0 < n"
    "n \<le> PROTO_TRANSFER_RCVBUF" "sint (GetPosition t + of_nat n) \<le> sint (GetRequested t)"
  shows "\<forall>k. TransferRequestBlock (replicate k (PollReady RevIn RevNone)) n t pb = None"
  using TransferRequestBlock_eof [OF assms] by blast

theorem request_block_spins_witness:
  "TransferRequestBlock (replicate 9 (PollReady RevIn RevNone)) 3
     ((demo_transfer [])\<lparr>sock := (demo_socket [])\<lparr>m_socket := Some \<lparr>rx = [RxEof], tx = []\<rparr>\<rparr>\<rparr>)
     (demo_pb 91 []) = None"
proof -
  let ?t = "(demo_transfer [])\<lparr>sock := (demo_socket [])\<lparr>m_socket := Some \<lparr>rx = [RxEof], tx = []\<rparr>\<rparr>\<rparr>"
  have "IsValid (sock (demo_pb 91 []))" by (simp add: demo_pb_def IsValid_def)
  with request_block_spins [of ?t "\<lparr>rx = [RxEof], tx = []\<rparr>" "[]" "demo_pb 91 []" 3] show ?thesis
    by (simp add: PROTO_TRANSFER_RCVBUF_def GetPosition_def GetRequested_def)
qed

end
