(* ===== verification/ProtoRecorder.thy ===== *)
theory ProtoRecorder
  imports ProtoPlayback
begin

text \<open>
  The connection to a recorder (\<open>proto/mythprotorecorder.cpp\<close>). It extends the playback
  connection with the number of the recorder and two flags: \<open>m_playing\<close>, live TV was spawned,
  and \<open>m_liveRecording\<close>, the current showing is kept. The inherited operations are those of
  \<open>ProtoPlayback\<close>, at the type of this object.
\<close>

section \<open>State\<close>

record recorder = protobase +
  m_num :: i32
  m_playing :: bool
  m_liveRecording :: bool

definition ProtoRecorder_new :: "protobase \<Rightarrow> i32 \<Rightarrow> recorder" where
  "ProtoRecorder_new pb num =
     snd (playback_Open (protobase.extend pb
       \<lparr>m_num = num, m_playing = False, m_liveRecording = False\<rparr>))"

definition GetNum :: "recorder \<Rightarrow> i32" where "GetNum r = m_num r"
definition IsPlaying :: "recorder \<Rightarrow> bool" where "IsPlaying r = m_playing r"
definition IsLiveRecording :: "recorder \<Rightarrow> bool" where "IsLiveRecording r = m_liveRecording r"

definition DoneRecordingCallback :: "recorder \<Rightarrow> recorder" where
  "DoneRecordingCallback r = r\<lparr>m_liveRecording := False\<rparr>"

definition recorder_cmd :: "recorder \<Rightarrow> string list \<Rightarrow> string" where
  "recorder_cmd r args = ''QUERY_RECORDER '' @ joined (int32_to_string (m_num r) # args)"

section \<open>Live TV\<close>

definition SpawnLiveTV75 :: "string \<Rightarrow> string \<Rightarrow> recorder \<Rightarrow> bool \<times> recorder" where
  "SpawnLiveTV75 chainid channum = guarded playback_IsOpen False (\<lambda>r.
     case query (recorder_cmd r [''SPAWN_LIVETV'', chainid, ''0'', channum]) [fok] ()
            (r\<lparr>m_playing := True\<rparr>) of
       (None, r1) \<Rightarrow> (False, r1\<lparr>m_playing := False\<rparr>)
     | (Some _, r1) \<Rightarrow> (m_playing r1, r1))"

definition StopLiveTV75 :: "recorder \<Rightarrow> bool \<times> recorder" where
  "StopLiveTV75 = guarded playback_IsOpen False (\<lambda>r.
     case query (recorder_cmd r [''STOP_LIVETV'']) [fok] () r of
       (None, r1) \<Rightarrow> (False, r1)
     | (Some _, r1) \<Rightarrow> (True, r1\<lparr>m_playing := False\<rparr>))"

definition ProtoRecorder_delete :: "recorder \<Rightarrow> recorder" where
  "ProtoRecorder_delete r =
     playback_Close (if m_playing r then snd (StopLiveTV75 r) else r)"

definition CheckChannel75 :: "string \<Rightarrow> recorder \<Rightarrow> bool \<times> recorder" where
  "CheckChannel75 channum = guarded playback_IsOpen False (\<lambda>r.
     succeeded (query (recorder_cmd r [''CHECK_CHANNEL'', channum])
       [\<lambda>field x. if field = ''1'' then Some x else None] () r))"

definition GetCurrentRecording75 :: "libc \<Rightarrow> recorder \<Rightarrow> Program option \<times> recorder" where
  "GetCurrentRecording75 lc = guarded playback_IsOpen None (\<lambda>r.
     case SendCommand (recorder_cmd r [''GET_CURRENT_RECORDING'']) True r of (sent, r1) \<Rightarrow>
       (if \<not> sent then (None, r1)
        else case RcvProgramInfo lc r1 of (p, r2) \<Rightarrow> (p, snd (FlushMessage r2))))"

definition GetFilePosition75 :: "recorder \<Rightarrow> i64 \<times> recorder" where
  "GetFilePosition75 = guarded playback_IsOpen (-1) (\<lambda>r.
     if \<not> IsPlaying r then (-1, r)
     else case query_flush (recorder_cmd r [''GET_FILE_POSITION'']) [fconv string_to_int64 (\<lambda>x _. x)] 0 r of
            (None, r1) \<Rightarrow> (-1, r1)
          | (Some pos, r1) \<Rightarrow> (pos, r1))"

definition SetLiveRecording75 :: "bool \<Rightarrow> recorder \<Rightarrow> bool \<times> recorder" where
  "SetLiveRecording75 keep = guarded playback_IsOpen False (\<lambda>r.
     succeeded (query (recorder_cmd r [''SET_LIVE_RECORDING'', if keep then ''1'' else ''0'']) [fok] () r))"

definition SetLiveRecording :: "bool \<Rightarrow> recorder \<Rightarrow> bool \<times> recorder" where
  "SetLiveRecording keep r =
     (case SetLiveRecording75 keep r of (ret, r1) \<Rightarrow>
       (ret, if keep \<and> ret then r1\<lparr>m_liveRecording := keep\<rparr> else r1))"

definition FinishRecording75 :: "recorder \<Rightarrow> bool \<times> recorder" where
  "FinishRecording75 = guarded playback_IsOpen False (\<lambda>r.
     succeeded (query (recorder_cmd r [''FINISH_RECORDING'']) [fok] () r))"

section \<open>Free inputs\<close>

text \<open>What is done with the fields of an input at each protocol version. Since 90 the card id is
  the input id.\<close>

definition inputs_head :: "(string \<Rightarrow> CardInput \<Rightarrow> CardInput option) list" where
  "inputs_head =
     [fstr (\<lambda>x i. i\<lparr>in_inputName := x\<rparr>),
      fconv string_to_uint32 (\<lambda>x i. i\<lparr>in_sourceId := x\<rparr>)]"

definition inputs_tail :: "(string \<Rightarrow> CardInput \<Rightarrow> CardInput option) list" where
  "inputs_tail =
     [fconv string_to_uint32 (\<lambda>x i. i\<lparr>in_mplexId := x\<rparr>),
      fconv string_to_uint8 (\<lambda>x i. i\<lparr>in_liveTVOrder := x\<rparr>)]"

definition inputs75 :: "(string \<Rightarrow> CardInput \<Rightarrow> CardInput option) list" where
  "inputs75 = inputs_head
     @ [fconv string_to_uint32 (\<lambda>x i. i\<lparr>in_inputId := x\<rparr>),
        fconv string_to_uint32 (\<lambda>x i. i\<lparr>in_cardId := x\<rparr>)] @ inputs_tail"

definition inputs79 :: "(string \<Rightarrow> CardInput \<Rightarrow> CardInput option) list" where
  "inputs79 = inputs75 @ [fskip, fskip, fskip, fskip]"

definition inputs81 :: "(string \<Rightarrow> CardInput \<Rightarrow> CardInput option) list" where
  "inputs81 = inputs79 @ [fskip]"

definition inputs89 :: "(string \<Rightarrow> CardInput \<Rightarrow> CardInput option) list" where
  "inputs89 = inputs81 @ [fskip]"

definition inputs90 :: "(string \<Rightarrow> CardInput \<Rightarrow> CardInput option) list" where
  "inputs90 = inputs_head
     @ [fconv string_to_uint32 (\<lambda>x i. i\<lparr>in_inputId := x, in_cardId := x\<rparr>), fskip] @ inputs_tail
     @ [fskip, fskip, fskip, fskip, fskip, fskip]"

definition inputs91 :: "(string \<Rightarrow> CardInput \<Rightarrow> CardInput option) list" where
  "inputs91 = inputs_head
     @ [fconv string_to_uint32 (\<lambda>x i. i\<lparr>in_inputId := x, in_cardId := x\<rparr>)] @ inputs_tail
     @ [fskip, fskip, fskip, fskip, fskip]"

text \<open>The body shared by the seven methods. Before 87 the recorder is asked for its own inputs;
  since then the answer lists the inputs of all cards and those of this recorder are kept.\<close>

definition own_inputs ::
    "(string \<Rightarrow> CardInput \<Rightarrow> CardInput option) list \<Rightarrow> recorder \<Rightarrow> CardInput list \<times> recorder" where
  "own_inputs acts = guarded playback_IsOpen [] (\<lambda>r.
     query_records (recorder_cmd r [''GET_FREE_INPUTS'']) acts CardInput_init r)"

definition filtered_inputs ::
    "(string \<Rightarrow> CardInput \<Rightarrow> CardInput option) list \<Rightarrow> recorder \<Rightarrow> CardInput list \<times> recorder" where
  "filtered_inputs acts = guarded playback_IsOpen [] (\<lambda>r.
     case query_records ''GET_FREE_INPUT_INFO 0'' acts CardInput_init r of
       (is, r1) \<Rightarrow> (filter (\<lambda>i. in_cardId i = m_num r) is, r1))"

definition rec_GetFreeInputs75 :: "recorder \<Rightarrow> CardInput list \<times> recorder" where
  "rec_GetFreeInputs75 = own_inputs inputs75"

definition rec_GetFreeInputs79 :: "recorder \<Rightarrow> CardInput list \<times> recorder" where
  "rec_GetFreeInputs79 = own_inputs inputs79"

definition rec_GetFreeInputs81 :: "recorder \<Rightarrow> CardInput list \<times> recorder" where
  "rec_GetFreeInputs81 = own_inputs inputs81"

definition rec_GetFreeInputs87 :: "recorder \<Rightarrow> CardInput list \<times> recorder" where
  "rec_GetFreeInputs87 = filtered_inputs inputs81"

definition rec_GetFreeInputs89 :: "recorder \<Rightarrow> CardInput list \<times> recorder" where
  "rec_GetFreeInputs89 = filtered_inputs inputs89"

definition rec_GetFreeInputs90 :: "recorder \<Rightarrow> CardInput list \<times> recorder" where
  "rec_GetFreeInputs90 = filtered_inputs inputs90"

definition rec_GetFreeInputs91 :: "recorder \<Rightarrow> CardInput list \<times> recorder" where
  "rec_GetFreeInputs91 = filtered_inputs inputs91"

definition rec_GetFreeInputs :: "recorder \<Rightarrow> CardInput list \<times> recorder" where
  "rec_GetFreeInputs r =
     (if m_protoVersion r \<ge> 91 then rec_GetFreeInputs91 r
      else if m_protoVersion r \<ge> 90 then rec_GetFreeInputs90 r
      else if m_protoVersion r \<ge> 89 then rec_GetFreeInputs89 r
      else if m_protoVersion r \<ge> 87 then rec_GetFreeInputs87 r
      else if m_protoVersion r \<ge> 81 then rec_GetFreeInputs81 r
      else if m_protoVersion r \<ge> 79 then rec_GetFreeInputs79 r
      else rec_GetFreeInputs75 r)"

text \<open>The search for an input that can tune a channel: the first that has the source of the
  channel, and no multiplex or that of the channel.\<close>

fun tunable_input :: "Channel \<Rightarrow> CardInput list \<Rightarrow> bool" where
  "tunable_input ch [] = False"
| "tunable_input ch (i # is) =
     (if in_sourceId i \<noteq> sourceId ch then tunable_input ch is
      else if in_mplexId i \<noteq> 0 \<and> in_mplexId i \<noteq> mplexId ch then tunable_input ch is
      else True)"

definition IsTunable :: "Channel \<Rightarrow> recorder \<Rightarrow> bool \<times> recorder" where
  "IsTunable ch r = (case rec_GetFreeInputs r of (is, r1) \<Rightarrow> (tunable_input ch is, r1))"

section \<open>What the operations keep\<close>

lemma recorder_more:
  "protobase.more r' = protobase.more r \<longleftrightarrow>
     m_num r' = m_num r \<and> m_playing r' = m_playing r \<and> m_liveRecording r' = m_liveRecording r"
  for r r' :: recorder
  by (cases r; cases r') simp

lemma pb_ok_recorder_update [simp]:
  "pb_ok (r\<lparr>m_playing := a\<rparr>) = pb_ok r" "pb_ok (r\<lparr>m_liveRecording := a\<rparr>) = pb_ok r"
  by (simp_all add: pb_ok_def pb_inv_def pb_quiet_def)

lemma GetCurrentRecording75_body:
  assumes "(case SendCommand cmd True r of (sent, r1) \<Rightarrow>
       (if \<not> sent then (None, r1)
        else case RcvProgramInfo lc r1 of (p, r2) \<Rightarrow> (p, snd (FlushMessage r2)))) = (y, r')"
  shows "pb_keeps r r'"
proof -
  obtain sent r1 where 1: "SendCommand cmd True r = (sent, r1)" by force
  obtain p r2 where 2: "RcvProgramInfo lc r1 = (p, r2)" by force
  have "pb_keeps r r1" "pb_keeps r1 r2" using 1 2 by (auto dest: keeps_steps)
  with FlushMessage_keeps_step [of r r2] pb_keeps_trans [of r r1 r2] 1 2 assms show ?thesis
    by (auto split: if_splits)
qed

text \<open>The operations that leave the flags alone.\<close>

lemma passive_operations:
  assumes "pb_ok r"
  shows "CheckChannel75 n r = (b, r') \<Longrightarrow> pb_ok r' \<and> protobase.more r' = protobase.more r"
    "GetCurrentRecording75 lc r = (p, r') \<Longrightarrow> pb_ok r' \<and> protobase.more r' = protobase.more r"
    "GetFilePosition75 r = (pos, r') \<Longrightarrow> pb_ok r' \<and> protobase.more r' = protobase.more r"
    "SetLiveRecording75 keep r = (b, r') \<Longrightarrow> pb_ok r' \<and> protobase.more r' = protobase.more r"
    "FinishRecording75 r = (b, r') \<Longrightarrow> pb_ok r' \<and> protobase.more r' = protobase.more r"
proof -
  show "CheckChannel75 n r = (b, r') \<Longrightarrow> pb_ok r' \<and> protobase.more r' = protobase.more r"
    unfolding CheckChannel75_def by (rule playback.guarded_keeps [OF assms], assumption)
      (auto simp: succeeded_def intro: pb_keeps_frame query_frame)
  show "GetCurrentRecording75 lc r = (p, r') \<Longrightarrow> pb_ok r' \<and> protobase.more r' = protobase.more r"
    unfolding GetCurrentRecording75_def by (rule playback.guarded_keeps [OF assms], assumption)
      (rule GetCurrentRecording75_body)
  show "GetFilePosition75 r = (pos, r') \<Longrightarrow> pb_ok r' \<and> protobase.more r' = protobase.more r"
    unfolding GetFilePosition75_def by (rule playback.guarded_keeps [OF assms], assumption)
      (auto split: if_splits prod.splits option.splits dest: keeps_steps)
  show "SetLiveRecording75 keep r = (b, r') \<Longrightarrow> pb_ok r' \<and> protobase.more r' = protobase.more r"
    unfolding SetLiveRecording75_def by (rule playback.guarded_keeps [OF assms], assumption)
      (auto simp: succeeded_def intro: pb_keeps_frame query_frame)
  show "FinishRecording75 r = (b, r') \<Longrightarrow> pb_ok r' \<and> protobase.more r' = protobase.more r"
    unfolding FinishRecording75_def by (rule playback.guarded_keeps [OF assms], assumption)
      (auto simp: succeeded_def intro: pb_keeps_frame query_frame)
qed

lemma own_inputs_keeps:
  "pb_ok r \<Longrightarrow> own_inputs acts r = (is, r') \<Longrightarrow> pb_ok r' \<and> protobase.more r' = protobase.more r"
  unfolding own_inputs_def by (rule playback.guarded_keeps, assumption+) (auto dest: keeps_steps)

lemma filtered_inputs_keeps:
  "pb_ok r \<Longrightarrow> filtered_inputs acts r = (is, r') \<Longrightarrow> pb_ok r' \<and> protobase.more r' = protobase.more r"
  unfolding filtered_inputs_def
  by (rule playback.guarded_keeps, assumption+) (auto split: prod.splits dest: keeps_steps)

lemmas free_inputs_defs = rec_GetFreeInputs_def rec_GetFreeInputs75_def rec_GetFreeInputs79_def
  rec_GetFreeInputs81_def rec_GetFreeInputs87_def rec_GetFreeInputs89_def rec_GetFreeInputs90_def
  rec_GetFreeInputs91_def

lemma rec_GetFreeInputs_keeps:
  "pb_ok r \<Longrightarrow> rec_GetFreeInputs r = (is, r') \<Longrightarrow> pb_ok r' \<and> protobase.more r' = protobase.more r"
proof -
  assume ok: "pb_ok r" and e: "rec_GetFreeInputs r = (is, r')"
  have "\<exists>acts. rec_GetFreeInputs r = own_inputs acts r \<or> rec_GetFreeInputs r = filtered_inputs acts r"
    unfolding free_inputs_defs by (simp split: if_split) blast
  then obtain acts where "own_inputs acts r = (is, r') \<or> filtered_inputs acts r = (is, r')"
    using e by force
  with own_inputs_keeps [OF ok] filtered_inputs_keeps [OF ok] show ?thesis by blast
qed

lemma IsTunable_keeps:
  "pb_ok r \<Longrightarrow> IsTunable ch r = (b, r') \<Longrightarrow> pb_ok r' \<and> protobase.more r' = protobase.more r"
  using rec_GetFreeInputs_keeps [of r] by (auto simp: IsTunable_def split: prod.splits)

lemma query_recorder:
  assumes "query cmd acts x (r :: recorder) = (y, r')"
  shows "pb_ok r \<Longrightarrow> pb_ok r'" "m_num r' = m_num r" "m_playing r' = m_playing r"
    "m_liveRecording r' = m_liveRecording r"
  using pb_keeps_frame [OF query_frame_eq [OF assms]] recorder_more [of r' r] by (auto simp: pb_keeps_def)

lemma SpawnLiveTV75_flags:
  assumes "pb_ok r" "SpawnLiveTV75 c n r = (ok, r')"
  shows "pb_ok r' \<and> m_num r' = m_num r \<and> m_liveRecording r' = m_liveRecording r
    \<and> (ok \<longrightarrow> m_playing r') \<and> (\<not> ok \<longrightarrow> m_playing r' \<longrightarrow> m_playing r)"
proof -
  from assms(2) have w: "guarded playback_IsOpen False (\<lambda>r.
     case query (recorder_cmd r [''SPAWN_LIVETV'', c, ''0'', n]) [fok] () (r\<lparr>m_playing := True\<rparr>) of
       (None, r1) \<Rightarrow> (False, r1\<lparr>m_playing := False\<rparr>)
     | (Some _, r1) \<Rightarrow> (m_playing r1, r1)) r = (ok, r')" by (simp add: SpawnLiveTV75_def)
  from assms(1) w show ?thesis
  proof (cases rule: playback.guarded_cases)
    case closed
    then show ?thesis using recorder_more [of r' r] by simp
  next
    case (opened r1)
    obtain x r2 where q: "query (recorder_cmd r1 [''SPAWN_LIVETV'', c, ''0'', n]) [fok] ()
        (r1\<lparr>m_playing := True\<rparr>) = (x, r2)" by force
    with opened query_recorder [OF q] recorder_more [of r1 r] show ?thesis
      by (auto split: option.splits)
  qed
qed

lemma StopLiveTV75_flags:
  assumes "pb_ok r" "StopLiveTV75 r = (ok, r')"
  shows "pb_ok r' \<and> m_num r' = m_num r \<and> m_liveRecording r' = m_liveRecording r
    \<and> m_playing r' = (m_playing r \<and> \<not> ok)"
proof -
  from assms(2) have w: "guarded playback_IsOpen False (\<lambda>r.
     case query (recorder_cmd r [''STOP_LIVETV'']) [fok] () r of
       (None, r1) \<Rightarrow> (False, r1)
     | (Some _, r1) \<Rightarrow> (True, r1\<lparr>m_playing := False\<rparr>)) r = (ok, r')" by (simp add: StopLiveTV75_def)
  from assms(1) w show ?thesis
  proof (cases rule: playback.guarded_cases)
    case closed
    then show ?thesis using recorder_more [of r' r] by simp
  next
    case (opened r1)
    obtain x r2 where q: "query (recorder_cmd r1 [''STOP_LIVETV'']) [fok] () r1 = (x, r2)" by force
    with opened query_recorder [OF q] recorder_more [of r1 r] show ?thesis
      by (auto split: option.splits)
  qed
qed

lemma SetLiveRecording_flags:
  assumes "pb_ok r" "SetLiveRecording keep r = (ok, r')"
  shows "pb_ok r' \<and> m_num r' = m_num r \<and> m_playing r' = m_playing r
    \<and> m_liveRecording r' = (m_liveRecording r \<or> keep \<and> ok)"
proof -
  obtain b r1 where 1: "SetLiveRecording75 keep r = (b, r1)" by force
  with passive_operations(4) [OF assms(1) 1] recorder_more [of r1 r] assms(2) show ?thesis
    by (auto simp: SetLiveRecording_def split: if_splits)
qed

section \<open>Sequences of operations\<close>

datatype rec_op =
    OpSpawn string string | OpStop | OpCheck string | OpCurrent | OpPosition | OpKeep bool
  | OpFinish | OpInputs | OpTunable Channel | OpDone

definition rec_apply :: "libc \<Rightarrow> rec_op \<Rightarrow> recorder \<Rightarrow> bool \<times> recorder" where
  "rec_apply lc op r =
     (case op of
        OpSpawn c n \<Rightarrow> SpawnLiveTV75 c n r
      | OpStop \<Rightarrow> StopLiveTV75 r
      | OpCheck n \<Rightarrow> CheckChannel75 n r
      | OpCurrent \<Rightarrow> succeeded (GetCurrentRecording75 lc r)
      | OpPosition \<Rightarrow> (case GetFilePosition75 r of (pos, r1) \<Rightarrow> (pos \<noteq> -1, r1))
      | OpKeep keep \<Rightarrow> SetLiveRecording keep r
      | OpFinish \<Rightarrow> FinishRecording75 r
      | OpInputs \<Rightarrow> (case rec_GetFreeInputs r of (is, r1) \<Rightarrow> (is \<noteq> [], r1))
      | OpTunable ch \<Rightarrow> IsTunable ch r
      | OpDone \<Rightarrow> (True, DoneRecordingCallback r))"

text \<open>A run: the operations in their order, with the results they reported.\<close>

inductive rec_run :: "libc \<Rightarrow> recorder \<Rightarrow> (rec_op \<times> bool) list \<Rightarrow> recorder \<Rightarrow> bool" for lc r where
  rec_run_Nil: "rec_run lc r [] r"
| rec_run_snoc: "rec_run lc r evs r1 \<Longrightarrow> rec_apply lc op r1 = (ok, r2) \<Longrightarrow> rec_run lc r (evs @ [(op, ok)]) r2"

inductive_simps rec_run_Nil_iff: "rec_run lc r [] r'"

text \<open>What the history says of the two flags.\<close>

definition spawned :: "(rec_op \<times> bool) list \<Rightarrow> bool" where
  "spawned evs \<longleftrightarrow> (\<exists>xs c n ys. evs = xs @ (OpSpawn c n, True) # ys \<and> (OpStop, True) \<notin> set ys)"

definition kept :: "(rec_op \<times> bool) list \<Rightarrow> bool" where
  "kept evs \<longleftrightarrow> (\<exists>xs ys. evs = xs @ (OpKeep True, True) # ys \<and> (\<forall>b. (OpDone, b) \<notin> set ys))"

lemma spawned_snoc:
  "spawned evs \<Longrightarrow> e \<noteq> (OpStop, True) \<Longrightarrow> spawned (evs @ [e])" "spawned (evs @ [(OpSpawn c n, True)])"
proof -
  show "spawned (evs @ [(OpSpawn c n, True)])" unfolding spawned_def by force
  assume "spawned evs" "e \<noteq> (OpStop, True)"
  then obtain xs c n ys where "evs = xs @ (OpSpawn c n, True) # ys" "(OpStop, True) \<notin> set (ys @ [e])"
    by (auto simp: spawned_def)
  then show "spawned (evs @ [e])" unfolding spawned_def
    by (intro exI [of _ xs] exI [of _ c] exI [of _ n] exI [of _ "ys @ [e]"]) simp
qed

lemma kept_snoc:
  "kept evs \<Longrightarrow> fst e \<noteq> OpDone \<Longrightarrow> kept (evs @ [e])" "kept (evs @ [(OpKeep True, True)])"
proof -
  show "kept (evs @ [(OpKeep True, True)])" unfolding kept_def by force
  assume "kept evs" "fst e \<noteq> OpDone"
  then obtain xs ys where evs: "evs = xs @ (OpKeep True, True) # ys" and "\<forall>b. (OpDone, b) \<notin> set ys"
    by (auto simp: kept_def)
  with \<open>fst e \<noteq> OpDone\<close> have "\<forall>b. (OpDone, b) \<notin> set (ys @ [e])" by (cases e) auto
  with evs show "kept (evs @ [e])" unfolding kept_def
    by (intro exI [of _ xs] exI [of _ "ys @ [e]"]) simp
qed

lemma rec_apply_step:
  assumes "pb_ok r" "rec_apply lc op r = (ok, r')"
  shows "pb_ok r' \<and> m_num r' = m_num r
    \<and> (m_playing r' \<longrightarrow> (op, ok) \<noteq> (OpStop, True) \<and> (m_playing r \<or> (\<exists>c n. op = OpSpawn c n \<and> ok)))
    \<and> (m_liveRecording r' \<longrightarrow> op \<noteq> OpDone \<and> (m_liveRecording r \<or> op = OpKeep True \<and> ok))"
proof -
  have quiet: "pb_ok r' \<and> m_num r' = m_num r \<and> m_playing r' = m_playing r \<and> m_liveRecording r' = m_liveRecording r"
    if "pb_ok r' \<and> protobase.more r' = protobase.more r" using that recorder_more [of r' r] by simp
  note p = passive_operations [OF assms(1), THEN quiet] rec_GetFreeInputs_keeps [OF assms(1), THEN quiet]
    IsTunable_keeps [OF assms(1), THEN quiet]
  note f = SpawnLiveTV75_flags [OF assms(1)] StopLiveTV75_flags [OF assms(1)] SetLiveRecording_flags [OF assms(1)]
  show ?thesis
  proof (cases op)
    case (OpSpawn c n)
    with assms f(1) [of c n ok r'] show ?thesis by (auto simp: rec_apply_def)
  next
    case OpStop
    with assms f(2) [of ok r'] show ?thesis by (auto simp: rec_apply_def)
  next
    case (OpCheck n)
    with assms p(1) [of n ok] show ?thesis by (auto simp: rec_apply_def)
  next
    case OpCurrent
    with assms p(2) [of lc "fst (GetCurrentRecording75 lc r)"] show ?thesis
      by (cases "GetCurrentRecording75 lc r") (auto simp: rec_apply_def succeeded_def)
  next
    case OpPosition
    with assms p(3) [of "fst (GetFilePosition75 r)"] show ?thesis
      by (auto simp: rec_apply_def split: prod.splits)
  next
    case (OpKeep keep)
    with assms f(3) [of keep ok r'] show ?thesis by (auto simp: rec_apply_def)
  next
    case OpFinish
    with assms p(5) [of ok] show ?thesis by (auto simp: rec_apply_def)
  next
    case OpInputs
    with assms p(6) [of "fst (rec_GetFreeInputs r)"] show ?thesis
      by (auto simp: rec_apply_def split: prod.splits)
  next
    case (OpTunable ch)
    with assms p(7) [of ch ok] show ?thesis by (auto simp: rec_apply_def)
  next
    case OpDone
    with assms show ?thesis by (auto simp: rec_apply_def DoneRecordingCallback_def)
  qed
qed

lemma rec_run_flags:
  assumes "rec_run lc r evs r'" "pb_ok r" "\<not> m_playing r" "\<not> m_liveRecording r"
  shows "pb_ok r' \<and> m_num r' = m_num r \<and> (m_playing r' \<longrightarrow> spawned evs) \<and> (m_liveRecording r' \<longrightarrow> kept evs)"
  using assms
proof (induction rule: rec_run.induct)
  case (rec_run_snoc evs r1 op ok r2)
  then have i: "pb_ok r1" "m_num r1 = m_num r" "m_playing r1 \<longrightarrow> spawned evs" "m_liveRecording r1 \<longrightarrow> kept evs"
    by simp_all
  note s = rec_apply_step [OF i(1) rec_run_snoc.hyps(2)]
  from s i(3) spawned_snoc(1) [of evs "(op, ok)"] spawned_snoc(2) [of evs]
  have "m_playing r2 \<longrightarrow> spawned (evs @ [(op, ok)])" by auto
  moreover from s i(4) kept_snoc(1) [of evs "(op, ok)"] kept_snoc(2) [of evs]
  have "m_liveRecording r2 \<longrightarrow> kept (evs @ [(op, ok)])" by auto
  ultimately show ?case using s i by simp
qed simp


section \<open>Free inputs on a server that answers\<close>

text \<open>An input as the server prints it, with the fields that the library skips.\<close>

definition input_fields :: "nat \<Rightarrow> CardInput \<times> string list \<Rightarrow> string list" where
  "input_fields v x =
     (case x of (i, ex) \<Rightarrow>
       [in_inputName i, uint32_to_string (in_sourceId i), uint32_to_string (in_inputId i)]
       @ (if v < 90 then [uint32_to_string (in_cardId i)] else if v < 91 then [hd ex] else [])
       @ [uint32_to_string (in_mplexId i), uint8_to_string (in_liveTVOrder i)]
       @ (if v < 90 \<or> 91 \<le> v then ex else tl ex))"

definition skipped_fields :: "nat \<Rightarrow> nat" where
  "skipped_fields v =
     (if v \<ge> 91 then 5 else if v \<ge> 90 then 7 else if v \<ge> 89 then 6 else if v \<ge> 81 then 5
      else if v \<ge> 79 then 4 else 0)"

definition wf_input :: "nat \<Rightarrow> CardInput \<times> string list \<Rightarrow> bool" where
  "wf_input v x \<longleftrightarrow>
     (case x of (i, ex) \<Rightarrow> clean_field (in_inputName i) \<and> list_all clean_field ex
        \<and> length ex = skipped_fields v \<and> (ex \<noteq> [] \<longrightarrow> last ex \<noteq> [])
        \<and> (v \<ge> 90 \<longrightarrow> in_cardId i = in_inputId i))"

definition input_acts :: "nat \<Rightarrow> (string \<Rightarrow> CardInput \<Rightarrow> CardInput option) list" where
  "input_acts v =
     (if v \<ge> 91 then inputs91 else if v \<ge> 90 then inputs90 else if v \<ge> 89 then inputs89
      else if v \<ge> 81 then inputs81 else if v \<ge> 79 then inputs79 else inputs75)"

lemmas input_acts_defs = input_acts_def inputs91_def inputs90_def inputs89_def inputs81_def inputs79_def
  inputs75_def inputs_head_def inputs_tail_def

lemmas input_parse_simps = input_acts_defs input_fields_def CardInput_init_def fstr_def fskip_def fconv_def
  numeric_simps

lemma input_fields_parse:
  assumes "wf_input v x"
  shows "length (input_acts v) = length (input_fields v x) \<and> list_all clean_field (input_fields v x)
    \<and> parse_fields (input_acts v) (input_fields v x) CardInput_init = Some (fst x)
    \<and> last (input_fields v x) \<noteq> []"
proof -
  obtain i ex where x: "x = (i, ex)" by force
  note w = assms [unfolded x wf_input_def, simplified]
  consider "91 \<le> v" | "v = 90" | "89 \<le> v" "v < 90" | "81 \<le> v" "v < 89" | "79 \<le> v" "v < 81" | "v < 79"
    by linarith
  then show ?thesis
  proof cases
    case 1
    with w obtain a b c d e where "ex = [a, b, c, d, e]"
      by (auto simp: skipped_fields_def numeral_eq_Suc length_Suc_conv)
    with 1 w show ?thesis
      by (cases i) (simp add: x input_parse_simps)
  next
    case 2
    with w obtain a b c d e f g where "ex = [a, b, c, d, e, f, g]"
      by (auto simp: skipped_fields_def numeral_eq_Suc length_Suc_conv)
    with 2 w show ?thesis
      by (cases i) (simp add: x input_parse_simps)
  next
    case 3
    with w obtain a b c d e f where "ex = [a, b, c, d, e, f]"
      by (auto simp: skipped_fields_def numeral_eq_Suc length_Suc_conv)
    with 3 w show ?thesis
      by (cases i) (simp add: x input_parse_simps)
  next
    case 4
    with w obtain a b c d e where "ex = [a, b, c, d, e]"
      by (auto simp: skipped_fields_def numeral_eq_Suc length_Suc_conv)
    with 4 w show ?thesis
      by (cases i) (simp add: x input_parse_simps)
  next
    case 5
    with w obtain a b c d where "ex = [a, b, c, d]"
      by (auto simp: skipped_fields_def numeral_eq_Suc length_Suc_conv)
    with 5 w show ?thesis
      by (cases i) (simp add: x input_parse_simps)
  next
    case 6
    with w have "ex = []" by (auto simp: skipped_fields_def)
    with 6 w show ?thesis
      by (cases i) (simp add: x input_parse_simps)
  qed
qed

lemma recorder_cmd_sendable: "sendable (recorder_cmd r [''GET_FREE_INPUTS''])"
  using length_int32 [of "m_num r"]
  by (simp add: sendable_def recorder_cmd_def PROTO_SENDMSG_MAXSIZE_def PROTO_STR_SEPARATOR_def numeric_simps)

lemma query_inputs:
  assumes "list_all (wf_input v) xs" "ready (framed (joined (concat (map (input_fields v) xs))) @ rest) r"
    "length (joined (concat (map (input_fields v) xs))) < 10 ^ 7" "sendable cmd"
  shows "\<exists>r'. query_records cmd (input_acts v) CardInput_init r = (map fst xs, r') \<and> ready rest r' \<and> asked cmd r r'"
proof -
  let ?g = "\<lambda>fs. the (parse_fields (input_acts v) fs CardInput_init)"
  note p = input_fields_parse
  have ne: "input_acts v \<noteq> []" by (simp add: input_acts_defs)
  have fs: "\<And>fs. fs \<in> set (map (input_fields v) xs) \<Longrightarrow> length (input_acts v) = length fs
      \<and> list_all clean_field fs \<and> parse_fields (input_acts v) fs CardInput_init = Some (?g fs)"
    using assms(1) p by (auto simp: list_all_iff)
  have l: "map (input_fields v) xs \<noteq> [] \<Longrightarrow> last (last (map (input_fields v) xs)) \<noteq> []"
    using assms(1) p [of v "last xs"] by (simp add: last_map list_all_iff)
  have "map ?g (map (input_fields v) xs) = map fst xs"
    using assms(1) p [of v] by (auto simp: list_all_iff)
  moreover from query_records_answer [OF assms(2,4,3) ne fs l] obtain r' where
    "query_records cmd (input_acts v) CardInput_init r = (map ?g (map (input_fields v) xs), r')"
    "ready rest r'" "asked cmd r r'" by blast
  ultimately show ?thesis by metis
qed

text \<open>The free inputs of a recorder, at every protocol version. On a server that answers with
  a list of inputs, all of them are read back; since protocol 87 the answer covers all cards and
  exactly the inputs of this recorder are kept. The connection is left between two messages, and
  the one command has gone out.\<close>

theorem recorder_free_inputs:
  assumes "m_isOpen r" "\<not> m_hang r" "list_all (wf_input (m_protoVersion r)) xs"
    "ready (framed (joined (concat (map (input_fields (m_protoVersion r)) xs))) @ rest) r"
    "length (joined (concat (map (input_fields (m_protoVersion r)) xs))) < 10 ^ 7"
  shows "\<exists>r'. rec_GetFreeInputs r =
      (if m_protoVersion r \<ge> 87 then filter (\<lambda>i. in_cardId i = GetNum r) (map fst xs) else map fst xs, r')
    \<and> ready rest r'
    \<and> os_sent (sock r') = os_sent (sock r) @
        [framed (if m_protoVersion r \<ge> 87 then ''GET_FREE_INPUT_INFO 0'' else recorder_cmd r [''GET_FREE_INPUTS''])]"
proof -
  let ?v = "m_protoVersion r"
  have s: "sendable ''GET_FREE_INPUT_INFO 0''" by (simp add: sendable_def PROTO_SENDMSG_MAXSIZE_def)
  have f: "rec_GetFreeInputs r = (if ?v \<ge> 87 then filtered_inputs (input_acts ?v) r else own_inputs (input_acts ?v) r)"
    by (simp add: free_inputs_defs input_acts_def)
  show ?thesis
  proof (cases "?v \<ge> 87")
    case True
    from query_inputs [OF assms(3-5) s] True f show ?thesis
      by (auto simp: filtered_inputs_def playback.guarded_idle assms(1,2) GetNum_def asked_def)
  next
    case False
    from query_inputs [OF assms(3-5) recorder_cmd_sendable [of r]] False f show ?thesis
      by (auto simp: own_inputs_def playback.guarded_idle assms(1,2) asked_def)
  qed
qed

definition demo_recorder :: "nat \<Rightarrow> bytes \<Rightarrow> recorder" where
  "demo_recorder v b = protobase.extend (demo_pb v b) \<lparr>m_num = 3, m_playing = False, m_liveRecording = False\<rparr>"

lemma demo_recorder_simps [simp]:
  "m_protoVersion (demo_recorder v b) = m_protoVersion (demo_pb v b)" "sock (demo_recorder v b) = sock (demo_pb v b)"
  "m_isOpen (demo_recorder v b) = m_isOpen (demo_pb v b)" "m_hang (demo_recorder v b) = m_hang (demo_pb v b)"
  "m_msgLength (demo_recorder v b) = m_msgLength (demo_pb v b)"
  "m_msgConsumed (demo_recorder v b) = m_msgConsumed (demo_pb v b)"
  "m_num (demo_recorder v b) = 3" "\<not> m_playing (demo_recorder v b)" "\<not> m_liveRecording (demo_recorder v b)"
  "ready c (demo_recorder v b) = ready c (demo_pb v b)" "pb_ok (demo_recorder v b) = pb_ok (demo_pb v b)"
  by (simp_all add: demo_recorder_def protobase.defs ready_def idle_alt pb_ok_def pb_inv_def pb_quiet_def)


theorem recorder_free_inputs_witness:
  "let x = (\<lparr>in_inputId = 3, in_cardId = 3, in_sourceId = 1, in_mplexId = 0, in_inputName = ''DVBInput'',
              in_liveTVOrder = 1\<rparr>, [''DVB'', ''0'', ''1'', ''0'', ''0'']);
       y = (\<lparr>in_inputId = 4, in_cardId = 4, in_sourceId = 1, in_mplexId = 0, in_inputName = ''DVBInput'',
              in_liveTVOrder = 2\<rparr>, [''DVB'', ''0'', ''1'', ''0'', ''0'']);
       r = demo_recorder 91 (framed (joined (input_fields 91 x @ input_fields 91 y)))
   in fst (rec_GetFreeInputs r) = [fst x]"
proof -
  let ?x = "(\<lparr>in_inputId = 3, in_cardId = 3, in_sourceId = 1, in_mplexId = 0, in_inputName = ''DVBInput'',
              in_liveTVOrder = 1\<rparr>, [''DVB'', ''0'', ''1'', ''0'', ''0''])"
  let ?y = "(\<lparr>in_inputId = 4, in_cardId = 4, in_sourceId = 1, in_mplexId = 0, in_inputName = ''DVBInput'',
              in_liveTVOrder = 2\<rparr>, [''DVB'', ''0'', ''1'', ''0'', ''0''])"
  let ?m = "joined (input_fields 91 ?x @ input_fields 91 ?y)"
  have c: "clean_field ''DVBInput''" "clean_field ''DVB''" "clean_field ''1''" by (rule clean_field_plain; simp)+
  have w: "list_all (wf_input 91) [?x, ?y]"
    by (simp add: wf_input_def c skipped_fields_def)
  have "length (uint32_to_string a) \<le> 10" "length (uint8_to_string b) \<le> 3" for a :: u32 and b :: u8
    using length_uint32 [of a] dec_nat_length [of "unat b" 3] unat_below [of b] by (simp_all add: numeric_simps)
  then have "length ?m < 10 ^ 7"
    by (simp add: input_fields_def PROTO_STR_SEPARATOR_def numeric_simps dec_nat.simps)
  with recorder_free_inputs [of "demo_recorder 91 (framed ?m)" "[?x, ?y]" "[]"] w show ?thesis
    by (auto simp: GetNum_def)
qed

end
