(* ===== verification/CTime.thy ===== *)
theory CTime
  imports MythTypes
begin

text \<open>
  Time stamps: the conversions of \<open>private/builtin.c\<close> between \<open>time_t\<close> and text, over the broken
  down time of the C library.

  The calendar of the C library is modelled: \<open>gmtime_r\<close> and \<open>timegm\<close> are the proleptic Gregorian
  calendar in UTC, with the normalisation of out-of-range months and days that \<open>timegm\<close> does. The
  local time zone is a parameter (the record \<open>zone\<close>).
\<close>

section \<open>The calendar\<close>

record tm =
  tm_year :: int   \<comment> \<open>years since 1900\<close>
  tm_mon :: int    \<comment> \<open>0 to 11\<close>
  tm_mday :: int   \<comment> \<open>1 to 31\<close>
  tm_hour :: int
  tm_min :: int
  tm_sec :: int

definition leap_year :: "int \<Rightarrow> bool" where
  "leap_year y \<longleftrightarrow> y mod 4 = 0 \<and> (y mod 100 \<noteq> 0 \<or> y mod 400 = 0)"

definition year_days :: "int \<Rightarrow> int" where
  "year_days y = (if leap_year y then 366 else 365)"

text \<open>The days before the first of January of the year \<open>y\<close>, counted from 1970.\<close>

definition days_before_year :: "int \<Rightarrow> int" where
  "days_before_year y =
     365 * (y - 1970) + ((y - 1) div 4 - (y - 1) div 100 + (y - 1) div 400) - 477"

definition month_days :: "bool \<Rightarrow> int list" where
  "month_days leap = [31, if leap then 29 else 28, 31, 30, 31, 30, 31, 31, 30, 31, 30, 31]"

definition days_before_month :: "bool \<Rightarrow> nat \<Rightarrow> int" where
  "days_before_month leap m = sum_list (take m (month_days leap))"

text \<open>The year of a day, and the day in it.\<close>

function find_year :: "int \<Rightarrow> int \<Rightarrow> int \<times> int" where
  "find_year y d =
     (if d < 0 then find_year (y - 1) (d + year_days (y - 1))
      else if d \<ge> year_days y then find_year (y + 1) (d - year_days y)
      else (y, d))"
  by pat_completeness auto
termination
  by (relation "measure (\<lambda>(y, d). if d < 0 then nat (367 - d) else nat d)")
    (auto simp: year_days_def split: if_splits)

declare find_year.simps [simp del]

fun find_month :: "nat \<Rightarrow> int list \<Rightarrow> int \<Rightarrow> nat \<times> int" where
  "find_month m [] d = (m, d)"
| "find_month m (n # ns) d = (if d < n then (m, d) else find_month (Suc m) ns (d - n))"

text \<open>A year that does not fit an \<open>int\<close> makes \<open>gmtime_r\<close> fail.\<close>

definition gmtime_r :: "int \<Rightarrow> tm option" where
  "gmtime_r t =
     (let days = t div 86400; secs = t mod 86400 in
      case find_year 1970 days of (y, yd) \<Rightarrow>
        (case find_month 0 (month_days (leap_year y)) yd of (m, md) \<Rightarrow>
          (if - (2 ^ 31) \<le> y - 1900 \<and> y - 1900 < 2 ^ 31
           then Some \<lparr>tm_year = y - 1900, tm_mon = int m, tm_mday = md + 1,
                      tm_hour = secs div 3600, tm_min = secs mod 3600 div 60, tm_sec = secs mod 60\<rparr>
           else None)))"

definition timegm :: "tm \<Rightarrow> int" where
  "timegm t =
     (let y = tm_year t + 1900 + tm_mon t div 12; m = nat (tm_mon t mod 12) in
      (days_before_year y + days_before_month (leap_year y) m + tm_mday t - 1) * 86400
      + tm_hour t * 3600 + tm_min t * 60 + tm_sec t)"

text \<open>The local time zone of the process.\<close>

record zone =
  localtime_r :: "int \<Rightarrow> tm option"
  mktime :: "tm \<Rightarrow> int"

section \<open>Printing\<close>

definition u32_of :: "int \<Rightarrow> u32" where "u32_of i = of_int i"

definition iso_date :: "tm \<Rightarrow> string" where
  "iso_date t =
     uint_to_strdec (u32_of (tm_year t + 1900)) 4 True @ ''-''
     @ uint_to_strdec (u32_of (tm_mon t + 1)) 2 True @ ''-''
     @ uint_to_strdec (u32_of (tm_mday t)) 2 True"

definition iso_clock :: "tm \<Rightarrow> string" where
  "iso_clock t =
     uint_to_strdec (u32_of (tm_hour t)) 2 True @ '':''
     @ uint_to_strdec (u32_of (tm_min t)) 2 True @ '':''
     @ uint_to_strdec (u32_of (tm_sec t)) 2 True"

definition time_to_iso8601utc :: "time_t \<Rightarrow> string" where
  "time_to_iso8601utc time =
     (if time = 0 then []
      else case gmtime_r (sint time) of None \<Rightarrow> []
           | Some t \<Rightarrow> iso_date t @ ''T'' @ iso_clock t @ ''Z'')"

definition time_to_iso8601 :: "zone \<Rightarrow> time_t \<Rightarrow> string" where
  "time_to_iso8601 z time =
     (if time = 0 then []
      else case localtime_r z (sint time) of None \<Rightarrow> []
           | Some t \<Rightarrow> iso_date t @ ''T'' @ iso_clock t)"

definition time_to_isodate :: "zone \<Rightarrow> time_t \<Rightarrow> string" where
  "time_to_isodate z time =
     (if time = 0 then []
      else case localtime_r z (sint time) of None \<Rightarrow> [] | Some t \<Rightarrow> iso_date t)"

text \<open>The HTTP date. \<open>%2.2d\<close> and \<open>%4.4d\<close> print at least that many digits.\<close>

definition prec_dec :: "nat \<Rightarrow> int \<Rightarrow> string" where
  "prec_dec n i =
     (let d = dec_nat (nat \<bar>i\<bar>) in
      (if i < 0 then ''-'' else []) @ replicate (n - length d) (CHR ''0'') @ d)"

definition tm_wday :: "int \<Rightarrow> nat" where
  "tm_wday t = nat ((t div 86400 + 4) mod 7)"

definition week_days :: "string list" where
  "week_days = [''Sun'', ''Mon'', ''Tue'', ''Wed'', ''Thu'', ''Fri'', ''Sat'']"

definition month_names :: "string list" where
  "month_names = [''Jan'', ''Feb'', ''Mar'', ''Apr'', ''May'', ''Jun'',
                  ''Jul'', ''Aug'', ''Sep'', ''Oct'', ''Nov'', ''Dec'']"

definition time_to_httptime :: "time_t \<Rightarrow> string" where
  "time_to_httptime time =
     (if time = 0 then []
      else case gmtime_r (sint time) of None \<Rightarrow> []
           | Some t \<Rightarrow>
               week_days ! tm_wday (sint time) @ '', '' @ prec_dec 2 (tm_mday t) @ '' ''
               @ month_names ! nat (tm_mon t) @ '' '' @ prec_dec 4 (tm_year t + 1900) @ '' ''
               @ prec_dec 2 (tm_hour t) @ '':'' @ prec_dec 2 (tm_min t) @ '':''
               @ prec_dec 2 (tm_sec t) @ '' GMT'')"

text \<open>The time zone of a time: the direction, the hours and minutes, and their text. The C
  division truncates towards zero, and \<open>%+2.2d\<close> always prints a sign.\<close>

record tz_t =
  tz_dir :: int
  tz_hour :: int
  tz_min :: int
  tz_str :: string

definition crem :: "int \<Rightarrow> int \<Rightarrow> int" where
  "crem a b = (if a < 0 then - ((- a) mod b) else a mod b)"

definition time_tz :: "zone \<Rightarrow> time_t \<Rightarrow> tz_t option" where
  "time_tz z time =
     (case (localtime_r z (sint time), gmtime_r (sint time)) of
        (Some loc, Some gmt) \<Rightarrow>
          (let minutes = crem ((tm_hour loc * 60 + tm_min loc) - (tm_hour gmt * 60 + tm_min gmt)) 720;
               dir = (if minutes < 0 then - 1 else 1);
               h = dir * minutes div 60;
               m = dir * minutes - h * 60;
               sh = dir * h in
           Some \<lparr>tz_dir = dir, tz_hour = h, tz_min = m,
                 tz_str = (if sh < 0 then [] else ''+'') @ prec_dec 2 sh @ '':'' @ prec_dec 2 (m mod 60)\<rparr>)
      | _ \<Rightarrow> None)"

section \<open>Parsing\<close>

text \<open>\<open>atoi\<close> on a run of digits.\<close>

definition digits_at :: "string \<Rightarrow> nat \<Rightarrow> nat \<Rightarrow> int" where
  "digits_at buf i n = int (dec_value (take n (drop i buf)))"

text \<open>Every position that does not hold one of the separators has to be a digit. The separators
  sit at 4, 7, 10, 13, 16 and 19; the positions are overwritten with NUL before the check.\<close>

definition all_digits :: "string \<Rightarrow> bool" where
  "all_digits buf \<longleftrightarrow>
     list_all (\<lambda>i. i \<in> {4, 7, 10, 13, 16, 19} \<or> isdigit (buf ! i)) [0..<length buf]"

definition string_to_time :: "zone \<Rightarrow> string \<Rightarrow> time_t result" where
  "string_to_time z str =
     (if str = [] then Inr 0
      else
        (let buf = take 20 str; len = length buf;
             date_ok = (len \<ge> 10 \<and> buf ! 4 = CHR ''-'' \<and> buf ! 7 = CHR ''-'');
             clock_ok = (len \<ge> 19 \<and> buf ! 10 = CHR ''T'' \<and> buf ! 13 = CHR '':'' \<and> buf ! 16 = CHR '':'') in
         if \<not> (len = 20 \<and> date_ok \<and> clock_ok \<and> buf ! 19 = CHR ''Z''
               \<or> len = 19 \<and> date_ok \<and> clock_ok \<or> len = 10 \<and> date_ok)
         then Inl EINVAL
         else if \<not> all_digits buf then Inl EINVAL
         else
           (let t = \<lparr>tm_year = digits_at buf 0 4 - 1900, tm_mon = digits_at buf 5 2 - 1,
                     tm_mday = digits_at buf 8 2, tm_hour = 0, tm_min = 0, tm_sec = 0\<rparr> in
            if tm_mon t > 11 then Inl EINVAL
            else if tm_mday t > 31 then Inl EINVAL
            else if len = 10 then Inr (of_int (mktime z t))
            else
              (let t1 = t\<lparr>tm_hour := digits_at buf 11 2, tm_min := digits_at buf 14 2,
                          tm_sec := digits_at buf 17 2\<rparr> in
               if tm_hour t1 > 23 then Inl EINVAL
               else if tm_min t1 > 59 then Inl EINVAL
               else if tm_sec t1 > 59 then Inl EINVAL
               else if len = 20 then Inr (of_int (timegm t1))
               else Inr (of_int (mktime z t1))))))"

text \<open>The wrappers of \<open>mythtypes.cpp\<close>: a text that does not parse gives the invalid time, 0.\<close>

definition StringToTime :: "zone \<Rightarrow> string \<Rightarrow> time_t" where
  "StringToTime z isotime = (case string_to_time z (cstr isotime) of Inr t \<Rightarrow> t | Inl _ \<Rightarrow> 0)"

definition TimeToString :: "zone \<Rightarrow> time_t \<Rightarrow> bool \<Rightarrow> string" where
  "TimeToString z time utc = (if utc then time_to_iso8601utc time else time_to_iso8601 z time)"

section \<open>The calendar is consistent\<close>

lemma div_step: "0 < k \<Longrightarrow> y div k - (y - 1) div k = (if y mod k = 0 then 1 else 0 :: int)"
proof (cases "y mod k = 0")
  case True
  assume k: "0 < k"
  have "k * (y div k) = y" using True by (metis add.right_neutral mult_div_mod_eq)
  then have "y - 1 = k * (y div k - 1) + (k - 1)" by (simp add: algebra_simps)
  then have "(y - 1) div k = y div k - 1" by (rule int_div_pos_eq) (use k in simp_all)
  with True show ?thesis by simp
next
  case False
  assume k: "0 < k"
  have "0 \<le> y mod k" "y mod k < k" using k by simp_all
  then have r: "0 \<le> y mod k - 1" "y mod k - 1 < k" using False by linarith+
  have "y - 1 = k * (y div k) + (y mod k - 1)" by simp
  then have "(y - 1) div k = y div k" using r by (rule int_div_pos_eq)
  with False show ?thesis by simp
qed

lemma leap_terms: "y mod 400 = 0 \<Longrightarrow> y mod 100 = 0" "y mod 100 = 0 \<Longrightarrow> y mod 4 = 0" for y :: int
proof -
  show "y mod 400 = 0 \<Longrightarrow> y mod 100 = 0" using dvd_trans [of 100 400 y] by (simp add: mod_eq_0_iff_dvd)
  show "y mod 100 = 0 \<Longrightarrow> y mod 4 = 0" using dvd_trans [of 4 100 y] by (simp add: mod_eq_0_iff_dvd)
qed

lemma days_before_year_Suc: "days_before_year (y + 1) = days_before_year y + year_days y"
proof -
  have e: "365 * (y + 1 - 1970) + (a - b + c) - 477
      = 365 * (y - 1970) + (a' - b' + c') - 477 + (365 + (a - a') - (b - b') + (c - c'))"
    for a b c a' b' c' :: int by (simp add: algebra_simps)
  have "days_before_year (y + 1) = days_before_year y + (365 + (y div 4 - (y - 1) div 4)
      - (y div 100 - (y - 1) div 100) + (y div 400 - (y - 1) div 400))"
    unfolding days_before_year_def add_diff_cancel_right' by (rule e)
  also have "365 + (y div 4 - (y - 1) div 4) - (y div 100 - (y - 1) div 100) + (y div 400 - (y - 1) div 400)
      = year_days y"
  proof -
    have s: "y div 4 - (y - 1) div 4 = (if y mod 4 = 0 then 1 else 0)"
      "y div 100 - (y - 1) div 100 = (if y mod 100 = 0 then 1 else 0)"
      "y div 400 - (y - 1) div 400 = (if y mod 400 = 0 then 1 else 0)" by (rule div_step; simp)+
    show ?thesis unfolding s year_days_def leap_year_def
      using leap_terms [of y] by (cases "y mod 400 = 0"; cases "y mod 100 = 0"; cases "y mod 4 = 0") simp_all
  qed
  finally show ?thesis .
qed

lemma days_before_year_pred: "days_before_year (y - 1) = days_before_year y - year_days (y - 1)"
  using days_before_year_Suc [of "y - 1"] by simp

lemma find_year_correct:
  "find_year y d = (y', d') \<Longrightarrow>
     days_before_year y' + d' = days_before_year y + d \<and> 0 \<le> d' \<and> d' < year_days y'"
proof (induction y d rule: find_year.induct)
  case (1 y d)
  show ?case
  proof (cases "d < 0")
    case True
    with "1.prems" "1.IH"(1) show ?thesis
      by (simp add: find_year.simps [of y d] days_before_year_pred)
  next
    case False
    with "1.prems" "1.IH"(2) show ?thesis
      by (auto simp: find_year.simps [of y d] days_before_year_Suc split: if_splits)
  qed
qed

lemma find_month_correct:
  "find_month m ns d = (m', d') \<Longrightarrow> 0 \<le> d \<Longrightarrow> d < sum_list ns \<Longrightarrow>
     m \<le> m' \<and> m' < m + length ns \<and> sum_list (take (m' - m) ns) + d' = d \<and> 0 \<le> d' \<and> d' < ns ! (m' - m)"
proof (induction m ns d rule: find_month.induct)
  case (2 m n ns d)
  show ?case
  proof (cases "d < n")
    case True
    with 2 show ?thesis by auto
  next
    case False
    with "2.prems" "2.IH" have i: "Suc m \<le> m'" "m' < Suc m + length ns"
      "sum_list (take (m' - Suc m) ns) + d' = d - n" "0 \<le> d'" "d' < ns ! (m' - Suc m)" by auto
    then obtain k where "m' = Suc m + k" by (auto simp: le_iff_add)
    with i show ?thesis by auto
  qed
qed simp

lemma month_days_sum: "sum_list (month_days (leap_year y)) = year_days y" "length (month_days b) = 12"
  by (simp_all add: month_days_def year_days_def)

lemma month_days_le: "i < 12 \<Longrightarrow> month_days b ! i \<le> 31"
proof -
  have "\<forall>x \<in> set (month_days b). x \<le> 31" by (simp add: month_days_def)
  then show "i < 12 \<Longrightarrow> month_days b ! i \<le> 31" by (simp add: month_days_sum(2))
qed

text \<open>The broken down time of \<open>gmtime_r\<close> is in range, and \<open>timegm\<close> takes it back.\<close>

lemma gmtime_correct:
  assumes "gmtime_r t = Some b"
  shows "timegm b = t" "0 \<le> tm_mon b" "tm_mon b \<le> 11" "1 \<le> tm_mday b" "tm_mday b \<le> 31"
    "0 \<le> tm_hour b" "tm_hour b \<le> 23" "0 \<le> tm_min b" "tm_min b \<le> 59" "0 \<le> tm_sec b" "tm_sec b \<le> 59"
    "tm_year b + 1900 = fst (find_year 1970 (t div 86400))"
proof -
  obtain y yd where fy: "find_year 1970 (t div 86400) = (y, yd)" by force
  obtain m md where fm: "find_month 0 (month_days (leap_year y)) yd = (m, md)" by force
  note y = find_year_correct [OF fy]
  have mm: "m < 12" "days_before_month (leap_year y) m + md = yd" "0 \<le> md" "md < month_days (leap_year y) ! m"
    using find_month_correct [OF fm] y by (auto simp: month_days_sum days_before_month_def)
  have md: "md \<le> 30" using mm month_days_le [of m "leap_year y"] by simp
  have b: "b = \<lparr>tm_year = y - 1900, tm_mon = int m, tm_mday = md + 1,
      tm_hour = t mod 86400 div 3600, tm_min = t mod 86400 mod 3600 div 60, tm_sec = t mod 86400 mod 60\<rparr>"
    using assms fy fm by (simp add: gmtime_r_def Let_def split: if_splits)
  have "days_before_year 1970 = 0" by (simp add: days_before_year_def)
  with y mm have d: "days_before_year y + days_before_month (leap_year y) m + md = t div 86400" by simp
  have s: "t mod 86400 div 3600 * 3600 + t mod 86400 mod 3600 div 60 * 60 + t mod 86400 mod 60 = t mod 86400"
  proof -
    have "t mod 86400 mod 60 = t mod 86400 mod 3600 mod 60" by (simp add: mod_mod_cancel)
    then show ?thesis by (metis add.assoc div_mult_mod_eq)
  qed
  have z: "int m div 12 = 0" "nat (int m mod 12) = m" using mm(1) by simp_all
  have g: "(a + (x + 1) - 1) * 86400 + h + i + j = (a + x) * 86400 + (h + i + j)" for a x h i j :: int
    by simp
  have "timegm b = t div 86400 * 86400 + t mod 86400"
    unfolding timegm_def b Let_def tm.simps z diff_add_cancel add_0_right g d s ..
  then show "timegm b = t" by simp
  have r: "0 \<le> r div 3600 \<and> r div 3600 \<le> 23 \<and> 0 \<le> r mod 3600 div 60 \<and> r mod 3600 div 60 \<le> 59
      \<and> 0 \<le> r mod 60 \<and> r mod 60 \<le> 59" if "0 \<le> r" "r \<le> 86399" for r :: int
  proof -
    have "r mod 3600 \<le> 3599" "0 \<le> r mod 3600" "0 \<le> r mod 60" "r mod 60 < 60" by simp_all
    then show ?thesis
      using that zdiv_mono1 [of r 86399 3600] zdiv_mono1 [of "r mod 3600" 3599 60]
        zdiv_mono1 [of 0 r 3600] zdiv_mono1 [of 0 "r mod 3600" 60] by simp
  qed
  have "0 \<le> t mod 86400" "t mod 86400 \<le> 86399" by simp_all
  note h = r [OF this]
  show "0 \<le> tm_hour b" "tm_hour b \<le> 23" "0 \<le> tm_min b" "tm_min b \<le> 59" "0 \<le> tm_sec b" "tm_sec b \<le> 59"
    unfolding b tm.simps using h by blast+
  show "0 \<le> tm_mon b" "tm_mon b \<le> 11" "1 \<le> tm_mday b" "tm_mday b \<le> 31"
    "tm_year b + 1900 = fst (find_year 1970 (t div 86400))"
    using b mm md fy by simp_all
qed

section \<open>Round trip\<close>

lemma dec_value_zeros: "dec_value (replicate n (CHR ''0'') @ s) = dec_value s"
  by (induction n) (simp_all add: dec_value_def digit_val_def)

lemma padded_number:
  assumes "0 \<le> i" "i < 10 ^ len" "0 < len" "i < 2 ^ 32"
  defines "p \<equiv> uint_to_strdec (u32_of i) len True"
  shows "length p = len \<and> list_all isdigit p \<and> int (dec_value p) = i"
proof -
  have u: "unat (u32_of i) = nat i"
    using assms(1,4) by (simp add: u32_of_def unat_eq_nat_uint uint_word_of_int)
  have n: "nat i < 10 ^ len" using assms(1,2) by (simp add: nat_less_iff)
  have "p = replicate (len - length (dec_nat (nat i))) (CHR ''0'') @ dec_nat (nat i)"
    using uint_to_strdec_pad [of len "u32_of i" True] dec_nat_length [OF n assms(3)] assms(3) u
    by (simp add: p_def Let_def)
  moreover have "list_all isdigit (replicate k (CHR ''0''))" for k by (induction k) (simp_all add: isdigit_def)
  ultimately show ?thesis
    using dec_nat_length [OF n assms(3)] assms(1) dec_nat_digits [of "nat i"]
    by (simp add: dec_value_zeros)
qed

lemma list_of_length:
  "length p = 2 \<longleftrightarrow> (\<exists>a b. p = [a, b])" "length p = 4 \<longleftrightarrow> (\<exists>a b c d. p = [a, b, c, d])"
  by (auto simp: length_Suc_conv numeral_eq_Suc)

lemma days_before_year_mono: "x \<le> y \<Longrightarrow> days_before_year x \<le> days_before_year y"
proof (induction y rule: int_ge_induct)
  case (step y)
  then show ?case by (simp add: days_before_year_Suc year_days_def)
qed simp

text \<open>The years that four digits can write.\<close>

definition four_digit_year :: "int \<Rightarrow> bool" where
  "four_digit_year t \<longleftrightarrow> - 62167219200 \<le> t \<and> t < 253402300800"

lemma four_digit_year_find:
  assumes "four_digit_year t" "find_year 1970 (t div 86400) = (y, yd)"
  shows "0 \<le> y \<and> y \<le> 9999"
proof -
  have d: "- 719528 \<le> t div 86400" "t div 86400 \<le> 2932896"
    using assms(1) zdiv_mono1 [of "- 62167219200" t 86400] zdiv_mono1 [of t 253402300799 86400]
    by (simp_all add: four_digit_year_def)
  have z: "days_before_year 1970 = 0" "days_before_year 0 = - 719528" "days_before_year 10000 = 2932897"
    by (simp_all add: days_before_year_def)
  have y: "days_before_year y \<le> t div 86400" "t div 86400 < days_before_year (y + 1)"
    using find_year_correct [OF assms(2)] z days_before_year_Suc [of y] by linarith+
  show ?thesis
    using days_before_year_mono [of "y + 1" 0] days_before_year_mono [of 10000 y] y d z by linarith
qed

lemma gmtime_four_digits:
  assumes "four_digit_year t"
  shows "\<exists>b. gmtime_r t = Some b \<and> 0 \<le> tm_year b + 1900 \<and> tm_year b + 1900 \<le> 9999"
proof -
  obtain y yd where fy: "find_year 1970 (t div 86400) = (y, yd)" by force
  obtain m md where fm: "find_month 0 (month_days (leap_year y)) yd = (m, md)" by force
  from four_digit_year_find [OF assms fy] fy fm show ?thesis
    by (simp add: gmtime_r_def Let_def)
qed

lemma scan_stamp:
  assumes "length yyyy = 4" "length MM = 2" "length dd = 2" "length hh = 2" "length mm = 2" "length ss = 2"
    and "list_all (list_all isdigit) [yyyy, MM, dd, hh, mm, ss]"
    and "dec_value MM \<le> 12" "dec_value dd \<le> 31" "dec_value hh \<le> 23" "dec_value mm \<le> 59" "dec_value ss \<le> 59"
  shows "string_to_time z (yyyy @ ''-'' @ MM @ ''-'' @ dd @ ''T'' @ hh @ '':'' @ mm @ '':'' @ ss @ ''Z'')
    = Inr (of_int (timegm \<lparr>tm_year = int (dec_value yyyy) - 1900, tm_mon = int (dec_value MM) - 1,
         tm_mday = int (dec_value dd), tm_hour = int (dec_value hh), tm_min = int (dec_value mm),
         tm_sec = int (dec_value ss)\<rparr>))"
proof -
  obtain y1 y2 y3 y4 M1 M2 d1 d2 h1 h2 m1 m2 s1 s2 where
    e: "yyyy = [y1, y2, y3, y4]" "MM = [M1, M2]" "dd = [d1, d2]" "hh = [h1, h2]" "mm = [m1, m2]" "ss = [s1, s2]"
    using assms(1-6) unfolding list_of_length by blast
  have u: "[0..<20] = [0, 1, 2, 3, 4, 5, 6, 7, 8, 9, 10, 11, 12, 13, 14, 15, 16, 17, 18, 19 :: nat]"
    by (simp add: upt_rec)
  show ?thesis using assms(7-)
    by (simp add: e string_to_time_def all_digits_def u digits_at_def Let_def)
qed

text \<open>A time stamp printed in the ISO 8601 form used by the protocol reads back as the same
  time, for every time in the years 0 to 9999 but 0 itself, which the library uses as the invalid
  time (it prints as the empty string, and that reads back as 0 too).\<close>

theorem iso8601utc_roundtrip:
  "four_digit_year (sint t) \<Longrightarrow> string_to_time z (time_to_iso8601utc t) = Inr t"
proof (cases "t = 0")
  case True
  then show ?thesis by (simp add: time_to_iso8601utc_def string_to_time_def)
next
  case False
  assume "four_digit_year (sint t)"
  then obtain b where b: "gmtime_r (sint t) = Some b" "0 \<le> tm_year b + 1900" "tm_year b + 1900 \<le> 9999"
    using gmtime_four_digits by blast
  note g = gmtime_correct [OF b(1)]
  let ?p = "\<lambda>i n. uint_to_strdec (u32_of i) n True"
  have p2: "length (?p i 2) = 2 \<and> list_all isdigit (?p i 2) \<and> int (dec_value (?p i 2)) = i"
    if "0 \<le> i" "i \<le> 59" for i using that by (intro padded_number) simp_all
  have p4: "length (?p (tm_year b + 1900) 4) = 4 \<and> list_all isdigit (?p (tm_year b + 1900) 4)
      \<and> int (dec_value (?p (tm_year b + 1900) 4)) = tm_year b + 1900"
    using b(2,3) by (intro padded_number) simp_all
  note q = p4 p2 [of "tm_mon b + 1"] p2 [of "tm_mday b"] p2 [of "tm_hour b"] p2 [of "tm_min b"]
    p2 [of "tm_sec b"]
  have eta: "\<lparr>tm_year = tm_year b, tm_mon = tm_mon b, tm_mday = tm_mday b, tm_hour = tm_hour b,
      tm_min = tm_min b, tm_sec = tm_sec b\<rparr> = b" by simp
  have "string_to_time z (time_to_iso8601utc t) = Inr (of_int (timegm b))"
    using False b(1) scan_stamp [of "?p (tm_year b + 1900) 4" "?p (tm_mon b + 1) 2" "?p (tm_mday b) 2"
      "?p (tm_hour b) 2" "?p (tm_min b) 2" "?p (tm_sec b) 2" z] q g(2-11)
    by (simp add: time_to_iso8601utc_def iso_date_def iso_clock_def eta)
  then show ?thesis by (simp add: g(1))
qed

theorem iso8601utc_roundtrip_witness:
  "four_digit_year (sint (1700000000 :: time_t))
   \<and> string_to_time \<lparr>localtime_r = gmtime_r, mktime = timegm\<rparr> (time_to_iso8601utc 1700000000) = Inr 1700000000"
proof -
  have "four_digit_year (sint (1700000000 :: time_t))" by (simp add: four_digit_year_def)
  then show ?thesis using iso8601utc_roundtrip by blast
qed

text \<open>The parser checks only the upper bounds of the month and the day: a stamp with month 00
  and day 00 is accepted, and stands for the last day of November of the year before.\<close>

theorem time_stamp_zero_month:
  "string_to_time z ''2024-00-00T00:00:00Z'' = string_to_time z ''2023-11-30T00:00:00Z''
   \<and> string_to_time z ''2023-11-30T00:00:00Z'' = Inr 1701302400
   \<and> string_to_time z ''2024-13-01T00:00:00Z'' = Inl EINVAL"
proof -
  have u: "[0..<20] = [0, 1, 2, 3, 4, 5, 6, 7, 8, 9, 10, 11, 12, 13, 14, 15, 16, 17, 18, 19 :: nat]"
    by (simp add: upt_rec)
  show ?thesis
    by (simp add: string_to_time_def all_digits_def u isdigit_def digits_at_def dec_value_def digit_val_def
      timegm_def days_before_year_def days_before_month_def month_days_def leap_year_def Let_def)
qed

text \<open>A zone at a fixed offset from UTC, in seconds.\<close>

definition fixed_zone :: "int \<Rightarrow> zone" where
  "fixed_zone off = \<lparr>localtime_r = (\<lambda>t. gmtime_r (t + off)), mktime = (\<lambda>b. timegm b - off)\<rparr>"

text \<open>The offset of the time zone is computed from the times of day alone. While the local
  date and the UTC date differ it comes out wrong: five hours west of UTC, at 01:00 UTC, it is
  reported as seven hours east; and half an hour west is printed with a plus sign.\<close>

theorem time_tz_other_day:
  "map_option tz_str (time_tz (fixed_zone (- 18000)) 3600) = Some ''+07:00''
   \<and> map_option tz_str (time_tz (fixed_zone (- 18000)) 36000) = Some ''-05:00''
   \<and> map_option tz_str (time_tz (fixed_zone (- 1800)) 36000) = Some ''+00:30''"
  by code_simp

end
