(* ===== verification/ProtoMonitor.thy ===== *)
theory ProtoMonitor
  imports ProtoRecorder CTime
begin

text \<open>
  The monitor connection (\<open>proto/mythprotomonitor.cpp\<close>): the requests that concern the backend
  as a whole. The object extends the connection with the flag \<open>m_frontend\<close>. Every operation
  starts by testing \<open>IsOpen\<close>, which connects again after a hang.
\<close>

section \<open>Opening\<close>

definition PROTO_MONITOR_RCVBUF :: int where "PROTO_MONITOR_RCVBUF = 64000"

record monitor = protobase +
  m_frontend :: bool

definition ProtoMonitor_new :: "protobase \<Rightarrow> bool \<Rightarrow> monitor" where
  "ProtoMonitor_new pb frontend = protobase.extend pb \<lparr>m_frontend = frontend\<rparr>"

definition monitor_Close :: "monitor \<Rightarrow> monitor" where
  "monitor_Close m = (Close m)\<lparr>m_tainted := False, m_hang := False\<rparr>"

definition monitor_Announce75 :: "monitor \<Rightarrow> bool \<times> monitor" where
  "monitor_Announce75 m =
     succeeded (query (''ANN Monitor '' @ os_hostname (sock m) @ '' 0'') [fok] () m)"

definition monitor_Announce88 :: "monitor \<Rightarrow> bool \<times> monitor" where
  "monitor_Announce88 m =
     succeeded (query ((if m_frontend m then ''ANN Frontend '' else ''ANN Monitor '')
       @ os_hostname (sock m) @ '' 0'') [fok] () m)"

definition monitor_Open :: "monitor \<Rightarrow> bool \<times> monitor" where
  "monitor_Open m =
     (case OpenConnection PROTO_MONITOR_RCVBUF m of (opened, m1) \<Rightarrow>
       (if \<not> opened then (False, m1)
        else case (if m_protoVersion m1 \<ge> 88 then monitor_Announce88 m1 else monitor_Announce75 m1) of
               (ok, m2) \<Rightarrow> (if ok then (True, m2) else (False, monitor_Close m2))))"

definition monitor_IsOpen :: "monitor \<Rightarrow> bool \<times> monitor" where
  "monitor_IsOpen m = (if m_hang m then monitor_Open m else (m_isOpen m, m))"

section \<open>Requests\<close>

text \<open>The address of a recorder. The object it is given to is \<open>ProtoRecorder_new\<close> on a new
  connection to that address. A host named \<open>nohost\<close> means that there is none.\<close>

definition GetRecorderFromNum75 :: "i32 \<Rightarrow> monitor \<Rightarrow> (i32 \<times> string \<times> u16) option \<times> monitor" where
  "GetRecorderFromNum75 rnum = guarded monitor_IsOpen None (\<lambda>m.
     case query_flush (joined [''GET_RECORDER_FROM_NUM'', int32_to_string rnum])
            [\<lambda>f x. if f = ''nohost'' then None else Some (f, snd x),
             fconv string_to_uint16 (\<lambda>p x. (fst x, p))] ([], 0) m of
       (x, m1) \<Rightarrow> (map_option (Pair rnum) x, m1))"

definition QueryFreeSpaceSummary75 :: "monitor \<Rightarrow> (i64 \<times> i64) option \<times> monitor" where
  "QueryFreeSpaceSummary75 = guarded monitor_IsOpen None (\<lambda>m.
     query_flush ''QUERY_FREE_SPACE_SUMMARY''
       [fconv string_to_int64 (\<lambda>a x. (a, snd x)), fconv string_to_int64 (\<lambda>b x. (fst x, b))] (0, 0) m)"

definition GetSetting75 :: "string \<Rightarrow> string \<Rightarrow> monitor \<Rightarrow> string \<times> monitor" where
  "GetSetting75 hostname setting = guarded monitor_IsOpen [] (\<lambda>m.
     case query_flush (''QUERY_SETTING '' @ hostname @ '' '' @ setting) [fstr (\<lambda>f _. f)] [] m of
       (None, m1) \<Rightarrow> ([], m1) | (Some field, m1) \<Rightarrow> (field, m1))"

definition SetSetting75 :: "string \<Rightarrow> string \<Rightarrow> string \<Rightarrow> monitor \<Rightarrow> bool \<times> monitor" where
  "SetSetting75 hostname setting val = guarded monitor_IsOpen False (\<lambda>m.
     succeeded (query_flush (''SET_SETTING '' @ hostname @ '' '' @ setting @ '' '' @ val) [fok] () m))"

definition QueryGenpixmap75 :: "libc \<Rightarrow> Program \<Rightarrow> monitor \<Rightarrow> bool \<times> monitor" where
  "QueryGenpixmap75 lc p = guarded monitor_IsOpen False (\<lambda>m.
     succeeded (query_flush (''QUERY_GENPIXMAP2'' @ SEP @ ''do_not_care'' @ SEP
       @ MakeProgramInfo lc (m_protoVersion m) p) [fok] () m))"

definition delete_cmd :: "Program \<Rightarrow> bool \<Rightarrow> bool \<Rightarrow> string" where
  "delete_cmd p force forget =
     ''DELETE_RECORDING '' @ uint32_to_string (chanId (channel p)) @ '' ''
     @ time_to_iso8601utc (startTs (recording p)) @ '' ''
     @ (if force then ''FORCE '' else ''NO_FORCE '') @ (if forget then ''FORGET'' else ''NO_FORGET'')"

definition DeleteRecording75 :: "Program \<Rightarrow> bool \<Rightarrow> bool \<Rightarrow> monitor \<Rightarrow> bool \<times> monitor" where
  "DeleteRecording75 p force forget = guarded monitor_IsOpen False (\<lambda>m.
     succeeded (query (delete_cmd p force forget) [fskip] () m))"

definition UndeleteRecording75 :: "libc \<Rightarrow> Program \<Rightarrow> monitor \<Rightarrow> bool \<times> monitor" where
  "UndeleteRecording75 lc p = guarded monitor_IsOpen False (\<lambda>m.
     succeeded (query (''UNDELETE_RECORDING'' @ SEP @ MakeProgramInfo lc (m_protoVersion m) p)
       [\<lambda>f x. if f = ''0'' then Some x else None] () m))"

definition StopRecording75 :: "libc \<Rightarrow> Program \<Rightarrow> monitor \<Rightarrow> bool \<times> monitor" where
  "StopRecording75 lc p = guarded monitor_IsOpen False (\<lambda>m.
     succeeded (query (''STOP_RECORDING'' @ SEP @ MakeProgramInfo lc (m_protoVersion m) p)
       [\<lambda>f x. case string_to_int32 (c_str f) of Inl _ \<Rightarrow> None
                | Inr num \<Rightarrow> if sint num < 0 then None else Some x] () m))"

definition CancelNextRecording75 :: "i32 \<Rightarrow> bool \<Rightarrow> monitor \<Rightarrow> bool \<times> monitor" where
  "CancelNextRecording75 rnum cancel = guarded monitor_IsOpen False (\<lambda>m.
     succeeded (query (''QUERY_RECORDER '' @ joined [int32_to_string rnum, ''CANCEL_NEXT_RECORDING'',
       if cancel then ''1'' else ''0'']) [fok] () m))"

definition QuerySGFile75 ::
    "string \<Rightarrow> string \<Rightarrow> string \<Rightarrow> monitor \<Rightarrow> StorageGroupFile option \<times> monitor" where
  "QuerySGFile75 hostname sgname filename = guarded monitor_IsOpen None (\<lambda>m.
     case query (joined [''QUERY_SG_FILEQUERY'', hostname, sgname, filename])
            [fstr (\<lambda>x f. f\<lparr>sgf_fileName := x\<rparr>),
             fconv string_to_int64 (\<lambda>x f. f\<lparr>sgf_lastModified := x\<rparr>),
             fconv string_to_int64 (\<lambda>x f. f\<lparr>sgf_size := x\<rparr>)] StorageGroupFile_init m of
       (x, m1) \<Rightarrow> (map_option (\<lambda>f. f\<lparr>sgf_hostName := hostname, sgf_storageGroup := sgname\<rparr>) x, m1))"

text \<open>The marks of a recording. The type of a mark is written through a pointer to its first byte,
  so the value of the enumeration becomes that byte (on a little-endian machine). The loop stops
  at the first mark that does not come complete; the answer is not flushed here, the next command
  does it.\<close>

definition mark_acts :: "(string \<Rightarrow> Mark \<Rightarrow> Mark option) list" where
  "mark_acts = [fconv string_to_int8 (\<lambda>x k. k\<lparr>markType := ucast x\<rparr>),
                fconv string_to_int64 (\<lambda>x k. k\<lparr>markValue := x\<rparr>)]"

fun RcvMarks :: "nat \<Rightarrow> 'a protobase_scheme \<Rightarrow> Mark list \<times> 'a protobase_scheme" where
  "RcvMarks 0 pb = ([], pb)"
| "RcvMarks (Suc nb) pb =
     (case RcvFields mark_acts Mark_init pb of
        (None, pb1) \<Rightarrow> ([], pb1)
      | (Some k, pb1) \<Rightarrow> (case RcvMarks nb pb1 of (ks, pb2) \<Rightarrow> (k # ks, pb2)))"

definition query_marks :: "string \<Rightarrow> monitor \<Rightarrow> Mark list \<times> monitor" where
  "query_marks cmd m =
     (case query cmd [fconv string_to_int32 (\<lambda>x _. x)] 0 m of
        (None, m1) \<Rightarrow> ([], m1)
      | (Some nb, m1) \<Rightarrow> RcvMarks (nat (sint nb)) m1)"

definition marks_cmd :: "string \<Rightarrow> Program \<Rightarrow> string" where
  "marks_cmd verb p =
     verb @ '' '' @ uint32_to_string (chanId (channel p)) @ '' '' @ int64_to_string (startTs (recording p))"

definition GetCutList75 :: "Program \<Rightarrow> monitor \<Rightarrow> Mark list \<times> monitor" where
  "GetCutList75 p = guarded monitor_IsOpen [] (query_marks (marks_cmd ''QUERY_CUTLIST'' p))"

definition GetCommBreakList75 :: "Program \<Rightarrow> monitor \<Rightarrow> Mark list \<times> monitor" where
  "GetCommBreakList75 p = guarded monitor_IsOpen [] (query_marks (marks_cmd ''QUERY_COMMBREAK'' p))"

definition BlockShutdown75 :: "monitor \<Rightarrow> bool \<times> monitor" where
  "BlockShutdown75 = guarded monitor_IsOpen False (\<lambda>m. succeeded (query ''BLOCK_SHUTDOWN'' [fok] () m))"

definition AllowShutdown75 :: "monitor \<Rightarrow> bool \<times> monitor" where
  "AllowShutdown75 = guarded monitor_IsOpen False (\<lambda>m. succeeded (query ''ALLOW_SHUTDOWN'' [fok] () m))"

section \<open>Free cards and inputs\<close>

text \<open>The numbers of the free cards: a field that is missing or not a number empties the list.\<close>

function RcvNumbers :: "'a protobase_scheme \<Rightarrow> i32 list option \<times> 'a protobase_scheme" where
  "RcvNumbers pb =
     (if m_msgConsumed pb < m_msgLength pb
      then case RcvFields [fconv string_to_int32 (\<lambda>x _. x)] 0 pb of
             (None, pb1) \<Rightarrow> (None, snd (FlushMessage pb1))
           | (Some n, pb1) \<Rightarrow>
               (case RcvNumbers pb1 of (ns, pb2) \<Rightarrow> (map_option (Cons n) ns, pb2))
      else (Some [], pb))"
  by pat_completeness auto
termination
  by (relation "measure msg_left") (auto simp del: RcvFields.simps intro: RcvFields_progress [OF sym])

declare RcvNumbers.simps [simp del]

definition GetFreeCardIdList75 :: "monitor \<Rightarrow> i32 list \<times> monitor" where
  "GetFreeCardIdList75 = guarded monitor_IsOpen [] (\<lambda>m.
     case SendCommand ''GET_FREE_RECORDER_LIST'' True m of (sent, m1) \<Rightarrow>
       (if \<not> sent then ([], m1)
        else case RcvNumbers m1 of
               (None, m2) \<Rightarrow> ([], m2)
             | (Some ns, m2) \<Rightarrow> (filter (\<lambda>n. sint n > 0) ns, m2)))"

text \<open>Before protocol 87 each free card is asked for its inputs; the loop ends with a card that
  cannot be asked or has none.\<close>

definition card_inputs_cmd :: "i32 \<Rightarrow> string" where
  "card_inputs_cmd num = ''QUERY_RECORDER '' @ joined [int32_to_string num, ''GET_FREE_INPUTS'']"

fun cards_inputs ::
    "(string \<Rightarrow> CardInput \<Rightarrow> CardInput option) list \<Rightarrow> i32 list \<Rightarrow> monitor \<Rightarrow> CardInput list \<times> monitor" where
  "cards_inputs acts [] m = ([], m)"
| "cards_inputs acts (num # nums) m0 =
     (case guarded monitor_IsOpen [] (query_records (card_inputs_cmd num) acts CardInput_init) m0 of (is, m1) \<Rightarrow>
       (if is = [] then ([], m1)
        else case cards_inputs acts nums m1 of (js, m2) \<Rightarrow> (is @ js, m2)))"

definition inputs_per_card ::
    "(string \<Rightarrow> CardInput \<Rightarrow> CardInput option) list \<Rightarrow> monitor \<Rightarrow> CardInput list \<times> monitor" where
  "inputs_per_card acts m =
     (case GetFreeCardIdList75 m of (nums, m1) \<Rightarrow> cards_inputs acts nums m1)"

definition all_inputs ::
    "(string \<Rightarrow> CardInput \<Rightarrow> CardInput option) list \<Rightarrow> i32 \<Rightarrow> monitor \<Rightarrow> CardInput list \<times> monitor" where
  "all_inputs acts rnum = guarded monitor_IsOpen []
     (query_records (''GET_FREE_INPUT_INFO '' @ int32_to_string rnum) acts CardInput_init)"

definition mon_GetFreeInputs75 :: "monitor \<Rightarrow> CardInput list \<times> monitor" where
  "mon_GetFreeInputs75 = inputs_per_card inputs75"

definition mon_GetFreeInputs79 :: "monitor \<Rightarrow> CardInput list \<times> monitor" where
  "mon_GetFreeInputs79 = inputs_per_card inputs79"

definition mon_GetFreeInputs81 :: "monitor \<Rightarrow> CardInput list \<times> monitor" where
  "mon_GetFreeInputs81 = inputs_per_card inputs81"

definition mon_GetFreeInputs87 :: "i32 \<Rightarrow> monitor \<Rightarrow> CardInput list \<times> monitor" where
  "mon_GetFreeInputs87 = all_inputs inputs81"

definition mon_GetFreeInputs89 :: "i32 \<Rightarrow> monitor \<Rightarrow> CardInput list \<times> monitor" where
  "mon_GetFreeInputs89 = all_inputs inputs89"

definition mon_GetFreeInputs90 :: "i32 \<Rightarrow> monitor \<Rightarrow> CardInput list \<times> monitor" where
  "mon_GetFreeInputs90 = all_inputs inputs90"

definition mon_GetFreeInputs91 :: "i32 \<Rightarrow> monitor \<Rightarrow> CardInput list \<times> monitor" where
  "mon_GetFreeInputs91 = all_inputs inputs91"

definition mon_GetFreeInputs :: "i32 \<Rightarrow> monitor \<Rightarrow> CardInput list \<times> monitor" where
  "mon_GetFreeInputs rnum m =
     (if m_protoVersion m \<ge> 91 then mon_GetFreeInputs91 rnum m
      else if m_protoVersion m \<ge> 90 then mon_GetFreeInputs90 rnum m
      else if m_protoVersion m \<ge> 89 then mon_GetFreeInputs89 rnum m
      else if m_protoVersion m \<ge> 87 then mon_GetFreeInputs87 rnum m
      else if m_protoVersion m \<ge> 81 then mon_GetFreeInputs81 m
      else if m_protoVersion m \<ge> 79 then mon_GetFreeInputs79 m
      else mon_GetFreeInputs75 m)"

section \<open>The invariant of the connection\<close>

interpretation monitor: reconnecting_connection PROTO_MONITOR_RCVBUF
  "\<lambda>m. if m_protoVersion m \<ge> 88 then monitor_Announce88 m else monitor_Announce75 m"
  monitor_Open monitor_IsOpen
proof unfold_locales
  show "monitor_Open m =
      (case OpenConnection PROTO_MONITOR_RCVBUF m of (opened, m1) \<Rightarrow>
        if \<not> opened then (False, m1)
        else case if m_protoVersion m1 \<ge> 88 then monitor_Announce88 m1 else monitor_Announce75 m1 of
               (ok, m2) \<Rightarrow> if ok then (True, m2) else (False, reset_Close m2))" for m
    unfolding monitor_Open_def monitor_Close_def reset_Close_def ..
  show "msg_frame m m'"
    if "(if m_protoVersion m \<ge> 88 then monitor_Announce88 m else monitor_Announce75 m) = (ok, m')" for m m' ok
    using that query_frame by (auto simp: monitor_Announce88_def monitor_Announce75_def succeeded_def split: if_splits)
  show "m_isOpen m' = m_isOpen m \<and> m_hang m' = m_hang m"
    if "(if m_protoVersion m \<ge> 88 then monitor_Announce88 m else monitor_Announce75 m) = (True, m')"
      "at_boundary m" for m m'
  proof -
    from that(1) obtain cmd where "query cmd [fok] () m = (Some (), m')"
      by (auto simp: monitor_Announce88_def monitor_Announce75_def succeeded_def prod_eq_iff split: if_splits)
    from query_kept [OF this that(2)] show ?thesis .
  qed
  show "monitor_IsOpen m = (if m_hang m then monitor_Open m else (m_isOpen m, m))" for m
    by (simp add: monitor_IsOpen_def)
qed

lemma monitor_more: "protobase.more m' = protobase.more m \<longleftrightarrow> m_frontend m' = m_frontend m" for m m' :: monitor
  by (cases m; cases m') simp

text \<open>An operation keeps the connection invariant and the flag of the class.\<close>

definition mon_keeps :: "monitor \<Rightarrow> monitor \<Rightarrow> bool" where
  "mon_keeps m m' \<longleftrightarrow> pb_ok m' \<and> m_frontend m' = m_frontend m"

lemma guarded_mon_keeps:
  assumes "pb_ok m" "\<And>m. pb_keeps m (snd (body m))"
  shows "mon_keeps m (snd (guarded monitor_IsOpen x body m))"
proof -
  obtain y m' where e: "guarded monitor_IsOpen x body m = (y, m')" by force
  have "pb_keeps n n'" if "body n = (z, n')" for n z n' using assms(2) [of n] that by simp
  from monitor.guarded_keeps [OF assms(1) e this] e show ?thesis
    by (simp add: mon_keeps_def monitor_more)
qed

lemma mon_keeps_trans: "mon_keeps a b \<Longrightarrow> mon_keeps b c \<Longrightarrow> mon_keeps a c"
  by (simp add: mon_keeps_def)

lemma query_bodies:
  "pb_keeps pb (snd (query cmd acts r pb))" "pb_keeps pb (snd (query_flush cmd acts r pb))"
  "pb_keeps pb (snd (query_records cmd acts r pb))" "pb_keeps pb (snd (succeeded (query cmd acts r pb)))"
  "pb_keeps pb (snd (succeeded (query_flush cmd acts r pb)))"
  by (simp_all add: succeeded_def pb_keeps_frame query_frame query_flush_frame query_records_frame)

lemma snd_case_fst: "snd (case p of (x, m) \<Rightarrow> (f x, m)) = snd p"
  by (cases p) simp

lemma snd_case_opt: "snd (case p of (None, m) \<Rightarrow> (a, m) | (Some x, m) \<Rightarrow> (f x, m)) = snd p"
  by (cases p; cases "fst p") auto

lemma RcvMarks_keeps: "pb_keeps pb (snd (RcvMarks nb pb))"
proof (induction nb arbitrary: pb)
  case (Suc nb)
  obtain x pb1 where f: "RcvFields mark_acts Mark_init pb = (x, pb1)" by force
  from f have "pb_keeps pb pb1" by (rule keeps_steps)
  with Suc.IH [of pb1] f show ?case
    by (auto simp: case_prod_beta split: option.splits intro: pb_keeps_trans)
qed simp

lemma query_marks_keeps: "pb_keeps m (snd (query_marks cmd m))"
proof -
  obtain x m1 where q: "query cmd [fconv string_to_int32 (\<lambda>x _. x)] 0 m = (x, m1)" by force
  from q have "pb_keeps m m1" by (rule keeps_steps)
  with pb_keeps_trans [OF this RcvMarks_keeps] q show ?thesis
    by (auto simp: query_marks_def split: option.split)
qed

lemma RcvNumbers_keeps: "pb_keeps pb (snd (RcvNumbers pb))"
proof (induction pb rule: RcvNumbers.induct)
  case (1 pb)
  let ?acts = "[fconv string_to_int32 (\<lambda>x _. x)]"
  obtain x pb1 where f: "RcvFields ?acts 0 pb = (x, pb1)" by force
  from f have k: "pb_keeps pb pb1" by (rule keeps_steps)
  show ?case
  proof (cases "m_msgConsumed pb < m_msgLength pb")
    case True
    show ?thesis
    proof (cases x)
      case None
      with True f FlushMessage_keeps_step [OF k] show ?thesis by (simp add: RcvNumbers.simps [of pb] del: RcvFields.simps)
    next
      case (Some n)
      from pb_keeps_trans [OF k "1.IH" [OF True f [symmetric] Some]] True f Some show ?thesis
        by (simp add: RcvNumbers.simps [of pb] case_prod_beta del: RcvFields.simps)
    qed
  qed (simp add: RcvNumbers.simps [of pb])
qed

lemma GetFreeCardIdList75_keeps: "pb_ok m \<Longrightarrow> mon_keeps m (snd (GetFreeCardIdList75 m))"
proof -
  have "pb_keeps m (snd (case SendCommand cmd True m of (sent, m1) \<Rightarrow>
       (if \<not> sent then ([], m1)
        else case RcvNumbers m1 of
               (None, m2) \<Rightarrow> ([], m2)
             | (Some ns, m2) \<Rightarrow> (filter (\<lambda>n. sint n > 0) ns, m2))))" for cmd and m :: monitor
  proof -
    obtain sent m1 where 1: "SendCommand cmd True m = (sent, m1)" by force
    from 1 have k: "pb_keeps m m1" by (rule keeps_steps)
    with pb_keeps_trans [OF this RcvNumbers_keeps] 1 show ?thesis by (simp add: snd_case_opt)
  qed
  note body = this
  show "pb_ok m \<Longrightarrow> mon_keeps m (snd (GetFreeCardIdList75 m))"
    unfolding GetFreeCardIdList75_def by (erule guarded_mon_keeps) (rule body)
qed

lemma cards_inputs_keeps: "pb_ok m \<Longrightarrow> mon_keeps m (snd (cards_inputs acts nums m))"
proof (induction acts nums m rule: cards_inputs.induct)
  case (2 acts num nums m0)
  obtain ins m1 where g: "guarded monitor_IsOpen [] (query_records (card_inputs_cmd num) acts CardInput_init) m0
      = (ins, m1)" by force
  have k: "mon_keeps m0 m1"
    using guarded_mon_keeps [OF "2.prems", of "query_records (card_inputs_cmd num) acts CardInput_init" "[]"] g
    by (simp add: query_bodies)
  then have ok: "pb_ok m1" by (simp add: mon_keeps_def)
  show ?case
  proof (cases "ins = []")
    case True
    with g k show ?thesis by simp
  next
    case False
    from mon_keeps_trans [OF k "2.IH" [OF g [symmetric] False ok]] g False show ?thesis
      by (simp add: case_prod_beta)
  qed
qed (simp add: mon_keeps_def)

lemma inputs_per_card_keeps: "pb_ok m \<Longrightarrow> mon_keeps m (snd (inputs_per_card acts m))"
proof -
  assume ok: "pb_ok m"
  obtain nums m1 where 1: "GetFreeCardIdList75 m = (nums, m1)" by force
  with GetFreeCardIdList75_keeps [OF ok] have k: "mon_keeps m m1" by simp
  then have "pb_ok m1" by (simp add: mon_keeps_def)
  from mon_keeps_trans [OF k cards_inputs_keeps [OF this]] 1 show ?thesis by (simp add: inputs_per_card_def)
qed

lemma all_inputs_keeps: "pb_ok m \<Longrightarrow> mon_keeps m (snd (all_inputs acts rnum m))"
  unfolding all_inputs_def by (erule guarded_mon_keeps) (rule query_bodies)

lemmas mon_inputs_defs = mon_GetFreeInputs_def mon_GetFreeInputs75_def mon_GetFreeInputs79_def
  mon_GetFreeInputs81_def mon_GetFreeInputs87_def mon_GetFreeInputs89_def mon_GetFreeInputs90_def
  mon_GetFreeInputs91_def

lemma monitor_ops_keep:
  assumes "pb_ok m"
  shows "mon_keeps m (snd (monitor_Open m))"
    "mon_keeps m (snd (monitor_IsOpen m))"
    "mon_keeps m (monitor_Close m)"
    "mon_keeps m (snd (GetRecorderFromNum75 n m))"
    "mon_keeps m (snd (QueryFreeSpaceSummary75 m))"
    "mon_keeps m (snd (GetSetting75 h k m))"
    "mon_keeps m (snd (SetSetting75 h k v m))"
    "mon_keeps m (snd (QueryGenpixmap75 lc p m))"
    "mon_keeps m (snd (DeleteRecording75 p b c m))"
    "mon_keeps m (snd (UndeleteRecording75 lc p m))"
    "mon_keeps m (snd (StopRecording75 lc p m))"
    "mon_keeps m (snd (CancelNextRecording75 n b m))"
    "mon_keeps m (snd (QuerySGFile75 h k v m))"
    "mon_keeps m (snd (GetCutList75 p m))"
    "mon_keeps m (snd (GetCommBreakList75 p m))"
    "mon_keeps m (snd (BlockShutdown75 m))"
    "mon_keeps m (snd (AllowShutdown75 m))"
    "mon_keeps m (snd (GetFreeCardIdList75 m))"
    "mon_keeps m (snd (mon_GetFreeInputs n m))"
proof -
  note g = guarded_mon_keeps [OF assms]
  show "mon_keeps m (snd (monitor_Open m))"
    using monitor.opn_cases [OF assms] by (cases "monitor_Open m") (auto simp: mon_keeps_def monitor_more)
  show "mon_keeps m (snd (monitor_IsOpen m))"
    using monitor.is_open_keeps [OF assms] by (cases "monitor_IsOpen m") (auto simp: mon_keeps_def monitor_more)
  show "mon_keeps m (monitor_Close m)"
    using reset_Close_ok [OF assms] reset_Close_state(6) [of m]
    by (simp add: mon_keeps_def monitor_Close_def reset_Close_def monitor_more)
  show "mon_keeps m (snd (mon_GetFreeInputs n m))"
    by (simp add: mon_inputs_defs inputs_per_card_keeps all_inputs_keeps assms)
  show "mon_keeps m (snd (GetFreeCardIdList75 m))" by (rule GetFreeCardIdList75_keeps [OF assms])
  show "mon_keeps m (snd (GetCutList75 p m))" "mon_keeps m (snd (GetCommBreakList75 p m))"
    unfolding GetCutList75_def GetCommBreakList75_def by (rule g, rule query_marks_keeps)+
  show "mon_keeps m (snd (GetRecorderFromNum75 n m))"
    "mon_keeps m (snd (QueryFreeSpaceSummary75 m))"
    "mon_keeps m (snd (GetSetting75 h k m))"
    "mon_keeps m (snd (SetSetting75 h k v m))"
    "mon_keeps m (snd (QueryGenpixmap75 lc p m))"
    "mon_keeps m (snd (DeleteRecording75 p b c m))"
    "mon_keeps m (snd (UndeleteRecording75 lc p m))"
    "mon_keeps m (snd (StopRecording75 lc p m))"
    "mon_keeps m (snd (CancelNextRecording75 n b m))"
    "mon_keeps m (snd (QuerySGFile75 h k v m))"
    "mon_keeps m (snd (BlockShutdown75 m))"
    "mon_keeps m (snd (AllowShutdown75 m))"
    unfolding GetRecorderFromNum75_def QueryFreeSpaceSummary75_def GetSetting75_def SetSetting75_def
      QueryGenpixmap75_def DeleteRecording75_def UndeleteRecording75_def StopRecording75_def
      CancelNextRecording75_def QuerySGFile75_def BlockShutdown75_def AllowShutdown75_def
    by (rule g; simp add: query_bodies snd_case_fst snd_case_opt)+
qed


definition demo_monitor :: "nat \<Rightarrow> bytes \<Rightarrow> monitor" where
  "demo_monitor v b = protobase.extend (demo_pb v b) \<lparr>m_frontend = True\<rparr>"

lemma demo_monitor_simps [simp]:
  "m_isOpen (demo_monitor v b)" "\<not> m_hang (demo_monitor v b)" "m_frontend (demo_monitor v b)"
  "ready c (demo_monitor v b) = ready c (demo_pb v b)" "pb_ok (demo_monitor v b) = pb_ok (demo_pb v b)"
  by (simp_all add: demo_monitor_def protobase.defs ready_def idle_alt pb_ok_def pb_inv_def pb_quiet_def)


section \<open>Marks on a server that answers\<close>

definition mark_fields :: "Mark \<Rightarrow> string list" where
  "mark_fields k = [int8_to_string (ucast (markType k)), int64_to_string (markValue k)]"

definition wf_mark :: "Mark \<Rightarrow> bool" where
  "wf_mark k \<longleftrightarrow> unat (markType k) < 256 \<and> sint (markValue k) \<noteq> - (2 ^ 63)"

lemma ucast_byte: "unat t < 256 \<Longrightarrow> ucast (ucast t :: i8) = (t :: u32)"
proof -
  assume "unat t < 256"
  then have "unat (ucast (ucast t :: i8) :: u32) = unat t"
    by (simp add: unsigned_ucast_eq unsigned_take_bit_eq take_bit_nat_eq_self_iff)
  then show ?thesis by (simp add: word_unat_eq_iff)
qed

lemma mark_fields_parse:
  assumes "wf_mark k"
  shows "length mark_acts = length (mark_fields k) \<and> list_all clean_field (mark_fields k)
    \<and> parse_fields mark_acts (mark_fields k) Mark_init = Some k \<and> last (mark_fields k) \<noteq> []"
  using assms ucast_byte [of "markType k"] sint_ge [of "markValue k"] sint_lt [of "markValue k"]
  by (cases k) (simp add: wf_mark_def mark_fields_def mark_acts_def Mark_init_def fconv_def numeric_simps)

lemma RcvMarks_answer:
  assumes "has_msg (joined (concat (map mark_fields ks))) rest pb" "list_all wf_mark ks"
  shows "\<exists>pb'. RcvMarks (length ks) pb = (ks, pb') \<and> has_msg [] rest pb' \<and> rd_frame pb pb'"
  using assms
proof (induction ks arbitrary: pb)
  case (Cons k ks)
  then have p: "length mark_acts = length (mark_fields k)" "list_all clean_field (mark_fields k)"
    "parse_fields mark_acts (mark_fields k) Mark_init = Some k" "last (mark_fields k) \<noteq> []" "mark_fields k \<noteq> []"
    using mark_fields_parse [of k] by (simp_all add: mark_fields_def)
  have "\<exists>pb1. RcvFields mark_acts Mark_init pb = (Some k, pb1)
      \<and> has_msg (joined (concat (map mark_fields ks))) rest pb1 \<and> rd_frame pb pb1"
  proof (cases "ks = []")
    case True
    with RcvFields_message [of "mark_fields k" rest pb mark_acts Mark_init k] Cons.prems(1) p show ?thesis by simp
  next
    case False
    then have "concat (map mark_fields ks) \<noteq> []" by (cases ks) (simp_all add: mark_fields_def)
    with RcvFields_terminated [of "mark_fields k" "joined (concat (map mark_fields ks))" rest pb mark_acts Mark_init k]
      Cons.prems(1) p show ?thesis by (simp add: joined_split)
  qed
  then obtain pb1 where 1: "RcvFields mark_acts Mark_init pb = (Some k, pb1)"
    "has_msg (joined (concat (map mark_fields ks))) rest pb1" "rd_frame pb pb1" by blast
  from Cons.IH [OF 1(2)] Cons.prems(2) obtain pb2 where
    2: "RcvMarks (length ks) pb1 = (ks, pb2)" "has_msg [] rest pb2" "rd_frame pb1 pb2" by auto
  with 1 rd_frame_trans [OF 1(3) 2(3)] show ?case by auto
qed auto

lemma query_marks_answer:
  assumes "ready (framed (joined (int32_to_string (of_nat (length ks)) # concat (map mark_fields ks))) @ rest) m"
    "length (joined (int32_to_string (of_nat (length ks)) # concat (map mark_fields ks))) < 10 ^ 7"
    "sendable cmd" "list_all wf_mark ks" "length ks < 2 ^ 31"
  shows "\<exists>m'. query_marks cmd m = (ks, m') \<and> ready rest m' \<and> asked cmd m m'"
proof -
  let ?n = "int32_to_string (of_nat (length ks) :: i32)"
  let ?acts = "[fconv string_to_int32 (\<lambda>x _. x)]"
  from SendCommand_ready [OF assms(1,3,2)] obtain m1 where
    1: "SendCommand cmd True m = (True, m1)" "has_msg (joined (?n # concat (map mark_fields ks))) rest m1"
      "asked cmd m m1" "sends (sock m1)" by blast
  have s: "sint (of_nat (length ks) :: i32) = int (length ks)"
    using assms(5) by (simp add: sint_sbintrunc' signed_of_nat signed_take_bit_int_eq_self)
  have p: "parse_fields ?acts [?n] 0 = Some (of_nat (length ks))" "clean_field ?n" "?n \<noteq> []"
    using s assms(5) by (simp_all add: fconv_def numeric_simps)
  have "\<exists>m2. RcvFields ?acts 0 m1 = (Some (of_nat (length ks)), m2)
      \<and> has_msg (joined (concat (map mark_fields ks))) rest m2 \<and> rd_frame m1 m2"
  proof (cases "ks = []")
    case True
    with RcvFields_message [of "[?n]" rest m1 ?acts 0 "of_nat (length ks)"] 1(2) p show ?thesis by simp
  next
    case False
    then have "concat (map mark_fields ks) \<noteq> []" by (cases ks) (simp_all add: mark_fields_def)
    with joined_split [of "concat (map mark_fields ks)" "[?n]"]
      RcvFields_terminated [of "[?n]" "joined (concat (map mark_fields ks))" rest m1 ?acts 0 "of_nat (length ks)"]
      1(2) p show ?thesis by simp
  qed
  then obtain m2 where 2: "RcvFields ?acts 0 m1 = (Some (of_nat (length ks)), m2)"
    "has_msg (joined (concat (map mark_fields ks))) rest m2" "rd_frame m1 m2" by blast
  from RcvMarks_answer [OF 2(2) assms(4)] obtain m3 where
    3: "RcvMarks (length ks) m2 = (ks, m3)" "has_msg [] rest m3" "rd_frame m2 m3" by blast
  have "query_marks cmd m = (ks, m3)"
    using 1(1) 2(1) 3(1) s by (simp add: query_marks_def query_def rcv_or_flush_def del: RcvFields.simps)
  with asked_rd [OF 1(3) rd_frame_trans [OF 2(3) 3(3)] 1(4) 3(2)] show ?thesis by blast
qed

lemma marks_cmd_sendable: "is_cstring verb \<Longrightarrow> length verb \<le> 100 \<Longrightarrow> sendable (marks_cmd verb p)"
  using length_uint32 [of "chanId (channel p)"] length_int64 [of "startTs (recording p)"]
  by (simp add: sendable_def marks_cmd_def PROTO_SENDMSG_MAXSIZE_def)

text \<open>The cut list and the list of commercial breaks. On a server that answers with the number
  of marks and the marks, they are all read back, types up to 255 included, and the connection is
  left between two messages.\<close>

theorem mark_lists_read:
  assumes "m_isOpen m" "\<not> m_hang m" "list_all wf_mark ks" "length ks < 2 ^ 31"
    "ready (framed (joined (int32_to_string (of_nat (length ks)) # concat (map mark_fields ks))) @ rest) m"
    "length (joined (int32_to_string (of_nat (length ks)) # concat (map mark_fields ks))) < 10 ^ 7"
  shows "(\<exists>m'. GetCutList75 p m = (ks, m') \<and> ready rest m')
    \<and> (\<exists>m'. GetCommBreakList75 p m = (ks, m') \<and> ready rest m')"
proof -
  have s: "sendable (marks_cmd ''QUERY_CUTLIST'' p)" "sendable (marks_cmd ''QUERY_COMMBREAK'' p)"
    by (rule marks_cmd_sendable; simp)+
  from query_marks_answer [OF assms(5,6) s(1) assms(3,4)] query_marks_answer [OF assms(5,6) s(2) assms(3,4)]
  show ?thesis
    by (auto simp: GetCutList75_def GetCommBreakList75_def monitor.guarded_idle assms(1,2))
qed

theorem mark_lists_read_witness:
  "let k = \<lparr>markType = 4, markValue = 1500\<rparr>;
       m = demo_monitor 91 (framed (joined (int32_to_string 1 # mark_fields k)))
   in fst (GetCutList75 demo_program m) = [k]"
proof -
  let ?k = "\<lparr>markType = 4, markValue = 1500\<rparr>"
  let ?b = "joined (int32_to_string (of_nat (length [?k])) # concat (map mark_fields [?k]))"
  have "length (int8_to_string (4 :: i8)) \<le> 4" "length (int64_to_string 1500) \<le> 20" "length (int32_to_string 1) \<le> 11"
    by (rule length_int8 length_int64 length_int32)+
  then have "length ?b < 10 ^ 7" by (simp add: mark_fields_def PROTO_STR_SEPARATOR_def)
  then have "\<exists>m'. GetCutList75 demo_program (demo_monitor 91 (framed ?b)) = ([?k], m')"
    using mark_lists_read [of "demo_monitor 91 (framed ?b)" "[?k]" "[]" demo_program] by (auto simp: wf_mark_def)
  then show ?thesis by auto
qed

text \<open>The free inputs, as the monitor connection reads them since protocol 87: all the inputs
  the server lists, in their order.\<close>

theorem monitor_free_inputs:
  assumes "m_isOpen m" "\<not> m_hang m" "87 \<le> m_protoVersion m" "list_all (wf_input (m_protoVersion m)) xs"
    "ready (framed (joined (concat (map (input_fields (m_protoVersion m)) xs))) @ rest) m"
    "length (joined (concat (map (input_fields (m_protoVersion m)) xs))) < 10 ^ 7"
  shows "\<exists>m'. mon_GetFreeInputs rnum m = (map fst xs, m') \<and> ready rest m'"
proof -
  let ?v = "m_protoVersion m"
  let ?c = "''GET_FREE_INPUT_INFO '' @ int32_to_string rnum"
  have "sendable ?c" using length_int32 [of rnum] by (simp add: sendable_def PROTO_SENDMSG_MAXSIZE_def)
  moreover have "mon_GetFreeInputs rnum m = all_inputs (input_acts ?v) rnum m"
    using assms(3) by (simp add: mon_inputs_defs input_acts_def)
  ultimately show ?thesis using query_inputs [OF assms(4-6), of ?c]
    by (auto simp: all_inputs_def monitor.guarded_idle assms(1,2))
qed

theorem monitor_free_inputs_witness:
  "fst (mon_GetFreeInputs 0 (demo_monitor 91 (framed []))) = []"
proof -
  have "m_protoVersion (demo_monitor 91 (framed [])) = 91"
    by (simp add: demo_monitor_def protobase.defs)
  then show ?thesis using monitor_free_inputs [of "demo_monitor 91 (framed [])" "[]" "[]" 0] by auto
qed

end
