(* ===== verification/MythStream.thy ===== *)
theory MythStream
  imports RingBuffer
begin

text \<open>
  The interface \<open>Stream\<close> (\<open>mythstream.h\<close>) as a locale, and the buffered \<open>Read\<close> that recording and
  live TV playback share word for word (\<open>mythrecordingplayback.cpp\<close>, \<open>mythlivetvplayback.cpp\<close>):
  packets of the size of a chunk are fetched with \<open>_read\<close>, pass through the ring buffer and are
  handed out in pieces.
\<close>

section \<open>The buffered reader\<close>

text \<open>The struct \<open>m_buffer\<close>.\<close>

record rdbuffer =
  rbuf :: ringbuffer
  cur_packet :: "packet option"
  consumed :: nat

definition BUFFER_CAPACITY :: nat where "BUFFER_CAPACITY = 2"

definition rdbuffer_new :: rdbuffer where
  "rdbuffer_new = \<lparr>rbuf = RingBuffer_new BUFFER_CAPACITY, cur_packet = None, consumed = 0\<rparr>"

text \<open>The bytes that \<open>_read\<close> stores through the pointer it is given.\<close>

definition store :: "bytes \<Rightarrow> packet \<Rightarrow> packet" where
  "store d p = p\<lparr>pk_data := d @ drop (length d) (pk_data p)\<rparr>"

definition next_packet :: "rdbuffer \<Rightarrow> rdbuffer option" where
  "next_packet b =
     (case cur_packet b of
        Some _ \<Rightarrow> Some b
      | None \<Rightarrow> map_option (\<lambda>(p, rb). b\<lparr>rbuf := rb, cur_packet := p, consumed := 0\<rparr>) (rb_read (rbuf b)))"

definition take_bytes :: "nat \<Rightarrow> packet \<Rightarrow> rdbuffer \<Rightarrow> int \<times> bytes \<times> rdbuffer" where
  "take_bytes n p b =
     (let s = pk_size p - consumed b;
          r = (if n < s then n else s);
          b1 = b\<lparr>consumed := consumed b + r\<rparr>
      in (int r, take r (drop (consumed b) (pk_data p)),
          if consumed b1 \<ge> pk_size p then b1\<lparr>rbuf := freePacket p (rbuf b1), cur_packet := None\<rparr> else b1))"

text \<open>
  The loop of \<open>Read\<close>. \<open>rd\<close> is \<open>_read\<close>: the result, the bytes it has stored and the new state, or
  \<open>None\<close> when it does not return. A round that has fetched a packet starts over, and the next
  round hands out bytes of it, so two rounds are enough (lemma \<open>read_loop_enough\<close>); \<open>None\<close> is a
  call that does not return, or one whose size is negative as an \<open>int\<close>.
\<close>

fun read_loop :: "nat \<Rightarrow> (nat \<Rightarrow> 's \<Rightarrow> (int \<times> bytes \<times> 's) option) \<Rightarrow> (nat \<Rightarrow> bytes) \<Rightarrow> nat \<Rightarrow> nat \<Rightarrow>
    rdbuffer \<times> 's \<Rightarrow> (int \<times> bytes \<times> rdbuffer \<times> 's) option" where
  "read_loop 0 rd junk chunk n (b, s) = None"
| "read_loop (Suc k) rd junk chunk n (b, s) =
     (case next_packet b of
        None \<Rightarrow> None
      | Some b1 \<Rightarrow>
          (case cur_packet b1 of
             Some p \<Rightarrow> (case take_bytes n p b1 of (r, out, b2) \<Rightarrow> Some (r, out, b2, s))
           | None \<Rightarrow>
               (case newPacket junk chunk (rbuf b1) of
                  (p, rb) \<Rightarrow>
                    (case rd chunk s of
                       None \<Rightarrow> None
                     | Some (r, d, s1) \<Rightarrow>
                         (if r > 0
                          then read_loop k rd junk chunk n
                                 (b1\<lparr>rbuf := writePacket ((store d p)\<lparr>pk_size := nat r\<rparr>) rb\<rparr>, s1)
                          else Some (r, [], b1\<lparr>rbuf := freePacket (store d p) rb\<rparr>, s1))))))"

definition buffered_Read :: "(nat \<Rightarrow> 's \<Rightarrow> (int \<times> bytes \<times> 's) option) \<Rightarrow> (nat \<Rightarrow> bytes) \<Rightarrow> nat \<Rightarrow> nat \<Rightarrow>
    rdbuffer \<times> 's \<Rightarrow> (int \<times> bytes \<times> rdbuffer \<times> 's) option" where
  "buffered_Read rd junk chunk n bs = (if n < 2 ^ 31 then read_loop 2 rd junk chunk n bs else None)"

text \<open>The unread bytes of ring and packet, an \<open>unsigned\<close>; and dropping them before a seek.\<close>

definition buffer_unread :: "rdbuffer \<Rightarrow> u32" where
  "buffer_unread b =
     bytesUnread (rbuf b) + (case cur_packet b of Some p \<Rightarrow> of_nat (pk_size p - consumed b) | None \<Rightarrow> 0)"

definition buffer_clear :: "rdbuffer \<Rightarrow> rdbuffer" where
  "buffer_clear b =
     (let b1 = (case cur_packet b of
                  Some p \<Rightarrow> b\<lparr>rbuf := freePacket p (rbuf b), cur_packet := None\<rparr> | None \<Rightarrow> b)
      in b1\<lparr>rbuf := rb_clear (rbuf b1)\<rparr>)"

section \<open>Buffered bytes\<close>

definition buffer_rest :: "rdbuffer \<Rightarrow> bytes" where
  "buffer_rest b =
     (case cur_packet b of None \<Rightarrow> [] | Some p \<Rightarrow> drop (consumed b) (payload p)) @ concat (ring_items (rbuf b))"

text \<open>Between two calls the ring is empty, and a current packet has bytes left.\<close>

definition buffer_ok :: "rdbuffer \<Rightarrow> bool" where
  "buffer_ok b \<longleftrightarrow> ring_inv BUFFER_CAPACITY (rbuf b) \<and> ring_items (rbuf b) = []
     \<and> (case cur_packet b of
          None \<Rightarrow> True
        | Some p \<Rightarrow> consumed b < pk_size p \<and> pk_size p \<le> pk_capacity p \<and> pk_size p < 2 ^ 32)"

lemma store_simps [simp]:
  "pk_size (store d p) = pk_size p" "length d \<le> pk_capacity p \<Longrightarrow> pk_capacity (store d p) = pk_capacity p"
  by (simp_all add: store_def pk_capacity_def)

lemma payload_store: "payload ((store d p)\<lparr>pk_size := length d\<rparr>) = d"
  by (simp add: payload_def store_def)

lemma newPacket_spec:
  "newPacket junk sz rb = (p, rb1) \<Longrightarrow> (\<exists>pool. rb1 = rb\<lparr>m_pool := pool\<rparr>) \<and> sz \<le> pk_capacity p"
  using needPacket_spec [of junk sz rb "fst (needPacket junk sz rb)" rb1]
  by (auto simp: newPacket_def pk_capacity_def split: prod.splits)

text \<open>The ring hands back the packet that was just written into it while it was empty.\<close>

lemma ring_pass:
  assumes "ring_inv cap rb" "ring_items rb = []" "0 < pk_size p" "pk_size p \<le> pk_capacity p" "pk_size p < 2 ^ 32"
  shows "\<exists>rb'. rb_read (writePacket p rb) = Some (Some (p\<lparr>pk_id := m_count rb + 1\<rparr>), rb')
    \<and> ring_inv cap rb' \<and> ring_items rb' = []"
proof -
  have pe: "pending rb = []" using assms(2) by (simp add: ring_items_def)
  have wf: "rb_wf rb" "in_order rb" "capacity rb = cap" using assms(1) by (simp_all add: ring_inv_def)
  have c0: "0 < capacity rb" using wf(1) by (auto simp: rb_wf_def)
  have "rb_wf (writePacket p rb)"
    using wf(1) assms(3,5) pe by (intro writePacket_wf) (simp_all add: ring_total_pending)
  moreover have "in_order (writePacket p rb) \<and> pending (writePacket p rb) = [p\<lparr>pk_id := m_count rb + 1\<rparr>]
      \<and> capacity (writePacket p rb) = cap"
    using writePacket_appends [OF wf(1,2)] c0 pe wf(3) by simp
  ultimately show ?thesis
    using rb_read_pending [of "writePacket p rb" "p\<lparr>pk_id := m_count rb + 1\<rparr>" "[]"]
    by (auto simp: ring_inv_def ring_items_def)
qed

lemma ring_empty_read: "ring_inv cap rb \<Longrightarrow> ring_items rb = [] \<Longrightarrow> rb_read rb = Some (None, rb)"
  by (simp add: ring_inv_def ring_items_def rb_read_none)

lemma ring_items_pool [simp]: "ring_items (rb\<lparr>m_pool := x\<rparr>) = ring_items rb"
  by (simp add: ring_items_def)

lemma take_bytes_spec:
  assumes "buffer_ok b" "cur_packet b = Some p" "take_bytes n p b = (r, out, b')"
  shows "buffer_ok b' \<and> r = int (length out) \<and> length out \<le> n \<and> buffer_rest b = out @ buffer_rest b'
    \<and> (0 < n \<longrightarrow> out \<noteq> [])"
proof -
  let ?s = "pk_size p - consumed b"
  have ok: "consumed b < pk_size p" "pk_size p \<le> pk_capacity p" "pk_size p < 2 ^ 32"
    "ring_inv BUFFER_CAPACITY (rbuf b)" "ring_items (rbuf b) = []"
    using assms(1,2) by (auto simp: buffer_ok_def)
  define k where "k = (if n < ?s then n else ?s)"
  have k: "k \<le> ?s" "k \<le> n" "0 < n \<longrightarrow> 0 < k" using ok(1) by (auto simp: k_def)
  have len: "length (drop (consumed b) (payload p)) = ?s"
    using ok(2) by (simp add: payload_def pk_capacity_def)
  have out: "out = take k (drop (consumed b) (payload p))" "r = int k"
    using assms(3) k(1) by (auto simp: take_bytes_def k_def [symmetric] Let_def payload_def drop_take min_def split: if_splits)
  have ol: "length out = k" using out len k(1) by simp
  show ?thesis
  proof (cases "consumed b + k \<ge> pk_size p")
    case True
    then have "b' = b\<lparr>consumed := consumed b + k, rbuf := freePacket p (rbuf b), cur_packet := None\<rparr>"
      using assms(3) by (simp add: take_bytes_def k_def [symmetric] Let_def)
    moreover have "out = drop (consumed b) (payload p)" using True len k(1) by (simp add: out)
    ultimately show ?thesis using ol out(2) k ok assms(2) by (auto simp: buffer_ok_def buffer_rest_def freePacket_def)
  next
    case False
    then have "b' = b\<lparr>consumed := consumed b + k\<rparr>"
      using assms(3) by (simp add: take_bytes_def k_def [symmetric] Let_def)
    moreover have "drop (consumed b) (payload p) = out @ drop (consumed b + k) (payload p)"
      by (simp add: out(1) add.commute flip: drop_drop)
    ultimately show ?thesis using ol out(2) k ok assms(2) False by (auto simp: buffer_ok_def buffer_rest_def)
  qed
qed

lemma read_loop_mono:
  "read_loop k f junk chunk n bs = Some x \<Longrightarrow> read_loop (k + j) f junk chunk n bs = Some x"
  by (induction k f junk chunk n bs rule: read_loop.induct)
     (auto split: option.splits prod.splits if_splits)

section \<open>The contract of a block reader\<close>

locale block_reader =
  fixes okay :: "'s \<Rightarrow> bool"
    and upcoming :: "'s \<Rightarrow> bytes"
    and position :: "'s \<Rightarrow> i64"
    and rd :: "'e \<Rightarrow> nat \<Rightarrow> 's \<Rightarrow> (int \<times> bytes \<times> 's) option"
  assumes rd_law: "okay s \<Longrightarrow> rd e n s = Some (r, out, s') \<Longrightarrow>
      okay s' \<and> length out \<le> n \<and> (0 \<le> r \<longrightarrow> r = int (length out)) \<and> upcoming s = out @ upcoming s'
      \<and> position s' = position s + of_nat (length out)"
begin

lemma read_loop_cases:
  assumes ok: "buffer_ok b" "okay s" and chunk: "chunk < 2 ^ 32"
  shows "(\<exists>p r out b'. cur_packet b = Some p \<and> take_bytes n p b = (r, out, b')
        \<and> read_loop (Suc (Suc k)) (rd e) junk chunk n (b, s) = Some (r, out, b', s))
    \<or> cur_packet b = None \<and> rd e chunk s = None \<and> read_loop (Suc (Suc k)) (rd e) junk chunk n (b, s) = None
    \<or> (\<exists>r d s' p b1 r' out b'. cur_packet b = None \<and> rd e chunk s = Some (r, d, s') \<and> 0 < r
        \<and> buffer_ok b1 \<and> cur_packet b1 = Some p \<and> buffer_rest b1 = d \<and> take_bytes n p b1 = (r', out, b')
        \<and> read_loop (Suc (Suc k)) (rd e) junk chunk n (b, s) = Some (r', out, b', s'))
    \<or> (\<exists>r d s' b'. cur_packet b = None \<and> rd e chunk s = Some (r, d, s') \<and> r \<le> 0
        \<and> buffer_ok b' \<and> buffer_rest b' = []
        \<and> read_loop (Suc (Suc k)) (rd e) junk chunk n (b, s) = Some (r, [], b', s'))"
proof (cases "cur_packet b")
  case (Some p)
  obtain r out b' where "take_bytes n p b = (r, out, b')" by (metis prod_cases3)
  with Some show ?thesis by (simp add: next_packet_def)
next
  case None
  have ring: "ring_inv BUFFER_CAPACITY (rbuf b)" "ring_items (rbuf b) = []"
    using ok(1) by (auto simp: buffer_ok_def)
  define b1 where "b1 = b\<lparr>cur_packet := None, consumed := 0\<rparr>"
  have np: "next_packet b = Some b1" using None ring_empty_read [OF ring] by (simp add: next_packet_def b1_def)
  obtain p rb where nw: "newPacket junk chunk (rbuf b) = (p, rb)" by force
  from newPacket_spec [OF nw] obtain pool where rb: "rb = rbuf b\<lparr>m_pool := pool\<rparr>" and cap: "chunk \<le> pk_capacity p" by blast
  have ring': "ring_inv BUFFER_CAPACITY rb" "ring_items rb = []" using ring by (simp_all add: rb)
  show ?thesis
  proof (cases "rd e chunk s")
    case rdn: None
    with None np nw show ?thesis by (simp add: b1_def)
  next
    case (Some x)
    obtain r d s' where x: "rd e chunk s = Some (r, d, s')" using Some by (metis prod_cases3)
    note law = rd_law [OF ok(2) x]
    show ?thesis
    proof (cases "r > 0")
      case False
      let ?b = "b1\<lparr>rbuf := freePacket (store d p) rb\<rparr>"
      have "buffer_ok ?b" "buffer_rest ?b = []"
        using ring' by (simp_all add: b1_def buffer_ok_def buffer_rest_def freePacket_def)
      moreover have "read_loop (Suc (Suc k)) (rd e) junk chunk n (b, s) = Some (r, [], ?b, s')"
        using False x np nw by (simp add: b1_def)
      ultimately show ?thesis using None x False by (metis not_less)
    next
      case True
      let ?p = "(store d p)\<lparr>pk_size := nat r\<rparr>"
      have d: "nat r = length d" "d \<noteq> []" using True law by auto
      have sz: "0 < pk_size ?p" "pk_size ?p \<le> pk_capacity ?p" "pk_size ?p < 2 ^ 32"
        using d law cap chunk by (auto simp: pk_capacity_def store_def)
      from ring_pass [OF ring' sz] obtain rb2 where
        w: "rb_read (writePacket ?p rb) = Some (Some (?p\<lparr>pk_id := m_count rb + 1\<rparr>), rb2)"
          "ring_inv BUFFER_CAPACITY rb2" "ring_items rb2 = []" by blast
      let ?q = "?p\<lparr>pk_id := m_count rb + 1\<rparr>"
      let ?b = "b\<lparr>rbuf := rb2, cur_packet := Some ?q, consumed := 0\<rparr>"
      have "buffer_ok ?b" using w sz by (simp add: buffer_ok_def pk_capacity_def)
      moreover have "buffer_rest ?b = d" using d w(3) payload_store [of d p] by (simp add: buffer_rest_def)
      moreover obtain r' out b' where t: "take_bytes n ?q ?b = (r', out, b')" by (metis prod_cases3)
      moreover have "read_loop (Suc (Suc k)) (rd e) junk chunk n (b, s) = Some (r', out, b', s')"
        using np nw x True w(1) t by (simp add: b1_def next_packet_def)
      ultimately show ?thesis using None x True by fastforce
    qed
  qed
qed

end

text \<open>Two rounds of the loop are enough: more fuel changes nothing, and the call returns whenever
  the reads of blocks do.\<close>

context block_reader
begin

lemma read_loop_enough:
  assumes "buffer_ok b" "okay s" "chunk < 2 ^ 32"
  shows "read_loop (Suc (Suc k)) (rd e) junk chunk n (b, s) = read_loop 2 (rd e) junk chunk n (b, s)"
proof -
  have "read_loop (Suc (Suc k)) (rd e) junk chunk n (b, s) = read_loop (Suc (Suc 0)) (rd e) junk chunk n (b, s)"
  proof (cases "read_loop (Suc (Suc 0)) (rd e) junk chunk n (b, s)")
    case None
    with read_loop_cases [OF assms, of n 0 e junk] have "cur_packet b = None" "rd e chunk s = None" by auto
    with read_loop_cases [OF assms, of n k e junk] None show ?thesis by auto
  next
    case (Some x)
    with read_loop_mono [OF Some, of k] show ?thesis by simp
  qed
  then show ?thesis by (simp add: numeral_2_eq_2)
qed

lemma buffered_Read_law:
  assumes "buffer_ok b" "okay s" "chunk < 2 ^ 32" "buffered_Read (rd e) junk chunk n (b, s) = Some (r, out, b', s')"
  shows "buffer_ok b' \<and> okay s' \<and> length out \<le> n \<and> (\<exists>skip. buffer_rest b @ upcoming s = out @ skip @ buffer_rest b' @ upcoming s'
    \<and> position s' + of_nat (length (buffer_rest b)) = position s + of_nat (length out + length skip + length (buffer_rest b'))
    \<and> (0 \<le> r \<longrightarrow> r = int (length out) \<and> skip = []))"
proof -
  have l: "read_loop (Suc (Suc 0)) (rd e) junk chunk n (b, s) = Some (r, out, b', s')"
    using assms(4) by (simp add: buffered_Read_def numeral_2_eq_2 split: if_splits)
  from read_loop_cases [OF assms(1-3), of n 0 e junk, unfolded l]
  consider (packet) p where "cur_packet b = Some p" "take_bytes n p b = (r, out, b')" "s' = s"
    | (fetched) d r1 p b1 where "cur_packet b = None" "rd e chunk s = Some (r1, d, s')" "0 < r1" "buffer_ok b1"
        "cur_packet b1 = Some p" "buffer_rest b1 = d" "take_bytes n p b1 = (r, out, b')"
    | (ended) d where "cur_packet b = None" "rd e chunk s = Some (r, d, s')" "r \<le> 0" "out = []" "buffer_ok b'" "buffer_rest b' = []"
    by (elim disjE exE conjE) auto
  then show ?thesis
  proof cases
    case packet
    with take_bytes_spec [OF assms(1) packet(1,2)] assms(2) show ?thesis
      by (auto intro!: exI [of _ "[]"])
  next
    case fetched
    have e: "buffer_rest b = []" using assms(1) fetched(1) by (simp add: buffer_ok_def buffer_rest_def)
    from take_bytes_spec [OF fetched(4,5,7)] rd_law [OF assms(2) fetched(2)] fetched(3,6) e show ?thesis
      by (auto intro!: exI [of _ "[]"])
  next
    case ended
    have e: "buffer_rest b = []" using assms(1) ended(1) by (simp add: buffer_ok_def buffer_rest_def)
    from rd_law [OF assms(2) ended(2)] ended e show ?thesis
      by (auto intro!: exI [of _ d])
  qed
qed

lemma buffered_Read_returns:
  assumes "buffer_ok b" "okay s" "chunk < 2 ^ 32" "n < 2 ^ 31" "cur_packet b = None \<longrightarrow> rd e chunk s \<noteq> None"
  shows "buffered_Read (rd e) junk chunk n (b, s) \<noteq> None"
  using read_loop_cases [OF assms(1-3), of n 0 e junk] assms(4,5)
  by (auto simp: buffered_Read_def numeral_2_eq_2 split: if_splits)

end

section \<open>The interface of streams\<close>

text \<open>The laws of \<open>Read\<close> in \<open>Stream\<close>: what is delivered are the next bytes of the contents, and the position moves
  with them. A call that fails may lose bytes, but the position accounts for them.\<close>

locale stream =
  fixes okay :: "'s \<Rightarrow> bool"
    and contents :: "'s \<Rightarrow> bytes"
    and position :: "'s \<Rightarrow> i64"
    and rd :: "'e \<Rightarrow> nat \<Rightarrow> 's \<Rightarrow> (int \<times> bytes \<times> 's) option"
  assumes read_law: "okay s \<Longrightarrow> rd e n s = Some (r, out, s') \<Longrightarrow> okay s' \<and> length out \<le> n \<and>
      (\<exists>skip. contents s = out @ skip @ contents s'
        \<and> position s' = position s + of_nat (length out + length skip)
        \<and> (0 \<le> r \<longrightarrow> r = int (length out) \<and> skip = []))"

text \<open>A client that reads piece after piece, up to the first failure.\<close>

fun read_seq :: "('e \<Rightarrow> nat \<Rightarrow> 's \<Rightarrow> (int \<times> bytes \<times> 's) option) \<Rightarrow> ('e \<times> nat) list \<Rightarrow> 's
    \<Rightarrow> (bytes \<times> bool \<times> 's) option" where
  "read_seq rd [] s = Some ([], True, s)"
| "read_seq rd ((e, n) # qs) s =
     (case rd e n s of
        None \<Rightarrow> None
      | Some (r, out, s1) \<Rightarrow>
          (if r < 0 then Some ([], False, s1)
           else map_option (\<lambda>(bs, fine, s2). (out @ bs, fine, s2)) (read_seq rd qs s1)))"

context stream
begin

lemma read_seq_law:
  "okay s \<Longrightarrow> read_seq rd qs s = Some (bs, fine, s') \<Longrightarrow> okay s' \<and>
     (\<exists>skip. contents s = bs @ skip @ contents s' \<and> position s' = position s + of_nat (length bs + length skip)
       \<and> (fine \<longrightarrow> skip = []))"
proof (induction qs arbitrary: s bs)
  case (Cons q qs)
  obtain e n where q: "q = (e, n)" by force
  from Cons.prems(2) q obtain r out s1 where 1: "rd e n s = Some (r, out, s1)" by (auto split: option.splits)
  from read_law [OF Cons.prems(1) 1] obtain skip where
    l: "okay s1" "contents s = out @ skip @ contents s1" "position s1 = position s + of_nat (length out + length skip)"
      "0 \<le> r \<longrightarrow> skip = []" by blast
  show ?case
  proof (cases "r < 0")
    case True
    with Cons.prems(2) q 1 l show ?thesis by (auto intro!: exI [of _ "out @ skip"])
  next
    case False
    with Cons.prems(2) q 1 obtain bs1 where 2: "read_seq rd qs s1 = Some (bs1, fine, s')" "bs = out @ bs1" by auto
    from Cons.IH [OF l(1) 2(1)] False l 2(2) show ?thesis by auto
  qed
qed simp

end

text \<open>A reader of blocks is a stream, and so is the buffered reader on top of it.\<close>

sublocale block_reader \<subseteq> plain: stream okay upcoming position rd
  using rd_law by unfold_locales force

locale chunked_reader = block_reader +
  fixes chunk_of :: "'s \<Rightarrow> nat"
    and junk :: "nat \<Rightarrow> bytes"
  assumes chunk_bound: "okay s \<Longrightarrow> chunk_of s < 2 ^ 32"

definition buffered_position :: "i64 \<Rightarrow> rdbuffer \<Rightarrow> i64" where
  "buffered_position p b = p - ucast (buffer_unread b)"

definition buffered_step :: "('e \<Rightarrow> nat \<Rightarrow> 's \<Rightarrow> (int \<times> bytes \<times> 's) option) \<Rightarrow> ('s \<Rightarrow> nat) \<Rightarrow> (nat \<Rightarrow> bytes)
    \<Rightarrow> 'e \<Rightarrow> nat \<Rightarrow> rdbuffer \<times> 's \<Rightarrow> (int \<times> bytes \<times> rdbuffer \<times> 's) option" where
  "buffered_step rd chunk_of junk e n bs = buffered_Read (rd e) junk (chunk_of (snd bs)) n bs"

lemma buffer_unread_rest:
  assumes "buffer_ok b"
  shows "buffer_unread b = of_nat (length (buffer_rest b))" "length (buffer_rest b) < 2 ^ 32"
proof -
  have "pending (rbuf b) = []" "rb_wf (rbuf b)" using assms by (auto simp: buffer_ok_def ring_items_def ring_inv_def)
  then have "bytesUnread (rbuf b) = 0" using ring_total_pending [of "rbuf b"] by (simp add: bytesUnread_def rb_wf_def)
  then show "buffer_unread b = of_nat (length (buffer_rest b))" "length (buffer_rest b) < 2 ^ 32"
    using assms by (auto simp: buffer_unread_def buffer_rest_def buffer_ok_def payload_def pk_capacity_def split: option.splits)
qed

lemma buffered_position_rest: "buffer_ok b \<Longrightarrow> buffered_position p b = p - of_nat (length (buffer_rest b))"
proof -
  assume "buffer_ok b"
  note u = buffer_unread_rest [OF this]
  have "unat (buffer_unread b) = length (buffer_rest b)" using u by (simp add: unsigned_of_nat take_bit_nat_eq_self)
  then have "(ucast (buffer_unread b) :: i64) = of_nat (length (buffer_rest b))" by (metis of_nat_unat)
  then show ?thesis by (simp add: buffered_position_def)
qed

sublocale chunked_reader \<subseteq> buffered: stream "\<lambda>(b, s). buffer_ok b \<and> okay s" "\<lambda>(b, s). buffer_rest b @ upcoming s"
  "\<lambda>(b, s). buffered_position (position s) b" "buffered_step rd chunk_of junk"
proof unfold_locales
  fix bs e n r out bs'
  assume ok: "case bs of (b, s) \<Rightarrow> buffer_ok b \<and> okay s" and rd: "buffered_step rd chunk_of junk e n bs = Some (r, out, bs')"
  obtain b s b' s' where bs: "bs = (b, s)" "bs' = (b', s')" by force
  from buffered_Read_law [of b s "chunk_of s" e junk n r out b' s'] ok rd chunk_bound
  show "(case bs' of (b, s) \<Rightarrow> buffer_ok b \<and> okay s) \<and> length out \<le> n \<and>
      (\<exists>skip. (case bs of (b, s) \<Rightarrow> buffer_rest b @ upcoming s) = out @ skip @ (case bs' of (b, s) \<Rightarrow> buffer_rest b @ upcoming s)
        \<and> (case bs' of (b, s) \<Rightarrow> buffered_position (position s) b)
            = (case bs of (b, s) \<Rightarrow> buffered_position (position s) b) + of_nat (length out + length skip)
        \<and> (0 \<le> r \<longrightarrow> r = int (length out) \<and> skip = []))"
    by (auto simp: bs buffered_step_def buffered_position_rest algebra_simps)
qed

end
