(* ===== verification/FilePlayback.thy ===== *)
theory FilePlayback
  imports ProtoPlayback MythStream
begin

text \<open>
  Playback of a file (\<open>mythfileplayback.cpp\<close>): a control connection and at most one transfer. The
  object of the base class is the field \<open>fp_base\<close>; \<open>m_transfer\<close> is a shared pointer that is null
  when no file is open. A new transfer needs a connection of its own: the object that its
  constructor makes from the server and the port is an argument, as it carries the script of its
  socket.
\<close>

section \<open>State and operations\<close>

record fileplayback =
  fp_base :: protobase
  fp_transfer :: "transfer option"

definition FilePlayback_new :: "protobase \<Rightarrow> fileplayback" where
  "FilePlayback_new pb = \<lparr>fp_base = snd (playback_Open pb), fp_transfer = None\<rparr>"

definition fp_Open :: "fileplayback \<Rightarrow> bool \<times> fileplayback" where
  "fp_Open f =
     (case playback_IsOpen (fp_base f) of (opened, pb1) \<Rightarrow>
       (if opened then (True, f\<lparr>fp_base := pb1\<rparr>)
        else case playback_Open pb1 of (ok, pb2) \<Rightarrow> (ok, f\<lparr>fp_base := pb2\<rparr>)))"

definition fp_CloseTransfer :: "fileplayback \<Rightarrow> fileplayback" where
  "fp_CloseTransfer f =
     (case fp_transfer f of
        None \<Rightarrow> f
      | Some t \<Rightarrow> f\<lparr>fp_base := TransferDone75 t (fp_base f), fp_transfer := None\<rparr>)"

definition fp_Close :: "fileplayback \<Rightarrow> fileplayback" where
  "fp_Close f = (let f1 = fp_CloseTransfer f in f1\<lparr>fp_base := playback_Close (fp_base f1)\<rparr>)"

text \<open>The pointer is set before the transfer is opened and stays set when that fails.\<close>

definition fp_OpenTransfer :: "protobase \<Rightarrow> string \<Rightarrow> string \<Rightarrow> fileplayback \<Rightarrow> bool \<times> fileplayback" where
  "fp_OpenTransfer conn pathname sgname f =
     (case playback_IsOpen (fp_base f) of (opened, pb1) \<Rightarrow>
       (if \<not> opened then (False, f\<lparr>fp_base := pb1\<rparr>)
        else let f1 = fp_CloseTransfer (f\<lparr>fp_base := pb1\<rparr>) in
          case transfer_Open (ProtoTransfer_new conn pathname sgname) of
            (ok, t) \<Rightarrow> (ok, f1\<lparr>fp_transfer := Some t\<rparr>)))"

definition fp_TransferIsOpen :: "fileplayback \<Rightarrow> bool \<times> fileplayback" where
  "fp_TransferIsOpen f =
     (case fp_transfer f of
        None \<Rightarrow> (False, f)
      | Some t \<Rightarrow> (case TransferIsOpen75 t (fp_base f) of (ok, pb) \<Rightarrow> (ok, f\<lparr>fp_base := pb\<rparr>)))"

definition fp_GetSize :: "fileplayback \<Rightarrow> i64" where
  "fp_GetSize f = (case fp_transfer f of None \<Rightarrow> 0 | Some t \<Rightarrow> GetSize t)"

definition fp_Read :: "poll2 list \<Rightarrow> nat \<Rightarrow> fileplayback \<Rightarrow> (int \<times> bytes \<times> fileplayback) option" where
  "fp_Read evs n f =
     (case fp_transfer f of
        None \<Rightarrow> Some (-1, [], f)
      | Some t \<Rightarrow>
          (let s = sint (GetRemaining t) in
           if s > 0
           then map_option (\<lambda>(r, out, t1, pb1). (r, out, f\<lparr>fp_transfer := Some t1, fp_base := pb1\<rparr>))
                  (TransferRequestBlock evs (if s < int n then nat s else n) t (fp_base f))
           else Some (0, [], f)))"

definition fp_Seek :: "i64 \<Rightarrow> WHENCE_t \<Rightarrow> fileplayback \<Rightarrow> i64 \<times> fileplayback" where
  "fp_Seek offset whence f =
     (case fp_transfer f of
        None \<Rightarrow> (-1, f)
      | Some t \<Rightarrow>
          (case TransferSeek75 offset whence t (fp_base f) of
             (r, t1, pb1) \<Rightarrow> (r, f\<lparr>fp_transfer := Some t1, fp_base := pb1\<rparr>)))"

definition fp_GetPosition :: "fileplayback \<Rightarrow> i64" where
  "fp_GetPosition f = (case fp_transfer f of None \<Rightarrow> 0 | Some t \<Rightarrow> GetPosition t)"

section \<open>A file is a stream\<close>

definition fp_upcoming :: "fileplayback \<Rightarrow> bytes" where
  "fp_upcoming f = (case fp_transfer f of None \<Rightarrow> [] | Some t \<Rightarrow> transfer_flow t)"

lemma fp_Read_spec:
  assumes "fp_Read evs n f = Some (r, out, f')"
  shows "length out \<le> n" "0 \<le> r \<Longrightarrow> r = int (length out)" "fp_upcoming f = out @ fp_upcoming f'"
    "fp_GetPosition f' = fp_GetPosition f + of_nat (length out)"
    "fp_transfer f = Some t \<Longrightarrow> int (length out) \<le> max 0 (sint (GetRemaining t))"
proof -
  have "length out \<le> n \<and> (0 \<le> r \<longrightarrow> r = int (length out)) \<and> fp_upcoming f = out @ fp_upcoming f'
      \<and> fp_GetPosition f' = fp_GetPosition f + of_nat (length out)
      \<and> (\<forall>t. fp_transfer f = Some t \<longrightarrow> int (length out) \<le> max 0 (sint (GetRemaining t)))"
  proof (cases "\<exists>t. fp_transfer f = Some t \<and> 0 < sint (GetRemaining t)")
    case False
    with assms show ?thesis by (auto simp: fp_Read_def Let_def split: option.splits if_splits)
  next
    case True
    then obtain t where t: "fp_transfer f = Some t" "0 < sint (GetRemaining t)" by blast
    with assms obtain t' pb' where
      b: "TransferRequestBlock evs (if sint (GetRemaining t) < int n then nat (sint (GetRemaining t)) else n) t (fp_base f)
          = Some (r, out, t', pb')" and f': "f' = f\<lparr>fp_transfer := Some t', fp_base := pb'\<rparr>"
      by (auto simp: fp_Read_def Let_def)
    from TransferRequestBlock_spec [OF b] t f' show ?thesis
      by (auto simp: fp_upcoming_def fp_GetPosition_def split: if_splits)
  qed
  then show "length out \<le> n" "0 \<le> r \<Longrightarrow> r = int (length out)" "fp_upcoming f = out @ fp_upcoming f'"
    "fp_GetPosition f' = fp_GetPosition f + of_nat (length out)"
    "fp_transfer f = Some t \<Longrightarrow> int (length out) \<le> max 0 (sint (GetRemaining t))" by blast+
qed

interpretation files: block_reader "\<lambda>_. True" fp_upcoming fp_GetPosition fp_Read
  by unfold_locales (auto simp: fp_Read_spec)

section \<open>What a block read keeps\<close>

lemma HangException_keeps_step: "pb_keeps a pb \<Longrightarrow> pb_keeps a (HangException pb)"
  by (rule pb_keeps_trans [OF _ pb_keeps_frame [OF HangException_frame]])

lemma block_finish_keeps:
  assumes "block_inv n t b" "block_finish b = (r, t', pb')"
  shows "pb_keeps (blk_pb b) pb'"
  using assms
  by (auto simp: block_finish_def Let_def recovery_idle [OF assms(1)] split: if_splits prod.splits bool.splits
      dest!: keeps_steps intro!: HangException_keeps_step FlushMessage_keeps_step)

lemma block_start_keeps: "block_start t n0 pb = (n, b) \<Longrightarrow> pb_keeps pb (blk_pb b) \<and> blk_t b = t"
  by (auto simp: block_start_def TransferRequestBlock75_def Let_def split: if_splits prod.splits dest!: keeps_steps)

lemma TransferRequestBlockFeedback75_keeps: "TransferRequestBlockFeedback75 pb = (r, pb') \<Longrightarrow> pb_keeps pb pb'"
  by (auto simp: TransferRequestBlockFeedback75_def split: if_splits prod.splits sum.splits
      dest!: keeps_steps intro!: FlushMessage_keeps_step intro: pb_keeps_trans)

text \<open>Of a transfer: its invariant, its size and its file.\<close>

definition same_file :: "transfer \<Rightarrow> transfer \<Rightarrow> bool" where
  "same_file t t' \<longleftrightarrow> (pb_ok t \<longrightarrow> pb_ok t') \<and> GetSize t' = GetSize t \<and> m_pathName t' = m_pathName t
     \<and> m_isOpen t' = m_isOpen t"

lemma same_file_refl [simp]: "same_file t t"
  by (simp add: same_file_def)

lemma same_file_trans: "same_file a b \<Longrightarrow> same_file b c \<Longrightarrow> same_file a c"
  by (simp add: same_file_def)

lemma same_file_set [simp]:
  "same_file t (SetPosition x t') = same_file t t'" "same_file t (SetRequested x t') = same_file t t'"
  by (auto simp: same_file_def SetPosition_def SetRequested_def GetSize_def)

lemma same_file_link:
  "m_socket (sock t) = Some l \<Longrightarrow> same_file t (t\<lparr>sock := (sock t)\<lparr>m_socket := Some l1\<rparr>\<rparr>)"
  by (auto simp: same_file_def GetSize_def pb_ok_def pb_inv_def pb_quiet_def sock_inv_def IsValid_def)

lemma block_step_keeps:
  "pb_keeps (blk_pb b) (blk_pb (block_step n ev b)) \<and> same_file (blk_t b) (blk_t (block_step n ev b))"
proof -
  have d: "blk_pb (block_data n rvs b) = blk_pb b \<and> same_file (blk_t b) (blk_t (block_data n rvs b))" for rvs and b :: "'a block"
    by (auto simp: block_data_def Let_def same_file_link split: revents.splits option.splits prod.splits sum.splits)
  have f: "pb_keeps (blk_pb b) (blk_pb (block_feedback rvs b)) \<and> same_file (blk_t b) (blk_t (block_feedback rvs b))" for rvs and b :: "'a block"
    by (auto simp: block_feedback_def Let_def split: revents.splits prod.splits
        dest!: TransferRequestBlockFeedback75_keeps)
  show ?thesis
  proof (cases ev)
    case (PollReady r0 r1)
    let ?b = "b\<lparr>blk_data := False\<rparr>"
    from d [of r0 ?b] f [of "block_data n r0 ?b" r1] PollReady show ?thesis
      by (auto simp: block_step_def intro: same_file_trans)
  qed (auto simp: block_step_def)
qed

lemma block_loop_keeps:
  "block_loop n evs b = Some b' \<Longrightarrow> pb_keeps (blk_pb b) (blk_pb b') \<and> same_file (blk_t b) (blk_t b')"
proof (induction n evs b rule: block_loop.induct)
  case (2 n ev evs b)
  then show ?case using block_step_keeps [of b n ev]
    by (auto split: if_splits intro: pb_keeps_trans same_file_trans)
qed (auto split: if_splits)

lemma TransferRequestBlock_keeps:
  assumes "TransferRequestBlock evs n0 t pb = Some (r, out, t', pb')"
  shows "pb_keeps pb pb' \<and> same_file t t'"
proof (cases "n0 = 0 \<or> \<not> IsValid (sock t) \<or> \<not> IsValid (sock pb)")
  case True
  with assms show ?thesis by (auto simp: TransferRequestBlock_def split: if_splits)
next
  case False
  obtain n b where st: "block_start t n0 pb = (n, b)" by force
  from False assms st obtain b1 where l: "block_loop n evs b = Some b1" and f: "block_finish b1 = (r, t', pb')"
    by (auto simp: TransferRequestBlock_def split: option.splits prod.splits)
  have inv: "block_inv n t b1" using block_loop_inv [OF _ l] block_start_inv [OF st] by blast
  from block_finish_keeps [OF inv f] block_finish_spec(1) [OF inv f] block_loop_keeps [OF l] block_start_keeps [OF st]
  show ?thesis by (auto intro: pb_keeps_trans)
qed

section \<open>The invariant\<close>

definition fp_ok :: "fileplayback \<Rightarrow> bool" where
  "fp_ok f \<longleftrightarrow> pb_ok (fp_base f) \<and> (\<forall>t. fp_transfer f = Some t \<longrightarrow> pb_ok t)"

lemma ProtoTransfer_new_ok: "pb_ok pb \<Longrightarrow> pb_ok (ProtoTransfer_new pb path sg)"
  by (simp add: ProtoTransfer_new_def protobase.defs pb_ok_def pb_inv_def pb_quiet_def)

lemma playback_Close_ok: "pb_ok pb \<Longrightarrow> pb_ok (playback_Close pb)"
  using reset_Close_ok [of pb] by (simp add: playback_Close_def reset_Close_def)

lemma TransferDone75_ok: "pb_ok pb \<Longrightarrow> pb_ok (TransferDone75 t pb)"
  by (cases "query (transfer_cmd t [''DONE'']) [fok] () pb") (auto simp: TransferDone75_def dest!: ok_steps)

lemma TransferIsOpen75_ok:
  assumes "pb_ok pb" "TransferIsOpen75 t pb = (b, pb')"
  shows "pb_ok pb'"
  using assms playback.is_open_keeps [OF assms(1)]
  by (auto simp: TransferIsOpen75_def split: if_splits prod.splits option.splits dest!: ok_steps)

lemma fp_CloseTransfer_ok: "fp_ok f \<Longrightarrow> fp_ok (fp_CloseTransfer f)"
  by (auto simp: fp_ok_def fp_CloseTransfer_def TransferDone75_ok split: option.splits)

lemma fp_OpenTransfer_ok:
  assumes "fp_ok f" "pb_ok conn" "fp_OpenTransfer conn path sg f = (b, f')"
  shows "fp_ok f'"
proof -
  obtain o1 pb1 where 1: "playback_IsOpen (fp_base f) = (o1, pb1)" by force
  have k: "pb_ok pb1" using playback.is_open_keeps [OF _ 1] assms(1) by (simp add: fp_ok_def)
  have f1: "fp_ok (f\<lparr>fp_base := pb1\<rparr>)" using k assms(1) by (simp add: fp_ok_def)
  obtain o2 t where 2: "transfer_Open (ProtoTransfer_new conn path sg) = (o2, t)" by force
  have "pb_ok t" using transfer_Open_ok [OF ProtoTransfer_new_ok [OF assms(2)], of path sg] 2 by simp
  with f1 fp_CloseTransfer_ok [OF f1] assms(3) 1 2 show ?thesis
    by (auto simp: fp_OpenTransfer_def Let_def fp_ok_def split: if_splits)
qed

lemma fp_Open_ok:
  assumes "fp_ok f" "fp_Open f = (b, f')"
  shows "fp_ok f'"
proof -
  obtain o1 pb1 where 1: "playback_IsOpen (fp_base f) = (o1, pb1)" by force
  have "pb_ok pb1" using playback.is_open_keeps [OF _ 1] assms(1) by (simp add: fp_ok_def)
  with playback.opn_ok [of pb1] assms 1 show ?thesis
    by (auto simp: fp_Open_def fp_ok_def split: if_splits prod.splits)
qed

text \<open>The calls a program makes on a file, and what one of them does to the state.\<close>

datatype fp_op = FpOpen | FpClose | FpOpenTransfer protobase string string | FpCloseTransfer | FpTransferIsOpen
  | FpRead "poll2 list" nat | FpSeek i64 WHENCE_t

fun fp_apply :: "fp_op \<Rightarrow> fileplayback \<Rightarrow> fileplayback option" where
  "fp_apply FpOpen f = Some (snd (fp_Open f))"
| "fp_apply FpClose f = Some (fp_Close f)"
| "fp_apply (FpOpenTransfer conn path sg) f = Some (snd (fp_OpenTransfer conn path sg f))"
| "fp_apply FpCloseTransfer f = Some (fp_CloseTransfer f)"
| "fp_apply FpTransferIsOpen f = Some (snd (fp_TransferIsOpen f))"
| "fp_apply (FpRead evs n) f = map_option (\<lambda>(_, _, f'). f') (fp_Read evs n f)"
| "fp_apply (FpSeek offset whence) f = Some (snd (fp_Seek offset whence f))"

definition fp_op_ok :: "fp_op \<Rightarrow> bool" where
  "fp_op_ok op = (case op of FpOpenTransfer conn _ _ \<Rightarrow> pb_ok conn | _ \<Rightarrow> True)"

lemma fp_Read_ok: "fp_ok f \<Longrightarrow> fp_Read evs n f = Some (r, out, f') \<Longrightarrow> fp_ok f'"
  by (auto simp: fp_Read_def Let_def fp_ok_def same_file_def pb_keeps_def split: option.splits if_splits
      dest!: TransferRequestBlock_keeps)

lemma fp_apply_ok:
  assumes "fp_ok f" "fp_op_ok op" "fp_apply op f = Some f'"
  shows "fp_ok f'"
proof (cases op)
  case FpOpen
  with assms fp_Open_ok [of f "fst (fp_Open f)" f'] show ?thesis by auto
next
  case FpClose
  with assms fp_CloseTransfer_ok [OF assms(1)] show ?thesis
    by (auto simp: fp_Close_def Let_def fp_ok_def playback_Close_ok)
next
  case (FpOpenTransfer conn path sg)
  with assms fp_OpenTransfer_ok [of f conn path sg "fst (fp_OpenTransfer conn path sg f)" f'] show ?thesis
    by (auto simp: fp_op_ok_def)
next
  case FpCloseTransfer
  with assms fp_CloseTransfer_ok [OF assms(1)] show ?thesis by auto
next
  case FpTransferIsOpen
  with assms TransferIsOpen75_ok [of "fp_base f"] show ?thesis
    by (cases "fp_transfer f") (fastforce simp: fp_TransferIsOpen_def fp_ok_def split: prod.splits)+
next
  case (FpRead evs n)
  with assms fp_Read_ok [OF assms(1)] show ?thesis by auto
next
  case (FpSeek offset whence)
  with assms TransferSeek75_ok [of "fp_base f"] show ?thesis
    by (cases "fp_transfer f") (fastforce simp: fp_Seek_def fp_ok_def split: prod.splits)+
qed

fun fp_run :: "fp_op list \<Rightarrow> fileplayback \<Rightarrow> fileplayback option" where
  "fp_run [] f = Some f"
| "fp_run (op # ops) f = (case fp_apply op f of None \<Rightarrow> None | Some f1 \<Rightarrow> fp_run ops f1)"

lemma fp_run_ok: "fp_ok f \<Longrightarrow> list_all fp_op_ok ops \<Longrightarrow> fp_run ops f = Some f' \<Longrightarrow> fp_ok f'"
  by (induction ops arbitrary: f) (auto split: option.splits dest: fp_apply_ok)

section \<open>Properties\<close>

text \<open>Reading a file in pieces of any size, whatever the two connections do: what is delivered
  are the next bytes of the transfer, in order and without a gap, and the position is the one before
  plus their number, as long as no call fails; and a call never delivers more than the rest of
  the file.\<close>

theorem file_reads_in_order:
  assumes "read_seq fp_Read qs f = Some (bs, fine, f')"
  shows "(\<exists>skip. fp_upcoming f = bs @ skip @ fp_upcoming f'
      \<and> fp_GetPosition f' = fp_GetPosition f + of_nat (length bs + length skip) \<and> (fine \<longrightarrow> skip = []))
    \<and> (\<forall>evs n r out f1 t. fp_Read evs n f = Some (r, out, f1) \<and> fp_transfer f = Some t
        \<longrightarrow> int (length out) \<le> max 0 (sint (GetRemaining t)))"
  using files.plain.read_seq_law [OF TrueI assms] fp_Read_spec(5) by blast

definition demo_file :: "bytes \<Rightarrow> fileplayback" where
  "demo_file b = \<lparr>fp_base = demo_pb 91 [], fp_transfer = Some (demo_transfer b)\<rparr>"

theorem file_reads_in_order_witness:
  "\<exists>f'. read_seq fp_Read [([PollReady RevIn RevNone, PollNone], 2), ([PollReady RevIn RevNone, PollNone], 1)] (demo_file ''abc'')
     = Some (''abc'', True, f') \<and> fp_GetPosition f' = 13"
proof -
  let ?q = "[([PollReady RevIn RevNone, PollNone], 2), ([PollReady RevIn RevNone, PollNone], 1)]"
  have v: "IsValid (demo_socket x)" for x by (simp add: IsValid_def)
  have d: "sock (demo_pb 91 []) = demo_socket []" by (simp add: demo_pb_def)
  obtain f' where e: "read_seq fp_Read ?q (demo_file ''abc'') = Some (''abc'', True, f')"
    by (simp add: fp_Read_def demo_file_def GetRemaining_def TransferRequestBlock_def v d block_start_def PROTO_TRANSFER_RCVBUF_def
        GetPosition_def GetRequested_def block_continues_def block_step_def block_data_def block_feedback_def recv_rx_def
        block_finish_def SetPosition_def Let_def IsValid_def)
  from file_reads_in_order [OF e] have "fp_GetPosition f' = 13"
    by (simp add: fp_GetPosition_def demo_file_def GetPosition_def)
  with e show ?thesis by blast
qed

text \<open>Whatever a program does with a file playback, in any order, and whatever the server does:
  the invariants of the control connection and of the transfer are kept.\<close>

theorem file_operations_keep_invariant:
  assumes "fp_ok f" "list_all fp_op_ok ops" "fp_run ops f = Some f'"
  shows "fp_ok f'"
  using fp_run_ok [OF assms] .

theorem file_operations_keep_invariant_witness:
  "\<exists>f'. fp_run [FpSeek 500 WHENCE_SET, FpTransferIsOpen, FpCloseTransfer, FpOpen] (demo_file []) = Some f' \<and> fp_ok f'"
proof -
  let ?ops = "[FpSeek 500 WHENCE_SET, FpTransferIsOpen, FpCloseTransfer, FpOpen]"
  have t: "pb_ok (demo_transfer [])"
    using demo_pb_ok [OF known_91] by (simp add: demo_transfer_def ProtoTransfer_new_ok)
  have k: "fp_ok (demo_file [])" using t demo_pb_ok [OF known_91] by (simp add: fp_ok_def demo_file_def)
  obtain f' where e: "fp_run ?ops (demo_file []) = Some f'" by simp
  from file_operations_keep_invariant [OF k _ e] e show ?thesis by (simp add: fp_op_ok_def)
qed

end
