(* ===== verification/EventHandler.thy ===== *)
theory EventHandler
  imports ProtoEvent
begin

text \<open>
  The event handler (\<open>mytheventhandler.cpp\<close>): a thread receives backend messages on an event
  connection and posts them to the queues of the subscriptions, each of which has a thread that
  hands its messages to the subscriber in turn.

  The maps of subscriptions are kept as the code has them: \<open>m_subscriptions\<close> is ordered by its
  key, \<open>m_subscriptionsByEvent\<close> gives the empty list for an event without entry. A subscriber is a
  number, 0 is the null pointer. Every method holds the mutex, so it is one function on the state;
  what the thread functions observe of the outside (whether a stop was asked for, whether the
  system could start a thread) is an argument.
\<close>

section \<open>State\<close>

record subscription =
  sub_handle :: nat
  sub_queue :: "EventMessage list"

record eventhandler =
  eh_event :: protobase
  eh_reset :: bool
  eh_running :: bool
  eh_server :: string
  eh_byEvent :: "EVENT_t \<Rightarrow> u32 list"
  eh_subs :: "(u32 \<times> subscription) list"

definition BasicEventHandler_new :: "string \<Rightarrow> protobase \<Rightarrow> eventhandler" where
  "BasicEventHandler_new server conn =
     \<lparr>eh_event = conn, eh_reset = False, eh_running = False, eh_server = server,
      eh_byEvent = (\<lambda>_. []), eh_subs = []\<rparr>"

section \<open>Subscriptions\<close>

text \<open>\<open>started\<close>: whether the thread of the subscription could be started.\<close>

definition CreateSubscription :: "nat \<Rightarrow> bool \<Rightarrow> eventhandler \<Rightarrow> u32 \<times> eventhandler" where
  "CreateSubscription sub started eh =
     (let sid = (case rev (eh_subs eh) of [] \<Rightarrow> 0 | (k, _) # _ \<Rightarrow> k) + 1 in
      if sub \<noteq> 0 \<and> started
      then (sid, eh\<lparr>eh_subs := map_insert sid \<lparr>sub_handle = sub, sub_queue = []\<rparr> (eh_subs eh)\<rparr>)
      else (0, eh))"

definition SubscribeForEvent :: "u32 \<Rightarrow> EVENT_t \<Rightarrow> eventhandler \<Rightarrow> bool \<times> eventhandler" where
  "SubscribeForEvent subid event eh =
     (if map_of (eh_subs eh) subid = None then (False, eh)
      else if subid \<in> set (eh_byEvent eh event) then (True, eh)
      else (True, eh\<lparr>eh_byEvent := (eh_byEvent eh)(event := eh_byEvent eh event @ [subid])\<rparr>))"

definition RevokeSubscription :: "u32 \<Rightarrow> eventhandler \<Rightarrow> eventhandler" where
  "RevokeSubscription subid eh = eh\<lparr>eh_subs := filter (\<lambda>(k, _). k \<noteq> subid) (eh_subs eh)\<rparr>"

definition RevokeAllSubscriptions :: "nat \<Rightarrow> eventhandler \<Rightarrow> eventhandler" where
  "RevokeAllSubscriptions sub eh = eh\<lparr>eh_subs := filter (\<lambda>(_, s). sub_handle s \<noteq> sub) (eh_subs eh)\<rparr>"

section \<open>Posting and taking messages\<close>

definition PostMessage :: "EventMessage \<Rightarrow> u32 \<Rightarrow> (u32 \<times> subscription) list \<Rightarrow> (u32 \<times> subscription) list" where
  "PostMessage msg sid subs =
     map (\<lambda>(k, s). if k = sid then (k, s\<lparr>sub_queue := sub_queue s @ [msg]\<rparr>) else (k, s)) subs"

text \<open>Entries without a subscription are collected and erased afterwards.\<close>

definition DispatchEvent :: "EventMessage \<Rightarrow> eventhandler \<Rightarrow> eventhandler" where
  "DispatchEvent msg eh =
     (let sevt = eh_byEvent eh (ev_event msg);
          live = (\<lambda>sid. map_of (eh_subs eh) sid \<noteq> None)
      in eh\<lparr>eh_subs := fold (PostMessage msg) (filter live sevt) (eh_subs eh),
            eh_byEvent := (eh_byEvent eh)(ev_event msg := filter live sevt)\<rparr>)"

text \<open>The body of the inner loop of the thread of a subscription: the message it hands to
  \<open>HandleBackendMessage\<close>.\<close>

definition take_message :: "u32 \<Rightarrow> eventhandler \<Rightarrow> EventMessage option \<times> eventhandler" where
  "take_message sid eh =
     (case map_of (eh_subs eh) sid of
        None \<Rightarrow> (None, eh)
      | Some s \<Rightarrow>
          (case sub_queue s of
             [] \<Rightarrow> (None, eh)
           | m # ms \<Rightarrow>
               (Some m, eh\<lparr>eh_subs := map (\<lambda>(k, x). if k = sid then (k, x\<lparr>sub_queue := ms\<rparr>) else (k, x)) (eh_subs eh)\<rparr>)))"

section \<open>The thread of the handler\<close>

definition AnnounceStatus :: "string \<Rightarrow> eventhandler \<Rightarrow> eventhandler" where
  "AnnounceStatus st eh =
     DispatchEvent (EventMessage_init\<lparr>ev_event := EVENT_HANDLER_STATUS, ev_subject := [st, eh_server eh]\<rparr>) eh"

definition AnnounceTimer :: "eventhandler \<Rightarrow> eventhandler" where
  "AnnounceTimer eh = DispatchEvent (EventMessage_init\<lparr>ev_event := EVENT_HANDLER_TIMER, ev_subject := ['''']\<rparr>) eh"

text \<open>The list holds what \<open>is_stopped\<close> answers in each round, one round per half second; \<open>None\<close> is
  a loop that is still running when the list is used up.\<close>

fun RetryConnect_loop :: "bool list \<Rightarrow> int \<Rightarrow> eventhandler \<Rightarrow> eventhandler option" where
  "RetryConnect_loop [] c eh = None"
| "RetryConnect_loop (stopped # obs) c eh =
     (if stopped then Some eh
      else if c - 1 < 0
      then (case event_Open (eh_event eh) of
              (True, pb) \<Rightarrow> Some ((AnnounceStatus ''CONNECTED'' (eh\<lparr>eh_event := pb\<rparr>))\<lparr>eh_reset := False\<rparr>)
            | (False, pb) \<Rightarrow> RetryConnect_loop obs 10 (AnnounceStatus ''NOTCONNECTED'' (eh\<lparr>eh_event := pb\<rparr>)))
      else RetryConnect_loop obs (c - 1) eh)"

definition RetryConnect :: "bool list \<Rightarrow> eventhandler \<Rightarrow> eventhandler option" where
  "RetryConnect obs eh = RetryConnect_loop obs 0 eh"

text \<open>One round of \<open>process\<close>.\<close>

definition process_round :: "libc \<Rightarrow> bool list \<Rightarrow> eventhandler \<Rightarrow> eventhandler option" where
  "process_round lc obs eh =
     (case RcvBackendMessage lc (eh_event eh) of (r, msg, pb) \<Rightarrow>
       (let eh1 = eh\<lparr>eh_event := pb\<rparr> in
        if r > 0
        then Some (case msg of Some m \<Rightarrow> DispatchEvent m eh1 | None \<Rightarrow> eh1)
        else if r < 0 then RetryConnect obs (AnnounceStatus ''DISCONNECTED'' eh1)
        else (let eh2 = AnnounceTimer eh1 in
              if eh_reset eh2
              then RetryConnect obs (eh2\<lparr>eh_reset := False, eh_event := event_Close (eh_event eh2)\<rparr>)
              else Some eh2)))"

fun process_loop :: "libc \<Rightarrow> (bool \<times> bool list) list \<Rightarrow> eventhandler \<Rightarrow> eventhandler option" where
  "process_loop lc [] eh = None"
| "process_loop lc ((stopped, obs) # rounds) eh =
     (if stopped then Some eh
      else case process_round lc obs eh of None \<Rightarrow> None | Some eh1 \<Rightarrow> process_loop lc rounds eh1)"

definition process :: "libc \<Rightarrow> (bool \<times> bool list) list \<Rightarrow> eventhandler \<Rightarrow> eventhandler option" where
  "process lc rounds eh =
     (case event_Open (eh_event eh) of (ok, pb) \<Rightarrow>
       (let eh1 = eh\<lparr>eh_event := pb\<rparr>;
            eh2 = (if ok then AnnounceStatus ''CONNECTED'' eh1 else eh1)
        in case process_loop lc rounds eh2 of
             None \<Rightarrow> None
           | Some eh3 \<Rightarrow> (let eh4 = AnnounceStatus ''STOPPED'' eh3
                          in Some (eh4\<lparr>eh_event := event_Close (eh_event eh4)\<rparr>))))"

section \<open>Starting and stopping\<close>

definition eh_Start :: "bool \<Rightarrow> eventhandler \<Rightarrow> bool \<times> eventhandler" where
  "eh_Start started eh = (if eh_running eh then (True, eh) else (started, eh\<lparr>eh_running := started\<rparr>))"

text \<open>\<open>Stop\<close> waits for the end of the thread.\<close>

definition eh_Stop :: "eventhandler \<Rightarrow> eventhandler" where
  "eh_Stop eh =
     (let eh1 = eh\<lparr>eh_running := False\<rparr>
      in if m_isOpen (eh_event eh1) then eh1\<lparr>eh_event := event_Close (eh_event eh1)\<rparr> else eh1)"

definition eh_Reset :: "eventhandler \<Rightarrow> eventhandler" where
  "eh_Reset eh = eh\<lparr>eh_reset := True\<rparr>"

definition HasStarted :: "eventhandler \<Rightarrow> bool" where "HasStarted eh = eh_running eh"

definition IsConnected :: "eventhandler \<Rightarrow> bool" where "IsConnected eh = m_isOpen (eh_event eh)"

section \<open>Lemmas on queues\<close>

definition queue_of :: "eventhandler \<Rightarrow> u32 \<Rightarrow> EventMessage list option" where
  "queue_of eh sid = map_option sub_queue (map_of (eh_subs eh) sid)"

text \<open>The keys are ordered and an event has each subscription at most once.\<close>

definition eh_ok :: "eventhandler \<Rightarrow> bool" where
  "eh_ok eh \<longleftrightarrow> sorted_wrt (<) (map fst (eh_subs eh)) \<and> (\<forall>ev. distinct (eh_byEvent eh ev))"

lemma map_insert_keys: "set (map fst (map_insert k v xs)) = insert k (set (map fst xs))"
  by (induction k v xs rule: map_insert.induct) auto

lemma map_insert_sorted:
  "sorted_wrt (<) (map fst xs) \<Longrightarrow> sorted_wrt (<) (map fst (map_insert k v xs))"
proof (induction k v xs rule: map_insert.induct)
  case (2 k v k1 v1 xs)
  then show ?case using map_insert_keys [of k v xs] by (auto simp del: set_map)
qed simp

lemma map_insert_of: "map_of (map_insert k v xs) j = (if map_of xs k = None \<and> j = k then Some v else map_of xs j)"
  if "sorted_wrt (<) (map fst xs)"
  using that
proof (induction k v xs rule: map_insert.induct)
  case (2 k v k1 v1 xs)
  have "map_of xs k = None" if "k < k1" using 2(2) that by (force simp: map_of_eq_None_iff)
  with 2 show ?case by auto
qed auto

lemma PostMessage_keys [simp]: "map fst (PostMessage msg sid subs) = map fst subs"
  by (auto simp: PostMessage_def)

lemma PostMessage_of: "map_of (PostMessage msg sid subs) j =
    map_option (\<lambda>s. if j = sid then s\<lparr>sub_queue := sub_queue s @ [msg]\<rparr> else s) (map_of subs j)"
  by (induction subs) (auto simp: PostMessage_def)

lemma fold_Post_keys [simp]: "map fst (fold (PostMessage msg) sids subs) = map fst subs"
  by (induction sids arbitrary: subs) auto

lemma fold_Post_of:
  "distinct sids \<Longrightarrow> map_of (fold (PostMessage msg) sids subs) j =
    map_option (\<lambda>s. if j \<in> set sids then s\<lparr>sub_queue := sub_queue s @ [msg]\<rparr> else s) (map_of subs j)"
proof (induction sids arbitrary: subs)
  case Nil
  then show ?case by (cases "map_of subs j") auto
next
  case (Cons a sids)
  then show ?case by (cases "map_of subs j") (auto simp: PostMessage_of)
qed

lemma DispatchEvent_ok: "eh_ok eh \<Longrightarrow> eh_ok (DispatchEvent msg eh)"
  by (auto simp: eh_ok_def DispatchEvent_def Let_def)

lemma DispatchEvent_queue:
  assumes "eh_ok eh"
  shows "queue_of (DispatchEvent msg eh) sid =
    map_option (\<lambda>q. if sid \<in> set (eh_byEvent eh (ev_event msg)) then q @ [msg] else q) (queue_of eh sid)"
proof -
  have "distinct (filter (\<lambda>sid. map_of (eh_subs eh) sid \<noteq> None) (eh_byEvent eh (ev_event msg)))"
    using assms by (simp add: eh_ok_def)
  from fold_Post_of [OF this] show ?thesis
    by (cases "map_of (eh_subs eh) sid") (auto simp: DispatchEvent_def queue_of_def Let_def)
qed

section \<open>Histories\<close>

datatype eh_op = EhCreate nat bool | EhSubscribe u32 EVENT_t | EhRevoke u32 | EhRevokeAll nat | EhDispatch EventMessage
  | EhTake u32 | EhReset | EhStart bool

fun eh_apply :: "eh_op \<Rightarrow> eventhandler \<Rightarrow> eventhandler" where
  "eh_apply (EhCreate sub started) eh = snd (CreateSubscription sub started eh)"
| "eh_apply (EhSubscribe sid ev) eh = snd (SubscribeForEvent sid ev eh)"
| "eh_apply (EhRevoke sid) eh = RevokeSubscription sid eh"
| "eh_apply (EhRevokeAll sub) eh = RevokeAllSubscriptions sub eh"
| "eh_apply (EhDispatch msg) eh = DispatchEvent msg eh"
| "eh_apply (EhTake sid) eh = snd (take_message sid eh)"
| "eh_apply EhReset eh = eh_Reset eh"
| "eh_apply (EhStart started) eh = snd (eh_Start started eh)"

definition handle_of :: "eventhandler \<Rightarrow> u32 \<Rightarrow> nat option" where
  "handle_of eh sid = map_option sub_handle (map_of (eh_subs eh) sid)"

definition events_of :: "eventhandler \<Rightarrow> u32 \<Rightarrow> EVENT_t set" where
  "events_of eh sid = {ev. sid \<in> set (eh_byEvent eh ev)}"

text \<open>An operation that leaves the subscription and its queue alone, but for posting.\<close>

definition spares :: "u32 \<Rightarrow> nat \<Rightarrow> eh_op \<Rightarrow> bool" where
  "spares sid sub op = (case op of EhRevoke k \<Rightarrow> k \<noteq> sid | EhRevokeAll h \<Rightarrow> h \<noteq> sub | EhTake k \<Rightarrow> k \<noteq> sid | _ \<Rightarrow> True)"

text \<open>What a subscription is to receive: the dispatched messages of the events it has subscribed to
  at that time.\<close>

fun received :: "u32 \<Rightarrow> EVENT_t set \<Rightarrow> eh_op list \<Rightarrow> EventMessage list" where
  "received sid evs [] = []"
| "received sid evs (EhSubscribe k ev # ops) = received sid (if k = sid then insert ev evs else evs) ops"
| "received sid evs (EhDispatch msg # ops) = (if ev_event msg \<in> evs then [msg] else []) @ received sid evs ops"
| "received sid evs (_ # ops) = received sid evs ops"

lemma filter_keys_of:
  "map_of (filter (\<lambda>(k, _). k \<noteq> j) xs) i = (if i = j then None else map_of xs i)"
  by (induction xs) auto

lemma filter_vals_of:
  "distinct (map fst xs) \<Longrightarrow> map_of (filter (\<lambda>(_, v). P v) xs) i = (case map_of xs i of Some v \<Rightarrow> if P v then Some v else None | None \<Rightarrow> None)"
  by (induction xs) (auto simp: map_of_eq_None_iff split: option.splits)

lemma sorted_wrt_distinct: "sorted_wrt (<) (xs :: 'a :: linorder list) \<Longrightarrow> distinct xs"
  by (induction xs) auto

lemma eh_ok_distinct: "eh_ok eh \<Longrightarrow> distinct (map fst (eh_subs eh))"
  by (simp add: eh_ok_def sorted_wrt_distinct)

lemma sorted_wrt_map_filter: "sorted_wrt R (map f xs) \<Longrightarrow> sorted_wrt R (map f (filter P xs))"
  by (induction xs) auto

lemma eh_apply_ok: "eh_ok eh \<Longrightarrow> eh_ok (eh_apply op eh)"
proof (cases op)
  case (EhTake sid)
  assume "eh_ok eh"
  moreover have "map fst (map (\<lambda>(k, x). if k = sid then (k, x\<lparr>sub_queue := ms\<rparr>) else (k, x)) (eh_subs eh)) = map fst (eh_subs eh)" for ms
    by auto
  ultimately show ?thesis using EhTake
    by (auto simp: take_message_def eh_ok_def simp del: map_map split: option.splits list.splits)
qed (auto simp: eh_ok_def CreateSubscription_def SubscribeForEvent_def RevokeSubscription_def RevokeAllSubscriptions_def
    DispatchEvent_ok [unfolded eh_ok_def] eh_Reset_def eh_Start_def Let_def map_insert_sorted sorted_wrt_map_filter)

lemma take_other: "k \<noteq> sid \<Longrightarrow> map_of (eh_subs (snd (take_message k eh))) sid = map_of (eh_subs eh) sid"
proof -
  assume "k \<noteq> sid"
  then have "map_of (map (\<lambda>(j, x). if j = k then (j, x\<lparr>sub_queue := ms\<rparr>) else (j, x)) xs) sid = map_of xs sid" for ms and xs :: "(u32 \<times> subscription) list"
    by (induction xs) auto
  then show ?thesis by (simp add: take_message_def split: option.splits list.splits)
qed

definition next_events :: "u32 \<Rightarrow> EVENT_t set \<Rightarrow> eh_op \<Rightarrow> EVENT_t set" where
  "next_events sid evs op = (case op of EhSubscribe k ev \<Rightarrow> if k = sid then insert ev evs else evs | _ \<Rightarrow> evs)"

lemma received_Cons: "received sid evs (op # ops) = received sid evs [op] @ received sid (next_events sid evs op) ops"
  by (cases op) (simp_all add: next_events_def)

lemma eh_apply_spares:
  assumes "eh_ok eh" "spares sid sub op" "map_of (eh_subs eh) sid = Some \<lparr>sub_handle = sub, sub_queue = q\<rparr>"
  shows "map_of (eh_subs (eh_apply op eh)) sid
      = Some \<lparr>sub_handle = sub, sub_queue = q @ received sid (events_of eh sid) [op]\<rparr>
    \<and> events_of (eh_apply op eh) sid = next_events sid (events_of eh sid) op"
proof (cases op)
  case (EhCreate h started)
  with assms show ?thesis
    by (auto simp: CreateSubscription_def Let_def map_insert_of eh_ok_def events_of_def next_events_def)
next
  case (EhSubscribe k ev)
  with assms show ?thesis
    by (auto simp: SubscribeForEvent_def events_of_def next_events_def)
next
  case (EhRevoke k)
  with assms show ?thesis
    by (simp add: RevokeSubscription_def filter_keys_of spares_def events_of_def next_events_def)
next
  case (EhRevokeAll h)
  with assms show ?thesis
    by (simp add: RevokeAllSubscriptions_def filter_vals_of eh_ok_distinct spares_def events_of_def next_events_def)
next
  case (EhDispatch msg)
  have "distinct (filter (\<lambda>sid. map_of (eh_subs eh) sid \<noteq> None) (eh_byEvent eh (ev_event msg)))"
    using assms(1) by (simp add: eh_ok_def)
  from fold_Post_of [OF this] assms(3) EhDispatch show ?thesis
    by (auto simp: DispatchEvent_def Let_def events_of_def next_events_def)
next
  case (EhTake k)
  with assms take_other [of k sid eh] show ?thesis
    by (auto simp: spares_def events_of_def next_events_def take_message_def split: option.splits list.splits)
qed (use assms in \<open>simp_all add: eh_Reset_def eh_Start_def events_of_def next_events_def\<close>)

lemma eh_run_received:
  "eh_ok eh \<Longrightarrow> list_all (spares sid sub) ops \<Longrightarrow> map_of (eh_subs eh) sid = Some \<lparr>sub_handle = sub, sub_queue = q\<rparr> \<Longrightarrow>
     eh_ok (fold eh_apply ops eh) \<and> map_of (eh_subs (fold eh_apply ops eh)) sid
       = Some \<lparr>sub_handle = sub, sub_queue = q @ received sid (events_of eh sid) ops\<rparr>"
proof (induction ops arbitrary: eh q)
  case (Cons op ops)
  from Cons.prems eh_apply_spares [of eh sid sub op q] have
    "map_of (eh_subs (eh_apply op eh)) sid = Some \<lparr>sub_handle = sub, sub_queue = q @ received sid (events_of eh sid) [op]\<rparr>"
    "events_of (eh_apply op eh) sid = next_events sid (events_of eh sid) op" by auto
  with Cons.IH [of "eh_apply op eh" "q @ received sid (events_of eh sid) [op]"] Cons.prems eh_apply_ok [of eh op]
  show ?case by (simp add: received_Cons [of sid "events_of eh sid" op ops])
qed simp

section \<open>Taking in turn\<close>

text \<open>The thread of a subscription hands out the messages in the order of the queue.\<close>

lemma take_message_first:
  assumes "map_of (eh_subs eh) sid = Some s" "sub_queue s = m # ms"
  shows "\<exists>eh'. take_message sid eh = (Some m, eh') \<and> queue_of eh' sid = Some ms"
proof -
  have "map_of (map (\<lambda>(k, x). if k = sid then (k, x\<lparr>sub_queue := ms\<rparr>) else (k, x)) xs) sid
      = map_option (\<lambda>x. x\<lparr>sub_queue := ms\<rparr>) (map_of xs sid)" for xs :: "(u32 \<times> subscription) list"
    by (induction xs) auto
  with assms show ?thesis by (simp add: take_message_def queue_of_def)
qed

section \<open>Connecting again\<close>

text \<open>When the loop ends without a stop, the connection is open; every failed attempt is followed by
  ten rounds without one.\<close>

lemma RetryConnect_open:
  "RetryConnect_loop obs c eh = Some eh' \<Longrightarrow> pb_ok (eh_event eh) \<Longrightarrow> True \<notin> set obs \<Longrightarrow>
     IsConnected eh' \<and> \<not> eh_reset eh' \<and> pb_ok (eh_event eh')"
proof (induction obs c eh rule: RetryConnect_loop.induct)
  case (2 stopped obs c eh)
  obtain ok pb where o: "event_Open (eh_event eh) = (ok, pb)" by force
  note post = event.opn_cases [OF 2(4) o]
  have a: "eh_event (AnnounceStatus st x) = eh_event x" for st x
    by (simp add: AnnounceStatus_def DispatchEvent_def Let_def)
  show ?case
  proof (cases "c - 1 < 0")
    case True
    then show ?thesis
      using 2(1) [of ok pb] 2(3,5) o post a
      by (cases ok) (auto simp: IsConnected_def)
  next
    case False
    then show ?thesis using 2(2-5) by auto
  qed
qed simp

section \<open>Properties\<close>


definition demo_handler :: eventhandler where
  "demo_handler = BasicEventHandler_new ''server'' (demo_pb 91 [])"

definition demo_signal :: EventMessage where
  "demo_signal = EventMessage_init\<lparr>ev_event := EVENT_SIGNAL, ev_subject := [''SIGNAL'', ''1'']\<rparr>"


text \<open>The number of a revoked subscription is given to the next subscriber, and the entries of the
  revoked one are still there: it receives events it has not subscribed to.\<close>

theorem subscription_number_reused:
  "queue_of (fold eh_apply [EhCreate 7 True, EhSubscribe 1 EVENT_SIGNAL, EhRevoke 1, EhCreate 8 True, EhDispatch demo_signal]
       demo_handler) 1 = Some [demo_signal]
   \<and> handle_of (fold eh_apply [EhCreate 7 True, EhSubscribe 1 EVENT_SIGNAL, EhRevoke 1, EhCreate 8 True, EhDispatch demo_signal]
       demo_handler) 1 = Some 8"
  by (simp add: demo_handler_def BasicEventHandler_new_def CreateSubscription_def SubscribeForEvent_def RevokeSubscription_def
      DispatchEvent_def PostMessage_def queue_of_def handle_of_def demo_signal_def)

end
