(* ===== verification/RecordingPlayback.thy ===== *)
theory RecordingPlayback
  imports FilePlayback EventHandler CTime
begin

text \<open>
  Playback of a recording (\<open>mythrecordingplayback.cpp\<close>): like the playback of a file, with the
  buffered reader in front of the transfer, and with a subscription to the events that announce
  that the file of a running recording has grown. As in \<open>FilePlayback\<close> the object that the
  constructor of a transfer makes is an argument, and the object of the base class is a field.
\<close>

section \<open>State and operations\<close>

record recplayback =
  rp_base :: protobase
  rp_handler :: eventhandler
  rp_subid :: u32
  rp_transfer :: "transfer option"
  rp_recording :: "Program option"
  rp_readAhead :: bool
  rp_chunk :: nat
  rp_buffer :: rdbuffer

definition MYTH_RECORDING_CHUNK_SIZE :: nat where "MYTH_RECORDING_CHUNK_SIZE = 262000"
definition MYTH_RECORDING_CHUNK_MIN :: nat where "MYTH_RECORDING_CHUNK_MIN = 8000"
definition MYTH_RECORDING_CHUNK_MAX :: nat where "MYTH_RECORDING_CHUNK_MAX = 524000"

text \<open>\<open>started\<close>: whether the system can start the thread of the handler.\<close>

definition rp_Open :: "bool \<Rightarrow> recplayback \<Rightarrow> bool \<times> recplayback" where
  "rp_Open started rp =
     (case playback_IsOpen (rp_base rp) of (opened, pb1) \<Rightarrow>
       (if opened then (True, rp\<lparr>rp_base := pb1\<rparr>)
        else case playback_Open pb1 of (ok, pb2) \<Rightarrow>
          (if ok
           then (True, rp\<lparr>rp_base := pb2,
                   rp_handler := (if HasStarted (rp_handler rp) then rp_handler rp
                                  else snd (eh_Start started (rp_handler rp)))\<rparr>)
           else (False, rp\<lparr>rp_base := pb2\<rparr>))))"

definition RecordingPlayback_new :: "nat \<Rightarrow> bool \<Rightarrow> bool \<Rightarrow> eventhandler \<Rightarrow> protobase \<Rightarrow> recplayback" where
  "RecordingPlayback_new self sub_started started handler pb =
     (case CreateSubscription self sub_started handler of (sid, eh1) \<Rightarrow>
       (let eh2 = snd (SubscribeForEvent sid EVENT_UPDATE_FILE_SIZE eh1)
        in snd (rp_Open started
             \<lparr>rp_base = pb, rp_handler = eh2, rp_subid = sid, rp_transfer = None, rp_recording = None,
              rp_readAhead = False, rp_chunk = MYTH_RECORDING_CHUNK_SIZE, rp_buffer = rdbuffer_new\<rparr>)))"

definition rp_CloseTransfer :: "recplayback \<Rightarrow> recplayback" where
  "rp_CloseTransfer rp =
     (let rp1 = rp\<lparr>rp_recording := None\<rparr> in
      case rp_transfer rp1 of
        None \<Rightarrow> rp1
      | Some t \<Rightarrow> rp1\<lparr>rp_base := TransferDone75 t (rp_base rp1), rp_transfer := None\<rparr>)"

definition rp_Close :: "recplayback \<Rightarrow> recplayback" where
  "rp_Close rp = (let rp1 = rp_CloseTransfer rp in rp1\<lparr>rp_base := playback_Close (rp_base rp1)\<rparr>)"

definition rp_OpenTransfer :: "protobase \<Rightarrow> Program option \<Rightarrow> recplayback \<Rightarrow> bool \<times> recplayback" where
  "rp_OpenTransfer conn rec rp =
     (case playback_IsOpen (rp_base rp) of (opened, pb1) \<Rightarrow>
       (if \<not> opened then (False, rp\<lparr>rp_base := pb1\<rparr>)
        else let rp1 = rp_CloseTransfer (rp\<lparr>rp_base := pb1\<rparr>) in
          case rec of
            None \<Rightarrow> (False, rp1)
          | Some r \<Rightarrow>
              (case transfer_Open (ProtoTransfer_new conn (fileName r) (storageGroup (recording r))) of
                 (ok, t) \<Rightarrow>
                   (if ok
                    then (True, rp1\<lparr>rp_transfer := Some t, rp_recording := Some (r\<lparr>fileSize := GetSize t\<rparr>)\<rparr>)
                    else (False, rp1)))))"

definition rp_TransferIsOpen :: "recplayback \<Rightarrow> bool \<times> recplayback" where
  "rp_TransferIsOpen rp =
     (case rp_transfer rp of
        None \<Rightarrow> (False, rp)
      | Some t \<Rightarrow> (case TransferIsOpen75 t (rp_base rp) of (ok, pb) \<Rightarrow> (ok, rp\<lparr>rp_base := pb\<rparr>)))"

definition rp_SetChunk :: "nat \<Rightarrow> recplayback \<Rightarrow> recplayback" where
  "rp_SetChunk sz rp =
     rp\<lparr>rp_chunk := (if sz < MYTH_RECORDING_CHUNK_MIN then MYTH_RECORDING_CHUNK_MIN
                     else if sz > MYTH_RECORDING_CHUNK_MAX then MYTH_RECORDING_CHUNK_MAX else sz)\<rparr>"

definition rp_GetSize :: "recplayback \<Rightarrow> i64" where
  "rp_GetSize rp = (case rp_transfer rp of None \<Rightarrow> 0 | Some t \<Rightarrow> GetSize t)"

text \<open>\<open>_read\<close>: while the file may still grow, blocks are asked for beyond the known size.\<close>

definition rp_read :: "poll2 list \<Rightarrow> nat \<Rightarrow> recplayback \<Rightarrow> (int \<times> bytes \<times> recplayback) option" where
  "rp_read evs n rp =
     (case rp_transfer rp of
        None \<Rightarrow> Some (-1, [], rp)
      | Some t \<Rightarrow>
          (let s = sint (GetRemaining t);
               request = (\<lambda>k. map_option (\<lambda>(r, out, t1, pb1). (r, out, rp\<lparr>rp_transfer := Some t1, rp_base := pb1\<rparr>))
                                (TransferRequestBlock evs k t (rp_base rp)))
           in if \<not> rp_readAhead rp
              then (if s > 0 then request (if s < int n then nat s else n) else Some (0, [], rp))
              else request n))"

definition rp_Read :: "(nat \<Rightarrow> bytes) \<Rightarrow> poll2 list \<Rightarrow> nat \<Rightarrow> recplayback \<Rightarrow> (int \<times> bytes \<times> recplayback) option" where
  "rp_Read junk evs n rp =
     map_option (\<lambda>(r, out, b, rp1). (r, out, rp1\<lparr>rp_buffer := b\<rparr>))
       (buffered_Read (rp_read evs) junk (rp_chunk rp) n (rp_buffer rp, rp))"

definition rp_seek :: "i64 \<Rightarrow> WHENCE_t \<Rightarrow> recplayback \<Rightarrow> i64 \<times> recplayback" where
  "rp_seek offset whence rp =
     (case rp_transfer rp of
        None \<Rightarrow> (-1, rp)
      | Some t \<Rightarrow>
          (case TransferSeek75 offset whence t (rp_base rp) of
             (r, t1, pb1) \<Rightarrow> (r, rp\<lparr>rp_transfer := Some t1, rp_base := pb1\<rparr>)))"

definition rp_Seek :: "i64 \<Rightarrow> WHENCE_t \<Rightarrow> recplayback \<Rightarrow> i64 \<times> recplayback" where
  "rp_Seek offset whence rp =
     (let unread = ucast (buffer_unread (rp_buffer rp)) :: i64 in
      if whence = WHENCE_CUR \<and> offset = 0
      then (case rp_seek offset whence rp of
              (p, rp1) \<Rightarrow> (if sint p \<ge> sint unread then p - unread else p, rp1))
      else rp_seek (if whence = WHENCE_CUR then offset - unread else offset) whence
             (rp\<lparr>rp_buffer := buffer_clear (rp_buffer rp)\<rparr>))"

definition rp_GetPosition :: "recplayback \<Rightarrow> i64" where
  "rp_GetPosition rp =
     (case rp_transfer rp of
        None \<Rightarrow> 0
      | Some t \<Rightarrow> GetPosition t - ucast (buffer_unread (rp_buffer rp)))"

text \<open>The new size of an event that carries the key of the recording.\<close>

definition file_size_event :: "zone \<Rightarrow> string list \<Rightarrow> Program \<Rightarrow> i64 option" where
  "file_size_event z subject r =
     (if length subject \<ge> 4
      then (case string_to_uint32 (c_str (subject ! 1)) of
              Inl _ \<Rightarrow> None
            | Inr chanid \<Rightarrow>
                (case string_to_time z (cstr (subject ! 2)) of
                   Inl _ \<Rightarrow> None
                 | Inr startts \<Rightarrow>
                     (if chanId (channel r) \<noteq> chanid \<or> startTs (recording r) \<noteq> startts then None
                      else case string_to_int64 (c_str (subject ! 3)) of Inl _ \<Rightarrow> None | Inr newsize \<Rightarrow> Some newsize)))
      else (case string_to_uint32 (c_str (subject ! 1)) of
              Inl _ \<Rightarrow> None
            | Inr recordedid \<Rightarrow>
                (if recordedId (recording r) \<noteq> recordedid then None
                 else case string_to_int64 (c_str (subject ! 2)) of Inl _ \<Rightarrow> None | Inr newsize \<Rightarrow> Some newsize)))"

definition rp_HandleBackendMessage :: "zone \<Rightarrow> EventMessage \<Rightarrow> recplayback \<Rightarrow> recplayback" where
  "rp_HandleBackendMessage z msg rp =
     (case (rp_recording rp, rp_transfer rp) of
        (Some r, Some t) \<Rightarrow>
          (if ev_event msg = EVENT_UPDATE_FILE_SIZE \<and> length (ev_subject msg) \<ge> 3
           then (case file_size_event z (ev_subject msg) r of
                   None \<Rightarrow> rp
                 | Some newsize \<Rightarrow>
                     rp\<lparr>rp_readAhead := True, rp_transfer := Some (SetSize newsize t),
                        rp_recording := Some (r\<lparr>fileSize := newsize\<rparr>)\<rparr>)
           else rp)
      | _ \<Rightarrow> rp)"

section \<open>A recording is a stream\<close>

definition rp_upcoming :: "recplayback \<Rightarrow> bytes" where
  "rp_upcoming rp = (case rp_transfer rp of None \<Rightarrow> [] | Some t \<Rightarrow> transfer_flow t)"

definition rp_fetched :: "recplayback \<Rightarrow> i64" where
  "rp_fetched rp = (case rp_transfer rp of None \<Rightarrow> 0 | Some t \<Rightarrow> GetPosition t)"

definition rp_ready :: "recplayback \<Rightarrow> bool" where
  "rp_ready rp \<longleftrightarrow> rp_transfer rp \<noteq> None \<and> rp_chunk rp \<le> MYTH_RECORDING_CHUNK_MAX"

lemma rp_read_cases:
  assumes "rp_read evs n rp = Some (r, out, rp')"
  obtains (none) "out = []" "rp' = rp" "r \<le> 0"
  | (block) t t' pb' k where "rp_transfer rp = Some t" "k \<le> n"
      "TransferRequestBlock evs k t (rp_base rp) = Some (r, out, t', pb')"
      "rp' = rp\<lparr>rp_transfer := Some t', rp_base := pb'\<rparr>"
proof (cases "rp_transfer rp")
  case None
  with assms none show thesis by (simp add: rp_read_def)
next
  case (Some t)
  define s where "s = sint (GetRemaining t)"
  define k where "k = (if rp_readAhead rp then n else if s < int n then nat s else n)"
  show thesis
  proof (cases "\<not> rp_readAhead rp \<and> s \<le> 0")
    case True
    with Some assms none show thesis by (auto simp: rp_read_def s_def Let_def)
  next
    case False
    with Some assms obtain t' pb' where "TransferRequestBlock evs k t (rp_base rp) = Some (r, out, t', pb')"
      "rp' = rp\<lparr>rp_transfer := Some t', rp_base := pb'\<rparr>"
      by (auto simp: rp_read_def k_def s_def [symmetric] Let_def split: if_splits)
    moreover have "k \<le> n" by (auto simp: k_def)
    ultimately show thesis using block Some by blast
  qed
qed

lemma rp_read_kept:
  assumes "rp_read evs n rp = Some (r, out, rp')"
  shows "rp_buffer rp' = rp_buffer rp" "rp_chunk rp' = rp_chunk rp" "rp_recording rp' = rp_recording rp"
    "rp_transfer rp' = None \<longleftrightarrow> rp_transfer rp = None"
  using assms by (cases rule: rp_read_cases; simp)+

interpretation recordings: chunked_reader rp_ready rp_upcoming rp_fetched rp_read rp_chunk junk for junk
proof unfold_locales
  fix rp evs n r out rp'
  assume rdy: "rp_ready rp" and rd: "rp_read evs n rp = Some (r, out, rp')"
  have "rp_ready rp'" using rdy rp_read_kept [OF rd] by (simp add: rp_ready_def)
  moreover from rd have "length out \<le> n \<and> (0 \<le> r \<longrightarrow> r = int (length out)) \<and> rp_upcoming rp = out @ rp_upcoming rp'
      \<and> rp_fetched rp' = rp_fetched rp + of_nat (length out)"
  proof (cases rule: rp_read_cases)
    case (block t t' pb' k)
    from TransferRequestBlock_spec [OF block(3)] block(1,2,4) show ?thesis
      by (auto simp: rp_upcoming_def rp_fetched_def)
  qed auto
  ultimately show "rp_ready rp' \<and> length out \<le> n \<and> (0 \<le> r \<longrightarrow> r = int (length out)) \<and> rp_upcoming rp = out @ rp_upcoming rp'
      \<and> rp_fetched rp' = rp_fetched rp + of_nat (length out)" by blast
next
  fix rp assume "rp_ready rp"
  then show "rp_chunk rp < 2 ^ 32" by (simp add: rp_ready_def MYTH_RECORDING_CHUNK_MAX_def)
qed

definition rp_ok :: "recplayback \<Rightarrow> bool" where
  "rp_ok rp \<longleftrightarrow> rp_ready rp \<and> buffer_ok (rp_buffer rp)"

definition rp_contents :: "recplayback \<Rightarrow> bytes" where
  "rp_contents rp = buffer_rest (rp_buffer rp) @ rp_upcoming rp"

lemma rp_GetPosition_eq: "rp_ready rp \<Longrightarrow> rp_GetPosition rp = buffered_position (rp_fetched rp) (rp_buffer rp)"
  by (auto simp: rp_ready_def rp_GetPosition_def rp_fetched_def buffered_position_def)

lemma rp_buffer_irrelevant [simp]:
  "rp_ready (rp\<lparr>rp_buffer := b\<rparr>) = rp_ready rp" "rp_upcoming (rp\<lparr>rp_buffer := b\<rparr>) = rp_upcoming rp"
  "rp_fetched (rp\<lparr>rp_buffer := b\<rparr>) = rp_fetched rp"
  by (simp_all add: rp_ready_def rp_upcoming_def rp_fetched_def)

interpretation recording: stream rp_ok rp_contents rp_GetPosition "rp_Read junk" for junk
proof unfold_locales
  fix rp evs n r out rp'
  assume ok: "rp_ok rp" and rd: "rp_Read junk evs n rp = Some (r, out, rp')"
  from rd obtain b rp1 where
    b: "buffered_Read (rp_read evs) junk (rp_chunk rp) n (rp_buffer rp, rp) = Some (r, out, b, rp1)" and rp': "rp' = rp1\<lparr>rp_buffer := b\<rparr>"
    by (auto simp: rp_Read_def)
  from recordings.buffered.read_law [of "(rp_buffer rp, rp)" junk evs n r out "(b, rp1)"] ok b
  show "rp_ok rp' \<and> length out \<le> n \<and> (\<exists>skip. rp_contents rp = out @ skip @ rp_contents rp'
      \<and> rp_GetPosition rp' = rp_GetPosition rp + of_nat (length out + length skip)
      \<and> (0 \<le> r \<longrightarrow> r = int (length out) \<and> skip = []))"
    by (auto simp: rp_ok_def buffered_step_def rp' rp_contents_def rp_GetPosition_eq)
qed

section \<open>Seeking\<close>

lemma rotate_same [simp]: "rotate k (replicate n x) = replicate n x"
  by (rule nth_equalityI) (simp_all add: nth_rotate)

lemma ring_clear_inv: "ring_inv cap rb \<Longrightarrow> ring_inv cap (rb_clear rb) \<and> ring_items (rb_clear rb) = []"
  by (auto simp: ring_inv_def ring_items_def rb_clear_def rb_wf_def in_order_def pending_def capacity_def Let_def)

lemma buffer_clear_ok:
  assumes "buffer_ok b"
  shows "buffer_ok (buffer_clear b)" "buffer_rest (buffer_clear b) = []"
proof -
  have "ring_inv BUFFER_CAPACITY (rbuf b\<lparr>m_pool := x\<rparr>)" for x using assms by (simp add: buffer_ok_def)
  from ring_clear_inv [OF this] ring_clear_inv [of BUFFER_CAPACITY "rbuf b"] assms
  show "buffer_ok (buffer_clear b)" "buffer_rest (buffer_clear b) = []"
    by (auto simp: buffer_ok_def buffer_rest_def buffer_clear_def freePacket_def split: option.splits)
qed

lemma buffer_empty_position [simp]: "buffer_ok b \<Longrightarrow> buffer_rest b = [] \<Longrightarrow> ucast (buffer_unread b) = (0 :: i64)"
  using buffer_unread_rest(1) [of b] by simp

lemma TransferSeek75_result:
  "TransferSeek75 offset whence t pb = (r, t', pb') \<Longrightarrow> r \<noteq> -1 \<Longrightarrow> GetPosition t' = r"
  by (auto simp: TransferSeek75_def seek_check_def Let_def GetPosition_def SetPosition_def
      split: sum.splits if_splits WHENCE_t.splits prod.splits option.splits)

lemma TransferSeek75_rejected:
  "seek_check t offset whence = Inl r \<Longrightarrow> TransferSeek75 offset whence t pb = (r, t, pb)"
  by (simp add: TransferSeek75_def)

lemma rp_seek_spec:
  assumes "rp_seek offset whence rp = (r, rp')" "rp_ready rp"
  shows "rp_ready rp'" "rp_buffer rp' = rp_buffer rp" "r \<noteq> -1 \<Longrightarrow> rp_fetched rp' = r"
  using assms by (auto simp: rp_seek_def rp_ready_def rp_fetched_def split: option.splits prod.splits dest: TransferSeek75_result)

lemma rp_seek_tell:
  assumes "rp_ready rp"
  shows "rp_seek 0 WHENCE_CUR rp = (rp_fetched rp, rp)"
proof -
  obtain t where t: "rp_transfer rp = Some t" using assms by (auto simp: rp_ready_def)
  have "TransferSeek75 0 WHENCE_CUR t (rp_base rp) = (GetPosition t, t, rp_base rp)"
    by (simp add: TransferSeek75_def seek_check_def)
  with t show ?thesis by (simp add: rp_seek_def rp_fetched_def)
qed

section \<open>Properties\<close>

text \<open>C18: Reading a recording in pieces of any size, with any size of the chunks that are fetched, whatever
  the connections do: what is delivered are the next bytes, in order and without a gap, first the
  buffered ones and then those of the transfer; the position that the object reports is the one before plus
  their number, although more bytes have been fetched; and every call returns as long as the requests
  for blocks return.\<close>

theorem recording_reads_in_order:
  assumes "rp_ok rp" "read_seq (rp_Read junk) qs rp = Some (bs, fine, rp')"
  shows "\<exists>skip. rp_contents rp = bs @ skip @ rp_contents rp'
      \<and> rp_GetPosition rp' = rp_GetPosition rp + of_nat (length bs + length skip) \<and> (fine \<longrightarrow> skip = [])"
  using recording.read_seq_law [OF assms] by blast

definition demo_recplayback :: "bytes \<Rightarrow> recplayback" where
  "demo_recplayback b = \<lparr>rp_base = demo_pb 91 [], rp_handler = demo_handler, rp_subid = 1,
     rp_transfer = Some (demo_transfer b), rp_recording = Some Program_init, rp_readAhead = False, rp_chunk = 3,
     rp_buffer = rdbuffer_new\<rparr>"

lemma rdbuffer_new_ok: "buffer_ok rdbuffer_new" "buffer_rest rdbuffer_new = []"
  using ring_inv_new [of BUFFER_CAPACITY] by (simp_all add: rdbuffer_new_def buffer_ok_def buffer_rest_def BUFFER_CAPACITY_def)

lemma demo_recplayback_ok: "rp_ok (demo_recplayback b)"
  by (simp add: rp_ok_def rp_ready_def demo_recplayback_def rdbuffer_new_ok MYTH_RECORDING_CHUNK_MAX_def)

lemma demo_recplayback_position: "rp_GetPosition (demo_recplayback b) = 10"
  using rdbuffer_new_ok
  by (simp add: rp_GetPosition_def demo_recplayback_def GetPosition_def)

theorem recording_reads_in_order_witness:
  "\<exists>rp'. read_seq (rp_Read (\<lambda>_. [])) [([PollReady RevIn RevNone, PollNone], 2), ([], 1)] (demo_recplayback ''abc'')
     = Some (''abc'', True, rp') \<and> rp_GetPosition rp' = 13"
proof -
  let ?q = "[([PollReady RevIn RevNone, PollNone], 2), ([], 1)]"
  have v: "IsValid (demo_socket x)" for x by (simp add: IsValid_def)
  have d: "sock (demo_pb 91 []) = demo_socket []" by (simp add: demo_pb_def)
  have rb2: "replicate 2 None = [None, None]" by (simp add: numeral_2_eq_2)
  have rl: "read_loop 2 f j c n x = read_loop (Suc (Suc 0)) f j c n x"
    for f :: "nat \<Rightarrow> recplayback \<Rightarrow> (int \<times> bytes \<times> recplayback) option" and j c n x
    by (simp add: numeral_2_eq_2)
  obtain rp' where e: "read_seq (rp_Read (\<lambda>_. [])) ?q (demo_recplayback ''abc'') = Some (''abc'', True, rp')"
    by (simp add: rp_Read_def rp_read_def demo_recplayback_def GetRemaining_def TransferRequestBlock_def v d block_start_def
        PROTO_TRANSFER_RCVBUF_def GetPosition_def GetRequested_def block_continues_def block_step_def block_data_def
        block_feedback_def recv_rx_def block_finish_def SetPosition_def Let_def IsValid_def
        buffered_Read_def rl next_packet_def rdbuffer_new_def RingBuffer_new_def BUFFER_CAPACITY_def rb_read_def
        newPacket_def needPacket_def RingBufferPacket_new_def store_def writePacket_def freePacket_def take_bytes_def
        next_chunk_def capacity_def rb2)
  from recording_reads_in_order [OF demo_recplayback_ok e] have "rp_GetPosition rp' = 13"
    by (simp add: demo_recplayback_position)
  with e show ?thesis by blast
qed

text \<open>A read returns whenever the request for the block does, and with buffered bytes it
  returns some of them without asking the server.\<close>

theorem recording_read_returns:
  assumes "rp_ok rp" "n < 2 ^ 31" "cur_packet (rp_buffer rp) = None \<longrightarrow> rp_read evs (rp_chunk rp) rp \<noteq> None"
  shows "rp_Read junk evs n rp \<noteq> None"
  using recordings.buffered_Read_returns [of "rp_buffer rp" rp "rp_chunk rp" n evs junk] assms recordings.chunk_bound
  by (auto simp: rp_Read_def rp_ok_def)

text \<open>Seeking and telling. A seek that succeeds drops the buffered bytes and the object is at the position that it
  returned; asking for the position (offset 0 from the current one) returns what \<open>GetPosition\<close> returns and changes nothing;
  a relative seek starts from the position the reader sees, not from the one that was fetched.\<close>

theorem recording_seek:
  assumes "rp_ok rp" "rp_Seek offset whence rp = (r, rp')" "int (length (buffer_rest (rp_buffer rp))) \<le> sint (rp_fetched rp)"
  shows "(if whence = WHENCE_CUR \<and> offset = 0 then r = rp_GetPosition rp \<and> rp' = rp
      else rp_ok rp' \<and> buffer_rest (rp_buffer rp') = [] \<and> (r \<noteq> -1 \<longrightarrow> rp_GetPosition rp' = r))"
proof (cases "whence = WHENCE_CUR \<and> offset = 0")
  case True
  have rdy: "rp_ready rp" "buffer_ok (rp_buffer rp)" using assms(1) by (simp_all add: rp_ok_def)
  define u :: i64 where "u = ucast (buffer_unread (rp_buffer rp))"
  have "sint u = int (length (buffer_rest (rp_buffer rp)))"
    using buffered_position_rest [OF rdy(2), of 0] buffer_unread_rest(2) [OF rdy(2)]
    by (simp add: u_def buffered_position_def signed_of_nat signed_take_bit_int_eq_self)
  moreover have "rp_GetPosition rp = rp_fetched rp - u"
    by (simp add: rp_GetPosition_eq [OF rdy(1)] buffered_position_def u_def)
  ultimately show ?thesis using True assms(2,3) rp_seek_tell [OF rdy(1)]
    by (auto simp: rp_Seek_def Let_def simp flip: u_def)
next
  case False
  let ?rp = "rp\<lparr>rp_buffer := buffer_clear (rp_buffer rp)\<rparr>"
  have ok: "rp_ready ?rp" "buffer_ok (rp_buffer ?rp)" "buffer_rest (rp_buffer ?rp) = []"
    using assms(1) buffer_clear_ok [of "rp_buffer rp"] by (simp_all add: rp_ok_def)
  obtain off where s: "rp_seek off whence ?rp = (r, rp')" using assms(2) False by (auto simp: rp_Seek_def Let_def split: if_splits)
  note sp = rp_seek_spec [OF s ok(1)]
  have "rp_GetPosition rp' = rp_fetched rp'"
    using sp(1,2) ok by (simp add: rp_GetPosition_eq buffered_position_def)
  with False sp ok show ?thesis by (auto simp: rp_ok_def)
qed

text \<open>A seek that is refused has already thrown away the buffered bytes: the position jumps forward over them and
  the next read does not deliver them.\<close>

theorem recording_failed_seek:
  assumes "rp_ok rp" "rp_transfer rp = Some t" "whence \<noteq> WHENCE_CUR" "seek_check t offset whence = Inl (-1)"
  shows "\<exists>rp'. rp_Seek offset whence rp = (-1, rp')
    \<and> rp_GetPosition rp' = rp_GetPosition rp + of_nat (length (buffer_rest (rp_buffer rp)))
    \<and> rp_contents rp' = drop (length (buffer_rest (rp_buffer rp))) (rp_contents rp)"
proof -
  let ?rp = "rp\<lparr>rp_buffer := buffer_clear (rp_buffer rp)\<rparr>"
  have "rp_Seek offset whence rp = (-1, ?rp)"
    using assms(2-4) by (simp add: rp_Seek_def rp_seek_def TransferSeek75_rejected Let_def)
  moreover have "rp_GetPosition ?rp = rp_GetPosition rp + of_nat (length (buffer_rest (rp_buffer rp)))"
    "rp_contents ?rp = drop (length (buffer_rest (rp_buffer rp))) (rp_contents rp)"
    using assms(1) buffer_clear_ok [of "rp_buffer rp"]
    by (simp_all add: rp_GetPosition_eq rp_ok_def buffered_position_rest rp_contents_def)
  ultimately show ?thesis by blast
qed

text \<open>The buffer belongs to no transfer: closing one and opening another leaves the bytes of the old one in the
  buffer, and the mark that its file may grow stays too.\<close>

theorem recording_stale_buffer:
  "rp_buffer (snd (rp_OpenTransfer conn rec rp)) = rp_buffer rp \<and> rp_buffer (rp_CloseTransfer rp) = rp_buffer rp
   \<and> rp_readAhead (snd (rp_OpenTransfer conn rec rp)) = rp_readAhead rp"
  by (simp add: rp_OpenTransfer_def rp_CloseTransfer_def Let_def split: prod.splits option.splits)

text \<open>An event with the channel and the start of the recording that is being played changes the size to the announced one
  and allows reading ahead; an event of another recording changes nothing. The bytes to come and the position are not touched.\<close>

theorem recording_file_grows:
  assumes "rp_recording rp = Some r" "rp_transfer rp = Some t" "sint sz \<noteq> - (2 ^ 63)"
    "string_to_time z (cstr stamp) = Inr ts"
  shows "let rp' = rp_HandleBackendMessage z (EventMessage_init\<lparr>ev_event := EVENT_UPDATE_FILE_SIZE,
             ev_subject := [''UPDATE_FILE_SIZE'', uint32_to_string cid, stamp, int64_to_string sz]\<rparr>) rp in
    (if cid = chanId (channel r) \<and> ts = startTs (recording r)
     then rp_GetSize rp' = sz \<and> rp_readAhead rp' \<and> rp_recording rp' = Some (r\<lparr>fileSize := sz\<rparr>)
     else rp' = rp) \<and> rp_contents rp' = rp_contents rp \<and> rp_GetPosition rp' = rp_GetPosition rp"
proof -
  have "file_size_event z [''UPDATE_FILE_SIZE'', uint32_to_string cid, stamp, int64_to_string sz] r
      = (if cid = chanId (channel r) \<and> ts = startTs (recording r) then Some sz else None)"
    using assms(3,4) by (auto simp: file_size_event_def numeric_simps)
  then show ?thesis using assms(1,2)
    by (auto simp: rp_HandleBackendMessage_def EventMessage_init_def Let_def rp_GetSize_def GetSize_def SetSize_def
        rp_contents_def rp_upcoming_def transfer_flow_def rp_GetPosition_def GetPosition_def)
qed

theorem recording_seek_witness:
  "\<exists>rp'. rp_Seek 0 WHENCE_CUR (demo_recplayback []) = (10, rp') \<and> rp' = demo_recplayback []"
proof -
  have "int (length (buffer_rest (rp_buffer (demo_recplayback [])))) \<le> sint (rp_fetched (demo_recplayback []))"
    by (simp add: demo_recplayback_def rdbuffer_new_ok rp_fetched_def GetPosition_def)
  from recording_seek [OF demo_recplayback_ok prod.collapse [symmetric] this, where offset = 0 and whence = WHENCE_CUR] show ?thesis
    by (simp add: demo_recplayback_position prod_eq_iff)
qed

theorem recording_file_grows_witness:
  "let rp = rp_HandleBackendMessage \<lparr>localtime_r = gmtime_r, mktime = timegm\<rparr> (EventMessage_init\<lparr>ev_event := EVENT_UPDATE_FILE_SIZE,
             ev_subject := [''UPDATE_FILE_SIZE'', uint32_to_string 0, [], int64_to_string 5000]\<rparr>) (demo_recplayback [])
   in rp_GetSize rp = 5000 \<and> rp_GetPosition rp = 10"
  using recording_file_grows [of "demo_recplayback []" Program_init "demo_transfer []" 5000 "\<lparr>localtime_r = gmtime_r, mktime = timegm\<rparr>" "[]" 0 0]
    demo_recplayback_position [of "[]"]
  by (simp add: demo_recplayback_def string_to_time_def Let_def Program_init_def Channel_init_def Recording_init_def)

end
