(* ===== verification/LiveTV.thy ===== *)
theory LiveTV
  imports ProtoMonitor RecordingPlayback
begin

text \<open>
  Live TV (\<open>mythlivetvplayback.cpp\<close>). The recorder writes one file after the other; the object keeps
  the chain of their transfers, learns of new files by events, and reads through the chain as one
  stream. It combines the monitor connection (its base class, the field \<open>lt_mon\<close>), the connection
  to the recorder, the transfers, the event handler and the buffered reader.

  The pointer \<open>currentTransfer\<close> is set together with \<open>currentSequence\<close> and refers to the object of
  that position in the chain, so the position alone is kept; it is null when the position is 0.
  The connections that the constructors of transfers and recorders will make are the list
  \<open>lt_conns\<close>, in the order of the calls. A method runs under the latch; where the code releases it
  to wait, the messages that the event thread handles in between are an argument.
\<close>

section \<open>State\<close>

record livetv =
  lt_mon :: monitor
  lt_handler :: eventhandler
  lt_subid :: u32
  lt_tuneDelay :: nat
  lt_limitTuneAttempts :: bool
  lt_recorder :: "recorder option"
  lt_signal :: "SignalStatus option"
  ch_UID :: string
  ch_chained :: "(transfer \<times> Program) list"
  ch_current :: nat
  ch_last :: nat
  ch_watch :: bool
  ch_switchOnCreate :: bool
  lt_chunk :: nat
  lt_buffer :: rdbuffer
  lt_conns :: "protobase list"

definition MIN_TUNE_DELAY :: nat where "MIN_TUNE_DELAY = 5"
definition MAX_TUNE_DELAY :: nat where "MAX_TUNE_DELAY = 60"
definition MYTH_LIVETV_CHUNK_SIZE :: nat where "MYTH_LIVETV_CHUNK_SIZE = 262000"
definition MYTH_LIVETV_CHUNK_MIN :: nat where "MYTH_LIVETV_CHUNK_MIN = 8000"
definition MYTH_LIVETV_CHUNK_MAX :: nat where "MYTH_LIVETV_CHUNK_MAX = 524000"

definition new_conn :: "string \<Rightarrow> nat \<Rightarrow> livetv \<Rightarrow> protobase \<times> livetv" where
  "new_conn server port lt =
     (case lt_conns lt of
        [] \<Rightarrow> (ProtoBase_new [] [] server port 0 [], lt)
      | c # cs \<Rightarrow> (c\<lparr>m_server := server, m_port := port\<rparr>, lt\<lparr>lt_conns := cs\<rparr>))"

section \<open>Opening and closing\<close>

text \<open>\<open>meanwhile\<close> is what the thread of the handler does during the wait for its connection.\<close>

definition lt_Open :: "bool \<Rightarrow> (eventhandler \<Rightarrow> eventhandler) \<Rightarrow> livetv \<Rightarrow> bool \<times> livetv" where
  "lt_Open started meanwhile lt =
     (case monitor_IsOpen (lt_mon lt) of (opened, m1) \<Rightarrow>
       (if opened then (True, lt\<lparr>lt_mon := m1\<rparr>)
        else case monitor_Open m1 of (ok, m2) \<Rightarrow>
          (if ok
           then (True, lt\<lparr>lt_mon := m2,
                   lt_handler := (if HasStarted (lt_handler lt) then lt_handler lt
                                  else meanwhile (snd (eh_Start started (lt_handler lt))))\<rparr>)
           else (False, lt\<lparr>lt_mon := m2\<rparr>))))"

text \<open>The constructor; \<open>limit\<close> is the initial value of \<open>m_limitTuneAttempts\<close>: true when a handler is
  given, and not determined when the object makes its own, since that constructor leaves it out.\<close>

definition LiveTVPlayback_new ::
    "nat \<Rightarrow> bool \<Rightarrow> bool \<Rightarrow> (eventhandler \<Rightarrow> eventhandler) \<Rightarrow> bool \<Rightarrow> eventhandler \<Rightarrow> monitor \<Rightarrow> protobase list \<Rightarrow> livetv" where
  "LiveTVPlayback_new self sub_started started meanwhile limit handler mon conns =
     (case CreateSubscription self sub_started handler of (sid, eh) \<Rightarrow>
       (let eh1 = fold (\<lambda>ev h. snd (SubscribeForEvent sid ev h))
                    [EVENT_SIGNAL, EVENT_LIVETV_CHAIN, EVENT_LIVETV_WATCH, EVENT_DONE_RECORDING, EVENT_UPDATE_FILE_SIZE] eh
        in snd (lt_Open started meanwhile
             \<lparr>lt_mon = mon, lt_handler = eh1, lt_subid = sid, lt_tuneDelay = MIN_TUNE_DELAY,
              lt_limitTuneAttempts = limit, lt_recorder = None, lt_signal = None, ch_UID = [], ch_chained = [],
              ch_current = 0, ch_last = 0, ch_watch = False, ch_switchOnCreate = False,
              lt_chunk = MYTH_LIVETV_CHUNK_SIZE, lt_buffer = rdbuffer_new, lt_conns = conns\<rparr>)))"

definition lt_Close :: "livetv \<Rightarrow> livetv" where
  "lt_Close lt = lt\<lparr>lt_recorder := None, lt_mon := monitor_Close (lt_mon lt)\<rparr>"

definition SetTuneDelay :: "nat \<Rightarrow> livetv \<Rightarrow> livetv" where
  "SetTuneDelay delay lt =
     lt\<lparr>lt_tuneDelay := (if delay < MIN_TUNE_DELAY then MIN_TUNE_DELAY
                         else if delay > MAX_TUNE_DELAY then MAX_TUNE_DELAY else delay)\<rparr>"

definition SetLimitTuneAttempts :: "bool \<Rightarrow> livetv \<Rightarrow> livetv" where
  "SetLimitTuneAttempts limit lt = lt\<lparr>lt_limitTuneAttempts := limit\<rparr>"

definition lt_SetChunk :: "nat \<Rightarrow> livetv \<Rightarrow> livetv" where
  "lt_SetChunk sz lt =
     lt\<lparr>lt_chunk := (if sz < MYTH_LIVETV_CHUNK_MIN then MYTH_LIVETV_CHUNK_MIN
                     else if sz > MYTH_LIVETV_CHUNK_MAX then MYTH_LIVETV_CHUNK_MAX else sz)\<rparr>"

section \<open>The chain\<close>

definition InitChain :: "zone \<Rightarrow> time_t \<Rightarrow> livetv \<Rightarrow> livetv" where
  "InitChain z now lt =
     lt\<lparr>ch_UID := os_hostname (sock (lt_mon lt)) @ ''-'' @ time_to_iso8601 z now, ch_current := 0, ch_last := 0,
        ch_watch := False, ch_switchOnCreate := True, ch_chained := []\<rparr>"

definition ClearChain :: "livetv \<Rightarrow> livetv" where
  "ClearChain lt =
     lt\<lparr>ch_current := 0, ch_last := 0, ch_watch := False, ch_switchOnCreate := False, ch_chained := []\<rparr>"

definition IsChained :: "Program \<Rightarrow> livetv \<Rightarrow> bool" where
  "IsChained p lt = list_ex (\<lambda>(t, _). m_pathName t = fileName p) (ch_chained lt)"

definition set_transfer :: "nat \<Rightarrow> transfer \<Rightarrow> livetv \<Rightarrow> livetv" where
  "set_transfer i t lt = lt\<lparr>ch_chained := (ch_chained lt)[i := (t, snd (ch_chained lt ! i))]\<rparr>"

definition nth_transfer :: "livetv \<Rightarrow> nat \<Rightarrow> transfer" where
  "nth_transfer lt i = fst (ch_chained lt ! i)"

definition SwitchChain :: "nat \<Rightarrow> livetv \<Rightarrow> bool \<times> livetv" where
  "SwitchChain sequence lt =
     (if sequence < 1 \<or> sequence > ch_last lt then (False, lt)
      else let t = nth_transfer lt (sequence - 1) in
        if m_isOpen t then (True, lt\<lparr>ch_current := sequence\<rparr>)
        else case transfer_Open t of
               (ok, t1) \<Rightarrow>
                 (let lt1 = set_transfer (sequence - 1) t1 lt
                  in if ok then (True, lt1\<lparr>ch_current := sequence\<rparr>) else (False, lt1)))"

text \<open>\<open>TransferSeek\<close> of the recorder on a transfer of the chain.\<close>

definition chain_seek :: "nat \<Rightarrow> i64 \<Rightarrow> WHENCE_t \<Rightarrow> recorder \<Rightarrow> livetv \<Rightarrow> i64 \<times> livetv" where
  "chain_seek i offset whence rec lt =
     (case TransferSeek75 offset whence (nth_transfer lt i) rec of
        (r, t1, rec1) \<Rightarrow> (r, (set_transfer i t1 lt)\<lparr>lt_recorder := Some rec1\<rparr>))"

definition SwitchChainLast :: "livetv \<Rightarrow> bool \<times> livetv" where
  "SwitchChainLast lt =
     (case SwitchChain (ch_last lt) lt of (ok, lt1) \<Rightarrow>
       (if \<not> ok then (False, lt1)
        else case lt_recorder lt1 of
               None \<Rightarrow> (False, lt1)
             | Some rec \<Rightarrow>
                 (case chain_seek (ch_current lt1 - 1) 0 WHENCE_SET rec lt1 of (r, lt2) \<Rightarrow> (r = 0, lt2))))"

text \<open>The new transfer is appended; a file before it that never got a size is closed. (The size of
  the new transfer is 0 until it is opened.)\<close>

definition add_transfer :: "Program \<Rightarrow> livetv \<Rightarrow> livetv" where
  "add_transfer prog lt =
     (case lt_recorder lt of
        None \<Rightarrow> lt
      | Some rec \<Rightarrow>
          (case new_conn (m_server rec) (m_port rec) lt of (conn, lt0) \<Rightarrow>
            (let t = ProtoTransfer_new conn (fileName prog) (storageGroup (recording prog));
                 lt1 = lt0\<lparr>ch_chained := ch_chained lt0 @ [(t, prog)], ch_last := length (ch_chained lt0) + 1\<rparr>;
                 lt2 = (if ch_last lt1 > 1 \<and> GetSize (nth_transfer lt1 (ch_last lt1 - 2)) = 0
                        then set_transfer (ch_last lt1 - 2) (transfer_Close (nth_transfer lt1 (ch_last lt1 - 2))) lt1
                        else lt1);
                 lt3 = (if ch_switchOnCreate lt2 \<and> sint (GetSize t) > 0
                        then (case SwitchChainLast lt2 of
                                (ok, x) \<Rightarrow> if ok then x\<lparr>ch_switchOnCreate := False\<rparr> else x)
                        else lt2)
             in lt3\<lparr>ch_watch := False\<rparr>)))"

definition HandleChainUpdate :: "libc \<Rightarrow> livetv \<Rightarrow> livetv" where
  "HandleChainUpdate lc lt =
     (case lt_recorder lt of
        None \<Rightarrow> lt
      | Some rec \<Rightarrow>
          (case GetCurrentRecording75 lc rec of (prog, rec1) \<Rightarrow>
            (let lt1 = lt\<lparr>lt_recorder := Some rec1\<rparr> in
             case prog of
               None \<Rightarrow> lt1
             | Some p \<Rightarrow> (if fileName p \<noteq> [] \<and> \<not> IsChained p lt1 then add_transfer p lt1 else lt1))))"

section \<open>Events\<close>

text \<open>Trying again for a while when a recording has ended and the chain was not updated.\<close>

fun chain_retry :: "nat \<Rightarrow> libc \<Rightarrow> livetv \<Rightarrow> livetv" where
  "chain_retry 0 lc lt = lt"
| "chain_retry (Suc k) lc lt =
     (case lt_recorder lt of
        None \<Rightarrow> lt
      | Some rec \<Rightarrow>
          (if \<not> IsPlaying rec then lt
           else let lt1 = HandleChainUpdate lc lt in if \<not> ch_watch lt1 then lt1 else chain_retry k lc lt1))"

definition update_file_size :: "zone \<Rightarrow> string list \<Rightarrow> livetv \<Rightarrow> livetv" where
  "update_file_size z subject lt =
     (if ch_last lt > 0
      then (let i = ch_last lt - 1; (t, p) = ch_chained lt ! i in
            case file_size_event z subject p of
              None \<Rightarrow> lt
            | Some newsize \<Rightarrow>
                (if sint (GetSize t) \<ge> sint newsize then lt
                 else let lt1 = set_transfer i (SetSize newsize t) lt in
                   if ch_switchOnCreate lt1
                   then (case SwitchChainLast lt1 of (ok, lt2) \<Rightarrow> if ok then lt2\<lparr>ch_switchOnCreate := False\<rparr> else lt2)
                   else lt1))
      else lt)"

definition lt_HandleBackendMessage :: "libc \<Rightarrow> zone \<Rightarrow> EventMessage \<Rightarrow> livetv \<Rightarrow> livetv" where
  "lt_HandleBackendMessage lc z msg lt =
     (case lt_recorder lt of
        None \<Rightarrow> lt
      | Some rec \<Rightarrow>
          (if \<not> IsPlaying rec then lt
           else let subject = ev_subject msg in
             case ev_event msg of
               EVENT_LIVETV_CHAIN \<Rightarrow>
                 (if length subject \<ge> 3 \<and> subject ! 1 = ''UPDATE'' \<and> subject ! 2 = ch_UID lt
                  then HandleChainUpdate lc lt else lt)
             | EVENT_LIVETV_WATCH \<Rightarrow>
                 (if length subject \<ge> 3
                  then (case (string_to_int32 (c_str (subject ! 1)), string_to_int8 (c_str (subject ! 2))) of
                          (Inr rnum, Inr _) \<Rightarrow> (if GetNum rec = rnum then lt\<lparr>ch_watch := True\<rparr> else lt)
                        | _ \<Rightarrow> lt)
                  else lt)
             | EVENT_DONE_RECORDING \<Rightarrow>
                 (if length subject \<ge> 2
                  then (case string_to_int32 (c_str (subject ! 1)) of
                          Inl _ \<Rightarrow> lt
                        | Inr rnum \<Rightarrow>
                            (if GetNum rec = rnum
                             then (let lt1 = lt\<lparr>lt_recorder := Some (DoneRecordingCallback rec)\<rparr>
                                   in if ch_watch lt1 then chain_retry 10 lc lt1 else lt1)
                             else lt))
                  else lt)
             | EVENT_UPDATE_FILE_SIZE \<Rightarrow> (if length subject \<ge> 3 then update_file_size z subject lt else lt)
             | EVENT_SIGNAL \<Rightarrow>
                 (if length subject \<ge> 2
                  then (case string_to_int32 (c_str (subject ! 1)) of
                          Inl _ \<Rightarrow> lt
                        | Inr rnum \<Rightarrow> (if GetNum rec = rnum then lt\<lparr>lt_signal := ev_signal msg\<rparr> else lt))
                  else lt)
             | _ \<Rightarrow> lt))"

section \<open>Tuning\<close>

definition lt_StopLiveTV :: "livetv \<Rightarrow> livetv" where
  "lt_StopLiveTV lt =
     (case lt_recorder lt of
        None \<Rightarrow> lt
      | Some rec \<Rightarrow>
          (if IsPlaying rec
           then (case StopLiveTV75 rec of
                   (_, rec1) \<Rightarrow> lt\<lparr>lt_recorder := (if IsLiveRecording rec1 then None else Some rec1)\<rparr>)
           else lt))"

text \<open>\<open>std::multimap::insert\<close>: behind the entries of the same key.\<close>

fun mm_insert :: "'k :: linorder \<Rightarrow> 'v \<Rightarrow> ('k \<times> 'v) list \<Rightarrow> ('k \<times> 'v) list" where
  "mm_insert k v [] = [(k, v)]"
| "mm_insert k v ((k1, v1) # xs) = (if k < k1 then (k, v) # (k1, v1) # xs else (k1, v1) # mm_insert k v xs)"

text \<open>The inner loop: the first channel of the set that the input can tune.\<close>

fun find_channel :: "CardInput \<Rightarrow> Channel list \<Rightarrow> Channel option" where
  "find_channel inp [] = None"
| "find_channel inp (c # cs) =
     (if sourceId c = in_sourceId inp \<and> (in_mplexId inp = 0 \<or> in_mplexId inp = mplexId c) then Some c
      else find_channel inp cs)"

fun prefer_cards :: "Channel list \<Rightarrow> CardInput list \<Rightarrow> (u8 \<times> CardInput \<times> Channel) list \<Rightarrow> (u8 \<times> CardInput \<times> Channel) list" where
  "prefer_cards chanset [] cards = cards"
| "prefer_cards chanset (inp # inps) cards =
     prefer_cards chanset inps
       (case find_channel inp chanset of
          None \<Rightarrow> cards
        | Some c \<Rightarrow> mm_insert (in_liveTVOrder inp) (inp, c) cards)"

definition FindTunableCardIds :: "string \<Rightarrow> Channel list \<Rightarrow> livetv \<Rightarrow> (u8 \<times> CardInput \<times> Channel) list \<times> livetv" where
  "FindTunableCardIds num channels lt =
     (case mon_GetFreeInputs 0 (lt_mon lt) of
        (inputs, m1) \<Rightarrow> (prefer_cards (filter (\<lambda>c. chanNum c = num) channels) inputs [], lt\<lparr>lt_mon := m1\<rparr>))"

text \<open>The wait for the first file, one round per tick until the time is over; in each the latch is
  released and the event thread may handle messages.\<close>

fun tune_wait :: "libc \<Rightarrow> zone \<Rightarrow> EventMessage list list \<Rightarrow> livetv \<Rightarrow> bool \<times> livetv" where
  "tune_wait lc z [] lt = (False, lt)"
| "tune_wait lc z (msgs # ticks) lt =
     (let lt1 = fold (lt_HandleBackendMessage lc z) msgs lt
      in if \<not> ch_switchOnCreate lt1 then (True, lt1) else tune_wait lc z ticks lt1)"

text \<open>One attempt. \<open>None\<close>: the address of the recorder could not be had, \<open>m_recorder\<close> is null and the
  call through it is an access through a null pointer.\<close>

definition try_card :: "libc \<Rightarrow> zone \<Rightarrow> time_t \<Rightarrow> EventMessage list list \<Rightarrow> CardInput \<times> Channel \<Rightarrow> livetv \<Rightarrow> (bool \<times> livetv) option" where
  "try_card lc z now ticks crd lt =
     (let lt0 = InitChain z now lt in
      case GetRecorderFromNum75 (ucast (in_cardId (fst crd))) (lt_mon lt0) of
        (None, m1) \<Rightarrow> None
      | (Some (num, host, port), m1) \<Rightarrow>
          (case new_conn host (unat port) (lt0\<lparr>lt_mon := m1\<rparr>) of (conn, lt1) \<Rightarrow>
            (let lt2 = lt1\<lparr>ch_switchOnCreate := True, ch_watch := True\<rparr> in
             case SpawnLiveTV75 (ch_UID lt2) (chanNum (snd crd)) (ProtoRecorder_new conn num) of (ok, rec) \<Rightarrow>
               (let lt3 = lt2\<lparr>lt_recorder := Some rec\<rparr> in
                if \<not> ok then Some (False, ClearChain lt3)
                else case tune_wait lc z ticks lt3 of (tuned, lt4) \<Rightarrow>
                  (if tuned then Some (True, lt4)
                   else case lt_recorder lt4 of
                          None \<Rightarrow> None
                        | Some rec1 \<Rightarrow> Some (False, ClearChain (lt4\<lparr>lt_recorder := Some (snd (StopLiveTV75 rec1))\<rparr>)))))))"

fun try_cards :: "libc \<Rightarrow> zone \<Rightarrow> time_t \<Rightarrow> EventMessage list list list \<Rightarrow> (u8 \<times> CardInput \<times> Channel) list \<Rightarrow> livetv
    \<Rightarrow> (bool \<times> livetv) option" where
  "try_cards lc z now tickss [] lt = Some (False, lt)"
| "try_cards lc z now tickss ((_, crd) # cards) lt =
     (case try_card lc z now (case tickss of [] \<Rightarrow> [] | ticks # _ \<Rightarrow> ticks) crd lt of
        None \<Rightarrow> None
      | Some (True, lt1) \<Rightarrow> Some (True, lt1)
      | Some (False, lt1) \<Rightarrow>
          (if lt_limitTuneAttempts lt1 then Some (False, lt1)
           else try_cards lc z now (case tickss of [] \<Rightarrow> [] | _ # r \<Rightarrow> r) cards lt1))"

definition lt_SpawnLiveTV :: "libc \<Rightarrow> zone \<Rightarrow> time_t \<Rightarrow> EventMessage list list list \<Rightarrow> string \<Rightarrow> Channel list \<Rightarrow> livetv
    \<Rightarrow> (bool \<times> livetv) option" where
  "lt_SpawnLiveTV lc z now tickss num channels lt =
     (case monitor_IsOpen (lt_mon lt) of (opened, m1) \<Rightarrow>
       (let lt1 = lt\<lparr>lt_mon := m1\<rparr> in
        if \<not> opened \<or> \<not> IsConnected (lt_handler lt1) then Some (False, lt1)
        else case FindTunableCardIds num channels (lt_StopLiveTV lt1) of
               (cards, lt2) \<Rightarrow> try_cards lc z now tickss cards lt2))"

definition lt_SpawnLiveTV_channel :: "libc \<Rightarrow> zone \<Rightarrow> time_t \<Rightarrow> EventMessage list list list \<Rightarrow> Channel \<Rightarrow> livetv
    \<Rightarrow> (bool \<times> livetv) option" where
  "lt_SpawnLiveTV_channel lc z now tickss c lt = lt_SpawnLiveTV lc z now tickss (chanNum c) [c] lt"

section \<open>The stream\<close>

definition lt_GetSize :: "livetv \<Rightarrow> i64" where
  "lt_GetSize lt = sum_list (map (\<lambda>(t, _). GetSize t) (ch_chained lt))"

definition lt_GetPosition :: "livetv \<Rightarrow> i64" where
  "lt_GetPosition lt =
     (if ch_current lt > 0
      then sum_list (map (\<lambda>(t, _). GetSize t) (take (ch_current lt - 1) (ch_chained lt)))
             + GetPosition (nth_transfer lt (ch_current lt - 1))
      else 0) - ucast (buffer_unread (lt_buffer lt))"

text \<open>
  The loop of \<open>_read\<close> that looks for data: \<open>Inl\<close> is a return, \<open>Inr\<close> the size that can be read and
  whether it was found by reading ahead. \<open>wait\<close> tells the inner loop, which polls without looking at
  the remaining size again, from the outer one. Each inner round consumes an answer of \<open>time_left\<close>
  (true: the time is over) and the messages that the event thread handles during the sleep; \<open>None\<close>
  is a loop that is still running when they are used up. \<open>fp\<close> is the position before the loop.
\<close>

fun find_data :: "bool \<Rightarrow> (bool \<times> EventMessage list) list \<Rightarrow> libc \<Rightarrow> zone \<Rightarrow> i64 \<Rightarrow> bool \<Rightarrow> livetv
    \<Rightarrow> ((int + i64 \<times> bool) \<times> livetv) option" where
  "find_data wait obs lc z fp ahead lt =
     (let cur = nth_transfer lt (ch_current lt - 1); rs = GetRemaining cur in
      if \<not> wait \<and> sint rs < 0 then Some (Inl 0, lt)
      else if \<not> wait \<and> rs \<noteq> 0 then Some (Inr (rs, ahead), lt)
      else case obs of
        [] \<Rightarrow> None
      | (over, msgs) # obs1 \<Rightarrow>
          (let next_round = (\<lambda>lt1. if over then Some (Inl 0, lt1)
                              else find_data True obs1 lc z fp True (fold (lt_HandleBackendMessage lc z) msgs lt1)) in
           case lt_recorder lt of
             None \<Rightarrow> Some (Inl (-1), lt)
           | Some rec \<Rightarrow>
               (if ch_current lt = ch_last lt
                then (if sint fp > 0
                      then (case GetFilePosition75 rec of (rp, rec1) \<Rightarrow>
                             (let lt1 = lt\<lparr>lt_recorder := Some rec1\<rparr> in
                              if sint rp > sint fp
                              then find_data False obs1 lc z fp True (set_transfer (ch_current lt1 - 1) (SetSize rp cur) lt1)
                              else next_round lt1))
                      else if fp = 0
                      then (let lt1 = snd (SwitchChainLast (HandleChainUpdate lc lt)) in
                            if sint (GetSize (nth_transfer lt1 (ch_current lt1 - 1))) > 0
                            then find_data False obs1 lc z fp True lt1
                            else next_round lt1)
                      else next_round lt)
                else (case SwitchChain (ch_current lt + 1) lt of (ok, lt1) \<Rightarrow>
                       (if \<not> ok then Some (Inl (-1), lt1)
                        else find_data False obs1 lc z fp False
                               (if GetPosition (nth_transfer lt1 (ch_current lt1 - 1)) \<noteq> 0
                                then (case lt_recorder lt1 of
                                        None \<Rightarrow> lt1
                                      | Some rec1 \<Rightarrow> snd (chain_seek (ch_current lt1 - 1) 0 WHENCE_SET rec1 lt1))
                                else lt1))))))"

declare find_data.simps [simp del]

text \<open>The requests for the block: up to ten when reading ahead, while they deliver nothing.\<close>

fun request_blocks :: "nat \<Rightarrow> poll2 list list \<Rightarrow> bool \<Rightarrow> nat \<Rightarrow> livetv \<Rightarrow> (int \<times> bytes \<times> livetv) option" where
  "request_blocks 0 evss ahead n lt = Some (0, [], lt)"
| "request_blocks (Suc k) evss ahead n lt =
     (case evss of
        [] \<Rightarrow> None
      | evs # evss1 \<Rightarrow>
          (case lt_recorder lt of
             None \<Rightarrow> Some (-1, [], lt)
           | Some rec \<Rightarrow>
               (case TransferRequestBlock evs n (nth_transfer lt (ch_current lt - 1)) rec of
                  None \<Rightarrow> None
                | Some (r, out, t1, rec1) \<Rightarrow>
                    (let lt1 = (set_transfer (ch_current lt - 1) t1 lt)\<lparr>lt_recorder := Some rec1\<rparr> in
                     if \<not> ahead \<or> r \<noteq> 0 then Some (r, out, lt1) else request_blocks k evss1 ahead n lt1))))"

definition lt_read :: "libc \<Rightarrow> zone \<Rightarrow> (bool \<times> EventMessage list) list \<times> poll2 list list \<Rightarrow> nat \<Rightarrow> livetv \<Rightarrow> (int \<times> bytes \<times> livetv) option" where
  "lt_read lc z env n lt =
     (if ch_current lt = 0 \<or> lt_recorder lt = None then Some (-1, [], lt)
      else case find_data False (fst env) lc z (GetPosition (nth_transfer lt (ch_current lt - 1))) False lt of
             None \<Rightarrow> None
           | Some (Inl r, lt1) \<Rightarrow> Some (r, [], lt1)
           | Some (Inr (rs, ahead), lt1) \<Rightarrow>
               request_blocks 10 (snd env) ahead (if sint rs < int n then nat (sint rs) else n) lt1)"

definition lt_Read :: "libc \<Rightarrow> zone \<Rightarrow> (nat \<Rightarrow> bytes) \<Rightarrow> (bool \<times> EventMessage list) list \<times> poll2 list list \<Rightarrow> nat \<Rightarrow> livetv
    \<Rightarrow> (int \<times> bytes \<times> livetv) option" where
  "lt_Read lc z junk env n lt =
     map_option (\<lambda>(r, out, b, lt1). (r, out, lt1\<lparr>lt_buffer := b\<rparr>))
       (buffered_Read (lt_read lc z env) junk (lt_chunk lt) n (lt_buffer lt, lt))"

section \<open>Seeking\<close>

definition seek_in_file :: "nat \<Rightarrow> i64 \<Rightarrow> i64 \<Rightarrow> recorder \<Rightarrow> livetv \<Rightarrow> i64 \<times> livetv" where
  "seek_in_file ci p pos rec lt =
     (case chain_seek ci (p - pos) WHENCE_CUR rec lt of (r, lt1) \<Rightarrow>
       (if sint r < 0 then (-1, lt1)
        else case SwitchChain (ci + 1) lt1 of (ok, lt2) \<Rightarrow> (if ok then p else -1, lt2)))"

text \<open>The loops over the chain; \<open>pos\<close> is the variable \<open>position\<close> of the code.\<close>

function seek_forward :: "nat \<Rightarrow> i64 \<Rightarrow> i64 \<Rightarrow> recorder \<Rightarrow> livetv \<Rightarrow> i64 \<times> livetv" where
  "seek_forward ci p pos rec lt =
     (let rem = GetRemaining (nth_transfer lt ci) in
      if sint (pos + rem) \<ge> sint p then seek_in_file ci p pos rec lt
      else if ci + 1 < ch_last lt
      then seek_forward (ci + 1) p (pos + rem + GetPosition (nth_transfer lt (ci + 1))) rec lt
      else (-1, lt))"
  by pat_completeness auto
termination
  by (relation "measure (\<lambda>(ci, _, _, _, lt). ch_last lt - ci)") auto

declare seek_forward.simps [simp del]

fun seek_backward :: "nat \<Rightarrow> i64 \<Rightarrow> i64 \<Rightarrow> recorder \<Rightarrow> livetv \<Rightarrow> i64 \<times> livetv" where
  "seek_backward ci p pos rec lt =
     (if sint (pos - GetPosition (nth_transfer lt ci)) \<le> sint p then seek_in_file ci p pos rec lt
      else case ci of
             0 \<Rightarrow> (-1, lt)
           | Suc cj \<Rightarrow>
               seek_backward cj p (pos - GetPosition (nth_transfer lt ci) - GetRemaining (nth_transfer lt cj)) rec lt)"

declare seek_backward.simps [simp del]

definition lt_seek :: "i64 \<Rightarrow> WHENCE_t \<Rightarrow> livetv \<Rightarrow> i64 \<times> livetv" where
  "lt_seek offset whence lt =
     (case lt_recorder lt of
        None \<Rightarrow> (-1, lt)
      | Some rec \<Rightarrow>
          (if ch_current lt = 0 then (-1, lt)
           else let ci = ch_current lt - 1; sz = lt_GetSize lt; pos = lt_GetPosition lt;
                    p = (case whence of WHENCE_SET \<Rightarrow> offset | WHENCE_END \<Rightarrow> sz + offset | WHENCE_CUR \<Rightarrow> pos + offset)
                in if sint p > sint sz \<or> sint p < 0 then (-1, lt)
                   else if sint p > sint pos then seek_forward ci p pos rec lt
                   else if sint p < sint pos then seek_backward ci p pos rec lt
                   else (p, lt)))"

definition lt_Seek :: "i64 \<Rightarrow> WHENCE_t \<Rightarrow> livetv \<Rightarrow> i64 \<times> livetv" where
  "lt_Seek offset whence lt =
     (let unread = ucast (buffer_unread (lt_buffer lt)) :: i64 in
      if whence = WHENCE_CUR \<and> offset = 0
      then (case lt_seek offset whence lt of
              (p, lt1) \<Rightarrow> (if sint p \<ge> sint unread then p - unread else p, lt1))
      else lt_seek (if whence = WHENCE_CUR then offset - unread else offset) whence
             (lt\<lparr>lt_buffer := buffer_clear (lt_buffer lt)\<rparr>))"

section \<open>Status\<close>

definition lt_IsPlaying :: "livetv \<Rightarrow> bool" where
  "lt_IsPlaying lt = (case lt_recorder lt of None \<Rightarrow> False | Some rec \<Rightarrow> IsPlaying rec)"

definition lt_IsLiveRecording :: "livetv \<Rightarrow> bool" where
  "lt_IsLiveRecording lt = (case lt_recorder lt of None \<Rightarrow> False | Some rec \<Rightarrow> IsLiveRecording rec)"

definition KeepLiveRecording :: "libc \<Rightarrow> bool \<Rightarrow> livetv \<Rightarrow> bool \<times> livetv" where
  "KeepLiveRecording lc keep lt =
     (case lt_recorder lt of
        None \<Rightarrow> (False, lt)
      | Some rec \<Rightarrow>
          (if \<not> IsPlaying rec then (False, lt)
           else case GetCurrentRecording75 lc rec of (prog, rec1) \<Rightarrow>
             (let lt1 = lt\<lparr>lt_recorder := Some rec1\<rparr> in
              case prog of
                None \<Rightarrow> (False, lt1)
              | Some p \<Rightarrow>
                  (if keep
                   then (case UndeleteRecording75 lc p (lt_mon lt1) of (ok, m1) \<Rightarrow>
                          (let lt2 = lt1\<lparr>lt_mon := m1\<rparr> in
                           if \<not> ok then (False, lt2)
                           else case SetLiveRecording keep rec1 of (ok2, rec2) \<Rightarrow>
                             (let lt3 = lt2\<lparr>lt_recorder := Some rec2\<rparr> in
                              if ok2 then (True, lt3\<lparr>lt_mon := snd (QueryGenpixmap75 lc p (lt_mon lt3))\<rparr>)
                              else (False, lt3))))
                   else (case SetLiveRecording keep rec1 of (ok, rec2) \<Rightarrow>
                          (if \<not> ok then (False, lt1\<lparr>lt_recorder := Some rec2\<rparr>)
                           else case FinishRecording75 rec2 of
                                  (ok2, rec3) \<Rightarrow> (ok2, lt1\<lparr>lt_recorder := Some rec3\<rparr>)))))))"

definition GetPlayedProgram :: "livetv \<Rightarrow> Program option" where
  "GetPlayedProgram lt = (if ch_current lt > 0 then Some (snd (ch_chained lt ! (ch_current lt - 1))) else None)"

definition GetLiveTimeStart :: "livetv \<Rightarrow> time_t" where
  "GetLiveTimeStart lt = (if ch_last lt \<noteq> 0 then startTs (recording (snd (ch_chained lt ! 0))) else -1)"

definition GetChainedCount :: "livetv \<Rightarrow> nat" where
  "GetChainedCount lt = ch_last lt"

definition GetChainedProgram :: "nat \<Rightarrow> livetv \<Rightarrow> Program option" where
  "GetChainedProgram sequence lt =
     (if sequence > 0 \<and> sequence \<le> ch_last lt then Some (snd (ch_chained lt ! (sequence - 1))) else None)"

definition GetCardId :: "livetv \<Rightarrow> u32" where
  "GetCardId lt = (case lt_recorder lt of None \<Rightarrow> 0 | Some rec \<Rightarrow> ucast (GetNum rec))"

definition GetSignal :: "livetv \<Rightarrow> SignalStatus option" where
  "GetSignal lt = (case lt_recorder lt of None \<Rightarrow> None | Some _ \<Rightarrow> lt_signal lt)"

section \<open>The invariant of the object\<close>

text \<open>The count of the chain is its length, the current position is inside of it, no file is chained
  twice, and every connection satisfies its own invariant.\<close>

definition live_ok :: "livetv \<Rightarrow> bool" where
  "live_ok lt \<longleftrightarrow> ch_last lt = length (ch_chained lt) \<and> ch_current lt \<le> ch_last lt
     \<and> distinct (map (m_pathName \<circ> fst) (ch_chained lt)) \<and> list_all (pb_ok \<circ> fst) (ch_chained lt)
     \<and> (\<forall>rec. lt_recorder lt = Some rec \<longrightarrow> pb_ok rec) \<and> pb_ok (lt_mon lt) \<and> list_all pb_ok (lt_conns lt)"

lemma live_ok_simps [simp]:
  "live_ok (lt\<lparr>ch_watch := a\<rparr>) = live_ok lt" "live_ok (lt\<lparr>ch_switchOnCreate := a\<rparr>) = live_ok lt"
  "live_ok (lt\<lparr>lt_signal := b\<rparr>) = live_ok lt" "live_ok (lt\<lparr>lt_buffer := c\<rparr>) = live_ok lt"
  "live_ok (lt\<lparr>ch_UID := d\<rparr>) = live_ok lt" "live_ok (lt\<lparr>lt_chunk := e\<rparr>) = live_ok lt"
  "live_ok (lt\<lparr>lt_handler := f\<rparr>) = live_ok lt" "live_ok (lt\<lparr>lt_tuneDelay := e\<rparr>) = live_ok lt"
  "live_ok (lt\<lparr>lt_limitTuneAttempts := a\<rparr>) = live_ok lt"
  by (simp_all add: live_ok_def)

lemma live_ok_recorder: "live_ok lt \<Longrightarrow> pb_ok rec \<Longrightarrow> live_ok (lt\<lparr>lt_recorder := Some rec\<rparr>)"
  by (simp add: live_ok_def)

lemma live_ok_no_recorder: "live_ok lt \<Longrightarrow> live_ok (lt\<lparr>lt_recorder := None\<rparr>)"
  by (simp add: live_ok_def)

lemma live_ok_mon: "live_ok lt \<Longrightarrow> pb_ok m \<Longrightarrow> live_ok (lt\<lparr>lt_mon := m\<rparr>)"
  by (simp add: live_ok_def)

lemma live_ok_current: "live_ok lt \<Longrightarrow> n \<le> ch_last lt \<Longrightarrow> live_ok (lt\<lparr>ch_current := n\<rparr>)"
  by (simp add: live_ok_def)

lemma live_okD:
  assumes "live_ok lt"
  shows "ch_last lt = length (ch_chained lt)" "ch_current lt \<le> ch_last lt" "lt_recorder lt = Some rec \<Longrightarrow> pb_ok rec"
    "pb_ok (lt_mon lt)" "i < ch_last lt \<Longrightarrow> pb_ok (nth_transfer lt i)"
  using assms by (auto simp: live_ok_def nth_transfer_def list_all_length)

lemma set_transfer_simps [simp]:
  "ch_last (set_transfer i t lt) = ch_last lt" "ch_current (set_transfer i t lt) = ch_current lt"
  "lt_recorder (set_transfer i t lt) = lt_recorder lt" "ch_switchOnCreate (set_transfer i t lt) = ch_switchOnCreate lt"
  "lt_buffer (set_transfer i t lt) = lt_buffer lt" "length (ch_chained (set_transfer i t lt)) = length (ch_chained lt)"
  by (simp_all add: set_transfer_def)

lemma nth_set_transfer:
  "i < length (ch_chained lt) \<Longrightarrow> nth_transfer (set_transfer i t lt) j = (if i = j then t else nth_transfer lt j)"
  by (simp add: set_transfer_def nth_transfer_def)

lemma live_ok_transfer:
  assumes "live_ok lt" "i < ch_last lt" "pb_ok t" "m_pathName t = m_pathName (nth_transfer lt i)"
  shows "live_ok (set_transfer i t lt)"
proof -
  have "map (m_pathName \<circ> fst) (ch_chained (set_transfer i t lt)) = map (m_pathName \<circ> fst) (ch_chained lt)"
    using assms(4) by (simp add: set_transfer_def map_update nth_transfer_def) (metis comp_apply list_update_id map_update)
  moreover have "list_all (pb_ok \<circ> fst) (ch_chained (set_transfer i t lt))"
    using assms(1-3) by (auto simp: set_transfer_def live_ok_def list_all_length nth_list_update)
  ultimately show ?thesis using assms(1) by (simp add: live_ok_def set_transfer_def)
qed

section \<open>Files keep their names\<close>

lemma path_updates [simp]:
  "m_pathName (SetPosition x t) = m_pathName t" "m_pathName (SetRequested x t) = m_pathName t"
  "m_pathName (SetSize x t) = m_pathName t" "m_pathName (Flush t) = m_pathName t"
  by (simp_all add: SetPosition_def SetRequested_def SetSize_def Flush_def Let_def split: prod.split)

lemma path_more: "protobase.more t' = protobase.more t \<Longrightarrow> m_pathName t' = m_pathName t" for t t' :: transfer
  by (cases t; cases t') simp

lemma path_frame: "msg_frame t t' \<Longrightarrow> m_pathName t' = m_pathName t" for t t' :: transfer
  by (rule path_more) (simp add: msg_frame_def)

lemma transfer_Close_path [simp]: "m_pathName (transfer_Close t) = m_pathName t"
  using path_frame [OF Close_frame [of t]] by (simp add: transfer_Close_def)

lemmas path_steps = frame_eqs [THEN path_frame]

lemma path_flush [simp]: "m_pathName (snd (FlushMessage t)) = m_pathName t" for t :: transfer
  by (rule path_frame [OF FlushMessage_frame])

lemma transfer_Announce75_path: "transfer_Announce75 t = (ok, t') \<Longrightarrow> m_pathName t' = m_pathName t"
  by (auto simp: transfer_Announce75_def Let_def split: prod.splits if_splits sum.splits dest!: path_steps)

lemma transfer_Open_path:
  assumes "pb_ok t" "transfer_Open t = (ok, t')"
  shows "m_pathName t' = m_pathName t"
proof -
  obtain b t1 where 1: "OpenConnection (int PROTO_TRANSFER_RCVBUF) t = (b, t1)" by force
  have "m_pathName t1 = m_pathName t"
    using OpenConnection_post [OF assms(1), of "int PROTO_TRANSFER_RCVBUF"] 1 path_more [of t1 t] by (auto simp: open_post_def)
  with 1 assms(2) show ?thesis
    by (auto simp: transfer_Open_def split: if_splits prod.splits dest!: transfer_Announce75_path)
qed

lemma TransferSeek75_path: "TransferSeek75 offset whence t pb = (r, t', pb') \<Longrightarrow> m_pathName t' = m_pathName t"
  by (auto simp: TransferSeek75_def split: sum.splits if_splits prod.splits option.splits)

section \<open>Every operation keeps the invariant\<close>

lemma SwitchChain_ok:
  assumes "live_ok lt" "SwitchChain n lt = (ok, lt')"
  shows "live_ok lt' \<and> (ok \<longrightarrow> ch_current lt' = n \<and> 0 < n \<and> n \<le> ch_last lt) \<and> (\<not> ok \<longrightarrow> ch_current lt' = ch_current lt)
    \<and> lt_recorder lt' = lt_recorder lt \<and> ch_last lt' = ch_last lt \<and> ch_switchOnCreate lt' = ch_switchOnCreate lt"
proof (cases "n < 1 \<or> n > ch_last lt \<or> m_isOpen (nth_transfer lt (n - 1))")
  case True
  with assms show ?thesis by (auto simp: SwitchChain_def Let_def split: if_splits intro!: live_ok_current)
next
  case False
  let ?t = "nth_transfer lt (n - 1)"
  have i: "n - 1 < ch_last lt" using False by auto
  note p = live_okD(5) [OF assms(1) i]
  obtain o1 t1 where 1: "transfer_Open ?t = (o1, t1)" by force
  have t1: "pb_ok t1" "m_pathName t1 = m_pathName ?t"
    using transfer_Open_ok [OF p] transfer_Open_path [OF p 1] 1 by auto
  have "live_ok (set_transfer (n - 1) t1 lt)" by (rule live_ok_transfer [OF assms(1) i t1])
  with False 1 assms(2) show ?thesis by (auto simp: SwitchChain_def Let_def split: if_splits intro!: live_ok_current)
qed

lemma chain_seek_ok:
  assumes "live_ok lt" "i < ch_last lt" "pb_ok rec" "chain_seek i offset whence rec lt = (r, lt')"
  shows "live_ok lt' \<and> lt_recorder lt' \<noteq> None \<and> ch_current lt' = ch_current lt \<and> ch_last lt' = ch_last lt
    \<and> ch_switchOnCreate lt' = ch_switchOnCreate lt"
proof -
  obtain t1 rec1 where 1: "TransferSeek75 offset whence (nth_transfer lt i) rec = (r, t1, rec1)"
    "lt' = (set_transfer i t1 lt)\<lparr>lt_recorder := Some rec1\<rparr>"
    using assms(4) by (auto simp: chain_seek_def split: prod.splits)
  have "pb_ok t1 \<and> pb_ok rec1" using TransferSeek75_ok [OF assms(3) live_okD(5) [OF assms(1,2)] 1(1)] .
  with 1 live_ok_transfer [OF assms(1,2), of t1] TransferSeek75_path [OF 1(1)] show ?thesis
    by (auto intro: live_ok_recorder)
qed

lemma SwitchChainLast_ok:
  assumes "live_ok lt" "SwitchChainLast lt = (ok, lt')"
  shows "live_ok lt' \<and> (ok \<longrightarrow> 0 < ch_current lt') \<and> (0 < ch_current lt \<longrightarrow> 0 < ch_current lt')
    \<and> (lt_recorder lt \<noteq> None \<longrightarrow> lt_recorder lt' \<noteq> None) \<and> ch_switchOnCreate lt' = ch_switchOnCreate lt"
proof -
  obtain o1 lt1 where 1: "SwitchChain (ch_last lt) lt = (o1, lt1)" by force
  note s = SwitchChain_ok [OF assms(1) 1]
  show ?thesis
  proof (cases "o1 \<and> lt_recorder lt1 \<noteq> None")
    case False
    with assms(2) 1 s show ?thesis by (auto simp: SwitchChainLast_def split: if_splits)
  next
    case True
    then obtain rec where rec: "lt_recorder lt1 = Some rec" by auto
    obtain r lt2 where 2: "chain_seek (ch_current lt1 - 1) 0 WHENCE_SET rec lt1 = (r, lt2)" by force
    have "ch_current lt1 - 1 < ch_last lt1" using True s by auto
    from chain_seek_ok [OF _ this _ 2] live_okD(3) [of lt1 rec] rec s assms(2) 1 2 True show ?thesis
      by (auto simp: SwitchChainLast_def)
  qed
qed

lemma new_conn_ok:
  "live_ok lt \<Longrightarrow> new_conn server port lt = (c, lt') \<Longrightarrow> pb_ok c \<and> live_ok lt' \<and> ch_chained lt' = ch_chained lt
     \<and> ch_last lt' = ch_last lt \<and> ch_current lt' = ch_current lt \<and> lt_recorder lt' = lt_recorder lt \<and> ch_switchOnCreate lt' = ch_switchOnCreate lt"
proof (cases "lt_conns lt")
  case Nil
  assume "live_ok lt" "new_conn server port lt = (c, lt')"
  with Nil show ?thesis by (auto simp: new_conn_def ProtoBase_new_ok)
next
  case (Cons d ds)
  have "pb_ok (d\<lparr>m_server := server, m_port := port\<rparr>) = pb_ok d"
    by (simp add: pb_ok_def pb_inv_def pb_quiet_def)
  moreover assume "live_ok lt" "new_conn server port lt = (c, lt')"
  ultimately show ?thesis using Cons by (auto simp: new_conn_def live_ok_def)
qed

lemma new_transfer_simps [simp]:
  "GetSize (ProtoTransfer_new c path sg) = 0" "m_pathName (ProtoTransfer_new c path sg) = path"
  by (simp_all add: ProtoTransfer_new_def protobase.defs GetSize_def)

text \<open>The branch that would switch at once to the new file is never taken.\<close>

lemma add_transfer_ok:
  assumes "live_ok lt" "\<not> IsChained prog lt"
  shows "live_ok (add_transfer prog lt) \<and> ch_current (add_transfer prog lt) = ch_current lt
    \<and> (lt_recorder lt \<noteq> None \<longrightarrow> lt_recorder (add_transfer prog lt) \<noteq> None)
    \<and> ch_switchOnCreate (add_transfer prog lt) = ch_switchOnCreate lt"
proof (cases "lt_recorder lt")
  case None
  with assms show ?thesis by (simp add: add_transfer_def)
next
  case (Some rec)
  obtain conn lt0 where 0: "new_conn (m_server rec) (m_port rec) lt = (conn, lt0)" by force
  note n = new_conn_ok [OF assms(1) 0]
  let ?t = "ProtoTransfer_new conn (fileName prog) (storageGroup (recording prog))"
  let ?lt1 = "lt0\<lparr>ch_chained := ch_chained lt0 @ [(?t, prog)], ch_last := length (ch_chained lt0) + 1\<rparr>"
  have "fileName prog \<notin> (m_pathName \<circ> fst) ` set (ch_chained lt)"
    using assms(2) by (force simp: IsChained_def list_ex_iff)
  then have ok1: "live_ok ?lt1"
    using n assms(1) ProtoTransfer_new_ok [of conn] by (auto simp: live_ok_def)
  define lt2 where "lt2 = (if ch_last ?lt1 > 1 \<and> GetSize (nth_transfer ?lt1 (ch_last ?lt1 - 2)) = 0
    then set_transfer (ch_last ?lt1 - 2) (transfer_Close (nth_transfer ?lt1 (ch_last ?lt1 - 2))) ?lt1 else ?lt1)"
  have "ch_last ?lt1 > 1 \<Longrightarrow> ch_last ?lt1 - 2 < ch_last ?lt1" by auto
  then have "live_ok lt2" unfolding lt2_def
    using ok1 live_ok_transfer [OF ok1] transfer_Close_ok live_okD(5) [OF ok1] by auto
  moreover have "ch_current lt2 = ch_current lt" "lt_recorder lt2 = lt_recorder lt" "ch_switchOnCreate lt2 = ch_switchOnCreate lt"
    using n by (simp_all add: lt2_def)
  moreover have "add_transfer prog lt = lt2\<lparr>ch_watch := False\<rparr>"
    using Some 0 by (simp add: add_transfer_def Let_def lt2_def)
  ultimately show ?thesis by simp
qed

text \<open>The steps of the event thread and of the reader: they keep the invariant and the recorder, and
  the wait for the first file ends only with a file to watch.\<close>

definition watched :: "livetv \<Rightarrow> bool" where
  "watched lt \<longleftrightarrow> ch_switchOnCreate lt \<or> 0 < ch_current lt"

definition live_keeps :: "livetv \<Rightarrow> livetv \<Rightarrow> bool" where
  "live_keeps lt lt' \<longleftrightarrow> (live_ok lt \<longrightarrow> live_ok lt' \<and> (lt_recorder lt \<noteq> None \<longrightarrow> lt_recorder lt' \<noteq> None)
     \<and> (watched lt \<longrightarrow> watched lt')
     \<and> (0 < ch_current lt \<longrightarrow> 0 < ch_current lt'))"

lemma live_keeps_refl [simp]: "live_keeps lt lt"
  by (simp add: live_keeps_def)

lemma live_keeps_trans: "live_keeps a b \<Longrightarrow> live_keeps b c \<Longrightarrow> live_keeps a c"
  by (auto simp: live_keeps_def)

lemma live_keeps_recorder: "(live_ok lt \<Longrightarrow> pb_ok rec) \<Longrightarrow> live_keeps lt (lt\<lparr>lt_recorder := Some rec\<rparr>)"
  by (auto simp: live_keeps_def watched_def live_ok_recorder)

lemma live_keeps_flags [simp]:
  "live_keeps lt (lt'\<lparr>ch_watch := a\<rparr>) = live_keeps lt lt'" "live_keeps lt (lt'\<lparr>lt_signal := b\<rparr>) = live_keeps lt lt'"
  "live_keeps lt (lt'\<lparr>lt_buffer := c\<rparr>) = live_keeps lt lt'"
  by (simp_all add: live_keeps_def watched_def)

lemma SwitchChain_keeps: "SwitchChain n lt = (ok, lt') \<Longrightarrow> live_keeps lt lt'"
  using SwitchChain_ok [of lt n ok lt'] by (cases ok) (auto simp: live_keeps_def watched_def)

lemma SwitchChainLast_keeps:
  "SwitchChainLast lt = (ok, lt') \<Longrightarrow> live_keeps lt lt'"
  "SwitchChainLast lt = (True, lt') \<Longrightarrow> live_keeps lt (lt'\<lparr>ch_switchOnCreate := False\<rparr>)"
  using SwitchChainLast_ok [of lt ok lt'] SwitchChainLast_ok [of lt True lt'] by (auto simp: live_keeps_def watched_def)

lemma chain_seek_keeps:
  "i < ch_last lt \<Longrightarrow> pb_ok rec \<Longrightarrow> chain_seek i offset whence rec lt = (r, lt') \<Longrightarrow> live_keeps lt lt'"
  using chain_seek_ok [of lt i rec offset whence r lt'] by (auto simp: live_keeps_def watched_def)

lemma HandleChainUpdate_keeps: "live_keeps lt (HandleChainUpdate lc lt)"
proof (cases "lt_recorder lt")
  case None
  then show ?thesis by (simp add: HandleChainUpdate_def)
next
  case (Some rec)
  obtain prog rec1 where 1: "GetCurrentRecording75 lc rec = (prog, rec1)" by force
  let ?lt = "lt\<lparr>lt_recorder := Some rec1\<rparr>"
  have k: "live_keeps lt ?lt"
    using passive_operations(2) [OF _ 1] live_okD(3) [of lt rec] Some by (intro live_keeps_recorder) blast
  have "live_keeps ?lt (add_transfer p ?lt)" if "\<not> IsChained p ?lt" for p
    using add_transfer_ok [OF _ that] by (auto simp: live_keeps_def watched_def)
  with k live_keeps_trans [OF k] Some 1 show ?thesis
    by (auto simp: HandleChainUpdate_def Let_def split: option.splits)
qed

lemma chain_retry_keeps: "live_keeps lt (chain_retry k lc lt)"
proof (induction k arbitrary: lt)
  case (Suc k)
  show ?case
    using HandleChainUpdate_keeps [of lt lc] Suc.IH [of "HandleChainUpdate lc lt"]
    by (auto simp: Let_def split: option.splits intro: live_keeps_trans)
qed simp

lemma set_size_keeps: "i < ch_last lt \<Longrightarrow> live_keeps lt (set_transfer i (SetSize x (nth_transfer lt i)) lt)"
proof -
  assume i: "i < ch_last lt"
  have "pb_ok (nth_transfer lt i) \<Longrightarrow> pb_ok (SetSize x (nth_transfer lt i))" by (simp add: SetSize_def)
  with i live_ok_transfer [of lt i] live_okD(5) [of lt i] show ?thesis
    by (auto simp: live_keeps_def watched_def)
qed

lemma update_file_size_keeps: "live_keeps lt (update_file_size z subject lt)"
proof (cases "ch_last lt > 0")
  case False
  then show ?thesis by (simp add: update_file_size_def)
next
  case True
  define i where "i = ch_last lt - 1"
  obtain t p where tp: "ch_chained lt ! i = (t, p)" by force
  have t: "nth_transfer lt i = t" using tp by (simp add: nth_transfer_def)
  show ?thesis
  proof (cases "file_size_event z subject p")
    case None
    with tp show ?thesis by (simp add: update_file_size_def i_def Let_def)
  next
    case (Some newsize)
    let ?lt = "set_transfer i (SetSize newsize t) lt"
    have k: "live_keeps lt ?lt" using set_size_keeps [of i lt newsize] True t by (simp add: i_def)
    obtain ok lt2 where 2: "SwitchChainLast ?lt = (ok, lt2)" by force
    have "live_keeps lt lt2" "ok \<Longrightarrow> live_keeps lt (lt2\<lparr>ch_switchOnCreate := False\<rparr>)"
      using 2 k SwitchChainLast_keeps [of ?lt] by (auto intro: live_keeps_trans)
    with k 2 True tp Some show ?thesis by (simp add: update_file_size_def i_def Let_def)
  qed
qed

lemma lt_HandleBackendMessage_keeps: "live_keeps lt (lt_HandleBackendMessage lc z msg lt)"
proof (cases "lt_recorder lt")
  case None
  then show ?thesis by (simp add: lt_HandleBackendMessage_def)
next
  case (Some rec)
  have d: "live_keeps lt (lt\<lparr>lt_recorder := Some (DoneRecordingCallback rec)\<rparr>)"
    using live_okD(3) [of lt rec] Some by (intro live_keeps_recorder) (simp add: DoneRecordingCallback_def)
  note c = live_keeps_trans [OF d chain_retry_keeps [of _ 10 lc]]
  show ?thesis using Some d c HandleChainUpdate_keeps [of lt lc] update_file_size_keeps [of lt z "ev_subject msg"]
    by (cases "ev_event msg") (auto simp: lt_HandleBackendMessage_def Let_def split: sum.splits)
qed

lemma fold_messages_keeps: "live_keeps lt (fold (lt_HandleBackendMessage lc z) msgs lt)"
  by (induction msgs arbitrary: lt) (auto intro: live_keeps_trans [OF lt_HandleBackendMessage_keeps])

lemma tune_wait_keeps:
  "tune_wait lc z ticks lt = (ok, lt') \<Longrightarrow> live_keeps lt lt' \<and> (ok \<longrightarrow> \<not> ch_switchOnCreate lt')"
proof (induction ticks arbitrary: lt)
  case (Cons msgs ticks)
  let ?lt = "fold (lt_HandleBackendMessage lc z) msgs lt"
  from Cons.prems Cons.IH [of ?lt] fold_messages_keeps [of lt lc z msgs] show ?case
    by (auto simp: Let_def split: if_splits intro: live_keeps_trans)
qed simp

section \<open>Tuning keeps the invariant\<close>

lemma live_monitor_ok:
  assumes "pb_ok m"
  shows "pb_ok (snd (GetRecorderFromNum75 n m))" "pb_ok (snd (mon_GetFreeInputs n m))" "pb_ok (snd (UndeleteRecording75 lc p m))"
    "pb_ok (snd (QueryGenpixmap75 lc p m))" "pb_ok (snd (monitor_IsOpen m))" "pb_ok (snd (monitor_Open m))" "pb_ok (monitor_Close m)"
proof -
  note g = guarded_mon_keeps [OF assms]
  have "mon_keeps m (snd (GetRecorderFromNum75 n m))" "mon_keeps m (snd (UndeleteRecording75 lc p m))"
    "mon_keeps m (snd (QueryGenpixmap75 lc p m))"
    unfolding GetRecorderFromNum75_def UndeleteRecording75_def QueryGenpixmap75_def
    by (rule g, simp add: query_bodies snd_case_fst)+
  moreover have "mon_keeps m (snd (mon_GetFreeInputs n m))"
    by (simp add: mon_inputs_defs inputs_per_card_keeps all_inputs_keeps assms)
  ultimately show "pb_ok (snd (GetRecorderFromNum75 n m))" "pb_ok (snd (mon_GetFreeInputs n m))" "pb_ok (snd (UndeleteRecording75 lc p m))"
    "pb_ok (snd (QueryGenpixmap75 lc p m))" by (simp_all add: mon_keeps_def)
  show "pb_ok (snd (monitor_Open m))" by (rule monitor.opn_ok [OF assms])
  show "pb_ok (snd (monitor_IsOpen m))" using monitor.is_open_keeps [OF assms] by (cases "monitor_IsOpen m") auto
  show "pb_ok (monitor_Close m)" using reset_Close_ok [OF assms] by (simp add: monitor_Close_def reset_Close_def)
qed

lemma ProtoRecorder_new_ok: "pb_ok pb \<Longrightarrow> pb_ok (ProtoRecorder_new pb num)"
  unfolding ProtoRecorder_new_def by (rule playback.opn_ok) (simp add: protobase.defs pb_ok_def pb_inv_def pb_quiet_def)

lemma InitChain_ok: "live_ok lt \<Longrightarrow> live_ok (InitChain z now lt)"
  by (simp add: InitChain_def live_ok_def)

lemma ClearChain_ok: "live_ok lt \<Longrightarrow> live_ok (ClearChain lt)"
  by (simp add: ClearChain_def live_ok_def)

lemma try_card_ok:
  assumes "live_ok lt" "try_card lc z now ticks crd lt = Some (ok, lt')"
  shows "live_ok lt' \<and> (if ok then 0 < ch_current lt' \<and> lt_recorder lt' \<noteq> None else ch_chained lt' = [] \<and> ch_current lt' = 0)"
proof -
  let ?lt0 = "InitChain z now lt"
  obtain x m1 where 0: "GetRecorderFromNum75 (ucast (in_cardId (fst crd))) (lt_mon ?lt0) = (x, m1)" by force
  with assms(2) obtain num host port where x: "x = Some (num, host, port)"
    by (auto simp: try_card_def Let_def split: option.splits)
  have ok0: "live_ok (?lt0\<lparr>lt_mon := m1\<rparr>)"
    using live_ok_mon [OF InitChain_ok [OF assms(1)]] live_monitor_ok(1) [OF live_okD(4) [OF InitChain_ok [OF assms(1)]]] 0
    by (metis snd_conv)
  obtain conn lt1 where 1: "new_conn host (unat port) (?lt0\<lparr>lt_mon := m1\<rparr>) = (conn, lt1)" by force
  note n = new_conn_ok [OF ok0 1]
  let ?lt2 = "lt1\<lparr>ch_switchOnCreate := True, ch_watch := True\<rparr>"
  obtain o2 rec where 2: "SpawnLiveTV75 (ch_UID ?lt2) (chanNum (snd crd)) (ProtoRecorder_new conn num) = (o2, rec)" by force
  have rec: "pb_ok rec" using SpawnLiveTV75_flags [OF _ 2] ProtoRecorder_new_ok n by blast
  let ?lt3 = "?lt2\<lparr>lt_recorder := Some rec\<rparr>"
  have ok3: "live_ok ?lt3" using n rec by (intro live_ok_recorder) simp_all
  show ?thesis
  proof (cases o2)
    case False
    with assms(2) 0 x 1 2 ClearChain_ok [OF ok3] show ?thesis
      by (auto simp: try_card_def Let_def ClearChain_def)
  next
    case True
    obtain o4 lt4 where 4: "tune_wait lc z ticks ?lt3 = (o4, lt4)" by force
    have w: "watched ?lt3" by (simp add: watched_def)
    from tune_wait_keeps [OF 4] ok3 w have k: "live_ok lt4" "lt_recorder lt4 \<noteq> None" "o4 \<longrightarrow> 0 < ch_current lt4"
      by (auto simp: live_keeps_def watched_def)
    then obtain rec4 where r4: "lt_recorder lt4 = Some rec4" by auto
    have s4: "pb_ok (snd (StopLiveTV75 rec4))"
      using StopLiveTV75_flags [of rec4 "fst (StopLiveTV75 rec4)" "snd (StopLiveTV75 rec4)"] live_okD(3) [OF k(1) r4] by simp
    have "try_card lc z now ticks crd lt = (if o4 then Some (True, lt4)
        else Some (False, ClearChain (lt4\<lparr>lt_recorder := Some (snd (StopLiveTV75 rec4))\<rparr>)))"
      using True 0 x 1 2 4 r4 by (simp add: try_card_def Let_def)
    with assms(2) k ClearChain_ok [OF live_ok_recorder [OF k(1) s4]] show ?thesis
      by (auto simp: ClearChain_def split: if_splits)
  qed
qed

lemma try_cards_ok:
  "live_ok lt \<Longrightarrow> try_cards lc z now tickss cards lt = Some (ok, lt') \<Longrightarrow>
     live_ok lt' \<and> (ok \<longrightarrow> 0 < ch_current lt' \<and> lt_recorder lt' \<noteq> None) \<and> (\<not> ok \<longrightarrow> cards \<noteq> [] \<longrightarrow> ch_chained lt' = [] \<and> ch_current lt' = 0)"
proof (induction cards arbitrary: lt tickss)
  case (Cons c cards)
  obtain k crd where c: "c = (k, crd)" by (rule prod.exhaust)
  let ?ticks = "case tickss of [] \<Rightarrow> [] | ticks # _ \<Rightarrow> ticks"
  from Cons.prems(2) c obtain o1 lt1 where 1: "try_card lc z now ?ticks crd lt = Some (o1, lt1)"
    by (auto split: option.splits)
  note t = try_card_ok [OF Cons.prems(1) 1]
  show ?case
  proof (cases "o1 \<or> lt_limitTuneAttempts lt1")
    case True
    with Cons.prems(2) c 1 t show ?thesis by (auto split: bool.splits)
  next
    case False
    with Cons.prems(2) c 1 have 2: "try_cards lc z now (case tickss of [] \<Rightarrow> [] | _ # r \<Rightarrow> r) cards lt1 = Some (ok, lt')" by auto
    from Cons.IH [OF _ 2] t False show ?thesis using 2 by (cases "cards = []") auto
  qed
qed simp

lemma lt_StopLiveTV_ok: "live_ok lt \<Longrightarrow> live_ok (lt_StopLiveTV lt)"
proof (cases "lt_recorder lt")
  case (Some rec)
  assume ok: "live_ok lt"
  obtain b rec1 where 1: "StopLiveTV75 rec = (b, rec1)" by force
  have "pb_ok rec1" using StopLiveTV75_flags [OF live_okD(3) [OF ok Some] 1] by blast
  with ok Some 1 show ?thesis by (auto simp: lt_StopLiveTV_def live_ok_recorder live_ok_no_recorder)
qed (simp add: lt_StopLiveTV_def)

lemma lt_SpawnLiveTV_ok:
  assumes "live_ok lt" "lt_SpawnLiveTV lc z now tickss num channels lt = Some (ok, lt')"
  shows "live_ok lt' \<and> (ok \<longrightarrow> 0 < ch_current lt' \<and> lt_recorder lt' \<noteq> None)"
proof -
  obtain o1 m1 where 1: "monitor_IsOpen (lt_mon lt) = (o1, m1)" by force
  have k1: "live_ok (lt\<lparr>lt_mon := m1\<rparr>)"
    using live_ok_mon [OF assms(1)] live_monitor_ok(5) [OF live_okD(4) [OF assms(1)]] 1 by (metis snd_conv)
  let ?lt = "lt_StopLiveTV (lt\<lparr>lt_mon := m1\<rparr>)"
  have k2: "live_ok ?lt" by (rule lt_StopLiveTV_ok [OF k1])
  obtain inputs m2 where 2: "mon_GetFreeInputs 0 (lt_mon ?lt) = (inputs, m2)" by force
  have k3: "live_ok (?lt\<lparr>lt_mon := m2\<rparr>)"
    using live_ok_mon [OF k2] live_monitor_ok(2) [OF live_okD(4) [OF k2], of 0] 2 by (metis snd_conv)
  from try_cards_ok [OF k3] assms(2) 1 2 k1 show ?thesis
    by (auto simp: lt_SpawnLiveTV_def FindTunableCardIds_def Let_def split: if_splits)
qed

section \<open>Seeking within the chain\<close>

lemma seek_in_file_keeps:
  assumes "ci < ch_last lt" "lt_recorder lt = Some rec" "seek_in_file ci p pos rec lt = (r, lt')"
  shows "live_keeps lt lt'"
proof -
  obtain r1 lt1 where 1: "chain_seek ci (p - pos) WHENCE_CUR rec lt = (r1, lt1)" by force
  obtain o2 lt2 where 2: "SwitchChain (ci + 1) lt1 = (o2, lt2)" by force
  have "live_keeps lt lt1" using chain_seek_ok [OF _ assms(1) _ 1] live_okD(3) [OF _ assms(2)] by (auto simp: live_keeps_def watched_def)
  with SwitchChain_keeps [OF 2] assms(3) 1 2 show ?thesis
    by (auto simp: seek_in_file_def split: if_splits intro: live_keeps_trans)
qed

lemma seek_forward_keeps:
  "lt_recorder lt = Some rec \<Longrightarrow> ci < ch_last lt \<Longrightarrow> seek_forward ci p pos rec lt = (r, lt') \<Longrightarrow> live_keeps lt lt'"
proof (induction ci p pos rec lt rule: seek_forward.induct)
  case (1 ci p pos rec lt)
  show ?case
    using 1(1) [OF refl _ _ 1(2)] 1(4) seek_in_file_keeps [OF 1(3,2)]
    by (subst (asm) (2) seek_forward.simps) (auto simp: Let_def split: if_splits)
qed

lemma seek_backward_keeps:
  "lt_recorder lt = Some rec \<Longrightarrow> ci < ch_last lt \<Longrightarrow> seek_backward ci p pos rec lt = (r, lt') \<Longrightarrow> live_keeps lt lt'"
proof (induction ci arbitrary: pos)
  case 0
  then show ?case using seek_in_file_keeps by (auto simp: seek_backward.simps [of 0] split: if_splits)
next
  case (Suc ci)
  then show ?case using seek_in_file_keeps [of "Suc ci"] by (auto simp: seek_backward.simps [of "Suc ci"] split: if_splits)
qed

end
