(* ===== verification/LiveStream.thy ===== *)
theory LiveStream
  imports LiveTV "HOL-Library.Multiset"
begin

text \<open>
  Live TV, continued: the reader and the seeks keep the invariant of the chain, the order in which cards are
  tried, where a seek over several files lands, and what a program can rely on whatever it calls.
\<close>

section \<open>Reading and seeking keep the invariant\<close>

lemma lt_seek_keeps: "lt_seek offset whence lt = (r, lt') \<Longrightarrow> live_keeps lt lt'"
proof (cases "live_ok lt \<and> 0 < ch_current lt \<and> lt_recorder lt \<noteq> None")
  case False
  assume "lt_seek offset whence lt = (r, lt')"
  with False show ?thesis by (auto simp: lt_seek_def live_keeps_def split: option.splits)
next
  case True
  then obtain rec where rec: "lt_recorder lt = Some rec" by auto
  have ci: "ch_current lt - 1 < ch_last lt" using True live_okD(2) [of lt] by linarith
  assume "lt_seek offset whence lt = (r, lt')"
  with True rec seek_forward_keeps [OF rec ci] seek_backward_keeps [OF rec ci] show ?thesis
    by (auto simp: lt_seek_def Let_def split: if_splits)
qed

lemma lt_Seek_keeps: "lt_Seek offset whence lt = (r, lt') \<Longrightarrow> live_keeps lt lt'"
proof -
  have b: "live_keeps lt (lt\<lparr>lt_buffer := x\<rparr>)" for x by simp
  assume "lt_Seek offset whence lt = (r, lt')"
  then show ?thesis using live_keeps_trans [OF b lt_seek_keeps]
    by (auto simp: lt_Seek_def Let_def split: if_splits prod.splits intro: lt_seek_keeps)
qed

lemma chain_seek_current_keeps:
  assumes "live_ok lt" "0 < ch_current lt" "lt_recorder lt = Some rec"
  shows "live_keeps lt (snd (chain_seek (ch_current lt - 1) offset whence rec lt))"
proof -
  have "ch_current lt - 1 < ch_last lt" using assms(2) live_okD(2) [OF assms(1)] by linarith
  then show ?thesis
    using chain_seek_keeps [OF _ live_okD(3) [OF assms(1,3)]] by (cases "chain_seek (ch_current lt - 1) offset whence rec lt") auto
qed


lemma switch_next_keeps:
  assumes "SwitchChain (ch_current lt + 1) lt = (True, lt1)"
  shows "live_keeps lt (if GetPosition (nth_transfer lt1 (ch_current lt1 - 1)) \<noteq> 0
      then (case lt_recorder lt1 of
              None \<Rightarrow> lt1
            | Some rec1 \<Rightarrow> snd (chain_seek (ch_current lt1 - 1) 0 WHENCE_SET rec1 lt1))
      else lt1)" (is "live_keeps lt ?lt2")
proof (cases "live_ok lt")
  case False
  then show ?thesis by (simp add: live_keeps_def)
next
  case True
  note s = SwitchChain_ok [OF True assms]
  have "live_keeps lt1 ?lt2"
    using chain_seek_current_keeps [of lt1] s by (simp split: option.split)
  then show ?thesis by (rule live_keeps_trans [OF SwitchChain_keeps [OF assms]])
qed

text \<open>The branches of a round of \<open>find_data\<close>.\<close>

lemma find_data_branches:
  assumes "(if a then (if b then (if c then f1 else n1) else if d then (if e then f2 else n2) else n3)
            else if \<not> g then r0 else f3) = r"
    and "f1 = r \<Longrightarrow> P" "n1 = r \<Longrightarrow> P" "f2 = r \<Longrightarrow> P" "n2 = r \<Longrightarrow> P" "n3 = r \<Longrightarrow> P"
    and "r0 = r \<Longrightarrow> P" "g \<Longrightarrow> f3 = r \<Longrightarrow> P"
  shows P
  using assms by (cases a; cases b; cases c; cases d; cases e; cases g) simp_all

lemma find_data_keeps:
  "0 < ch_current lt \<Longrightarrow> live_ok lt \<Longrightarrow> find_data w obs lc z fp ahead lt = Some (x, lt') \<Longrightarrow> live_keeps lt lt'"
proof (induction obs arbitrary: w ahead lt)
  case Nil
  then show ?case by (subst (asm) find_data.simps) (auto simp: Let_def split: if_splits)
next
  case (Cons ob obs)
  obtain over msgs where ob: "ob = (over, msgs)" by force
  let ?cur = "nth_transfer lt (ch_current lt - 1)"
  let ?rs = "GetRemaining ?cur"
  show ?case
  proof (cases "\<not> w \<and> ?rs \<noteq> 0 \<or> lt_recorder lt = None")
    case True
    with Cons.prems ob show ?thesis by (subst (asm) find_data.simps) (auto simp: Let_def split: if_splits)
  next
    case False
    then obtain rec where rec: "lt_recorder lt = Some rec" and rs: "w \<or> ?rs = 0" by auto
    have again: "live_keeps lt lt'" if "live_keeps lt lt1" "find_data v obs lc z fp a lt1 = Some (x, lt')" for v lt1 a
      using Cons.IH [OF _ _ that(2)] that(1) Cons.prems(1,2) by (auto simp: live_keeps_def)
    let ?next = "\<lambda>lt1. if over then Some (Inl 0, lt1) else find_data True obs lc z fp True (fold (lt_HandleBackendMessage lc z) msgs lt1)"
    have nxt: "live_keeps lt lt'" if "live_keeps lt lt1" "?next lt1 = Some (x, lt')" for lt1
      using that again [of "fold (lt_HandleBackendMessage lc z) msgs lt1"] live_keeps_trans [OF that(1) fold_messages_keeps]
      by (auto split: if_splits)
    obtain rp rec1 where g: "GetFilePosition75 rec = (rp, rec1)" by force
    have r1: "pb_ok rec1" using passive_operations(3) [OF live_okD(3) [OF Cons.prems(2) rec] g] by blast
    have k1: "live_keeps lt (lt\<lparr>lt_recorder := Some rec1\<rparr>)" by (rule live_keeps_recorder [OF r1])
    have k2: "live_keeps lt (set_transfer (ch_current lt - 1) (SetSize rp ?cur) (lt\<lparr>lt_recorder := Some rec1\<rparr>))"
    proof (rule live_keeps_trans [OF k1])
      have "ch_current lt - 1 < ch_last lt" using Cons.prems(1) live_okD(2) [OF Cons.prems(2)] by linarith
      then show "live_keeps (lt\<lparr>lt_recorder := Some rec1\<rparr>) (set_transfer (ch_current lt - 1) (SetSize rp ?cur) (lt\<lparr>lt_recorder := Some rec1\<rparr>))"
        using set_size_keeps [of "ch_current lt - 1" "lt\<lparr>lt_recorder := Some rec1\<rparr>" rp] by (simp add: nth_transfer_def)
    qed
    define lt2 where "lt2 = snd (SwitchChainLast (HandleChainUpdate lc lt))"
    have k3: "live_keeps lt lt2"
      using live_keeps_trans [OF HandleChainUpdate_keeps SwitchChainLast_keeps(1)] by (metis lt2_def prod.collapse)
    obtain o3 lt3 where 3: "SwitchChain (ch_current lt + 1) lt = (o3, lt3)" by force
    note k4 = SwitchChain_keeps [OF 3]
    let ?lt4 = "if GetPosition (nth_transfer lt3 (ch_current lt3 - 1)) \<noteq> 0
      then (case lt_recorder lt3 of None \<Rightarrow> lt3 | Some rec1 \<Rightarrow> snd (chain_seek (ch_current lt3 - 1) 0 WHENCE_SET rec1 lt3)) else lt3"
    have k5: "o3 \<Longrightarrow> live_keeps lt ?lt4" using switch_next_keeps [of lt lt3] 3 by simp
    have e: "find_data w (ob # obs) lc z fp ahead lt =
        (if ch_current lt = ch_last lt
         then (if sint fp > 0
               then (if sint rp > sint fp
                     then find_data False obs lc z fp True (set_transfer (ch_current lt - 1) (SetSize rp ?cur) (lt\<lparr>lt_recorder := Some rec1\<rparr>))
                     else ?next (lt\<lparr>lt_recorder := Some rec1\<rparr>))
               else if fp = 0
               then (if sint (GetSize (nth_transfer lt2 (ch_current lt2 - 1))) > 0 then find_data False obs lc z fp True lt2 else ?next lt2)
               else ?next lt)
         else if \<not> o3 then Some (Inl (-1), lt3) else find_data False obs lc z fp False ?lt4)"
    proof -
      have "(\<not> w \<and> sint ?rs < 0) = False" "(\<not> w \<and> ?rs \<noteq> 0) = False" using rs by auto
      moreover have "ch_current (lt\<lparr>lt_recorder := Some rec1\<rparr>) = ch_current lt" by simp
      ultimately show ?thesis
        by (subst find_data.simps) (simp only: rec g 3 lt2_def Let_def ob list.case option.case prod.case if_False)
    qed
    show ?thesis
    proof (rule find_data_branches [OF trans [OF sym [OF e] Cons.prems(3)]])
      show "Some (Inl (- 1), lt3) = Some (x, lt') \<Longrightarrow> live_keeps lt lt'" using k4 by simp
    qed (erule again [OF k2] nxt [OF k1] again [OF k3] nxt [OF k3] nxt [OF live_keeps_refl] again [OF k5], assumption?)+
  qed
qed

lemma request_blocks_keeps:
  "0 < ch_current lt \<Longrightarrow> live_ok lt \<Longrightarrow> request_blocks k evss ahead n lt = Some (r, out, lt') \<Longrightarrow> live_keeps lt lt'"
proof (induction k arbitrary: evss lt)
  case (Suc k)
  show ?case
  proof (cases "lt_recorder lt = None \<or> evss = []")
    case True
    with Suc.prems show ?thesis by (auto split: list.splits)
  next
    case False
    then obtain rec evs evss1 where rec: "lt_recorder lt = Some rec" and evss: "evss = evs # evss1"
      by (auto simp: neq_Nil_conv)
    let ?i = "ch_current lt - 1"
    from Suc.prems(3) rec evss obtain r1 out1 t1 rec1 where 1: "TransferRequestBlock evs n (nth_transfer lt ?i) rec = Some (r1, out1, t1, rec1)"
      by (auto split: option.splits)
    let ?lt1 = "(set_transfer ?i t1 lt)\<lparr>lt_recorder := Some rec1\<rparr>"
    have i: "?i < ch_last lt" using Suc.prems(1) live_okD(2) [OF Suc.prems(2)] by linarith
    have ok: "pb_ok rec1" "pb_ok t1" "m_pathName t1 = m_pathName (nth_transfer lt ?i)"
      using TransferRequestBlock_keeps [OF 1] live_okD(3) [OF Suc.prems(2) rec] live_okD(5) [OF Suc.prems(2) i]
      by (auto simp: pb_keeps_def same_file_def)
    have "live_ok ?lt1" by (rule live_ok_recorder [OF live_ok_transfer [OF Suc.prems(2) i ok(2,3)] ok(1)])
    then have k1: "live_keeps lt ?lt1" by (simp add: live_keeps_def watched_def)
    from Suc.prems(3) rec evss 1 have "lt' = ?lt1 \<or> request_blocks k evss1 ahead n ?lt1 = Some (r, out, lt')"
      by (auto simp: Let_def split: if_splits)
    with k1 Suc.IH [of ?lt1 evss1] Suc.prems(1) \<open>live_ok ?lt1\<close> show ?thesis by (auto intro: live_keeps_trans)
  qed
qed simp

lemma lt_read_keeps:
  assumes "lt_read lc z env n lt = Some (r, out, lt')"
  shows "live_keeps lt lt'"
proof (cases "ch_current lt = 0 \<or> lt_recorder lt = None \<or> \<not> live_ok lt")
  case True
  with assms show ?thesis by (auto simp: lt_read_def live_keeps_def split: if_splits)
next
  case False
  with assms obtain x lt1 where 1: "find_data False (fst env) lc z (GetPosition (nth_transfer lt (ch_current lt - 1))) False lt = Some (x, lt1)"
    by (auto simp: lt_read_def split: option.splits)
  have k1: "live_keeps lt lt1" using find_data_keeps [OF _ _ 1] False by auto
  then have ok1: "live_ok lt1" "0 < ch_current lt1" using False by (auto simp: live_keeps_def)
  from assms 1 False have "lt' = lt1 \<or> (\<exists>a m. request_blocks 10 (snd env) a m lt1 = Some (r, out, lt'))"
    by (auto simp: lt_read_def split: sum.splits prod.splits)
  with k1 request_blocks_keeps [OF ok1(2,1)] show ?thesis by (auto intro: live_keeps_trans)
qed

lemma read_loop_keeps:
  assumes "\<And>n s r d s'. rd n s = Some (r, d, s') \<Longrightarrow> R s s'" "\<And>s. R s s" "\<And>a b c. R a b \<Longrightarrow> R b c \<Longrightarrow> R a c"
  shows "read_loop k rd junk chunk n (b, s) = Some (r, out, b', s') \<Longrightarrow> R s s'"
proof (induction k arbitrary: b s)
  case (Suc k)
  then show ?case
    by (auto split: option.splits prod.splits if_splits intro: assms)
qed simp

lemma lt_Read_keeps:
  assumes "lt_Read lc z junk env n lt = Some (r, out, lt')"
  shows "live_keeps lt lt'"
proof -
  from assms obtain b lt1 where "read_loop 2 (lt_read lc z env) junk (lt_chunk lt) n (lt_buffer lt, lt) = Some (r, out, b, lt1)"
    "lt' = lt1\<lparr>lt_buffer := b\<rparr>" by (auto simp: lt_Read_def buffered_Read_def split: if_splits)
  moreover from this(1) have "live_keeps lt lt1"
    by (rule read_loop_keeps [rotated 3]) (auto intro: lt_read_keeps live_keeps_trans)
  ultimately show ?thesis by simp
qed

lemma KeepLiveRecording_ok:
  assumes "live_ok lt" "KeepLiveRecording lc keep lt = (ok, lt')"
  shows "live_ok lt'"
proof (cases "lt_recorder lt")
  case None
  with assms show ?thesis by (simp add: KeepLiveRecording_def)
next
  case (Some rec)
  obtain prog rec1 where 1: "GetCurrentRecording75 lc rec = (prog, rec1)" by force
  have r1: "pb_ok rec1" using passive_operations(2) [OF live_okD(3) [OF assms(1) Some] 1] by blast
  obtain o2 rec2 where 2: "SetLiveRecording keep rec1 = (o2, rec2)" by force
  have r2: "pb_ok rec2" using SetLiveRecording_flags [OF r1 2] by blast
  obtain o3 rec3 where 3: "FinishRecording75 rec2 = (o3, rec3)" by force
  have r3: "pb_ok rec3" using passive_operations(5) [OF r2 3] by blast
  have m1: "pb_ok (snd (UndeleteRecording75 lc p (lt_mon lt)))"
    and m2: "pb_ok (snd (QueryGenpixmap75 lc p (snd (UndeleteRecording75 lc p (lt_mon lt)))))" for p
    using live_monitor_ok live_okD(4) [OF assms(1)] by blast+
  show ?thesis
    using assms Some 1 2 3 r1 r2 r3 m1 m2
    by (auto simp: KeepLiveRecording_def Let_def split: if_splits option.splits prod.splits
        intro!: live_ok_recorder live_ok_mon) (metis snd_conv)+
qed

lemma lt_Open_ok:
  assumes "live_ok lt"
  shows "live_ok (snd (lt_Open started meanwhile lt))"
proof -
  obtain o1 m1 where 1: "monitor_IsOpen (lt_mon lt) = (o1, m1)" by force
  obtain o2 m2 where 2: "monitor_Open m1 = (o2, m2)" by force
  have "pb_ok m1" using live_monitor_ok(5) [OF live_okD(4) [OF assms]] 1 by simp
  moreover from this have "pb_ok m2" using live_monitor_ok(6) [of m1] 2 by simp
  ultimately show ?thesis using assms 1 2 by (auto simp: lt_Open_def intro: live_ok_mon)
qed

lemma lt_Close_ok: "live_ok lt \<Longrightarrow> live_ok (lt_Close lt)"
  using live_monitor_ok(7) [of "lt_mon lt"] by (auto simp: lt_Close_def live_ok_def)

section \<open>The order of the cards\<close>

lemma mm_insert_sorted: "sorted (map fst xs) \<Longrightarrow> sorted (map fst (mm_insert k v xs))"
proof (induction xs)
  case (Cons x xs)
  have "set (map fst (mm_insert k v xs)) = insert k (set (map fst xs))" by (induction xs rule: mm_insert.induct) auto
  with Cons show ?case by (cases x) (auto simp flip: set_map)
qed simp

lemma mm_insert_mset: "mset (mm_insert k v xs) = add_mset (k, v) (mset xs)"
  by (induction k v xs rule: mm_insert.induct) auto

lemma mm_insert_filter:
  "sorted (map fst xs) \<Longrightarrow> filter (\<lambda>x. l = fst x) (mm_insert k v xs) = filter (\<lambda>x. l = fst x) xs @ (if l = k then [(k, v)] else [])"
proof (induction k v xs rule: mm_insert.induct)
  case (2 k v k1 v1 xs)
  have "k < k1 \<Longrightarrow> l = k \<Longrightarrow> filter (\<lambda>x. l = fst x) xs = []" using 2(2) by (force simp: filter_empty_conv)
  with 2 show ?case by auto
qed simp

definition tunable :: "Channel list \<Rightarrow> CardInput list \<Rightarrow> (u8 \<times> CardInput \<times> Channel) list" where
  "tunable chanset inputs =
     List.map_filter (\<lambda>inp. map_option (\<lambda>c. (in_liveTVOrder inp, inp, c))
       (List.find (\<lambda>c. sourceId c = in_sourceId inp \<and> (in_mplexId inp = 0 \<or> in_mplexId inp = mplexId c)) chanset)) inputs"

lemma find_channel_find:
  "find_channel inp cs = List.find (\<lambda>c. sourceId c = in_sourceId inp \<and> (in_mplexId inp = 0 \<or> in_mplexId inp = mplexId c)) cs"
  by (induction inp cs rule: find_channel.induct) auto

lemma prefer_cards_step:
  assumes "sorted (map fst cards)"
  shows "sorted (map fst (prefer_cards cs inps cards)) \<and> mset (prefer_cards cs inps cards) = mset (cards @ tunable cs inps)
    \<and> filter (\<lambda>x. l = fst x) (prefer_cards cs inps cards) = filter (\<lambda>x. l = fst x) (cards @ tunable cs inps)"
  using assms
proof (induction inps arbitrary: cards)
  case (Cons inp inps)
  show ?case
  proof (cases "find_channel inp cs")
    case None
    with Cons.IH [OF Cons.prems] show ?thesis by (simp add: tunable_def find_channel_find List.map_filter_simps)
  next
    case (Some c)
    with Cons.IH [OF mm_insert_sorted [OF Cons.prems], of "in_liveTVOrder inp" "(inp, c)"] show ?thesis
      by (simp add: tunable_def find_channel_find List.map_filter_simps mm_insert_mset mm_insert_filter [OF Cons.prems])
  qed
qed (simp add: tunable_def List.map_filter_simps)

text \<open>C39: The cards that can tune the channel are tried in the order of their priority, and cards of one
  priority in the order in which the server lists them: the list is the stable sort, by the live TV order of the
  input, of the inputs that have a channel, each with the first channel of its source and multiplex.\<close>

theorem cards_in_order:
  "prefer_cards chanset inputs [] = sort_key fst (tunable chanset inputs)"
proof (rule properties_for_sort_key [symmetric])
  note s = prefer_cards_step [of "[]" chanset inputs, simplified]
  show "mset (prefer_cards chanset inputs []) = mset (tunable chanset inputs)" using s by blast
  show "sorted (map fst (prefer_cards chanset inputs []))" using s by blast
  show "filter (\<lambda>x. fst k = fst x) (prefer_cards chanset inputs []) = filter (\<lambda>x. fst k = fst x) (tunable chanset inputs)" for k
    using s by blast
qed

section \<open>Seeking through the chain\<close>

text \<open>Where a file begins in the stream.\<close>

definition chain_base :: "livetv \<Rightarrow> nat \<Rightarrow> i64" where
  "chain_base lt i = sum_list (map (\<lambda>(t, _). GetSize t) (take i (ch_chained lt)))"

lemma chain_base_Suc: "i < length (ch_chained lt) \<Longrightarrow> chain_base lt (Suc i) = chain_base lt i + GetSize (nth_transfer lt i)"
  by (cases "ch_chained lt ! i") (simp add: chain_base_def take_Suc_conv_app_nth nth_transfer_def)

text \<open>The loops end in a file whose begin they have followed.\<close>

lemma seek_forward_file:
  "seek_forward ci p pos rec lt = (r, lt') \<Longrightarrow> r \<noteq> -1 \<Longrightarrow> ch_last lt = length (ch_chained lt) \<Longrightarrow> ci < ch_last lt
    \<Longrightarrow> pos = chain_base lt ci + GetPosition (nth_transfer lt ci)
    \<Longrightarrow> \<exists>i < ch_last lt. seek_in_file i p (chain_base lt i + GetPosition (nth_transfer lt i)) rec lt = (r, lt')"
proof (induction ci p pos rec lt rule: seek_forward.induct)
  case (1 ci p pos rec lt)
  let ?rem = "GetRemaining (nth_transfer lt ci)"
  show ?case
  proof (cases "sint (pos + ?rem) \<ge> sint p")
    case True
    with 1(2,5,6) show ?thesis by (subst (asm) seek_forward.simps) (auto simp: Let_def)
  next
    case False
    with 1(2,3) have c: "ci + 1 < ch_last lt"
      and s: "seek_forward (ci + 1) p (pos + ?rem + GetPosition (nth_transfer lt (ci + 1))) rec lt = (r, lt')"
      by (subst (asm) seek_forward.simps, auto simp: Let_def split: if_splits)+
    have "pos + ?rem = chain_base lt (ci + 1)"
      using 1(4-6) chain_base_Suc [of ci lt] by (simp add: GetRemaining_def GetSize_def GetPosition_def)
    with 1(1) [OF refl False c s 1(3,4) c] show ?thesis by simp
  qed
qed

lemma seek_backward_file:
  "seek_backward ci p pos rec lt = (r, lt') \<Longrightarrow> r \<noteq> -1 \<Longrightarrow> ch_last lt = length (ch_chained lt) \<Longrightarrow> ci < ch_last lt
    \<Longrightarrow> pos = chain_base lt ci + GetPosition (nth_transfer lt ci)
    \<Longrightarrow> \<exists>i < ch_last lt. seek_in_file i p (chain_base lt i + GetPosition (nth_transfer lt i)) rec lt = (r, lt')"
proof (induction ci arbitrary: pos)
  case 0
  then show ?case by (subst (asm) seek_backward.simps) (auto split: if_splits)
next
  case (Suc ci)
  show ?case
  proof (cases "sint (pos - GetPosition (nth_transfer lt (Suc ci))) \<le> sint p")
    case True
    with Suc.prems show ?thesis by (subst (asm) seek_backward.simps) auto
  next
    case False
    let ?pos = "pos - GetPosition (nth_transfer lt (Suc ci)) - GetRemaining (nth_transfer lt ci)"
    have s: "seek_backward ci p ?pos rec lt = (r, lt')" using Suc.prems(1) False by (subst (asm) seek_backward.simps) simp
    have "?pos = chain_base lt ci + GetPosition (nth_transfer lt ci)"
      using Suc.prems(3-5) chain_base_Suc [of ci lt] by (simp add: GetRemaining_def GetSize_def GetPosition_def)
    from Suc.IH [OF s Suc.prems(2,3) _ this] Suc.prems(4) show ?thesis by simp
  qed
qed

text \<open>The server that answers a seek with the position that was asked for.\<close>

definition seek_honoured :: "i64 \<Rightarrow> recorder \<Rightarrow> livetv \<Rightarrow> bool" where
  "seek_honoured p rec lt \<longleftrightarrow> (\<forall>i < ch_last lt. \<forall>r t' rec'.
     TransferSeek75 (p - (chain_base lt i + GetPosition (nth_transfer lt i))) WHENCE_CUR (nth_transfer lt i) rec = (r, t', rec')
       \<and> 0 \<le> sint r \<longrightarrow> r = p - chain_base lt i)"

lemma TransferSeek75_same:
  "TransferSeek75 offset whence t pb = (r, t', pb') \<Longrightarrow> GetSize t' = GetSize t \<and> m_isOpen t' = m_isOpen t"
  by (auto simp: TransferSeek75_def GetSize_def SetPosition_def SetRequested_def Flush_def Let_def
      split: sum.splits if_splits prod.splits option.splits)

lemma seek_in_file_lands:
  assumes "i < length (ch_chained lt)" "ch_last lt = length (ch_chained lt)" "m_isOpen (nth_transfer lt i)" "buffer_unread (lt_buffer lt) = 0"
    "seek_honoured p rec lt" "seek_in_file i p (chain_base lt i + GetPosition (nth_transfer lt i)) rec lt = (r, lt')" "r \<noteq> -1"
  shows "r = p \<and> ch_current lt' = Suc i \<and> lt_GetPosition lt' = p"
proof -
  let ?off = "p - (chain_base lt i + GetPosition (nth_transfer lt i))"
  obtain r1 t1 rec1 where 1: "TransferSeek75 ?off WHENCE_CUR (nth_transfer lt i) rec = (r1, t1, rec1)" by (metis prod_cases3)
  let ?lt1 = "(set_transfer i t1 lt)\<lparr>lt_recorder := Some rec1\<rparr>"
  note f = TransferSeek75_same [OF 1]
  have n: "nth_transfer ?lt1 i = t1" using nth_set_transfer [OF assms(1), of t1 i] by (simp add: nth_transfer_def)
  have "m_isOpen (nth_transfer ?lt1 i)" using n f assms(3) by simp
  then have sw: "SwitchChain (Suc i) ?lt1 = (True, ?lt1\<lparr>ch_current := Suc i\<rparr>)"
    using assms(1,2) by (simp add: SwitchChain_def Let_def)
  have c: "chain_seek i ?off WHENCE_CUR rec lt = (r1, ?lt1)" using 1 by (simp add: chain_seek_def)
  have r1: "0 \<le> sint r1" "r = p" "lt' = ?lt1\<lparr>ch_current := Suc i\<rparr>"
    using assms(6,7) c sw by (auto simp: seek_in_file_def split: if_splits)
  have "r1 = p - chain_base lt i" using assms(1,2,5) 1 r1(1) by (auto simp: seek_honoured_def)
  moreover have "GetPosition t1 = r1" using TransferSeek75_result [OF 1] r1(1) by fastforce
  moreover have "chain_base ?lt1 i = chain_base lt i" by (simp add: chain_base_def set_transfer_def)
  ultimately show ?thesis
    using r1(2,3) n assms(4) by (simp add: lt_GetPosition_def chain_base_def nth_transfer_def)
qed

lemma seek_ways:
  fixes p q pos :: i64
  assumes "(if bad then (-1, lt) else if sint q > sint pos then forth else if sint q < sint pos then back else (q, lt)) = (p, lt')"
    "p \<noteq> -1"
  shows "forth = (p, lt') \<or> back = (p, lt') \<or> p = q \<and> pos = p \<and> lt' = lt"
proof (cases "sint q > sint pos \<or> sint q < sint pos")
  case True
  with assms show ?thesis by (auto split: if_split_asm)
next
  case False
  then have "sint pos = sint q" by linarith
  then have "pos = q" by (rule signed_word_eqI)
  with assms show ?thesis by (auto split: if_split_asm)
qed

lemma lt_seek_lands:
  assumes "live_ok lt" "lt_recorder lt = Some rec" "list_all (m_isOpen \<circ> fst) (ch_chained lt)" "buffer_unread (lt_buffer lt) = 0"
    "seek_honoured p rec lt" "lt_seek offset whence lt = (p, lt')" "p \<noteq> -1"
  shows "lt_GetPosition lt' = p"
    "p = (case whence of WHENCE_SET \<Rightarrow> offset | WHENCE_END \<Rightarrow> lt_GetSize lt + offset | WHENCE_CUR \<Rightarrow> lt_GetPosition lt + offset)"
proof -
  have cur: "0 < ch_current lt" using assms(2,6,7) by (cases "ch_current lt") (auto simp: lt_seek_def)
  let ?ci = "ch_current lt - 1"
  have len: "ch_last lt = length (ch_chained lt)" and ci: "?ci < ch_last lt"
    using cur live_okD(1,2) [OF assms(1)] by linarith+
  have pos: "lt_GetPosition lt = chain_base lt ?ci + GetPosition (nth_transfer lt ?ci)"
    using cur assms(4) by (simp add: lt_GetPosition_def chain_base_def)
  define q where "q = (case whence of WHENCE_SET \<Rightarrow> offset | WHENCE_END \<Rightarrow> lt_GetSize lt + offset | WHENCE_CUR \<Rightarrow> lt_GetPosition lt + offset)"
  have ops: "m_isOpen (nth_transfer lt i)" if "i < ch_last lt" for i
    using assms(3) that len by (simp add: list_all_length nth_transfer_def)
  note lands = seek_in_file_lands [OF _ len ops assms(4)]
  have e: "lt_seek offset whence lt = (if sint q > sint (lt_GetSize lt) \<or> sint q < 0 then (-1, lt)
      else if sint q > sint (lt_GetPosition lt) then seek_forward ?ci q (lt_GetPosition lt) rec lt
      else if sint q < sint (lt_GetPosition lt) then seek_backward ?ci q (lt_GetPosition lt) rec lt else (q, lt))"
    unfolding lt_seek_def q_def assms(2) option.case Let_def using cur by simp
  from seek_ways [OF assms(6) [unfolded e] assms(7)]
  have "\<exists>i < ch_last lt. seek_in_file i q (chain_base lt i + GetPosition (nth_transfer lt i)) rec lt = (p, lt') \<or> (p = q \<and> lt_GetPosition lt' = p)"
    using seek_forward_file [OF _ assms(7) len ci pos] seek_backward_file [OF _ assms(7) len ci pos] ci by blast
  then obtain i where i: "i < ch_last lt" "seek_in_file i q (chain_base lt i + GetPosition (nth_transfer lt i)) rec lt = (p, lt') \<or> (p = q \<and> lt_GetPosition lt' = p)"
    by blast
  have pq: "p = q" using i(2) assms(7) by (auto simp: seek_in_file_def split: prod.splits if_splits)
  with i lands [of i q rec p lt'] assms(5,7) len show "lt_GetPosition lt' = p" by auto
  show "p = (case whence of WHENCE_SET \<Rightarrow> offset | WHENCE_END \<Rightarrow> lt_GetSize lt + offset | WHENCE_CUR \<Rightarrow> lt_GetPosition lt + offset)"
    using pq by (simp add: q_def)
qed

text \<open>C17: Seeking in live TV, over the boundaries of the files: on a server that answers each seek with the position asked
  for, a \<open>Seek\<close> that does not fail returns the target, counted over all files of the chain, and leaves the stream there; the
  target of a relative seek is counted from the position that the reader sees, behind which bytes may be buffered.\<close>

theorem live_seek:
  assumes "live_ok lt" "lt_recorder lt = Some rec" "list_all (m_isOpen \<circ> fst) (ch_chained lt)" "buffer_ok (lt_buffer lt)"
    "seek_honoured p rec lt" "whence = WHENCE_CUR \<longrightarrow> offset \<noteq> 0" "lt_Seek offset whence lt = (p, lt')" "p \<noteq> -1"
  shows "lt_GetPosition lt' = p
    \<and> p = (case whence of WHENCE_SET \<Rightarrow> offset | WHENCE_END \<Rightarrow> lt_GetSize lt + offset | WHENCE_CUR \<Rightarrow> lt_GetPosition lt + offset)"
proof -
  let ?lt = "lt\<lparr>lt_buffer := buffer_clear (lt_buffer lt)\<rparr>"
  have u: "buffer_unread (lt_buffer ?lt) = 0"
    using buffer_unread_rest(1) [OF buffer_clear_ok(1) [OF assms(4)]] buffer_clear_ok(2) [OF assms(4)] by simp
  have h: "seek_honoured p rec ?lt" using assms(5) by (simp add: seek_honoured_def chain_base_def nth_transfer_def)
  have p: "lt_GetPosition ?lt - ucast (buffer_unread (lt_buffer lt)) = lt_GetPosition lt" "lt_GetSize ?lt = lt_GetSize lt"
    using u by (simp_all add: lt_GetPosition_def lt_GetSize_def nth_transfer_def)
  have s: "lt_seek (if whence = WHENCE_CUR then offset - ucast (buffer_unread (lt_buffer lt)) else offset) whence ?lt = (p, lt')"
    using assms(6,7) by (auto simp: lt_Seek_def Let_def split: if_splits)
  from lt_seek_lands [OF _ _ _ u h s assms(8)] assms(1-3) p show ?thesis
    by (cases whence) (auto simp: algebra_simps)
qed

text \<open>Asking live TV for its position with \<open>Seek(0, WHENCE_CUR)\<close> does not give the position that \<open>GetPosition\<close> gives while
  bytes are buffered: they are subtracted twice, once in \<open>GetPosition\<close>, which \<open>_seek\<close> calls, and once more in \<open>Seek\<close>.\<close>

theorem live_tell_subtracts_twice:
  assumes "lt_recorder lt \<noteq> None" "0 < ch_current lt" "sint (lt_GetPosition lt) \<le> sint (lt_GetSize lt)" "buffer_ok (lt_buffer lt)"
    "int (length (buffer_rest (lt_buffer lt))) \<le> sint (lt_GetPosition lt)"
  shows "lt_Seek 0 WHENCE_CUR lt = (lt_GetPosition lt - of_nat (length (buffer_rest (lt_buffer lt))), lt)"
proof -
  define u :: i64 where "u = ucast (buffer_unread (lt_buffer lt))"
  note b = buffer_unread_rest [OF assms(4)]
  have u: "sint u = int (length (buffer_rest (lt_buffer lt)))" "u = of_nat (length (buffer_rest (lt_buffer lt)))"
    using buffered_position_rest [OF assms(4), of 0] b(2)
    by (simp_all add: u_def buffered_position_def signed_of_nat signed_take_bit_int_eq_self)
  have "lt_seek 0 WHENCE_CUR lt = (lt_GetPosition lt, lt)"
    using assms(1-3,5) by (auto simp: lt_seek_def Let_def)
  with assms(5) u show ?thesis by (simp add: lt_Seek_def Let_def flip: u_def)
qed

section \<open>Everything a program does\<close>

datatype lt_op = LtOpen bool "eventhandler \<Rightarrow> eventhandler" | LtClose | LtSetTuneDelay nat | LtSetLimitTuneAttempts bool | LtSetChunk nat
  | LtSpawn libc zone time_t "EventMessage list list list" string "Channel list" | LtStop | LtMessage libc zone EventMessage
  | LtRead libc zone "nat \<Rightarrow> bytes" "(bool \<times> EventMessage list) list \<times> poll2 list list" nat | LtSeek i64 WHENCE_t | LtKeep libc bool

fun lt_apply :: "lt_op \<Rightarrow> livetv \<Rightarrow> livetv option" where
  "lt_apply (LtOpen started meanwhile) lt = Some (snd (lt_Open started meanwhile lt))"
| "lt_apply LtClose lt = Some (lt_Close lt)"
| "lt_apply (LtSetTuneDelay d) lt = Some (SetTuneDelay d lt)"
| "lt_apply (LtSetLimitTuneAttempts b) lt = Some (SetLimitTuneAttempts b lt)"
| "lt_apply (LtSetChunk sz) lt = Some (lt_SetChunk sz lt)"
| "lt_apply (LtSpawn lc z now tickss num channels) lt = map_option snd (lt_SpawnLiveTV lc z now tickss num channels lt)"
| "lt_apply LtStop lt = Some (lt_StopLiveTV lt)"
| "lt_apply (LtMessage lc z msg) lt = Some (lt_HandleBackendMessage lc z msg lt)"
| "lt_apply (LtRead lc z junk env n) lt = map_option (\<lambda>(_, _, lt'). lt') (lt_Read lc z junk env n lt)"
| "lt_apply (LtSeek offset whence) lt = Some (snd (lt_Seek offset whence lt))"
| "lt_apply (LtKeep lc keep) lt = Some (snd (KeepLiveRecording lc keep lt))"

lemma live_keepsD: "live_keeps lt lt' \<Longrightarrow> live_ok lt \<Longrightarrow> live_ok lt'"
  by (simp add: live_keeps_def)

lemma lt_apply_ok:
  assumes "live_ok lt" "lt_apply op lt = Some lt'"
  shows "live_ok lt'"
proof (cases op)
  case LtOpen
  with assms lt_Open_ok show ?thesis by auto
next
  case LtClose
  with assms lt_Close_ok show ?thesis by auto
next
  case LtSpawn
  with assms lt_SpawnLiveTV_ok [OF assms(1)] show ?thesis by fastforce
next
  case LtStop
  with assms lt_StopLiveTV_ok show ?thesis by auto
next
  case LtMessage
  with assms live_keepsD [OF lt_HandleBackendMessage_keeps] show ?thesis by auto
next
  case (LtRead lc z junk env n)
  with assms obtain r out where "lt_Read lc z junk env n lt = Some (r, out, lt')" by auto
  from live_keepsD [OF lt_Read_keeps [OF this] assms(1)] show ?thesis .
next
  case (LtSeek offset whence)
  with assms live_keepsD [OF lt_Seek_keeps [of offset whence lt "fst (lt_Seek offset whence lt)"]] show ?thesis by auto
next
  case (LtKeep lc keep)
  with assms KeepLiveRecording_ok [of lt lc keep "fst (KeepLiveRecording lc keep lt)"] show ?thesis by auto
qed (use assms in \<open>auto simp: SetTuneDelay_def SetLimitTuneAttempts_def lt_SetChunk_def\<close>)

fun lt_run :: "lt_op list \<Rightarrow> livetv \<Rightarrow> livetv option" where
  "lt_run [] lt = Some lt"
| "lt_run (op # ops) lt = (case lt_apply op lt of None \<Rightarrow> None | Some lt1 \<Rightarrow> lt_run ops lt1)"

lemma lt_run_ok: "live_ok lt \<Longrightarrow> lt_run ops lt = Some lt' \<Longrightarrow> live_ok lt'"
  by (induction ops arbitrary: lt) (auto split: option.splits dest: lt_apply_ok)

lemma LiveTVPlayback_new_ok:
  assumes "pb_ok mon" "list_all pb_ok conns"
  shows "live_ok (LiveTVPlayback_new self sub_started started meanwhile limit handler mon conns)"
  unfolding LiveTVPlayback_new_def Let_def split_beta
  by (rule lt_Open_ok) (simp add: live_ok_def assms)

text \<open>C16: From the constructor on, whatever a program calls in any order, whatever the servers answer and whatever events
  arrive in between: the counters of the chain agree with the list of files, the file being watched is one of them, no file is
  chained twice, and the monitor connection, the connection to the recorder and those of all files satisfy the invariant of
  connections.\<close>

theorem live_operations_keep_invariant:
  assumes "pb_ok mon" "list_all pb_ok conns"
    "lt_run ops (LiveTVPlayback_new self sub_started started meanwhile limit handler mon conns) = Some lt"
  shows "ch_last lt = length (ch_chained lt) \<and> ch_current lt \<le> ch_last lt \<and> distinct (map (m_pathName \<circ> fst) (ch_chained lt))
    \<and> list_all (pb_ok \<circ> fst) (ch_chained lt) \<and> (\<forall>rec. lt_recorder lt = Some rec \<longrightarrow> pb_ok rec) \<and> pb_ok (lt_mon lt)"
  using lt_run_ok [OF LiveTVPlayback_new_ok [OF assms(1,2)] assms(3)] by (simp add: live_ok_def)

theorem live_operations_keep_invariant_witness:
  "\<exists>lt. lt_run [LtSetChunk 9000, LtMessage demo_libc \<lparr>localtime_r = gmtime_r, mktime = timegm\<rparr> demo_signal, LtSeek 5 WHENCE_SET,
        LtKeep demo_libc True, LtStop, LtClose]
      (LiveTVPlayback_new 7 True True id True demo_handler (demo_monitor 91 []) [demo_pb 91 []]) = Some lt
    \<and> ch_current lt \<le> ch_last lt \<and> pb_ok (lt_mon lt)"
proof -
  let ?ops = "[LtSetChunk 9000, LtMessage demo_libc \<lparr>localtime_r = gmtime_r, mktime = timegm\<rparr> demo_signal, LtSeek 5 WHENCE_SET,
    LtKeep demo_libc True, LtStop, LtClose]"
  let ?lt = "LiveTVPlayback_new 7 True True id True demo_handler (demo_monitor 91 []) [demo_pb 91 []]"
  have k: "pb_ok (demo_monitor 91 [])" "list_all pb_ok [demo_pb 91 []]" using demo_pb_ok [OF known_91] by simp_all
  obtain lt where e: "lt_run ?ops ?lt = Some lt" by simp
  from live_operations_keep_invariant [OF k e] e show ?thesis by blast
qed


section \<open>The properties on an example\<close>

definition demo_live :: "bytes \<Rightarrow> livetv" where
  "demo_live b = (LiveTVPlayback_new 7 True True id True demo_handler (demo_monitor 91 []) [])
     \<lparr>lt_recorder := Some ((demo_recorder 91 b)\<lparr>m_playing := True\<rparr>), ch_chained := [(demo_transfer [], Program_init)], ch_last := 1,
      ch_current := 1\<rparr>"

lemma demo_live_simps [simp]:
  "lt_recorder (demo_live b) = Some ((demo_recorder 91 b)\<lparr>m_playing := True\<rparr>)" "ch_chained (demo_live b) = [(demo_transfer [], Program_init)]"
  "ch_last (demo_live b) = 1" "ch_current (demo_live b) = 1" "lt_buffer (demo_live b) = rdbuffer_new"
  "nth_transfer (demo_live b) 0 = demo_transfer []"
  by (simp_all add: demo_live_def nth_transfer_def LiveTVPlayback_new_def lt_Open_def monitor_IsOpen_def Let_def split: prod.split)

lemma demo_live_ok [simp]: "live_ok (demo_live b)" "pb_ok ((demo_recorder 91 b)\<lparr>m_playing := True\<rparr>)"
proof -
  have "pb_ok (demo_recorder 91 b)" using demo_pb_ok [OF known_91] by simp
  then show r: "pb_ok ((demo_recorder 91 b)\<lparr>m_playing := True\<rparr>)" by (simp add: pb_ok_def pb_inv_def pb_quiet_def)
  have t: "pb_ok (demo_transfer [])" using demo_pb_ok [OF known_91] by (simp add: demo_transfer_def ProtoTransfer_new_ok)
  have "live_ok (LiveTVPlayback_new 7 True True id True demo_handler (demo_monitor 91 []) [])"
    using demo_pb_ok [OF known_91] by (intro LiveTVPlayback_new_ok) simp_all
  with r t show "live_ok (demo_live b)" by (simp add: demo_live_def live_ok_def)
qed

lemma demo_live_playing [simp]: "IsPlaying ((demo_recorder 91 b)\<lparr>m_playing := True\<rparr>)"
  by (simp add: IsPlaying_def)

lemma demo_live_seek:
  assumes "seek_check t offset whence = Inr ()" "m_isOpen t" "sint pos \<noteq> - (2 ^ 63)"
  shows "\<exists>t' rec'. TransferSeek75 offset whence t ((demo_recorder 91 (framed (dec_int (sint pos))))\<lparr>m_playing := True\<rparr>) = (pos, t', rec')"
proof -
  let ?b = "framed (dec_int (sint pos))"
  have "ready ?b (demo_recorder 91 ?b)" by simp
  then have "ready (?b @ []) ((demo_recorder 91 ?b)\<lparr>m_playing := True\<rparr>)" unfolding ready_def idle_alt by simp
  from TransferSeek75_answer [OF assms this] show ?thesis by blast
qed


theorem live_seek_witness:
  "\<exists>lt'. lt_Seek 500 WHENCE_SET (demo_live (framed (dec_int 500))) = (500, lt') \<and> lt_GetPosition lt' = 500"
proof -
  let ?b = "framed (dec_int (sint (500 :: i64)))"
  let ?rec = "(demo_recorder 91 ?b)\<lparr>m_playing := True\<rparr>"
  have c: "seek_check (demo_transfer []) 490 WHENCE_CUR = Inr ()"
    by (simp add: seek_check_def GetPosition_def GetSize_def)
  obtain t' rec' where s: "TransferSeek75 490 WHENCE_CUR (demo_transfer []) ?rec = (500, t', rec')"
    using demo_live_seek [OF c, of 500] by auto
  have h: "seek_honoured 500 ?rec (demo_live ?b)"
    using s by (simp add: seek_honoured_def chain_base_def GetPosition_def)
  have l: "lt_Seek 500 WHENCE_SET (demo_live ?b) = seek_in_file 0 500 10 ?rec ((demo_live ?b)\<lparr>lt_buffer := buffer_clear rdbuffer_new\<rparr>)"
    using buffer_unread_rest(1) [OF buffer_clear_ok(1) [OF rdbuffer_new_ok(1)]] buffer_clear_ok(2) [OF rdbuffer_new_ok(1)]
    by (simp add: lt_Seek_def lt_seek_def Let_def lt_GetSize_def lt_GetPosition_def GetSize_def GetPosition_def GetRemaining_def
        nth_transfer_def seek_forward.simps)
  then have e: "fst (lt_Seek 500 WHENCE_SET (demo_live ?b)) = 500"
    using s TransferSeek75_same [OF s]
    by (simp add: seek_in_file_def chain_seek_def nth_transfer_def SwitchChain_def set_transfer_def)
  from live_seek [OF demo_live_ok(1) _ _ _ h _ prod.collapse [symmetric, of "lt_Seek 500 WHENCE_SET (demo_live ?b)", unfolded e]]
  have "lt_GetPosition (snd (lt_Seek 500 WHENCE_SET (demo_live ?b))) = 500" by (simp add: rdbuffer_new_ok)
  with e show ?thesis by (intro exI [of _ "snd (lt_Seek 500 WHENCE_SET (demo_live ?b))"]) (simp add: prod_eq_iff)
qed

theorem live_tell_subtracts_twice_witness:
  "let lt = (demo_live [])\<lparr>lt_buffer := rdbuffer_new\<lparr>cur_packet := Some \<lparr>pk_id = 0, pk_size = 4, pk_data = ''abcd''\<rparr>\<rparr>\<rparr>
   in lt_GetPosition lt = 6 \<and> lt_Seek 0 WHENCE_CUR lt = (2, lt)"
proof -
  let ?b = "rdbuffer_new\<lparr>cur_packet := Some \<lparr>pk_id = 0, pk_size = 4, pk_data = ''abcd''\<rparr>\<rparr>"
  let ?lt = "(demo_live [])\<lparr>lt_buffer := ?b\<rparr>"
  have b: "buffer_ok ?b" "buffer_rest ?b = ''abcd''"
    using rdbuffer_new_ok by (simp_all add: buffer_ok_def buffer_rest_def rdbuffer_new_def pk_capacity_def payload_def)
  have p: "lt_GetPosition ?lt = 6" "lt_GetSize ?lt = 1000"
    using buffer_unread_rest(1) [OF b(1)] b(2)
    by (simp_all add: lt_GetPosition_def lt_GetSize_def GetSize_def GetPosition_def nth_transfer_def)
  from live_tell_subtracts_twice [of ?lt] p b show ?thesis by simp
qed

end
