(* ===== verification/Json.thy ===== *)
theory Json
  imports MythTypes "HOL-Library.Char_ord" "HOL-Library.List_Lexorder" "HOL-Library.Sublist"
begin

text \<open>
  The JSON parser (\<open>private/sajson.h\<close>, class \<open>parser\<close>) and the read access to a parsed value
  (\<open>sajson.h\<close>, class \<open>value\<close>; \<open>private/jsonparser.cpp\<close>, class \<open>Node\<close>).

  The parser is a loop over one text with an explicit stack. One array of words, as long as
  the text, serves both as the stack (growing from the left, pointer \<open>temp\<close>) and as the
  result (growing from the right, pointer \<open>out\<close>). The model keeps both pointers as offsets and
  holds the contents as values: a finished value is a \<open>json\<close>, the elements of an open array or
  object are a list. The read pointer is the rest of the text. Texts are unescaped in place
  in the code and copied in the model, which nothing can observe: the text left of
  the read pointer is not read again.

  What the C++ standard leaves undefined ends the parse with a value of its own
  (\<open>Overread\<close>: a character behind the end of the text is read; \<open>SignedOverflow\<close>). The line and column of an
  error message are not modelled. The operations on \<open>double\<close> are those of the machine and a parameter (\<open>fpu\<close>).
\<close>

section \<open>Values\<close>

text \<open>The keys of an object are ordered by length, then bytewise (\<open>object_key_comparator\<close>).\<close>

datatype (plugins only: code size) jkey = Key (key_text: string)

instantiation jkey :: linorder
begin

definition less_eq_jkey :: "jkey \<Rightarrow> jkey \<Rightarrow> bool" where
  "a \<le> b \<longleftrightarrow> length (key_text a) < length (key_text b)
     \<or> (length (key_text a) = length (key_text b) \<and> key_text a \<le> key_text b)"

definition less_jkey :: "jkey \<Rightarrow> jkey \<Rightarrow> bool" where
  "a < b \<longleftrightarrow> length (key_text a) < length (key_text b)
     \<or> (length (key_text a) = length (key_text b) \<and> key_text a < key_text b)"

instance
  by standard (auto simp: less_eq_jkey_def less_jkey_def jkey.expand)

end

datatype json =
    JInt i32
  | JDouble double
  | JNull
  | JFalse
  | JTrue
  | JStr string
  | JArr "json list"
  | JObj "(jkey \<times> json) list"

datatype jtype = TYPE_INTEGER | TYPE_DOUBLE | TYPE_NULL | TYPE_FALSE | TYPE_TRUE
  | TYPE_STRING | TYPE_ARRAY | TYPE_OBJECT

fun get_type :: "json \<Rightarrow> jtype" where
  "get_type (JInt i) = TYPE_INTEGER"
| "get_type (JDouble d) = TYPE_DOUBLE"
| "get_type JNull = TYPE_NULL"
| "get_type JFalse = TYPE_FALSE"
| "get_type JTrue = TYPE_TRUE"
| "get_type (JStr s) = TYPE_STRING"
| "get_type (JArr js) = TYPE_ARRAY"
| "get_type (JObj fs) = TYPE_OBJECT"

text \<open>The floating point operations of the target, and its conversion to a 64-bit integer.\<close>

record fpu =
  fp_int :: "int \<Rightarrow> double"
  fp_add :: "double \<Rightarrow> double \<Rightarrow> double"
  fp_mul :: "double \<Rightarrow> double \<Rightarrow> double"
  fp_neg :: "double \<Rightarrow> double"
  fp_pow10 :: "int \<Rightarrow> double"
  fp_to_i64 :: "double \<Rightarrow> i64"

datatype json_error = Malformed string | Overread | SignedOverflow

definition end_of_input :: json_error where
  "end_of_input = Malformed ''unexpected end of input''"

definition INT_MAX :: int where "INT_MAX = 2147483647"

section \<open>Tokens\<close>

definition is_blank_char :: "char \<Rightarrow> bool" where
  "is_blank_char c \<longleftrightarrow> c = CHR 0x20 \<or> c = CHR 0x09 \<or> c = CHR 0x0A \<or> c = CHR 0x0D"

text \<open>The next character that is not blank, NUL at the end, and the text from there on.\<close>

definition skip_blanks :: "bytes \<Rightarrow> bytes" where
  "skip_blanks s = dropWhile is_blank_char s"

definition head_char :: "bytes \<Rightarrow> char" where
  "head_char s = (case s of [] \<Rightarrow> NUL | c # cs \<Rightarrow> c)"

definition peek_structure :: "bytes \<Rightarrow> char \<times> bytes" where
  "peek_structure s = (head_char (skip_blanks s), skip_blanks s)"

definition parse_word :: "string \<Rightarrow> string \<Rightarrow> json \<Rightarrow> bytes \<Rightarrow> json_error + json \<times> bytes" where
  "parse_word w what j s =
     (if length s < length w then Inl end_of_input
      else if take (length w - 1) (tl s) \<noteq> tl w then Inl (Malformed what)
      else Inr (j, drop (length w) s))"

definition parse_null :: "bytes \<Rightarrow> json_error + json \<times> bytes" where
  "parse_null s = parse_word ''null'' (''expected '' @ [CHR 0x27] @ ''null'' @ [CHR 0x27]) JNull s"

definition parse_false :: "bytes \<Rightarrow> json_error + json \<times> bytes" where
  "parse_false s = parse_word ''false'' (''expected '' @ [CHR 0x27] @ ''false'' @ [CHR 0x27]) JFalse s"

definition parse_true :: "bytes \<Rightarrow> json_error + json \<times> bytes" where
  "parse_true s = parse_word ''true'' (''expected '' @ [CHR 0x27] @ ''true'' @ [CHR 0x27]) JTrue s"

section \<open>Numbers\<close>

text \<open>The loop over the digits of the integer part: \<open>i\<close> until it could overflow, then \<open>d\<close>.\<close>

fun int_digits ::
  "fpu \<Rightarrow> bool \<Rightarrow> int \<Rightarrow> double \<Rightarrow> bytes \<Rightarrow> json_error + bool \<times> int \<times> double \<times> bytes" where
  "int_digits f try_double i d [] = Inl Overread"
| "int_digits f try_double i d (c # cs) =
     (if \<not> isdigit c then Inr (try_double, i, d, c # cs)
      else if cs = [] then Inl end_of_input
      else
        let digit = int (digit_val c);
            d1 = (if \<not> try_double \<and> i > INT_MAX div 10 - 9 then fp_int f i else d)
        in if try_double \<or> i > INT_MAX div 10 - 9
           then int_digits f True i (fp_add f (fp_mul f (fp_int f 10) d1) (fp_int f digit)) cs
           else int_digits f False (10 * i + digit) d1 cs)"

definition int_part :: "fpu \<Rightarrow> bytes \<Rightarrow> json_error + bool \<times> int \<times> double \<times> bytes" where
  "int_part f s =
     (case s of [] \<Rightarrow> Inl Overread
      | c # cs \<Rightarrow> if c = CHR ''0'' then Inr (False, 0, fp_int f 0, cs)
                else int_digits f False 0 (fp_int f 0) s)"

fun frac_digits :: "fpu \<Rightarrow> double \<Rightarrow> int \<Rightarrow> bytes \<Rightarrow> json_error + double \<times> int \<times> bytes" where
  "frac_digits f d e [] = Inl Overread"
| "frac_digits f d e (c # cs) =
     (if \<not> isdigit c then Inr (d, e, c # cs)
      else if cs = [] then Inl end_of_input
      else frac_digits f (fp_add f (fp_mul f d (fp_int f 10)) (fp_int f (int (digit_val c)))) (e - 1) cs)"

definition frac_part ::
  "fpu \<Rightarrow> bool \<Rightarrow> int \<Rightarrow> double \<Rightarrow> bytes \<Rightarrow> json_error + bool \<times> double \<times> int \<times> bytes" where
  "frac_part f try_double i d s =
     (case s of [] \<Rightarrow> Inl Overread
      | c # cs \<Rightarrow>
         if c \<noteq> CHR ''.'' then Inr (try_double, d, 0, s)
         else if cs = [] then Inl end_of_input
         else case frac_digits f (if try_double then d else fp_int f i) 0 cs of
                Inl e \<Rightarrow> Inl e
              | Inr (d1, e, s1) \<Rightarrow> Inr (True, d1, e, s1))"

text \<open>The loop over the digits of the exponent; its first character is known to be a digit.\<close>

fun exp_digits :: "int \<Rightarrow> bytes \<Rightarrow> json_error + int \<times> bytes" where
  "exp_digits e [] = Inl Overread"
| "exp_digits e (c # cs) =
     (let e1 = 10 * e + int (digit_val c) in
      if e1 > INT_MAX then Inl SignedOverflow
      else if cs = [] then Inl end_of_input
      else if isdigit (hd cs) then exp_digits e1 cs
      else Inr (e1, cs))"

definition exp_sign :: "bytes \<Rightarrow> json_error + bool \<times> bytes" where
  "exp_sign s =
     (if hd s = CHR ''-'' \<or> hd s = CHR ''+'' then
        if tl s = [] then Inl end_of_input else Inr (hd s = CHR ''-'', tl s)
      else Inr (False, s))"

definition exp_part ::
  "fpu \<Rightarrow> bool \<Rightarrow> int \<Rightarrow> double \<Rightarrow> int \<Rightarrow> bytes \<Rightarrow> json_error + bool \<times> double \<times> int \<times> bytes" where
  "exp_part f try_double i d e s =
     (case s of [] \<Rightarrow> Inl Overread
      | c # cs \<Rightarrow>
         if c \<noteq> CHR ''e'' \<and> c \<noteq> CHR ''E'' then Inr (try_double, d, e, s)
         else if cs = [] then Inl end_of_input
         else case exp_sign cs of
                Inl err \<Rightarrow> Inl err
              | Inr (negative, s1) \<Rightarrow>
                  if \<not> isdigit (hd s1) then Inl (Malformed ''missing exponent'')
                  else case exp_digits 0 s1 of
                    Inl err \<Rightarrow> Inl err
                  | Inr (x, s2) \<Rightarrow>
                      (let e1 = (if negative then e - x else e + x) in
                       if e1 < - INT_MAX - 1 then Inl SignedOverflow
                       else Inr (True, if try_double then d else fp_int f i, e1, s2)))"

definition pow10 :: "fpu \<Rightarrow> int \<Rightarrow> double" where
  "pow10 f e = (if e > 308 then 0x7FF0000000000000 else if e < - 323 then 0 else fp_pow10 f e)"

definition finish_number :: "fpu \<Rightarrow> bool \<Rightarrow> bool \<Rightarrow> int \<Rightarrow> double \<Rightarrow> int \<Rightarrow> json" where
  "finish_number f negative try_double i d e =
     (let d1 = (if e \<noteq> 0 then fp_mul f d (pow10 f e) else d) in
      if try_double then JDouble (if negative then fp_neg f d1 else d1)
      else JInt (word_of_int (if negative then - i else i)))"

definition parse_number :: "fpu \<Rightarrow> bytes \<Rightarrow> json_error + json \<times> bytes" where
  "parse_number f s =
     (let negative = (hd s = CHR ''-''); s1 = (if negative then tl s else s) in
      if negative \<and> s1 = [] then Inl end_of_input
      else case int_part f s1 of
        Inl err \<Rightarrow> Inl err
      | Inr (t, i, d, s2) \<Rightarrow>
          (case frac_part f t i d s2 of
             Inl err \<Rightarrow> Inl err
           | Inr (t1, d1, e, s3) \<Rightarrow>
               (case exp_part f t1 i d1 e s3 of
                  Inl err \<Rightarrow> Inl err
                | Inr (t2, d2, e1, s4) \<Rightarrow> Inr (finish_number f negative t2 i d2 e1, s4))))"

section \<open>Texts\<close>

fun read_hex :: "nat \<Rightarrow> nat \<Rightarrow> bytes \<Rightarrow> json_error + nat \<times> bytes" where
  "read_hex 0 v s = Inr (v, s)"
| "read_hex (Suc n) v [] = Inl Overread"
| "read_hex (Suc n) v (c # cs) =
     (case hex_val c of
        None \<Rightarrow> Inl (Malformed ''invalid character in unicode escape'')
      | Some h \<Rightarrow> read_hex n (16 * v + h) cs)"

definition write_utf8 :: "nat \<Rightarrow> bytes" where
  "write_utf8 u =
     (if u < 0x80 then [char_of u]
      else if u < 0x800 then [char_of (0xC0 + u div 64), char_of (0x80 + u mod 64)]
      else if u < 0x10000 then
        [char_of (0xE0 + u div 4096), char_of (0x80 + u div 64 mod 64), char_of (0x80 + u mod 64)]
      else
        [char_of (0xF0 + u div 262144), char_of (0x80 + u div 4096 mod 64),
         char_of (0x80 + u div 64 mod 64), char_of (0x80 + u mod 64)])"

definition simple_escape :: "char \<Rightarrow> char option" where
  "simple_escape c =
     (if c = CHR 0x22 then Some (CHR 0x22)
      else if c = CHR 0x5C then Some (CHR 0x5C)
      else if c = CHR ''/'' then Some (CHR ''/'')
      else if c = CHR ''b'' then Some (CHR 0x08)
      else if c = CHR ''f'' then Some (CHR 0x0C)
      else if c = CHR ''n'' then Some (CHR 0x0A)
      else if c = CHR ''r'' then Some (CHR 0x0D)
      else if c = CHR ''t'' then Some (CHR 0x09)
      else None)"

text \<open>The four hexadecimal digits behind \<open>\u\<close>, and those of a second escape when the first is a lead surrogate.\<close>

definition trail_surrogate :: "nat \<Rightarrow> bytes \<Rightarrow> json_error + nat \<times> bytes" where
  "trail_surrogate u s =
     (if length s < 6 then Inl (Malformed ''unexpected end of input during UTF-16 surrogate pair'')
      else if take 2 s \<noteq> [CHR 0x5C, CHR ''u''] then Inl (Malformed (''expected '' @ [CHR 0x5C] @ ''u''))
      else case read_hex 4 0 (drop 2 s) of
        Inl e \<Rightarrow> Inl e
      | Inr (v, s2) \<Rightarrow>
          if v < 0xDC00 \<or> v > 0xDFFF then Inl (Malformed ''invalid UTF-16 trail surrogate'')
          else Inr (0x10000 + 1024 * (u - 0xD800) + (v - 0xDC00), s2))"

definition unicode_escape :: "bytes \<Rightarrow> json_error + nat \<times> bytes" where
  "unicode_escape s =
     (if length s < 4 then Inl end_of_input
      else case read_hex 4 0 s of
        Inl e \<Rightarrow> Inl e
      | Inr (u, s1) \<Rightarrow>
          if 0xD800 \<le> u \<and> u \<le> 0xDBFF then trail_surrogate u s1 else Inr (u, s1))"

text \<open>The character behind a backslash and what it stands for.\<close>

definition escape :: "bytes \<Rightarrow> json_error + bytes \<times> bytes" where
  "escape s =
     (case s of [] \<Rightarrow> Inl end_of_input
      | c # cs \<Rightarrow>
         (case simple_escape c of
            Some r \<Rightarrow> Inr ([r], cs)
          | None \<Rightarrow>
             if c \<noteq> CHR ''u'' then Inl (Malformed ''unknown escape'')
             else case unicode_escape cs of
                    Inl e \<Rightarrow> Inl e
                  | Inr (u, s1) \<Rightarrow> Inr (write_utf8 u, s1)))"

definition blank_control :: "char \<Rightarrow> char" where
  "blank_control c = (if (of_char c :: nat) < 0x20 then CHR 0x20 else c)"

lemma read_hex_length: "read_hex n v s = Inr (u, s') \<Longrightarrow> length s = n + length s'"
  by (induction n v s rule: read_hex.induct) (auto split: option.splits)

lemma trail_surrogate_length: "trail_surrogate u s = Inr (v, s') \<Longrightarrow> length s' < length s"
  by (auto simp: trail_surrogate_def split: if_splits sum.splits dest!: read_hex_length)

lemma unicode_escape_length: "unicode_escape s = Inr (u, s') \<Longrightarrow> length s' < length s"
  by (auto simp: unicode_escape_def split: if_splits sum.splits dest!: read_hex_length trail_surrogate_length)

lemma escape_length: "escape s = Inr (r, s') \<Longrightarrow> length s' < length s"
  by (auto simp: escape_def split: list.splits option.splits if_splits sum.splits dest!: unicode_escape_length)

text \<open>The loop from the first backslash on.\<close>

function parse_string_slow :: "string \<Rightarrow> bytes \<Rightarrow> json_error + string \<times> bytes" where
  "parse_string_slow acc s =
     (case s of [] \<Rightarrow> Inl end_of_input
      | c # cs \<Rightarrow>
         if blank_control c = CHR 0x22 then Inr (acc, cs)
         else if blank_control c = CHR 0x5C then
           (case escape cs of
              Inl e \<Rightarrow> Inl e
            | Inr (r, s1) \<Rightarrow> parse_string_slow (acc @ r) s1)
         else parse_string_slow (acc @ [blank_control c]) cs)"
  by pat_completeness auto

termination
  by (relation "measure (\<lambda>(acc, s). length s)") (auto dest: escape_length)

declare parse_string_slow.simps [simp del]

fun string_loop :: "string \<Rightarrow> bytes \<Rightarrow> json_error + string \<times> bytes" where
  "string_loop acc [] = Inl end_of_input"
| "string_loop acc (c # cs) =
     (if blank_control c = CHR 0x22 then Inr (acc, cs)
      else if blank_control c = CHR 0x5C then parse_string_slow acc (c # cs)
      else string_loop (acc @ [blank_control c]) cs)"

text \<open>The text begins with the opening quote.\<close>

definition parse_string :: "bytes \<Rightarrow> json_error + string \<times> bytes" where
  "parse_string s = string_loop [] (tl s)"

section \<open>The parser\<close>

text \<open>An open array or object: its type, the offset of its first word in the stack
  (\<open>current_base\<close>), its elements so far, the last one first, and the key read for the next one.\<close>

record jlevel =
  lv_type :: jtype
  lv_base :: nat
  lv_elems :: "(jkey \<times> json) list"
  lv_key :: jkey

record jparser =
  ps_level :: jlevel
  ps_outer :: "jlevel list"
  ps_temp :: nat
  ps_out :: int

definition open_level :: "jtype \<Rightarrow> nat \<Rightarrow> jlevel" where
  "open_level t base = \<lparr>lv_type = t, lv_base = base, lv_elems = [], lv_key = Key []\<rparr>"

definition closing_bracket :: "jtype \<Rightarrow> char" where
  "closing_bracket t = (if t = TYPE_OBJECT then CHR 0x7D else CHR '']'')"

definition is_first_element :: "jparser \<Rightarrow> bool" where
  "is_first_element st \<longleftrightarrow> ps_temp st = lv_base (ps_level st) + 1"

text \<open>The comma before an element: whether there was one, and the text behind it.\<close>

definition parse_comma :: "jparser \<Rightarrow> bytes \<Rightarrow> json_error + bool \<times> bytes" where
  "parse_comma st s =
     (let c = fst (peek_structure s); s1 = snd (peek_structure s) in
      if is_first_element st then
        if c = CHR '','' then Inl (Malformed ''unexpected comma'') else Inr (False, s1)
      else if c = CHR '','' then Inr (True, snd (peek_structure (tl s1)))
      else if c \<noteq> closing_bracket (lv_type (ps_level st)) then Inl (Malformed ''expected ,'')
      else Inr (False, s1))"

definition note_key :: "string \<Rightarrow> jparser \<Rightarrow> jparser" where
  "note_key k st = st\<lparr>ps_level := (ps_level st)\<lparr>lv_key := Key k\<rparr>, ps_temp := ps_temp st + 2\<rparr>"

text \<open>The key of the next element of an object. A failure comes with the parser as it is then.\<close>

definition parse_key :: "jparser \<Rightarrow> bytes \<Rightarrow> json_error + jparser \<times> bytes" where
  "parse_key st s =
     (let c = fst (peek_structure s); s1 = snd (peek_structure s) in
      if lv_type (ps_level st) = TYPE_OBJECT \<and> c \<noteq> CHR 0x7D then
        if c \<noteq> CHR 0x22 then Inl (Malformed ''object key must be quoted'')
        else case parse_string s1 of
          Inl e \<Rightarrow> Inl (Malformed ''invalid object key'')
        | Inr (k, s2) \<Rightarrow>
            if fst (peek_structure s2) \<noteq> CHR '':'' then Inl (Malformed ''expected :'')
            else Inr (note_key k st, tl (snd (peek_structure s2)))
      else Inr (st, s1))"

text \<open>The words a value takes on the right of the array, when it is stored.\<close>

fun out_words :: "json \<Rightarrow> nat" where
  "out_words (JInt i) = 1"
| "out_words (JDouble d) = 1"
| "out_words (JStr s) = 2"
| "out_words (JArr js) = length js + 1"
| "out_words (JObj fs) = 3 * length fs + 1"
| "out_words _ = 0"

definition parse_scalar :: "fpu \<Rightarrow> char \<Rightarrow> bytes \<Rightarrow> json_error + json \<times> bytes" where
  "parse_scalar f c s =
     (if c = CHR ''n'' then parse_null s
      else if c = CHR ''f'' then parse_false s
      else if c = CHR ''t'' then parse_true s
      else if isdigit c \<or> c = CHR ''-'' then parse_number f s
      else if c = CHR 0x22 then
        (case parse_string s of Inl e \<Rightarrow> Inl e | Inr (t, s1) \<Rightarrow> Inr (JStr t, s1))
      else if c = CHR '','' then Inl (Malformed ''unexpected comma'')
      else Inl (Malformed ''cannot parse unknown value''))"

definition push_level :: "jtype \<Rightarrow> jparser \<Rightarrow> jparser" where
  "push_level t st =
     st\<lparr>ps_level := open_level t (ps_temp st), ps_outer := ps_level st # ps_outer st,
        ps_temp := ps_temp st + 1\<rparr>"

text \<open>A finished value becomes the next element of the open array or object.\<close>

definition add_element :: "json \<Rightarrow> jparser \<Rightarrow> jparser" where
  "add_element j st =
     st\<lparr>ps_level := (ps_level st)\<lparr>lv_elems := (lv_key (ps_level st), j) # lv_elems (ps_level st)\<rparr>,
        ps_temp := ps_temp st + 1\<rparr>"

text \<open>\<open>install_array\<close> and \<open>install_object\<close>: the value of the open level. Up to sixteen elements, or with
  keys that all differ, \<open>std::sort\<close> has one possible result; it does not say how it orders
  equal keys among more.\<close>

definition install_array :: "jlevel \<Rightarrow> json" where
  "install_array lv = JArr (map snd (rev (lv_elems lv)))"

definition install_object :: "jlevel \<Rightarrow> json" where
  "install_object lv = JObj (sort_key fst (rev (lv_elems lv)))"

definition install :: "jlevel \<Rightarrow> json" where
  "install lv = (if lv_type lv = TYPE_OBJECT then install_object lv else install_array lv)"

definition reserve_out :: "json \<Rightarrow> jparser \<Rightarrow> jparser" where
  "reserve_out j st = st\<lparr>ps_out := ps_out st - int (out_words j)\<rparr>"

datatype jstep = More jparser bytes | Root json jparser bytes

definition pop_level :: "jparser \<Rightarrow> bytes \<Rightarrow> jstep" where
  "pop_level st s =
     (let j = install (ps_level st); st1 = reserve_out j st in
      case ps_outer st of
        [] \<Rightarrow> Root j st1 s
      | lv # outer \<Rightarrow>
          More (add_element j (st1\<lparr>ps_level := lv, ps_outer := outer,
                                 ps_temp := lv_base (ps_level st)\<rparr>)) s)"

text \<open>The value behind the comma and the key: an opening bracket opens a level, the closing bracket of
  the level closes it, anything else is a scalar.\<close>

definition parse_value :: "fpu \<Rightarrow> bool \<Rightarrow> jparser \<Rightarrow> bytes \<Rightarrow> json_error + jstep" where
  "parse_value f had_comma st s0 =
     (let c = fst (peek_structure s0); s = snd (peek_structure s0); t = lv_type (ps_level st) in
      if c = NUL then Inl end_of_input
      else if c = CHR ''['' then Inr (More (push_level TYPE_ARRAY st) (tl s))
      else if c = CHR 0x7B then Inr (More (push_level TYPE_OBJECT st) (tl s))
      else if c = CHR '']'' \<or> c = CHR 0x7D then
        if c \<noteq> closing_bracket t then Inl (Malformed (''expected '' @ [closing_bracket t]))
        else if had_comma then Inl (Malformed ''trailing commas not allowed'')
        else Inr (pop_level st (tl s))
      else case parse_scalar f c s of
        Inl e \<Rightarrow> Inl e
      | Inr (j, s1) \<Rightarrow> Inr (More (add_element j (reserve_out j st)) s1))"

text \<open>One round of the loop of \<open>parse\<close>.\<close>

definition parse_step :: "fpu \<Rightarrow> jparser \<Rightarrow> bytes \<Rightarrow> json_error + jstep" where
  "parse_step f st s =
     (case parse_comma st s of
        Inl e \<Rightarrow> Inl e
      | Inr (had_comma, s1) \<Rightarrow>
          (case parse_key st s1 of
             Inl e \<Rightarrow> Inl e
           | Inr (st1, s2) \<Rightarrow> parse_value f had_comma st1 s2))"

section \<open>Each round consumes text\<close>

lemma skip_blanks_suffix [simp]: "suffix (skip_blanks s) s"
  by (simp add: skip_blanks_def suffix_dropWhile)

lemma skip_blanks_idem [simp]: "skip_blanks (skip_blanks s) = skip_blanks s"
  by (simp add: skip_blanks_def)

lemma head_char_not_NUL: "head_char s \<noteq> NUL \<Longrightarrow> \<exists>cs. s = head_char s # cs"
  by (cases s) (auto simp: head_char_def)

lemma parse_word_suffix:
  "parse_word w what j s = Inr (j', s') \<Longrightarrow> suffix s' s"
  by (auto simp: parse_word_def suffix_drop split: if_splits)

lemma parse_word_length:
  "parse_word w what j s = Inr (j', s') \<Longrightarrow> length s = length w + length s' \<and> j' = j"
  by (auto simp: parse_word_def split: if_splits)

lemma int_digits_suffix: "int_digits f t i d s = Inr (t', i', d', s') \<Longrightarrow> suffix s' s \<and> s' \<noteq> []"
  by (induction f t i d s rule: int_digits.induct)
    (auto split: if_splits simp: Let_def intro: suffix_ConsI)

lemma frac_digits_suffix: "frac_digits f d e s = Inr (d', e', s') \<Longrightarrow> suffix s' s \<and> s' \<noteq> []"
  by (induction f d e s rule: frac_digits.induct) (auto split: if_splits intro: suffix_ConsI)

lemma exp_digits_suffix: "exp_digits e s = Inr (e', s') \<Longrightarrow> strict_suffix s' s \<and> s' \<noteq> []"
  by (induction e s rule: exp_digits.induct)
    (auto simp: Let_def strict_suffix_def split: if_splits intro: suffix_ConsI dest: suffix_length_le)

lemma suffix_tl [intro]: "suffix s t \<Longrightarrow> suffix (tl s) t"
  by (cases s) (auto dest: suffix_ConsD)

lemma int_part_suffix: "int_part f s = Inr (t, i, d, s') \<Longrightarrow> suffix s' s"
  by (auto simp: int_part_def simp del: int_digits.simps split: list.splits if_splits
      dest: int_digits_suffix intro: suffix_ConsI)

lemma frac_part_suffix: "frac_part f t i d s = Inr (t', d', e, s') \<Longrightarrow> suffix s' s \<and> s' \<noteq> []"
  by (auto simp: frac_part_def simp del: frac_digits.simps split: list.splits if_splits sum.splits
      dest!: frac_digits_suffix intro: suffix_ConsI)

lemma exp_sign_suffix: "exp_sign s = Inr (n, s') \<Longrightarrow> suffix s' s"
  by (auto simp: exp_sign_def split: if_splits)

lemma exp_part_suffix: "exp_part f t i d e s = Inr (t', d', e', s') \<Longrightarrow> suffix s' s \<and> s' \<noteq> []"
  by (auto simp: exp_part_def Let_def strict_suffix_def simp del: exp_digits.simps
      split: list.splits if_splits sum.splits dest!: exp_sign_suffix exp_digits_suffix)
    (meson suffix_ConsI suffix_order.trans)+

lemma int_part_strict:
  "int_part f s = Inr (t, i, d, s') \<Longrightarrow> isdigit (hd s) \<Longrightarrow> suffix s' (tl s)"
proof (cases s)
  case (Cons c cs)
  then show "int_part f s = Inr (t, i, d, s') \<Longrightarrow> isdigit (hd s) \<Longrightarrow> suffix s' (tl s)"
    by (auto simp: int_part_def Let_def split: if_splits dest: int_digits_suffix)
qed (simp add: int_part_def)

lemma parse_number_suffix:
  assumes "parse_number f s = Inr (j, s')" "isdigit (hd s) \<or> hd s = CHR ''-''"
  shows "suffix s' (tl s) \<and> s' \<noteq> []"
proof -
  let ?s1 = "if hd s = CHR ''-'' then tl s else s"
  from assms(1) obtain t i d s2 t1 d1 e s3 t2 d2 e1 where
    p: "int_part f ?s1 = Inr (t, i, d, s2)" "frac_part f t i d s2 = Inr (t1, d1, e, s3)"
      "exp_part f t1 i d1 e s3 = Inr (t2, d2, e1, s')"
    by (auto simp: parse_number_def Let_def split: if_split_asm sum.split_asm)
  have "suffix s2 (tl s)"
    using p(1) assms(2) int_part_strict [of f s] int_part_suffix [of f ?s1] by (auto split: if_split_asm)
  with frac_part_suffix [OF p(2)] exp_part_suffix [OF p(3)] show ?thesis
    using suffix_order.trans by blast
qed

lemma read_hex_suffix: "read_hex n v s = Inr (u, s') \<Longrightarrow> suffix s' s"
  by (induction n v s rule: read_hex.induct) (auto split: option.splits intro: suffix_ConsI)

lemma trail_surrogate_suffix: "trail_surrogate u s = Inr (v, s') \<Longrightarrow> suffix s' s"
  by (auto simp: trail_surrogate_def split: if_split_asm sum.split_asm dest!: read_hex_suffix)
    (meson suffix_drop suffix_order.trans)

lemma unicode_escape_suffix: "unicode_escape s = Inr (u, s') \<Longrightarrow> suffix s' s"
  by (auto simp: unicode_escape_def split: if_split_asm sum.split_asm
      dest!: read_hex_suffix trail_surrogate_suffix elim: suffix_order.trans)

lemma escape_suffix: "escape s = Inr (r, s') \<Longrightarrow> suffix s' s"
  by (auto simp: escape_def split: list.splits option.splits if_splits sum.splits
      dest!: unicode_escape_suffix intro: suffix_ConsI)

lemma slow_Nil: "parse_string_slow acc [] = Inl end_of_input"
  by (subst parse_string_slow.simps) simp

lemma slow_Cons: "parse_string_slow acc (c # cs) =
    (if blank_control c = CHR 0x22 then Inr (acc, cs)
     else if blank_control c = CHR 0x5C then
       (case escape cs of Inl e \<Rightarrow> Inl e | Inr (r, s1) \<Rightarrow> parse_string_slow (acc @ r) s1)
     else parse_string_slow (acc @ [blank_control c]) cs)"
  by (subst parse_string_slow.simps) simp

lemma parse_string_slow_suffix: "parse_string_slow acc s = Inr (t, s') \<Longrightarrow> suffix s' s"
proof (induction s arbitrary: acc rule: length_induct)
  case (1 s)
  show ?case
  proof (cases s)
    case (Cons c cs)
    have IH: "suffix s' s1" if "parse_string_slow acc1 s1 = Inr (t, s')" "suffix s1 cs" for acc1 s1
    proof -
      have "length s1 < length s" using suffix_length_le [OF that(2)] Cons by simp
      with 1(1) that(1) show ?thesis by blast
    qed
    have IH2: "suffix s' (c # cs)" if "parse_string_slow acc1 s1 = Inr (t, s')" "suffix s1 cs" for acc1 s1
      by (metis IH [OF that] that(2) suffix_ConsI suffix_order.trans)
    show ?thesis
      using "1.prems" unfolding Cons slow_Cons
      by (auto split: if_split_asm sum.split_asm intro: IH2 suffix_ConsI dest: escape_suffix)
  qed (use "1.prems" in \<open>simp add: slow_Nil\<close>)
qed

lemma parse_string_slow_length: "parse_string_slow acc s = Inr (t, s') \<Longrightarrow> length s' < length s"
proof (induction s arbitrary: acc rule: length_induct)
  case (1 s)
  show ?case
  proof (cases s)
    case (Cons c cs)
    have IH: "length s' < Suc (length cs)"
      if "parse_string_slow acc1 s1 = Inr (t, s')" "length s1 \<le> length cs" for acc1 s1
    proof -
      have "length s1 < length s" using that(2) Cons by simp
      with 1(1) that(1) have "length s' < length s1" by blast
      with that(2) show ?thesis by simp
    qed
    show ?thesis
      using "1.prems" unfolding Cons slow_Cons
      by (auto split: if_split_asm sum.split_asm dest!: escape_length intro: IH)
  qed (use "1.prems" in \<open>simp add: slow_Nil\<close>)
qed

lemma string_loop_length: "string_loop acc s = Inr (t, s') \<Longrightarrow> length s' < length s"
  by (induction acc s rule: string_loop.induct)
    (auto split: if_split_asm dest!: parse_string_slow_length)

lemma string_loop_suffix: "string_loop acc s = Inr (t, s') \<Longrightarrow> suffix s' s"
  by (induction acc s rule: string_loop.induct)
    (auto split: if_splits intro: suffix_ConsI parse_string_slow_suffix)

lemma parse_string_suffix: "parse_string s = Inr (t, s') \<Longrightarrow> suffix s' (tl s)"
  by (simp add: parse_string_def string_loop_suffix)

lemma parse_scalar_suffix:
  assumes "parse_scalar f (hd s) s = Inr (j, s')" and "s \<noteq> []"
  shows "suffix s' (tl s)"
proof -
  have word: "suffix s' (tl s)" if "parse_word w what v s = Inr (j, s')" "w \<noteq> []" for w what v
    using that by (cases w; cases s) (auto simp: parse_word_def suffix_drop split: if_splits)
  show ?thesis
    using assms parse_number_suffix [of f s j s']
    by (auto simp: parse_scalar_def parse_null_def parse_false_def parse_true_def
        split: if_splits sum.splits intro: word dest: parse_string_suffix)
qed

lemma peek_suffix: "suffix (snd (peek_structure s)) s"
  by (simp add: peek_structure_def)

lemma parse_comma_suffix: "parse_comma st s = Inr (h, s') \<Longrightarrow> suffix s' s"
  using peek_suffix [of s] peek_suffix [of "tl (snd (peek_structure s))"] suffix_tl [OF peek_suffix [of s]]
  by (auto simp: parse_comma_def Let_def split: if_splits dest: suffix_order.trans)

lemma parse_key_suffix:
  assumes "parse_key st s = Inr (st', s')"
  shows "suffix s' s"
proof -
  have "suffix (tl (snd (peek_structure s2))) s" if "parse_string (snd (peek_structure s)) = Inr (k, s2)" for k s2
    by (meson parse_string_suffix [OF that] peek_suffix suffix_order.trans suffix_tl)
  with assms peek_suffix [of s] show ?thesis
    by (auto simp: parse_key_def Let_def split: if_splits sum.splits)
qed

lemma strictly_shorter:
  assumes "suffix s' (tl s)" "suffix s t" "s \<noteq> []"
  shows "suffix s' t \<and> length s' < length t"
proof -
  have "suffix s' s" using assms(1) by (meson suffix_order.trans suffix_tl suffix_order.refl)
  moreover have "length s' < length s"
    using suffix_length_le [OF assms(1)] assms(3) by (cases s) auto
  ultimately show ?thesis using suffix_length_le [OF assms(2)] assms(2) suffix_order.trans by (meson less_le_trans)
qed

fun step_rest :: "jstep \<Rightarrow> bytes" where
  "step_rest (More st s) = s"
| "step_rest (Root j st s) = s"

lemma pop_level_rest [simp]: "step_rest (pop_level st s) = s"
  by (simp add: pop_level_def Let_def split: list.splits)

lemma parse_value_suffix:
  assumes "parse_value f h st s = Inr r"
  shows "suffix (step_rest r) s \<and> length (step_rest r) < length s"
proof -
  let ?s = "snd (peek_structure s)" and ?c = "fst (peek_structure s)"
  have c: "?c = head_char ?s" by (simp add: peek_structure_def)
  have "?c \<noteq> NUL" using assms by (auto simp: parse_value_def Let_def)
  then obtain cs where "?s = ?c # cs" using head_char_not_NUL [of ?s] c by auto
  then have s: "?s \<noteq> []" "hd ?s = ?c" by (metis list.distinct(1), metis list.sel(1))
  have "suffix (step_rest r) (tl ?s)"
    using assms s parse_scalar_suffix [OF _ s(1)]
    by (auto simp: parse_value_def Let_def split: if_splits sum.splits)
  then show ?thesis using strictly_shorter s(1) peek_suffix by blast
qed

lemma parse_step_suffix:
  assumes "parse_step f st s = Inr r"
  shows "suffix (step_rest r) s \<and> length (step_rest r) < length s"
proof -
  from assms obtain h s1 st1 s2 where
    p: "parse_comma st s = Inr (h, s1)" "parse_key st s1 = Inr (st1, s2)" "parse_value f h st1 s2 = Inr r"
    by (auto simp: parse_step_def split: sum.split_asm)
  have "suffix s2 s" using parse_comma_suffix [OF p(1)] parse_key_suffix [OF p(2)] suffix_order.trans by blast
  with parse_value_suffix [OF p(3)] show ?thesis
    by (meson suffix_order.trans suffix_length_le less_le_trans)
qed

section \<open>The loop\<close>

function parse_loop :: "fpu \<Rightarrow> jparser \<Rightarrow> bytes \<Rightarrow> json_error + json" where
  "parse_loop f st s =
     (case parse_step f st s of
        Inl e \<Rightarrow> Inl e
      | Inr (More st1 s1) \<Rightarrow> parse_loop f st1 s1
      | Inr (Root j st1 s1) \<Rightarrow>
          if fst (peek_structure s1) = NUL then Inr j else Inl (Malformed ''expected end of input''))"
  by pat_completeness auto

termination
  by (relation "measure (\<lambda>(f, st, s). length s)") (auto dest: parse_step_suffix)

declare parse_loop.simps [simp del]

text \<open>\<open>parser::parser\<close> and the part of \<open>parse\<close> in front of the loop. The array has as many words as the
  text has characters.\<close>

definition parser_start :: "jtype \<Rightarrow> nat \<Rightarrow> jparser" where
  "parser_start t len = \<lparr>ps_level = open_level t 0, ps_outer = [], ps_temp = 1, ps_out = int len\<rparr>"

definition parse :: "fpu \<Rightarrow> bytes \<Rightarrow> json_error + json" where
  "parse f text =
     (let c = fst (peek_structure text); s = snd (peek_structure text) in
      if c = NUL then Inl (Malformed ''no root element'')
      else if c = CHR ''['' then parse_loop f (parser_start TYPE_ARRAY (length text)) (tl s)
      else if c = CHR 0x7B then parse_loop f (parser_start TYPE_OBJECT (length text)) (tl s)
      else Inl (Malformed ''document root must be object or array''))"

section \<open>Read access\<close>

text \<open>\<open>find_object_key\<close>: \<open>std::lower_bound\<close> over the ordered keys, then a comparison; the number
  of entries when the key is not there.\<close>

definition lower_bound :: "jkey \<Rightarrow> (jkey \<times> json) list \<Rightarrow> nat" where
  "lower_bound k fs = length (takeWhile (\<lambda>(k', j). k' < k) fs)"

definition find_object_key :: "string \<Rightarrow> (jkey \<times> json) list \<Rightarrow> nat" where
  "find_object_key key fs =
     (let i = lower_bound (Key key) fs in
      if i < length fs \<and> fst (fs ! i) = Key key then i else length fs)"

text \<open>The accessors of \<open>Node\<close>: a value of another type gives the default. \<open>GetArrayElement\<close> and
  the accessors by position are called below \<open>Size\<close> only.\<close>

definition IsNull :: "json \<Rightarrow> bool" where "IsNull n \<longleftrightarrow> get_type n = TYPE_NULL"
definition IsObject :: "json \<Rightarrow> bool" where "IsObject n \<longleftrightarrow> get_type n = TYPE_OBJECT"
definition IsArray :: "json \<Rightarrow> bool" where "IsArray n \<longleftrightarrow> get_type n = TYPE_ARRAY"
definition IsString :: "json \<Rightarrow> bool" where "IsString n \<longleftrightarrow> get_type n = TYPE_STRING"
definition IsDouble :: "json \<Rightarrow> bool" where "IsDouble n \<longleftrightarrow> get_type n = TYPE_DOUBLE"
definition IsInt :: "json \<Rightarrow> bool" where "IsInt n \<longleftrightarrow> get_type n = TYPE_INTEGER"
definition IsTrue :: "json \<Rightarrow> bool" where "IsTrue n \<longleftrightarrow> get_type n = TYPE_TRUE"
definition IsFalse :: "json \<Rightarrow> bool" where "IsFalse n \<longleftrightarrow> get_type n = TYPE_FALSE"

definition GetStringValue :: "json \<Rightarrow> string" where
  "GetStringValue n = (case n of JStr s \<Rightarrow> s | _ \<Rightarrow> [])"

definition GetDoubleValue :: "json \<Rightarrow> double" where
  "GetDoubleValue n = (case n of JDouble d \<Rightarrow> d | _ \<Rightarrow> 0)"

definition GetBigIntValue :: "fpu \<Rightarrow> json \<Rightarrow> i64" where
  "GetBigIntValue f n =
     (case n of JDouble d \<Rightarrow> fp_to_i64 f d | JInt i \<Rightarrow> fp_to_i64 f (fp_int f (sint i)) | _ \<Rightarrow> 0)"

definition GetIntValue :: "json \<Rightarrow> i32" where
  "GetIntValue n = (case n of JInt i \<Rightarrow> i | _ \<Rightarrow> 0)"

definition Size :: "json \<Rightarrow> nat" where
  "Size n = (case n of JArr js \<Rightarrow> length js | JObj fs \<Rightarrow> length fs | _ \<Rightarrow> 0)"

definition GetArrayElement :: "nat \<Rightarrow> json \<Rightarrow> json" where
  "GetArrayElement i n = (case n of JArr js \<Rightarrow> js ! i | _ \<Rightarrow> JNull)"

definition GetObjectKey :: "nat \<Rightarrow> json \<Rightarrow> string" where
  "GetObjectKey i n = (case n of JObj fs \<Rightarrow> key_text (fst (fs ! i)) | _ \<Rightarrow> [])"

definition GetObjectAt :: "nat \<Rightarrow> json \<Rightarrow> json" where
  "GetObjectAt i n = (case n of JObj fs \<Rightarrow> snd (fs ! i) | _ \<Rightarrow> JNull)"

definition GetObjectValue :: "string \<Rightarrow> json \<Rightarrow> json" where
  "GetObjectValue key n =
     (case n of
        JObj fs \<Rightarrow> (let i = find_object_key key fs in if i < length fs then snd (fs ! i) else JNull)
      | _ \<Rightarrow> JNull)"

section \<open>Memory\<close>

text \<open>The states of the parser at the head of its loop.\<close>

inductive parsing :: "fpu \<Rightarrow> bytes \<Rightarrow> jparser \<Rightarrow> bytes \<Rightarrow> bool" for f :: fpu and doc :: bytes where
  parsing_array: "peek_structure doc = (CHR ''['', s) \<Longrightarrow>
     parsing f doc (parser_start TYPE_ARRAY (length doc)) (tl s)"
| parsing_object: "peek_structure doc = (CHR 0x7B, s) \<Longrightarrow>
     parsing f doc (parser_start TYPE_OBJECT (length doc)) (tl s)"
| parsing_step: "parsing f doc st s \<Longrightarrow> parse_step f st s = Inr (More st' s') \<Longrightarrow> parsing f doc st' s'"

text \<open>The words of the stack that belong to a level, and the chain of the open levels.\<close>

definition level_words :: "jlevel \<Rightarrow> nat" where
  "level_words lv = (if lv_type lv = TYPE_OBJECT then 3 else 1) * length (lv_elems lv)"

definition key_words :: "jlevel \<Rightarrow> nat" where
  "key_words lv = (if lv_type lv = TYPE_OBJECT then 2 else 0)"

fun levels_ok :: "nat \<Rightarrow> jlevel list \<Rightarrow> bool" where
  "levels_ok base [] \<longleftrightarrow> base = 0"
| "levels_ok base (lv # lvs) \<longleftrightarrow>
     base = lv_base lv + 1 + level_words lv + key_words lv \<and> levels_ok (lv_base lv) lvs"

text \<open>What a state leaves free: the text that is left pays for the words to come, but for one
  word when an element has just been stored, which the comma or the bracket behind it pays.\<close>

definition room_left :: "nat \<Rightarrow> jparser \<Rightarrow> bytes \<Rightarrow> bool" where
  "room_left len st s \<longleftrightarrow>
     ps_temp st = lv_base (ps_level st) + 1 + level_words (ps_level st)
     \<and> levels_ok (lv_base (ps_level st)) (ps_outer st)
     \<and> ps_temp st + length s \<le> len
     \<and> int (ps_temp st + length s) \<le> ps_out st + (if lv_elems (ps_level st) = [] then 0 else 1)"

fun step_state :: "jstep \<Rightarrow> jparser" where
  "step_state (More st s) = st"
| "step_state (Root j st s) = st"

lemma first_element_empty: "room_left len st s \<Longrightarrow> is_first_element st \<longleftrightarrow> lv_elems (ps_level st) = []"
  by (auto simp: room_left_def is_first_element_def level_words_def)

lemma peek_length: "length (snd (peek_structure s)) \<le> length s"
  using peek_suffix suffix_length_le by blast

lemma peek_head: "fst (peek_structure s) \<noteq> NUL \<Longrightarrow>
  snd (peek_structure s) = fst (peek_structure s) # tl (snd (peek_structure s))"
  by (cases "skip_blanks s") (auto simp: peek_structure_def head_char_def)

lemma peek_idem [simp]: "peek_structure (snd (peek_structure s)) = peek_structure s"
  by (simp add: peek_structure_def)

lemma peek_tl_length: "fst (peek_structure s) \<noteq> NUL \<Longrightarrow> length (tl (snd (peek_structure s))) < length s"
  using peek_head [of s] peek_length [of s] by (metis Suc_le_lessD length_Cons)

lemma parse_comma_cases:
  assumes "parse_comma st s = Inr (h, s1)"
  obtains "is_first_element st" "\<not> h" "length s1 \<le> length s"
  | "\<not> is_first_element st" "h" "length s1 < length s"
  | "\<not> is_first_element st" "\<not> h" "length s1 \<le> length s" "fst (peek_structure s1) = closing_bracket (lv_type (ps_level st))"
proof -
  have "length (snd (peek_structure (tl (snd (peek_structure s))))) < length s"
    if "fst (peek_structure s) = CHR '',''"
    using that peek_tl_length [of s] peek_length [of "tl (snd (peek_structure s))"] by simp
  with assms peek_length [of s] that show ?thesis
    by (auto simp: parse_comma_def Let_def split: if_split_asm)
qed

lemma parse_key_cases:
  assumes "parse_key st s = Inr (st1, s1)"
  obtains "st1 = st" "length s1 \<le> length s" "peek_structure s1 = peek_structure s"
    "lv_type (ps_level st) = TYPE_OBJECT \<Longrightarrow> fst (peek_structure s) = CHR 0x7D"
  | k where "st1 = note_key k st" "length s1 + 3 \<le> length s" "lv_type (ps_level st) = TYPE_OBJECT"
      "fst (peek_structure s) \<noteq> CHR 0x7D"
proof (cases "lv_type (ps_level st) = TYPE_OBJECT \<and> fst (peek_structure s) \<noteq> CHR 0x7D")
  case True
  with assms obtain k s2 where
    p: "fst (peek_structure s) = CHR 0x22" "parse_string (snd (peek_structure s)) = Inr (k, s2)"
      "fst (peek_structure s2) = CHR '':''" "st1 = note_key k st" "s1 = tl (snd (peek_structure s2))"
    by (auto simp: parse_key_def Let_def split: if_split_asm sum.split_asm)
  have "length s2 < length (tl (snd (peek_structure s)))"
    using p(2) string_loop_length unfolding parse_string_def by blast
  with p peek_tl_length [of s] peek_tl_length [of s2] have "length s1 + 3 \<le> length s" by simp
  with p True that(2) show ?thesis by blast
next
  case False
  with assms have "st1 = st" "s1 = snd (peek_structure s)" by (auto simp: parse_key_def Let_def)
  with False that(1) peek_length [of s] show ?thesis by simp
qed

lemma parse_number_words: "parse_number f s = Inr (j, s') \<Longrightarrow> out_words j = 1"
  by (auto simp: parse_number_def finish_number_def Let_def split: if_split_asm sum.split_asm)

lemma parse_scalar_words:
  assumes "parse_scalar f (hd s) s = Inr (j, s')" "s \<noteq> []"
  shows "out_words j \<le> length s - length s'" "length s' < length s"
proof -
  show l: "length s' < length s"
    using suffix_length_le [OF parse_scalar_suffix [OF assms]] assms(2) by (cases s) auto
  have str: "length s' + 2 \<le> length s" if "parse_string s = Inr (t, s')" for t
    using string_loop_length [of "[]" "tl s" t s'] that assms(2) by (cases s) (auto simp: parse_string_def)
  from assms(1) consider "j \<in> {JNull, JFalse, JTrue}" | "parse_number f s = Inr (j, s')"
    | t where "parse_string s = Inr (t, s')" "j = JStr t"
    by (auto simp: parse_scalar_def parse_null_def parse_false_def parse_true_def
        split: if_split_asm sum.split_asm dest!: parse_word_length)
  then show "out_words j \<le> length s - length s'"
  proof cases
    case 2
    then show ?thesis using l by (simp add: parse_number_words)
  next
    case 3
    then show ?thesis using str by fastforce
  qed auto
qed

lemma parse_value_cases:
  assumes "parse_value f h st s = Inr r"
  obtains t where "r = More (push_level t st) (step_rest r)" "length (step_rest r) < length s"
      "t \<in> {TYPE_ARRAY, TYPE_OBJECT}" "fst (peek_structure s) \<noteq> closing_bracket (lv_type (ps_level st))"
  | "r = pop_level st (step_rest r)" "\<not> h" "length (step_rest r) < length s"
      "fst (peek_structure s) = closing_bracket (lv_type (ps_level st))"
  | j where "r = More (add_element j (reserve_out j st)) (step_rest r)"
      "out_words j \<le> length s - length (step_rest r)" "length (step_rest r) < length s"
      "fst (peek_structure s) \<noteq> closing_bracket (lv_type (ps_level st))"
proof -
  note goals = that
  let ?s = "snd (peek_structure s)" and ?c = "fst (peek_structure s)"
  have c: "?c \<noteq> NUL" using assms by (auto simp: parse_value_def Let_def)
  then have s: "?s \<noteq> []" "hd ?s = ?c" using peek_head [OF c] by (metis list.distinct(1), metis list.sel(1))
  have t: "length (tl ?s) < length s" by (rule peek_tl_length [OF c])
  have cb: "closing_bracket x \<in> {CHR '']'', CHR 0x7D}" for x by (simp add: closing_bracket_def)
  have scalar: "thesis" if p: "parse_scalar f ?c ?s = Inr (j, s1)" "r = More (add_element j (reserve_out j st)) s1"
      "?c \<noteq> CHR '']''" "?c \<noteq> CHR 0x7D" for j s1
  proof -
    have "parse_scalar f (hd ?s) ?s = Inr (j, s1)" using p(1) s(2) by simp
    from parse_scalar_words [OF this s(1)] peek_length [of s]
    have "out_words j \<le> length s - length s1" "length s1 < length s" by simp_all
    moreover have "?c \<noteq> closing_bracket (lv_type (ps_level st))" using p(3,4) cb by fastforce
    ultimately show ?thesis using p(2) by (intro goals(3) [of j]) simp_all
  qed
  have pop: "thesis" if p: "r = pop_level st (tl ?s)" "\<not> h" "?c = closing_bracket (lv_type (ps_level st))"
    using goals(2) t p by simp
  show ?thesis
    using assms c goals(1) scalar pop t cb [of "lv_type (ps_level st)"]
    by (auto simp: parse_value_def Let_def split: if_split_asm sum.split_asm)
qed

text \<open>Every round keeps the invariant.\<close>

lemma out_words_install [simp]: "out_words (install lv) = level_words lv + 1"
  by (simp add: install_def install_object_def install_array_def level_words_def)

definition keyed :: "jparser \<Rightarrow> jparser \<Rightarrow> bool" where
  "keyed st st1 \<longleftrightarrow> (if lv_type (ps_level st) = TYPE_OBJECT then \<exists>k. st1 = note_key k st else st1 = st)"

lemma keyed_simps:
  assumes "keyed st st1"
  shows "ps_temp st1 = ps_temp st + key_words (ps_level st)" "ps_outer st1 = ps_outer st" "ps_out st1 = ps_out st"
    "lv_type (ps_level st1) = lv_type (ps_level st)" "lv_base (ps_level st1) = lv_base (ps_level st)"
    "lv_elems (ps_level st1) = lv_elems (ps_level st)"
  using assms by (auto simp: keyed_def key_words_def note_key_def split: if_split_asm)

text \<open>The text a round has consumed in front of a value.\<close>

lemma comma_key_cost:
  assumes room_left: "room_left len st s"
    and p: "parse_comma st s = Inr (h, s1)" "parse_key st s1 = Inr (st1, s2)"
  shows "(fst (peek_structure s2) \<noteq> closing_bracket (lv_type (ps_level st)) \<longrightarrow>
      keyed st st1 \<and> length s2 + (if lv_elems (ps_level st) = [] then 0 else 1)
         + (if lv_type (ps_level st) = TYPE_OBJECT then 3 else 0) \<le> length s)
    \<and> (\<not> h \<longrightarrow> st1 = st \<or> (lv_elems (ps_level st) = [] \<and> keyed st st1 \<and> length s2 + 3 \<le> length s))
    \<and> length s2 \<le> length s"
  using p(1)
proof (cases rule: parse_comma_cases)
  case 1
  with p(2) show ?thesis
    unfolding first_element_empty [OF room_left]
    by (elim parse_key_cases) (auto simp: keyed_def closing_bracket_def)
next
  case 2
  with p(2) show ?thesis
    unfolding first_element_empty [OF room_left]
    by (elim parse_key_cases) (auto simp: keyed_def closing_bracket_def)
next
  case 3
  with p(2) show ?thesis
    unfolding first_element_empty [OF room_left]
    by (elim parse_key_cases) (auto simp: keyed_def closing_bracket_def split: if_split_asm)
qed

lemma room_left_push:
  assumes "room_left len st s" "keyed st st1" "length s1 < n"
    and "n + (if lv_elems (ps_level st) = [] then 0 else 1)
           + (if lv_type (ps_level st) = TYPE_OBJECT then 3 else 0) \<le> length s"
  shows "room_left len (push_level t st1) s1"
  using assms(1,3,4) keyed_simps [OF assms(2)]
  by (auto simp: room_left_def push_level_def open_level_def level_words_def key_words_def split: if_split_asm)

lemma room_left_scalar:
  assumes "room_left len st s" "keyed st st1" "length s1 < n" "out_words j \<le> n - length s1"
    and "n + (if lv_elems (ps_level st) = [] then 0 else 1)
           + (if lv_type (ps_level st) = TYPE_OBJECT then 3 else 0) \<le> length s"
  shows "room_left len (add_element j (reserve_out j st1)) s1"
  using assms(1,3,4,5) keyed_simps [OF assms(2)]
  by (auto simp: room_left_def add_element_def reserve_out_def level_words_def key_words_def split: if_split_asm)

lemma room_left_pop:
  assumes "room_left len st s" "pop_level st1 s1 = More st2 s2" "length s1 < length s"
    and "st1 = st \<or> (lv_elems (ps_level st) = [] \<and> keyed st st1)"
  shows "room_left len st2 s1"
proof -
  have st1: "ps_outer st1 = ps_outer st" "ps_out st1 = ps_out st" "lv_base (ps_level st1) = lv_base (ps_level st)"
    "level_words (ps_level st1) = level_words (ps_level st)"
    using assms(4) keyed_simps [of st st1] by (auto simp: level_words_def)
  from assms(2) obtain lv outer where o: "ps_outer st = lv # outer"
    "st2 = add_element (install (ps_level st1)) (reserve_out (install (ps_level st1)) st1
       \<lparr>ps_level := lv, ps_outer := outer, ps_temp := lv_base (ps_level st)\<rparr>)"
    by (auto simp: pop_level_def Let_def st1 split: list.split_asm)
  show ?thesis
    using assms(1,3) st1 o
    by (auto simp: room_left_def add_element_def reserve_out_def level_words_def key_words_def split: if_split_asm)
qed

lemma room_left_step:
  assumes room_left: "room_left len st s" and step: "parse_step f st s = Inr r"
  shows "(case r of More st1 s1 \<Rightarrow> room_left len st1 s1
            | Root j st1 s1 \<Rightarrow> ps_temp st1 \<le> len \<and> 0 \<le> ps_out st1)"
proof -
  from step obtain h s1 st1 s2 where
    p: "parse_comma st s = Inr (h, s1)" "parse_key st s1 = Inr (st1, s2)" "parse_value f h st1 s2 = Inr r"
    by (auto simp: parse_step_def split: sum.split_asm)
  note shorter = parse_step_suffix [OF step]
  note cost = comma_key_cost [OF room_left p(1,2)]
  have ty: "lv_type (ps_level st1) = lv_type (ps_level st)"
    using p(2) by (elim parse_key_cases) (auto simp: note_key_def)
  show ?thesis
    using p(3)
  proof (cases rule: parse_value_cases)
    case (1 t)
    with cost ty room_left_push [OF room_left, of st1 "step_rest r" "length s2" t] show ?thesis by (cases r) auto
  next
    case (3 j)
    with cost ty room_left_scalar [OF room_left, of st1 "step_rest r" "length s2" j] show ?thesis by (cases r) auto
  next
    case 2
    with cost have st1: "st1 = st \<or> (lv_elems (ps_level st) = [] \<and> keyed st st1)"
      and key: "st1 = st \<or> length s2 + 3 \<le> length s" by auto
    show ?thesis
    proof (cases r)
      case (More st2 s2)
      with 2(1) have e: "pop_level st1 s2 = More st2 s2" by simp
      show ?thesis using room_left_pop [OF room_left e _ st1] shorter More by simp
    next
      case (Root j st2 s3)
      with 2 have "st2 = reserve_out (install (ps_level st1)) st1"
        by (auto simp: pop_level_def Let_def split: list.split_asm)
      with room_left st1 key shorter keyed_simps [of st st1] Root show ?thesis
        by (auto simp: room_left_def reserve_out_def level_words_def key_words_def split: if_split_asm)
    qed
  qed
qed

lemma parser_start_room: "s \<noteq> [] \<Longrightarrow> length s \<le> len \<Longrightarrow> room_left len (parser_start t len) (tl s)"
  by (cases s) (auto simp: room_left_def parser_start_def open_level_def level_words_def)

lemma parsing_room: "parsing f doc st s \<Longrightarrow> room_left (length doc) st s"
proof (induction rule: parsing.induct)
  case (parsing_array s)
  then have "s \<noteq> []" "length s \<le> length doc"
    using peek_head [of doc] peek_length [of doc] by auto
  then show ?case by (rule parser_start_room)
next
  case (parsing_object s)
  then have "s \<noteq> []" "length s \<le> length doc"
    using peek_head [of doc] peek_length [of doc] by auto
  then show ?case by (rule parser_start_room)
next
  case (parsing_step st s st' s')
  then show ?case using room_left_step [OF parsing_step.IH parsing_step.hyps(2)] by simp
qed

text \<open>C13: In the one array of the parser, which has a word for each character of the text,
  the stack and the results stay inside, they do not overlap while there is text
  to read (so closing an array or object moves the words that were put there), and a key, which is written
  to the stack before its colon has been seen, stays inside too.\<close>

theorem parser_memory:
  assumes "parsing f doc st s"
  shows "ps_temp st \<le> length doc \<and> 0 \<le> ps_out st \<and> (s \<noteq> [] \<longrightarrow> int (ps_temp st) \<le> ps_out st)
    \<and> (\<forall>r. parse_step f st s = Inr r \<longrightarrow> ps_temp (step_state r) \<le> length doc \<and> 0 \<le> ps_out (step_state r))
    \<and> (\<forall>h s1 k s2. parse_comma st s = Inr (h, s1) \<and> lv_type (ps_level st) = TYPE_OBJECT
         \<and> parse_string (snd (peek_structure s1)) = Inr (k, s2) \<longrightarrow> ps_temp st + 2 \<le> length doc)"
proof -
  note f = parsing_room [OF assms]
  have basic: "ps_temp t \<le> length doc" "0 \<le> ps_out t" if "room_left (length doc) t u" for t u
    using that by (auto simp: room_left_def level_words_def split: if_split_asm)
  have steps: "ps_temp (step_state r) \<le> length doc \<and> 0 \<le> ps_out (step_state r)" if "parse_step f st s = Inr r" for r
    using room_left_step [OF f that] basic by (cases r) auto
  have key: "ps_temp st + 2 \<le> length doc"
    if "parse_comma st s = Inr (h, s1)" "parse_string (snd (peek_structure s1)) = Inr (k, s2)" for h s1 k s2
  proof -
    have "length s1 \<le> length s" using that(1) suffix_length_le [OF parse_comma_suffix] by blast
    moreover have "length s2 + 2 \<le> length s1"
      using string_loop_length [of "[]" "tl (snd (peek_structure s1))" k s2] that(2) peek_length [of s1]
      by (auto simp: parse_string_def)
    ultimately show ?thesis using f by (simp add: room_left_def)
  qed
  have "int (ps_temp st) \<le> ps_out st" if "s \<noteq> []"
    using f that by (cases s) (auto simp: room_left_def split: if_split_asm)
  with basic [OF f] steps key show ?thesis by blast
qed

section \<open>What a parsed value is\<close>

text \<open>A value as the parser makes them: the keys of each object are in order.\<close>

fun well_typed :: "json \<Rightarrow> bool" where
  "well_typed (JArr js) \<longleftrightarrow> (\<forall>j\<in>set js. well_typed j)"
| "well_typed (JObj fs) \<longleftrightarrow> sorted (map fst fs) \<and> (\<forall>(k, j)\<in>set fs. well_typed j)"
| "well_typed _ \<longleftrightarrow> True"

definition level_typed :: "jlevel \<Rightarrow> bool" where
  "level_typed lv \<longleftrightarrow> lv_type lv \<in> {TYPE_ARRAY, TYPE_OBJECT} \<and> (\<forall>(k, j)\<in>set (lv_elems lv). well_typed j)"

definition typed :: "jparser \<Rightarrow> bool" where
  "typed st \<longleftrightarrow> level_typed (ps_level st) \<and> (\<forall>lv\<in>set (ps_outer st). level_typed lv)"

lemma install_typed: "level_typed lv \<Longrightarrow> well_typed (install lv) \<and> get_type (install lv) = lv_type lv"
  by (auto simp: level_typed_def install_def install_array_def install_object_def)

lemma parse_scalar_typed: "parse_scalar f c s = Inr (j, s') \<Longrightarrow> well_typed j"
  by (auto simp: parse_scalar_def parse_null_def parse_false_def parse_true_def parse_number_def finish_number_def Let_def
      split: if_split_asm sum.split_asm dest!: parse_word_length)

lemma add_typed: "typed st \<Longrightarrow> well_typed j \<Longrightarrow> typed (add_element j st)"
  by (auto simp: typed_def add_element_def level_typed_def)

lemma pop_typed:
  assumes "typed st"
  shows "case pop_level st s of More st1 s1 \<Rightarrow> typed st1
    | Root j st1 s1 \<Rightarrow> well_typed j \<and> get_type j \<in> {TYPE_ARRAY, TYPE_OBJECT}"
proof -
  have j: "well_typed (install (ps_level st))" "get_type (install (ps_level st)) \<in> {TYPE_ARRAY, TYPE_OBJECT}"
    using assms install_typed [of "ps_level st"] by (auto simp: typed_def level_typed_def)
  show ?thesis
  proof (cases "ps_outer st")
    case Nil
    with j show ?thesis by (simp add: pop_level_def Let_def)
  next
    case (Cons lv outer)
    with assms have "typed (reserve_out (install (ps_level st)) st
        \<lparr>ps_level := lv, ps_outer := outer, ps_temp := lv_base (ps_level st)\<rparr>)"
      by (simp add: typed_def reserve_out_def)
    with Cons add_typed j(1) show ?thesis by (simp add: pop_level_def Let_def del: out_words_install)
  qed
qed

lemma step_typed:
  assumes "typed st" "parse_step f st s = Inr r"
  shows "case r of More st1 s1 \<Rightarrow> typed st1
    | Root j st1 s1 \<Rightarrow> well_typed j \<and> get_type j \<in> {TYPE_ARRAY, TYPE_OBJECT}"
proof -
  from assms(2) obtain h s1 st1 s2 where
    p: "parse_comma st s = Inr (h, s1)" "parse_key st s1 = Inr (st1, s2)" "parse_value f h st1 s2 = Inr r"
    by (auto simp: parse_step_def split: sum.split_asm)
  have t: "typed st1"
    using p(2) assms(1) by (elim parse_key_cases) (auto simp: note_key_def typed_def level_typed_def)
  have scalar: "typed (add_element j (reserve_out j st1))" if "parse_scalar f c s3 = Inr (j, s4)" for c s3 j s4
  proof (rule add_typed)
    show "typed (reserve_out j st1)" using t by (simp add: typed_def reserve_out_def)
  qed (rule parse_scalar_typed [OF that])
  have push: "typed (push_level ty st1)" if "ty = TYPE_ARRAY \<or> ty = TYPE_OBJECT" for ty
    using t that by (auto simp: typed_def push_level_def open_level_def level_typed_def)
  show ?thesis
    using p(3) pop_typed [OF t] scalar push
    by (auto simp: parse_value_def Let_def split: if_split_asm sum.split_asm)
qed

lemma loop_typed:
  "typed st \<Longrightarrow> parse_loop f st s = Inr j \<Longrightarrow> well_typed j \<and> get_type j \<in> {TYPE_ARRAY, TYPE_OBJECT}"
proof (induction s arbitrary: st rule: length_induct)
  case (1 s)
  from "1.prems"(2) obtain r where r: "parse_step f st s = Inr r"
    by (subst (asm) parse_loop.simps) (auto split: sum.split_asm)
  note t = step_typed [OF "1.prems"(1) r] and sh = parse_step_suffix [OF r]
  show ?case
  proof (cases r)
    case (More st1 s1)
    then have "parse_loop f st1 s1 = Inr j"
      using "1.prems"(2) r by (subst (asm) parse_loop.simps) simp
    moreover have "typed st1" "length s1 < length s" using More t sh by simp_all
    ultimately show ?thesis using "1.IH" by blast
  next
    case (Root j1 st1 s1)
    then have "j = j1"
      using "1.prems"(2) r by (subst (asm) parse_loop.simps) (simp split: if_split_asm)
    with Root t show ?thesis by simp
  qed
qed

lemma start_typed: "t \<in> {TYPE_ARRAY, TYPE_OBJECT} \<Longrightarrow> typed (parser_start t len)"
  by (simp add: typed_def parser_start_def open_level_def level_typed_def)

lemma parse_well_typed: "parse f doc = Inr j \<Longrightarrow> well_typed j \<and> get_type j \<in> {TYPE_ARRAY, TYPE_OBJECT}"
  by (auto simp: parse_def Let_def split: if_split_asm dest!: loop_typed [OF start_typed, rotated])

text \<open>In ordered keys the lookup by bisection finds what a search finds.\<close>

lemma lower_bound_correct:
  assumes "sorted (map fst fs)"
  shows "(lower_bound k fs < length fs \<and> fst (fs ! lower_bound k fs) = k \<longleftrightarrow> map_of fs k \<noteq> None)
    \<and> (\<forall>j. map_of fs k = Some j \<longrightarrow> snd (fs ! lower_bound k fs) = j)"
  using assms
proof (induction fs)
  case (Cons a fs)
  obtain k1 j1 where a: "a = (k1, j1)" by force
  consider "k1 < k" | "k1 = k" | "k < k1" by fastforce
  then show ?case
  proof cases
    case 3
    then have "map_of fs k = None"
      using Cons.prems by (auto simp: a map_of_eq_None_iff)
    with 3 show ?thesis by (auto simp: a lower_bound_def)
  qed (use Cons in \<open>auto simp: a lower_bound_def\<close>)
qed (simp add: lower_bound_def)

lemma GetObjectValue_sorted:
  "sorted (map fst fs) \<Longrightarrow> GetObjectValue key (JObj fs) = (case map_of fs (Key key) of None \<Rightarrow> JNull | Some j \<Rightarrow> j)"
  using lower_bound_correct [of fs "Key key"]
  by (auto simp: GetObjectValue_def find_object_key_def Let_def split: option.split)

fun inside :: "json \<Rightarrow> json list" where
  "inside (JArr js) = JArr js # concat (map inside js)"
| "inside (JObj fs) = JObj fs # concat (map (\<lambda>(k, j). inside j) fs)"
| "inside j = [j]"

lemma inside_typed: "well_typed j \<Longrightarrow> x \<in> set (inside j) \<Longrightarrow> well_typed x"
  by (induction j rule: inside.induct) auto

text \<open>C26: A parsed document is an array or an object, the keys of every object in it are in
  order, and \<open>GetObjectValue\<close> gives for each object in it and each key the first entry with that key, and the null
  value when there is none.\<close>

theorem parsed_value_type:
  assumes "parse f doc = Inr j"
  shows "get_type j \<in> {TYPE_ARRAY, TYPE_OBJECT} \<and> well_typed j
    \<and> (\<forall>fs key. JObj fs \<in> set (inside j) \<longrightarrow>
         GetObjectValue key (JObj fs) = (case map_of fs (Key key) of None \<Rightarrow> JNull | Some v \<Rightarrow> v))"
proof -
  note t = parse_well_typed [OF assms]
  have "GetObjectValue key (JObj fs) = (case map_of fs (Key key) of None \<Rightarrow> JNull | Some v \<Rightarrow> v)"
    if "JObj fs \<in> set (inside j)" for fs key
    using inside_typed [OF _ that] t by (intro GetObjectValue_sorted) simp
  with t show ?thesis by blast
qed

section \<open>Reading behind the end\<close>

lemma read_hex_no_overread: "n \<le> length s \<Longrightarrow> read_hex n v s \<noteq> Inl Overread"
  by (induction n v s rule: read_hex.induct) (auto split: option.split)

lemma escape_no_overread: "escape s \<noteq> Inl Overread"
  using read_hex_no_overread [of 4]
  by (auto simp: escape_def unicode_escape_def trail_surrogate_def end_of_input_def
      split: list.split option.split sum.split)

lemma parse_string_slow_no_overread: "parse_string_slow acc s \<noteq> Inl Overread"
proof (induction s arbitrary: acc rule: length_induct)
  case (1 s)
  show ?case
  proof (cases s)
    case (Cons c cs)
    have IH: "parse_string_slow acc1 s1 \<noteq> Inl Overread" if "length s1 \<le> length cs" for acc1 s1
      using 1 that Cons by simp
    show ?thesis
      unfolding Cons slow_Cons using escape_no_overread IH
      by (auto split: sum.split dest: escape_length)
  qed (simp add: slow_Nil end_of_input_def)
qed

lemma parse_string_no_overread: "parse_string s \<noteq> Inl Overread"
proof -
  have "string_loop acc t \<noteq> Inl Overread" for acc t
    by (induction acc t rule: string_loop.induct)
      (auto simp: end_of_input_def parse_string_slow_no_overread)
  then show ?thesis by (simp add: parse_string_def)
qed

lemma int_digits_no_overread: "s \<noteq> [] \<Longrightarrow> int_digits f t i d s \<noteq> Inl Overread"
  by (induction f t i d s rule: int_digits.induct) (auto simp: Let_def end_of_input_def)

lemma frac_digits_no_overread: "s \<noteq> [] \<Longrightarrow> frac_digits f d e s \<noteq> Inl Overread"
  by (induction f d e s rule: frac_digits.induct) (auto simp: end_of_input_def)

lemma exp_digits_no_overread: "s \<noteq> [] \<Longrightarrow> exp_digits e s \<noteq> Inl Overread"
  by (induction e s rule: exp_digits.induct) (auto simp: Let_def end_of_input_def)

lemma exp_part_no_overread: "s \<noteq> [] \<Longrightarrow> exp_part f t i d e s \<noteq> Inl Overread"
  using exp_digits_no_overread
  by (auto simp: exp_part_def exp_sign_def end_of_input_def Let_def simp del: exp_digits.simps
      split: list.split sum.split)

lemma frac_part_no_overread: "s \<noteq> [] \<Longrightarrow> frac_part f t i d s \<noteq> Inl Overread"
  using frac_digits_no_overread
  by (auto simp: frac_part_def end_of_input_def simp del: frac_digits.simps split: list.split sum.split)

lemma int_part_at_end: "s \<noteq> [] \<Longrightarrow> int_part f s = Inr (t, i, d, []) \<Longrightarrow> s = ''0''"
  by (auto simp: int_part_def simp del: int_digits.simps split: list.split_asm if_split_asm
      dest: int_digits_suffix)

lemma parse_number_overread:
  assumes "parse_number f s = Inl Overread" "s \<noteq> []"
  shows "suffix ''0'' s"
proof -
  let ?s1 = "if hd s = CHR ''-'' then tl s else s"
  have s1: "?s1 \<noteq> []" using assms by (auto simp: parse_number_def end_of_input_def Let_def split: if_split_asm)
  have "int_part f ?s1 \<noteq> Inl Overread"
    using s1 int_digits_no_overread [of ?s1] by (auto simp: int_part_def simp del: int_digits.simps split: list.split)
  with assms(1) obtain t i d s2 where p: "int_part f ?s1 = Inr (t, i, d, s2)"
    "frac_part f t i d s2 = Inl Overread \<or> (\<exists>t1 d1 e s3. frac_part f t i d s2 = Inr (t1, d1, e, s3) \<and> exp_part f t1 i d1 e s3 = Inl Overread)"
    by (auto simp: parse_number_def Let_def end_of_input_def split: if_split_asm sum.split_asm)
  then have "s2 = []"
    using frac_part_no_overread frac_part_suffix exp_part_no_overread by metis
  with p int_part_at_end s1 have "?s1 = ''0''" by blast
  then show ?thesis by (metis suffix_order.refl suffix_tl)
qed

lemma parse_step_overread:
  assumes "parse_step f st s = Inl Overread"
  shows "suffix ''0'' s"
proof -
  have key: "parse_key st s1 \<noteq> Inl Overread" for s1
    by (auto simp: parse_key_def Let_def split: sum.split)
  have comma: "parse_comma st s \<noteq> Inl Overread"
    by (auto simp: parse_comma_def Let_def)
  from assms key comma obtain h s1 st1 s2 where
    p: "parse_comma st s = Inr (h, s1)" "parse_key st s1 = Inr (st1, s2)" "parse_value f h st1 s2 = Inl Overread"
    by (auto simp: parse_step_def split: sum.split_asm)
  let ?s = "snd (peek_structure s2)" and ?c = "fst (peek_structure s2)"
  from p(3) have c: "?c \<noteq> NUL" and sc: "parse_scalar f ?c ?s = Inl Overread"
    by (auto simp: parse_value_def Let_def end_of_input_def split: if_split_asm sum.split_asm)
  have "?s \<noteq> []" using peek_head [OF c] by (metis list.distinct(1))
  moreover have "parse_number f ?s = Inl Overread"
    using sc parse_string_no_overread [of ?s]
    by (auto simp: parse_scalar_def parse_null_def parse_false_def parse_true_def parse_word_def end_of_input_def
        split: if_split_asm sum.split_asm)
  ultimately have "suffix ''0'' ?s" by (rule parse_number_overread [rotated])
  moreover have "suffix ?s s"
    using peek_suffix [of s2] parse_key_suffix [OF p(2)] parse_comma_suffix [OF p(1)] suffix_order.trans by blast
  ultimately show ?thesis using suffix_order.trans by blast
qed

lemma parse_loop_overread: "parse_loop f st s = Inl Overread \<Longrightarrow> suffix ''0'' s"
proof (induction s arbitrary: st rule: length_induct)
  case (1 s)
  show ?case
  proof (cases "parse_step f st s")
    case (Inl e)
    then have "e = Overread" using "1.prems" by (subst (asm) parse_loop.simps) simp
    with Inl parse_step_overread show ?thesis by blast
  next
    case (Inr r)
    with "1.prems" obtain st1 s1 where r: "r = More st1 s1" "parse_loop f st1 s1 = Inl Overread"
      by (subst (asm) parse_loop.simps) (auto split: jstep.split_asm if_split_asm)
    with parse_step_suffix [OF Inr] have "suffix s1 s" "length s1 < length s" by simp_all
    with r(2) "1.IH" suffix_order.trans show ?thesis by blast
  qed
qed


end
