(* ===== verification/WsTypes.thy ===== *)
theory WsTypes
  imports Json ProgramInfo CTime
begin

text \<open>
  What the web services answer with: the data types of \<open>mythtypes.h\<close> that only the web service client
  uses, the tables that bind the fields of a JSON object to the fields of such a type
  (\<open>private/mythdto/*\<close>), the choice of a table by the protocol version (\<open>mythdto.cpp\<close>), and the
  binder itself (\<open>private/mythjsonbinder.cpp\<close>).

  A row of a table holds the name of the JSON field, its type and a setter that takes a pointer
  to a value of that type; here the constructor of the type carries the setter.
\<close>

section \<open>Types\<close>

record ItemList =
  li_count :: u32
  li_protoVer :: u32

definition ItemList_init :: ItemList where
  "ItemList_init = \<lparr>li_count = 0,
     li_protoVer = 0\<rparr>"

record Version =
  ver_version :: string
  ver_protocol :: u32
  ver_schema :: u32

definition Version_init :: Version where
  "Version_init = \<lparr>ver_version = '''',
     ver_protocol = 0,
     ver_schema = 0\<rparr>"

record CaptureCard =
  cc_cardId :: u32
  cc_cardType :: string
  cc_hostName :: string

definition CaptureCard_init :: CaptureCard where
  "CaptureCard_init = \<lparr>cc_cardId = 0,
     cc_cardType = '''',
     cc_hostName = ''''\<rparr>"

record VideoSource =
  vs_sourceId :: u32
  vs_sourceName :: string

definition VideoSource_init :: VideoSource where
  "VideoSource_init = \<lparr>vs_sourceId = 0,
     vs_sourceName = ''''\<rparr>"

record RecordSchedule =
  rs_recordId :: u32
  rs_title :: string
  rs_subtitle :: string
  rs_description :: string
  rs_category :: string
  rs_startTime :: time_t
  rs_endTime :: time_t
  rs_seriesId :: string
  rs_programId :: string
  rs_chanId :: u32
  rs_callSign :: string
  rs_findDay :: i8
  rs_findTime :: string
  rs_parentId :: u32
  rs_inactive :: bool
  rs_season :: u16
  rs_episode :: u16
  rs_inetref :: string
  rs_type :: string
  rs_type_t :: RT_t
  rs_searchType :: string
  rs_searchType_t :: ST_t
  rs_recPriority :: i8
  rs_preferredInput :: u32
  rs_startOffset :: u8
  rs_endOffset :: u8
  rs_dupMethod :: string
  rs_dupMethod_t :: DM_t
  rs_dupIn :: string
  rs_dupIn_t :: DI_t
  rs_filter :: u32
  rs_recProfile :: string
  rs_recGroup :: string
  rs_storageGroup :: string
  rs_playGroup :: string
  rs_autoExpire :: bool
  rs_maxEpisodes :: u32
  rs_maxNewest :: bool
  rs_autoCommflag :: bool
  rs_autoTranscode :: bool
  rs_autoMetaLookup :: bool
  rs_autoUserJob1 :: bool
  rs_autoUserJob2 :: bool
  rs_autoUserJob3 :: bool
  rs_autoUserJob4 :: bool
  rs_transcoder :: u32
  rs_nextRecording :: time_t
  rs_lastRecorded :: time_t
  rs_lastDeleted :: time_t
  rs_averageDelay :: u32

definition RecordSchedule_init :: RecordSchedule where
  "RecordSchedule_init = \<lparr>rs_recordId = 0,
     rs_title = '''',
     rs_subtitle = '''',
     rs_description = '''',
     rs_category = '''',
     rs_startTime = 0,
     rs_endTime = 0,
     rs_seriesId = '''',
     rs_programId = '''',
     rs_chanId = 0,
     rs_callSign = '''',
     rs_findDay = 0,
     rs_findTime = '''',
     rs_parentId = 0,
     rs_inactive = False,
     rs_season = 0,
     rs_episode = 0,
     rs_inetref = '''',
     rs_type = '''',
     rs_type_t = RT_NotRecording,
     rs_searchType = '''',
     rs_searchType_t = ST_NoSearch,
     rs_recPriority = 0,
     rs_preferredInput = 0,
     rs_startOffset = 0,
     rs_endOffset = 0,
     rs_dupMethod = '''',
     rs_dupMethod_t = DM_CheckNone,
     rs_dupIn = '''',
     rs_dupIn_t = DI_InRecorded,
     rs_filter = 0,
     rs_recProfile = '''',
     rs_recGroup = '''',
     rs_storageGroup = '''',
     rs_playGroup = '''',
     rs_autoExpire = False,
     rs_maxEpisodes = 0,
     rs_maxNewest = False,
     rs_autoCommflag = False,
     rs_autoTranscode = False,
     rs_autoMetaLookup = False,
     rs_autoUserJob1 = False,
     rs_autoUserJob2 = False,
     rs_autoUserJob3 = False,
     rs_autoUserJob4 = False,
     rs_transcoder = 0,
     rs_nextRecording = 0,
     rs_lastRecorded = 0,
     rs_lastDeleted = 0,
     rs_averageDelay = 0\<rparr>"

record Setting =
  set_key :: string
  set_value :: string

definition Artwork_init :: Artwork where
  "Artwork_init = \<lparr>art_url = [], art_fileName = [], art_storageGroup = [], art_type = []\<rparr>"

datatype (plugins only: code size) 'o field_type =
    IS_STRING "string \<Rightarrow> 'o \<Rightarrow> 'o"
  | IS_INT8 "i8 \<Rightarrow> 'o \<Rightarrow> 'o"
  | IS_INT16 "16 word \<Rightarrow> 'o \<Rightarrow> 'o"
  | IS_INT32 "i32 \<Rightarrow> 'o \<Rightarrow> 'o"
  | IS_INT64 "i64 \<Rightarrow> 'o \<Rightarrow> 'o"
  | IS_UINT8 "u8 \<Rightarrow> 'o \<Rightarrow> 'o"
  | IS_UINT16 "u16 \<Rightarrow> 'o \<Rightarrow> 'o"
  | IS_UINT32 "u32 \<Rightarrow> 'o \<Rightarrow> 'o"
  | IS_DOUBLE "double \<Rightarrow> 'o \<Rightarrow> 'o"
  | IS_TIME "time_t \<Rightarrow> 'o \<Rightarrow> 'o"
  | IS_BOOLEAN "bool \<Rightarrow> 'o \<Rightarrow> 'o"

type_synonym 'o attr_bind = "string \<times> 'o field_type"

section \<open>Setters\<close>

text \<open>The functions of \<open>private/mythdto/*.h\<close>: one field of an object is set. The value comes as the type
  the setter takes.\<close>

definition SetVersion_Version :: "string \<Rightarrow> Version \<Rightarrow> Version" where
  "SetVersion_Version val obj = obj\<lparr>ver_version := val\<rparr>"

definition SetVersion_Protocol :: "u32 \<Rightarrow> Version \<Rightarrow> Version" where
  "SetVersion_Protocol val obj = obj\<lparr>ver_protocol := val\<rparr>"

definition SetVersion_Schema :: "u32 \<Rightarrow> Version \<Rightarrow> Version" where
  "SetVersion_Schema val obj = obj\<lparr>ver_schema := val\<rparr>"

definition SetItemList_Count :: "u32 \<Rightarrow> ItemList \<Rightarrow> ItemList" where
  "SetItemList_Count val obj = obj\<lparr>li_count := val\<rparr>"

definition SetItemList_ProtoVer :: "u32 \<Rightarrow> ItemList \<Rightarrow> ItemList" where
  "SetItemList_ProtoVer val obj = obj\<lparr>li_protoVer := val\<rparr>"

definition SetArtwork_URL :: "string \<Rightarrow> Artwork \<Rightarrow> Artwork" where
  "SetArtwork_URL val obj = obj\<lparr>art_url := val\<rparr>"

definition SetArtwork_FileName :: "string \<Rightarrow> Artwork \<Rightarrow> Artwork" where
  "SetArtwork_FileName val obj = obj\<lparr>art_fileName := val\<rparr>"

definition SetArtwork_StorageGroup :: "string \<Rightarrow> Artwork \<Rightarrow> Artwork" where
  "SetArtwork_StorageGroup val obj = obj\<lparr>art_storageGroup := val\<rparr>"

definition SetArtwork_Type :: "string \<Rightarrow> Artwork \<Rightarrow> Artwork" where
  "SetArtwork_Type val obj = obj\<lparr>art_type := val\<rparr>"

definition SetChannel_ChanId :: "u32 \<Rightarrow> Channel \<Rightarrow> Channel" where
  "SetChannel_ChanId val obj = obj\<lparr>chanId := val\<rparr>"

definition SetChannel_ChanNum :: "string \<Rightarrow> Channel \<Rightarrow> Channel" where
  "SetChannel_ChanNum val obj = obj\<lparr>chanNum := val\<rparr>"

definition SetChannel_CallSign :: "string \<Rightarrow> Channel \<Rightarrow> Channel" where
  "SetChannel_CallSign val obj = obj\<lparr>callSign := val\<rparr>"

definition SetChannel_IconURL :: "string \<Rightarrow> Channel \<Rightarrow> Channel" where
  "SetChannel_IconURL val obj = obj\<lparr>iconURL := val\<rparr>"

definition SetChannel_ChannelName :: "string \<Rightarrow> Channel \<Rightarrow> Channel" where
  "SetChannel_ChannelName val obj = obj\<lparr>channelName := val\<rparr>"

definition SetChannel_MplexId :: "u32 \<Rightarrow> Channel \<Rightarrow> Channel" where
  "SetChannel_MplexId val obj = obj\<lparr>mplexId := val\<rparr>"

definition SetChannel_CommFree :: "bool \<Rightarrow> Channel \<Rightarrow> Channel" where
  "SetChannel_CommFree val obj = obj\<lparr>commFree := val\<rparr>"

definition SetChannel_ChanFilters :: "string \<Rightarrow> Channel \<Rightarrow> Channel" where
  "SetChannel_ChanFilters val obj = obj\<lparr>chanFilters := val\<rparr>"

definition SetChannel_SourceId :: "u32 \<Rightarrow> Channel \<Rightarrow> Channel" where
  "SetChannel_SourceId val obj = obj\<lparr>sourceId := val\<rparr>"

definition SetChannel_InputId :: "u32 \<Rightarrow> Channel \<Rightarrow> Channel" where
  "SetChannel_InputId val obj = obj\<lparr>inputId := val\<rparr>"

definition SetChannel_Visible :: "bool \<Rightarrow> Channel \<Rightarrow> Channel" where
  "SetChannel_Visible val obj = obj\<lparr>visible := val\<rparr>"

definition SetRecording_RecordId :: "u32 \<Rightarrow> Recording \<Rightarrow> Recording" where
  "SetRecording_RecordId val obj = obj\<lparr>recordId := val\<rparr>"

definition SetRecording_Priority :: "i32 \<Rightarrow> Recording \<Rightarrow> Recording" where
  "SetRecording_Priority val obj = obj\<lparr>priority := val\<rparr>"

definition SetRecording_Status :: "i8 \<Rightarrow> Recording \<Rightarrow> Recording" where
  "SetRecording_Status val obj = obj\<lparr>status := val\<rparr>"

definition SetRecording_EncoderId :: "u32 \<Rightarrow> Recording \<Rightarrow> Recording" where
  "SetRecording_EncoderId val obj = obj\<lparr>encoderId := val\<rparr>"

definition SetRecording_RecType :: "u8 \<Rightarrow> Recording \<Rightarrow> Recording" where
  "SetRecording_RecType val obj = obj\<lparr>recType := val\<rparr>"

definition SetRecording_DupInType :: "u8 \<Rightarrow> Recording \<Rightarrow> Recording" where
  "SetRecording_DupInType val obj = obj\<lparr>dupInType := val\<rparr>"

definition SetRecording_DupMethod :: "u8 \<Rightarrow> Recording \<Rightarrow> Recording" where
  "SetRecording_DupMethod val obj = obj\<lparr>dupMethod := val\<rparr>"

definition SetRecording_StartTs :: "time_t \<Rightarrow> Recording \<Rightarrow> Recording" where
  "SetRecording_StartTs val obj = obj\<lparr>startTs := val\<rparr>"

definition SetRecording_EndTs :: "time_t \<Rightarrow> Recording \<Rightarrow> Recording" where
  "SetRecording_EndTs val obj = obj\<lparr>endTs := val\<rparr>"

definition SetRecording_Profile :: "string \<Rightarrow> Recording \<Rightarrow> Recording" where
  "SetRecording_Profile val obj = obj\<lparr>profile := val\<rparr>"

definition SetRecording_RecGroup :: "string \<Rightarrow> Recording \<Rightarrow> Recording" where
  "SetRecording_RecGroup val obj = obj\<lparr>recGroup := val\<rparr>"

definition SetRecording_StorageGroup :: "string \<Rightarrow> Recording \<Rightarrow> Recording" where
  "SetRecording_StorageGroup val obj = obj\<lparr>storageGroup := val\<rparr>"

definition SetRecording_PlayGroup :: "string \<Rightarrow> Recording \<Rightarrow> Recording" where
  "SetRecording_PlayGroup val obj = obj\<lparr>playGroup := val\<rparr>"

definition SetRecording_RecordedId :: "u32 \<Rightarrow> Recording \<Rightarrow> Recording" where
  "SetRecording_RecordedId val obj = obj\<lparr>recordedId := val\<rparr>"

definition SetProgram_StartTime :: "time_t \<Rightarrow> Program \<Rightarrow> Program" where
  "SetProgram_StartTime val obj = obj\<lparr>startTime := val\<rparr>"

definition SetProgram_EndTime :: "time_t \<Rightarrow> Program \<Rightarrow> Program" where
  "SetProgram_EndTime val obj = obj\<lparr>endTime := val\<rparr>"

definition SetProgram_Title :: "string \<Rightarrow> Program \<Rightarrow> Program" where
  "SetProgram_Title val obj = obj\<lparr>title := val\<rparr>"

definition SetProgram_SubTitle :: "string \<Rightarrow> Program \<Rightarrow> Program" where
  "SetProgram_SubTitle val obj = obj\<lparr>subTitle := val\<rparr>"

definition SetProgram_Description :: "string \<Rightarrow> Program \<Rightarrow> Program" where
  "SetProgram_Description val obj = obj\<lparr>description := val\<rparr>"

definition SetProgram_Season :: "u16 \<Rightarrow> Program \<Rightarrow> Program" where
  "SetProgram_Season val obj = obj\<lparr>season := val\<rparr>"

definition SetProgram_Episode :: "u16 \<Rightarrow> Program \<Rightarrow> Program" where
  "SetProgram_Episode val obj = obj\<lparr>episode := val\<rparr>"

definition SetProgram_Category :: "string \<Rightarrow> Program \<Rightarrow> Program" where
  "SetProgram_Category val obj = obj\<lparr>category := val\<rparr>"

definition SetProgram_CatType :: "string \<Rightarrow> Program \<Rightarrow> Program" where
  "SetProgram_CatType val obj = obj\<lparr>catType := val\<rparr>"

definition SetProgram_HostName :: "string \<Rightarrow> Program \<Rightarrow> Program" where
  "SetProgram_HostName val obj = obj\<lparr>hostName := val\<rparr>"

definition SetProgram_FileName :: "string \<Rightarrow> Program \<Rightarrow> Program" where
  "SetProgram_FileName val obj = obj\<lparr>fileName := val\<rparr>"

definition SetProgram_FileSize :: "i64 \<Rightarrow> Program \<Rightarrow> Program" where
  "SetProgram_FileSize val obj = obj\<lparr>fileSize := val\<rparr>"

definition SetProgram_Repeat :: "bool \<Rightarrow> Program \<Rightarrow> Program" where
  "SetProgram_Repeat val obj = obj\<lparr>repeat := val\<rparr>"

definition SetProgram_ProgramFlags :: "u32 \<Rightarrow> Program \<Rightarrow> Program" where
  "SetProgram_ProgramFlags val obj = obj\<lparr>programFlags := val\<rparr>"

definition SetProgram_SeriesId :: "string \<Rightarrow> Program \<Rightarrow> Program" where
  "SetProgram_SeriesId val obj = obj\<lparr>seriesId := val\<rparr>"

definition SetProgram_ProgramId :: "string \<Rightarrow> Program \<Rightarrow> Program" where
  "SetProgram_ProgramId val obj = obj\<lparr>programId := val\<rparr>"

definition SetProgram_Inetref :: "string \<Rightarrow> Program \<Rightarrow> Program" where
  "SetProgram_Inetref val obj = obj\<lparr>inetref := val\<rparr>"

definition SetProgram_LastModified :: "time_t \<Rightarrow> Program \<Rightarrow> Program" where
  "SetProgram_LastModified val obj = obj\<lparr>lastModified := val\<rparr>"

definition SetProgram_Stars :: "double \<Rightarrow> Program \<Rightarrow> Program" where
  "SetProgram_Stars val obj = obj\<lparr>stars := val\<rparr>"

definition SetProgram_Airdate :: "string \<Rightarrow> Program \<Rightarrow> Program" where
  "SetProgram_Airdate val obj = obj\<lparr>airdate := val\<rparr>"

definition SetProgram_AudioProps :: "u16 \<Rightarrow> Program \<Rightarrow> Program" where
  "SetProgram_AudioProps val obj = obj\<lparr>audioProps := val\<rparr>"

definition SetProgram_VideoProps :: "u16 \<Rightarrow> Program \<Rightarrow> Program" where
  "SetProgram_VideoProps val obj = obj\<lparr>videoProps := val\<rparr>"

definition SetProgram_SubProps :: "u16 \<Rightarrow> Program \<Rightarrow> Program" where
  "SetProgram_SubProps val obj = obj\<lparr>subProps := val\<rparr>"

definition SetCaptureCard_CardId :: "u32 \<Rightarrow> CaptureCard \<Rightarrow> CaptureCard" where
  "SetCaptureCard_CardId val obj = obj\<lparr>cc_cardId := val\<rparr>"

definition SetCaptureCard_CardType :: "string \<Rightarrow> CaptureCard \<Rightarrow> CaptureCard" where
  "SetCaptureCard_CardType val obj = obj\<lparr>cc_cardType := val\<rparr>"

definition SetCaptureCard_HostName :: "string \<Rightarrow> CaptureCard \<Rightarrow> CaptureCard" where
  "SetCaptureCard_HostName val obj = obj\<lparr>cc_hostName := val\<rparr>"

definition SetVideoSource_Id :: "u32 \<Rightarrow> VideoSource \<Rightarrow> VideoSource" where
  "SetVideoSource_Id val obj = obj\<lparr>vs_sourceId := val\<rparr>"

definition SetVideoSource_SourceName :: "string \<Rightarrow> VideoSource \<Rightarrow> VideoSource" where
  "SetVideoSource_SourceName val obj = obj\<lparr>vs_sourceName := val\<rparr>"

definition SetSchedule_Id :: "u32 \<Rightarrow> RecordSchedule \<Rightarrow> RecordSchedule" where
  "SetSchedule_Id val obj = obj\<lparr>rs_recordId := val\<rparr>"

definition SetSchedule_Title :: "string \<Rightarrow> RecordSchedule \<Rightarrow> RecordSchedule" where
  "SetSchedule_Title val obj = obj\<lparr>rs_title := val\<rparr>"

definition SetSchedule_Subtitle :: "string \<Rightarrow> RecordSchedule \<Rightarrow> RecordSchedule" where
  "SetSchedule_Subtitle val obj = obj\<lparr>rs_subtitle := val\<rparr>"

definition SetSchedule_Description :: "string \<Rightarrow> RecordSchedule \<Rightarrow> RecordSchedule" where
  "SetSchedule_Description val obj = obj\<lparr>rs_description := val\<rparr>"

definition SetSchedule_Category :: "string \<Rightarrow> RecordSchedule \<Rightarrow> RecordSchedule" where
  "SetSchedule_Category val obj = obj\<lparr>rs_category := val\<rparr>"

definition SetSchedule_StartTime :: "time_t \<Rightarrow> RecordSchedule \<Rightarrow> RecordSchedule" where
  "SetSchedule_StartTime val obj = obj\<lparr>rs_startTime := val\<rparr>"

definition SetSchedule_EndTime :: "time_t \<Rightarrow> RecordSchedule \<Rightarrow> RecordSchedule" where
  "SetSchedule_EndTime val obj = obj\<lparr>rs_endTime := val\<rparr>"

definition SetSchedule_SeriesId :: "string \<Rightarrow> RecordSchedule \<Rightarrow> RecordSchedule" where
  "SetSchedule_SeriesId val obj = obj\<lparr>rs_seriesId := val\<rparr>"

definition SetSchedule_ProgramId :: "string \<Rightarrow> RecordSchedule \<Rightarrow> RecordSchedule" where
  "SetSchedule_ProgramId val obj = obj\<lparr>rs_programId := val\<rparr>"

definition SetSchedule_ChanId :: "u32 \<Rightarrow> RecordSchedule \<Rightarrow> RecordSchedule" where
  "SetSchedule_ChanId val obj = obj\<lparr>rs_chanId := val\<rparr>"

definition SetSchedule_CallSign :: "string \<Rightarrow> RecordSchedule \<Rightarrow> RecordSchedule" where
  "SetSchedule_CallSign val obj = obj\<lparr>rs_callSign := val\<rparr>"

definition SetSchedule_FindDay :: "i8 \<Rightarrow> RecordSchedule \<Rightarrow> RecordSchedule" where
  "SetSchedule_FindDay val obj = obj\<lparr>rs_findDay := val\<rparr>"

definition SetSchedule_FindTime :: "string \<Rightarrow> RecordSchedule \<Rightarrow> RecordSchedule" where
  "SetSchedule_FindTime val obj = obj\<lparr>rs_findTime := val\<rparr>"

definition SetSchedule_ParentId :: "u32 \<Rightarrow> RecordSchedule \<Rightarrow> RecordSchedule" where
  "SetSchedule_ParentId val obj = obj\<lparr>rs_parentId := val\<rparr>"

definition SetSchedule_Inactive :: "bool \<Rightarrow> RecordSchedule \<Rightarrow> RecordSchedule" where
  "SetSchedule_Inactive val obj = obj\<lparr>rs_inactive := val\<rparr>"

definition SetSchedule_Season :: "u16 \<Rightarrow> RecordSchedule \<Rightarrow> RecordSchedule" where
  "SetSchedule_Season val obj = obj\<lparr>rs_season := val\<rparr>"

definition SetSchedule_Episode :: "u16 \<Rightarrow> RecordSchedule \<Rightarrow> RecordSchedule" where
  "SetSchedule_Episode val obj = obj\<lparr>rs_episode := val\<rparr>"

definition SetSchedule_Inetref :: "string \<Rightarrow> RecordSchedule \<Rightarrow> RecordSchedule" where
  "SetSchedule_Inetref val obj = obj\<lparr>rs_inetref := val\<rparr>"

definition SetSchedule_Type :: "string \<Rightarrow> RecordSchedule \<Rightarrow> RecordSchedule" where
  "SetSchedule_Type val obj = obj\<lparr>rs_type := val\<rparr>"

definition SetSchedule_SearchType :: "string \<Rightarrow> RecordSchedule \<Rightarrow> RecordSchedule" where
  "SetSchedule_SearchType val obj = obj\<lparr>rs_searchType := val\<rparr>"

definition SetSchedule_RecPriority :: "i8 \<Rightarrow> RecordSchedule \<Rightarrow> RecordSchedule" where
  "SetSchedule_RecPriority val obj = obj\<lparr>rs_recPriority := val\<rparr>"

definition SetSchedule_PreferredInput :: "u32 \<Rightarrow> RecordSchedule \<Rightarrow> RecordSchedule" where
  "SetSchedule_PreferredInput val obj = obj\<lparr>rs_preferredInput := val\<rparr>"

definition SetSchedule_StartOffset :: "u8 \<Rightarrow> RecordSchedule \<Rightarrow> RecordSchedule" where
  "SetSchedule_StartOffset val obj = obj\<lparr>rs_startOffset := val\<rparr>"

definition SetSchedule_EndOffset :: "u8 \<Rightarrow> RecordSchedule \<Rightarrow> RecordSchedule" where
  "SetSchedule_EndOffset val obj = obj\<lparr>rs_endOffset := val\<rparr>"

definition SetSchedule_DupMethod :: "string \<Rightarrow> RecordSchedule \<Rightarrow> RecordSchedule" where
  "SetSchedule_DupMethod val obj = obj\<lparr>rs_dupMethod := val\<rparr>"

text \<open>\<open>dupIn = *val\<close> assigns one character, the first of the text or its NUL.\<close>

definition SetSchedule_DupIn :: "string \<Rightarrow> RecordSchedule \<Rightarrow> RecordSchedule" where
  "SetSchedule_DupIn val obj = obj\<lparr>rs_dupIn := [case val of [] \<Rightarrow> NUL | c # cs \<Rightarrow> c]\<rparr>"

definition SetSchedule_Filter :: "u32 \<Rightarrow> RecordSchedule \<Rightarrow> RecordSchedule" where
  "SetSchedule_Filter val obj = obj\<lparr>rs_filter := val\<rparr>"

definition SetSchedule_RecProfile :: "string \<Rightarrow> RecordSchedule \<Rightarrow> RecordSchedule" where
  "SetSchedule_RecProfile val obj = obj\<lparr>rs_recProfile := val\<rparr>"

definition SetSchedule_RecGroup :: "string \<Rightarrow> RecordSchedule \<Rightarrow> RecordSchedule" where
  "SetSchedule_RecGroup val obj = obj\<lparr>rs_recGroup := val\<rparr>"

definition SetSchedule_StorageGroup :: "string \<Rightarrow> RecordSchedule \<Rightarrow> RecordSchedule" where
  "SetSchedule_StorageGroup val obj = obj\<lparr>rs_storageGroup := val\<rparr>"

definition SetSchedule_PlayGroup :: "string \<Rightarrow> RecordSchedule \<Rightarrow> RecordSchedule" where
  "SetSchedule_PlayGroup val obj = obj\<lparr>rs_playGroup := val\<rparr>"

definition SetSchedule_AutoExpire :: "bool \<Rightarrow> RecordSchedule \<Rightarrow> RecordSchedule" where
  "SetSchedule_AutoExpire val obj = obj\<lparr>rs_autoExpire := val\<rparr>"

definition SetSchedule_MaxEpisodes :: "u32 \<Rightarrow> RecordSchedule \<Rightarrow> RecordSchedule" where
  "SetSchedule_MaxEpisodes val obj = obj\<lparr>rs_maxEpisodes := val\<rparr>"

definition SetSchedule_MaxNewest :: "bool \<Rightarrow> RecordSchedule \<Rightarrow> RecordSchedule" where
  "SetSchedule_MaxNewest val obj = obj\<lparr>rs_maxNewest := val\<rparr>"

definition SetSchedule_AutoCommflag :: "bool \<Rightarrow> RecordSchedule \<Rightarrow> RecordSchedule" where
  "SetSchedule_AutoCommflag val obj = obj\<lparr>rs_autoCommflag := val\<rparr>"

definition SetSchedule_AutoTranscode :: "bool \<Rightarrow> RecordSchedule \<Rightarrow> RecordSchedule" where
  "SetSchedule_AutoTranscode val obj = obj\<lparr>rs_autoTranscode := val\<rparr>"

definition SetSchedule_AutoMetaLookup :: "bool \<Rightarrow> RecordSchedule \<Rightarrow> RecordSchedule" where
  "SetSchedule_AutoMetaLookup val obj = obj\<lparr>rs_autoMetaLookup := val\<rparr>"

definition SetSchedule_AutoUserJob1 :: "bool \<Rightarrow> RecordSchedule \<Rightarrow> RecordSchedule" where
  "SetSchedule_AutoUserJob1 val obj = obj\<lparr>rs_autoUserJob1 := val\<rparr>"

definition SetSchedule_AutoUserJob2 :: "bool \<Rightarrow> RecordSchedule \<Rightarrow> RecordSchedule" where
  "SetSchedule_AutoUserJob2 val obj = obj\<lparr>rs_autoUserJob2 := val\<rparr>"

definition SetSchedule_AutoUserJob3 :: "bool \<Rightarrow> RecordSchedule \<Rightarrow> RecordSchedule" where
  "SetSchedule_AutoUserJob3 val obj = obj\<lparr>rs_autoUserJob3 := val\<rparr>"

definition SetSchedule_AutoUserJob4 :: "bool \<Rightarrow> RecordSchedule \<Rightarrow> RecordSchedule" where
  "SetSchedule_AutoUserJob4 val obj = obj\<lparr>rs_autoUserJob4 := val\<rparr>"

definition SetSchedule_Transcoder :: "u32 \<Rightarrow> RecordSchedule \<Rightarrow> RecordSchedule" where
  "SetSchedule_Transcoder val obj = obj\<lparr>rs_transcoder := val\<rparr>"

definition SetSchedule_NextRecording :: "time_t \<Rightarrow> RecordSchedule \<Rightarrow> RecordSchedule" where
  "SetSchedule_NextRecording val obj = obj\<lparr>rs_nextRecording := val\<rparr>"

definition SetSchedule_LastRecorded :: "time_t \<Rightarrow> RecordSchedule \<Rightarrow> RecordSchedule" where
  "SetSchedule_LastRecorded val obj = obj\<lparr>rs_lastRecorded := val\<rparr>"

definition SetSchedule_LastDeleted :: "time_t \<Rightarrow> RecordSchedule \<Rightarrow> RecordSchedule" where
  "SetSchedule_LastDeleted val obj = obj\<lparr>rs_lastDeleted := val\<rparr>"

definition SetSchedule_AverageDelay :: "u32 \<Rightarrow> RecordSchedule \<Rightarrow> RecordSchedule" where
  "SetSchedule_AverageDelay val obj = obj\<lparr>rs_averageDelay := val\<rparr>"

definition SetCutting_MarkType :: "i8 \<Rightarrow> Mark \<Rightarrow> Mark" where
  "SetCutting_MarkType val obj = obj\<lparr>markType := scast val\<rparr>"

definition SetCutting_MarkValue :: "i64 \<Rightarrow> Mark \<Rightarrow> Mark" where
  "SetCutting_MarkValue val obj = obj\<lparr>markValue := val\<rparr>"

section \<open>Binding tables\<close>

text \<open>The tables of \<open>private/mythdto/mythdto75.h\<close>, \<open>mythdto76.h\<close>, \<open>mythdto82.h\<close> and \<open>mythdto85.h\<close>.\<close>

definition version2_0 :: "Version attr_bind list" where
  "version2_0 = [
     (''Version'', IS_STRING SetVersion_Version),
     (''Protocol'', IS_UINT32 SetVersion_Protocol),
     (''Schema'', IS_UINT32 SetVersion_Schema)]"

definition list_bind :: "ItemList attr_bind list" where
  "list_bind = [
     (''Count'', IS_UINT32 SetItemList_Count),
     (''ProtoVer'', IS_UINT32 SetItemList_ProtoVer)]"

definition artwork_bind :: "Artwork attr_bind list" where
  "artwork_bind = [
     (''URL'', IS_STRING SetArtwork_URL),
     (''FileName'', IS_STRING SetArtwork_FileName),
     (''StorageGroup'', IS_STRING SetArtwork_StorageGroup),
     (''Type'', IS_STRING SetArtwork_Type)]"

definition channel_bind :: "Channel attr_bind list" where
  "channel_bind = [
     (''ChanId'', IS_UINT32 SetChannel_ChanId),
     (''ChanNum'', IS_STRING SetChannel_ChanNum),
     (''CallSign'', IS_STRING SetChannel_CallSign),
     (''IconURL'', IS_STRING SetChannel_IconURL),
     (''ChannelName'', IS_STRING SetChannel_ChannelName),
     (''MplexId'', IS_UINT32 SetChannel_MplexId),
     (''CommFree'', IS_BOOLEAN SetChannel_CommFree),
     (''ChanFilters'', IS_STRING SetChannel_ChanFilters),
     (''SourceId'', IS_UINT32 SetChannel_SourceId),
     (''InputId'', IS_UINT32 SetChannel_InputId),
     (''Visible'', IS_BOOLEAN SetChannel_Visible)]"

definition recording75 :: "Recording attr_bind list" where
  "recording75 = [
     (''RecordId'', IS_UINT32 SetRecording_RecordId),
     (''Priority'', IS_INT32 SetRecording_Priority),
     (''Status'', IS_INT8 SetRecording_Status),
     (''EncoderId'', IS_UINT32 SetRecording_EncoderId),
     (''RecType'', IS_UINT8 SetRecording_RecType),
     (''DupInType'', IS_UINT8 SetRecording_DupInType),
     (''DupMethod'', IS_UINT8 SetRecording_DupMethod),
     (''StartTs'', IS_TIME SetRecording_StartTs),
     (''EndTs'', IS_TIME SetRecording_EndTs),
     (''Profile'', IS_STRING SetRecording_Profile),
     (''RecGroup'', IS_STRING SetRecording_RecGroup),
     (''StorageGroup'', IS_STRING SetRecording_StorageGroup),
     (''PlayGroup'', IS_STRING SetRecording_PlayGroup)]"

definition program_bind :: "Program attr_bind list" where
  "program_bind = [
     (''StartTime'', IS_TIME SetProgram_StartTime),
     (''EndTime'', IS_TIME SetProgram_EndTime),
     (''Title'', IS_STRING SetProgram_Title),
     (''SubTitle'', IS_STRING SetProgram_SubTitle),
     (''Description'', IS_STRING SetProgram_Description),
     (''Season'', IS_UINT16 SetProgram_Season),
     (''Episode'', IS_UINT16 SetProgram_Episode),
     (''Category'', IS_STRING SetProgram_Category),
     (''CatType'', IS_STRING SetProgram_CatType),
     (''HostName'', IS_STRING SetProgram_HostName),
     (''FileName'', IS_STRING SetProgram_FileName),
     (''FileSize'', IS_INT64 SetProgram_FileSize),
     (''Repeat'', IS_BOOLEAN SetProgram_Repeat),
     (''ProgramFlags'', IS_INT32 SetProgram_ProgramFlags),
     (''SeriesId'', IS_STRING SetProgram_SeriesId),
     (''ProgramId'', IS_STRING SetProgram_ProgramId),
     (''Inetref'', IS_STRING SetProgram_Inetref),
     (''LastModified'', IS_TIME SetProgram_LastModified),
     (''Stars'', IS_DOUBLE SetProgram_Stars),
     (''Airdate'', IS_STRING SetProgram_Airdate),
     (''AudioProps'', IS_UINT16 SetProgram_AudioProps),
     (''VideoProps'', IS_UINT16 SetProgram_VideoProps),
     (''SubProps'', IS_UINT16 SetProgram_SubProps)]"

definition capturecard_bind :: "CaptureCard attr_bind list" where
  "capturecard_bind = [
     (''CardId'', IS_UINT32 SetCaptureCard_CardId),
     (''CardType'', IS_STRING SetCaptureCard_CardType),
     (''HostName'', IS_STRING SetCaptureCard_HostName)]"

definition videosource_bind :: "VideoSource attr_bind list" where
  "videosource_bind = [
     (''Id'', IS_UINT32 SetVideoSource_Id),
     (''SourceName'', IS_STRING SetVideoSource_SourceName)]"

definition recordschedule75 :: "RecordSchedule attr_bind list" where
  "recordschedule75 = [
     (''Id'', IS_UINT32 SetSchedule_Id),
     (''ParentId'', IS_UINT32 SetSchedule_ParentId),
     (''Inactive'', IS_BOOLEAN SetSchedule_Inactive),
     (''Title'', IS_STRING SetSchedule_Title),
     (''SubTitle'', IS_STRING SetSchedule_Subtitle),
     (''Description'', IS_STRING SetSchedule_Description),
     (''Season'', IS_UINT16 SetSchedule_Season),
     (''Episode'', IS_UINT16 SetSchedule_Episode),
     (''Category'', IS_STRING SetSchedule_Category),
     (''StartTime'', IS_TIME SetSchedule_StartTime),
     (''EndTime'', IS_TIME SetSchedule_EndTime),
     (''SeriesId'', IS_STRING SetSchedule_SeriesId),
     (''ProgramId'', IS_STRING SetSchedule_ProgramId),
     (''Inetref'', IS_STRING SetSchedule_Inetref),
     (''ChanId'', IS_UINT32 SetSchedule_ChanId),
     (''CallSign'', IS_STRING SetSchedule_CallSign),
     (''Day'', IS_INT8 SetSchedule_FindDay),
     (''Time'', IS_STRING SetSchedule_FindTime),
     (''Type'', IS_STRING SetSchedule_Type),
     (''SearchType'', IS_STRING SetSchedule_SearchType),
     (''RecPriority'', IS_INT8 SetSchedule_RecPriority),
     (''PreferredInput'', IS_UINT32 SetSchedule_PreferredInput),
     (''StartOffset'', IS_UINT8 SetSchedule_StartOffset),
     (''EndOffset'', IS_UINT8 SetSchedule_EndOffset),
     (''DupMethod'', IS_STRING SetSchedule_DupMethod),
     (''DupIn'', IS_STRING SetSchedule_DupIn),
     (''Filter'', IS_UINT32 SetSchedule_Filter),
     (''RecProfile'', IS_STRING SetSchedule_RecProfile),
     (''RecGroup'', IS_STRING SetSchedule_RecGroup),
     (''StorageGroup'', IS_STRING SetSchedule_StorageGroup),
     (''PlayGroup'', IS_STRING SetSchedule_PlayGroup),
     (''AutoExpire'', IS_BOOLEAN SetSchedule_AutoExpire),
     (''MaxEpisodes'', IS_UINT32 SetSchedule_MaxEpisodes),
     (''MaxNewest'', IS_BOOLEAN SetSchedule_MaxNewest),
     (''AutoCommflag'', IS_BOOLEAN SetSchedule_AutoCommflag),
     (''AutoTranscode'', IS_BOOLEAN SetSchedule_AutoTranscode),
     (''AutoMetaLookup'', IS_BOOLEAN SetSchedule_AutoMetaLookup),
     (''AutoUserJob1'', IS_BOOLEAN SetSchedule_AutoUserJob1),
     (''AutoUserJob2'', IS_BOOLEAN SetSchedule_AutoUserJob2),
     (''AutoUserJob3'', IS_BOOLEAN SetSchedule_AutoUserJob3),
     (''AutoUserJob4'', IS_BOOLEAN SetSchedule_AutoUserJob4),
     (''Transcoder'', IS_UINT32 SetSchedule_Transcoder)]"

definition recordschedule76 :: "RecordSchedule attr_bind list" where
  "recordschedule76 = [
     (''Id'', IS_UINT32 SetSchedule_Id),
     (''ParentId'', IS_UINT32 SetSchedule_ParentId),
     (''Inactive'', IS_BOOLEAN SetSchedule_Inactive),
     (''Title'', IS_STRING SetSchedule_Title),
     (''SubTitle'', IS_STRING SetSchedule_Subtitle),
     (''Description'', IS_STRING SetSchedule_Description),
     (''Season'', IS_UINT16 SetSchedule_Season),
     (''Episode'', IS_UINT16 SetSchedule_Episode),
     (''Category'', IS_STRING SetSchedule_Category),
     (''StartTime'', IS_TIME SetSchedule_StartTime),
     (''EndTime'', IS_TIME SetSchedule_EndTime),
     (''SeriesId'', IS_STRING SetSchedule_SeriesId),
     (''ProgramId'', IS_STRING SetSchedule_ProgramId),
     (''Inetref'', IS_STRING SetSchedule_Inetref),
     (''ChanId'', IS_UINT32 SetSchedule_ChanId),
     (''CallSign'', IS_STRING SetSchedule_CallSign),
     (''FindDay'', IS_INT8 SetSchedule_FindDay),
     (''FindTime'', IS_STRING SetSchedule_FindTime),
     (''Type'', IS_STRING SetSchedule_Type),
     (''SearchType'', IS_STRING SetSchedule_SearchType),
     (''RecPriority'', IS_INT8 SetSchedule_RecPriority),
     (''PreferredInput'', IS_UINT32 SetSchedule_PreferredInput),
     (''StartOffset'', IS_UINT8 SetSchedule_StartOffset),
     (''EndOffset'', IS_UINT8 SetSchedule_EndOffset),
     (''DupMethod'', IS_STRING SetSchedule_DupMethod),
     (''DupIn'', IS_STRING SetSchedule_DupIn),
     (''Filter'', IS_UINT32 SetSchedule_Filter),
     (''RecProfile'', IS_STRING SetSchedule_RecProfile),
     (''RecGroup'', IS_STRING SetSchedule_RecGroup),
     (''StorageGroup'', IS_STRING SetSchedule_StorageGroup),
     (''PlayGroup'', IS_STRING SetSchedule_PlayGroup),
     (''AutoExpire'', IS_BOOLEAN SetSchedule_AutoExpire),
     (''MaxEpisodes'', IS_UINT32 SetSchedule_MaxEpisodes),
     (''MaxNewest'', IS_BOOLEAN SetSchedule_MaxNewest),
     (''AutoCommflag'', IS_BOOLEAN SetSchedule_AutoCommflag),
     (''AutoTranscode'', IS_BOOLEAN SetSchedule_AutoTranscode),
     (''AutoMetaLookup'', IS_BOOLEAN SetSchedule_AutoMetaLookup),
     (''AutoUserJob1'', IS_BOOLEAN SetSchedule_AutoUserJob1),
     (''AutoUserJob2'', IS_BOOLEAN SetSchedule_AutoUserJob2),
     (''AutoUserJob3'', IS_BOOLEAN SetSchedule_AutoUserJob3),
     (''AutoUserJob4'', IS_BOOLEAN SetSchedule_AutoUserJob4),
     (''Transcoder'', IS_UINT32 SetSchedule_Transcoder),
     (''NextRecording'', IS_TIME SetSchedule_NextRecording),
     (''LastRecorded'', IS_TIME SetSchedule_LastRecorded),
     (''LastDeleted'', IS_TIME SetSchedule_LastDeleted),
     (''AverageDelay'', IS_UINT32 SetSchedule_AverageDelay)]"

definition recording82 :: "Recording attr_bind list" where
  "recording82 = [
     (''RecordId'', IS_UINT32 SetRecording_RecordId),
     (''Priority'', IS_INT32 SetRecording_Priority),
     (''Status'', IS_INT8 SetRecording_Status),
     (''EncoderId'', IS_UINT32 SetRecording_EncoderId),
     (''RecType'', IS_UINT8 SetRecording_RecType),
     (''DupInType'', IS_UINT8 SetRecording_DupInType),
     (''DupMethod'', IS_UINT8 SetRecording_DupMethod),
     (''StartTs'', IS_TIME SetRecording_StartTs),
     (''EndTs'', IS_TIME SetRecording_EndTs),
     (''Profile'', IS_STRING SetRecording_Profile),
     (''RecGroup'', IS_STRING SetRecording_RecGroup),
     (''StorageGroup'', IS_STRING SetRecording_StorageGroup),
     (''PlayGroup'', IS_STRING SetRecording_PlayGroup),
     (''RecordedId'', IS_UINT32 SetRecording_RecordedId)]"

definition cutting_bind :: "Mark attr_bind list" where
  "cutting_bind = [
     (''Mark'', IS_INT8 SetCutting_MarkType),
     (''Offset'', IS_INT64 SetCutting_MarkValue)]"

section \<open>The tables of a protocol version\<close>

definition getVersionBindArray :: "nat \<Rightarrow> Version attr_bind list option" where
  "getVersionBindArray ranking = Some version2_0"

definition getListBindArray :: "nat \<Rightarrow> ItemList attr_bind list option" where
  "getListBindArray proto = Some list_bind"

definition getChannelBindArray :: "nat \<Rightarrow> Channel attr_bind list option" where
  "getChannelBindArray proto = (if proto \<ge> 75 then Some channel_bind else None)"

definition getRecordingBindArray :: "nat \<Rightarrow> Recording attr_bind list option" where
  "getRecordingBindArray proto =
     (if proto \<ge> 82 then Some recording82 else if proto \<ge> 75 then Some recording75 else None)"

definition getArtworkBindArray :: "nat \<Rightarrow> Artwork attr_bind list option" where
  "getArtworkBindArray proto = (if proto \<ge> 75 then Some artwork_bind else None)"

definition getProgramBindArray :: "nat \<Rightarrow> Program attr_bind list option" where
  "getProgramBindArray proto = (if proto \<ge> 75 then Some program_bind else None)"

definition getCaptureCardBindArray :: "nat \<Rightarrow> CaptureCard attr_bind list option" where
  "getCaptureCardBindArray proto = (if proto \<ge> 75 then Some capturecard_bind else None)"

definition getVideoSourceBindArray :: "nat \<Rightarrow> VideoSource attr_bind list option" where
  "getVideoSourceBindArray proto = (if proto \<ge> 75 then Some videosource_bind else None)"

definition getRecordScheduleBindArray :: "nat \<Rightarrow> RecordSchedule attr_bind list option" where
  "getRecordScheduleBindArray proto =
     (if proto \<ge> 76 then Some recordschedule76 else if proto \<ge> 75 then Some recordschedule75 else None)"

definition getCuttingBindArray :: "nat \<Rightarrow> Mark attr_bind list option" where
  "getCuttingBindArray proto = (if proto \<ge> 85 then Some cutting_bind else None)"

section \<open>The binder\<close>

text \<open>The number in a text, 0 when it is none (the error is logged only).\<close>

definition num_or_0 :: "'a::zero result \<Rightarrow> 'a" where
  "num_or_0 r = (case r of Inl e \<Rightarrow> 0 | Inr n \<Rightarrow> n)"

text \<open>A text is parsed as the type of the field; \<open>atof\<close> is the value of \<open>strtod\<close>.\<close>

definition bind_text :: "libc \<Rightarrow> zone \<Rightarrow> 'o field_type \<Rightarrow> string \<Rightarrow> 'o \<Rightarrow> 'o" where
  "bind_text lc z ft v obj =
     (case ft of
        IS_STRING setter \<Rightarrow> setter (cstr v) obj
      | IS_INT8 setter \<Rightarrow> setter (num_or_0 (string_to_int8 (c_str v))) obj
      | IS_INT16 setter \<Rightarrow> setter (num_or_0 (string_to_int16 (c_str v))) obj
      | IS_INT32 setter \<Rightarrow> setter (num_or_0 (string_to_int32 (c_str v))) obj
      | IS_INT64 setter \<Rightarrow> setter (num_or_0 (string_to_int64 (c_str v))) obj
      | IS_UINT8 setter \<Rightarrow> setter (num_or_0 (string_to_uint8 (c_str v))) obj
      | IS_UINT16 setter \<Rightarrow> setter (num_or_0 (string_to_uint16 (c_str v))) obj
      | IS_UINT32 setter \<Rightarrow> setter (num_or_0 (string_to_uint32 (c_str v))) obj
      | IS_DOUBLE setter \<Rightarrow> setter (fst (strtod lc (cstr v))) obj
      | IS_BOOLEAN setter \<Rightarrow> setter (cstr v = ''true'') obj
      | IS_TIME setter \<Rightarrow> setter (num_or_0 (string_to_time z (cstr v))) obj)"

text \<open>A value that is not a text is taken when its type fits, and left out (and logged) otherwise. A field
  \<open>IS_DOUBLE\<close> takes an integer node too, but reads it with \<open>GetDoubleValue\<close>, which is 0 for it.\<close>

definition bind_number :: "fpu \<Rightarrow> 'o field_type \<Rightarrow> json \<Rightarrow> 'o \<Rightarrow> 'o" where
  "bind_number f ft n obj =
     (case ft of
        IS_STRING setter \<Rightarrow> obj
      | IS_INT8 setter \<Rightarrow> (if IsInt n then setter (ucast (GetIntValue n)) obj else obj)
      | IS_INT16 setter \<Rightarrow> (if IsInt n then setter (ucast (GetIntValue n)) obj else obj)
      | IS_INT32 setter \<Rightarrow> (if IsInt n then setter (GetIntValue n) obj else obj)
      | IS_INT64 setter \<Rightarrow> (if IsInt n \<or> IsDouble n then setter (GetBigIntValue f n) obj else obj)
      | IS_UINT8 setter \<Rightarrow> (if IsInt n then setter (ucast (GetIntValue n)) obj else obj)
      | IS_UINT16 setter \<Rightarrow> (if IsInt n then setter (ucast (GetIntValue n)) obj else obj)
      | IS_UINT32 setter \<Rightarrow> (if IsInt n \<or> IsDouble n then setter (ucast (GetBigIntValue f n)) obj else obj)
      | IS_DOUBLE setter \<Rightarrow> (if IsDouble n \<or> IsInt n then setter (GetDoubleValue n) obj else obj)
      | IS_BOOLEAN setter \<Rightarrow> (if IsTrue n \<or> IsFalse n then setter (IsTrue n) obj else obj)
      | IS_TIME setter \<Rightarrow> obj)"

definition bind_attr :: "fpu \<Rightarrow> libc \<Rightarrow> zone \<Rightarrow> json \<Rightarrow> 'o attr_bind \<Rightarrow> 'o \<Rightarrow> 'o" where
  "bind_attr f lc z node row obj =
     (let n = GetObjectValue (fst row) node in
      if IsNull n then obj
      else if IsString n then bind_text lc z (snd row) (GetStringValue n) obj
      else bind_number f (snd row) n obj)"

definition BindObject :: "fpu \<Rightarrow> libc \<Rightarrow> zone \<Rightarrow> json \<Rightarrow> 'o attr_bind list option \<Rightarrow> 'o \<Rightarrow> 'o" where
  "BindObject f lc z node bl obj =
     (case bl of
        None \<Rightarrow> obj
      | Some rows \<Rightarrow> if IsNull node then obj else fold (bind_attr f lc z node) rows obj)"

end
