(* ===== verification/WsStatic.thy ===== *)
theory WsStatic
  imports Prelude
begin

text \<open>
  The static tables of the HTTP client (\<open>private/wsstatic.h\<close>, \<open>private/wsstatic.c\<close>): methods,
  content types, content encodings, header names and status codes, with their lookups from a
  text and back.

  A table is the list of its rows without the closing row of null pointers; the position of a
  row is the number of the enumerator it belongs to, and the position behind the last row is
  the enumerator \<open>UNKNOWN\<close>. The column \<open>sz\<close> is the number of bytes compared, and the text that is
  looked up is followed by its terminator. A lookup that reads outside of a text is \<open>None\<close>.
\<close>

section \<open>Lookup\<close>

text \<open>\<open>memcmp(a, b, n) == 0\<close> on two objects of which the bytes are known: the comparison stops at
  the first difference, and a byte behind the end of an object is \<open>None\<close>.\<close>

fun memcmp_eq :: "nat \<Rightarrow> bytes \<Rightarrow> bytes \<Rightarrow> bool option" where
  "memcmp_eq 0 a b = Some True"
| "memcmp_eq (Suc n) (x # a) (y # b) = (if x = y then memcmp_eq n a b else Some False)"
| "memcmp_eq (Suc n) _ _ = None"

text \<open>The scan of a table: the position of the first row that matches, or of the closing row.\<close>

fun find_row :: "(nat \<times> string) list \<Rightarrow> string \<Rightarrow> nat option" where
  "find_row [] str = Some 0"
| "find_row ((sz, txt) # p) str =
     (case memcmp_eq sz (txt @ [NUL]) (str @ [NUL]) of
        None \<Rightarrow> None
      | Some True \<Rightarrow> Some 0
      | Some False \<Rightarrow> map_option Suc (find_row p str))"

text \<open>The number of an enumerator, and the text in the row of that number.\<close>

fun enum_num :: "'a list \<Rightarrow> 'a \<Rightarrow> nat" where
  "enum_num [] x = 0"
| "enum_num (y # ys) x = (if x = y then 0 else Suc (enum_num ys x))"

definition row_text :: "(nat \<times> string) list \<Rightarrow> nat \<Rightarrow> string option" where
  "row_text t i = (if i < length t then Some (snd (t ! i)) else None)"

section \<open>Methods\<close>

datatype WS_METHOD =
    WS_METHOD_Get | WS_METHOD_Post | WS_METHOD_Head | WS_METHOD_Options | WS_METHOD_Subscribe
  | WS_METHOD_Unsubscribe | WS_METHOD_Notify | WS_METHOD_Put | WS_METHOD_Delete
  | WS_METHOD_Patch | WS_METHOD_UNKNOWN

definition ws_method_enum :: "WS_METHOD list" where
  "ws_method_enum =
     [WS_METHOD_Get, WS_METHOD_Post, WS_METHOD_Head, WS_METHOD_Options, WS_METHOD_Subscribe,
      WS_METHOD_Unsubscribe, WS_METHOD_Notify, WS_METHOD_Put, WS_METHOD_Delete, WS_METHOD_Patch,
      WS_METHOD_UNKNOWN]"

definition ws_method_table :: "(nat \<times> string) list" where
  "ws_method_table =
     [(4, ''GET''), (5, ''POST''), (5, ''HEAD''), (8, ''OPTIONS''), (10, ''SUBSCRIBE''),
      (12, ''UNSUBSCRIBE''), (7, ''NOTIFY''), (4, ''PUT''), (7, ''DELETE''), (6, ''PATCH'')]"

definition ws_method_from_str :: "string \<Rightarrow> WS_METHOD option" where
  "ws_method_from_str str = map_option (nth ws_method_enum) (find_row ws_method_table str)"

definition ws_method_to_str :: "WS_METHOD \<Rightarrow> string option" where
  "ws_method_to_str m = row_text ws_method_table (enum_num ws_method_enum m)"

section \<open>Content types\<close>

datatype WS_CTYPE =
    WS_CTYPE_None | WS_CTYPE_Form | WS_CTYPE_Raw | WS_CTYPE_Any | WS_CTYPE_UNKNOWN

definition ws_ctype_enum :: "WS_CTYPE list" where
  "ws_ctype_enum =
     [WS_CTYPE_None, WS_CTYPE_Form, WS_CTYPE_Raw, WS_CTYPE_Any, WS_CTYPE_UNKNOWN]"

definition ws_ctype_table :: "(nat \<times> string) list" where
  "ws_ctype_table =
     [(1, ''''), (34, ''application/x-www-form-urlencoded''),
      (25, ''application/octet-stream''), (4, ''*/*'')]"

definition ws_ctype_from_str :: "string \<Rightarrow> WS_CTYPE option" where
  "ws_ctype_from_str str = map_option (nth ws_ctype_enum) (find_row ws_ctype_table str)"

definition ws_ctype_to_str :: "WS_CTYPE \<Rightarrow> string option" where
  "ws_ctype_to_str m = row_text ws_ctype_table (enum_num ws_ctype_enum m)"

section \<open>Content encodings\<close>

datatype WS_CENCODING =
    WS_CENCODING_None | WS_CENCODING_Deflate | WS_CENCODING_Gzip | WS_CENCODING_UNKNOWN

definition ws_cencoding_enum :: "WS_CENCODING list" where
  "ws_cencoding_enum =
     [WS_CENCODING_None, WS_CENCODING_Deflate, WS_CENCODING_Gzip, WS_CENCODING_UNKNOWN]"

definition ws_cencoding_table :: "(nat \<times> string) list" where
  "ws_cencoding_table =
     [(1, ''''), (8, ''deflate''), (5, ''gzip'')]"

definition ws_cencoding_from_str :: "string \<Rightarrow> WS_CENCODING option" where
  "ws_cencoding_from_str str = map_option (nth ws_cencoding_enum) (find_row ws_cencoding_table str)"

definition ws_cencoding_to_str :: "WS_CENCODING \<Rightarrow> string option" where
  "ws_cencoding_to_str m = row_text ws_cencoding_table (enum_num ws_cencoding_enum m)"

section \<open>Header names\<close>

datatype (plugins only: code size) WS_HEADER =
    WS_HEADER_Accept | WS_HEADER_Accept_Charset | WS_HEADER_Accept_Encoding
  | WS_HEADER_Accept_Language | WS_HEADER_Accept_Ranges | WS_HEADER_Authorization
  | WS_HEADER_Cache_Control | WS_HEADER_Connection | WS_HEADER_Content_Encoding
  | WS_HEADER_Content_Length | WS_HEADER_Content_Location | WS_HEADER_Content_Range
  | WS_HEADER_Content_Type | WS_HEADER_ETag | WS_HEADER_Expires | WS_HEADER_Host
  | WS_HEADER_If_Match | WS_HEADER_If_None_Match | WS_HEADER_Keep_ALive
  | WS_HEADER_Last_Modified | WS_HEADER_Location | WS_HEADER_Range | WS_HEADER_Server
  | WS_HEADER_Transfer_Encoding | WS_HEADER_User_Agent | WS_HEADER_WWW_Authenticate
  | WS_HEADER_X_Forwarded_For | WS_HEADER_X_Forwarded_Host | WS_HEADER_X_Forwarded_Proto
  | WS_HEADER_X_Real_IP | WS_HEADER_UNKNOWN

definition ws_header_enum :: "WS_HEADER list" where
  "ws_header_enum =
     [WS_HEADER_Accept, WS_HEADER_Accept_Charset, WS_HEADER_Accept_Encoding,
      WS_HEADER_Accept_Language, WS_HEADER_Accept_Ranges, WS_HEADER_Authorization,
      WS_HEADER_Cache_Control, WS_HEADER_Connection, WS_HEADER_Content_Encoding,
      WS_HEADER_Content_Length, WS_HEADER_Content_Location, WS_HEADER_Content_Range,
      WS_HEADER_Content_Type, WS_HEADER_ETag, WS_HEADER_Expires, WS_HEADER_Host,
      WS_HEADER_If_Match, WS_HEADER_If_None_Match, WS_HEADER_Keep_ALive,
      WS_HEADER_Last_Modified, WS_HEADER_Location, WS_HEADER_Range, WS_HEADER_Server,
      WS_HEADER_Transfer_Encoding, WS_HEADER_User_Agent, WS_HEADER_WWW_Authenticate,
      WS_HEADER_X_Forwarded_For, WS_HEADER_X_Forwarded_Host, WS_HEADER_X_Forwarded_Proto,
      WS_HEADER_X_Real_IP, WS_HEADER_UNKNOWN]"

text \<open>The rows: size, text, upper case text.\<close>

definition ws_header_table :: "(nat \<times> string \<times> string) list" where
  "ws_header_table =
     [(7, ''Accept'', ''ACCEPT''), (15, ''Accept-Charset'', ''ACCEPT-CHARSET''),
      (16, ''Accept-Encoding'', ''ACCEPT-ENCODING''),
      (16, ''Accept-Language'', ''ACCEPT-LANGUAGE''),
      (14, ''Accept-Ranges'', ''ACCEPT-RANGES''), (14, ''Authorization'', ''AUTHORIZATION''),
      (14, ''Cache-Control'', ''CACHE-CONTROL''), (11, ''Connection'', ''CONNECTION''),
      (17, ''Content-Encoding'', ''CONTENT-ENCODING''),
      (15, ''Content-Length'', ''CONTENT-LENGTH''),
      (17, ''Content-Location'', ''CONTENT-LOCATION''),
      (15, ''Content-Range'', ''CONTENT-RANGE''), (13, ''Content-Type'', ''CONTENT-TYPE''),
      (5, ''ETag'', ''ETAG''), (8, ''Expires'', ''EXPIRES''), (5, ''Host'', ''HOST''),
      (9, ''If-Match'', ''IF-MATCH''), (14, ''If-None-Match'', ''IF-NONE-MATCH''),
      (11, ''Keep-Alive'', ''KEEP-ALIVE''), (14, ''Last-Modified'', ''LAST-MODIFIED''),
      (9, ''Location'', ''LOCATION''), (6, ''Range'', ''RANGE''), (7, ''Server'', ''SERVER''),
      (18, ''Transfer-Encoding'', ''TRANSFER-ENCODING''), (11, ''User-Agent'', ''USER-AGENT''),
      (17, ''WWW-Authenticate'', ''WWW-AUTHENTICATE''),
      (16, ''X-Forwarded-For'', ''X-FORWARDED-FOR''),
      (17, ''X-Forwarded-Host'', ''X-FORWARDED-HOST''),
      (18, ''X-Forwarded-Proto'', ''X-FORWARDED-PROTO''), (10, ''X-Real-IP'', ''X-REAL-IP'')]"

definition ws_header_from_upperstr :: "string \<Rightarrow> WS_HEADER option" where
  "ws_header_from_upperstr upperstr =
     map_option (nth ws_header_enum)
       (find_row (map (\<lambda>(sz, txt, upper_txt). (sz, upper_txt)) ws_header_table) upperstr)"

definition ws_header_to_str :: "WS_HEADER \<Rightarrow> string option" where
  "ws_header_to_str h =
     row_text (map (\<lambda>(sz, txt, upper_txt). (sz, txt)) ws_header_table) (enum_num ws_header_enum h)"

definition ws_header_to_upperstr :: "WS_HEADER \<Rightarrow> string option" where
  "ws_header_to_upperstr h =
     row_text (map (\<lambda>(sz, txt, upper_txt). (sz, upper_txt)) ws_header_table) (enum_num ws_header_enum h)"

section \<open>Status codes\<close>

datatype WS_CLOSE =
    WS_CLOSE_NO | WS_CLOSE_YES

datatype (plugins only: code size) WS_STATUS =
    WS_STATUS_200_OK | WS_STATUS_201_Created | WS_STATUS_202_Accepted
  | WS_STATUS_203_Non_Authoritative | WS_STATUS_204_No_Content | WS_STATUS_205_Reset_Content
  | WS_STATUS_206_Partial_Content | WS_STATUS_207_Multi_Status | WS_STATUS_208_Already_Reported
  | WS_STATUS_301_Moved_Permanently | WS_STATUS_302_Moved_Temporarily | WS_STATUS_303_See_Other
  | WS_STATUS_304_Not_modified | WS_STATUS_305_Use_Proxy | WS_STATUS_306_RESERVED
  | WS_STATUS_307_Temporary_Redirect | WS_STATUS_308_Permanent_Redirect
  | WS_STATUS_400_Bad_Request | WS_STATUS_401_Unauthorized | WS_STATUS_402_Payment_Required
  | WS_STATUS_403_Forbidden | WS_STATUS_404_Not_Found | WS_STATUS_405_Method_Not_Allowed
  | WS_STATUS_406_Not_Acceptable | WS_STATUS_407_Proxy_Authent_Required
  | WS_STATUS_408_Request_Timeout | WS_STATUS_409_Conflict | WS_STATUS_410_Gone
  | WS_STATUS_411_Length_Required | WS_STATUS_412_Precondition_Failed
  | WS_STATUS_413_Content_Too_Large | WS_STATUS_414_URI_Too_Long
  | WS_STATUS_415_Unsupported_Media_Type | WS_STATUS_416_Range_Not_Satisfiable
  | WS_STATUS_417_Expectation_Failed | WS_STATUS_418_I_m_a_teapot
  | WS_STATUS_421_Misdirected_Request | WS_STATUS_422_Unprocessable_Content
  | WS_STATUS_423_Locked | WS_STATUS_424_Failed_Dependency | WS_STATUS_425_Too_Early
  | WS_STATUS_426_Upgrade_Required | WS_STATUS_428_Precondition_Required
  | WS_STATUS_429_Too_Many_Requests | WS_STATUS_431_Request_Header_Too_Large
  | WS_STATUS_451_Unavailable_For_LR | WS_STATUS_500_Internal_Server_Error
  | WS_STATUS_501_Not_Implemented | WS_STATUS_502_Bad_Gateway
  | WS_STATUS_503_Service_Unavailable | WS_STATUS_504_Gateway_Timeout
  | WS_STATUS_505_HTTP_Ver_Not_Supported | WS_STATUS_506_Variant_Also_Negotiates
  | WS_STATUS_507_Insufficient_Storage | WS_STATUS_508_Loop_Detected
  | WS_STATUS_510_Not_Extended | WS_STATUS_511_Network_Authent_Required
  | WS_STATUS_100_Continue | WS_STATUS_101_Switching_Protocols | WS_STATUS_102_Processing
  | WS_STATUS_103_Early_Hints | WS_STATUS_UNKNOWN

definition ws_status_enum :: "WS_STATUS list" where
  "ws_status_enum =
     [WS_STATUS_200_OK, WS_STATUS_201_Created, WS_STATUS_202_Accepted,
      WS_STATUS_203_Non_Authoritative, WS_STATUS_204_No_Content, WS_STATUS_205_Reset_Content,
      WS_STATUS_206_Partial_Content, WS_STATUS_207_Multi_Status, WS_STATUS_208_Already_Reported,
      WS_STATUS_301_Moved_Permanently, WS_STATUS_302_Moved_Temporarily, WS_STATUS_303_See_Other,
      WS_STATUS_304_Not_modified, WS_STATUS_305_Use_Proxy, WS_STATUS_306_RESERVED,
      WS_STATUS_307_Temporary_Redirect, WS_STATUS_308_Permanent_Redirect,
      WS_STATUS_400_Bad_Request, WS_STATUS_401_Unauthorized, WS_STATUS_402_Payment_Required,
      WS_STATUS_403_Forbidden, WS_STATUS_404_Not_Found, WS_STATUS_405_Method_Not_Allowed,
      WS_STATUS_406_Not_Acceptable, WS_STATUS_407_Proxy_Authent_Required,
      WS_STATUS_408_Request_Timeout, WS_STATUS_409_Conflict, WS_STATUS_410_Gone,
      WS_STATUS_411_Length_Required, WS_STATUS_412_Precondition_Failed,
      WS_STATUS_413_Content_Too_Large, WS_STATUS_414_URI_Too_Long,
      WS_STATUS_415_Unsupported_Media_Type, WS_STATUS_416_Range_Not_Satisfiable,
      WS_STATUS_417_Expectation_Failed, WS_STATUS_418_I_m_a_teapot,
      WS_STATUS_421_Misdirected_Request, WS_STATUS_422_Unprocessable_Content,
      WS_STATUS_423_Locked, WS_STATUS_424_Failed_Dependency, WS_STATUS_425_Too_Early,
      WS_STATUS_426_Upgrade_Required, WS_STATUS_428_Precondition_Required,
      WS_STATUS_429_Too_Many_Requests, WS_STATUS_431_Request_Header_Too_Large,
      WS_STATUS_451_Unavailable_For_LR, WS_STATUS_500_Internal_Server_Error,
      WS_STATUS_501_Not_Implemented, WS_STATUS_502_Bad_Gateway,
      WS_STATUS_503_Service_Unavailable, WS_STATUS_504_Gateway_Timeout,
      WS_STATUS_505_HTTP_Ver_Not_Supported, WS_STATUS_506_Variant_Also_Negotiates,
      WS_STATUS_507_Insufficient_Storage, WS_STATUS_508_Loop_Detected,
      WS_STATUS_510_Not_Extended, WS_STATUS_511_Network_Authent_Required,
      WS_STATUS_100_Continue, WS_STATUS_101_Switching_Protocols, WS_STATUS_102_Processing,
      WS_STATUS_103_Early_Hints, WS_STATUS_UNKNOWN]"

record status_row =
  st_num :: int
  st_sz :: nat
  st_numstr :: string
  st_msgstr :: string
  st_close :: WS_CLOSE

definition row :: "int \<Rightarrow> nat \<Rightarrow> string \<Rightarrow> string \<Rightarrow> WS_CLOSE \<Rightarrow> status_row" where
  "row n sz ns ms c = \<lparr>st_num = n, st_sz = sz, st_numstr = ns, st_msgstr = ms, st_close = c\<rparr>"

definition ws_status_table :: "status_row list" where
  "ws_status_table =
     [row 200 4 ''200'' ''OK'' WS_CLOSE_NO, row 201 4 ''201'' ''Created'' WS_CLOSE_NO,
      row 202 4 ''202'' ''Accepted'' WS_CLOSE_NO,
      row 203 4 ''203'' ''Non-Authoritative Information'' WS_CLOSE_NO,
      row 204 4 ''204'' ''No content'' WS_CLOSE_NO,
      row 205 4 ''205'' ''Reset Content'' WS_CLOSE_NO,
      row 206 4 ''206'' ''Partial content'' WS_CLOSE_NO,
      row 207 4 ''207'' ''Multi-Status'' WS_CLOSE_NO,
      row 208 4 ''208'' ''Already Reported'' WS_CLOSE_NO,
      row 301 4 ''301'' ''Moved permanently'' WS_CLOSE_NO,
      row 302 4 ''302'' ''Moved temporarily'' WS_CLOSE_NO,
      row 303 4 ''303'' ''See Other'' WS_CLOSE_NO,
      row 304 4 ''304'' ''Not modified'' WS_CLOSE_NO,
      row 305 4 ''305'' ''Use Proxy'' WS_CLOSE_NO, row 306 4 ''306'' ''RESERVED'' WS_CLOSE_NO,
      row 307 4 ''307'' ''Temporary Redirect'' WS_CLOSE_NO,
      row 308 4 ''308'' ''Permanent Redirect'' WS_CLOSE_NO,
      row 400 4 ''400'' ''Bad request'' WS_CLOSE_YES,
      row 401 4 ''401'' ''Unauthorized'' WS_CLOSE_NO,
      row 402 4 ''402'' ''Payment Required'' WS_CLOSE_YES,
      row 403 4 ''403'' ''Forbidden'' WS_CLOSE_NO, row 404 4 ''404'' ''Not found'' WS_CLOSE_NO,
      row 405 4 ''405'' ''Method Not Allowed'' WS_CLOSE_NO,
      row 406 4 ''406'' ''Not Acceptable'' WS_CLOSE_NO,
      row 407 4 ''407'' ''Proxy Authentication Required'' WS_CLOSE_NO,
      row 408 4 ''408'' ''Request Timeout'' WS_CLOSE_YES,
      row 409 4 ''409'' ''Conflict'' WS_CLOSE_NO, row 410 4 ''410'' ''Gone'' WS_CLOSE_NO,
      row 411 4 ''411'' ''Length Required'' WS_CLOSE_YES,
      row 412 4 ''412'' ''Precondition Failed'' WS_CLOSE_NO,
      row 413 4 ''413'' ''Content Too Large'' WS_CLOSE_YES,
      row 414 4 ''414'' ''URI Too Long'' WS_CLOSE_YES,
      row 415 4 ''415'' ''Unsupported Media Type'' WS_CLOSE_NO,
      row 416 4 ''416'' ''Range Not Satisfiable'' WS_CLOSE_NO,
      row 417 4 ''417'' ''Expectation Failed'' WS_CLOSE_NO,
      row 418 4 ''418'' (''I'' @ [CHR 0x27] @ ''m a teapot'') WS_CLOSE_YES,
      row 421 4 ''421'' ''Misdirected Request'' WS_CLOSE_YES,
      row 422 4 ''422'' ''Unprocessable Content'' WS_CLOSE_YES,
      row 423 4 ''423'' ''Locked'' WS_CLOSE_YES,
      row 424 4 ''424'' ''Failed Dependency'' WS_CLOSE_YES,
      row 425 4 ''425'' ''Too Early'' WS_CLOSE_YES,
      row 426 4 ''426'' ''Upgrade Required'' WS_CLOSE_YES,
      row 428 4 ''428'' ''Precondition Required'' WS_CLOSE_YES,
      row 429 4 ''429'' ''Too Many Requests'' WS_CLOSE_YES,
      row 431 4 ''431'' ''Request Header Fields Too Large'' WS_CLOSE_YES,
      row 451 4 ''451'' ''Unavailable For Legal Reasons'' WS_CLOSE_YES,
      row 500 4 ''500'' ''Internal server error'' WS_CLOSE_YES,
      row 501 4 ''501'' ''Not implemented'' WS_CLOSE_YES,
      row 502 4 ''502'' ''Bad gateway'' WS_CLOSE_YES,
      row 503 4 ''503'' ''Service unavailable'' WS_CLOSE_YES,
      row 504 4 ''504'' ''Gateway Timeout'' WS_CLOSE_YES,
      row 505 4 ''505'' ''HTTP Version Not Supported'' WS_CLOSE_YES,
      row 506 4 ''506'' ''Variant Also Negotiates'' WS_CLOSE_YES,
      row 507 4 ''507'' ''Insufficient Storage'' WS_CLOSE_YES,
      row 508 4 ''508'' ''Loop Detected'' WS_CLOSE_YES,
      row 510 4 ''510'' ''Not Extended'' WS_CLOSE_YES,
      row 511 4 ''511'' ''Network Authentication Required'' WS_CLOSE_YES,
      row 100 4 ''100'' ''Continue'' WS_CLOSE_NO,
      row 101 4 ''101'' ''Switching Protocols'' WS_CLOSE_YES,
      row 102 4 ''102'' ''Processing'' WS_CLOSE_NO,
      row 103 4 ''103'' ''Early Hints'' WS_CLOSE_NO]"

text \<open>The scan by number; the closing row has the number 0, no texts, and asks to close.\<close>

fun find_num :: "status_row list \<Rightarrow> int \<Rightarrow> nat" where
  "find_num [] num = 0"
| "find_num (r # p) num = (if st_num r = num then 0 else Suc (find_num p num))"

definition ws_status_from_num :: "i32 \<Rightarrow> WS_STATUS" where
  "ws_status_from_num num = ws_status_enum ! find_num ws_status_table (sint num)"

definition ws_status_from_numstr :: "string \<Rightarrow> WS_STATUS option" where
  "ws_status_from_numstr numstr =
     map_option (nth ws_status_enum)
       (find_row (map (\<lambda>r. (st_sz r, st_numstr r)) ws_status_table) numstr)"

definition status_row_of :: "WS_STATUS \<Rightarrow> status_row option" where
  "status_row_of s =
     (let i = enum_num ws_status_enum s in
      if i < length ws_status_table then Some (ws_status_table ! i) else None)"

definition ws_status_to_num :: "WS_STATUS \<Rightarrow> i32" where
  "ws_status_to_num s = (case status_row_of s of Some r \<Rightarrow> of_int (st_num r) | None \<Rightarrow> 0)"

definition ws_status_to_numstr :: "WS_STATUS \<Rightarrow> string option" where
  "ws_status_to_numstr s = map_option st_numstr (status_row_of s)"

definition ws_status_to_msgstr :: "WS_STATUS \<Rightarrow> string option" where
  "ws_status_to_msgstr s = map_option st_msgstr (status_row_of s)"

definition ws_status_to_close :: "WS_STATUS \<Rightarrow> WS_CLOSE" where
  "ws_status_to_close s = (case status_row_of s of Some r \<Rightarrow> st_close r | None \<Rightarrow> WS_CLOSE_YES)"

section \<open>The tables agree with the enumerations\<close>

text \<open>What makes a table and its enumeration fit: one enumerator per row and one for the closing
  row, sizes that cover the terminators, and no text twice.\<close>

definition fits :: "'a list \<Rightarrow> (nat \<times> string) list \<Rightarrow> bool" where
  "fits es t \<longleftrightarrow> length es = Suc (length t) \<and> distinct es \<and> distinct (map snd t)
     \<and> list_all (\<lambda>(sz, txt). Suc (length txt) \<le> sz \<and> NUL \<notin> set txt) t"

lemma memcmp_eq_cstring:
  assumes "Suc (length a) \<le> sz" "is_cstring a" "is_cstring b"
  shows "memcmp_eq sz (a @ [NUL]) (b @ [NUL])
    = (if a \<noteq> b then Some False else if sz = Suc (length a) then Some True else None)"
  using assms
proof (induction a arbitrary: sz b)
  case Nil
  then obtain n where sz: "sz = Suc n" by (cases sz) auto
  show ?case
  proof (cases b)
    case Nil
    then show ?thesis by (cases n) (auto simp: sz)
  next
    case (Cons y b')
    with Nil.prems show ?thesis by (auto simp: sz)
  qed
next
  case (Cons x a)
  then obtain n where sz: "sz = Suc n" by (cases sz) auto
  show ?case
  proof (cases b)
    case Nil
    with Cons.prems show ?thesis by (auto simp: sz)
  next
    case (Cons y b')
    with Cons.IH [of n b'] Cons.prems show ?thesis by (auto simp: sz)
  qed
qed

text \<open>The scan: the row of the text if its size is right, an access outside of the text if it is
  too large, the closing row for every other text.\<close>

lemma find_row_fits:
  assumes "list_all (\<lambda>(sz, txt). Suc (length txt) \<le> sz \<and> NUL \<notin> set txt) t" "is_cstring str"
  shows "find_row t str =
    (let i = enum_num (map snd t) str in
     if i = length t \<or> fst (t ! i) = Suc (length str) then Some i else None)"
  using assms(1)
proof (induction t)
  case (Cons r t)
  obtain sz t' where r: "r = (sz, t')" by (cases r)
  with Cons.prems have h: "Suc (length t') \<le> sz" "is_cstring t'" by (auto simp: is_cstring_def)
  with Cons show ?case using memcmp_eq_cstring [OF h assms(2)] by (auto simp: r Let_def)
qed simp

lemma enum_num_nth: "distinct xs \<Longrightarrow> i < length xs \<Longrightarrow> enum_num xs (xs ! i) = i"
proof (induction xs arbitrary: i)
  case (Cons x xs)
  show ?case
  proof (cases i)
    case (Suc j)
    with Cons show ?thesis by auto
  qed simp
qed simp

lemma enum_num_notin: "x \<notin> set xs \<Longrightarrow> enum_num xs x = length xs"
  by (induction xs) auto

lemma enum_num_less: "x \<in> set xs \<Longrightarrow> enum_num xs x < length xs \<and> xs ! enum_num xs x = x"
  by (induction xs) auto

lemma fits_roundtrip:
  assumes "fits es t" "row_text t (enum_num es m) = Some s"
    "fst (t ! enum_num es m) = Suc (length s)"
  shows "map_option (nth es) (find_row t s) = Some m"
proof -
  let ?i = "enum_num es m"
  from assms(2) have i: "?i < length t" "s = map snd t ! ?i"
    by (auto simp: row_text_def split: if_splits)
  with assms(1) have c: "is_cstring s" by (auto simp: fits_def list_all_length is_cstring_def split_beta)
  have n: "enum_num (map snd t) s = ?i"
    unfolding i(2) using assms(1) i(1) by (intro enum_num_nth) (simp_all add: fits_def)
  have "?i < length es" using i(1) assms(1) by (simp add: fits_def)
  then have "m \<in> set es" by (metis enum_num_notin less_irrefl)
  then have "es ! ?i = m" by (simp add: enum_num_less)
  moreover have "find_row t s = Some ?i"
    using find_row_fits [of t s] assms(1,3) c n by (simp add: fits_def Let_def)
  ultimately show ?thesis by simp
qed

lemma fits_unknown:
  assumes "fits es t" "is_cstring str" "\<forall>m. row_text t (enum_num es m) \<noteq> Some str"
  shows "map_option (nth es) (find_row t str) = Some (last es)"
proof -
  have "str \<notin> set (map snd t)"
  proof
    assume "str \<in> set (map snd t)"
    then obtain i where i: "i < length t" "snd (t ! i) = str" by (auto simp: in_set_conv_nth)
    with assms(1) have "enum_num es (es ! i) = i" by (intro enum_num_nth) (auto simp: fits_def)
    with i have "row_text t (enum_num es (es ! i)) = Some str" by (simp add: row_text_def)
    with assms(3) show False by blast
  qed
  then have n: "enum_num (map snd t) str = length t" by (simp add: enum_num_notin)
  from assms(1) have f: "length es = Suc (length t)" by (simp add: fits_def)
  then have "es \<noteq> []" by auto
  with f have "last es = es ! length t" by (simp add: last_conv_nth)
  with find_row_fits [of t str] assms(1,2) n show ?thesis by (simp add: fits_def Let_def)
qed

abbreviation header_rows :: "(nat \<times> string) list" where
  "header_rows \<equiv> map (\<lambda>(sz, txt, upper_txt). (sz, upper_txt)) ws_header_table"

abbreviation status_rows :: "(nat \<times> string) list" where
  "status_rows \<equiv> map (\<lambda>r. (st_sz r, st_numstr r)) ws_status_table"

lemma method_fits: "fits ws_method_enum ws_method_table"
  by code_simp

lemma ctype_fits: "fits ws_ctype_enum ws_ctype_table"
  by code_simp

lemma cencoding_fits: "fits ws_cencoding_enum ws_cencoding_table"
  by code_simp

lemma header_fits: "fits ws_header_enum header_rows"
  by code_simp

lemma status_fits: "fits ws_status_enum status_rows"
  by code_simp

text \<open>The rows whose size is the length of the text and its terminator.\<close>

definition sized :: "(nat \<times> string) list \<Rightarrow> bool list" where
  "sized t = map (\<lambda>(sz, txt). sz = Suc (length txt)) t"

lemma sizes:
  "list_all id (sized ws_method_table)" "list_all id (sized ws_ctype_table)"
  "list_all id (sized ws_cencoding_table)" "list_all id (sized status_rows)"
  "list_all id ((sized header_rows)[11 := True])" "ws_header_enum ! 11 = WS_HEADER_Content_Range"
  by code_simp+

lemma sized_row: "list_all id (sized t) \<Longrightarrow> row_text t i = Some s \<Longrightarrow> fst (t ! i) = Suc (length s)"
  by (auto simp: sized_def row_text_def list_all_length split_beta split: if_splits)

lemma sized_row_but:
  "list_all id ((sized t)[j := True]) \<Longrightarrow> i \<noteq> j \<Longrightarrow> row_text t i = Some s \<Longrightarrow> fst (t ! i) = Suc (length s)"
  by (auto simp: sized_def row_text_def list_all_length split_beta split: if_splits)

lemma enum_num_inj: "enum_num xs x = i \<Longrightarrow> i < length xs \<Longrightarrow> x = xs ! i"
  by (metis enum_num_less enum_num_notin less_irrefl)

lemma header_row_sized:
  assumes "row_text header_rows (enum_num ws_header_enum h) = Some t" "h \<noteq> WS_HEADER_Content_Range"
  shows "fst (header_rows ! enum_num ws_header_enum h) = Suc (length t)"
proof (rule sized_row_but [OF sizes(5) _ assms(1)])
  have "11 < length ws_header_enum" by (simp add: ws_header_enum_def)
  with assms(2) show "enum_num ws_header_enum h \<noteq> 11"
    using enum_num_inj [of ws_header_enum h 11] sizes(6) by auto
qed

lemma status_texts: "ws_status_to_numstr s = row_text status_rows (enum_num ws_status_enum s)"
  by (simp add: ws_status_to_numstr_def status_row_of_def row_text_def Let_def)

text \<open>Every table of the HTTP client is read back by its lookup: the text of a method, content
  type, encoding, header or status is found at that enumerator, and a header of no row is
  \<open>UNKNOWN\<close>; no row hides another. There is one exception: the size of the row of
  \<open>Content-Range\<close> is one too large, and looking this header up reads behind the texts.\<close>

theorem ws_tables_roundtrip:
  "(\<forall>m t. ws_method_to_str m = Some t \<longrightarrow> ws_method_from_str t = Some m)
   \<and> (\<forall>m t. ws_ctype_to_str m = Some t \<longrightarrow> ws_ctype_from_str t = Some m)
   \<and> (\<forall>m t. ws_cencoding_to_str m = Some t \<longrightarrow> ws_cencoding_from_str t = Some m)
   \<and> (\<forall>h t. ws_header_to_upperstr h = Some t \<longrightarrow>
        ws_header_from_upperstr t = (if h = WS_HEADER_Content_Range then None else Some h))
   \<and> (\<forall>s t. ws_status_to_numstr s = Some t \<longrightarrow> ws_status_from_numstr t = Some s)
   \<and> (\<forall>str. is_cstring str \<and> (\<forall>h. ws_header_to_upperstr h \<noteq> Some str)
        \<longrightarrow> ws_header_from_upperstr str = Some WS_HEADER_UNKNOWN)"
proof (intro conjI allI impI; (elim conjE)?)
  show "ws_method_from_str t = Some m" if "ws_method_to_str m = Some t" for m t
    using fits_roundtrip [OF method_fits _ sized_row [OF sizes(1)]] that
    by (simp only: ws_method_from_str_def ws_method_to_str_def)
  show "ws_ctype_from_str t = Some m" if "ws_ctype_to_str m = Some t" for m t
    using fits_roundtrip [OF ctype_fits _ sized_row [OF sizes(2)]] that
    by (simp only: ws_ctype_from_str_def ws_ctype_to_str_def)
  show "ws_cencoding_from_str t = Some m" if "ws_cencoding_to_str m = Some t" for m t
    using fits_roundtrip [OF cencoding_fits _ sized_row [OF sizes(3)]] that
    by (simp only: ws_cencoding_from_str_def ws_cencoding_to_str_def)
  show "ws_header_from_upperstr t = (if h = WS_HEADER_Content_Range then None else Some h)"
    if "ws_header_to_upperstr h = Some t" for h t
  proof (cases "h = WS_HEADER_Content_Range")
    case True
    with that have "t = ''CONTENT-RANGE''"
      by (simp add: ws_header_to_upperstr_def row_text_def ws_header_table_def ws_header_enum_def)
    moreover have "ws_header_from_upperstr ''CONTENT-RANGE'' = None" by code_simp
    ultimately show ?thesis using True by simp
  next
    case False
    from that have r: "row_text header_rows (enum_num ws_header_enum h) = Some t"
      by (simp only: ws_header_to_upperstr_def)
    from fits_roundtrip [OF header_fits r header_row_sized [OF r False]] False show ?thesis
      by (simp only: ws_header_from_upperstr_def if_False)
  qed
  show "ws_status_from_numstr t = Some s" if "ws_status_to_numstr s = Some t" for s t
    using fits_roundtrip [OF status_fits _ sized_row [OF sizes(4)]] that
    by (simp only: ws_status_from_numstr_def status_texts)
  show "ws_header_from_upperstr str = Some WS_HEADER_UNKNOWN"
    if "is_cstring str" "\<forall>h. ws_header_to_upperstr h \<noteq> Some str" for str
    using fits_unknown [OF header_fits that(1)] that(2)
    by (simp add: ws_header_from_upperstr_def ws_header_to_upperstr_def ws_header_enum_def)
qed

text \<open>The number of a status is found again, and every number of no row is \<open>UNKNOWN\<close>, with
  number 0.\<close>

theorem ws_status_numbers:
  "ws_status_from_num (ws_status_to_num s) = s"
proof -
  have "list_all (\<lambda>s. ws_status_from_num (ws_status_to_num s) = s) ws_status_enum" by code_simp
  moreover have "s \<in> set ws_status_enum" by (cases s) (simp_all add: ws_status_enum_def)
  ultimately show ?thesis by (simp add: list_all_iff)
qed

end
