(* ===== verification/Uri.thy ===== *)
theory Uri
  imports Builtin
begin

text \<open>
  URIs: the encoders and decoders of \<open>private/uriencoder.cpp\<close> and the scanner of
  \<open>private/uriparser.cpp\<close>.
\<close>

section \<open>Encoding\<close>

text \<open>The two tables of characters that are left alone, as 128 flags.\<close>

definition uri_pchar_table :: "bool list" where
  "uri_pchar_table = map (\<lambda>c. c = CHR ''1'')
     (''0000000000000000'' @ ''0000000000000000'' @ ''0100111111111111'' @ ''1111111111110100''
      @ ''1111111111111111'' @ ''1111111111110101'' @ ''0111111111111111'' @ ''1111111111101010'')"

definition uri_uchar_table :: "bool list" where
  "uri_uchar_table = map (\<lambda>c. c = CHR ''1'')
     (''0000000000000000'' @ ''0000000000000000'' @ ''0000000000000110'' @ ''1111111111000000''
      @ ''0111111111111111'' @ ''1111111111100001'' @ ''0111111111111111'' @ ''1111111111100010'')"

definition in_table :: "bool list \<Rightarrow> char \<Rightarrow> bool" where
  "in_table tbl c \<longleftrightarrow> (let n = of_char c :: nat in n \<le> 127 \<and> tbl ! n)"

fun encode_loop :: "bool list \<Rightarrow> string \<Rightarrow> string" where
  "encode_loop tbl [] = []"
| "encode_loop tbl (c # cs) =
     (if in_table tbl c then [c] else CHR ''%'' # char_to_uhex c) @ encode_loop tbl cs"

definition pathencode :: "string \<Rightarrow> string" where
  "pathencode str = encode_loop uri_pchar_table (cstr str)"

definition urlencode :: "string \<Rightarrow> string" where
  "urlencode str = encode_loop uri_uchar_table (cstr str)"

section \<open>Decoding\<close>

text \<open>
  The loop over the characters up to the terminator. After a percent sign up to two characters
  are copied and converted; when that succeeds the pointer moves over two characters. If fewer
  are left, it moves past the terminator, and the following reads are outside of the string:
  that is \<open>None\<close>. (An empty text converts to 0.) The argument \<open>keep\<close> are the values that are not
  decoded.
\<close>

function decode_loop :: "(i32 \<Rightarrow> bool) \<Rightarrow> string \<Rightarrow> string option" where
  "decode_loop keep [] = Some []"
| "decode_loop keep (c # cs) =
     (case (if c = CHR ''%'' then hex_to_num (take 2 cs) else Inl EINVAL) of
        Inl _ \<Rightarrow> map_option (Cons c) (decode_loop keep cs)
      | Inr v \<Rightarrow>
          (if keep v then map_option (Cons c) (decode_loop keep cs)
           else if length cs < 2 then None
           else map_option (Cons (char_of (uint v))) (decode_loop keep (drop 2 cs))))"
  by pat_completeness auto
termination
  by (relation "measure (\<lambda>(_, s). length s)") auto

definition urldecode :: "string \<Rightarrow> string option" where
  "urldecode str = decode_loop (\<lambda>v. False) (cstr str)"

definition pathdecode :: "string \<Rightarrow> string option" where
  "pathdecode str =
     decode_loop (\<lambda>v. \<not> (sint v < 0 \<or> sint v > 127 \<or> \<not> uri_pchar_table ! nat (sint v))) (cstr str)"

section \<open>Scanning\<close>

text \<open>
  The scanner works in place: it overwrites delimiters with terminators and keeps pointers to the
  pieces. Here the pieces are the strings those pointers denote at the end; a search followed by
  a terminator splits the string, and a null pointer is \<open>None\<close>.
\<close>

fun strchr_split :: "char \<Rightarrow> string \<Rightarrow> (string \<times> string) option" where
  "strchr_split c [] = None"
| "strchr_split c (x # xs) =
     (if x = c then Some ([], xs) else map_option (\<lambda>(a, b). (x # a, b)) (strchr_split c xs))"

record URI_t =
  scheme :: "string option"
  host :: "string option"
  port :: u32
  user :: "string option"
  pass :: "string option"
  absolute :: "string option"
  relative :: "string option"
  fragment :: "string option"
  params :: "string option"

definition URI_empty :: URI_t where
  "URI_empty = \<lparr>scheme = None, host = None, port = 0, user = None, pass = None, absolute = None,
     relative = None, fragment = None, params = None\<rparr>"

text \<open>\<open>atoi\<close>: leading space, a sign, digits.\<close>

definition atoi :: "string \<Rightarrow> int" where
  "atoi s =
     (let t = skip_space s;
          u = (case t of c # cs \<Rightarrow> if c = CHR ''-'' \<or> c = CHR ''+'' then cs else t | [] \<Rightarrow> t);
          n = int (dec_value (takeWhile isdigit u))
      in if t \<noteq> [] \<and> hd t = CHR ''-'' then - n else n)"

definition upper :: "char \<Rightarrow> char" where
  "upper c = (let n = of_char c :: nat in if 97 \<le> n \<and> n \<le> 122 then char_of (n - 32) else c)"

text \<open>The loop that looks for the scheme: the text before the first colon, unless a delimiter of
  another part comes first.\<close>

fun scan_scheme :: "string \<Rightarrow> (string \<times> string) option" where
  "scan_scheme [] = None"
| "scan_scheme (c # cs) =
     (if c = CHR ''/'' \<or> c = CHR ''#'' \<or> c = CHR ''?'' then None
      else if c = CHR '':'' then Some ([], cs)
      else map_option (\<lambda>(a, b). (c # a, b)) (scan_scheme cs))"

definition split_scheme :: "string \<Rightarrow> string option \<times> string" where
  "split_scheme uri =
     (case scan_scheme uri of
        None \<Rightarrow> (None, uri)
      | Some (s, rest) \<Rightarrow>
          (if map upper (take 3 s) = ''URL'' then None else Some s, rest))"

text \<open>The text after the two slashes: \<open>[user[:pass]@]host[:port][/path]\<close>.\<close>

definition scan_authority :: "string \<Rightarrow> URI_t \<Rightarrow> URI_t" where
  "scan_authority s parts =
     (let (hp, parts1) = (case strchr_split (CHR ''/'') s of
                            Some (a, b) \<Rightarrow> (a, parts\<lparr>absolute := Some b\<rparr>) | None \<Rightarrow> (s, parts));
          (hst, parts2) = (case strchr_split (CHR ''@'') hp of
                             Some (u, h) \<Rightarrow>
                               (h, case strchr_split (CHR '':'') u of
                                     Some (n, w) \<Rightarrow> parts1\<lparr>user := Some n, pass := Some w\<rparr>
                                   | None \<Rightarrow> parts1\<lparr>user := Some u\<rparr>)
                           | None \<Rightarrow> (hp, parts1))
      in case strchr_split (CHR '']'') hst of
           Some (h, rest) \<Rightarrow>
             (let parts3 = parts2\<lparr>host := Some (if h = [] then rest else tl h)\<rparr> in
              if rest \<noteq> [] \<and> hd rest = CHR '':'' then parts3\<lparr>port := of_int (atoi (tl rest))\<rparr> else parts3)
         | None \<Rightarrow>
             (case strchr_split (CHR '':'') hst of
                Some (h, rest) \<Rightarrow> parts2\<lparr>host := Some h, port := of_int (atoi rest)\<rparr>
              | None \<Rightarrow> parts2\<lparr>host := Some hst\<rparr>))"

text \<open>The fragment of the path, then the parameters in what follows: in the fragment if there is
  one, otherwise in the path. \<open>setp\<close> stores the path.\<close>

definition scan_tail :: "string \<Rightarrow> (string \<Rightarrow> URI_t \<Rightarrow> URI_t) \<Rightarrow> URI_t \<Rightarrow> URI_t" where
  "scan_tail path setp parts =
     (case strchr_split (CHR ''#'') path of
        Some (p, f) \<Rightarrow>
          (case strchr_split (CHR ''?'') f of
             Some (f1, q) \<Rightarrow> (setp p parts)\<lparr>fragment := Some f1, params := Some q\<rparr>
           | None \<Rightarrow> (setp p parts)\<lparr>fragment := Some f\<rparr>)
      | None \<Rightarrow>
          (case strchr_split (CHR ''?'') path of
             Some (p, q) \<Rightarrow> (setp p parts)\<lparr>params := Some q\<rparr>
           | None \<Rightarrow> parts))"

definition URIScan :: "string \<Rightarrow> URI_t" where
  "URIScan location =
     (let s0 = cstr location;
          uri = (case strchr_split (CHR '' '') s0 of Some (a, _) \<Rightarrow> a | None \<Rightarrow> s0);
          (sch, rest) = split_scheme uri;
          parts0 = URI_empty\<lparr>scheme := sch\<rparr>;
          parts = (if rest \<noteq> [] \<and> hd rest = CHR ''/''
                   then (if tl rest \<noteq> [] \<and> hd (tl rest) = CHR ''/''
                         then scan_authority (tl (tl rest)) parts0
                         else parts0\<lparr>absolute := Some (tl rest)\<rparr>)
                   else parts0\<lparr>relative := (if rest = [] then None else Some rest)\<rparr>)
      in case relative parts of
           Some p \<Rightarrow> scan_tail p (\<lambda>x ps. ps\<lparr>relative := Some x\<rparr>) parts
         | None \<Rightarrow>
             (case absolute parts of
                Some p \<Rightarrow> scan_tail p (\<lambda>x ps. ps\<lparr>absolute := Some x\<rparr>) parts
              | None \<Rightarrow> parts))"

section \<open>Hexadecimal escapes\<close>

definition uhex_digits :: string where "uhex_digits = ''0123456789ABCDEF''"

lemma uhex_digit:
  assumes "d < 16"
  shows "hex_val (uhex_digits ! d) = Some d" "uhex_digits ! d \<in> set uhex_digits"
proof -
  from assms have "d \<in> {0, 1, 2, 3, 4, 5, 6, 7, 8, 9, 10, 11, 12, 13, 14, 15}" by simp presburger
  then show "hex_val (uhex_digits ! d) = Some d" by (auto simp: hex_val_def uhex_digits_def)
  show "uhex_digits ! d \<in> set uhex_digits" by (rule nth_mem) (use assms in \<open>simp add: uhex_digits_def\<close>)
qed

lemma of_char_less: "(of_char c :: nat) < 256" "(of_char c :: nat) div 16 < 16" "(of_char c :: nat) mod 16 < 16"
  using nat_of_char_less_256 [of c] by (simp_all add: div_less_iff_less_mult)

lemma char_to_uhex_digits: "char_to_uhex c = [uhex_digits ! (of_char c div 16), uhex_digits ! (of_char c mod 16)]"
  unfolding char_to_uhex_def uhex_digits_def Let_def ..

lemma hex_to_num_uhex: "hex_to_num (char_to_uhex c) = Inr (of_nat (of_char c))"
proof -
  let ?n = "of_char c :: nat"
  have "of_nat (?n div 16) * 16 + of_nat (?n mod 16) = (of_nat (?n div 16 * 16 + ?n mod 16) :: i32)"
    by (simp only: of_nat_add of_nat_mult of_nat_numeral)
  also have "\<dots> = of_nat ?n" by (simp only: div_mult_mod_eq)
  finally show ?thesis using of_char_less [of c]
    by (simp add: hex_to_num_def char_to_uhex_digits uhex_digit push_bit_eq_mult)
qed

lemma uhex_chars: "length (char_to_uhex c) = 2" "set (char_to_uhex c) \<subseteq> set uhex_digits"
  using uhex_digit(2) of_char_less [of c] by (simp_all add: char_to_uhex_digits)

lemma char_of_uint: "char_of (uint (of_nat (of_char c) :: i32)) = c"
proof -
  have "(of_char c :: nat) < 2 ^ 32" using of_char_less(1) [of c] by (rule less_trans) simp
  then have "uint (of_nat (of_char c) :: i32) = int (of_char c)"
    by (simp add: uint_nat unsigned_of_nat take_bit_nat_eq_self)
  also have "\<dots> = of_char c" by (rule of_nat_of_char)
  finally show ?thesis by simp
qed

text \<open>Decoding undoes encoding, if the percent sign itself is encoded or does not occur, and no
  encoded character is one that the decoder keeps.\<close>

lemma decode_encode:
  assumes "\<And>c. c \<in> set s \<Longrightarrow> in_table tbl c \<Longrightarrow> c \<noteq> CHR ''%''"
    "\<And>c. c \<in> set s \<Longrightarrow> \<not> in_table tbl c \<Longrightarrow> \<not> keep (of_nat (of_char c))"
  shows "decode_loop keep (encode_loop tbl s) = Some s"
  using assms
proof (induction s)
  case (Cons c s)
  then have IH: "decode_loop keep (encode_loop tbl s) = Some s" by simp
  show ?case
  proof (cases "in_table tbl c")
    case True
    with Cons.prems(1) [of c] IH show ?thesis by simp
  next
    case False
    have t: "take 2 (char_to_uhex c @ r) = char_to_uhex c" "drop 2 (char_to_uhex c @ r) = r"
      "\<not> length (char_to_uhex c @ r) < 2" for r by (simp_all add: uhex_chars)
    from Cons.prems(2) [of c] False have "\<not> keep (of_nat (of_char c))" by simp
    then have "decode_loop keep (CHR ''%'' # (char_to_uhex c @ encode_loop tbl s))
        = map_option (Cons c) (decode_loop keep (encode_loop tbl s))"
      by (simp only: decode_loop.simps t hex_to_num_uhex char_of_uint if_True refl sum.case if_False)
    with False IH show ?thesis by simp
  qed
qed simp

lemma encode_chars:
  "set (encode_loop tbl s) \<subseteq> {c. in_table tbl c} \<union> set uhex_digits \<union> {CHR ''%''}"
proof (induction s)
  case (Cons c s)
  with uhex_chars(2) [of c] show ?case by auto
qed simp

lemma uchar_percent: "\<not> in_table uri_uchar_table (CHR ''%'')" "in_table uri_pchar_table (CHR ''%'')"
  by (simp_all add: in_table_def uri_uchar_table_def uri_pchar_table_def)

lemma uchar_hex: "list_all (in_table uri_uchar_table) uhex_digits"
  by (simp add: in_table_def uri_uchar_table_def uhex_digits_def)

lemma urldecode_urlencode: "urldecode (urlencode s) = Some (cstr s)"
proof -
  let ?e = "encode_loop uri_uchar_table (cstr s)"
  have "\<not> in_table uri_uchar_table NUL" "NUL \<notin> set uhex_digits"
    by (simp_all add: in_table_def uri_uchar_table_def uhex_digits_def)
  then have "is_cstring ?e" using encode_chars [of uri_uchar_table "cstr s"] by (auto simp: is_cstring_def)
  moreover have "decode_loop (\<lambda>v. False) ?e = Some (cstr s)"
    by (rule decode_encode) (use uchar_percent in auto)
  ultimately show ?thesis by (simp add: urlencode_def urldecode_def)
qed

text \<open>The URL encoding is undone by the decoder, for every text, and the encoded text is made
  of unreserved characters and the percent sign only.\<close>

theorem urlencode_roundtrip:
  "urldecode (urlencode s) = Some (cstr s)
   \<and> list_all (\<lambda>c. in_table uri_uchar_table c \<or> c = CHR ''%'') (urlencode s)"
  using encode_chars [of uri_uchar_table "cstr s"] uchar_hex urldecode_urlencode [of s]
  by (auto simp: urlencode_def list_all_iff)

lemma pchar_kept: "sint (of_nat (of_char c) :: i32) = int (of_char c)"
proof -
  have "(of_char c :: nat) < 2 ^ 31" using of_char_less(1) [of c] by (rule less_trans) simp
  then show ?thesis by (simp add: signed_of_nat signed_take_bit_int_eq_self)
qed

text \<open>The path encoding is undone by the decoder, for every text without a percent sign (the
  percent sign is left alone by both).\<close>

theorem pathencode_roundtrip:
  "CHR ''%'' \<notin> set s \<Longrightarrow> pathdecode (pathencode s) = Some (cstr s)"
proof -
  assume np: "CHR ''%'' \<notin> set s"
  let ?keep = "\<lambda>v :: i32. \<not> (sint v < 0 \<or> sint v > 127 \<or> \<not> uri_pchar_table ! nat (sint v))"
  let ?e = "encode_loop uri_pchar_table (cstr s)"
  have np': "CHR ''%'' \<notin> set (cstr s)" using np by (auto simp: cstr_def dest: set_takeWhileD)
  have z: "\<not> in_table uri_pchar_table NUL" by (simp add: in_table_def uri_pchar_table_def)
  have h: "NUL \<notin> set uhex_digits" by (simp add: uhex_digits_def)
  have "is_cstring ?e" using encode_chars [of uri_pchar_table "cstr s"] z h by (auto simp: is_cstring_def)
  moreover have "decode_loop ?keep ?e = Some (cstr s)"
  proof (rule decode_encode)
    show "c \<noteq> CHR ''%''" if "c \<in> set (cstr s)" for c using that np' by auto
    show "\<not> ?keep (of_nat (of_char c))" if "\<not> in_table uri_pchar_table c" for c
      using that by (auto simp: in_table_def Let_def pchar_kept)
  qed
  ultimately show ?thesis by (simp add: pathencode_def pathdecode_def)
qed

theorem pathencode_roundtrip_witness: "pathdecode (pathencode ''/a b\"c'') = Some ''/a b\"c''"
  using pathencode_roundtrip [of "''/a b\"c''"] by (simp add: cstr_def)

text \<open>A text that ends within an escape makes the decoders read behind the end of the text: a
  percent sign at the very end, or followed by a single hexadecimal digit, is converted and two
  characters are skipped that are not there.\<close>

theorem decode_truncated_escape:
  "urldecode ''abc%'' = None \<and> urldecode ''abc%4'' = None \<and> pathdecode ''abc%'' = None
   \<and> urldecode ''abc%4g'' = Some ''abc%4g'' \<and> urldecode ''abc%41'' = Some ''abcA''"
  by (simp add: urldecode_def pathdecode_def cstr_def hex_to_num_def hex_val_def uri_pchar_table_def char_of_def)

section \<open>Scanning a composed URI\<close>

lemma strchr_split_none: "c \<notin> set s \<Longrightarrow> strchr_split c s = None"
  by (induction s) auto

lemma strchr_split_first: "c \<notin> set a \<Longrightarrow> strchr_split c (a @ c # b) = Some (a, b)"
  by (induction a) auto

lemma scan_scheme_first:
  "list_all (\<lambda>c. c \<notin> set '':/?#'') a \<Longrightarrow> scan_scheme (a @ CHR '':'' # b) = Some (a, b)"
  by (induction a) auto

text \<open>Characters that have no meaning for the scanner.\<close>

definition plain :: "string \<Rightarrow> bool" where
  "plain s \<longleftrightarrow> list_all (\<lambda>c. c \<notin> set '' :/?#@[]'' \<and> c \<noteq> NUL) s"

lemma plain_notin:
  assumes "plain s"
  shows "CHR '' '' \<notin> set s" "CHR '':'' \<notin> set s" "CHR ''/'' \<notin> set s" "CHR ''?'' \<notin> set s" "CHR ''#'' \<notin> set s"
    "CHR ''@'' \<notin> set s" "CHR ''['' \<notin> set s" "CHR '']'' \<notin> set s" "is_cstring s"
  using assms by (auto simp: plain_def list_all_iff is_cstring_def)

lemma plain_dec_nat: "plain (dec_nat n)"
proof -
  have "isdigit c \<Longrightarrow> c \<notin> set '' :/?#@[]'' \<and> c \<noteq> NUL" for c by (auto simp: isdigit_def)
  with dec_nat_digits [of n] show ?thesis by (auto simp: plain_def list_all_iff)
qed

lemma atoi_dec_nat: "atoi (dec_nat n) = int n"
proof -
  have d: "list_all isdigit (dec_nat n)" by (rule dec_nat_digits)
  then have t: "takeWhile isdigit (dec_nat n) = dec_nat n" by (simp add: takeWhile_eq_all_conv list_all_iff)
  obtain c cs where n: "dec_nat n = c # cs" by (cases "dec_nat n") auto
  with d have "isdigit c" by simp
  then have "c \<noteq> CHR ''-''" "c \<noteq> CHR ''+''" by (auto simp: isdigit_def)
  with n t show ?thesis using skip_space_digits [OF d] dec_value_dec_nat [of n] by (simp add: atoi_def Let_def)
qed

definition url :: "string \<Rightarrow> string \<Rightarrow> string \<Rightarrow> string \<Rightarrow> nat \<Rightarrow> string \<Rightarrow> string \<Rightarrow> string" where
  "url sch us pw h pt path q =
     sch @ ''://'' @ us @ '':'' @ pw @ ''@'' @ h @ '':'' @ dec_nat pt @ ''/'' @ path @ ''?'' @ q"

lemma scan_authority_url:
  assumes "plain us" "plain pw" "plain h" "pt < 2 ^ 32"
  shows "scan_authority (us @ '':'' @ pw @ ''@'' @ h @ '':'' @ dec_nat pt @ ''/'' @ rest) parts
    = parts\<lparr>absolute := Some rest, user := Some us, pass := Some pw, host := Some h, port := of_nat pt\<rparr>"
proof -
  note p = plain_notin [OF assms(1)] plain_notin [OF assms(2)] plain_notin [OF assms(3)] plain_notin [OF plain_dec_nat [of pt]]
  let ?hp = "us @ '':'' @ pw @ ''@'' @ h @ '':'' @ dec_nat pt"
  have 1: "strchr_split (CHR ''/'') (us @ '':'' @ pw @ ''@'' @ h @ '':'' @ dec_nat pt @ ''/'' @ rest) = Some (?hp, rest)"
    using p strchr_split_first [of "CHR ''/''" ?hp rest] by simp
  have 2: "strchr_split (CHR ''@'') ?hp = Some (us @ '':'' @ pw, h @ '':'' @ dec_nat pt)"
    using p strchr_split_first [of "CHR ''@''" "us @ '':'' @ pw" "h @ '':'' @ dec_nat pt"] by simp
  have 3: "strchr_split (CHR '':'') (us @ '':'' @ pw) = Some (us, pw)"
    using p strchr_split_first [of "CHR '':''" us pw] by simp
  have 4: "strchr_split (CHR '']'') (h @ '':'' @ dec_nat pt) = None"
    using p by (intro strchr_split_none) simp
  have 5: "strchr_split (CHR '':'') (h @ '':'' @ dec_nat pt) = Some (h, dec_nat pt)"
    using p strchr_split_first [of "CHR '':''" h "dec_nat pt"] by simp
  show ?thesis unfolding scan_authority_def 1 option.case prod.case Let_def 2 3 4 5 by (simp add: atoi_dec_nat)
qed



text \<open>The fragment is cut off before the parameters are looked for, and they are looked for
  behind it: of a URL with parameters and a fragment in their standard order the parameters stay
  in the path; without a path they stay in the host.\<close>

theorem uri_query_before_fragment:
  "params (URIScan ''http://h/p?q=1#top'') = None \<and> absolute (URIScan ''http://h/p?q=1#top'') = Some ''p?q=1''
   \<and> params (URIScan ''http://h?q=1'') = None \<and> host (URIScan ''http://h?q=1'') = Some ''h?q=1''"
  by (simp add: URIScan_def cstr_def split_scheme_def scan_authority_def scan_tail_def URI_empty_def upper_def Let_def char_of_def)

end
