(* ===== verification/WsRequest.thy ===== *)
theory WsRequest
  imports WsStatic Uri "HOL-Library.Char_ord" "HOL-Library.List_Lexorder"
begin

text \<open>
  The HTTP requests of \<open>private/wsrequest.h\<close> and \<open>private/wsrequest.cpp\<close>: what a request holds,
  the three ways to make one, the setters, and the writing of the message to a sink.

  A sink is a pair of functions on a state, the two virtual functions of
  \<open>WSRequestStreamSink\<close>. The header map is the list of its entries in the order of the keys,
  which is the order a \<open>std::map\<close> is iterated in. What the build decides (whether zlib is
  there, and the version) is a record.
\<close>

section \<open>The request\<close>

record http_build =
  HAVE_ZLIB :: bool
  LIBVERSION :: string

definition LIBTAG :: string where "LIBTAG = ''CPPMyth''"
definition REQUEST_PROTOCOL :: string where "REQUEST_PROTOCOL = ''HTTP/1.1''"
definition REQUEST_CONNECTION :: string where "REQUEST_CONNECTION = ''close''"
definition REQUEST_STD_CHARSET :: string where "REQUEST_STD_CHARSET = ''utf-8''"
definition REQUEST_TIMEOUT :: int where "REQUEST_TIMEOUT = 60000"

definition REQUEST_USER_AGENT :: "http_build \<Rightarrow> string" where
  "REQUEST_USER_AGENT b = LIBTAG @ ''/'' @ LIBVERSION b"

definition WS_CRLF :: string where "WS_CRLF = [CHR 0x0D, CHR 0x0A]"

text \<open>A header is its name and its value; the key of the map is the name in upper case.\<close>

type_synonym header_t = "string \<times> string"
type_synonym headers = "(string \<times> header_t) list"

record wsrequest =
  rq_server :: string
  rq_port :: u32
  rq_timeout :: int
  rq_secure_uri :: bool
  rq_service_url :: string
  rq_service_method :: WS_METHOD
  rq_charset :: string
  rq_accept :: string
  rq_contentType :: WS_CTYPE
  rq_contentTypeStr :: string
  rq_contentData :: string
  rq_headers :: headers
  rq_userAgent :: string

section \<open>Header map\<close>

text \<open>\<open>std::map::operator[]\<close> followed by an assignment, \<open>find\<close>, and \<open>erase\<close>.\<close>

fun map_set :: "string \<Rightarrow> 'v \<Rightarrow> (string \<times> 'v) list \<Rightarrow> (string \<times> 'v) list" where
  "map_set k v [] = [(k, v)]"
| "map_set k v ((k', v') # m) =
     (if k = k' then (k, v) # m
      else if k < k' then (k, v) # (k', v') # m
      else (k', v') # map_set k v m)"

definition map_erase :: "string \<Rightarrow> (string \<times> 'v) list \<Rightarrow> (string \<times> 'v) list" where
  "map_erase k m = filter (\<lambda>(k', v). k' \<noteq> k) m"

definition SetHeader :: "string \<Rightarrow> string \<Rightarrow> wsrequest \<Rightarrow> wsrequest" where
  "SetHeader fld val r = r\<lparr>rq_headers := map_set (map upper fld) (fld, val) (rq_headers r)\<rparr>"

definition ClearHeader :: "string \<Rightarrow> wsrequest \<Rightarrow> wsrequest" where
  "ClearHeader fld r = r\<lparr>rq_headers := map_erase (map upper fld) (rq_headers r)\<rparr>"

text \<open>The name of a header as it is written.\<close>

definition header_name :: "WS_HEADER \<Rightarrow> string" where
  "header_name h = the (ws_header_to_str h)"

definition RequestAcceptEncoding :: "http_build \<Rightarrow> bool \<Rightarrow> wsrequest \<Rightarrow> wsrequest" where
  "RequestAcceptEncoding b yesno r =
     (if HAVE_ZLIB b
      then (if yesno
            then SetHeader (header_name WS_HEADER_Accept_Encoding) ''gzip, deflate'' r
            else SetHeader (header_name WS_HEADER_Accept_Encoding) '''' r)
      else SetHeader (header_name WS_HEADER_Accept_Encoding) '''' r)"

section \<open>Constructors\<close>

definition request_init :: wsrequest where
  "request_init =
     \<lparr>rq_server = '''', rq_port = 0, rq_timeout = REQUEST_TIMEOUT, rq_secure_uri = False,
      rq_service_url = '''', rq_service_method = WS_METHOD_Get, rq_charset = REQUEST_STD_CHARSET,
      rq_accept = '''', rq_contentType = WS_CTYPE_Form, rq_contentTypeStr = '''',
      rq_contentData = '''', rq_headers = [], rq_userAgent = ''''\<rparr>"

definition WSRequest_server :: "http_build \<Rightarrow> string \<Rightarrow> u32 \<Rightarrow> wsrequest" where
  "WSRequest_server b server prt =
     RequestAcceptEncoding b True
       (request_init\<lparr>rq_server := server, rq_port := prt,
                     rq_secure_uri := (if prt = 443 then True else False)\<rparr>)"

definition WSRequest_secure :: "http_build \<Rightarrow> string \<Rightarrow> u32 \<Rightarrow> bool \<Rightarrow> wsrequest" where
  "WSRequest_secure b server prt secureURI =
     RequestAcceptEncoding b True
       (request_init\<lparr>rq_server := server, rq_port := prt, rq_secure_uri := secureURI\<rparr>)"

text \<open>The path of a URI (\<open>URIParser::Path\<close>), and the test of its scheme.\<close>

definition Path :: "URI_t \<Rightarrow> string option" where
  "Path u = (case relative u of Some p \<Rightarrow> Some p | None \<Rightarrow> absolute u)"

definition https :: "URI_t \<Rightarrow> bool" where
  "https u = (case scheme u of None \<Rightarrow> False | Some s \<Rightarrow> take 5 s = ''https'')"

definition WSRequest_uri :: "http_build \<Rightarrow> URI_t \<Rightarrow> WS_METHOD \<Rightarrow> wsrequest" where
  "WSRequest_uri b uri meth =
     (let r0 = request_init\<lparr>rq_service_method := meth\<rparr>;
          r1 = (case host uri of Some h \<Rightarrow> r0\<lparr>rq_server := h\<rparr> | None \<Rightarrow> r0);
          r2 = (if https uri
                then r1\<lparr>rq_secure_uri := True, rq_port := (if port uri \<noteq> 0 then port uri else 443)\<rparr>
                else r1\<lparr>rq_port := (if port uri \<noteq> 0 then port uri else 80)\<rparr>);
          u0 = ''/'';
          u1 = (case Path uri of Some p \<Rightarrow> u0 @ p | None \<Rightarrow> u0);
          u2 = (case fragment uri of Some f \<Rightarrow> u1 @ ''#'' @ f | None \<Rightarrow> u1);
          r3 = r2\<lparr>rq_service_url := u2\<rparr>;
          r4 = (case params uri of
                  Some q \<Rightarrow> r3\<lparr>rq_contentData := rq_contentData r3 @ q\<rparr> | None \<Rightarrow> r3)
      in RequestAcceptEncoding b True r4)"

text \<open>The clone for a redirection.\<close>

definition WSRequest_redirect :: "wsrequest \<Rightarrow> URI_t \<Rightarrow> wsrequest" where
  "WSRequest_redirect q redirection =
     (let r1 = (case host redirection of Some h \<Rightarrow> q\<lparr>rq_server := h\<rparr> | None \<Rightarrow> q);
          r2 = (case scheme redirection of
                  None \<Rightarrow> r1
                | Some s \<Rightarrow>
                    (if take 5 s = ''https''
                     then r1\<lparr>rq_secure_uri := True,
                             rq_port := (if port redirection \<noteq> 0 then port redirection else 443)\<rparr>
                     else r1\<lparr>rq_secure_uri := False,
                             rq_port := (if port redirection \<noteq> 0 then port redirection else 80)\<rparr>));
          o_uri = URIScan (rq_service_url q);
          u0 = ''/'';
          u1 = (case Path redirection of Some p \<Rightarrow> u0 @ p | None \<Rightarrow> u0);
          u2 = (case fragment redirection of
                  Some f \<Rightarrow> u1 @ ''#'' @ f
                | None \<Rightarrow> (case fragment o_uri of Some f \<Rightarrow> u1 @ ''#'' @ f | None \<Rightarrow> u1))
      in r2\<lparr>rq_service_url := u2\<rparr>)"

section \<open>Setters\<close>

definition RequestService :: "string \<Rightarrow> WS_METHOD \<Rightarrow> wsrequest \<Rightarrow> wsrequest" where
  "RequestService service meth r = r\<lparr>rq_service_url := service, rq_service_method := meth\<rparr>"

definition RequestAccept :: "string \<Rightarrow> wsrequest \<Rightarrow> wsrequest" where
  "RequestAccept contentType r = r\<lparr>rq_accept := contentType\<rparr>"

definition SetUserAgent :: "string \<Rightarrow> wsrequest \<Rightarrow> wsrequest" where
  "SetUserAgent val r = r\<lparr>rq_userAgent := val\<rparr>"

definition SetTimeout :: "int \<Rightarrow> wsrequest \<Rightarrow> wsrequest" where
  "SetTimeout timeout_ms r = r\<lparr>rq_timeout := timeout_ms\<rparr>"

definition SetContentParam :: "string \<Rightarrow> string \<Rightarrow> wsrequest \<Rightarrow> wsrequest" where
  "SetContentParam param val r =
     (if rq_contentType r \<noteq> WS_CTYPE_Form then r
      else let d = (if rq_contentData r \<noteq> [] then rq_contentData r @ ''&'' else rq_contentData r)
           in r\<lparr>rq_contentData := d @ param @ ''='' @ urlencode val\<rparr>)"

definition SetContentCustom :: "string \<Rightarrow> string \<Rightarrow> wsrequest \<Rightarrow> wsrequest" where
  "SetContentCustom contentType content r =
     r\<lparr>rq_contentType := WS_CTYPE_UNKNOWN, rq_contentTypeStr := contentType,
       rq_contentData := content\<rparr>"

definition ClearContent :: "wsrequest \<Rightarrow> wsrequest" where
  "ClearContent r = r\<lparr>rq_contentData := '''', rq_contentType := WS_CTYPE_Form, rq_contentTypeStr := ''''\<rparr>"

section \<open>Writing the message\<close>

text \<open>A write that fails ends the operation.\<close>

definition and_then :: "bool \<times> 's \<Rightarrow> ('s \<Rightarrow> bool \<times> 's) \<Rightarrow> bool \<times> 's" where
  "and_then x f = (case x of (ok, s) \<Rightarrow> if ok then f s else (False, s))"

text \<open>The text of the first write: the headers that every request has.\<close>

definition common_heading :: "http_build \<Rightarrow> wsrequest \<Rightarrow> string" where
  "common_heading b r =
     header_name WS_HEADER_Host @ '': ''
     @ (if CHR '':'' \<notin> set (rq_server r) then rq_server r else ''['' @ rq_server r @ '']'')
     @ '':'' @ uint_to_strdec (rq_port r) 12 False @ WS_CRLF
     @ (if rq_userAgent r = []
        then header_name WS_HEADER_User_Agent @ '': '' @ REQUEST_USER_AGENT b @ WS_CRLF
        else header_name WS_HEADER_User_Agent @ '': '' @ rq_userAgent r @ WS_CRLF)
     @ header_name WS_HEADER_Connection @ '': '' @ REQUEST_CONNECTION @ WS_CRLF
     @ (if rq_accept r \<noteq> []
        then header_name WS_HEADER_Accept @ '': '' @ rq_accept r @ WS_CRLF else [])
     @ header_name WS_HEADER_Accept_Charset @ '': '' @ rq_charset r @ WS_CRLF"

fun write_headers :: "(bytes \<Rightarrow> 's \<Rightarrow> bool \<times> 's) \<Rightarrow> headers \<Rightarrow> 's \<Rightarrow> bool \<times> 's" where
  "write_headers wr [] s = (True, s)"
| "write_headers wr ((k, (n, v)) # hs) s =
     and_then (wr (n @ '': '' @ v @ WS_CRLF) s) (write_headers wr hs)"

definition WriteCommonHeading ::
    "http_build \<Rightarrow> (bytes \<Rightarrow> 's \<Rightarrow> bool \<times> 's) \<Rightarrow> wsrequest \<Rightarrow> 's \<Rightarrow> bool \<times> 's" where
  "WriteCommonHeading b wr r s =
     and_then (wr (common_heading b r) s) (write_headers wr (rq_headers r))"

definition WriteMessageGET ::
    "http_build \<Rightarrow> (bytes \<Rightarrow> 's \<Rightarrow> bool \<times> 's) \<Rightarrow> ('s \<Rightarrow> bool \<times> 's) \<Rightarrow> string \<Rightarrow> wsrequest \<Rightarrow> 's
     \<Rightarrow> bool \<times> 's" where
  "WriteMessageGET b wr fl meth r s =
     and_then (wr (meth @ '' '' @ rq_service_url r
                   @ (if rq_contentData r \<noteq> [] \<and> rq_contentType r = WS_CTYPE_Form
                      then ''?'' @ rq_contentData r else [])
                   @ '' '' @ REQUEST_PROTOCOL @ WS_CRLF) s)
       (\<lambda>s. and_then (WriteCommonHeading b wr r s)
       (\<lambda>s. and_then (wr WS_CRLF s) fl))"

definition content_heading :: "wsrequest \<Rightarrow> string" where
  "content_heading r =
     (if rq_contentType r = WS_CTYPE_UNKNOWN
      then header_name WS_HEADER_Content_Type @ '': '' @ rq_contentTypeStr r
      else header_name WS_HEADER_Content_Type @ '': '' @ the (ws_ctype_to_str (rq_contentType r)))
     @ ''; charset='' @ REQUEST_STD_CHARSET @ WS_CRLF
     @ header_name WS_HEADER_Content_Length @ '': ''
     @ uint_to_strdec (of_nat (length (rq_contentData r)) :: u32) 12 False @ WS_CRLF
     @ WS_CRLF"

definition WriteMessagePOST ::
    "http_build \<Rightarrow> (bytes \<Rightarrow> 's \<Rightarrow> bool \<times> 's) \<Rightarrow> ('s \<Rightarrow> bool \<times> 's) \<Rightarrow> string \<Rightarrow> wsrequest \<Rightarrow> 's
     \<Rightarrow> bool \<times> 's" where
  "WriteMessagePOST b wr fl meth r s =
     and_then (wr (meth @ '' '' @ rq_service_url r @ '' '' @ REQUEST_PROTOCOL @ WS_CRLF) s)
       (\<lambda>s. and_then (WriteCommonHeading b wr r s)
       (\<lambda>s. and_then
          (if rq_contentData r \<noteq> [] \<and> rq_contentType r \<noteq> WS_CTYPE_None
           then and_then (wr (content_heading r) s) (wr (rq_contentData r))
           else wr WS_CRLF s)
          fl))"

definition WriteMessage ::
    "http_build \<Rightarrow> (bytes \<Rightarrow> 's \<Rightarrow> bool \<times> 's) \<Rightarrow> ('s \<Rightarrow> bool \<times> 's) \<Rightarrow> wsrequest \<Rightarrow> 's
     \<Rightarrow> bool \<times> 's" where
  "WriteMessage b wr fl r s =
     (case rq_service_method r of
        WS_METHOD_Get \<Rightarrow> WriteMessageGET b wr fl ''GET'' r s
      | WS_METHOD_Post \<Rightarrow> WriteMessagePOST b wr fl ''POST'' r s
      | WS_METHOD_Head \<Rightarrow> WriteMessageGET b wr fl ''HEAD'' r s
      | WS_METHOD_Subscribe \<Rightarrow> WriteMessageGET b wr fl ''SUBSCRIBE'' r s
      | WS_METHOD_Unsubscribe \<Rightarrow> WriteMessageGET b wr fl ''UNSUBSCRIBE'' r s
      | WS_METHOD_Notify \<Rightarrow> WriteMessagePOST b wr fl ''NOTIFY'' r s
      | WS_METHOD_Put \<Rightarrow> WriteMessagePOST b wr fl ''PUT'' r s
      | WS_METHOD_Delete \<Rightarrow> WriteMessageGET b wr fl ''DELETE'' r s
      | WS_METHOD_Options \<Rightarrow> WriteMessageGET b wr fl ''OPTIONS'' r s
      | _ \<Rightarrow> (False, s))"

section \<open>The header map\<close>

text \<open>The entries are in the strict order of their keys, and a key is the name in upper case.\<close>

definition headers_ok :: "headers \<Rightarrow> bool" where
  "headers_ok m \<longleftrightarrow> sorted_wrt (<) (map fst m) \<and> list_all (\<lambda>(k, n, v). k = map upper n) m"

lemma map_set_keys: "fst ` set (map_set k v m) = insert k (fst ` set m)"
  by (induction k v m rule: map_set.induct) auto

lemma map_set_sorted: "sorted_wrt (<) (map fst m) \<Longrightarrow> sorted_wrt (<) (map fst (map_set k v m))"
proof (induction m)
  case (Cons e m)
  obtain k' v' where e: "e = (k', v')" by (cases e)
  have "\<forall>x \<in> fst ` set (map_set k v m). k' < x" if "k' < k"
    using Cons.prems that by (simp only: map_set_keys) (auto simp: e)
  with Cons show ?case by (force simp: e)
qed simp

lemma map_of_map_set: "sorted_wrt (<) (map fst m) \<Longrightarrow> map_of (map_set k v m) = (map_of m)(k \<mapsto> v)"
  by (induction m) (auto simp: fun_eq_iff)

lemma map_of_map_erase: "map_of (map_erase k m) = (map_of m)(k := None)"
  unfolding map_erase_def by (induction m) (auto simp: fun_eq_iff)

lemma map_set_set: "set (map_set k v m) \<subseteq> insert (k, v) (set m)"
  by (induction k v m rule: map_set.induct) auto

lemma headers_ok_set: "headers_ok m \<Longrightarrow> headers_ok (map_set (map upper n) (n, v) m)"
  using map_set_set [of "map upper n" "(n, v)" m]
  by (auto simp: headers_ok_def map_set_sorted list_all_iff)

lemma headers_ok_one: "headers_ok [(map upper n, n, v)]"
  by (simp add: headers_ok_def)

lemma headers_ok_erase: "headers_ok m \<Longrightarrow> headers_ok (map_erase k m)"
  by (auto simp: headers_ok_def map_erase_def list_all_iff sorted_wrt_map sorted_wrt_filter)

text \<open>The requests the client can make: the constructors, the clone and the setters.\<close>

inductive built :: "http_build \<Rightarrow> wsrequest \<Rightarrow> bool" for b where
  of_server: "built b (WSRequest_server b srv prt)"
| of_secure: "built b (WSRequest_secure b srv prt sec)"
| of_uri: "built b (WSRequest_uri b u meth)"
| of_redirect: "built b r \<Longrightarrow> built b (WSRequest_redirect r u)"
| of_service: "built b r \<Longrightarrow> built b (RequestService svc meth r)"
| of_accept: "built b r \<Longrightarrow> built b (RequestAccept ct r)"
| of_encoding: "built b r \<Longrightarrow> built b (RequestAcceptEncoding b yn r)"
| of_agent: "built b r \<Longrightarrow> built b (SetUserAgent val r)"
| of_timeout: "built b r \<Longrightarrow> built b (SetTimeout ms r)"
| of_header: "built b r \<Longrightarrow> built b (SetHeader fld val r)"
| of_clear: "built b r \<Longrightarrow> built b (ClearHeader fld r)"
| of_param: "built b r \<Longrightarrow> built b (SetContentParam param val r)"
| of_custom: "built b r \<Longrightarrow> built b (SetContentCustom ct content r)"
| of_clear_content: "built b r \<Longrightarrow> built b (ClearContent r)"

lemma RequestAcceptEncoding_headers:
  "rq_headers (RequestAcceptEncoding b yn r)
    = map_set (map upper (header_name WS_HEADER_Accept_Encoding))
        (header_name WS_HEADER_Accept_Encoding, if HAVE_ZLIB b \<and> yn then ''gzip, deflate'' else '''')
        (rq_headers r)"
  by (simp add: RequestAcceptEncoding_def SetHeader_def)

lemma built_headers: "built b r \<Longrightarrow> headers_ok (rq_headers r)"
proof (induction rule: built.induct)
  case (of_uri u meth)
  show ?case unfolding WSRequest_uri_def Let_def RequestAcceptEncoding_headers
    by (rule headers_ok_set) (simp add: request_init_def headers_ok_def split: option.split)
next
  case (of_redirect r u)
  have "rq_headers (WSRequest_redirect r u) = rq_headers r"
    by (simp add: WSRequest_redirect_def Let_def split: option.split)
  with of_redirect show ?case by simp
qed (simp_all add: WSRequest_server_def WSRequest_secure_def RequestAcceptEncoding_headers
      headers_ok_set headers_ok_erase request_init_def headers_ok_one RequestService_def RequestAccept_def
      SetUserAgent_def SetTimeout_def SetHeader_def ClearHeader_def SetContentParam_def
      SetContentCustom_def ClearContent_def Let_def)

text \<open>C29: In every request the client can make each header name occurs once, whatever the case
  it was set in: setting a header replaces the one of that name and leaves the others alone,
  clearing one removes it and nothing else, and what was set is what is written.\<close>

theorem request_headers_unique:
  assumes "built b r"
  shows "distinct (map (\<lambda>(k, n, v). map upper n) (rq_headers r))
    \<and> map_of (rq_headers (SetHeader fld val r)) = (map_of (rq_headers r))(map upper fld \<mapsto> (fld, val))
    \<and> map_of (rq_headers (ClearHeader fld r)) = (map_of (rq_headers r))(map upper fld := None)
    \<and> (fld, val) \<in> set (map snd (rq_headers (SetHeader fld val r)))"
proof -
  have ok: "headers_ok (rq_headers r)" using assms by (rule built_headers)
  then have s: "sorted_wrt (<) (map fst (rq_headers r))" by (simp add: headers_ok_def)
  have "map (\<lambda>(k, n, v). map upper n) (rq_headers r) = map fst (rq_headers r)"
    using ok by (auto simp: headers_ok_def list_all_iff)
  moreover have "distinct (map fst (rq_headers r))" using s by (simp only: strict_sorted_iff)
  ultimately have "distinct (map (\<lambda>(k, n, v). map upper n) (rq_headers r))" by (simp only:)
  moreover have m: "map_of (rq_headers (SetHeader fld val r)) = (map_of (rq_headers r))(map upper fld \<mapsto> (fld, val))"
    by (simp add: SetHeader_def map_of_map_set [OF s])
  moreover have "(fld, val) \<in> set (map snd (rq_headers (SetHeader fld val r)))"
  proof -
    from m have "map_of (rq_headers (SetHeader fld val r)) (map upper fld) = Some (fld, val)" by simp
    then show ?thesis by (force dest: map_of_SomeD)
  qed
  ultimately show ?thesis by (simp add: ClearHeader_def map_of_map_erase)
qed

theorem request_headers_unique_witness:
  "map_of (rq_headers (SetHeader ''authorization'' ''t'' (WSRequest_server \<lparr>HAVE_ZLIB = True, LIBVERSION = ''2''\<rparr> ''h'' 80)))
     ''AUTHORIZATION'' = Some (''authorization'', ''t'')"
proof -
  have "map upper ''authorization'' = ''AUTHORIZATION''" by code_simp
  with request_headers_unique [OF of_server, of "\<lparr>HAVE_ZLIB = True, LIBVERSION = ''2''\<rparr>"
      "''h''" 80 "''authorization''" "''t''"] show ?thesis by simp
qed

section \<open>Form parameters\<close>

text \<open>The server's reading of a form: the pairs between ampersands, names before the first equals
  sign, values decoded.\<close>

fun split_char :: "char \<Rightarrow> string \<Rightarrow> string list" where
  "split_char c [] = [[]]"
| "split_char c (x # xs) =
     (if x = c then [] # split_char c xs
      else case split_char c xs of (y # ys) \<Rightarrow> (x # y) # ys | [] \<Rightarrow> [[x]])"

definition form_pair :: "string \<Rightarrow> (string \<times> string option) option" where
  "form_pair s = map_option (\<lambda>(p, v). (p, urldecode v)) (strchr_split (CHR ''='') s)"

definition form_pairs :: "string \<Rightarrow> (string \<times> string option) option list" where
  "form_pairs s = (if s = [] then [] else map form_pair (split_char (CHR ''&'') s))"

lemma split_char_nonempty: "split_char c s \<noteq> []"
  by (induction s) (auto split: list.split)

lemma split_char_plain: "c \<notin> set a \<Longrightarrow> split_char c a = [a]"
  by (induction a) auto

lemma split_char_append: "c \<notin> set b \<Longrightarrow> split_char c (a @ c # b) = split_char c a @ [b]"
  by (induction a) (auto simp: split_char_plain split_char_nonempty split: list.split)

lemma urlencode_plain: "CHR ''&'' \<notin> set (urlencode s)"
  using encode_chars [of uri_uchar_table "cstr s"]
  by (auto simp: urlencode_def in_table_def uri_uchar_table_def uhex_digits_def)

abbreviation set_params :: "(string \<times> string) list \<Rightarrow> wsrequest \<Rightarrow> wsrequest" where
  "set_params ps r \<equiv> fold (\<lambda>(p, v). SetContentParam p v) ps r"

lemma set_params_form:
  assumes "list_all (\<lambda>(p, v). CHR ''&'' \<notin> set p \<and> CHR ''='' \<notin> set p) ps"
    "rq_contentType r = WS_CTYPE_Form"
  shows "form_pairs (rq_contentData (set_params ps r))
    = form_pairs (rq_contentData r) @ map (\<lambda>(p, v). Some (p, Some (cstr v))) ps"
  using assms
proof (induction ps arbitrary: r)
  case (Cons e ps)
  obtain p v where e: "e = (p, v)" by (cases e)
  let ?d = "rq_contentData r"
  let ?x = "p @ ''='' @ urlencode v"
  have amp: "CHR ''&'' \<notin> set ?x" using Cons.prems(1) urlencode_plain by (simp add: e)
  have pair: "form_pair ?x = Some (p, Some (cstr v))"
    using Cons.prems(1) strchr_split_first [of "CHR ''=''" p "urlencode v"]
    by (simp add: e form_pair_def urldecode_urlencode)
  have data: "rq_contentData (SetContentParam p v r) = (if ?d \<noteq> [] then ?d @ ''&'' else ?d) @ ?x"
    using Cons.prems(2) by (simp add: SetContentParam_def Let_def)
  have "form_pairs (rq_contentData (SetContentParam p v r)) = form_pairs ?d @ [Some (p, Some (cstr v))]"
  proof (cases "?d = []")
    case True
    with data pair split_char_plain [OF amp] show ?thesis by (simp add: form_pairs_def)
  next
    case False
    with data pair split_char_append [OF amp, of ?d] show ?thesis by (simp add: form_pairs_def)
  qed
  moreover have "rq_contentType (SetContentParam p v r) = WS_CTYPE_Form"
    using Cons.prems(2) by (simp add: SetContentParam_def Let_def)
  ultimately show ?case using Cons.IH [of "SetContentParam p v r"] Cons.prems(1) by (simp add: e)
qed simp

text \<open>C28: The parameters set on a request are read back by the server in their order, names and
  values unchanged, whatever characters the values are made of (up to a NUL), for names without
  the two delimiters.\<close>

theorem form_params_roundtrip:
  assumes "list_all (\<lambda>(p, v). CHR ''&'' \<notin> set p \<and> CHR ''='' \<notin> set p) ps"
  shows "form_pairs (rq_contentData (set_params ps (ClearContent r)))
    = map (\<lambda>(p, v). Some (p, Some (cstr v))) ps"
  using set_params_form [OF assms, of "ClearContent r"] by (simp add: ClearContent_def form_pairs_def)

theorem form_params_roundtrip_witness:
  "form_pairs (rq_contentData (set_params [(''StartIndex'', ''0''), (''Title'', ''a&b = c'')] (ClearContent request_init)))
    = [Some (''StartIndex'', Some ''0''), Some (''Title'', Some ''a&b = c'')]"
  using form_params_roundtrip [of "[(''StartIndex'', ''0''), (''Title'', ''a&b = c'')]" request_init]
  by (simp add: cstr_def)

section \<open>What a request writes\<close>

text \<open>The message as lines: the request line, the headers, an empty line, the content. This does
  not mention the writes.\<close>

definition method_name :: "WS_METHOD \<Rightarrow> string" where
  "method_name m = the (ws_method_to_str m)"

definition sends_body :: "wsrequest \<Rightarrow> bool" where
  "sends_body r \<longleftrightarrow> rq_service_method r \<in> {WS_METHOD_Post, WS_METHOD_Put, WS_METHOD_Notify}"

definition request_line :: "wsrequest \<Rightarrow> string" where
  "request_line r =
     method_name (rq_service_method r) @ '' '' @ rq_service_url r
     @ (if \<not> sends_body r \<and> rq_contentType r = WS_CTYPE_Form \<and> rq_contentData r \<noteq> []
        then ''?'' @ rq_contentData r else [])
     @ '' HTTP/1.1''"

definition request_body :: "wsrequest \<Rightarrow> string" where
  "request_body r =
     (if sends_body r \<and> rq_contentType r \<noteq> WS_CTYPE_None then rq_contentData r else [])"

definition header_lines :: "http_build \<Rightarrow> wsrequest \<Rightarrow> (string \<times> string) list" where
  "header_lines b r =
     [(''Host'', (if CHR '':'' \<in> set (rq_server r) then ''['' @ rq_server r @ '']'' else rq_server r)
                 @ '':'' @ dec_nat (unat (rq_port r))),
      (''User-Agent'', if rq_userAgent r = [] then ''CPPMyth/'' @ LIBVERSION b else rq_userAgent r),
      (''Connection'', ''close'')]
     @ (if rq_accept r = [] then [] else [(''Accept'', rq_accept r)])
     @ [(''Accept-Charset'', rq_charset r)]
     @ map snd (rq_headers r)
     @ (if request_body r = [] then []
        else [(''Content-Type'',
                 (if rq_contentType r = WS_CTYPE_UNKNOWN then rq_contentTypeStr r
                  else the (ws_ctype_to_str (rq_contentType r))) @ ''; charset=utf-8''),
              (''Content-Length'', dec_nat (length (request_body r)))])"

definition request_text :: "http_build \<Rightarrow> wsrequest \<Rightarrow> string" where
  "request_text b r =
     concat (map (\<lambda>l. l @ WS_CRLF)
       ([request_line r] @ map (\<lambda>(n, v). n @ '': '' @ v) (header_lines b r) @ [[]]))
     @ request_body r"

text \<open>The methods that the client can send: not \<open>PATCH\<close>.\<close>

definition can_send :: "wsrequest \<Rightarrow> bool" where
  "can_send r \<longleftrightarrow> rq_service_method r \<notin> {WS_METHOD_Patch, WS_METHOD_UNKNOWN}"

section \<open>The contract of a sink\<close>

text \<open>A sink that is ready accepts every write at the end of what it holds, and once something
  was written its flush sends everything.\<close>

locale request_sink =
  fixes ready :: "'s \<Rightarrow> bool"
    and written :: "'s \<Rightarrow> bytes"
    and started :: "'s \<Rightarrow> bool"
    and wr :: "bytes \<Rightarrow> 's \<Rightarrow> bool \<times> 's"
    and fl :: "'s \<Rightarrow> bool \<times> 's"
    and sent :: "'s \<Rightarrow> bytes"
  assumes wr_accepts: "ready s \<Longrightarrow>
      \<exists>s'. wr d s = (True, s') \<and> ready s' \<and> started s' \<and> written s' = written s @ d"
    and fl_sends: "ready s \<Longrightarrow> started s \<Longrightarrow> \<exists>s'. fl s = (True, s') \<and> sent s' = written s"
begin

definition puts :: "('s \<Rightarrow> bool \<times> 's) \<Rightarrow> bytes \<Rightarrow> bool" where
  "puts f d \<longleftrightarrow> (\<forall>s. ready s \<longrightarrow>
     (\<exists>s'. f s = (True, s') \<and> ready s' \<and> (started s \<or> d \<noteq> [] \<longrightarrow> started s') \<and> written s' = written s @ d))"

lemma puts_wr: "puts (wr d) d"
  using wr_accepts by (auto simp: puts_def)

lemma puts_and_then:
  assumes "puts f d" "puts g e"
  shows "puts (\<lambda>s. and_then (f s) g) (d @ e)"
  unfolding puts_def
proof (intro allI impI)
  fix s assume s: "ready s"
  from assms(1) s obtain s1 where 1: "f s = (True, s1)" "ready s1"
    "started s \<or> d \<noteq> [] \<longrightarrow> started s1" "written s1 = written s @ d" unfolding puts_def by blast
  from assms(2) 1(2) obtain s2 where 2: "g s1 = (True, s2)" "ready s2"
    "started s1 \<or> e \<noteq> [] \<longrightarrow> started s2" "written s2 = written s1 @ e" unfolding puts_def by blast
  show "\<exists>s'. and_then (f s) g = (True, s') \<and> ready s' \<and> (started s \<or> d @ e \<noteq> [] \<longrightarrow> started s')
      \<and> written s' = written s @ d @ e"
    using 1 2 by (intro exI [of _ s2]) (auto simp: and_then_def)
qed

lemma puts_headers: "puts (write_headers wr hs) (concat (map (\<lambda>(k, n, v). n @ '': '' @ v @ WS_CRLF) hs))"
proof (induction hs)
  case Nil
  show ?case by (auto simp: puts_def)
next
  case (Cons h hs)
  obtain k n v where h: "h = (k, n, v)" by (cases h)
  have "write_headers wr (h # hs) = (\<lambda>s. and_then (wr (n @ '': '' @ v @ WS_CRLF) s) (write_headers wr hs))"
    by (simp add: h fun_eq_iff)
  with puts_and_then [OF puts_wr [of "n @ '': '' @ v @ WS_CRLF"] Cons.IH] show ?case by (simp add: h)
qed

lemma puts_common:
  "puts (WriteCommonHeading b wr r)
     (common_heading b r @ concat (map (\<lambda>(k, n, v). n @ '': '' @ v @ WS_CRLF) (rq_headers r)))"
  unfolding WriteCommonHeading_def using puts_and_then [OF puts_wr puts_headers] .

text \<open>A flush at the end of non-empty writes sends them.\<close>

lemma puts_flush:
  assumes "puts f d" "d \<noteq> []" "ready s" "written s = []"
  shows "\<exists>s'. and_then (f s) fl = (True, s') \<and> sent s' = d"
proof -
  from assms obtain s1 where 1: "f s = (True, s1)" "ready s1" "started s1" "written s1 = d"
    unfolding puts_def by force
  from fl_sends [OF 1(2,3)] 1(4) obtain s2 where "fl s1 = (True, s2)" "sent s2 = d" by auto
  with 1(1) show ?thesis by (auto simp: and_then_def)
qed

end

lemma and_then_assoc: "and_then (and_then x f) g = and_then x (\<lambda>s. and_then (f s) g)"
  by (simp add: and_then_def split: prod.splits)

lemma port_text: "uint_to_strdec (p :: u32) 12 False = dec_nat (unat p)"
proof -
  have "unat p < 2 ^ 32" using unat_below [of p] by simp
  then have "unat p < 10 ^ 12" by (rule less_le_trans) simp
  then have "length (dec_nat (unat p)) \<le> 12" by (rule dec_nat_length) simp
  then show ?thesis by (simp add: uint_to_strdec_pad Let_def)
qed

lemma header_names:
  "header_name WS_HEADER_Host = ''Host''" "header_name WS_HEADER_User_Agent = ''User-Agent''"
  "header_name WS_HEADER_Connection = ''Connection''" "header_name WS_HEADER_Accept = ''Accept''"
  "header_name WS_HEADER_Accept_Charset = ''Accept-Charset''"
  "header_name WS_HEADER_Content_Type = ''Content-Type''"
  "header_name WS_HEADER_Content_Length = ''Content-Length''"
  by (simp_all add: header_name_def ws_header_to_str_def row_text_def ws_header_table_def ws_header_enum_def)

lemma method_names:
  "method_name WS_METHOD_Get = ''GET''" "method_name WS_METHOD_Post = ''POST''"
  "method_name WS_METHOD_Head = ''HEAD''" "method_name WS_METHOD_Options = ''OPTIONS''"
  "method_name WS_METHOD_Subscribe = ''SUBSCRIBE''" "method_name WS_METHOD_Unsubscribe = ''UNSUBSCRIBE''"
  "method_name WS_METHOD_Notify = ''NOTIFY''" "method_name WS_METHOD_Put = ''PUT''"
  "method_name WS_METHOD_Delete = ''DELETE''"
  by (simp_all add: method_name_def ws_method_to_str_def row_text_def ws_method_table_def ws_method_enum_def)

lemma common_heading_lines:
  "common_heading b r = concat (map (\<lambda>(n, v). n @ '': '' @ v @ WS_CRLF)
     ([(''Host'', (if CHR '':'' \<in> set (rq_server r) then ''['' @ rq_server r @ '']'' else rq_server r)
                 @ '':'' @ dec_nat (unat (rq_port r))),
      (''User-Agent'', if rq_userAgent r = [] then ''CPPMyth/'' @ LIBVERSION b else rq_userAgent r),
      (''Connection'', ''close'')]
     @ (if rq_accept r = [] then [] else [(''Accept'', rq_accept r)])
     @ [(''Accept-Charset'', rq_charset r)]))"
  by (simp add: common_heading_def header_names port_text REQUEST_USER_AGENT_def LIBTAG_def
      REQUEST_CONNECTION_def)

abbreviation lines_of :: "(string \<times> string) list \<Rightarrow> string" where
  "lines_of hs \<equiv> concat (map (\<lambda>(n, v). n @ '': '' @ v @ WS_CRLF) hs)"

lemma header_line_snd:
  "(\<lambda>(n, v). n @ '': '' @ v @ WS_CRLF) \<circ> snd = (\<lambda>(k, n, v). n @ '': '' @ v @ WS_CRLF)"
  by (auto simp: fun_eq_iff)

lemma request_text_lines:
  "request_text b r = request_line r @ WS_CRLF @ lines_of (header_lines b r) @ WS_CRLF @ request_body r"
proof -
  have "concat (map (\<lambda>l. l @ WS_CRLF) (map (\<lambda>(n, v). n @ '': '' @ v) hs)) = lines_of hs" for hs
    by (induction hs) auto
  then show ?thesis by (simp add: request_text_def del: map_map)
qed

lemma content_heading_lines:
  assumes "length (rq_contentData r) < 2 ^ 32"
  shows "content_heading r = lines_of
     [(''Content-Type'',
        (if rq_contentType r = WS_CTYPE_UNKNOWN then rq_contentTypeStr r
         else the (ws_ctype_to_str (rq_contentType r))) @ ''; charset=utf-8''),
      (''Content-Length'', dec_nat (length (rq_contentData r)))] @ WS_CRLF"
proof -
  have "unat (of_nat (length (rq_contentData r)) :: u32) = length (rq_contentData r)"
    using assms by (intro unat_of_nat_small) simp
  then show ?thesis by (simp add: content_heading_def header_names port_text REQUEST_STD_CHARSET_def)
qed

context request_sink
begin

lemma get_sends:
  assumes "ready s" "written s = []" "\<not> sends_body r"
  shows "\<exists>s'. WriteMessageGET b wr fl (method_name (rq_service_method r)) r s = (True, s')
    \<and> sent s' = request_text b r"
proof -
  let ?l = "request_line r @ WS_CRLF"
  let ?f = "\<lambda>s. and_then (wr ?l s) (\<lambda>s. and_then (WriteCommonHeading b wr r s) (wr WS_CRLF))"
  have "puts ?f (?l @ (common_heading b r @ concat (map (\<lambda>(k, n, v). n @ '': '' @ v @ WS_CRLF) (rq_headers r))) @ WS_CRLF)"
    by (intro puts_and_then puts_wr puts_common)
  moreover have "?l @ (common_heading b r @ concat (map (\<lambda>(k, n, v). n @ '': '' @ v @ WS_CRLF) (rq_headers r))) @ WS_CRLF
      = request_text b r"
    using assms(3)
    by (simp add: request_text_lines common_heading_lines header_line_snd [simplified] header_lines_def request_body_def)
  ultimately have p: "puts ?f (request_text b r)" by simp
  have "request_text b r \<noteq> []" by (simp add: request_text_lines WS_CRLF_def)
  from puts_flush [OF p this assms(1,2)] show ?thesis
    using assms(3)
    by (simp add: WriteMessageGET_def request_line_def REQUEST_PROTOCOL_def and_then_assoc conj_commute)
qed

lemma post_sends:
  assumes "ready s" "written s = []" "sends_body r" "length (rq_contentData r) < 2 ^ 32"
  shows "\<exists>s'. WriteMessagePOST b wr fl (method_name (rq_service_method r)) r s = (True, s')
    \<and> sent s' = request_text b r"
proof -
  let ?l = "request_line r @ WS_CRLF"
  let ?c = "rq_contentData r \<noteq> [] \<and> rq_contentType r \<noteq> WS_CTYPE_None"
  let ?g = "\<lambda>s. if ?c then and_then (wr (content_heading r) s) (wr (rq_contentData r)) else wr WS_CRLF s"
  let ?f = "\<lambda>s. and_then (wr ?l s) (\<lambda>s. and_then (WriteCommonHeading b wr r s) ?g)"
  let ?e = "if ?c then content_heading r @ rq_contentData r else WS_CRLF"
  let ?h = "common_heading b r @ concat (map (\<lambda>(k, n, v). n @ '': '' @ v @ WS_CRLF) (rq_headers r))"
  have "puts ?g ?e"
    using puts_and_then [OF puts_wr puts_wr, of "content_heading r" "rq_contentData r"] puts_wr by simp
  then have "puts ?f (?l @ ?h @ ?e)" by (intro puts_and_then puts_wr puts_common)
  moreover have "?l @ ?h @ ?e = request_text b r"
    using assms(3)
    by (simp add: request_text_lines common_heading_lines header_line_snd [simplified] header_lines_def
        request_body_def content_heading_lines [OF assms(4)])
  ultimately have p: "puts ?f (request_text b r)" by simp
  have "request_text b r \<noteq> []" by (simp add: request_text_lines WS_CRLF_def)
  from puts_flush [OF p this assms(1,2)] show ?thesis
    using assms(3)
    by (simp add: WriteMessagePOST_def request_line_def REQUEST_PROTOCOL_def and_then_assoc)
qed

text \<open>Every request that can be sent is sent as its text.\<close>

lemma message_sends:
  assumes "ready s" "written s = []" "can_send r" "length (rq_contentData r) < 2 ^ 32"
  shows "\<exists>s'. WriteMessage b wr fl r s = (True, s') \<and> sent s' = request_text b r"
proof (cases "sends_body r")
  case True
  with post_sends [OF assms(1,2) True assms(4), of b] show ?thesis
    by (auto simp: WriteMessage_def sends_body_def method_names)
next
  case False
  with get_sends [OF assms(1,2) False, of b] assms(3) show ?thesis
    by (cases "rq_service_method r")
      (simp_all add: WriteMessage_def sends_body_def can_send_def method_names)
qed

end

end
