(* ===== verification/WsApi.thy ===== *)
theory WsApi
  imports WsTypes WsRequest "HOL-Library.Monad_Syntax"
begin

text \<open>
  The core of the web service client (\<open>mythwsapi.h\<close>, \<open>mythwsapi.cpp\<close>): its state, the query with the
  login when the server asks for one, the check of the services and their versions, and the
  shapes that the service operations of \<open>WsService\<close> share.

  An operation takes the state of the client and the state \<open>'w\<close> of the world and returns both
  with its result; \<open>None\<close> is an operation that does not return. The world answers requests through an
  \<open>http\<close> record, whose operations are those of the class \<open>WSResponse\<close>; \<open>WsClient\<close> takes
  the model of that class for it. Locks are not modelled: the mutex of the client is recursive and each operation
  is taken alone.
\<close>

unbundle bit_operations_syntax

section \<open>State\<close>

datatype WSServiceId_t = WS_Myth | WS_Capture | WS_Channel | WS_Guide | WS_Content | WS_Dvr | WS_INVALID

record WSServiceVersion_t =
  sv_major :: u32
  sv_minor :: u32
  sv_ranking :: u32

definition no_version :: WSServiceVersion_t where
  "no_version = \<lparr>sv_major = 0, sv_minor = 0, sv_ranking = 0\<rparr>"

definition MYTH_API_VERSION_MAX_RANKING :: u32 where
  "MYTH_API_VERSION_MAX_RANKING = 0x0005FFFF"

record wsapi =
  api_server :: string
  api_port :: u32
  api_ssl :: bool
  api_securityPin :: string
  api_authUser :: string
  api_authPassword :: string
  api_authToken :: string
  api_checked :: bool
  api_version :: Version
  api_serverHostName :: string
  api_serviceVersion :: "WSServiceId_t \<Rightarrow> WSServiceVersion_t"
  api_namedCache :: "(string \<times> string) list"

text \<open>The class \<open>WSResponse\<close> as its user sees it: a request is sent (with the limit of redirections, \<open>trustedLocation\<close>
  and \<open>followAny\<close>), the answer has a status, is successful or not, and its content is read in pieces; an
  error is \<open>None\<close> inside.\<close>

record ('r, 'w) http =
  http_send :: "wsrequest \<Rightarrow> nat \<Rightarrow> bool \<Rightarrow> bool \<Rightarrow> 'w \<Rightarrow> 'r \<times> 'w"
  http_status :: "'r \<Rightarrow> i32"
  http_successful :: "'r \<Rightarrow> bool"
  http_read :: "nat \<Rightarrow> 'r \<Rightarrow> (bytes option \<times> 'r) option"

record ('r, 'w) platform =
  pf_build :: http_build
  pf_openssl :: bool
  pf_http :: "('r, 'w) http"
  pf_fpu :: fpu
  pf_libc :: libc
  pf_zone :: zone
  pf_myhost :: string

type_synonym ('w, 'a) call = "wsapi \<Rightarrow> 'w \<Rightarrow> ('a \<times> wsapi \<times> 'w) option"

definition WithAuthorization :: "string \<Rightarrow> string \<Rightarrow> wsapi \<Rightarrow> wsapi" where
  "WithAuthorization usr pwd api = api\<lparr>api_authUser := usr, api_authPassword := pwd\<rparr>"

definition WithSSL :: "('r, 'w) platform \<Rightarrow> bool \<Rightarrow> wsapi \<Rightarrow> wsapi" where
  "WithSSL pf yesno api = (if pf_openssl pf then api\<lparr>api_ssl := yesno\<rparr> else api)"

section \<open>Documents\<close>

text \<open>\<open>JSON::Document\<close>: the content is read to its end in pieces of 4000 bytes, then parsed.\<close>

partial_function (option) read_document ::
    "('r, 'w) http \<Rightarrow> 'r \<Rightarrow> bytes \<Rightarrow> bytes option option" where
  [code]: "read_document h r content =
     (case http_read h 4000 r of
        None \<Rightarrow> None
      | Some (d, r1) \<Rightarrow>
          (case d of
             None \<Rightarrow> Some None
           | Some buf \<Rightarrow> if buf = [] then Some (Some content) else read_document h r1 (content @ buf)))"

definition parse_document :: "fpu \<Rightarrow> bytes option \<Rightarrow> json option" where
  "parse_document f content =
     (case content of
        None \<Rightarrow> None
      | Some text \<Rightarrow> if text = [] then None
                     else (case parse f text of Inl e \<Rightarrow> None | Inr j \<Rightarrow> Some j))"

definition Document :: "('r, 'w) platform \<Rightarrow> 'r \<Rightarrow> json option option" where
  "Document pf r = map_option (parse_document (pf_fpu pf)) (read_document (pf_http pf) r [])"

text \<open>The root of a valid document, when it is an object: every operation goes on with that only.\<close>

definition root_object :: "json option \<Rightarrow> json option" where
  "root_object doc = (case doc of None \<Rightarrow> None | Some root \<Rightarrow> if IsObject root then Some root else None)"

section \<open>Login and queries\<close>

definition WS_ACCEPT :: string where "WS_ACCEPT = ''application/json''"

definition content_params :: "(string \<times> string) list \<Rightarrow> wsrequest \<Rightarrow> wsrequest" where
  "content_params pars r = fold (\<lambda>(param, val). SetContentParam param val) pars r"

definition LoginUser :: "('r, 'w) platform \<Rightarrow> ('w, bool) call" where
  "LoginUser pf api w =
     (let req = SetTimeout 10000
                  (content_params [(''UserName'', api_authUser api), (''Password'', api_authPassword api)]
                    (RequestService ''/Myth/LoginUser'' WS_METHOD_Post
                      (RequestAccept WS_ACCEPT
                        (WSRequest_secure (pf_build pf) (api_server api) (api_port api) (api_ssl api)))))
      in case http_send (pf_http pf) req 1 True False w of (resp, w1) \<Rightarrow>
        if \<not> http_successful (pf_http pf) resp then Some (False, api, w1)
        else do {
          doc \<leftarrow> Document pf resp;
          case root_object doc of
            None \<Rightarrow> Some (False, api, w1)
          | Some root \<Rightarrow>
              (let val = GetObjectValue ''String'' root in
               if IsString val
               then (let tok = GetStringValue val in Some (tok \<noteq> [], api\<lparr>api_authToken := tok\<rparr>, w1))
               else Some (False, api, w1))
        })"

text \<open>\<open>WSAPI::Query\<close>: the request with a timeout of a minute, and its execution. An answer 401 leads to one login and one more
  try.\<close>

definition Query_new :: "('r, 'w) platform \<Rightarrow> wsapi \<Rightarrow> wsrequest" where
  "Query_new pf api = SetTimeout 60000 (WSRequest_secure (pf_build pf) (api_server api) (api_port api) (api_ssl api))"

definition authorize :: "wsapi \<Rightarrow> wsrequest \<Rightarrow> wsrequest" where
  "authorize api q = SetHeader (header_name WS_HEADER_Authorization) (api_authToken api) q"

definition Execute ::
    "('r, 'w) platform \<Rightarrow> nat \<Rightarrow> bool \<Rightarrow> bool \<Rightarrow> wsrequest \<Rightarrow> ('w, 'r \<times> wsrequest) call" where
  "Execute pf maxRedirs trustedLocation followAny q api w =
     (let q1 = (if api_authToken api \<noteq> [] then authorize api q else q) in
      case http_send (pf_http pf) q1 maxRedirs trustedLocation followAny w of (resp, w1) \<Rightarrow>
        if http_status (pf_http pf) resp = 401
        then do {
          (ok, api1, w2) \<leftarrow> LoginUser pf api w1;
          if ok
          then (let q2 = authorize api1 q1 in
                case http_send (pf_http pf) q2 maxRedirs trustedLocation followAny w2 of
                  (resp1, w3) \<Rightarrow> Some ((resp1, q2), api1, w3))
          else Some ((resp, q1), api1, w2)
        }
        else Some ((resp, q1), api, w1))"

text \<open>What every operation that reads JSON begins with: the query is executed (\<open>Execute()\<close>, so
  one redirection, to a trusted location, on the same host), and the root of the answer is taken when it is an object.\<close>

definition call_json :: "('r, 'w) platform \<Rightarrow> wsrequest \<Rightarrow> ('w, json option \<times> wsrequest) call" where
  "call_json pf q api w = do {
     ((resp, q1), api1, w1) \<leftarrow> Execute pf 1 True False q api w;
     if \<not> http_successful (pf_http pf) resp then Some ((None, q1), api1, w1)
     else do {
       doc \<leftarrow> Document pf resp;
       Some ((root_object doc, q1), api1, w1)
     }
   }"

definition make_query ::
    "('r, 'w) platform \<Rightarrow> string \<Rightarrow> WS_METHOD \<Rightarrow> (string \<times> string) list \<Rightarrow> wsapi \<Rightarrow> wsrequest" where
  "make_query pf svc meth pars api =
     content_params pars (RequestService svc meth (RequestAccept WS_ACCEPT (Query_new pf api)))"

text \<open>An operation of one query: the result is made of the root, or of its absence.\<close>

definition reply ::
    "('r, 'w) platform \<Rightarrow> string \<Rightarrow> WS_METHOD \<Rightarrow> (string \<times> string) list \<Rightarrow> (json option \<Rightarrow> 'a) \<Rightarrow> ('w, 'a) call" where
  "reply pf svc meth pars result api w = do {
     ((root, q), api1, w1) \<leftarrow> call_json pf (make_query pf svc meth pars api) api w;
     Some (result root, api1, w1)
   }"

section \<open>Services and their versions\<close>

text \<open>\<open>sscanf\<close> with \<open>%u\<close>: blanks, a sign, digits; the number is that of \<open>strtoul\<close>, cut to 32 bits.\<close>

definition scan_unsigned :: "string \<Rightarrow> (u32 \<times> string) option" where
  "scan_unsigned s =
     (let t = dropWhile isspace s;
          signed = (t \<noteq> [] \<and> (hd t = CHR ''-'' \<or> hd t = CHR ''+''));
          u = (if signed then tl t else t);
          ds = takeWhile isdigit u; v = dec_value ds in
      if ds = [] then None
      else Some (if v \<ge> 2 ^ 64 then - 1 else if signed \<and> hd t = CHR ''-'' then - of_nat v else of_nat v,
                 dropWhile isdigit u))"

definition scan_version :: "string \<Rightarrow> (u32 \<times> u32) option" where
  "scan_version s =
     (case scan_unsigned s of
        None \<Rightarrow> None
      | Some (major, t) \<Rightarrow>
          if t = [] \<or> hd t \<noteq> CHR ''.'' then None
          else (case scan_unsigned (tl t) of
                  None \<Rightarrow> None
                | Some (minor, r) \<Rightarrow> Some (major, minor)))"

definition WSServiceRoot :: "WSServiceId_t \<Rightarrow> string" where
  "WSServiceRoot sid =
     (case sid of
        WS_Myth \<Rightarrow> ''/Myth'' | WS_Capture \<Rightarrow> ''/Capture'' | WS_Channel \<Rightarrow> ''/Channel''
      | WS_Guide \<Rightarrow> ''/Guide'' | WS_Content \<Rightarrow> ''/Content'' | WS_Dvr \<Rightarrow> ''/Dvr'' | WS_INVALID \<Rightarrow> ''/?'')"

text \<open>The text of the field \<open>String\<close> of an answer, when it is there.\<close>

definition string_field :: "string \<Rightarrow> json option \<Rightarrow> string option" where
  "string_field name root =
     (case root of
        None \<Rightarrow> None
      | Some r \<Rightarrow> (let field = GetObjectValue name r in
                   if IsString field then Some (GetStringValue field) else None))"

definition version_of :: "json option \<Rightarrow> WSServiceVersion_t option" where
  "version_of root =
     (case string_field ''String'' root of
        None \<Rightarrow> None
      | Some val \<Rightarrow>
          (case scan_version (cstr val) of
             None \<Rightarrow> None
           | Some (major, minor) \<Rightarrow>
               Some \<lparr>sv_major = major, sv_minor = minor,
                     sv_ranking = push_bit 16 (major AND 0xFFFF) OR (minor AND 0xFFFF)\<rparr>))"

definition set_service :: "WSServiceId_t \<Rightarrow> WSServiceVersion_t \<Rightarrow> wsapi \<Rightarrow> wsapi" where
  "set_service sid wsv api = api\<lparr>api_serviceVersion := (api_serviceVersion api)(sid := wsv)\<rparr>"

definition GetServiceVersion :: "('r, 'w) platform \<Rightarrow> WSServiceId_t \<Rightarrow> ('w, bool) call" where
  "GetServiceVersion pf sid api w = do {
     (wsv, api1, w1) \<leftarrow> reply pf (WSServiceRoot sid @ ''/version'') WS_METHOD_Get [] version_of api w;
     case wsv of
       Some v \<Rightarrow> Some (True, set_service sid v api1, w1)
     | None \<Rightarrow> Some (False, set_service sid no_version api1, w1)
   }"

definition CheckServerHostName2_0 :: "('r, 'w) platform \<Rightarrow> ('w, bool) call" where
  "CheckServerHostName2_0 pf api w = do {
     (val, api1, w1) \<leftarrow> reply pf ''/Myth/GetHostName'' WS_METHOD_Get [] (string_field ''String'')
                          (api\<lparr>api_serverHostName := ''''\<rparr>) w;
     case val of
       Some name \<Rightarrow>
         Some (True, api1\<lparr>api_serverHostName := name,
                          api_namedCache := map_set name (api_server api1) (api_namedCache api1)\<rparr>, w1)
     | None \<Rightarrow> Some (False, api1, w1)
   }"

definition bnd :: "('r, 'w) platform \<Rightarrow> json \<Rightarrow> 'o attr_bind list option \<Rightarrow> 'o \<Rightarrow> 'o" where
  "bnd pf node bl obj = BindObject (pf_fpu pf) (pf_libc pf) (pf_zone pf) node bl obj"

definition bind_version :: "('r, 'w) platform \<Rightarrow> u32 \<Rightarrow> json option \<Rightarrow> Version option" where
  "bind_version pf ranking root =
     (case root of
        None \<Rightarrow> None
      | Some r \<Rightarrow>
          (let con = GetObjectValue ''ConnectionInfo'' r in
           if IsObject con
           then Some (bnd pf (GetObjectValue ''Version'' con) (getVersionBindArray (unat ranking)) Version_init)
           else None))"

definition CheckVersion2_0 :: "('r, 'w) platform \<Rightarrow> ('w, bool) call" where
  "CheckVersion2_0 pf api w = do {
     let ranking = sv_ranking (api_serviceVersion api WS_Myth);
     (ver, api1, w1) \<leftarrow> reply pf ''/Myth/GetConnectionInfo'' WS_METHOD_Get
                          (if api_securityPin api \<noteq> [] then [(''Pin'', api_securityPin api)] else [])
                          (bind_version pf ranking) (api\<lparr>api_version := Version_init\<rparr>) w;
     case ver of
       Some v \<Rightarrow> Some (ver_protocol v \<noteq> 0, api1\<lparr>api_version := v\<rparr>, w1)
     | None \<Rightarrow> Some (False, api1, w1)
   }"

text \<open>\<open>&&\<close> of operations that return whether they succeeded.\<close>

definition and_call :: "('w, bool) call \<Rightarrow> ('w, bool) call \<Rightarrow> ('w, bool) call" where
  "and_call a b api w = do {
     (ok, api1, w1) \<leftarrow> a api w;
     if ok then b api1 w1 else Some (False, api1, w1)
   }"

definition check_core :: "('r, 'w) platform \<Rightarrow> ('w, bool) call" where
  "check_core pf api w =
     (let ranking = sv_ranking (api_serviceVersion api WS_Myth) in
      if ranking > MYTH_API_VERSION_MAX_RANKING then Some (False, api, w)
      else if ranking \<ge> 0x00020000 then and_call (CheckServerHostName2_0 pf) (CheckVersion2_0 pf) api w
      else Some (False, api, w))"

definition InitWSAPI :: "('r, 'w) platform \<Rightarrow> ('w, bool) call" where
  "InitWSAPI pf api w =
     and_call (GetServiceVersion pf WS_Myth)
       (and_call (check_core pf)
         (and_call (GetServiceVersion pf WS_Capture)
           (and_call (GetServiceVersion pf WS_Channel)
             (and_call (GetServiceVersion pf WS_Guide)
               (and_call (GetServiceVersion pf WS_Content) (GetServiceVersion pf WS_Dvr))))))
       (api\<lparr>api_serviceVersion := \<lambda>sid. no_version\<rparr>) w"

definition WSAPI_init :: "string \<Rightarrow> u32 \<Rightarrow> string \<Rightarrow> wsapi" where
  "WSAPI_init server prt securityPin =
     \<lparr>api_server = server, api_port = prt, api_ssl = False, api_securityPin = securityPin,
      api_authUser = '''', api_authPassword = '''', api_authToken = '''', api_checked = False,
      api_version = Version_init, api_serverHostName = '''', api_serviceVersion = (\<lambda>sid. no_version),
      api_namedCache = []\<rparr>"

text \<open>\<open>m_checked || (m_checked = InitWSAPI())\<close>\<close>

definition ensure_checked :: "('r, 'w) platform \<Rightarrow> ('w, bool) call" where
  "ensure_checked pf api w =
     (if api_checked api then Some (True, api, w)
      else do {
        (ok, api1, w1) \<leftarrow> InitWSAPI pf api w;
        Some (ok, api1\<lparr>api_checked := ok\<rparr>, w1)
      })"

definition WSAPI_new :: "('r, 'w) platform \<Rightarrow> string \<Rightarrow> u32 \<Rightarrow> string \<Rightarrow> 'w \<Rightarrow> (wsapi \<times> 'w) option" where
  "WSAPI_new pf server prt securityPin w =
     map_option snd (ensure_checked pf (WSAPI_init server prt securityPin) w)"

definition CheckService :: "('r, 'w) platform \<Rightarrow> ('w, u32) call" where
  "CheckService pf api w = do {
     (ok, api1, w1) \<leftarrow> ensure_checked pf api w;
     Some (if ok then ver_protocol (api_version api1) else 0, api1, w1)
   }"

definition CheckService_id :: "('r, 'w) platform \<Rightarrow> WSServiceId_t \<Rightarrow> ('w, WSServiceVersion_t) call" where
  "CheckService_id pf sid api w = do {
     (ok, api1, w1) \<leftarrow> ensure_checked pf api w;
     Some (if ok then api_serviceVersion api1 sid else api_serviceVersion api1 WS_INVALID, api1, w1)
   }"

definition InvalidateService :: "wsapi \<Rightarrow> wsapi" where
  "InvalidateService api = (if api_checked api then api\<lparr>api_checked := False\<rparr> else api)"

definition GetServerHostName :: "wsapi \<Rightarrow> string" where
  "GetServerHostName api = api_serverHostName api"

definition GetVersion :: "wsapi \<Rightarrow> Version" where
  "GetVersion api = api_version api"

definition GetBaseURL :: "wsapi \<Rightarrow> string" where
  "GetBaseURL api =
     (if api_ssl api then ''https://'' else ''http://'') @ api_server api @ '':'' @ uint32_to_string (api_port api)"

text \<open>The operations of the class pick an implementation by the version of a service: the first whose
  version is not above, or the default when there is none.\<close>

fun pick :: "u32 \<Rightarrow> (u32 \<times> 'c) list \<Rightarrow> 'c option" where
  "pick ranking [] = None"
| "pick ranking ((v, c) # cs) = (if ranking \<ge> v then Some c else pick ranking cs)"

definition dispatch ::
    "('r, 'w) platform \<Rightarrow> WSServiceId_t \<Rightarrow> (u32 \<times> ('w, 'a) call) list \<Rightarrow> 'a \<Rightarrow> ('w, 'a) call" where
  "dispatch pf sid impls dflt api w = do {
     (wsv, api1, w1) \<leftarrow> CheckService_id pf sid api w;
     case pick (sv_ranking wsv) impls of
       Some impl \<Rightarrow> impl api1 w1
     | None \<Rightarrow> Some (dflt, api1, w1)
   }"

section \<open>Lists in pages\<close>

text \<open>The elements of an array as the loops over \<open>Size()\<close> visit them.\<close>

definition items :: "json \<Rightarrow> json list" where
  "items n = map (\<lambda>i. GetArrayElement i n) [0..<Size n]"

text \<open>Is a list of the expected protocol? Anything else is the alarm that the server has changed.\<close>

definition list_protocol :: "('r, 'w) platform \<Rightarrow> u32 \<Rightarrow> json \<Rightarrow> u32" where
  "list_protocol pf proto lst = li_protoVer (bnd pf lst (getListBindArray (unat proto)) ItemList_init)"

text \<open>The operations that read one list of a known protocol.\<close>

definition list_once ::
    "('r, 'w) platform \<Rightarrow> string \<Rightarrow> (string \<times> string) list \<Rightarrow> string \<Rightarrow> (json \<Rightarrow> 'a) \<Rightarrow> 'a \<Rightarrow> ('w, 'a) call" where
  "list_once pf svc pars lname result dflt api w = do {
     let proto = ver_protocol (api_version api);
     ((root, q), api1, w1) \<leftarrow> call_json pf (make_query pf svc WS_METHOD_Get pars api) api w;
     case root of
       None \<Rightarrow> Some (dflt, api1, w1)
     | Some r \<Rightarrow>
         (let lst = GetObjectValue lname r in
          if list_protocol pf proto lst \<noteq> proto then Some (dflt, InvalidateService api1, w1)
          else Some (result lst, api1, w1))
   }"

text \<open>The loop of the operations that read a list in pages: the page that is shorter than asked for is
  the last. A limit \<open>n\<close> other than 0 cuts the last page to what is still wanted. The counters are those of the
  code: a 32-bit index, printed by the operation, and the count of the elements received.\<close>

record 'a paging =
  pg_list :: string
  pg_items :: string
  pg_params :: "u32 \<Rightarrow> u32 \<Rightarrow> (string \<times> string) list"
  pg_add :: "json \<Rightarrow> 'a \<Rightarrow> 'a"
  pg_limit :: u32

definition page_count :: "u32 \<Rightarrow> u32 \<Rightarrow> u32 \<Rightarrow> u32" where
  "page_count n req_count got = (if n \<noteq> 0 \<and> req_count > n - got then n - got else req_count)"

definition page_fetch ::
    "('r, 'w) platform \<Rightarrow> 'a paging \<Rightarrow> u32 \<Rightarrow> u32 \<Rightarrow> wsrequest \<Rightarrow> ('w, json option \<times> wsrequest) call" where
  "page_fetch pf pg idx cnt q api w = call_json pf (content_params (pg_params pg idx cnt) (ClearContent q)) api w"

partial_function (option) page_loop ::
    "('r, 'w) platform \<Rightarrow> 'a paging \<Rightarrow> u32 \<Rightarrow> u32 \<Rightarrow> u32 \<Rightarrow> u32 \<Rightarrow> 'a \<Rightarrow> wsrequest \<Rightarrow> wsapi \<Rightarrow> 'w
     \<Rightarrow> ('a \<times> wsapi \<times> 'w) option" where
  [code]: "page_loop pf pg proto idx req_count got acc q api w =
     (let cnt = page_count (pg_limit pg) req_count got in
      case page_fetch pf pg idx cnt q api w of
        None \<Rightarrow> None
      | Some (rq, aw) \<Rightarrow>
          (case fst rq of
             None \<Rightarrow> Some (acc, aw)
           | Some r \<Rightarrow>
               (let lst = GetObjectValue (pg_list pg) r in
                if list_protocol pf proto lst \<noteq> proto then Some (acc, InvalidateService (fst aw), snd aw)
                else (let xs = items (GetObjectValue (pg_items pg) lst);
                          count = of_nat (length xs); acc1 = fold (pg_add pg) xs acc; got1 = got + count in
                      if count = cnt \<and> (pg_limit pg = 0 \<or> pg_limit pg > got1)
                      then page_loop pf pg proto (idx + count) cnt got1 acc1 (snd rq) (fst aw) (snd aw)
                      else Some (acc1, aw)))))"

definition list_pages ::
    "('r, 'w) platform \<Rightarrow> string \<Rightarrow> 'a paging \<Rightarrow> u32 \<Rightarrow> 'a \<Rightarrow> ('w, 'a) call" where
  "list_pages pf svc pg req_count start api w =
     page_loop pf pg (ver_protocol (api_version api)) 0 req_count 0 start
       (make_query pf svc WS_METHOD_Get [] api) api w"

end
