(* ===== verification/WsService.thy ===== *)
theory WsService
  imports WsApi
begin

text \<open>
  The operations of the web service client (\<open>mythwsapi.cpp\<close>), service by service, and the choice of the
  implementation by the version of the service (\<open>mythwsapi.h\<close>). A name that is overloaded in the class has a suffix here.

  A shared pointer that may be empty is an option. A \<open>std::map\<close> is the list of its entries in the order of the
  keys, with \<open>insert\<close> keeping the entry that is there; times are its keys as signed integers.
\<close>

definition BOOLSTR :: "bool \<Rightarrow> string" where
  "BOOLSTR a = (if a then ''true'' else ''false'')"

definition FETCHSIZE :: u32 where "FETCHSIZE = 100"
definition FETCHSIZE_L :: u32 where "FETCHSIZE_L = 1000"

text \<open>The answer of the operations that change something: the field \<open>bool\<close>, as a value or as a text.\<close>

definition true_field :: "json option \<Rightarrow> bool" where
  "true_field root =
     (case root of
        None \<Rightarrow> False
      | Some r \<Rightarrow> (let field = GetObjectValue ''bool'' r in
                   IsTrue field \<or> (IsString field \<and> cstr (GetStringValue field) = ''true'')))"

section \<open>Service Myth\<close>

type_synonym SettingMap = "(string \<times> Setting) list"

definition setting_node :: "json \<Rightarrow> json" where
  "setting_node root = GetObjectValue ''Settings'' (GetObjectValue ''SettingList'' root)"

definition GetSetting2_0 :: "('r, 'w) platform \<Rightarrow> string \<Rightarrow> string \<Rightarrow> ('w, Setting option) call" where
  "GetSetting2_0 pf key hostname =
     reply pf ''/Myth/GetSetting'' WS_METHOD_Get [(''HostName'', hostname), (''Key'', key)]
       (\<lambda>root. case root of
          None \<Rightarrow> None
        | Some r \<Rightarrow>
            (let sts = setting_node r in
             if IsObject sts \<and> Size sts \<noteq> 0 \<and> IsString (GetObjectAt 0 sts)
             then Some \<lparr>set_key = GetObjectKey 0 sts, set_value = GetStringValue (GetObjectAt 0 sts)\<rparr>
             else None))"

definition GetSetting5_0 :: "('r, 'w) platform \<Rightarrow> string \<Rightarrow> string \<Rightarrow> ('w, Setting option) call" where
  "GetSetting5_0 pf key hostname =
     reply pf ''/Myth/GetSetting'' WS_METHOD_Get [(''HostName'', hostname), (''Key'', key)]
       (\<lambda>root. map_option (\<lambda>v. \<lparr>set_key = key, set_value = v\<rparr>) (string_field ''String'' root))"

definition GetHostSetting :: "('r, 'w) platform \<Rightarrow> string \<Rightarrow> string \<Rightarrow> ('w, Setting option) call" where
  "GetHostSetting pf key hostname =
     dispatch pf WS_Myth [(0x00050000, GetSetting5_0 pf key hostname), (0x00020000, GetSetting2_0 pf key hostname)] None"

definition GetSetting :: "('r, 'w) platform \<Rightarrow> string \<Rightarrow> bool \<Rightarrow> ('w, Setting option) call" where
  "GetSetting pf key myhost = GetHostSetting pf key (if myhost then pf_myhost pf else '''')"

definition read_settings :: "json option \<Rightarrow> SettingMap" where
  "read_settings root =
     (case root of
        None \<Rightarrow> []
      | Some r \<Rightarrow>
          (let sts = setting_node r in
           if IsObject sts
           then fold (\<lambda>i m. let val = GetObjectAt i sts; key = GetObjectKey i sts in
                        if IsString val
                        then map_insert key \<lparr>set_key = key, set_value = GetStringValue val\<rparr> m else m)
                  [0..<Size sts] []
           else []))"

definition GetSettings2_0 :: "('r, 'w) platform \<Rightarrow> string \<Rightarrow> ('w, SettingMap) call" where
  "GetSettings2_0 pf hostname =
     reply pf ''/Myth/GetSetting'' WS_METHOD_Get [(''HostName'', hostname)] read_settings"

definition GetSettings5_0 :: "('r, 'w) platform \<Rightarrow> string \<Rightarrow> ('w, SettingMap) call" where
  "GetSettings5_0 pf hostname =
     reply pf ''/Myth/GetSettingList'' WS_METHOD_Get [(''HostName'', hostname)] read_settings"

definition GetHostSettings :: "('r, 'w) platform \<Rightarrow> string \<Rightarrow> ('w, SettingMap) call" where
  "GetHostSettings pf hostname =
     dispatch pf WS_Myth [(0x00050000, GetSettings5_0 pf hostname), (0x00020000, GetSettings2_0 pf hostname)] []"

definition GetSettings :: "('r, 'w) platform \<Rightarrow> bool \<Rightarrow> ('w, SettingMap) call" where
  "GetSettings pf myhost = GetHostSettings pf (if myhost then pf_myhost pf else '''')"

definition PutSetting2_0 :: "('r, 'w) platform \<Rightarrow> string \<Rightarrow> string \<Rightarrow> bool \<Rightarrow> ('w, bool) call" where
  "PutSetting2_0 pf key val myhost =
     reply pf ''/Myth/PutSetting'' WS_METHOD_Post
       [(''HostName'', if myhost then pf_myhost pf else ''''), (''Key'', key), (''Value'', val)] true_field"

definition PutSetting :: "('r, 'w) platform \<Rightarrow> string \<Rightarrow> string \<Rightarrow> bool \<Rightarrow> ('w, bool) call" where
  "PutSetting pf key val myhost = dispatch pf WS_Myth [(0x00020000, PutSetting2_0 pf key val myhost)] False"

text \<open>A host name is looked up in the cache, then in its settings for the addresses of versions 6 and 4.\<close>

definition cache_name :: "string \<Rightarrow> string \<Rightarrow> wsapi \<Rightarrow> wsapi" where
  "cache_name hostname addr api = api\<lparr>api_namedCache := map_set hostname addr (api_namedCache api)\<rparr>"

definition ResolveHostName :: "('r, 'w) platform \<Rightarrow> string \<Rightarrow> ('w, string) call" where
  "ResolveHostName pf hostname api w =
     (case map_of (api_namedCache api) hostname of
        Some addr \<Rightarrow> Some (addr, api, w)
      | None \<Rightarrow> do {
          (addr6, api1, w1) \<leftarrow> GetHostSetting pf ''BackendServerIP6'' hostname api w;
          if addr6 \<noteq> None \<and> set_value (the addr6) \<noteq> '''' \<and> set_value (the addr6) \<noteq> ''::1''
          then Some (set_value (the addr6), cache_name hostname (set_value (the addr6)) api1, w1)
          else do {
            (addr, api2, w2) \<leftarrow> GetHostSetting pf ''BackendServerIP'' hostname api1 w1;
            if addr \<noteq> None \<and> set_value (the addr) \<noteq> ''''
            then Some (set_value (the addr), cache_name hostname (set_value (the addr)) api2, w2)
            else Some ('''', api2, w2)
          }
        })"

section \<open>Service Capture\<close>

text \<open>The elements of a list, each bound to a new object.\<close>

definition bind_items ::
    "('r, 'w) platform \<Rightarrow> string \<Rightarrow> string \<Rightarrow> 'o attr_bind list option \<Rightarrow> 'o \<Rightarrow> json option \<Rightarrow> 'o list" where
  "bind_items pf lname iname bl new root =
     (case root of
        None \<Rightarrow> []
      | Some r \<Rightarrow> map (\<lambda>n. bnd pf n bl new) (items (GetObjectValue iname (GetObjectValue lname r))))"

definition proto_of :: "wsapi \<Rightarrow> nat" where
  "proto_of api = unat (ver_protocol (api_version api))"

definition GetCaptureCardList1_4 :: "('r, 'w) platform \<Rightarrow> ('w, CaptureCard list) call" where
  "GetCaptureCardList1_4 pf api w =
     reply pf ''/Capture/GetCaptureCardList'' WS_METHOD_Get [(''HostName'', cstr (api_serverHostName api))]
       (bind_items pf ''CaptureCardList'' ''CaptureCards'' (getCaptureCardBindArray (proto_of api)) CaptureCard_init)
       api w"

definition GetCaptureCardList :: "('r, 'w) platform \<Rightarrow> ('w, CaptureCard list) call" where
  "GetCaptureCardList pf = dispatch pf WS_Capture [(0x00010004, GetCaptureCardList1_4 pf)] []"

section \<open>Service Channel\<close>

definition GetVideoSourceList1_2 :: "('r, 'w) platform \<Rightarrow> ('w, VideoSource list) call" where
  "GetVideoSourceList1_2 pf api w =
     reply pf ''/Channel/GetVideoSourceList'' WS_METHOD_Get []
       (bind_items pf ''VideoSourceList'' ''VideoSources'' (getVideoSourceBindArray (proto_of api)) VideoSource_init)
       api w"

definition GetVideoSourceList :: "('r, 'w) platform \<Rightarrow> ('w, VideoSource list) call" where
  "GetVideoSourceList pf = dispatch pf WS_Channel [(0x00010002, GetVideoSourceList1_2 pf)] []"

definition bind_channel :: "('r, 'w) platform \<Rightarrow> nat \<Rightarrow> json \<Rightarrow> Channel" where
  "bind_channel pf proto n = bnd pf n (getChannelBindArray proto) Channel_init"

definition add_channel :: "('r, 'w) platform \<Rightarrow> nat \<Rightarrow> bool \<Rightarrow> json \<Rightarrow> Channel list \<Rightarrow> Channel list" where
  "add_channel pf proto onlyVisible n ret =
     (let c = bind_channel pf proto n in
      if chanId c \<noteq> 0 \<and> chanNum c \<noteq> '''' \<and> (\<not> onlyVisible \<or> visible c) then ret @ [c] else ret)"

text \<open>Signed counters are printed as signed.\<close>

definition GetChannelList1_2 :: "('r, 'w) platform \<Rightarrow> u32 \<Rightarrow> bool \<Rightarrow> ('w, Channel list) call" where
  "GetChannelList1_2 pf sourceid onlyVisible api w =
     list_pages pf ''/Channel/GetChannelInfoList''
       \<lparr>pg_list = ''ChannelInfoList'', pg_items = ''ChannelInfos'',
        pg_params = (\<lambda>idx cnt. [(''SourceID'', uint32_to_string sourceid), (''StartIndex'', int32_to_string idx),
                                (''Count'', int32_to_string cnt)]),
        pg_add = add_channel pf (proto_of api) onlyVisible, pg_limit = 0\<rparr>
       FETCHSIZE [] api w"

definition GetChannelList1_5 :: "('r, 'w) platform \<Rightarrow> u32 \<Rightarrow> bool \<Rightarrow> ('w, Channel list) call" where
  "GetChannelList1_5 pf sourceid onlyVisible api w =
     list_once pf ''/Channel/GetChannelInfoList''
       [(''Details'', ''true''), (''OnlyVisible'', BOOLSTR onlyVisible), (''SourceID'', uint32_to_string sourceid)]
       ''ChannelInfoList''
       (\<lambda>clist. fold (add_channel pf (proto_of api) False) (items (GetObjectValue ''ChannelInfos'' clist)) []) [] api w"

definition GetChannelList :: "('r, 'w) platform \<Rightarrow> u32 \<Rightarrow> bool \<Rightarrow> ('w, Channel list) call" where
  "GetChannelList pf sourceid onlyVisible =
     dispatch pf WS_Channel
       [(0x00010005, GetChannelList1_5 pf sourceid onlyVisible), (0x00010002, GetChannelList1_2 pf sourceid onlyVisible)] []"

definition GetChannel1_2 :: "('r, 'w) platform \<Rightarrow> u32 \<Rightarrow> ('w, Channel option) call" where
  "GetChannel1_2 pf chanid api w =
     reply pf ''/Channel/GetChannelInfo'' WS_METHOD_Get [(''ChanID'', uint32_to_string chanid)]
       (\<lambda>root. case root of
          None \<Rightarrow> None
        | Some r \<Rightarrow> (let c = bind_channel pf (proto_of api) (GetObjectValue ''ChannelInfo'' r) in
                     if chanId c = chanid then Some c else None)) api w"

definition GetChannel :: "('r, 'w) platform \<Rightarrow> u32 \<Rightarrow> ('w, Channel option) call" where
  "GetChannel pf chanid = dispatch pf WS_Channel [(0x00010002, GetChannel1_2 pf chanid)] None"

section \<open>Service Guide\<close>

type_synonym ProgramMap = "(int \<times> Program) list"

definition add_program :: "Program \<Rightarrow> ProgramMap \<Rightarrow> ProgramMap" where
  "add_program p m = map_insert (sint (startTime p)) p m"

definition bind_program :: "('r, 'w) platform \<Rightarrow> nat \<Rightarrow> json \<Rightarrow> Program" where
  "bind_program pf proto n = bnd pf n (getProgramBindArray proto) Program_init"

text \<open>The programs of one channel of the guide.\<close>

definition guide_programs :: "('r, 'w) platform \<Rightarrow> nat \<Rightarrow> Channel \<Rightarrow> json \<Rightarrow> ProgramMap \<Rightarrow> ProgramMap" where
  "guide_programs pf proto c chan m =
     fold (\<lambda>n. add_program ((bind_program pf proto n)\<lparr>channel := c\<rparr>)) (items (GetObjectValue ''Programs'' chan)) m"

definition add_guide_channel ::
    "('r, 'w) platform \<Rightarrow> nat \<Rightarrow> json \<Rightarrow> (u32 \<times> ProgramMap) list \<Rightarrow> (u32 \<times> ProgramMap) list" where
  "add_guide_channel pf proto chan ret =
     (let c = bind_channel pf proto chan in map_insert (chanId c) (guide_programs pf proto c chan []) ret)"

definition GetProgramGuide1_0 :: "('r, 'w) platform \<Rightarrow> time_t \<Rightarrow> time_t \<Rightarrow> ('w, (u32 \<times> ProgramMap) list) call" where
  "GetProgramGuide1_0 pf starttime endtime api w =
     list_once pf ''/Guide/GetProgramGuide''
       [(''StartChanId'', ''0''), (''NumChannels'', ''0''), (''StartTime'', time_to_iso8601utc starttime),
        (''EndTime'', time_to_iso8601utc endtime), (''Details'', ''true'')]
       ''ProgramGuide''
       (\<lambda>glist. fold (add_guide_channel pf (proto_of api)) (items (GetObjectValue ''Channels'' glist)) []) [] api w"

text \<open>For one channel the loop ends at the first with its identifier.\<close>

definition GetProgramGuide1_0_channel :: "('r, 'w) platform \<Rightarrow> u32 \<Rightarrow> time_t \<Rightarrow> time_t \<Rightarrow> ('w, ProgramMap) call" where
  "GetProgramGuide1_0_channel pf chanid starttime endtime api w =
     list_once pf ''/Guide/GetProgramGuide''
       [(''StartChanId'', uint32_to_string chanid), (''NumChannels'', ''1''),
        (''StartTime'', time_to_iso8601utc starttime), (''EndTime'', time_to_iso8601utc endtime), (''Details'', ''true'')]
       ''ProgramGuide''
       (\<lambda>glist.
          case dropWhile (\<lambda>chan. chanId (bind_channel pf (proto_of api) chan) \<noteq> chanid)
                 (items (GetObjectValue ''Channels'' glist)) of
            [] \<Rightarrow> []
          | chan # rest \<Rightarrow> guide_programs pf (proto_of api) (bind_channel pf (proto_of api) chan) chan []) [] api w"

text \<open>The count of channels asked for is made smaller by the days asked for: 100 divided by one more than the
  number of whole spans of three days. The quotient of \<open>double\<close> values is exact enough to be that of integers up to an interval of
  \<open>2 ^ 31\<close> spans, where the conversion to \<open>int\<close> is not defined.\<close>

definition guide_count :: "time_t \<Rightarrow> time_t \<Rightarrow> u32" where
  "guide_count starttime endtime =
     (let d = sint endtime - sint starttime in
      if d > 0 then word_of_int (100 div (1 + d div (3 * 86400))) else FETCHSIZE)"

definition guide_pages :: "('r, 'w) platform \<Rightarrow> nat \<Rightarrow> time_t \<Rightarrow> time_t \<Rightarrow> (u32 \<times> ProgramMap) list paging" where
  "guide_pages pf proto starttime endtime =
     \<lparr>pg_list = ''ProgramGuide'', pg_items = ''Channels'',
      pg_params = (\<lambda>idx cnt. [(''StartIndex'', uint32_to_string idx), (''Count'', uint32_to_string cnt),
                              (''StartTime'', time_to_iso8601utc starttime), (''EndTime'', time_to_iso8601utc endtime),
                              (''Details'', ''true'')]),
      pg_add = add_guide_channel pf proto, pg_limit = 0\<rparr>"

definition GetProgramGuide2_2 :: "('r, 'w) platform \<Rightarrow> time_t \<Rightarrow> time_t \<Rightarrow> ('w, (u32 \<times> ProgramMap) list) call" where
  "GetProgramGuide2_2 pf starttime endtime api w =
     list_pages pf ''/Guide/GetProgramGuide'' (guide_pages pf (proto_of api) starttime endtime)
       (guide_count starttime endtime) [] api w"

text \<open>A program with its channel.\<close>

definition bind_program_channel :: "('r, 'w) platform \<Rightarrow> nat \<Rightarrow> json \<Rightarrow> Program" where
  "bind_program_channel pf proto n =
     (let p = bind_program pf proto n in
      p\<lparr>channel := bnd pf (GetObjectValue ''Channel'' n) (getChannelBindArray proto) (channel p)\<rparr>)"

definition GetProgramList2_2 :: "('r, 'w) platform \<Rightarrow> u32 \<Rightarrow> time_t \<Rightarrow> time_t \<Rightarrow> ('w, ProgramMap) call" where
  "GetProgramList2_2 pf chanid starttime endtime api w =
     list_pages pf ''/Guide/GetProgramList''
       \<lparr>pg_list = ''ProgramList'', pg_items = ''Programs'',
        pg_params = (\<lambda>idx cnt. [(''StartIndex'', uint32_to_string idx), (''Count'', uint32_to_string cnt),
                                (''ChanId'', uint32_to_string chanid), (''StartTime'', time_to_iso8601utc starttime),
                                (''EndTime'', time_to_iso8601utc endtime), (''Details'', ''true'')]),
        pg_add = (\<lambda>n. add_program (bind_program_channel pf (proto_of api) n)), pg_limit = 0\<rparr>
       FETCHSIZE_L [] api w"

definition GetProgramGuide_channel :: "('r, 'w) platform \<Rightarrow> u32 \<Rightarrow> time_t \<Rightarrow> time_t \<Rightarrow> ('w, ProgramMap) call" where
  "GetProgramGuide_channel pf chanid starttime endtime =
     dispatch pf WS_Guide
       [(0x00020002, GetProgramList2_2 pf chanid starttime endtime),
        (0x00010000, GetProgramGuide1_0_channel pf chanid starttime endtime)] []"

definition GetProgramGuide :: "('r, 'w) platform \<Rightarrow> time_t \<Rightarrow> time_t \<Rightarrow> ('w, (u32 \<times> ProgramMap) list) call" where
  "GetProgramGuide pf starttime endtime =
     dispatch pf WS_Guide
       [(0x00020002, GetProgramGuide2_2 pf starttime endtime), (0x00010000, GetProgramGuide1_0 pf starttime endtime)] []"

section \<open>Service Dvr: recordings\<close>

definition bind_program_recording :: "('r, 'w) platform \<Rightarrow> nat \<Rightarrow> json \<Rightarrow> Program" where
  "bind_program_recording pf proto n =
     (let p = bind_program_channel pf proto n in
      p\<lparr>recording := bnd pf (GetObjectValue ''Recording'' n) (getRecordingBindArray proto) (recording p)\<rparr>)"

definition bind_artworks :: "('r, 'w) platform \<Rightarrow> nat \<Rightarrow> json \<Rightarrow> Artwork list" where
  "bind_artworks pf proto n =
     map (\<lambda>a. bnd pf a (getArtworkBindArray proto) Artwork_init) (items (GetObjectValue ''ArtworkInfos'' n))"

text \<open>A program with its channel, its recording and its artwork.\<close>

definition bind_recorded :: "('r, 'w) platform \<Rightarrow> nat \<Rightarrow> json \<Rightarrow> Program" where
  "bind_recorded pf proto n =
     (let p = bind_program_recording pf proto n in
      if IsNull (GetObjectValue ''Artwork'' n) then p
      else p\<lparr>artwork := artwork p @ bind_artworks pf proto (GetObjectValue ''Artwork'' n)\<rparr>)"

definition GetRecordedList1_5 :: "('r, 'w) platform \<Rightarrow> u32 \<Rightarrow> bool \<Rightarrow> ('w, Program list) call" where
  "GetRecordedList1_5 pf n descending api w =
     list_pages pf ''/Dvr/GetRecordedList''
       \<lparr>pg_list = ''ProgramList'', pg_items = ''Programs'',
        pg_params = (\<lambda>idx cnt. [(''StartIndex'', uint32_to_string idx), (''Count'', uint32_to_string cnt),
                                (''Descending'', BOOLSTR descending)]),
        pg_add = (\<lambda>n ret. ret @ [bind_recorded pf (proto_of api) n]), pg_limit = n\<rparr>
       FETCHSIZE [] api w"

definition GetRecordedList :: "('r, 'w) platform \<Rightarrow> u32 \<Rightarrow> bool \<Rightarrow> ('w, Program list) call" where
  "GetRecordedList pf n descending = dispatch pf WS_Dvr [(0x00010005, GetRecordedList1_5 pf n descending)] []"

text \<open>A program without a start time of its recording is none.\<close>

definition recorded_program :: "('r, 'w) platform \<Rightarrow> nat \<Rightarrow> json option \<Rightarrow> Program option" where
  "recorded_program pf proto root =
     (case root of
        None \<Rightarrow> None
      | Some r \<Rightarrow> (let p = bind_recorded pf proto (GetObjectValue ''Program'' r) in
                   if startTs (recording p) \<noteq> 0 then Some p else None))"

definition GetRecorded1_5 :: "('r, 'w) platform \<Rightarrow> u32 \<Rightarrow> time_t \<Rightarrow> ('w, Program option) call" where
  "GetRecorded1_5 pf chanid recstartts api w =
     reply pf ''/Dvr/GetRecorded'' WS_METHOD_Get
       [(''ChanId'', uint32_to_string chanid), (''StartTime'', time_to_iso8601utc recstartts)]
       (recorded_program pf (proto_of api)) api w"

definition GetRecorded6_0 :: "('r, 'w) platform \<Rightarrow> u32 \<Rightarrow> ('w, Program option) call" where
  "GetRecorded6_0 pf recordedid api w =
     reply pf ''/Dvr/GetRecorded'' WS_METHOD_Get [(''RecordedId'', uint32_to_string recordedid)]
       (recorded_program pf (proto_of api)) api w"

definition GetRecorded_time :: "('r, 'w) platform \<Rightarrow> u32 \<Rightarrow> time_t \<Rightarrow> ('w, Program option) call" where
  "GetRecorded_time pf chanid recstartts = dispatch pf WS_Dvr [(0x00010005, GetRecorded1_5 pf chanid recstartts)] None"

definition GetRecorded :: "('r, 'w) platform \<Rightarrow> u32 \<Rightarrow> ('w, Program option) call" where
  "GetRecorded pf recordedid = dispatch pf WS_Dvr [(0x00060000, GetRecorded6_0 pf recordedid)] None"

definition DeleteRecording2_1 :: "('r, 'w) platform \<Rightarrow> u32 \<Rightarrow> time_t \<Rightarrow> bool \<Rightarrow> bool \<Rightarrow> ('w, bool) call" where
  "DeleteRecording2_1 pf chanid recstartts forceDelete allowRerecord =
     reply pf ''/Dvr/DeleteRecording'' WS_METHOD_Post
       [(''ChanId'', uint32_to_string chanid), (''StartTime'', time_to_iso8601utc recstartts),
        (''ForceDelete'', BOOLSTR forceDelete), (''AllowRerecord'', BOOLSTR allowRerecord)] true_field"

definition DeleteRecording6_0 :: "('r, 'w) platform \<Rightarrow> u32 \<Rightarrow> bool \<Rightarrow> bool \<Rightarrow> ('w, bool) call" where
  "DeleteRecording6_0 pf recordedid forceDelete allowRerecord =
     reply pf ''/Dvr/DeleteRecording'' WS_METHOD_Post
       [(''RecordedId'', uint32_to_string recordedid),
        (''ForceDelete'', BOOLSTR forceDelete), (''AllowRerecord'', BOOLSTR allowRerecord)] true_field"

definition DeleteRecording_time :: "('r, 'w) platform \<Rightarrow> u32 \<Rightarrow> time_t \<Rightarrow> bool \<Rightarrow> bool \<Rightarrow> ('w, bool) call" where
  "DeleteRecording_time pf chanid recstartts forceDelete allowRerecord =
     dispatch pf WS_Dvr [(0x00020001, DeleteRecording2_1 pf chanid recstartts forceDelete allowRerecord)] False"

definition DeleteRecording :: "('r, 'w) platform \<Rightarrow> u32 \<Rightarrow> bool \<Rightarrow> bool \<Rightarrow> ('w, bool) call" where
  "DeleteRecording pf recordedid forceDelete allowRerecord =
     dispatch pf WS_Dvr [(0x00060000, DeleteRecording6_0 pf recordedid forceDelete allowRerecord)] False"

definition UnDeleteRecording2_1 :: "('r, 'w) platform \<Rightarrow> u32 \<Rightarrow> time_t \<Rightarrow> ('w, bool) call" where
  "UnDeleteRecording2_1 pf chanid recstartts =
     reply pf ''/Dvr/UnDeleteRecording'' WS_METHOD_Post
       [(''ChanId'', uint32_to_string chanid), (''StartTime'', time_to_iso8601utc recstartts)] true_field"

definition UnDeleteRecording6_0 :: "('r, 'w) platform \<Rightarrow> u32 \<Rightarrow> ('w, bool) call" where
  "UnDeleteRecording6_0 pf recordedid =
     reply pf ''/Dvr/UnDeleteRecording'' WS_METHOD_Post [(''RecordedId'', uint32_to_string recordedid)] true_field"

definition UnDeleteRecording_time :: "('r, 'w) platform \<Rightarrow> u32 \<Rightarrow> time_t \<Rightarrow> ('w, bool) call" where
  "UnDeleteRecording_time pf chanid recstartts =
     dispatch pf WS_Dvr [(0x00020001, UnDeleteRecording2_1 pf chanid recstartts)] False"

definition UnDeleteRecording :: "('r, 'w) platform \<Rightarrow> u32 \<Rightarrow> ('w, bool) call" where
  "UnDeleteRecording pf recordedid = dispatch pf WS_Dvr [(0x00060000, UnDeleteRecording6_0 pf recordedid)] False"

definition UpdateRecordedWatchedStatus4_5 :: "('r, 'w) platform \<Rightarrow> u32 \<Rightarrow> time_t \<Rightarrow> bool \<Rightarrow> ('w, bool) call" where
  "UpdateRecordedWatchedStatus4_5 pf chanid recstartts watched =
     reply pf ''/Dvr/UpdateRecordedWatchedStatus'' WS_METHOD_Post
       [(''ChanId'', uint32_to_string chanid), (''StartTime'', time_to_iso8601utc recstartts),
        (''Watched'', BOOLSTR watched)] true_field"

definition UpdateRecordedWatchedStatus6_0 :: "('r, 'w) platform \<Rightarrow> u32 \<Rightarrow> bool \<Rightarrow> ('w, bool) call" where
  "UpdateRecordedWatchedStatus6_0 pf recordedid watched =
     reply pf ''/Dvr/UpdateRecordedWatchedStatus'' WS_METHOD_Post
       [(''RecordedId'', uint32_to_string recordedid), (''Watched'', BOOLSTR watched)] true_field"

definition UpdateRecordedWatchedStatus_time :: "('r, 'w) platform \<Rightarrow> u32 \<Rightarrow> time_t \<Rightarrow> bool \<Rightarrow> ('w, bool) call" where
  "UpdateRecordedWatchedStatus_time pf chanid recstartts watched =
     dispatch pf WS_Dvr [(0x00040005, UpdateRecordedWatchedStatus4_5 pf chanid recstartts watched)] False"

definition UpdateRecordedWatchedStatus :: "('r, 'w) platform \<Rightarrow> u32 \<Rightarrow> bool \<Rightarrow> ('w, bool) call" where
  "UpdateRecordedWatchedStatus pf recordedid watched =
     dispatch pf WS_Dvr [(0x00060000, UpdateRecordedWatchedStatus6_0 pf recordedid watched)] False"

text \<open>The unit of the marks: 1 are positions, 2 durations; without one the server counts frames.\<close>

definition offset_type :: "int \<Rightarrow> (string \<times> string) list" where
  "offset_type u = (if u = 1 then [(''OffsetType'', ''Position'')]
                    else if u = 2 then [(''OffsetType'', ''Duration'')] else [])"

definition GetRecordedCommBreak6_1 :: "('r, 'w) platform \<Rightarrow> u32 \<Rightarrow> int \<Rightarrow> ('w, Mark list) call" where
  "GetRecordedCommBreak6_1 pf recordedid u api w =
     reply pf ''/Dvr/GetRecordedCommBreak'' WS_METHOD_Get
       ((''RecordedId'', uint32_to_string recordedid) # offset_type u)
       (bind_items pf ''CutList'' ''Cuttings'' (getCuttingBindArray (proto_of api)) Mark_init) api w"

definition GetRecordedCutList6_1 :: "('r, 'w) platform \<Rightarrow> u32 \<Rightarrow> int \<Rightarrow> ('w, Mark list) call" where
  "GetRecordedCutList6_1 pf recordedid u api w =
     reply pf ''/Dvr/GetRecordedCutList'' WS_METHOD_Get
       ((''RecordedId'', uint32_to_string recordedid) # offset_type u)
       (bind_items pf ''CutList'' ''Cuttings'' (getCuttingBindArray (proto_of api)) Mark_init) api w"

definition GetRecordedCommBreak :: "('r, 'w) platform \<Rightarrow> u32 \<Rightarrow> int \<Rightarrow> ('w, Mark list) call" where
  "GetRecordedCommBreak pf recordedid u = dispatch pf WS_Dvr [(0x00060001, GetRecordedCommBreak6_1 pf recordedid u)] []"

definition GetRecordedCutList :: "('r, 'w) platform \<Rightarrow> u32 \<Rightarrow> int \<Rightarrow> ('w, Mark list) call" where
  "GetRecordedCutList pf recordedid u = dispatch pf WS_Dvr [(0x00060001, GetRecordedCutList6_1 pf recordedid u)] []"

definition bookmark_params :: "u32 \<Rightarrow> int \<Rightarrow> (string \<times> string) list" where
  "bookmark_params recordedid u =
     [(''RecordedId'', uint32_to_string recordedid),
      (''OffsetType'', if u = 2 then ''Duration'' else ''Position'')]"

definition SetSavedBookmark6_2 :: "('r, 'w) platform \<Rightarrow> u32 \<Rightarrow> int \<Rightarrow> i64 \<Rightarrow> ('w, bool) call" where
  "SetSavedBookmark6_2 pf recordedid u val =
     reply pf ''/Dvr/SetSavedBookmark'' WS_METHOD_Post
       (bookmark_params recordedid u @ [(''Offset'', int64_to_string val)]) true_field"

definition SetSavedBookmark :: "('r, 'w) platform \<Rightarrow> u32 \<Rightarrow> int \<Rightarrow> i64 \<Rightarrow> ('w, bool) call" where
  "SetSavedBookmark pf recordedid u val = dispatch pf WS_Dvr [(0x00060002, SetSavedBookmark6_2 pf recordedid u val)] False"

text \<open>A failed query gives 0 (\<open>return false\<close>), an answer without the number \<open>-1\<close>.\<close>

definition GetSavedBookmark6_2 :: "('r, 'w) platform \<Rightarrow> u32 \<Rightarrow> int \<Rightarrow> ('w, i64) call" where
  "GetSavedBookmark6_2 pf recordedid u =
     reply pf ''/Dvr/GetSavedBookmark'' WS_METHOD_Get (bookmark_params recordedid u)
       (\<lambda>root. case root of
          None \<Rightarrow> 0
        | Some r \<Rightarrow>
            (let field = GetObjectValue ''long'' r in
             if IsInt field then GetBigIntValue (pf_fpu pf) field
             else if \<not> IsString field then - 1
             else (case string_to_int64 (c_str (GetStringValue field)) of Inl e \<Rightarrow> - 1 | Inr v \<Rightarrow> v)))"

definition GetSavedBookmark :: "('r, 'w) platform \<Rightarrow> u32 \<Rightarrow> int \<Rightarrow> ('w, i64) call" where
  "GetSavedBookmark pf recordedid u = dispatch pf WS_Dvr [(0x00060002, GetSavedBookmark6_2 pf recordedid u)] 0"

end
