(* ===== verification/WsDvr.thy ===== *)
theory WsDvr
  imports WsService
begin

text \<open>
  The rest of the operations of the web service client (\<open>mythwsapi.cpp\<close>, \<open>mythwsapi.h\<close>): the schedules and the
  lists of the service Dvr, the service Content, and the streams it returns (\<open>mythwsstream.cpp\<close>).

  A schedule that is passed by reference is returned with the result, also when the operation fails: the code has
  changed it before it sends anything.
\<close>

section \<open>Schedules\<close>

definition ProcessRecordIN :: "nat \<Rightarrow> RecordSchedule \<Rightarrow> RecordSchedule" where
  "ProcessRecordIN proto r =
     r\<lparr>rs_type_t := RuleTypeFromString proto (rs_type r),
       rs_searchType_t := SearchTypeFromString proto (rs_searchType r),
       rs_dupMethod_t := DupMethodFromString proto (rs_dupMethod r),
       rs_dupIn_t := DupInFromString proto (rs_dupIn r)\<rparr>"

text \<open>The day of the week of a broken down time. When \<open>localtime_r\<close> fails the code prints a structure that nobody has
  written; the model then leaves the two fields as they are.\<close>

definition find_day :: "tm \<Rightarrow> i8" where
  "find_day stm = of_nat ((tm_wday (timegm stm) + 1) mod 7)"

definition set_find :: "zone \<Rightarrow> RecordSchedule \<Rightarrow> RecordSchedule" where
  "set_find z r =
     (case localtime_r z (sint (rs_startTime r)) of
        None \<Rightarrow> r
      | Some stm \<Rightarrow> r\<lparr>rs_findTime := iso_clock stm, rs_findDay := find_day stm\<rparr>)"

definition ProcessRecordOUT :: "zone \<Rightarrow> nat \<Rightarrow> RecordSchedule \<Rightarrow> RecordSchedule" where
  "ProcessRecordOUT z proto r =
     (set_find z r)
       \<lparr>rs_type := RuleTypeToString proto (rs_type_t r),
        rs_searchType := SearchTypeToString proto (rs_searchType_t r),
        rs_dupMethod := DupMethodToString proto (rs_dupMethod_t r),
        rs_dupIn := DupInToString proto (rs_dupIn_t r)\<rparr>"

definition bind_schedule :: "('r, 'w) platform \<Rightarrow> nat \<Rightarrow> json \<Rightarrow> RecordSchedule" where
  "bind_schedule pf proto n =
     ProcessRecordIN proto (bnd pf n (getRecordScheduleBindArray proto) RecordSchedule_init)"

definition index_count :: "u32 \<Rightarrow> u32 \<Rightarrow> (string \<times> string) list" where
  "index_count idx cnt = [(''StartIndex'', int32_to_string idx), (''Count'', int32_to_string cnt)]"

definition GetRecordScheduleList1_5 :: "('r, 'w) platform \<Rightarrow> ('w, RecordSchedule list) call" where
  "GetRecordScheduleList1_5 pf api w =
     list_pages pf ''/Dvr/GetRecordScheduleList''
       \<lparr>pg_list = ''RecRuleList'', pg_items = ''RecRules'', pg_params = index_count,
        pg_add = (\<lambda>n ret. ret @ [bind_schedule pf (proto_of api) n]), pg_limit = 0\<rparr>
       FETCHSIZE [] api w"

definition GetRecordScheduleList :: "('r, 'w) platform \<Rightarrow> ('w, RecordSchedule list) call" where
  "GetRecordScheduleList pf = dispatch pf WS_Dvr [(0x00010005, GetRecordScheduleList1_5 pf)] []"

definition GetRecordSchedule1_5 :: "('r, 'w) platform \<Rightarrow> u32 \<Rightarrow> ('w, RecordSchedule option) call" where
  "GetRecordSchedule1_5 pf recordid api w =
     reply pf ''/Dvr/GetRecordSchedule'' WS_METHOD_Get [(''RecordId'', uint32_to_string recordid)]
       (\<lambda>root. case root of
          None \<Rightarrow> None
        | Some r \<Rightarrow> (let s = bind_schedule pf (proto_of api) (GetObjectValue ''RecRule'' r) in
                     if rs_recordId s > 0 then Some s else None)) api w"

definition GetRecordSchedule :: "('r, 'w) platform \<Rightarrow> u32 \<Rightarrow> ('w, RecordSchedule option) call" where
  "GetRecordSchedule pf recordid = dispatch pf WS_Dvr [(0x00010005, GetRecordSchedule1_5 pf recordid)] None"

text \<open>The parameters of a schedule: up to its channel, the place in the week that came with 1.7, and the others.\<close>

definition schedule_program :: "RecordSchedule \<Rightarrow> (string \<times> string) list" where
  "schedule_program r =
     [(''Title'', rs_title r), (''Subtitle'', rs_subtitle r), (''Description'', rs_description r),
      (''Category'', rs_category r), (''StartTime'', time_to_iso8601utc (rs_startTime r)),
      (''EndTime'', time_to_iso8601utc (rs_endTime r)), (''SeriesId'', rs_seriesId r),
      (''ProgramId'', rs_programId r), (''ChanId'', uint32_to_string (rs_chanId r))]"

definition schedule_place :: "RecordSchedule \<Rightarrow> (string \<times> string) list" where
  "schedule_place r =
     [(''Station'', rs_callSign r), (''FindDay'', int8_to_string (rs_findDay r)), (''FindTime'', rs_findTime r)]"

definition schedule_rule :: "RecordSchedule \<Rightarrow> (string \<times> string) list" where
  "schedule_rule r =
     [(''ParentId'', uint32_to_string (rs_parentId r)), (''Inactive'', BOOLSTR (rs_inactive r)),
      (''Season'', uint16_to_string (rs_season r)), (''Episode'', uint16_to_string (rs_episode r)),
      (''Inetref'', rs_inetref r), (''Type'', rs_type r), (''SearchType'', rs_searchType r),
      (''RecPriority'', int8_to_string (rs_recPriority r)),
      (''PreferredInput'', uint32_to_string (rs_preferredInput r)),
      (''StartOffset'', uint8_to_string (rs_startOffset r)), (''EndOffset'', uint8_to_string (rs_endOffset r)),
      (''DupMethod'', rs_dupMethod r), (''DupIn'', rs_dupIn r), (''Filter'', uint32_to_string (rs_filter r)),
      (''RecProfile'', rs_recProfile r), (''RecGroup'', rs_recGroup r), (''StorageGroup'', rs_storageGroup r),
      (''PlayGroup'', rs_playGroup r), (''AutoExpire'', BOOLSTR (rs_autoExpire r)),
      (''MaxEpisodes'', uint32_to_string (rs_maxEpisodes r)), (''MaxNewest'', BOOLSTR (rs_maxNewest r)),
      (''AutoCommflag'', BOOLSTR (rs_autoCommflag r)), (''AutoTranscode'', BOOLSTR (rs_autoTranscode r)),
      (''AutoMetaLookup'', BOOLSTR (rs_autoMetaLookup r)), (''AutoUserJob1'', BOOLSTR (rs_autoUserJob1 r)),
      (''AutoUserJob2'', BOOLSTR (rs_autoUserJob2 r)), (''AutoUserJob3'', BOOLSTR (rs_autoUserJob3 r)),
      (''AutoUserJob4'', BOOLSTR (rs_autoUserJob4 r)), (''Transcoder'', uint32_to_string (rs_transcoder r))]"

text \<open>The identifier of the new schedule, as a number (cut to 32 bits) or as a text.\<close>

definition schedule_id :: "('r, 'w) platform \<Rightarrow> string \<Rightarrow> json option \<Rightarrow> u32 option" where
  "schedule_id pf name root =
     (case root of
        None \<Rightarrow> None
      | Some r \<Rightarrow>
          (let field = GetObjectValue name r in
           if IsInt field then Some (ucast (GetBigIntValue (pf_fpu pf) field))
           else if \<not> IsString field then None
           else (case string_to_uint32 (c_str (GetStringValue field)) of Inl e \<Rightarrow> None | Inr v \<Rightarrow> Some v)))"

definition added :: "RecordSchedule \<Rightarrow> u32 option \<Rightarrow> bool \<times> RecordSchedule" where
  "added r rid = (case rid of None \<Rightarrow> (False, r) | Some v \<Rightarrow> (True, r\<lparr>rs_recordId := v\<rparr>))"

definition AddRecordSchedule1_5 :: "('r, 'w) platform \<Rightarrow> RecordSchedule \<Rightarrow> ('w, bool \<times> RecordSchedule) call" where
  "AddRecordSchedule1_5 pf r0 api w =
     (let r = ProcessRecordOUT (pf_zone pf) (proto_of api) r0 in
      reply pf ''/Dvr/AddRecordSchedule'' WS_METHOD_Post (schedule_program r @ schedule_rule r)
        (\<lambda>root. added r (schedule_id pf ''int'' root)) api w)"

definition AddRecordSchedule1_7 :: "('r, 'w) platform \<Rightarrow> RecordSchedule \<Rightarrow> ('w, bool \<times> RecordSchedule) call" where
  "AddRecordSchedule1_7 pf r0 api w =
     (let r = ProcessRecordOUT (pf_zone pf) (proto_of api) r0 in
      reply pf ''/Dvr/AddRecordSchedule'' WS_METHOD_Post (schedule_program r @ schedule_place r @ schedule_rule r)
        (\<lambda>root. added r (schedule_id pf ''uint'' root)) api w)"

definition AddRecordSchedule :: "('r, 'w) platform \<Rightarrow> RecordSchedule \<Rightarrow> ('w, bool \<times> RecordSchedule) call" where
  "AddRecordSchedule pf r =
     dispatch pf WS_Dvr [(0x00010007, AddRecordSchedule1_7 pf r), (0x00010005, AddRecordSchedule1_5 pf r)] (False, r)"

definition UpdateRecordSchedule1_7 :: "('r, 'w) platform \<Rightarrow> RecordSchedule \<Rightarrow> ('w, bool \<times> RecordSchedule) call" where
  "UpdateRecordSchedule1_7 pf r0 api w =
     (let r = ProcessRecordOUT (pf_zone pf) (proto_of api) r0 in
      reply pf ''/Dvr/UpdateRecordSchedule'' WS_METHOD_Post
        ((''RecordId'', uint32_to_string (rs_recordId r)) # schedule_program r @ schedule_place r @ schedule_rule r)
        (\<lambda>root. (true_field root, r)) api w)"

definition UpdateRecordSchedule :: "('r, 'w) platform \<Rightarrow> RecordSchedule \<Rightarrow> ('w, bool \<times> RecordSchedule) call" where
  "UpdateRecordSchedule pf r = dispatch pf WS_Dvr [(0x00010007, UpdateRecordSchedule1_7 pf r)] (False, r)"

definition DisableRecordSchedule1_5 :: "('r, 'w) platform \<Rightarrow> u32 \<Rightarrow> ('w, bool) call" where
  "DisableRecordSchedule1_5 pf recordid =
     reply pf ''/Dvr/DisableRecordSchedule'' WS_METHOD_Post [(''RecordId'', uint32_to_string recordid)] true_field"

definition EnableRecordSchedule1_5 :: "('r, 'w) platform \<Rightarrow> u32 \<Rightarrow> ('w, bool) call" where
  "EnableRecordSchedule1_5 pf recordid =
     reply pf ''/Dvr/EnableRecordSchedule'' WS_METHOD_Post [(''RecordId'', uint32_to_string recordid)] true_field"

definition RemoveRecordSchedule1_5 :: "('r, 'w) platform \<Rightarrow> u32 \<Rightarrow> ('w, bool) call" where
  "RemoveRecordSchedule1_5 pf recordid =
     reply pf ''/Dvr/RemoveRecordSchedule'' WS_METHOD_Post [(''RecordId'', uint32_to_string recordid)] true_field"

definition DisableRecordSchedule :: "('r, 'w) platform \<Rightarrow> u32 \<Rightarrow> ('w, bool) call" where
  "DisableRecordSchedule pf recordid = dispatch pf WS_Dvr [(0x00010005, DisableRecordSchedule1_5 pf recordid)] False"

definition EnableRecordSchedule :: "('r, 'w) platform \<Rightarrow> u32 \<Rightarrow> ('w, bool) call" where
  "EnableRecordSchedule pf recordid = dispatch pf WS_Dvr [(0x00010005, EnableRecordSchedule1_5 pf recordid)] False"

definition RemoveRecordSchedule :: "('r, 'w) platform \<Rightarrow> u32 \<Rightarrow> ('w, bool) call" where
  "RemoveRecordSchedule pf recordid = dispatch pf WS_Dvr [(0x00010005, RemoveRecordSchedule1_5 pf recordid)] False"

section \<open>Lists of programs\<close>

definition program_pages :: "('r, 'w) platform \<Rightarrow> nat \<Rightarrow> (string \<times> string) list \<Rightarrow> Program list paging" where
  "program_pages pf proto extra =
     \<lparr>pg_list = ''ProgramList'', pg_items = ''Programs'', pg_params = (\<lambda>idx cnt. index_count idx cnt @ extra),
      pg_add = (\<lambda>n ret. ret @ [bind_program_recording pf proto n]), pg_limit = 0\<rparr>"

definition GetUpcomingList2_2 :: "('r, 'w) platform \<Rightarrow> ('w, Program list) call" where
  "GetUpcomingList2_2 pf api w =
     list_pages pf ''/Dvr/GetUpcomingList'' (program_pages pf (proto_of api) [(''ShowAll'', ''true'')])
       FETCHSIZE [] api w"

text \<open>Before 2.2 the list has not what is being recorded: it is taken from the last 20 recordings.\<close>

definition being_recorded :: "Program \<Rightarrow> bool" where
  "being_recorded p = (sint (status (recording p)) = RS_num RS_RECORDING)"

definition GetUpcomingList1_5 :: "('r, 'w) platform \<Rightarrow> ('w, Program list) call" where
  "GetUpcomingList1_5 pf api w = do {
     (ret, api1, w1) \<leftarrow> GetUpcomingList2_2 pf api w;
     (recordings, api2, w2) \<leftarrow> GetRecordedList pf 20 True api1 w1;
     Some (ret @ filter being_recorded recordings, api2, w2)
   }"

definition GetUpcomingList :: "('r, 'w) platform \<Rightarrow> ('w, Program list) call" where
  "GetUpcomingList pf =
     dispatch pf WS_Dvr [(0x00020002, GetUpcomingList2_2 pf), (0x00010005, GetUpcomingList1_5 pf)] []"

definition GetConflictList1_5 :: "('r, 'w) platform \<Rightarrow> ('w, Program list) call" where
  "GetConflictList1_5 pf api w =
     list_pages pf ''/Dvr/GetConflictList'' (program_pages pf (proto_of api) []) FETCHSIZE [] api w"

definition GetExpiringList1_5 :: "('r, 'w) platform \<Rightarrow> ('w, Program list) call" where
  "GetExpiringList1_5 pf api w =
     list_pages pf ''/Dvr/GetExpiringList'' (program_pages pf (proto_of api) []) FETCHSIZE [] api w"

definition GetConflictList :: "('r, 'w) platform \<Rightarrow> ('w, Program list) call" where
  "GetConflictList pf = dispatch pf WS_Dvr [(0x00010005, GetConflictList1_5 pf)] []"

definition GetExpiringList :: "('r, 'w) platform \<Rightarrow> ('w, Program list) call" where
  "GetExpiringList pf = dispatch pf WS_Dvr [(0x00010005, GetExpiringList1_5 pf)] []"

definition GetRecGroupList1_5 :: "('r, 'w) platform \<Rightarrow> ('w, string list) call" where
  "GetRecGroupList1_5 pf =
     reply pf ''/Dvr/GetRecGroupList'' WS_METHOD_Get []
       (\<lambda>root. case root of
          None \<Rightarrow> []
        | Some r \<Rightarrow> (let lst = GetObjectValue ''StringList'' r in
                     if IsArray lst then map GetStringValue (filter IsString (items lst)) else []))"

definition GetRecGroupList :: "('r, 'w) platform \<Rightarrow> ('w, string list) call" where
  "GetRecGroupList pf = dispatch pf WS_Dvr [(0x00010005, GetRecGroupList1_5 pf)] []"

section \<open>Streams\<close>

text \<open>A stream takes over the response it is made of. The count of a read is an \<open>unsigned\<close> that goes through an
  \<open>int\<close>: it is modelled below \<open>2 ^ 31\<close>.\<close>

record 'r wsstream =
  ws_response :: "'r option"
  ws_position :: i64

definition WSStream_null :: "'r wsstream" where
  "WSStream_null = \<lparr>ws_response = None, ws_position = 0\<rparr>"

definition WSStream_new :: "'r \<Rightarrow> 'r wsstream" where
  "WSStream_new resp = \<lparr>ws_response = Some resp, ws_position = 0\<rparr>"

definition WSStream_Read :: "('r, 'w) http \<Rightarrow> nat \<Rightarrow> 'r wsstream \<Rightarrow> (bytes option \<times> 'r wsstream) option" where
  "WSStream_Read h n s =
     (case ws_response s of
        None \<Rightarrow> Some (Some [], s)
      | Some resp \<Rightarrow>
          (case http_read h n resp of
             None \<Rightarrow> None
           | Some (d, resp1) \<Rightarrow>
               (case d of
                  None \<Rightarrow> Some (None, s\<lparr>ws_response := Some resp1\<rparr>)
                | Some buf \<Rightarrow> Some (Some buf, s\<lparr>ws_response := Some resp1,
                                                ws_position := ws_position s + of_nat (length buf)\<rparr>))))"

definition WSStream_GetSize :: "'r wsstream \<Rightarrow> i64" where
  "WSStream_GetSize s = (if ws_response s \<noteq> None then - 1 else 0)"

definition WSStream_GetPosition :: "'r wsstream \<Rightarrow> i64" where
  "WSStream_GetPosition s = (if ws_response s \<noteq> None then ws_position s else 0)"

definition WSStream_Seek :: "i64 \<Rightarrow> WHENCE_t \<Rightarrow> 'r wsstream \<Rightarrow> i64" where
  "WSStream_Seek offset whence s = WSStream_GetPosition s"

section \<open>Service Content\<close>

text \<open>What the operations that give a stream have in common: other hosts may be followed, no location is
  trusted with the credentials.\<close>

definition open_stream ::
    "('r, 'w) platform \<Rightarrow> string \<Rightarrow> (string \<times> string) list \<Rightarrow> ('w, 'r wsstream option) call" where
  "open_stream pf svc pars api w = do {
     ((resp, q), api1, w1) \<leftarrow> Execute pf 1 False True (make_query pf svc WS_METHOD_Get pars api) api w;
     Some (if http_successful (pf_http pf) resp then Some (WSStream_new resp) else None, api1, w1)
   }"

definition image_size :: "u32 \<Rightarrow> u32 \<Rightarrow> (string \<times> string) list" where
  "image_size width height =
     (if width \<noteq> 0 then [(''Width'', uint32_to_string width)] else [])
     @ (if height \<noteq> 0 then [(''Height'', uint32_to_string height)] else [])"

definition image_size_url :: "u32 \<Rightarrow> u32 \<Rightarrow> string" where
  "image_size_url width height =
     (if width \<noteq> 0 then ''&Width='' @ uint32_to_string width else [])
     @ (if height \<noteq> 0 then ''&Height='' @ uint32_to_string height else [])"

definition GetFile1_32 :: "('r, 'w) platform \<Rightarrow> string \<Rightarrow> string \<Rightarrow> ('w, 'r wsstream option) call" where
  "GetFile1_32 pf filename sgname =
     open_stream pf ''/Content/GetFile'' [(''StorageGroup'', sgname), (''FileName'', filename)]"

definition GetChannelIcon1_32 :: "('r, 'w) platform \<Rightarrow> u32 \<Rightarrow> u32 \<Rightarrow> u32 \<Rightarrow> ('w, 'r wsstream option) call" where
  "GetChannelIcon1_32 pf chanid width height =
     open_stream pf ''/Guide/GetChannelIcon'' ((''ChanId'', uint32_to_string chanid) # image_size width height)"

definition GetChannelIconUrl1_32 :: "u32 \<Rightarrow> u32 \<Rightarrow> u32 \<Rightarrow> wsapi \<Rightarrow> string" where
  "GetChannelIconUrl1_32 chanid width height api =
     GetBaseURL api @ ''/Guide/GetChannelIcon'' @ ''?ChanId='' @ uint32_to_string chanid @ image_size_url width height"

definition GetPreviewImage1_32 ::
    "('r, 'w) platform \<Rightarrow> u32 \<Rightarrow> time_t \<Rightarrow> u32 \<Rightarrow> u32 \<Rightarrow> ('w, 'r wsstream option) call" where
  "GetPreviewImage1_32 pf chanid recstartts width height =
     open_stream pf ''/Content/GetPreviewImage''
       ([(''ChanId'', uint32_to_string chanid), (''StartTime'', time_to_iso8601utc recstartts)] @ image_size width height)"

definition GetPreviewImageUrl1_32 :: "u32 \<Rightarrow> time_t \<Rightarrow> u32 \<Rightarrow> u32 \<Rightarrow> wsapi \<Rightarrow> string" where
  "GetPreviewImageUrl1_32 chanid recstartts width height api =
     GetBaseURL api @ ''/Content/GetPreviewImage'' @ ''?ChanId='' @ uint32_to_string chanid
     @ ''&StartTime='' @ urlencode (time_to_iso8601utc recstartts) @ image_size_url width height"

definition GetRecordingArtwork1_32 ::
    "('r, 'w) platform \<Rightarrow> string \<Rightarrow> string \<Rightarrow> u16 \<Rightarrow> u32 \<Rightarrow> u32 \<Rightarrow> ('w, 'r wsstream option) call" where
  "GetRecordingArtwork1_32 pf typ ref snr width height =
     open_stream pf ''/Content/GetRecordingArtwork''
       ([(''Type'', cstr typ), (''Inetref'', cstr ref), (''Season'', uint16_to_string snr)] @ image_size width height)"

definition GetRecordingArtworkUrl1_32 :: "string \<Rightarrow> string \<Rightarrow> u16 \<Rightarrow> u32 \<Rightarrow> u32 \<Rightarrow> wsapi \<Rightarrow> string" where
  "GetRecordingArtworkUrl1_32 typ ref snr width height api =
     GetBaseURL api @ ''/Content/GetRecordingArtwork'' @ ''?Type='' @ urlencode typ @ ''&Inetref='' @ urlencode ref
     @ ''&Season='' @ uint16_to_string snr @ image_size_url width height"

definition GetRecordingArtworkList1_32 :: "('r, 'w) platform \<Rightarrow> u32 \<Rightarrow> time_t \<Rightarrow> ('w, Artwork list) call" where
  "GetRecordingArtworkList1_32 pf chanid recstartts api w =
     reply pf ''/Content/GetRecordingArtworkList'' WS_METHOD_Get
       [(''ChanId'', uint32_to_string chanid), (''StartTime'', time_to_iso8601utc recstartts)]
       (bind_items pf ''ArtworkInfoList'' ''ArtworkInfos'' (getArtworkBindArray (proto_of api)) Artwork_init) api w"

text \<open>The operations with the choice of the version; a URL asks the server nothing beyond that.\<close>

definition GetFile :: "('r, 'w) platform \<Rightarrow> string \<Rightarrow> string \<Rightarrow> ('w, 'r wsstream option) call" where
  "GetFile pf filename sgname = dispatch pf WS_Content [(0x00010020, GetFile1_32 pf filename sgname)] None"

definition GetChannelIcon :: "('r, 'w) platform \<Rightarrow> u32 \<Rightarrow> u32 \<Rightarrow> u32 \<Rightarrow> ('w, 'r wsstream option) call" where
  "GetChannelIcon pf chanid width height =
     dispatch pf WS_Content [(0x00010020, GetChannelIcon1_32 pf chanid width height)] None"

definition ask_nothing :: "(wsapi \<Rightarrow> string) \<Rightarrow> ('w, string) call" where
  "ask_nothing f api w = Some (f api, api, w)"

definition GetChannelIconUrl :: "('r, 'w) platform \<Rightarrow> u32 \<Rightarrow> u32 \<Rightarrow> u32 \<Rightarrow> ('w, string) call" where
  "GetChannelIconUrl pf chanid width height =
     dispatch pf WS_Content [(0x00010020, ask_nothing (GetChannelIconUrl1_32 chanid width height))] ''''"

definition GetPreviewImage ::
    "('r, 'w) platform \<Rightarrow> u32 \<Rightarrow> time_t \<Rightarrow> u32 \<Rightarrow> u32 \<Rightarrow> ('w, 'r wsstream option) call" where
  "GetPreviewImage pf chanid recstartts width height =
     dispatch pf WS_Content [(0x00010020, GetPreviewImage1_32 pf chanid recstartts width height)] None"

definition GetPreviewImageUrl :: "('r, 'w) platform \<Rightarrow> u32 \<Rightarrow> time_t \<Rightarrow> u32 \<Rightarrow> u32 \<Rightarrow> ('w, string) call" where
  "GetPreviewImageUrl pf chanid recstartts width height =
     dispatch pf WS_Content [(0x00010020, ask_nothing (GetPreviewImageUrl1_32 chanid recstartts width height))] ''''"

definition GetRecordingArtwork ::
    "('r, 'w) platform \<Rightarrow> string \<Rightarrow> string \<Rightarrow> u16 \<Rightarrow> u32 \<Rightarrow> u32 \<Rightarrow> ('w, 'r wsstream option) call" where
  "GetRecordingArtwork pf typ ref snr width height =
     dispatch pf WS_Content [(0x00010020, GetRecordingArtwork1_32 pf typ ref snr width height)] None"

definition GetRecordingArtworkUrl ::
    "('r, 'w) platform \<Rightarrow> string \<Rightarrow> string \<Rightarrow> u16 \<Rightarrow> u32 \<Rightarrow> u32 \<Rightarrow> ('w, string) call" where
  "GetRecordingArtworkUrl pf typ ref snr width height =
     dispatch pf WS_Content [(0x00010020, ask_nothing (GetRecordingArtworkUrl1_32 typ ref snr width height))] ''''"

definition GetRecordingArtworkList :: "('r, 'w) platform \<Rightarrow> u32 \<Rightarrow> time_t \<Rightarrow> ('w, Artwork list) call" where
  "GetRecordingArtworkList pf chanid recstartts =
     dispatch pf WS_Content [(0x00010020, GetRecordingArtworkList1_32 pf chanid recstartts)] []"

end
