(* ===== verification/JsonPrint.thy ===== *)
theory JsonPrint
  imports Json
begin

text \<open>
  The JSON parser against a reference printer: what a value prints as is read back as that value.
  At the end the parser runs on concrete documents, for the witnesses of the properties of \<open>Json\<close>.
\<close>

section \<open>Printing\<close>

text \<open>A reference printer: compact, with the escapes the format requires.\<close>

definition hex_digit :: "nat \<Rightarrow> char" where
  "hex_digit n = (if n < 10 then char_of (48 + n) else char_of (87 + n))"

definition escape_char :: "char \<Rightarrow> string" where
  "escape_char c =
     (if c = CHR 0x22 \<or> c = CHR 0x5C then [CHR 0x5C, c]
      else if (of_char c :: nat) < 32 then
        CHR 0x5C # ''u00'' @ [hex_digit (of_char c div 16), hex_digit (of_char c mod 16)]
      else [c])"

definition quote :: "string \<Rightarrow> string" where
  "quote s = CHR 0x22 # concat (map escape_char s) @ [CHR 0x22]"

definition render_int :: "i32 \<Rightarrow> string" where
  "render_int i = (if sint i < 0 then CHR ''-'' # dec_nat (nat (- sint i)) else dec_nat (nat (sint i)))"

fun commas :: "string list \<Rightarrow> string" where
  "commas [] = []"
| "commas [x] = x"
| "commas (x # y # xs) = x @ CHR '','' # commas (y # xs)"

primrec render :: "json \<Rightarrow> string" where
  "render (JInt i) = render_int i"
| "render (JDouble d) = []"
| "render JNull = ''null''"
| "render JFalse = ''false''"
| "render JTrue = ''true''"
| "render (JStr s) = quote s"
| "render (JArr js) = CHR ''['' # commas (map render js) @ '']''"
| "render (JObj fs) =
     CHR 0x7B # commas (map (\<lambda>(k, t). quote (key_text k) @ CHR '':'' # t) (map (map_prod id render) fs)) @ [CHR 0x7D]"

text \<open>The values whose print the parser gives back: no \<open>double\<close>, and integers below the bound
  from which the parser makes a \<open>double\<close>.\<close>

fun printable :: "json \<Rightarrow> bool" where
  "printable (JInt i) \<longleftrightarrow> \<bar>sint i\<bar> < 2147483560"
| "printable (JDouble d) \<longleftrightarrow> False"
| "printable (JArr js) \<longleftrightarrow> (\<forall>j\<in>set js. printable j)"
| "printable (JObj fs) \<longleftrightarrow> (\<forall>(k, j)\<in>set fs. printable j)"
| "printable _ \<longleftrightarrow> True"

lemma hex_digit_cases: "m < 16 \<Longrightarrow> hex_val (hex_digit m) = Some m"
  by (auto simp: hex_digit_def hex_val_def Let_def)

lemma escape_char_cases:
  "c = CHR 0x22 \<or> c = CHR 0x5C \<Longrightarrow> escape_char c = [CHR 0x5C, c]"
  "(of_char c :: nat) < 32 \<Longrightarrow> escape_char c =
     CHR 0x5C # ''u00'' @ [hex_digit (of_char c div 16), hex_digit (of_char c mod 16)]"
  "\<not> (of_char c :: nat) < 32 \<Longrightarrow> c \<noteq> CHR 0x22 \<Longrightarrow> c \<noteq> CHR 0x5C \<Longrightarrow> escape_char c = [c]"
  by (auto simp: escape_char_def)

lemma escape_control:
  assumes "(of_char c :: nat) < 32"
  shows "escape (''u00'' @ [hex_digit (of_char c div 16), hex_digit (of_char c mod 16)] @ rest) = Inr ([c], rest)"
proof -
  have h: "hex_val (hex_digit (of_char c div 16)) = Some (of_char c div 16)"
    "hex_val (hex_digit (of_char c mod 16)) = Some (of_char c mod 16)"
    using assms by (simp_all add: hex_digit_cases)
  have z: "hex_val (CHR ''0'') = Some 0" by (simp add: hex_val_def Let_def)
  have four: "(4::nat) = Suc (Suc (Suc (Suc 0)))" by simp
  have "read_hex 4 0 (''00'' @ [hex_digit (of_char c div 16), hex_digit (of_char c mod 16)] @ rest) = Inr (of_char c, rest)"
    unfolding four by (simp add: z h)
  then show ?thesis
    using assms by (simp add: escape_def simple_escape_def unicode_escape_def write_utf8_def)
qed

lemma blank_control_id: "\<not> (of_char c :: nat) < 32 \<Longrightarrow> blank_control c = c"
  by (simp add: blank_control_def)

lemma slow_quoted: "parse_string_slow acc (concat (map escape_char s) @ CHR 0x22 # rest) = Inr (acc @ s, rest)"
proof (induction s arbitrary: acc)
  case Nil
  then show ?case by (simp add: slow_Cons blank_control_def)
next
  case (Cons c s)
  have b: "blank_control (CHR 0x5C) = CHR 0x5C" by (simp add: blank_control_def)
  consider "c = CHR 0x22 \<or> c = CHR 0x5C" | "(of_char c :: nat) < 32" "c \<noteq> CHR 0x22" "c \<noteq> CHR 0x5C"
    | "\<not> (of_char c :: nat) < 32" "c \<noteq> CHR 0x22" "c \<noteq> CHR 0x5C" by blast
  then show ?case
  proof cases
    case 1
    from 1 have e: "escape (c # concat (map escape_char s) @ CHR 0x22 # rest) = Inr ([c], concat (map escape_char s) @ CHR 0x22 # rest)"
      by (auto simp: escape_def simple_escape_def)
    with Cons.IH [of "acc @ [c]"] show ?thesis by (simp add: escape_char_cases(1) [OF 1] slow_Cons b)
  next
    case 2
    with Cons.IH [of "acc @ [c]"] escape_control [OF 2(1), of "concat (map escape_char s) @ CHR 0x22 # rest"]
    show ?thesis by (simp add: escape_char_cases(2) slow_Cons b)
  next
    case 3
    with Cons.IH [of "acc @ [c]"] show ?thesis by (simp add: escape_char_cases(3) [OF 3] slow_Cons blank_control_id)
  qed
qed

lemma loop_quoted: "string_loop acc (concat (map escape_char s) @ CHR 0x22 # rest) = Inr (acc @ s, rest)"
proof (induction s arbitrary: acc)
  case Nil
  then show ?case by (simp add: blank_control_def)
next
  case (Cons c s)
  show ?case
  proof (cases "escape_char c = [c] \<and> \<not> (of_char c :: nat) < 32 \<and> c \<noteq> CHR 0x22 \<and> c \<noteq> CHR 0x5C")
    case True
    with Cons.IH [of "acc @ [c]"] show ?thesis by (simp add: blank_control_id)
  next
    case False
    then obtain t where "escape_char c = CHR 0x5C # t" by (auto simp: escape_char_def split: if_split_asm)
    moreover have "blank_control (CHR 0x5C) = CHR 0x5C" by (simp add: blank_control_def)
    ultimately show ?thesis using slow_quoted [of acc "c # s" rest] by simp
  qed
qed

lemma parse_string_quote: "parse_string (quote s @ rest) = Inr (s, rest)"
  using loop_quoted [of "[]" s rest] by (simp add: parse_string_def quote_def)

lemma dec_value_Cons: "dec_value (x # ds) = digit_val x * 10 ^ length ds + dec_value ds"
proof (induction ds rule: rev_induct)
  case (snoc y ds)
  with dec_value_snoc [of "x # ds" y] show ?case by (simp add: algebra_simps)
qed (simp add: dec_value_def)

lemma int_digits_value:
  assumes "list_all isdigit ds" "\<not> isdigit c"
    and "v * 10 ^ length ds + int (dec_value ds) < 2147483560" "0 \<le> v"
  shows "int_digits f False v d (ds @ c # rest) = Inr (False, v * 10 ^ length ds + int (dec_value ds), d, c # rest)"
  using assms
proof (induction ds arbitrary: v)
  case (Cons x ds)
  let ?v = "10 * v + int (digit_val x)"
  have e: "?v * 10 ^ length ds + int (dec_value ds) = v * 10 ^ length (x # ds) + int (dec_value (x # ds))"
    by (simp add: dec_value_Cons algebra_simps)
  define P where "P = ?v * 10 ^ length ds"
  have "?v * 1 \<le> ?v * 10 ^ length ds" using Cons.prems(4) by (intro mult_left_mono) auto
  then have "?v \<le> P" by (simp add: P_def)
  moreover have "P + int (dec_value ds) < 2147483560" unfolding P_def e by (rule Cons.prems(3))
  ultimately have "10 * v < 2147483560" by linarith
  then have "\<not> v > INT_MAX div 10 - 9" by (simp add: INT_MAX_def)
  moreover have "int_digits f False ?v d (ds @ c # rest) = Inr (False, ?v * 10 ^ length ds + int (dec_value ds), d, c # rest)"
    using Cons.prems e by (intro Cons.IH) auto
  ultimately show ?case using Cons.prems(1) e by (simp add: Let_def)
qed simp

lemma dec_nat_zero: "hd (dec_nat n) = CHR ''0'' \<Longrightarrow> n = 0"
proof (rule ccontr)
  assume z: "hd (dec_nat n) = CHR ''0''" and n: "n \<noteq> 0"
  obtain ds where d: "dec_nat n = CHR ''0'' # ds"
    using z dec_nat_nonempty [of n] by (cases "dec_nat n") auto
  have "dec_value ds = n"
    using dec_value_dec_nat [of n] by (simp add: d dec_value_Cons digit_val_def)
  moreover have "list_all isdigit ds" using dec_nat_digits [of n] by (simp add: d)
  ultimately have "n < 10 ^ length ds" using dec_value_less by metis
  moreover have "0 < length ds" using calculation n by (cases ds) auto
  ultimately have "length (dec_nat n) \<le> length ds" by (rule dec_nat_length)
  then show False by (simp add: d)
qed

definition ends_value :: "bytes \<Rightarrow> bool" where
  "ends_value s \<longleftrightarrow> s \<noteq> [] \<and> hd s \<in> {CHR '','', CHR '']'', CHR 0x7D}"

lemma parse_number_render:
  assumes "\<bar>sint i\<bar> < 2147483560" "ends_value rest"
  shows "parse_number f (render_int i @ rest) = Inr (JInt i, rest)"
proof -
  let ?n = "nat \<bar>sint i\<bar>"
  obtain c cs where rest: "rest = c # cs" "\<not> isdigit c" "c \<noteq> CHR ''.''" "c \<noteq> CHR ''e''" "c \<noteq> CHR ''E''"
    using assms(2) by (cases rest) (auto simp: ends_value_def isdigit_def)
  obtain x xs where d: "dec_nat ?n = x # xs" using dec_nat_nonempty [of ?n] by (cases "dec_nat ?n") auto
  have dx: "isdigit x" using dec_nat_digits [of ?n] by (simp add: d)
  have int: "int_part f (dec_nat ?n @ rest) = Inr (False, \<bar>sint i\<bar>, fp_int f 0, rest)"
  proof (cases "x = CHR ''0''")
    case True
    then have "?n = 0" using dec_nat_zero [of ?n] by (simp add: d)
    moreover have "dec_nat 0 = ''0''" by code_simp
    ultimately show ?thesis by (simp add: int_part_def)
  next
    case False
    have "int_digits f False 0 (fp_int f 0) (dec_nat ?n @ c # cs) =
        Inr (False, 0 * 10 ^ length (dec_nat ?n) + int (dec_value (dec_nat ?n)), fp_int f 0, c # cs)"
      using assms(1) rest(2) by (intro int_digits_value dec_nat_digits) auto
    moreover have "int (dec_value (x # xs)) = \<bar>sint i\<bar>" using dec_value_dec_nat [of ?n] by (simp add: d)
    ultimately show ?thesis using False by (simp add: int_part_def d rest(1) del: int_digits.simps)
  qed
  have tail: "frac_part f False v d rest = Inr (False, d, 0, rest)"
    "exp_part f False v d e rest = Inr (False, d, e, rest)" for v d e
    using rest by (simp_all add: frac_part_def exp_part_def)
  have sg: "x \<noteq> CHR ''-''" using isdigit_props [OF dx] by simp
  have num: "parse_number f (sgn @ dec_nat ?n @ rest) =
      Inr (JInt (word_of_int (if sgn = [] then \<bar>sint i\<bar> else - \<bar>sint i\<bar>)), rest)"
    if "sgn = [] \<or> sgn = ''-''" for sgn
  proof -
    define m where "m = \<bar>sint i\<bar>"
    have d1: "dec_nat (nat m) = x # xs" unfolding m_def by (rule d)
    have i: "int_part f (x # xs @ rest) = Inr (False, m, fp_int f 0, rest)" using int by (simp add: m_def d)
    from that tail sg show ?thesis
      unfolding m_def [symmetric] d1
      by (elim disjE) (simp_all add: parse_number_def finish_number_def Let_def i)
  qed
  have r: "render_int i = (if sint i < 0 then ''-'' else []) @ dec_nat ?n"
    by (simp add: render_int_def)
  have a: "(if (if sint i < 0 then ''-'' else []) = [] then \<bar>sint i\<bar> else - \<bar>sint i\<bar>) = sint i" by simp
  show ?thesis
    unfolding r append_assoc by (subst num) (simp_all only: a, simp_all)
qed

text \<open>What the printed value is read back as: the objects come back ordered.\<close>

primrec canon :: "json \<Rightarrow> json" where
  "canon (JInt i) = JInt i"
| "canon (JDouble d) = JDouble d"
| "canon JNull = JNull"
| "canon JFalse = JFalse"
| "canon JTrue = JTrue"
| "canon (JStr s) = JStr s"
| "canon (JArr js) = JArr (map canon js)"
| "canon (JObj fs) = JObj (sort_key fst (map (map_prod id canon) fs))"

lemma canon_well_typed: "well_typed j \<Longrightarrow> canon j = j"
proof (induction j)
  case (JArr js)
  then show ?case by (simp add: map_idI)
next
  case (JObj fs)
  have "map (map_prod id canon) fs = fs" using JObj by (intro map_idI) (force simp: map_prod_def)
  with JObj.prems show ?case by (simp add: sort_key_id_if_sorted)
qed simp_all

text \<open>The loop from the value on.\<close>

definition value_loop :: "fpu \<Rightarrow> bool \<Rightarrow> jparser \<Rightarrow> bytes \<Rightarrow> json_error + json" where
  "value_loop f h st s =
     (case parse_value f h st s of
        Inl e \<Rightarrow> Inl e
      | Inr (More st1 s1) \<Rightarrow> parse_loop f st1 s1
      | Inr (Root j st1 s1) \<Rightarrow>
          if fst (peek_structure s1) = NUL then Inr j else Inl (Malformed ''expected end of input''))"

lemma parse_loop_value:
  "parse_comma st s = Inr (h, s1) \<Longrightarrow> parse_key st s1 = Inr (st1, s2) \<Longrightarrow> parse_loop f st s = value_loop f h st1 s2"
  by (subst parse_loop.simps) (simp add: parse_step_def value_loop_def)

definition level_ok :: "jparser \<Rightarrow> bool" where
  "level_ok st \<longleftrightarrow> ps_temp st = lv_base (ps_level st) + 1 + level_words (ps_level st)"

lemma level_ok_first: "level_ok st \<Longrightarrow> is_first_element st \<longleftrightarrow> lv_elems (ps_level st) = []"
  by (auto simp: level_ok_def is_first_element_def level_words_def)

lemma peek_Cons: "\<not> is_blank_char c \<Longrightarrow> peek_structure (c # s) = (c, c # s)"
  by (simp add: peek_structure_def skip_blanks_def head_char_def)

definition starts_value :: "char \<Rightarrow> bool" where
  "starts_value c \<longleftrightarrow> \<not> is_blank_char c \<and> c \<notin> {NUL, CHR '','', CHR '']'', CHR 0x7D, CHR '':''}"

lemma isdigit_starts: "isdigit c \<Longrightarrow> starts_value c"
  by (auto simp: starts_value_def is_blank_char_def isdigit_def)

lemma render_starts:
  assumes "printable j"
  obtains c t where "render j = c # t" "starts_value c"
proof -
  have "render j \<noteq> [] \<and> starts_value (hd (render j))"
  proof (cases j)
    case (JInt i)
    obtain x xs where "dec_nat (nat (sint i)) = x # xs" "isdigit x"
      using dec_nat_nonempty [of "nat (sint i)"] dec_nat_digits [of "nat (sint i)"] by (cases "dec_nat (nat (sint i))") auto
    with JInt isdigit_starts [of x] show ?thesis by (simp add: render_int_def starts_value_def is_blank_char_def)
  qed (use assms in \<open>simp_all add: quote_def starts_value_def is_blank_char_def\<close>)
  with that show thesis by (cases "render j") auto
qed

lemma commas_Cons: "commas (x # xs) = x @ (if xs = [] then [] else CHR '','' # commas xs)"
  by (cases xs) simp_all

lemma scalar_render:
  assumes "printable j" "ends_value rest" "\<not> (\<exists>js. j = JArr js)" "\<not> (\<exists>fs. j = JObj fs)"
  shows "\<exists>out. value_loop f h st (render j @ rest) = parse_loop f (add_element (canon j) (st\<lparr>ps_out := out\<rparr>)) rest"
proof -
  obtain c t where r: "render j = c # t" "starts_value c" by (rule render_starts [OF assms(1)])
  have "parse_scalar f c (render j @ rest) = Inr (j, rest) \<and> c \<noteq> CHR ''['' \<and> c \<noteq> CHR 0x7B"
  proof (cases j)
    case (JInt i)
    have "isdigit (hd (dec_nat n))" for n
      using dec_nat_digits [of n] dec_nat_nonempty [of n] by (cases "dec_nat n") auto
    moreover have "c = hd (render_int i)" using r(1) JInt by simp
    ultimately have "isdigit c \<or> c = CHR ''-''"
      unfolding render_int_def by (cases "sint i < 0") (simp_all only: if_True if_False list.sel simp_thms)
    moreover have "parse_number f (render j @ rest) = Inr (j, rest)"
      using parse_number_render [of i rest f] assms(1,2) JInt by simp
    ultimately show ?thesis by (auto simp: parse_scalar_def isdigit_def)
  next
    case (JStr x)
    have "c = CHR 0x22" using r(1) JStr by (simp add: quote_def)
    moreover have "parse_string (render j @ rest) = Inr (x, rest)" using parse_string_quote JStr by simp
    ultimately show ?thesis using JStr by (simp add: parse_scalar_def isdigit_def)
  qed (use assms r in \<open>auto simp: parse_scalar_def parse_null_def parse_false_def parse_true_def parse_word_def\<close>)
  moreover have "canon j = j" using assms(3,4) by (cases j) auto
  moreover have "c \<noteq> NUL" "c \<noteq> CHR '']''" "c \<noteq> CHR 0x7D" "\<not> is_blank_char c" using r(2) by (auto simp: starts_value_def)
  ultimately have "value_loop f h st (render j @ rest) = parse_loop f (add_element (canon j) (reserve_out j st)) rest"
    by (simp add: value_loop_def parse_value_def r(1) peek_Cons Let_def)
  then show ?thesis unfolding reserve_out_def by blast
qed

text \<open>The closing bracket of the open level.\<close>

lemma close_level:
  assumes "level_ok st" "lv_type (ps_level st) \<in> {TYPE_ARRAY, TYPE_OBJECT}"
  shows "parse_loop f st (closing_bracket (lv_type (ps_level st)) # rest) =
    (case pop_level st rest of More st1 s1 \<Rightarrow> parse_loop f st1 s1
     | Root j st1 s1 \<Rightarrow> if fst (peek_structure s1) = NUL then Inr j else Inl (Malformed ''expected end of input''))"
proof -
  let ?c = "closing_bracket (lv_type (ps_level st))"
  have nb: "\<not> is_blank_char ?c" "?c \<noteq> CHR '',''" "?c \<noteq> NUL" "?c \<noteq> CHR ''[''" "?c \<noteq> CHR 0x7B" "?c = CHR '']'' \<or> ?c = CHR 0x7D"
    by (auto simp: closing_bracket_def is_blank_char_def)
  have "parse_comma st (?c # rest) = Inr (False, ?c # rest)"
    by (simp add: parse_comma_def peek_Cons nb Let_def)
  moreover have "parse_key st (?c # rest) = Inr (st, ?c # rest)"
    by (simp add: parse_key_def peek_Cons nb Let_def) (simp add: closing_bracket_def)
  ultimately have "parse_loop f st (?c # rest) = value_loop f False st (?c # rest)" by (rule parse_loop_value)
  then show ?thesis
    using nb by (simp add: value_loop_def parse_value_def peek_Cons Let_def split: jstep.split)
qed

text \<open>The elements of an array and the entries of an object, each read by the round that begins at its comma.\<close>

definition value_reads :: "fpu \<Rightarrow> json \<Rightarrow> bool" where
  "value_reads f j \<longleftrightarrow> (\<forall>h st rest. ends_value rest \<longrightarrow>
     (\<exists>out. value_loop f h st (render j @ rest) = parse_loop f (add_element (canon j) (st\<lparr>ps_out := out\<rparr>)) rest))"

definition separator :: "jparser \<Rightarrow> 'a list \<Rightarrow> bytes" where
  "separator st xs = (if lv_elems (ps_level st) \<noteq> [] \<and> xs \<noteq> [] then '','' else [])"

lemma comma_reads:
  assumes "level_ok st" "starts_value c"
  shows "\<exists>h. parse_comma st (separator st (x # xs) @ c # t) = Inr (h, c # t)"
proof -
  have "\<not> is_blank_char (CHR '','')" by (simp add: is_blank_char_def)
  with assms(2) show ?thesis
    by (auto simp: parse_comma_def separator_def Let_def peek_Cons starts_value_def level_ok_first [OF assms(1)])
qed

lemma array_elements:
  assumes "\<forall>j\<in>set js. printable j \<and> value_reads f j" "level_ok st" "lv_type (ps_level st) = TYPE_ARRAY"
  shows "\<exists>out. parse_loop f st (separator st js @ commas (map render js) @ CHR '']'' # rest)
    = parse_loop f (fold (\<lambda>j. add_element (canon j)) js (st\<lparr>ps_out := out\<rparr>)) (CHR '']'' # rest)"
  using assms
proof (induction js arbitrary: st)
  case Nil
  have "st\<lparr>ps_out := ps_out st\<rparr> = st" by simp
  then show ?case by (auto simp: separator_def intro!: exI [of _ "ps_out st"])
next
  case (Cons j js)
  define X where "X = (if js = [] then [] else CHR '','' # commas (map render js)) @ CHR '']'' # rest"
  obtain c t where c: "render j = c # t" "starts_value c" using Cons.prems(1) render_starts [of j] by auto
  have X: "ends_value X" by (auto simp: X_def ends_value_def)
  obtain h where "parse_comma st (separator st (j # js) @ render j @ X) = Inr (h, render j @ X)"
    using comma_reads [OF Cons.prems(2) c(2), of j js "t @ X"] c(1) by auto
  moreover have "parse_key st (render j @ X) = Inr (st, render j @ X)"
    using c Cons.prems(3) by (simp add: parse_key_def Let_def peek_Cons starts_value_def)
  moreover from X Cons.prems(1) obtain out where
    "value_loop f h st (render j @ X) = parse_loop f (add_element (canon j) (st\<lparr>ps_out := out\<rparr>)) X"
    unfolding value_reads_def by fastforce
  ultimately have 1: "parse_loop f st (separator st (j # js) @ render j @ X) =
      parse_loop f (add_element (canon j) (st\<lparr>ps_out := out\<rparr>)) X"
    using parse_loop_value by metis
  let ?st = "add_element (canon j) (st\<lparr>ps_out := out\<rparr>)"
  have st: "level_ok ?st" "lv_type (ps_level ?st) = TYPE_ARRAY" "lv_elems (ps_level ?st) \<noteq> []"
    using Cons.prems(2,3) by (simp_all add: add_element_def level_ok_def level_words_def)
  have "separator ?st js @ commas (map render js) @ CHR '']'' # rest = X"
    using st(3) by (simp add: separator_def X_def)
  with Cons.IH [OF _ st(1,2)] Cons.prems(1) obtain out2 where
    "parse_loop f ?st X = parse_loop f (fold (\<lambda>j. add_element (canon j)) js (?st\<lparr>ps_out := out2\<rparr>)) (CHR '']'' # rest)" by auto
  moreover have "?st\<lparr>ps_out := out2\<rparr> = add_element (canon j) (st\<lparr>ps_out := out2\<rparr>)" by (simp add: add_element_def)
  moreover have "separator st (j # js) @ commas (map render (j # js)) @ CHR '']'' # rest = separator st (j # js) @ render j @ X"
    by (simp add: commas_Cons X_def)
  ultimately show ?case using 1 by (intro exI [of _ out2]) simp
qed

definition add_entry :: "jkey \<times> json \<Rightarrow> jparser \<Rightarrow> jparser" where
  "add_entry e st = add_element (canon (snd e)) (note_key (key_text (fst e)) st)"

definition render_entry :: "jkey \<times> json \<Rightarrow> string" where
  "render_entry e = quote (key_text (fst e)) @ CHR '':'' # render (snd e)"

lemma note_key_out: "note_key k (st\<lparr>ps_out := out\<rparr>) = (note_key k st)\<lparr>ps_out := out\<rparr>"
  by (simp add: note_key_def)

lemma object_elements:
  assumes "\<forall>e\<in>set fs. printable (snd e) \<and> value_reads f (snd e)" "level_ok st" "lv_type (ps_level st) = TYPE_OBJECT"
  shows "\<exists>out. parse_loop f st (separator st fs @ commas (map render_entry fs) @ CHR 0x7D # rest)
    = parse_loop f (fold add_entry fs (st\<lparr>ps_out := out\<rparr>)) (CHR 0x7D # rest)"
  using assms
proof (induction fs arbitrary: st)
  case Nil
  have "st\<lparr>ps_out := ps_out st\<rparr> = st" by simp
  then show ?case by (auto simp: separator_def intro!: exI [of _ "ps_out st"])
next
  case (Cons e fs)
  define X where "X = (if fs = [] then [] else CHR '','' # commas (map render_entry fs)) @ CHR 0x7D # rest"
  have X: "ends_value X" by (auto simp: X_def ends_value_def)
  let ?k = "key_text (fst e)" and ?v = "render (snd e)"
  obtain t where q: "quote ?k = CHR 0x22 # t" by (simp add: quote_def)
  have sv: "starts_value (CHR 0x22)" by (simp add: starts_value_def is_blank_char_def)
  obtain h where "parse_comma st (separator st (e # fs) @ render_entry e @ X) = Inr (h, render_entry e @ X)"
    using comma_reads [OF Cons.prems(2) sv, of e fs "t @ CHR '':'' # ?v @ X"] by (auto simp: render_entry_def q)
  moreover have "parse_key st (render_entry e @ X) = Inr (note_key ?k st, ?v @ X)"
  proof -
    have "parse_string (CHR 0x22 # t @ CHR '':'' # ?v @ X) = Inr (?k, CHR '':'' # ?v @ X)"
      using parse_string_quote [of ?k "CHR '':'' # ?v @ X"] by (simp add: q)
    then show ?thesis
      using Cons.prems(3) by (simp add: parse_key_def render_entry_def q Let_def peek_Cons is_blank_char_def)
  qed
  moreover from X Cons.prems(1) obtain out where
    "value_loop f h (note_key ?k st) (?v @ X) = parse_loop f (add_element (canon (snd e)) ((note_key ?k st)\<lparr>ps_out := out\<rparr>)) X"
    unfolding value_reads_def by fastforce
  ultimately have 1: "parse_loop f st (separator st (e # fs) @ render_entry e @ X) =
      parse_loop f (add_entry e (st\<lparr>ps_out := out\<rparr>)) X"
    using parse_loop_value by (metis add_entry_def note_key_out)
  let ?st = "add_entry e (st\<lparr>ps_out := out\<rparr>)"
  have st: "level_ok ?st" "lv_type (ps_level ?st) = TYPE_OBJECT" "lv_elems (ps_level ?st) \<noteq> []"
    using Cons.prems(2,3) by (simp_all add: add_entry_def add_element_def note_key_def level_ok_def level_words_def)
  have "separator ?st fs @ commas (map render_entry fs) @ CHR 0x7D # rest = X"
    using st(3) by (simp add: separator_def X_def)
  with Cons.IH [OF _ st(1,2)] Cons.prems(1) obtain out2 where
    "parse_loop f ?st X = parse_loop f (fold add_entry fs (?st\<lparr>ps_out := out2\<rparr>)) (CHR 0x7D # rest)" by auto
  moreover have "?st\<lparr>ps_out := out2\<rparr> = add_entry e (st\<lparr>ps_out := out2\<rparr>)"
    by (simp add: add_entry_def add_element_def note_key_def)
  moreover have "separator st (e # fs) @ commas (map render_entry (e # fs)) @ CHR 0x7D # rest = separator st (e # fs) @ render_entry e @ X"
    by (simp add: commas_Cons X_def)
  ultimately show ?case using 1 by (intro exI [of _ out2]) simp
qed

text \<open>The state the elements leave behind.\<close>

lemma fold_array:
  "ps_outer (fold (\<lambda>j. add_element (canon j)) js st) = ps_outer st
   \<and> lv_base (ps_level (fold (\<lambda>j. add_element (canon j)) js st)) = lv_base (ps_level st)
   \<and> lv_type (ps_level (fold (\<lambda>j. add_element (canon j)) js st)) = lv_type (ps_level st)
   \<and> map snd (rev (lv_elems (ps_level (fold (\<lambda>j. add_element (canon j)) js st)))) =
       map snd (rev (lv_elems (ps_level st))) @ map canon js
   \<and> (level_ok st \<longrightarrow> lv_type (ps_level st) = TYPE_ARRAY \<longrightarrow> level_ok (fold (\<lambda>j. add_element (canon j)) js st))"
  by (induction js arbitrary: st) (simp_all add: add_element_def level_ok_def level_words_def)

lemma fold_object:
  "ps_outer (fold add_entry fs st) = ps_outer st
   \<and> lv_base (ps_level (fold add_entry fs st)) = lv_base (ps_level st)
   \<and> lv_type (ps_level (fold add_entry fs st)) = lv_type (ps_level st)
   \<and> rev (lv_elems (ps_level (fold add_entry fs st))) = rev (lv_elems (ps_level st)) @ map (map_prod id canon) fs
   \<and> (level_ok st \<longrightarrow> lv_type (ps_level st) = TYPE_OBJECT \<longrightarrow> level_ok (fold add_entry fs st))"
proof (induction fs arbitrary: st)
  case (Cons e fs)
  then show ?case
    by (cases e) (simp add: add_entry_def add_element_def note_key_def level_ok_def level_words_def)
qed simp

text \<open>A whole array or object, read from a fresh level.\<close>

lemma level_reads_array:
  assumes "\<forall>j\<in>set js. printable j \<and> value_reads f j"
    and st: "ps_level st = open_level TYPE_ARRAY b" "ps_temp st = b + 1"
  shows "\<exists>st1. parse_loop f st (commas (map render js) @ CHR '']'' # rest) =
      (case pop_level st1 rest of More st2 s2 \<Rightarrow> parse_loop f st2 s2
       | Root j st2 s2 \<Rightarrow> if fst (peek_structure s2) = NUL then Inr j else Inl (Malformed ''expected end of input''))
    \<and> ps_outer st1 = ps_outer st \<and> lv_base (ps_level st1) = b \<and> install (ps_level st1) = JArr (map canon js)"
proof -
  have ok: "level_ok st" "lv_type (ps_level st) = TYPE_ARRAY" "separator st js = []"
    using st by (simp_all add: level_ok_def level_words_def open_level_def separator_def)
  from array_elements [OF assms(1) ok(1,2), of rest] ok(3) obtain out where
    e: "parse_loop f st (commas (map render js) @ CHR '']'' # rest)
      = parse_loop f (fold (\<lambda>j. add_element (canon j)) js (st\<lparr>ps_out := out\<rparr>)) (CHR '']'' # rest)" by auto
  let ?st1 = "fold (\<lambda>j. add_element (canon j)) js (st\<lparr>ps_out := out\<rparr>)"
  have "level_ok (st\<lparr>ps_out := out\<rparr>)" using ok(1) by (simp add: level_ok_def)
  with fold_array [of js "st\<lparr>ps_out := out\<rparr>"] st ok
  have f: "level_ok ?st1" "lv_type (ps_level ?st1) = TYPE_ARRAY" "ps_outer ?st1 = ps_outer st"
    "lv_base (ps_level ?st1) = b" "install (ps_level ?st1) = JArr (map canon js)"
    by (simp_all add: install_def install_array_def open_level_def)
  from close_level [OF f(1), of f rest] f(2) have "parse_loop f ?st1 (CHR '']'' # rest) =
      (case pop_level ?st1 rest of More st2 s2 \<Rightarrow> parse_loop f st2 s2
       | Root j st2 s2 \<Rightarrow> if fst (peek_structure s2) = NUL then Inr j else Inl (Malformed ''expected end of input''))"
    by (simp add: closing_bracket_def)
  with e f show ?thesis by (intro exI [of _ ?st1]) simp
qed

lemma level_reads_object:
  assumes "\<forall>e\<in>set fs. printable (snd e) \<and> value_reads f (snd e)"
    and st: "ps_level st = open_level TYPE_OBJECT b" "ps_temp st = b + 1"
  shows "\<exists>st1. parse_loop f st (commas (map render_entry fs) @ CHR 0x7D # rest) =
      (case pop_level st1 rest of More st2 s2 \<Rightarrow> parse_loop f st2 s2
       | Root j st2 s2 \<Rightarrow> if fst (peek_structure s2) = NUL then Inr j else Inl (Malformed ''expected end of input''))
    \<and> ps_outer st1 = ps_outer st \<and> lv_base (ps_level st1) = b \<and> install (ps_level st1) = canon (JObj fs)"
proof -
  have ok: "level_ok st" "lv_type (ps_level st) = TYPE_OBJECT" "separator st fs = []"
    using st by (simp_all add: level_ok_def level_words_def open_level_def separator_def)
  from object_elements [OF assms(1) ok(1,2), of rest] ok(3) obtain out where
    e: "parse_loop f st (commas (map render_entry fs) @ CHR 0x7D # rest)
      = parse_loop f (fold add_entry fs (st\<lparr>ps_out := out\<rparr>)) (CHR 0x7D # rest)" by auto
  let ?st1 = "fold add_entry fs (st\<lparr>ps_out := out\<rparr>)"
  have "level_ok (st\<lparr>ps_out := out\<rparr>)" using ok(1) by (simp add: level_ok_def)
  with fold_object [of fs "st\<lparr>ps_out := out\<rparr>"] st ok
  have f: "level_ok ?st1" "lv_type (ps_level ?st1) = TYPE_OBJECT" "ps_outer ?st1 = ps_outer st"
    "lv_base (ps_level ?st1) = b" "install (ps_level ?st1) = canon (JObj fs)"
    by (simp_all add: install_def install_object_def open_level_def)
  from close_level [OF f(1), of f rest] f(2) have "parse_loop f ?st1 (CHR 0x7D # rest) =
      (case pop_level ?st1 rest of More st2 s2 \<Rightarrow> parse_loop f st2 s2
       | Root j st2 s2 \<Rightarrow> if fst (peek_structure s2) = NUL then Inr j else Inl (Malformed ''expected end of input''))"
    by (simp add: closing_bracket_def)
  with e f show ?thesis by (intro exI [of _ ?st1]) simp
qed

text \<open>A level that has been pushed inside another is popped to the next element of the outer one.\<close>

lemma pop_pushed:
  assumes "ps_outer st1 = ps_level st # ps_outer st" "lv_base (ps_level st1) = ps_temp st"
    and "install (ps_level st1) = j"
  shows "\<exists>out. pop_level st1 rest = More (add_element j (st\<lparr>ps_out := out\<rparr>)) rest"
proof -
  have e: "(reserve_out j st1)\<lparr>ps_level := ps_level st, ps_outer := ps_outer st, ps_temp := ps_temp st\<rparr>
      = st\<lparr>ps_out := ps_out (reserve_out j st1)\<rparr>"
    by (cases st) (simp add: reserve_out_def)
  have "pop_level st1 rest = More (add_element j ((reserve_out j st1)\<lparr>ps_level := ps_level st,
      ps_outer := ps_outer st, ps_temp := ps_temp st\<rparr>)) rest"
    using assms by (simp add: pop_level_def Let_def)
  then show ?thesis unfolding e by blast
qed

lemma render_object: "render (JObj fs) = CHR 0x7B # commas (map render_entry fs) @ [CHR 0x7D]"
  by (simp add: render_entry_def [abs_def] case_prod_unfold comp_def)

lemma printable_reads: "printable j \<Longrightarrow> value_reads f j"
proof (induction j)
  case (JArr js)
  show ?case
    unfolding value_reads_def
  proof (intro allI impI)
    fix h :: bool and st rest
    assume "ends_value rest"
    from level_reads_array [of js f "push_level TYPE_ARRAY st" "ps_temp st" rest] JArr obtain st1 where
      p: "parse_loop f (push_level TYPE_ARRAY st) (commas (map render js) @ CHR '']'' # rest) =
        (case pop_level st1 rest of More st2 s2 \<Rightarrow> parse_loop f st2 s2
         | Root j st2 s2 \<Rightarrow> if fst (peek_structure s2) = NUL then Inr j else Inl (Malformed ''expected end of input''))"
      "ps_outer st1 = ps_level st # ps_outer st" "lv_base (ps_level st1) = ps_temp st"
      "install (ps_level st1) = JArr (map canon js)"
      by (auto simp: push_level_def)
    from pop_pushed [OF p(2-4), of rest] obtain out where
      "pop_level st1 rest = More (add_element (canon (JArr js)) (st\<lparr>ps_out := out\<rparr>)) rest" by auto
    moreover have "value_loop f h st (render (JArr js) @ rest) =
        parse_loop f (push_level TYPE_ARRAY st) (commas (map render js) @ CHR '']'' # rest)"
      by (simp add: value_loop_def parse_value_def peek_Cons is_blank_char_def Let_def)
    ultimately show "\<exists>out. value_loop f h st (render (JArr js) @ rest) =
        parse_loop f (add_element (canon (JArr js)) (st\<lparr>ps_out := out\<rparr>)) rest"
      using p(1) by (intro exI [of _ out]) simp
  qed
next
  case (JObj fs)
  have ih: "\<forall>e\<in>set fs. printable (snd e) \<and> value_reads f (snd e)" using JObj by fastforce
  show ?case
    unfolding value_reads_def
  proof (intro allI impI)
    fix h :: bool and st rest
    assume "ends_value rest"
    from level_reads_object [OF ih, of "push_level TYPE_OBJECT st" "ps_temp st" rest] obtain st1 where
      p: "parse_loop f (push_level TYPE_OBJECT st) (commas (map render_entry fs) @ CHR 0x7D # rest) =
        (case pop_level st1 rest of More st2 s2 \<Rightarrow> parse_loop f st2 s2
         | Root j st2 s2 \<Rightarrow> if fst (peek_structure s2) = NUL then Inr j else Inl (Malformed ''expected end of input''))"
      "ps_outer st1 = ps_level st # ps_outer st" "lv_base (ps_level st1) = ps_temp st"
      "install (ps_level st1) = canon (JObj fs)"
      by (auto simp: push_level_def)
    from pop_pushed [OF p(2-4), of rest] obtain out where
      "pop_level st1 rest = More (add_element (canon (JObj fs)) (st\<lparr>ps_out := out\<rparr>)) rest" by auto
    moreover have "value_loop f h st (render (JObj fs) @ rest) =
        parse_loop f (push_level TYPE_OBJECT st) (commas (map render_entry fs) @ CHR 0x7D # rest)"
      unfolding render_object
      by (simp add: value_loop_def parse_value_def peek_Cons is_blank_char_def Let_def)
    ultimately show "\<exists>out. value_loop f h st (render (JObj fs) @ rest) =
        parse_loop f (add_element (canon (JObj fs)) (st\<lparr>ps_out := out\<rparr>)) rest"
      using p(1) by (intro exI [of _ out]) simp
  qed
qed (unfold value_reads_def, intro allI impI scalar_render; simp)+

lemma parse_render:
  assumes "printable j" "get_type j \<in> {TYPE_ARRAY, TYPE_OBJECT}"
  shows "parse f (render j) = Inr (canon j)"
proof -
  have start: "ps_level (parser_start t n) = open_level t 0" "ps_temp (parser_start t n) = 0 + 1"
    "ps_outer (parser_start t n) = []" for t n by (simp_all add: parser_start_def)
  show ?thesis
  proof (cases j)
    case (JArr js)
    from level_reads_array [OF _ start(1,2), of js f "length (render j)" "[]"] assms(1) JArr printable_reads obtain st1 where
      p: "parse_loop f (parser_start TYPE_ARRAY (length (render j))) (commas (map render js) @ CHR '']'' # []) =
        (case pop_level st1 [] of More st2 s2 \<Rightarrow> parse_loop f st2 s2
         | Root j st2 s2 \<Rightarrow> if fst (peek_structure s2) = NUL then Inr j else Inl (Malformed ''expected end of input''))"
      "ps_outer st1 = []" "install (ps_level st1) = JArr (map canon js)"
      by (auto simp: start(3))
    have "fst (peek_structure []) = NUL" by (simp add: peek_structure_def skip_blanks_def head_char_def)
    with p have "parse_loop f (parser_start TYPE_ARRAY (length (render j))) (commas (map render js) @ '']'') = Inr (JArr (map canon js))"
      by (simp add: pop_level_def Let_def)
    then show ?thesis using JArr by (simp add: parse_def peek_Cons is_blank_char_def Let_def)
  next
    case (JObj fs)
    have "\<forall>e\<in>set fs. printable (snd e) \<and> value_reads f (snd e)" using assms(1) JObj printable_reads by fastforce
    from level_reads_object [OF this start(1,2), of "length (render j)" "[]"] obtain st1 where
      p: "parse_loop f (parser_start TYPE_OBJECT (length (render j))) (commas (map render_entry fs) @ CHR 0x7D # []) =
        (case pop_level st1 [] of More st2 s2 \<Rightarrow> parse_loop f st2 s2
         | Root j st2 s2 \<Rightarrow> if fst (peek_structure s2) = NUL then Inr j else Inl (Malformed ''expected end of input''))"
      "ps_outer st1 = []" "install (ps_level st1) = canon (JObj fs)"
      by (auto simp: start(3))
    have "fst (peek_structure []) = NUL" by (simp add: peek_structure_def skip_blanks_def head_char_def)
    with p have "parse_loop f (parser_start TYPE_OBJECT (length (render j))) (commas (map render_entry fs) @ [CHR 0x7D]) = Inr (canon j)"
      by (simp add: pop_level_def Let_def JObj)
    then show ?thesis
      unfolding JObj render_object by (simp add: parse_def peek_Cons is_blank_char_def Let_def)
  qed (use assms(2) in simp_all)
qed


section \<open>Concrete documents\<close>

text \<open>Arithmetic on \<open>double\<close> for the witnesses: the integers themselves.\<close>

definition demo_fpu :: fpu where
  "demo_fpu = \<lparr>fp_int = word_of_int, fp_add = (+), fp_mul = (*), fp_neg = uminus,
     fp_pow10 = (\<lambda>e. 1), fp_to_i64 = id\<rparr>"

definition demo_json :: json where
  "demo_json = JObj [(Key ''b'', JArr [JInt 12, JTrue, JStr [CHR 0x0A, CHR 0x22]]), (Key ''Id'', JInt (- 3))]"

lemma demo_json_text: "render demo_json =
  [CHR 0x7B] @ quote ''b'' @ '':[12,true,'' @ quote [CHR 0x0A, CHR 0x22] @ ''],'' @ quote ''Id'' @ '':-3'' @ [CHR 0x7D]"
  by code_simp


definition demo_text :: bytes where
  "demo_text = [CHR 0x7B] @ quote ''Id'' @ '':[1, 20 ],'' @ quote ''b'' @ '':null'' @ [CHR 0x7D]"

lemma demo_text_parses: "parse demo_fpu demo_text =
  Inr (JObj [(Key ''b'', JNull), (Key ''Id'', JArr [JInt 1, JInt 20])])"
  by code_simp

lemma parsed_value_type_witness:
  "GetObjectValue ''Id'' (JObj [(Key ''b'', JNull), (Key ''Id'', JArr [JInt 1, JInt 20])]) = JArr [JInt 1, JInt 20]"
  using parsed_value_type [OF demo_text_parses] by simp

lemma parser_memory_witness:
  "\<exists>st s. parsing demo_fpu ''[[],2]'' st s \<and> ps_temp st = 2 \<and> ps_out st = 5 \<and> int (ps_temp st) \<le> ps_out st"
proof -
  let ?st0 = "parser_start TYPE_ARRAY 6"
  let ?st1 = "push_level TYPE_ARRAY ?st0"
  have "parsing demo_fpu ''[[],2]'' ?st0 ''[],2]''"
    using parsing_array [of "''[[],2]''" "''[[],2]''" demo_fpu]
    by (simp add: peek_Cons is_blank_char_def numeral_eq_Suc)
  moreover have "parse_step demo_fpu ?st0 ''[],2]'' = Inr (More ?st1 ''],2]'')" by code_simp
  ultimately have 1: "parsing demo_fpu ''[[],2]'' ?st1 ''],2]''" by (rule parsing_step)
  obtain st2 where 2: "parse_step demo_fpu ?st1 ''],2]'' = Inr (More st2 '',2]'')" "ps_temp st2 = 2" "ps_out st2 = 5"
  proof -
    let ?st2 = "case parse_step demo_fpu ?st1 ''],2]'' of Inr (More st s) \<Rightarrow> st | _ \<Rightarrow> ?st1"
    have "parse_step demo_fpu ?st1 ''],2]'' = Inr (More ?st2 '',2]'')" "ps_temp ?st2 = 2" "ps_out ?st2 = 5" by code_simp+
    then show thesis by (rule that)
  qed
  have "parsing demo_fpu ''[[],2]'' st2 '',2]''" using 1 2(1) by (rule parsing_step)
  with parser_memory [OF this] 2 show ?thesis by blast
qed


text \<open>What the parser takes that the format does not allow: an object whose first key has no value (it is read as
  an empty object), a minus sign alone (read as 0), and anything behind a NUL.\<close>

lemma parser_accepts_more:
  "parse demo_fpu ([CHR 0x7B] @ quote ''a'' @ '':'' @ [CHR 0x7D]) = Inr (JObj [])"
  "parse demo_fpu ''[-]'' = Inr (JArr [JInt 0])"
  "parse demo_fpu (''[1]'' @ [NUL] @ ''garbage'') = Inr (JArr [JInt 1])"
  by code_simp+

end
