(* ===== verification/WsLaws.thy ===== *)
theory WsLaws
  imports WsDvr JsonPrint
begin

text \<open>
  The web service client as a state machine: what its operations may do to its state and to the world. A
  relation between states that holds for the few primitive steps holds for every operation; it is used for the
  invariant of the client, and for the requests that it sends.
\<close>

section \<open>Operations that keep a relation\<close>

definition keeps :: "(wsapi \<times> 'w \<Rightarrow> wsapi \<times> 'w \<Rightarrow> bool) \<Rightarrow> ('w, 'a) call \<Rightarrow> bool" where
  "keeps R c \<longleftrightarrow> (\<forall>api w r api1 w1. c api w = Some (r, api1, w1) \<longrightarrow> R (api, w) (api1, w1))"

lemma keepsI: "(\<And>api w r api1 w1. c api w = Some (r, api1, w1) \<Longrightarrow> R (api, w) (api1, w1)) \<Longrightarrow> keeps R c"
  unfolding keeps_def by blast

lemma keepsD: "keeps R c \<Longrightarrow> c api w = Some (r, api1, w1) \<Longrightarrow> R (api, w) (api1, w1)"
  unfolding keeps_def by blast

text \<open>The request of a query goes to the server of the client.\<close>

definition addressed :: "wsapi \<Rightarrow> wsrequest \<Rightarrow> bool" where
  "addressed api q \<longleftrightarrow> rq_server q = api_server api \<and> rq_port q = api_port api \<and> rq_secure_uri q = api_ssl api"

lemma addressed_header [simp]: "addressed api (SetHeader n v q) = addressed api q"
  by (simp add: addressed_def SetHeader_def)

lemma addressed_simps [simp]:
  "addressed api (SetContentParam p v q) = addressed api q"
  "addressed api (ClearContent q) = addressed api q"
  "addressed api (RequestService svc meth q) = addressed api q"
  "addressed api (RequestAccept ct q) = addressed api q"
  "addressed api (SetTimeout t q) = addressed api q"
  by (simp_all add: addressed_def SetContentParam_def ClearContent_def
      RequestService_def RequestAccept_def SetTimeout_def Let_def)

lemma addressed_authorize [simp]: "addressed api (authorize a q) = addressed api q"
  by (simp add: authorize_def)

lemma addressed_params [simp]: "addressed api (content_params pars q) = addressed api q"
  unfolding content_params_def by (induction pars arbitrary: q) (simp_all add: case_prod_beta)

lemma addressed_new [simp]: "addressed api (WSRequest_secure b (api_server api) (api_port api) (api_ssl api))"
proof -
  have "addressed api (request_init\<lparr>rq_server := api_server api, rq_port := api_port api, rq_secure_uri := api_ssl api\<rparr>)"
    by (simp add: addressed_def)
  then show ?thesis by (simp add: WSRequest_secure_def RequestAcceptEncoding_def)
qed

lemma addressed_query [simp]: "addressed api (make_query pf svc meth pars api)"
  by (simp add: make_query_def Query_new_def)

lemma addressed_token [simp]: "addressed (api\<lparr>api_authToken := tok\<rparr>) q = addressed api q"
  by (simp add: addressed_def)

lemma same_token: "\<exists>tok. api = api\<lparr>api_authToken := tok\<rparr>" "\<exists>tok'. api\<lparr>api_authToken := tok\<rparr> = api\<lparr>api_authToken := tok'\<rparr>"
  by (rule exI [of _ "api_authToken api"], simp) blast

locale client_base =
  fixes pf :: "('r, 'w) platform" and R :: "wsapi \<times> 'w \<Rightarrow> wsapi \<times> 'w \<Rightarrow> bool"
  assumes R_refl [simp]: "R s s"
    and R_trans: "R s t \<Longrightarrow> R t u \<Longrightarrow> R s u"
    and R_send: "addressed api q \<Longrightarrow> http_send (pf_http pf) q n trusted any w = (resp, w1) \<Longrightarrow> R (api, w) (api, w1)"
    and R_token [simp]: "R (api, w) (api\<lparr>api_authToken := tok\<rparr>, w)"
begin

lemma LoginUser_step:
  assumes "LoginUser pf api w = Some (ok, api1, w1)"
  shows "R (api, w) (api1, w1) \<and> (\<exists>tok. api1 = api\<lparr>api_authToken := tok\<rparr>)"
proof -
  let ?req = "SetTimeout 10000 (content_params [(''UserName'', api_authUser api), (''Password'', api_authPassword api)]
     (RequestService ''/Myth/LoginUser'' WS_METHOD_Post (RequestAccept WS_ACCEPT
       (WSRequest_secure (pf_build pf) (api_server api) (api_port api) (api_ssl api)))))"
  obtain resp v where s: "http_send (pf_http pf) ?req 1 True False w = (resp, v)" by force
  have "R (api, w) (api, v)" using R_send [OF _ s] by simp
  moreover have "w1 = v \<and> (\<exists>tok. api1 = api\<lparr>api_authToken := tok\<rparr>)"
    using assms s by (auto simp: LoginUser_def Let_def bind_eq_Some_conv same_token split: option.splits if_splits)
  ultimately show ?thesis by (auto intro: R_trans [OF _ R_token])
qed

lemma Execute_step:
  assumes "Execute pf m trusted any q api w = Some ((resp, q1), api1, w1)" "addressed api q"
  shows "R (api, w) (api1, w1) \<and> (\<exists>tok. api1 = api\<lparr>api_authToken := tok\<rparr>) \<and> addressed api q1"
proof -
  define q0 where "q0 = (if api_authToken api \<noteq> [] then authorize api q else q)"
  have a: "addressed api q0" using assms(2) by (simp add: q0_def)
  obtain resp0 v where s: "http_send (pf_http pf) q0 m trusted any w = (resp0, v)" by force
  have r: "R (api, w) (api, v)" using R_send [OF a s] .
  show ?thesis
  proof (cases "http_status (pf_http pf) resp0 = 401")
    case False
    then show ?thesis using assms(1) s r a by (auto simp: Execute_def q0_def [symmetric] same_token)
  next
    case True
    then obtain ok api2 v2 where l: "LoginUser pf api v = Some (ok, api2, v2)"
      using assms(1) s by (auto simp: Execute_def q0_def [symmetric] bind_eq_Some_conv)
    from LoginUser_step [OF l] obtain tok where t: "R (api, v) (api2, v2)" "api2 = api\<lparr>api_authToken := tok\<rparr>" by blast
    have q2: "addressed api2 (authorize api2 q0)" using a t(2) by simp
    obtain resp2 v3 where s2: "http_send (pf_http pf) (authorize api2 q0) m trusted any v2 = (resp2, v3)" by force
    show ?thesis
      using assms(1) True s l s2 R_send [OF q2 s2] R_trans [OF r t(1)] t(2) a
      by (cases ok) (auto simp: Execute_def q0_def [symmetric] same_token intro: R_trans)
  qed
qed

lemma call_json_step:
  assumes "call_json pf q api w = Some ((root, q1), api1, w1)" "addressed api q"
  shows "R (api, w) (api1, w1) \<and> (\<exists>tok. api1 = api\<lparr>api_authToken := tok\<rparr>) \<and> addressed api q1"
  using assms by (auto simp: call_json_def bind_eq_Some_conv split: if_splits dest!: Execute_step)

lemma reply_step:
  assumes "reply pf svc meth pars f api w = Some (r, api1, w1)"
  shows "R (api, w) (api1, w1) \<and> (\<exists>tok. api1 = api\<lparr>api_authToken := tok\<rparr>)"
  using assms by (auto simp: reply_def bind_eq_Some_conv dest!: call_json_step)

lemma open_stream_step:
  assumes "open_stream pf svc pars api w = Some (r, api1, w1)"
  shows "R (api, w) (api1, w1)"
  using assms by (auto simp: open_stream_def bind_eq_Some_conv dest!: Execute_step)

end

text \<open>The token aside, a query leaves the client as it is.\<close>

interpretation any: client_base pf "\<lambda>s t. True" for pf
  by unfold_locales simp_all

lemmas implementation_defs =
  GetSetting2_0_def
  GetSetting5_0_def
  GetSettings2_0_def
  GetSettings5_0_def
  PutSetting2_0_def
  GetCaptureCardList1_4_def
  GetVideoSourceList1_2_def
  GetChannelList1_2_def
  GetChannelList1_5_def
  GetChannel1_2_def
  GetProgramGuide1_0_def
  GetProgramGuide1_0_channel_def
  GetProgramGuide2_2_def
  GetProgramList2_2_def
  GetRecordedList1_5_def
  GetRecorded1_5_def
  GetRecorded6_0_def
  DeleteRecording2_1_def
  DeleteRecording6_0_def
  UnDeleteRecording2_1_def
  UnDeleteRecording6_0_def
  UpdateRecordedWatchedStatus4_5_def
  UpdateRecordedWatchedStatus6_0_def
  GetRecordedCommBreak6_1_def
  GetRecordedCutList6_1_def
  SetSavedBookmark6_2_def
  GetSavedBookmark6_2_def
  GetRecordScheduleList1_5_def
  GetRecordSchedule1_5_def
  AddRecordSchedule1_5_def
  AddRecordSchedule1_7_def
  UpdateRecordSchedule1_7_def
  DisableRecordSchedule1_5_def
  EnableRecordSchedule1_5_def
  RemoveRecordSchedule1_5_def
  GetUpcomingList2_2_def
  GetConflictList1_5_def
  GetExpiringList1_5_def
  GetRecGroupList1_5_def
  GetFile1_32_def
  GetChannelIcon1_32_def
  GetPreviewImage1_32_def
  GetRecordingArtwork1_32_def
  GetRecordingArtworkList1_32_def

lemmas operation_defs =
  GetSetting_def
  GetHostSettings_def
  GetSettings_def
  PutSetting_def
  GetCaptureCardList_def
  GetVideoSourceList_def
  GetChannelList_def
  GetChannel_def
  GetProgramGuide_channel_def
  GetProgramGuide_def
  GetRecorded_time_def
  GetRecorded_def
  DeleteRecording_time_def
  DeleteRecording_def
  UnDeleteRecording_time_def
  UnDeleteRecording_def
  UpdateRecordedWatchedStatus_time_def
  UpdateRecordedWatchedStatus_def
  GetRecordedCommBreak_def
  GetRecordedCutList_def
  SetSavedBookmark_def
  GetSavedBookmark_def
  GetRecordScheduleList_def
  GetRecordSchedule_def
  AddRecordSchedule_def
  UpdateRecordSchedule_def
  DisableRecordSchedule_def
  EnableRecordSchedule_def
  RemoveRecordSchedule_def
  GetUpcomingList_def
  GetConflictList_def
  GetExpiringList_def
  GetRecGroupList_def
  GetFile_def
  GetChannelIcon_def
  GetChannelIconUrl_def
  GetPreviewImage_def
  GetPreviewImageUrl_def
  GetRecordingArtwork_def
  GetRecordingArtworkUrl_def
  GetRecordingArtworkList_def

text \<open>The operations that a user of the client can call, without their results.\<close>

definition erase :: "('w, 'a) call \<Rightarrow> ('w, unit) call" where
  "erase c api w = map_option (\<lambda>(r, s). ((), s)) (c api w)"

lemma keeps_erase [simp]: "keeps R (erase c) = keeps R c"
  by (auto simp: keeps_def erase_def)

inductive client_op :: "('r, 'w) platform \<Rightarrow> ('w, unit) call \<Rightarrow> bool" for pf :: "('r, 'w) platform" where
  "client_op pf (erase (CheckService pf))"
| "client_op pf (erase (CheckService_id pf sid))"
| "client_op pf (erase (LoginUser pf))"
| "client_op pf (erase (GetHostSetting pf key hostname))"
| "client_op pf (erase (GetSetting pf key myhost))"
| "client_op pf (erase (GetHostSettings pf hostname))"
| "client_op pf (erase (GetSettings pf myhost))"
| "client_op pf (erase (PutSetting pf key val myhost))"
| "client_op pf (erase (ResolveHostName pf hostname))"
| "client_op pf (erase (GetCaptureCardList pf))"
| "client_op pf (erase (GetVideoSourceList pf))"
| "client_op pf (erase (GetChannelList pf sourceid onlyVisible))"
| "client_op pf (erase (GetChannel pf chanid))"
| "client_op pf (erase (GetProgramGuide_channel pf chanid starttime endtime))"
| "client_op pf (erase (GetProgramGuide pf starttime endtime))"
| "client_op pf (erase (GetRecordedList pf n descending))"
| "client_op pf (erase (GetRecorded_time pf chanid recstartts))"
| "client_op pf (erase (GetRecorded pf recordedid))"
| "client_op pf (erase (DeleteRecording_time pf chanid recstartts forceDelete allowRerecord))"
| "client_op pf (erase (DeleteRecording pf recordedid forceDelete allowRerecord))"
| "client_op pf (erase (UnDeleteRecording_time pf chanid recstartts))"
| "client_op pf (erase (UnDeleteRecording pf recordedid))"
| "client_op pf (erase (UpdateRecordedWatchedStatus_time pf chanid recstartts watched))"
| "client_op pf (erase (UpdateRecordedWatchedStatus pf recordedid watched))"
| "client_op pf (erase (GetRecordedCommBreak pf recordedid u))"
| "client_op pf (erase (GetRecordedCutList pf recordedid u))"
| "client_op pf (erase (SetSavedBookmark pf recordedid u pos))"
| "client_op pf (erase (GetSavedBookmark pf recordedid u))"
| "client_op pf (erase (GetRecordScheduleList pf))"
| "client_op pf (erase (GetRecordSchedule pf recordid))"
| "client_op pf (erase (AddRecordSchedule pf r))"
| "client_op pf (erase (UpdateRecordSchedule pf r))"
| "client_op pf (erase (DisableRecordSchedule pf recordid))"
| "client_op pf (erase (EnableRecordSchedule pf recordid))"
| "client_op pf (erase (RemoveRecordSchedule pf recordid))"
| "client_op pf (erase (GetUpcomingList pf))"
| "client_op pf (erase (GetConflictList pf))"
| "client_op pf (erase (GetExpiringList pf))"
| "client_op pf (erase (GetRecGroupList pf))"
| "client_op pf (erase (GetFile pf filename sgname))"
| "client_op pf (erase (GetChannelIcon pf chanid width height))"
| "client_op pf (erase (GetChannelIconUrl pf chanid width height))"
| "client_op pf (erase (GetPreviewImage pf chanid recstartts width height))"
| "client_op pf (erase (GetPreviewImageUrl pf chanid recstartts width height))"
| "client_op pf (erase (GetRecordingArtwork pf typ ref snr width height))"
| "client_op pf (erase (GetRecordingArtworkUrl pf typ ref snr width height))"
| "client_op pf (erase (GetRecordingArtworkList pf chanid recstartts))"

lemma pick_in: "pick r cs = Some c \<Longrightarrow> \<exists>v. (v, c) \<in> set cs"
  by (induction r cs rule: pick.induct) (auto split: if_splits)

text \<open>The rest of what an operation does to the client itself.\<close>

locale client_steps = client_base pf R for pf :: "('r, 'w) platform" and R +
  assumes R_invalidate: "R (api, w) (InvalidateService api, w)"
    and R_cache: "R (api, w) (cache_name h a api, w)"
    and R_check: "ensure_checked pf api w = Some (ok, api1, w1) \<Longrightarrow> R (api, w) (api1, w1)"
begin

lemma LoginUser_keeps: "keeps R (LoginUser pf)"
  by (rule keepsI) (auto dest: LoginUser_step)

lemma list_once_step:
  assumes "list_once pf svc pars lname g d api w = Some (r, api1, w1)"
  shows "R (api, w) (api1, w1)"
  using assms
  by (auto simp: list_once_def bind_eq_Some_conv Let_def split: option.splits if_splits
      dest!: call_json_step intro: R_trans [OF _ R_invalidate])

lemma page_loop_step:
  assumes "page_loop pf pg proto idx req_count got acc q api w = Some y"
  shows "addressed api q \<longrightarrow> R (api, w) (snd y)"
proof -
  have "pf = pf \<longrightarrow> addressed api q \<longrightarrow> R (api, w) (snd y)"
  proof (rule page_loop.raw_induct
      [where P = "\<lambda>pf' pg proto idx req_count got acc q api w y. pf' = pf \<longrightarrow> addressed api q \<longrightarrow> R (api, w) (snd y)",
       OF _ assms], goal_cases)
    case (1 loop pf' pg proto idx req_count got acc q api w y)
    show ?case
    proof (intro impI)
      assume p: "pf' = pf" "addressed api q"
      let ?cnt = "page_count (pg_limit pg) req_count got"
      obtain root q1 api1 w1 where f: "page_fetch pf pg idx ?cnt q api w = Some ((root, q1), api1, w1)"
        using 1(2) p(1) by (auto simp: Let_def split: option.splits)
      then have s: "R (api, w) (api1, w1)" "addressed api1 q1"
        using p(2) call_json_step [OF f [unfolded page_fetch_def]] by auto
      then have i: "R (api, w) (InvalidateService api1, w1)" by (auto intro: R_trans [OF _ R_invalidate])
      show "R (api, w) (snd y)"
        using 1 p f s i by (cases y) (auto simp: Let_def split: option.splits if_splits intro: R_trans [OF s(1)])
    qed
  qed
  then show ?thesis by simp
qed

lemma list_pages_step:
  assumes "list_pages pf svc pg n start api w = Some (r, api1, w1)"
  shows "R (api, w) (api1, w1)"
  using page_loop_step assms by (fastforce simp: list_pages_def)

lemmas shapes = reply_step [THEN conjunct1] list_once_step list_pages_step open_stream_step

lemma implementations_keep:
  "keeps R (GetSetting2_0 pf key hostname)"
  "keeps R (GetSetting5_0 pf key hostname)"
  "keeps R (GetSettings2_0 pf hostname)"
  "keeps R (GetSettings5_0 pf hostname)"
  "keeps R (PutSetting2_0 pf key val myhost)"
  "keeps R (GetCaptureCardList1_4 pf)"
  "keeps R (GetVideoSourceList1_2 pf)"
  "keeps R (GetChannelList1_2 pf sourceid onlyVisible)"
  "keeps R (GetChannelList1_5 pf sourceid onlyVisible)"
  "keeps R (GetChannel1_2 pf chanid)"
  "keeps R (GetProgramGuide1_0 pf starttime endtime)"
  "keeps R (GetProgramGuide1_0_channel pf chanid starttime endtime)"
  "keeps R (GetProgramGuide2_2 pf starttime endtime)"
  "keeps R (GetProgramList2_2 pf chanid starttime endtime)"
  "keeps R (GetRecordedList1_5 pf n descending)"
  "keeps R (GetRecorded1_5 pf chanid recstartts)"
  "keeps R (GetRecorded6_0 pf recordedid)"
  "keeps R (DeleteRecording2_1 pf chanid recstartts forceDelete allowRerecord)"
  "keeps R (DeleteRecording6_0 pf recordedid forceDelete allowRerecord)"
  "keeps R (UnDeleteRecording2_1 pf chanid recstartts)"
  "keeps R (UnDeleteRecording6_0 pf recordedid)"
  "keeps R (UpdateRecordedWatchedStatus4_5 pf chanid recstartts watched)"
  "keeps R (UpdateRecordedWatchedStatus6_0 pf recordedid watched)"
  "keeps R (GetRecordedCommBreak6_1 pf recordedid u)"
  "keeps R (GetRecordedCutList6_1 pf recordedid u)"
  "keeps R (SetSavedBookmark6_2 pf recordedid u pos)"
  "keeps R (GetSavedBookmark6_2 pf recordedid u)"
  "keeps R (GetRecordScheduleList1_5 pf)"
  "keeps R (GetRecordSchedule1_5 pf recordid)"
  "keeps R (AddRecordSchedule1_5 pf r0)"
  "keeps R (AddRecordSchedule1_7 pf r0)"
  "keeps R (UpdateRecordSchedule1_7 pf r0)"
  "keeps R (DisableRecordSchedule1_5 pf recordid)"
  "keeps R (EnableRecordSchedule1_5 pf recordid)"
  "keeps R (RemoveRecordSchedule1_5 pf recordid)"
  "keeps R (GetUpcomingList2_2 pf)"
  "keeps R (GetConflictList1_5 pf)"
  "keeps R (GetExpiringList1_5 pf)"
  "keeps R (GetRecGroupList1_5 pf)"
  "keeps R (GetFile1_32 pf filename sgname)"
  "keeps R (GetChannelIcon1_32 pf chanid width height)"
  "keeps R (GetPreviewImage1_32 pf chanid recstartts width height)"
  "keeps R (GetRecordingArtwork1_32 pf typ ref snr width height)"
  "keeps R (GetRecordingArtworkList1_32 pf chanid recstartts)"
  by (rule keepsI, simp only: implementation_defs Let_def, erule shapes)+

lemma CheckService_keeps: "keeps R (CheckService pf)" "keeps R (CheckService_id pf sid)"
  by (rule keepsI, auto simp: CheckService_def CheckService_id_def bind_eq_Some_conv dest: R_check)+

lemma dispatch_keeps:
  assumes "\<And>c. c \<in> snd ` set impls \<Longrightarrow> keeps R c"
  shows "keeps R (dispatch pf sid impls dflt)"
proof (rule keepsI)
  fix api w r api2 w2
  assume d: "dispatch pf sid impls dflt api w = Some (r, api2, w2)"
  then obtain wsv api1 w1 where c: "CheckService_id pf sid api w = Some (wsv, api1, w1)"
    by (auto simp: dispatch_def bind_eq_Some_conv)
  from keepsD [OF CheckService_keeps(2) c] have s: "R (api, w) (api1, w1)" .
  show "R (api, w) (api2, w2)"
  proof (cases "pick (sv_ranking wsv) impls")
    case None
    then show ?thesis using d c s by (simp add: dispatch_def)
  next
    case (Some impl)
    with assms pick_in [OF Some] have "keeps R impl" by force
    then show ?thesis using d c s Some by (auto simp: dispatch_def dest!: keepsD intro: R_trans)
  qed
qed

lemma GetRecordedList_keeps: "keeps R (GetRecordedList pf n descending)"
  unfolding GetRecordedList_def by (rule dispatch_keeps) (auto intro: implementations_keep)

lemma GetUpcomingList1_5_keeps: "keeps R (GetUpcomingList1_5 pf)"
  by (rule keepsI)
     (auto simp: GetUpcomingList1_5_def bind_eq_Some_conv
      dest!: keepsD [OF implementations_keep(36)] keepsD [OF GetRecordedList_keeps] intro: R_trans)

lemma GetHostSetting_keeps: "keeps R (GetHostSetting pf key hostname)"
  unfolding GetHostSetting_def by (rule dispatch_keeps) (auto intro: implementations_keep)

lemma ResolveHostName_keeps: "keeps R (ResolveHostName pf hostname)"
  by (rule keepsI)
     (auto simp: ResolveHostName_def bind_eq_Some_conv split: option.splits if_splits
      dest!: keepsD [OF GetHostSetting_keeps] intro: R_trans R_trans [OF _ R_cache])

lemma ask_nothing_keeps: "keeps R (ask_nothing f)"
  by (simp add: keeps_def ask_nothing_def)

lemma operations_keep:
  "keeps R (GetSetting pf key myhost)"
  "keeps R (GetHostSettings pf hostname)"
  "keeps R (GetSettings pf myhost)"
  "keeps R (PutSetting pf key val myhost)"
  "keeps R (GetCaptureCardList pf)"
  "keeps R (GetVideoSourceList pf)"
  "keeps R (GetChannelList pf sourceid onlyVisible)"
  "keeps R (GetChannel pf chanid)"
  "keeps R (GetProgramGuide_channel pf chanid starttime endtime)"
  "keeps R (GetProgramGuide pf starttime endtime)"
  "keeps R (GetRecorded_time pf chanid recstartts)"
  "keeps R (GetRecorded pf recordedid)"
  "keeps R (DeleteRecording_time pf chanid recstartts forceDelete allowRerecord)"
  "keeps R (DeleteRecording pf recordedid forceDelete allowRerecord)"
  "keeps R (UnDeleteRecording_time pf chanid recstartts)"
  "keeps R (UnDeleteRecording pf recordedid)"
  "keeps R (UpdateRecordedWatchedStatus_time pf chanid recstartts watched)"
  "keeps R (UpdateRecordedWatchedStatus pf recordedid watched)"
  "keeps R (GetRecordedCommBreak pf recordedid u)"
  "keeps R (GetRecordedCutList pf recordedid u)"
  "keeps R (SetSavedBookmark pf recordedid u pos)"
  "keeps R (GetSavedBookmark pf recordedid u)"
  "keeps R (GetRecordScheduleList pf)"
  "keeps R (GetRecordSchedule pf recordid)"
  "keeps R (AddRecordSchedule pf r)"
  "keeps R (UpdateRecordSchedule pf r)"
  "keeps R (DisableRecordSchedule pf recordid)"
  "keeps R (EnableRecordSchedule pf recordid)"
  "keeps R (RemoveRecordSchedule pf recordid)"
  "keeps R (GetUpcomingList pf)"
  "keeps R (GetConflictList pf)"
  "keeps R (GetExpiringList pf)"
  "keeps R (GetRecGroupList pf)"
  "keeps R (GetFile pf filename sgname)"
  "keeps R (GetChannelIcon pf chanid width height)"
  "keeps R (GetChannelIconUrl pf chanid width height)"
  "keeps R (GetPreviewImage pf chanid recstartts width height)"
  "keeps R (GetPreviewImageUrl pf chanid recstartts width height)"
  "keeps R (GetRecordingArtwork pf typ ref snr width height)"
  "keeps R (GetRecordingArtworkUrl pf typ ref snr width height)"
  "keeps R (GetRecordingArtworkList pf chanid recstartts)"
  unfolding operation_defs
  by (rule dispatch_keeps GetHostSetting_keeps;
      force intro: implementations_keep GetUpcomingList1_5_keeps ask_nothing_keeps GetHostSetting_keeps)+

lemma client_op_keeps:
  assumes "client_op pf c"
  shows "keeps R c"
  using assms
  by cases (simp_all only: keeps_erase CheckService_keeps GetRecordedList_keeps GetHostSetting_keeps ResolveHostName_keeps
    operations_keep LoginUser_keeps)

end

section \<open>The invariant\<close>

text \<open>The slot of no service has no version. Once checked, the protocol is known and the service Myth has a version the
  client can talk to.\<close>

definition ranking_of :: "WSServiceId_t \<Rightarrow> wsapi \<Rightarrow> u32" where
  "ranking_of sid api = sv_ranking (api_serviceVersion api sid)"

definition api_ok :: "wsapi \<Rightarrow> bool" where
  "api_ok api \<longleftrightarrow>
     api_serviceVersion api WS_INVALID = no_version
     \<and> (api_checked api \<longrightarrow>
          ver_protocol (api_version api) \<noteq> 0
          \<and> 0x00020000 \<le> ranking_of WS_Myth api \<and> ranking_of WS_Myth api \<le> MYTH_API_VERSION_MAX_RANKING)"

lemma and_call_Some:
  "and_call a b api w = Some (ok, api1, w1) \<longleftrightarrow>
     (\<exists>api' w'. a api w = Some (True, api', w') \<and> b api' w' = Some (ok, api1, w1))
     \<or> (\<not> ok \<and> a api w = Some (False, api1, w1))"
  by (fastforce simp: and_call_def bind_eq_Some_conv split: if_splits)

lemma GetServiceVersion_frame:
  assumes "GetServiceVersion pf sid api w = Some (ok, api1, w1)"
  shows "api_checked api1 = api_checked api \<and> api_version api1 = api_version api
         \<and> (\<forall>s. s \<noteq> sid \<longrightarrow> api_serviceVersion api1 s = api_serviceVersion api s)"
  using assms
  by (auto simp: GetServiceVersion_def bind_eq_Some_conv set_service_def split: option.splits
      dest!: any.reply_step)

lemma CheckServerHostName2_0_frame:
  assumes "CheckServerHostName2_0 pf api w = Some (ok, api1, w1)"
  shows "api_checked api1 = api_checked api \<and> api_version api1 = api_version api
         \<and> api_serviceVersion api1 = api_serviceVersion api"
  using assms
  by (auto simp: CheckServerHostName2_0_def bind_eq_Some_conv split: option.splits dest!: any.reply_step)

lemma CheckVersion2_0_frame:
  assumes "CheckVersion2_0 pf api w = Some (ok, api1, w1)"
  shows "api_checked api1 = api_checked api \<and> (ok \<longrightarrow> ver_protocol (api_version api1) \<noteq> 0)
         \<and> api_serviceVersion api1 = api_serviceVersion api"
  using assms
  by (auto simp: CheckVersion2_0_def bind_eq_Some_conv split: option.splits dest!: any.reply_step)

lemma check_core_frame:
  assumes "check_core pf api w = Some (ok, api1, w1)"
  shows "api_checked api1 = api_checked api \<and> api_serviceVersion api1 = api_serviceVersion api
         \<and> (ok \<longrightarrow> ver_protocol (api_version api1) \<noteq> 0 \<and> 0x00020000 \<le> ranking_of WS_Myth api1
               \<and> ranking_of WS_Myth api1 \<le> MYTH_API_VERSION_MAX_RANKING)"
  using assms
  by (auto simp: check_core_def Let_def and_call_Some ranking_of_def not_less split: if_splits
      dest!: CheckServerHostName2_0_frame CheckVersion2_0_frame)

lemma InitWSAPI_frame:
  assumes "InitWSAPI pf api w = Some (ok, api1, w1)"
  shows "api_checked api1 = api_checked api \<and> api_serviceVersion api1 WS_INVALID = no_version
         \<and> (ok \<longrightarrow> ver_protocol (api_version api1) \<noteq> 0 \<and> 0x00020000 \<le> ranking_of WS_Myth api1
               \<and> ranking_of WS_Myth api1 \<le> MYTH_API_VERSION_MAX_RANKING)"
  using assms
  by (auto simp: InitWSAPI_def and_call_Some ranking_of_def dest!: GetServiceVersion_frame check_core_frame)

lemma ensure_checked_ok:
  assumes "ensure_checked pf api w = Some (ok, api1, w1)" "api_ok api"
  shows "api_ok api1 \<and> api_checked api1 = ok"
  using assms
  by (auto simp: ensure_checked_def api_ok_def bind_eq_Some_conv ranking_of_def split: if_splits dest!: InitWSAPI_frame)

definition stays_ok :: "wsapi \<times> 'w \<Rightarrow> wsapi \<times> 'w \<Rightarrow> bool" where
  "stays_ok s t \<longleftrightarrow> (api_ok (fst s) \<longrightarrow> api_ok (fst t))"

interpretation ok: client_steps pf stays_ok for pf
proof unfold_locales
  fix api :: wsapi and w w1 :: 'b and ok api1
  assume "ensure_checked pf api w = Some (ok, api1, w1)"
  then show "stays_ok (api, w) (api1, w1)" by (auto simp: stays_ok_def dest: ensure_checked_ok)
qed (auto simp: stays_ok_def api_ok_def ranking_of_def InvalidateService_def cache_name_def)

section \<open>The life of a client\<close>

inductive client_reachable :: "('r, 'w) platform \<Rightarrow> 'w \<Rightarrow> wsapi \<times> 'w \<Rightarrow> bool"
  for pf :: "('r, 'w) platform" and w0 :: 'w where
  reach_new: "client_reachable pf w0 (WSAPI_init server prt pin, w0)"
| reach_op: "client_reachable pf w0 (api, w) \<Longrightarrow> client_op pf c \<Longrightarrow> c api w = Some ((), api1, w1) \<Longrightarrow>
    client_reachable pf w0 (api1, w1)"
| reach_authorization: "client_reachable pf w0 (api, w) \<Longrightarrow> client_reachable pf w0 (WithAuthorization usr pwd api, w)"
| reach_ssl: "client_reachable pf w0 (api, w) \<Longrightarrow> client_reachable pf w0 (WithSSL pf yesno api, w)"
| reach_invalidate: "client_reachable pf w0 (api, w) \<Longrightarrow> client_reachable pf w0 (InvalidateService api, w)"

text \<open>Whatever operations are called on a client, in whatever order and whatever the server answers, a client
  that counts as checked knows a protocol other than 0 and talks to a service Myth of a version it supports, and there is
  never a version for the slot that stands for no service, so an operation of a server that cannot be used
  gives its default.\<close>

theorem client_invariant:
  assumes "client_reachable pf w0 s"
  shows "api_ok (fst s)"
  using assms
proof induction
  case (reach_op api w c api1 w1)
  then show ?case using keepsD [OF ok.client_op_keeps] by (fastforce simp: stays_ok_def)
qed (auto simp: api_ok_def ranking_of_def WSAPI_init_def WithAuthorization_def WithSSL_def InvalidateService_def)

section \<open>The requests of a client\<close>

text \<open>The world with a log of the requests.\<close>

definition logged :: "('r, 'w) http \<Rightarrow> ('r, wsrequest list \<times> 'w) http" where
  "logged h =
     \<lparr>http_send = (\<lambda>q n trusted any lw. case http_send h q n trusted any (snd lw) of (r, w1) \<Rightarrow> (r, fst lw @ [q], w1)),
      http_status = http_status h, http_successful = http_successful h, http_read = http_read h\<rparr>"

definition logging :: "('r, 'w) platform \<Rightarrow> ('r, wsrequest list \<times> 'w) platform" where
  "logging pf =
     \<lparr>pf_build = pf_build pf, pf_openssl = pf_openssl pf, pf_http = logged (pf_http pf), pf_fpu = pf_fpu pf,
      pf_libc = pf_libc pf, pf_zone = pf_zone pf, pf_myhost = pf_myhost pf\<rparr>"

definition same_account :: "wsapi \<Rightarrow> wsapi \<Rightarrow> bool" where
  "same_account a b \<longleftrightarrow>
     api_server b = api_server a \<and> api_port b = api_port a \<and> api_ssl b = api_ssl a
     \<and> api_securityPin b = api_securityPin a \<and> api_authUser b = api_authUser a \<and> api_authPassword b = api_authPassword a"

definition asks_server :: "wsapi \<times> wsrequest list \<times> 'w \<Rightarrow> wsapi \<times> wsrequest list \<times> 'w \<Rightarrow> bool" where
  "asks_server s t \<longleftrightarrow>
     same_account (fst s) (fst t)
     \<and> (\<exists>qs. fst (snd t) = fst (snd s) @ qs \<and> (\<forall>q\<in>set qs. addressed (fst s) q))"

lemma asks_server_trans: "asks_server s t \<Longrightarrow> asks_server t u \<Longrightarrow> asks_server s u"
  by (fastforce simp: asks_server_def same_account_def addressed_def)

interpretation asks: client_base "logging pf" asks_server for pf
proof unfold_locales
  fix api :: wsapi and q n trusted any and w :: "wsrequest list \<times> 'b" and resp w1
  assume "addressed api q" "http_send (pf_http (logging pf)) q n trusted any w = (resp, w1)"
  then show "asks_server (api, w) (api, w1)"
    by (auto simp: logging_def logged_def asks_server_def same_account_def split: prod.splits)
next
  fix s t u :: "wsapi \<times> wsrequest list \<times> 'b"
  assume "asks_server s t" "asks_server t u"
  then show "asks_server s u" by (rule asks_server_trans)
qed (auto simp: asks_server_def same_account_def)

lemma and_call_asks:
  "keeps asks_server a \<Longrightarrow> keeps asks_server b \<Longrightarrow> keeps asks_server (and_call a b)"
  unfolding keeps_def and_call_Some by (blast intro: asks_server_trans)

lemma GetServiceVersion_asks:
  "GetServiceVersion (logging pf) sid api w = Some (ok, api1, w1) \<Longrightarrow> asks_server (api, w) (api1, w1)"
  by (auto simp: GetServiceVersion_def bind_eq_Some_conv set_service_def asks_server_def same_account_def split: option.splits
      dest!: asks.reply_step)

lemma CheckServerHostName2_0_asks:
  "CheckServerHostName2_0 (logging pf) api w = Some (ok, api1, w1) \<Longrightarrow> asks_server (api, w) (api1, w1)"
  by (auto simp: CheckServerHostName2_0_def bind_eq_Some_conv asks_server_def same_account_def addressed_def split: option.splits
      dest!: asks.reply_step)

lemma CheckVersion2_0_asks:
  "CheckVersion2_0 (logging pf) api w = Some (ok, api1, w1) \<Longrightarrow> asks_server (api, w) (api1, w1)"
  by (auto simp: CheckVersion2_0_def bind_eq_Some_conv asks_server_def same_account_def addressed_def split: option.splits
      dest!: asks.reply_step)

lemma check_core_asks:
  assumes "check_core (logging pf) api w = Some (ok, api1, w1)"
  shows "asks_server (api, w) (api1, w1)"
proof -
  have "keeps asks_server (and_call (CheckServerHostName2_0 (logging pf)) (CheckVersion2_0 (logging pf)))"
    by (intro and_call_asks keepsI) (erule CheckServerHostName2_0_asks CheckVersion2_0_asks)+
  with assms show ?thesis by (auto simp: check_core_def Let_def split: if_splits dest: keepsD)
qed

lemma InitWSAPI_asks:
  assumes "InitWSAPI (logging pf) api w = Some (ok, api1, w1)"
  shows "asks_server (api, w) (api1, w1)"
proof -
  let ?api = "api\<lparr>api_serviceVersion := \<lambda>sid. no_version\<rparr>"
  have "keeps asks_server
     (and_call (GetServiceVersion (logging pf) WS_Myth)
       (and_call (check_core (logging pf))
         (and_call (GetServiceVersion (logging pf) WS_Capture)
           (and_call (GetServiceVersion (logging pf) WS_Channel)
             (and_call (GetServiceVersion (logging pf) WS_Guide)
               (and_call (GetServiceVersion (logging pf) WS_Content) (GetServiceVersion (logging pf) WS_Dvr)))))))"
    by (intro and_call_asks keepsI) (erule GetServiceVersion_asks check_core_asks)+
  then have "asks_server (?api, w) (api1, w1)" using assms unfolding InitWSAPI_def by (rule keepsD)
  moreover have "asks_server (api, w) (?api, w)" by (simp add: asks_server_def same_account_def)
  ultimately show ?thesis by (blast intro: asks_server_trans)
qed

interpretation asks: client_steps "logging pf" asks_server for pf
proof unfold_locales
  fix api :: wsapi and w w1 :: "wsrequest list \<times> 'b" and ok api1
  assume "ensure_checked (logging pf) api w = Some (ok, api1, w1)"
  then show "asks_server (api, w) (api1, w1)"
    by (auto simp: ensure_checked_def bind_eq_Some_conv asks_server_def same_account_def split: if_splits
        dest!: InitWSAPI_asks)
qed (auto simp: asks_server_def same_account_def InvalidateService_def cache_name_def)


section \<open>A client of a server that does not answer\<close>

definition silent_platform :: "(unit, unit) platform" where
  "silent_platform =
     \<lparr>pf_build = \<lparr>HAVE_ZLIB = True, LIBVERSION = ''2''\<rparr>, pf_openssl = True,
      pf_http = \<lparr>http_send = (\<lambda>q n trusted any w. ((), w)), http_status = (\<lambda>r. 0), http_successful = (\<lambda>r. False),
                 http_read = (\<lambda>n r. Some (None, r))\<rparr>,
      pf_fpu = demo_fpu, pf_libc = demo_libc, pf_zone = \<lparr>localtime_r = gmtime_r, mktime = timegm\<rparr>, pf_myhost = ''h''\<rparr>"

definition silent_api :: wsapi where
  "silent_api = WithSSL silent_platform True (WSAPI_init ''h'' 6544 ''0000'')"

lemma silent_reply:
  assumes "api_authToken api = []"
  shows "reply (logging silent_platform) svc meth pars f api (l, ()) =
    Some (f None, api, l @ [make_query (logging silent_platform) svc meth pars api], ())"
  using assms
  by (simp add: reply_def call_json_def Execute_def)
     (simp add: logging_def logged_def silent_platform_def Let_def)

lemma silent_ensure:
  assumes "api_authToken api = []" "\<not> api_checked api" "api_serviceVersion api = (\<lambda>sid. no_version)"
  shows "ensure_checked (logging silent_platform) api (l, ()) =
    Some (False, api, l @ [make_query (logging silent_platform) ''/Myth/version'' WS_METHOD_Get [] api], ())"
proof -
  have "api\<lparr>api_serviceVersion := \<lambda>sid. no_version\<rparr> = api" "set_service WS_Myth no_version api = api"
    "api\<lparr>api_checked := False\<rparr> = api"
    using assms(2,3) by (cases api, auto simp: set_service_def)+
  then show ?thesis using assms(1,2)
    by (simp add: ensure_checked_def InitWSAPI_def and_call_def GetServiceVersion_def silent_reply
        version_of_def string_field_def WSServiceRoot_def)
qed

lemma silent_api_simps [simp]:
  "api_authToken silent_api = []" "\<not> api_checked silent_api" "api_serviceVersion silent_api = (\<lambda>sid. no_version)"
  by (simp_all add: silent_api_def WithSSL_def silent_platform_def WSAPI_init_def)

lemma silent_check:
  "erase (CheckService (logging silent_platform)) silent_api ([], ()) =
     Some ((), silent_api, [make_query (logging silent_platform) ''/Myth/version'' WS_METHOD_Get [] silent_api], ())"
  by (simp add: erase_def CheckService_def silent_ensure)

lemma silent_reachable:
  "client_reachable (logging silent_platform) ([], ())
     (silent_api, [make_query (logging silent_platform) ''/Myth/version'' WS_METHOD_Get [] silent_api], ())"
proof -
  have "client_reachable (logging silent_platform) ([], ()) (WSAPI_init ''h'' 6544 ''0000'', [], ())" by (rule reach_new)
  from reach_ssl [OF this, of True] have "client_reachable (logging silent_platform) ([], ()) (silent_api, [], ())"
    by (simp add: silent_api_def WithSSL_def logging_def)
  from reach_op [OF this client_op.intros(1)] silent_check show ?thesis by simp
qed

theorem client_invariant_witness:
  "api_ok silent_api \<and> \<not> api_checked silent_api"
  using client_invariant [OF silent_reachable] by (simp add: silent_api_def WithSSL_def silent_platform_def WSAPI_init_def)


end
