(* ===== verification/WsPaging.thy ===== *)
theory WsPaging
  imports WsLaws JsonPrint
begin

text \<open>
  The lists that the web service client reads in pages: against a server that answers each page with the entries asked for, the
  client ends and has every entry once and in order, up to the limit.
\<close>

section \<open>A server of pages\<close>

text \<open>What is still to be asked for, and a server: whenever the client is ready to ask for the entries behind the first
  \<open>got\<close>, the page holds as many of them as it asks for or all that are left, and the client is ready again.\<close>

definition wanted :: "u32 \<Rightarrow> 'e list \<Rightarrow> 'e list" where
  "wanted limit xs = (if limit = 0 then xs else take (unat limit) xs)"

definition page_of :: "'a paging \<Rightarrow> json \<Rightarrow> json list" where
  "page_of pg root = items (GetObjectValue (pg_items pg) (GetObjectValue (pg_list pg) root))"

definition serves ::
    "('r, 'w) platform \<Rightarrow> 'a paging \<Rightarrow> u32 \<Rightarrow> u32 \<Rightarrow> json list \<Rightarrow> (wsrequest \<Rightarrow> wsapi \<Rightarrow> 'w \<Rightarrow> bool) \<Rightarrow> bool" where
  "serves pf pg proto step xs ready \<longleftrightarrow>
     (\<forall>got q api w. ready q api w \<longrightarrow> got \<le> length xs \<longrightarrow> unat step dvd got \<longrightarrow>
        (pg_limit pg = 0 \<or> got < unat (pg_limit pg)) \<longrightarrow>
        (let cnt = page_count (pg_limit pg) step (of_nat got) in
         \<exists>root q1 api1 w1. page_fetch pf pg (of_nat got) cnt q api w = Some ((Some root, q1), api1, w1)
           \<and> list_protocol pf proto (GetObjectValue (pg_list pg) root) = proto
           \<and> page_of pg root = take (unat cnt) (drop got xs) \<and> ready q1 api1 w1))"

lemma servesD:
  assumes "serves pf pg proto step xs ready" "ready q api w" "got \<le> length xs" "unat step dvd got"
    "pg_limit pg = 0 \<or> got < unat (pg_limit pg)"
  obtains root q1 api1 w1 where
    "page_fetch pf pg (of_nat got) (page_count (pg_limit pg) step (of_nat got)) q api w = Some ((Some root, q1), api1, w1)"
    "list_protocol pf proto (GetObjectValue (pg_list pg) root) = proto"
    "page_of pg root = take (unat (page_count (pg_limit pg) step (of_nat got))) (drop got xs)" "ready q1 api1 w1"
  using assms unfolding serves_def Let_def by blast

text \<open>The size of a page, without a limit or with one that is not reached.\<close>

lemma unat_page_count:
  assumes "got < 2 ^ 32" "limit = 0 \<or> got < unat limit"
  shows "unat (page_count limit step (of_nat got))
         = (if limit = 0 then unat step else min (unat step) (unat limit - got))"
proof (cases "limit = 0")
  case False
  have g: "unat (of_nat got :: u32) = got" using assms(1) by (simp add: unat_of_nat_small)
  have "of_nat got \<le> limit" using False assms(2) g by (simp add: word_le_nat_alt)
  then have "unat (limit - of_nat got) = unat limit - got" by (simp add: unat_sub g)
  then show ?thesis using False by (simp add: page_count_def word_less_nat_alt min_def)
qed (simp add: page_count_def)

lemma fold_snoc: "fold (\<lambda>n ret. ret @ [f n]) xs acc = acc @ map f xs"
  by (induction xs arbitrary: acc) simp_all

lemma page_loop_unfold:
  assumes "page_fetch pf pg idx (page_count (pg_limit pg) req_count got) q api w = Some ((Some root, q1), api1, w1)"
    "list_protocol pf proto (GetObjectValue (pg_list pg) root) = proto"
  shows "page_loop pf pg proto idx req_count got acc q api w =
    (let count = of_nat (length (page_of pg root)) in
     if count = page_count (pg_limit pg) req_count got \<and> (pg_limit pg = 0 \<or> pg_limit pg > got + count)
     then page_loop pf pg proto (idx + count) (page_count (pg_limit pg) req_count got) (got + count)
            (fold (pg_add pg) (page_of pg root) acc) q1 api1 w1
     else Some (fold (pg_add pg) (page_of pg root) acc, api1, w1))"
  using assms unfolding page_of_def by (subst page_loop.simps) (auto simp: Let_def)

lemma drop_page:
  assumes "n = length (take n (drop got xs))" "limit = 0 \<or> got + n < unat limit"
  shows "drop got (wanted limit xs) = take n (drop got xs) @ drop (got + n) (wanted limit xs)"
proof -
  have "take n (drop got (wanted limit xs)) = take n (drop got xs)"
    using assms(2) by (auto simp: wanted_def drop_take min_def)
  then show ?thesis by (metis append_take_drop_id drop_drop add.commute)
qed

lemma page_loop_complete:
  assumes "serves pf pg proto step xs ready" "ready q api w" "got \<le> length xs" "unat step dvd got" "step \<noteq> 0"
    "pg_limit pg = 0 \<or> got < unat (pg_limit pg)" "length xs + unat step < 2 ^ 32"
  shows "\<exists>api1 w1. page_loop pf pg proto (of_nat got) step (of_nat got) acc q api w =
    Some (fold (pg_add pg) (drop got (wanted (pg_limit pg) xs)) acc, api1, w1)"
  using assms
proof (induction "length xs - got" arbitrary: got acc q api w rule: less_induct)
  case less
  let ?cnt = "page_count (pg_limit pg) step (of_nat got)"
  let ?page = "take (unat ?cnt) (drop got xs)"
  from servesD [OF less.prems(1-4,6)] obtain root q1 api1 w1 where
    f: "page_fetch pf pg (of_nat got) ?cnt q api w = Some ((Some root, q1), api1, w1)"
    "list_protocol pf proto (GetObjectValue (pg_list pg) root) = proto" "page_of pg root = ?page" "ready q1 api1 w1" .
  have g32: "got < 2 ^ 32" using less.prems(3,7) by linarith
  have cnt: "unat ?cnt = (if pg_limit pg = 0 then unat step else min (unat step) (unat (pg_limit pg) - got))"
    using unat_page_count [OF g32 less.prems(6)] .
  have s0: "0 < unat step" using less.prems(5) by (simp add: unat_gt_0)
  have len: "length ?page = min (unat ?cnt) (length xs - got)" by simp
  let ?n = "length ?page"
  have n32: "got + ?n < 2 ^ 32" using less.prems(3,7) len by auto
  have full: "(of_nat ?n = ?cnt) = (?n = unat ?cnt)"
    using n32 by (auto simp: word_unat_eq_iff unat_of_nat_small)
  have "unat (of_nat got + of_nat ?n :: u32) = got + ?n"
    using n32 by (simp add: unat_of_nat_small flip: of_nat_add)
  then have more: "(of_nat got + of_nat ?n < pg_limit pg) = (got + ?n < unat (pg_limit pg))"
    by (simp add: word_less_nat_alt)
  note loop = page_loop_unfold [OF f(1,2), of acc, unfolded f(3) Let_def full more]
  show ?case
  proof (cases "?n = unat ?cnt \<and> (pg_limit pg = 0 \<or> got + ?n < unat (pg_limit pg))")
    case True
    then have c: "?cnt = step" "?n = unat step"
      using cnt by (auto simp: word_unat_eq_iff min_def split: if_splits)
    have "got + ?n \<le> length xs" using len less.prems(3) by linarith
    moreover have "unat step dvd got + ?n" using c(2) less.prems(4) by simp
    moreover have "length xs - (got + ?n) < length xs - got" using c(2) s0 len by linarith
    ultimately obtain api2 w2 where
      r: "page_loop pf pg proto (of_nat (got + ?n)) step (of_nat (got + ?n)) (fold (pg_add pg) ?page acc) q1 api1 w1 =
        Some (fold (pg_add pg) (drop (got + ?n) (wanted (pg_limit pg) xs)) (fold (pg_add pg) ?page acc), api2, w2)"
      using less.hyps [OF _ less.prems(1) f(4) _ _ less.prems(5) _ less.prems(7)] True by blast
    have "drop got (wanted (pg_limit pg) xs) = ?page @ drop (got + ?n) (wanted (pg_limit pg) xs)"
      using True drop_page [of "unat ?cnt" got xs "pg_limit pg"] by (metis (no_types, lifting))
    then have "fold (pg_add pg) (drop got (wanted (pg_limit pg) xs)) acc
        = fold (pg_add pg) (drop (got + ?n) (wanted (pg_limit pg) xs)) (fold (pg_add pg) ?page acc)"
      by simp
    with loop True c r show ?thesis by auto
  next
    case False
    have "?page = drop got (wanted (pg_limit pg) xs)"
      using False cnt len less.prems(3,6)
      by (auto simp: wanted_def min_def drop_take take_all_iff split: if_splits
               intro!: arg_cong2 [where f = take])
    with loop [unfolded if_not_P [OF False]] show ?thesis by simp
  qed
qed


section \<open>The lists\<close>

text \<open>C5: Against a server of pages an operation that reads a list in pages ends and has handled every entry once and
  in order: all that the server has, or the first ones up to the limit. Neither the size of the pages nor where the
  last one ends shows in the result.\<close>

theorem pages_complete:
  assumes "serves pf pg (ver_protocol (api_version api)) step xs ready" "ready (make_query pf svc WS_METHOD_Get [] api) api w"
    "step \<noteq> 0" "length xs + unat step < 2 ^ 32"
  shows "\<exists>api1 w1. list_pages pf svc pg step start api w =
    Some (fold (pg_add pg) (wanted (pg_limit pg) xs) start, api1, w1)"
proof -
  have "pg_limit pg = 0 \<or> 0 < unat (pg_limit pg)" by (simp add: unat_gt_0)
  from page_loop_complete [OF assms(1,2) _ _ assms(3) this assms(4), of start]
  show ?thesis by (simp add: list_pages_def)
qed

text \<open>A server of three programs that looks at the parameters it gets.\<close>

definition demo_programs :: "json list" where
  "demo_programs = map (\<lambda>t. JObj [(Key ''Title'', JStr t)]) [''A'', ''B'', ''C'']"

definition demo_page :: "json list \<Rightarrow> json" where
  "demo_page xs = JObj [(Key ''ProgramList'', JObj [(Key ''Programs'', JArr xs), (Key ''ProtoVer'', JStr ''88'')])]"

definition demo_answer :: "string \<Rightarrow> bytes" where
  "demo_answer content =
     (if content = ''StartIndex=0&Count=2'' then render (demo_page (take 2 demo_programs))
      else if content = ''StartIndex=2&Count=2'' then render (demo_page (drop 2 demo_programs)) else [])"

definition demo_http :: "(bytes, unit) http" where
  "demo_http = \<lparr>http_send = (\<lambda>q m t f w. (demo_answer (rq_contentData q), w)), http_status = (\<lambda>r. 200),
     http_successful = (\<lambda>r. True), http_read = (\<lambda>n r. Some (Some (take n r), drop n r))\<rparr>"

definition demo_platform :: "(bytes, unit) platform" where
  "demo_platform = \<lparr>pf_build = \<lparr>HAVE_ZLIB = True, LIBVERSION = ''2''\<rparr>, pf_openssl = False, pf_http = demo_http,
     pf_fpu = demo_fpu, pf_libc = demo_libc, pf_zone = \<lparr>localtime_r = gmtime_r, mktime = timegm\<rparr>, pf_myhost = ''h''\<rparr>"

definition demo_api :: wsapi where
  "demo_api = (WSAPI_init ''h'' 6544 '''')\<lparr>api_version := Version_init\<lparr>ver_protocol := 88\<rparr>\<rparr>"

definition demo_paging :: "Program list paging" where
  "demo_paging = program_pages demo_platform 88 []"

lemma demo_document:
  assumes "length r \<le> 4000"
  shows "Document demo_platform r = Some (parse_document demo_fpu (Some r))"
proof (cases "r = []")
  case True
  then show ?thesis
    by (simp add: Document_def demo_platform_def demo_http_def read_document.simps)
next
  case False
  then show ?thesis using assms
    by (simp add: Document_def demo_platform_def demo_http_def read_document.simps [of _ r] read_document.simps [of _ "[]"])
qed

lemma demo_page_parses:
  assumes "xs = take 2 demo_programs \<or> xs = drop 2 demo_programs"
  shows "parse demo_fpu (render (demo_page xs)) = Inr (demo_page xs)"
proof -
  have "printable (demo_page xs)" "well_typed (demo_page xs)" "get_type (demo_page xs) \<in> {TYPE_ARRAY, TYPE_OBJECT}"
    using assms by (auto simp: demo_page_def demo_programs_def less_eq_jkey_def)
  then show ?thesis using parse_render canon_well_typed by metis
qed

lemma demo_list:
  "list_protocol demo_platform 88 (GetObjectValue ''ProgramList'' (demo_page (take 2 demo_programs))) = 88"
  "list_protocol demo_platform 88 (GetObjectValue ''ProgramList'' (demo_page (drop 2 demo_programs))) = 88"
  "page_of demo_paging (demo_page (take 2 demo_programs)) = take 2 demo_programs"
  "page_of demo_paging (demo_page (drop 2 demo_programs)) = drop 2 demo_programs"
  by code_simp+

lemma demo_params:
  "content_params (pg_params demo_paging 0 2) (ClearContent (make_query demo_platform svc WS_METHOD_Get [] demo_api)) =
   (make_query demo_platform svc WS_METHOD_Get [] demo_api)\<lparr>rq_contentData := ''StartIndex=0&Count=2''\<rparr>"
  "content_params (pg_params demo_paging 2 2) (ClearContent (make_query demo_platform svc WS_METHOD_Get [] demo_api)) =
   (make_query demo_platform svc WS_METHOD_Get [] demo_api)\<lparr>rq_contentData := ''StartIndex=2&Count=2''\<rparr>"
  by code_simp+

lemma demo_call:
  assumes "demo_answer (rq_contentData q) = render (demo_page xs)" "xs = take 2 demo_programs \<or> xs = drop 2 demo_programs"
  shows "call_json demo_platform q demo_api w = Some ((Some (demo_page xs), q), demo_api, w)"
proof -
  have "length (render (demo_page (take 2 demo_programs))) \<le> 4000" "length (render (demo_page (drop 2 demo_programs))) \<le> 4000"
    "render (demo_page (take 2 demo_programs)) \<noteq> []" "render (demo_page (drop 2 demo_programs)) \<noteq> []"
    by code_simp+
  then have "Document demo_platform (demo_answer (rq_contentData q)) = Some (Some (demo_page xs))"
    using assms demo_document demo_page_parses [OF assms(2)] by (auto simp: parse_document_def)
  then show ?thesis
    by (simp add: call_json_def Execute_def demo_api_def WSAPI_init_def)
       (simp add: demo_platform_def demo_http_def root_object_def IsObject_def demo_page_def)
qed

lemma demo_serves:
  "serves demo_platform demo_paging 88 2 demo_programs
     (\<lambda>q api w. ClearContent q = make_query demo_platform svc WS_METHOD_Get [] demo_api \<and> api = demo_api)"
proof -
  let ?Q = "make_query demo_platform svc WS_METHOD_Get [] demo_api"
  have clear: "ClearContent (?Q\<lparr>rq_contentData := c\<rparr>) = ?Q" for c by code_simp
  have names: "pg_list demo_paging = ''ProgramList''" "pg_limit demo_paging = 0" "unat (2 :: u32) = 2"
    "length demo_programs = 3" "take 2 (drop 2 demo_programs) = drop 2 demo_programs"
    by (simp_all add: demo_paging_def program_pages_def demo_programs_def)
  have params: "content_params (pg_params demo_paging 0 2) ?Q = ?Q\<lparr>rq_contentData := ''StartIndex=0&Count=2''\<rparr>"
    "content_params (pg_params demo_paging 2 2) ?Q = ?Q\<lparr>rq_contentData := ''StartIndex=2&Count=2''\<rparr>"
    using demo_params [of svc] clear [of "rq_contentData ?Q"] by simp_all
  have call: "call_json demo_platform (?Q\<lparr>rq_contentData := ''StartIndex=0&Count=2''\<rparr>) demo_api w =
      Some ((Some (demo_page (take 2 demo_programs)), ?Q\<lparr>rq_contentData := ''StartIndex=0&Count=2''\<rparr>), demo_api, w)"
    "call_json demo_platform (?Q\<lparr>rq_contentData := ''StartIndex=2&Count=2''\<rparr>) demo_api w =
      Some ((Some (demo_page (drop 2 demo_programs)), ?Q\<lparr>rq_contentData := ''StartIndex=2&Count=2''\<rparr>), demo_api, w)" for w
    by (rule demo_call; simp add: demo_answer_def)+
  have step: "\<exists>root q1. call_json demo_platform (content_params (pg_params demo_paging (of_nat got) 2) ?Q) demo_api w =
        Some ((Some root, q1), demo_api, w)
      \<and> list_protocol demo_platform 88 (GetObjectValue ''ProgramList'' root) = 88
      \<and> page_of demo_paging root = take 2 (drop got demo_programs) \<and> ClearContent q1 = ?Q"
    if "got \<le> 3" "2 dvd got" for got w
  proof -
    from that have "got = 0 \<or> got = 2" by (elim dvdE) auto
    then show ?thesis by (elim disjE) (simp_all add: params call clear demo_list names)
  qed
  then show ?thesis
    unfolding serves_def names page_count_def page_fetch_def Let_def by auto
qed

theorem pages_complete_witness:
  "\<exists>api1 w1. list_pages demo_platform ''/Dvr/GetUpcomingList'' demo_paging 2 [] demo_api () =
    Some (map (bind_program_recording demo_platform 88) demo_programs, api1, w1)"
proof -
  have "ver_protocol (api_version demo_api) = 88" by (simp add: demo_api_def)
  moreover have "ClearContent (make_query demo_platform svc WS_METHOD_Get [] demo_api)
      = make_query demo_platform svc WS_METHOD_Get [] demo_api" for svc by code_simp
  moreover have "length demo_programs = 3" "pg_limit demo_paging = 0"
    "fold (pg_add demo_paging) xs [] = map (bind_program_recording demo_platform 88) xs" for xs
    by (simp_all add: demo_programs_def demo_paging_def program_pages_def fold_snoc)
  ultimately show ?thesis
    using pages_complete [of demo_platform demo_paging demo_api 2 demo_programs, OF _ _ _ _, of _ "''/Dvr/GetUpcomingList''" "()" "[]"]
      demo_serves [of "''/Dvr/GetUpcomingList''"]
    by (simp add: wanted_def)
qed

section \<open>Too many days of the guide\<close>

text \<open>A server that takes a count of 0 at its word gives an empty page, and the loop asks for the same page
  again.\<close>

lemma page_loop_spins:
  assumes "serves pf pg proto 0 xs ready" "pg_limit pg = 0" "ready q api w"
  shows "page_loop pf pg proto 0 0 0 acc q api w = None"
proof (rule ccontr)
  assume "page_loop pf pg proto 0 0 0 acc q api w \<noteq> None"
  then obtain y where l: "page_loop pf pg proto 0 0 0 acc q api w = Some y" by blast
  have "\<not> (pf = pf \<and> pg = pg \<and> proto = proto \<and> (0 :: u32) = 0 \<and> (0 :: u32) = 0 \<and> (0 :: u32) = 0 \<and> ready q api w)"
  proof (rule page_loop.raw_induct
      [where P = "\<lambda>pf' pg' proto' idx req_count got acc q api w y.
         \<not> (pf' = pf \<and> pg' = pg \<and> proto' = proto \<and> idx = 0 \<and> req_count = 0 \<and> got = 0 \<and> ready q api w)", OF _ l], goal_cases)
    case (1 loop pf' pg' proto' idx req_count got acc q api w y)
    show ?case
    proof
      assume p: "pf' = pf \<and> pg' = pg \<and> proto' = proto \<and> idx = 0 \<and> req_count = 0 \<and> got = 0 \<and> ready q api w"
      then have "ready q api w" by blast
      from servesD [OF assms(1) this, of 0] assms(2) obtain root q1 api1 w1 where
        f: "page_fetch pf pg 0 0 q api w = Some ((Some root, q1), api1, w1)"
        "list_protocol pf proto (GetObjectValue (pg_list pg) root) = proto" "page_of pg root = []" "ready q1 api1 w1"
        by (simp add: page_count_def) blast
      have "loop pf pg proto 0 0 0 acc q1 api1 w1 = Some y"
        using 1(2) p f(1,2) f(3) [unfolded page_of_def] assms(2) by (simp add: page_count_def Let_def)
      from 1(1) [OF this] f(4) show False by simp
    qed
  qed
  with assms(3) show False by simp
qed

lemma guide_count_zero: "sint endtime - sint starttime \<ge> 25920000 \<Longrightarrow> guide_count starttime endtime = 0"
proof -
  assume a: "sint endtime - sint starttime \<ge> 25920000"
  have "(sint endtime - sint starttime) div 259200 \<ge> 25920000 div 259200" using a by (rule zdiv_mono1) simp
  then have "100 div (1 + (sint endtime - sint starttime) div 259200) = 0" by (intro div_pos_pos_trivial) auto
  then show ?thesis using a by (simp add: guide_count_def Let_def)
qed


text \<open>A server whose guide is empty.\<close>

definition empty_guide :: json where
  "empty_guide = JObj [(Key ''ProgramGuide'', JObj [(Key ''Channels'', JArr []), (Key ''ProtoVer'', JStr ''88'')])]"

definition empty_platform :: "(bytes, unit) platform" where
  "empty_platform = demo_platform\<lparr>pf_http := demo_http\<lparr>http_send := (\<lambda>q n trusted any w. (render empty_guide, w))\<rparr>\<rparr>"

lemma empty_guide_parses: "parse demo_fpu (render empty_guide) = Inr empty_guide"
proof -
  have "printable empty_guide" "well_typed empty_guide" "get_type empty_guide \<in> {TYPE_ARRAY, TYPE_OBJECT}"
    by (auto simp: empty_guide_def less_eq_jkey_def)
  then show ?thesis using parse_render canon_well_typed by metis
qed

lemma empty_call: "call_json empty_platform q demo_api w = Some ((Some empty_guide, q), demo_api, w)"
proof -
  have "length (render empty_guide) \<le> 4000" "render empty_guide \<noteq> []" by code_simp+
  then have "Document empty_platform (render empty_guide) = Some (Some empty_guide)"
    using empty_guide_parses
    by (simp add: Document_def empty_platform_def demo_platform_def demo_http_def parse_document_def
        read_document.simps [of _ "render empty_guide"] read_document.simps [of _ "[]"])
  then show ?thesis
    by (simp add: call_json_def Execute_def demo_api_def WSAPI_init_def)
       (simp add: empty_platform_def demo_platform_def demo_http_def root_object_def IsObject_def empty_guide_def)
qed


end
