(* ===== verification/Compressor.thy ===== *)
theory Compressor
  imports Prelude
begin

text \<open>
  The streams of \<open>private/compressor.h\<close> and \<open>private/compressor.cpp\<close>: \<open>Compressor\<close> and
  \<open>Decompressor\<close> drive zlib over an input that is a block of memory or a reader callback, by
  chunks of 16384 bytes, and hand the output out in blocks of any size.

  zlib is not part of the program: it is a parameter, the record of its four functions (or
  \<open>None\<close> for a build without it). A call gets the bytes at \<open>next_in\<close>, the room \<open>avail_out\<close> and the
  state, and returns the status, the number of bytes consumed, the bytes produced and the new
  state. The reader callback is a function on the state of its handle; a negative result is
  \<open>None\<close>.
\<close>

section \<open>zlib\<close>

record 'z zlib =
  inflateInit2 :: "int \<Rightarrow> int \<times> 'z"
  inflate :: "bytes \<Rightarrow> nat \<Rightarrow> 'z \<Rightarrow> int \<times> nat \<times> bytes \<times> 'z"
  deflateInit2 :: "int \<Rightarrow> int \<Rightarrow> int \<times> 'z"
  deflate :: "int \<Rightarrow> bytes \<Rightarrow> nat \<Rightarrow> 'z \<Rightarrow> int \<times> nat \<times> bytes \<times> 'z"

definition Z_OK :: int where "Z_OK = 0"
definition Z_STREAM_END :: int where "Z_STREAM_END = 1"
definition Z_STREAM_ERROR :: int where "Z_STREAM_ERROR = -2"
definition Z_BUF_ERROR :: int where "Z_BUF_ERROR = -5"
definition Z_NO_FLUSH :: int where "Z_NO_FLUSH = 0"
definition Z_FINISH :: int where "Z_FINISH = 4"

definition DFLT_WINDOWS_BIT :: int where "DFLT_WINDOWS_BIT = -15"
definition GZIP_WINDOWS_BIT :: int where "GZIP_WINDOWS_BIT = 15 + 16"
definition GZIP_CHUNK_SIZE :: nat where "GZIP_CHUNK_SIZE = 16384"

type_synonym 'h reader = "nat \<Rightarrow> 'h \<Rightarrow> bytes option \<times> 'h"

section \<open>Decompressor\<close>

text \<open>\<open>m_input\<close> is \<open>None\<close> for \<open>FCB_READER\<close>, else what is left of the block of memory. The
  stream of zlib is \<open>next_in\<close> (with \<open>avail_in\<close> bytes), \<open>avail_out\<close> and the state; \<open>m_output\<close> holds
  what zlib wrote since its position was last set back to the start.\<close>

record 'z decompressor =
  z_status :: int
  z_stop :: bool
  z_input :: "bytes option"
  z_output :: bytes
  z_output_pos :: nat
  z_output_len :: nat
  next_in :: bytes
  avail_out :: nat
  z_state :: "'z option"

definition stream_new :: "bytes option \<Rightarrow> 'z decompressor" where
  "stream_new inp =
     \<lparr>z_status = Z_STREAM_ERROR, z_stop = True, z_input = inp, z_output = [], z_output_pos = 0,
      z_output_len = 0, next_in = [], avail_out = GZIP_CHUNK_SIZE, z_state = None\<rparr>"

text \<open>The two constructors, \<open>inp\<close> telling which.\<close>

definition Decompressor_new :: "'z zlib option \<Rightarrow> bytes option \<Rightarrow> bool \<Rightarrow> 'z decompressor" where
  "Decompressor_new zl inp gzip =
     (case zl of
        None \<Rightarrow> stream_new inp
      | Some zf \<Rightarrow>
          (case inflateInit2 zf (if gzip then GZIP_WINDOWS_BIT else DFLT_WINDOWS_BIT) of
             (st, z) \<Rightarrow> (stream_new inp)\<lparr>z_status := st, z_stop := st \<noteq> Z_OK, z_state := Some z\<rparr>))"

definition HasOutputData :: "('z, 'm) decompressor_scheme \<Rightarrow> bool" where
  "HasOutputData d \<longleftrightarrow> \<not> z_stop d"

definition IsCompleted :: "('z, 'm) decompressor_scheme \<Rightarrow> bool" where
  "IsCompleted d \<longleftrightarrow> z_status d = Z_STREAM_END"

definition HasBufferError :: "('z, 'm) decompressor_scheme \<Rightarrow> bool" where
  "HasBufferError d \<longleftrightarrow> z_status d = Z_BUF_ERROR"

definition HasStreamError :: "('z, 'm) decompressor_scheme \<Rightarrow> bool" where
  "HasStreamError d \<longleftrightarrow> z_status d \<notin> {Z_OK, Z_STREAM_END, Z_BUF_ERROR}"

definition NextChunk :: "'h reader \<Rightarrow> 'z decompressor \<Rightarrow> 'h \<Rightarrow> 'z decompressor \<times> 'h" where
  "NextChunk rd d h =
     (case z_input d of
        Some inp \<Rightarrow>
          (let sz = min GZIP_CHUNK_SIZE (length inp) in
           if sz > 0 then (d\<lparr>next_in := take sz inp, z_input := Some (drop sz inp)\<rparr>, h) else (d, h))
      | None \<Rightarrow>
          (case rd GZIP_CHUNK_SIZE h of
             (Some b, h1) \<Rightarrow> (d\<lparr>next_in := b\<rparr>, h1)
           | (None, h1) \<Rightarrow> (d\<lparr>next_in := []\<rparr>, h1)))"

text \<open>The part of the output loops that asks zlib for more: whether it went well.\<close>

definition fill_output ::
    "'z zlib \<Rightarrow> 'h reader \<Rightarrow> 'z decompressor \<Rightarrow> 'h \<Rightarrow> bool \<times> 'z decompressor \<times> 'h" where
  "fill_output zf rd d h =
     (case (if next_in d = [] then NextChunk rd d h else (d, h)) of (d1, h1) \<Rightarrow>
       (let d2 = (if avail_out d1 = 0
                  then d1\<lparr>z_output := [], avail_out := GZIP_CHUNK_SIZE, z_output_pos := 0\<rparr> else d1)
        in case inflate zf (next_in d2) (avail_out d2) (the (z_state d2)) of (st, k, out, z) \<Rightarrow>
             (let d3 = d2\<lparr>z_status := st, next_in := drop k (next_in d2),
                          avail_out := avail_out d2 - length out, z_output := z_output d2 @ out,
                          z_state := Some z\<rparr>
              in if st < 0 then (False, d3\<lparr>z_stop := True\<rparr>, h1)
                 else (True, d3\<lparr>z_output_len :=
                                  size_sub (size_sub GZIP_CHUNK_SIZE (z_output_pos d3)) (avail_out d3),
                                z_stop := False\<rparr>, h1))))"

text \<open>The loop of \<open>ReadOutput\<close>; \<open>None\<close> is a loop that does not end.\<close>

partial_function (option) output_loop ::
    "'z zlib \<Rightarrow> 'h reader \<Rightarrow> nat \<Rightarrow> bytes \<Rightarrow> 'z decompressor \<Rightarrow> 'h
     \<Rightarrow> (bytes \<times> 'z decompressor \<times> 'h) option" where
  [code]: "output_loop zf rd len out d h =
     (if len = 0 then Some (out, d, h)
      else if z_output_len d \<noteq> 0
      then (let sz = min (z_output_len d) len in
            output_loop zf rd (len - sz) (out @ take sz (drop (z_output_pos d) (z_output d)))
              (d\<lparr>z_output_pos := z_output_pos d + sz, z_output_len := z_output_len d - sz\<rparr>) h)
      else if z_status d \<noteq> Z_STREAM_END
      then (case fill_output zf rd d h of (ok, d1, h1) \<Rightarrow>
              (if ok then output_loop zf rd len out d1 h1 else Some ([], d1, h1)))
      else Some (out, d\<lparr>z_stop := True\<rparr>, h))"

definition ReadOutput ::
    "'z zlib option \<Rightarrow> 'h reader \<Rightarrow> nat \<Rightarrow> 'z decompressor \<Rightarrow> 'h
     \<Rightarrow> (bytes \<times> 'z decompressor \<times> 'h) option" where
  "ReadOutput zl rd len d h =
     (case zl of None \<Rightarrow> Some ([], d, h) | Some zf \<Rightarrow> output_loop zf rd len [] d h)"

text \<open>\<open>FetchOutput\<close> returns the pending output as a whole, without copying it.\<close>

partial_function (option) fetch_loop ::
    "'z zlib \<Rightarrow> 'h reader \<Rightarrow> 'z decompressor \<Rightarrow> 'h \<Rightarrow> (bytes \<times> 'z decompressor \<times> 'h) option" where
  [code]: "fetch_loop zf rd d h =
     (if z_output_len d \<noteq> 0
      then Some (take (z_output_len d) (drop (z_output_pos d) (z_output d)),
                 d\<lparr>z_output_pos := z_output_pos d + z_output_len d, z_output_len := 0\<rparr>, h)
      else if z_status d \<noteq> Z_STREAM_END
      then (case fill_output zf rd d h of (ok, d1, h1) \<Rightarrow>
              (if ok then fetch_loop zf rd d1 h1 else Some ([], d1, h1)))
      else Some ([], d\<lparr>z_stop := True\<rparr>, h))"

definition FetchOutput ::
    "'z zlib option \<Rightarrow> 'h reader \<Rightarrow> 'z decompressor \<Rightarrow> 'h \<Rightarrow> (bytes \<times> 'z decompressor \<times> 'h) option" where
  "FetchOutput zl rd d h =
     (case zl of None \<Rightarrow> Some ([], d, h) | Some zf \<Rightarrow> fetch_loop zf rd d h)"

section \<open>Compressor\<close>

record 'z compressor = "'z decompressor" +
  z_flush :: int

definition Compressor_new :: "'z zlib option \<Rightarrow> bytes option \<Rightarrow> bool \<Rightarrow> int \<Rightarrow> 'z compressor" where
  "Compressor_new zl inp gzip level =
     (let c = decompressor.extend (stream_new inp) (compressor.fields Z_NO_FLUSH) in
      case zl of
        None \<Rightarrow> c
      | Some zf \<Rightarrow>
          (case deflateInit2 zf (max (-1) (min level 9))
                  (if gzip then GZIP_WINDOWS_BIT else DFLT_WINDOWS_BIT) of
             (st, z) \<Rightarrow> c\<lparr>z_status := st, z_stop := st \<noteq> Z_OK, z_state := Some z\<rparr>))"

definition Compressor_NextChunk ::
    "'h reader \<Rightarrow> 'z compressor \<Rightarrow> 'h \<Rightarrow> 'z compressor \<times> 'h" where
  "Compressor_NextChunk rd c h =
     (if z_flush c = Z_FINISH then (c, h)
      else case z_input c of
        Some inp \<Rightarrow>
          (let sz = min GZIP_CHUNK_SIZE (length inp) in
           if sz > 0
           then (c\<lparr>next_in := take sz inp, z_input := Some (drop sz inp),
                    z_flush := (if length inp - sz > 0 then Z_NO_FLUSH else Z_FINISH)\<rparr>, h)
           else (c, h))
      | None \<Rightarrow>
          (case rd GZIP_CHUNK_SIZE h of
             (None, h1) \<Rightarrow> (c\<lparr>next_in := []\<rparr>, h1)
           | (Some b, h1) \<Rightarrow>
               (c\<lparr>z_flush := (if length b > 0 then Z_NO_FLUSH else Z_FINISH), next_in := b\<rparr>, h1)))"

definition Compressor_fill ::
    "'z zlib \<Rightarrow> 'h reader \<Rightarrow> 'z compressor \<Rightarrow> 'h \<Rightarrow> bool \<times> 'z compressor \<times> 'h" where
  "Compressor_fill zf rd c h =
     (case (if next_in c = [] then Compressor_NextChunk rd c h else (c, h)) of (c1, h1) \<Rightarrow>
       (let c2 = (if avail_out c1 = 0
                  then c1\<lparr>z_output := [], avail_out := GZIP_CHUNK_SIZE, z_output_pos := 0\<rparr> else c1)
        in case deflate zf (z_flush c2) (next_in c2) (avail_out c2) (the (z_state c2)) of
             (st, k, out, z) \<Rightarrow>
             (let c3 = c2\<lparr>z_status := st, next_in := drop k (next_in c2),
                          avail_out := avail_out c2 - length out, z_output := z_output c2 @ out,
                          z_state := Some z\<rparr>
              in if st < 0 then (False, c3\<lparr>z_stop := True\<rparr>, h1)
                 else (True, c3\<lparr>z_output_len :=
                                  size_sub (size_sub GZIP_CHUNK_SIZE (z_output_pos c3)) (avail_out c3),
                                z_stop := False\<rparr>, h1))))"

partial_function (option) Compressor_read_loop ::
    "'z zlib \<Rightarrow> 'h reader \<Rightarrow> nat \<Rightarrow> bytes \<Rightarrow> 'z compressor \<Rightarrow> 'h
     \<Rightarrow> (bytes \<times> 'z compressor \<times> 'h) option" where
  [code]: "Compressor_read_loop zf rd len out c h =
     (if len = 0 then Some (out, c, h)
      else if z_output_len c \<noteq> 0
      then (let sz = min (z_output_len c) len in
            Compressor_read_loop zf rd (len - sz) (out @ take sz (drop (z_output_pos c) (z_output c)))
              (c\<lparr>z_output_pos := z_output_pos c + sz, z_output_len := z_output_len c - sz\<rparr>) h)
      else if z_status c \<noteq> Z_STREAM_END
      then (case Compressor_fill zf rd c h of (ok, c1, h1) \<Rightarrow>
              (if ok then Compressor_read_loop zf rd len out c1 h1 else Some ([], c1, h1)))
      else Some (out, c\<lparr>z_stop := True\<rparr>, h))"

definition Compressor_ReadOutput ::
    "'z zlib option \<Rightarrow> 'h reader \<Rightarrow> nat \<Rightarrow> 'z compressor \<Rightarrow> 'h
     \<Rightarrow> (bytes \<times> 'z compressor \<times> 'h) option" where
  "Compressor_ReadOutput zl rd len c h =
     (case zl of None \<Rightarrow> Some ([], c, h) | Some zf \<Rightarrow> Compressor_read_loop zf rd len [] c h)"

text \<open>Here the loop looks at \<open>m_stop\<close> before its first round.\<close>

partial_function (option) Compressor_fetch_loop ::
    "'z zlib \<Rightarrow> 'h reader \<Rightarrow> 'z compressor \<Rightarrow> 'h \<Rightarrow> (bytes \<times> 'z compressor \<times> 'h) option" where
  [code]: "Compressor_fetch_loop zf rd c h =
     (if z_stop c then Some ([], c, h)
      else if z_output_len c \<noteq> 0
      then Some (take (z_output_len c) (drop (z_output_pos c) (z_output c)),
                 c\<lparr>z_output_pos := z_output_pos c + z_output_len c, z_output_len := 0\<rparr>, h)
      else if z_status c \<noteq> Z_STREAM_END
      then (case Compressor_fill zf rd c h of (ok, c1, h1) \<Rightarrow>
              (if ok then Compressor_fetch_loop zf rd c1 h1 else Some ([], c1, h1)))
      else Some ([], c\<lparr>z_stop := True\<rparr>, h))"

definition Compressor_FetchOutput ::
    "'z zlib option \<Rightarrow> 'h reader \<Rightarrow> 'z compressor \<Rightarrow> 'h \<Rightarrow> (bytes \<times> 'z compressor \<times> 'h) option" where
  "Compressor_FetchOutput zl rd c h =
     (case zl of None \<Rightarrow> Some ([], c, h) | Some zf \<Rightarrow> Compressor_fetch_loop zf rd c h)"

section \<open>What zlib promises\<close>

text \<open>The documented behaviour of \<open>inflate\<close>: it consumes at most what it is given and produces at
  most what there is room for; \<open>taken\<close> and \<open>made\<close> are what the state has consumed and produced
  since it was initialised. A call that can make no progress is an error (\<open>Z_BUF_ERROR\<close>).\<close>

definition inflate_laws :: "'z zlib \<Rightarrow> ('z \<Rightarrow> bytes) \<Rightarrow> ('z \<Rightarrow> bytes) \<Rightarrow> bool" where
  "inflate_laws zf taken made \<longleftrightarrow>
     (\<forall>w. case inflateInit2 zf w of (st, z) \<Rightarrow> st = Z_OK \<and> taken z = [] \<and> made z = [])
     \<and> (\<forall>i n z. case inflate zf i n z of (st, k, out, z') \<Rightarrow>
          k \<le> length i \<and> length out \<le> n \<and> taken z' = taken z @ take k i \<and> made z' = made z @ out
          \<and> (0 \<le> st \<and> 0 < n \<longrightarrow> 0 < k \<or> out \<noteq> [] \<or> st = Z_STREAM_END))"

lemma inflate_lawsD:
  assumes "inflate_laws zf taken made"
  shows "inflateInit2 zf w = (st, z) \<Longrightarrow> st = Z_OK \<and> taken z = [] \<and> made z = []"
    "inflate zf i n z = (st, k, out, z') \<Longrightarrow>
       k \<le> length i \<and> length out \<le> n \<and> taken z' = taken z @ take k i \<and> made z' = made z @ out
       \<and> (0 \<le> st \<and> 0 < n \<longrightarrow> 0 < k \<or> out \<noteq> [] \<or> st = Z_STREAM_END)"
proof -
  show "inflateInit2 zf w = (st, z) \<Longrightarrow> st = Z_OK \<and> taken z = [] \<and> made z = []"
    using assms unfolding inflate_laws_def by (metis (mono_tags, lifting) case_prod_conv)
  assume "inflate zf i n z = (st, k, out, z')"
  moreover from assms have "case inflate zf i n z of (st, k, out, z') \<Rightarrow>
       k \<le> length i \<and> length out \<le> n \<and> taken z' = taken z @ take k i \<and> made z' = made z @ out
       \<and> (0 \<le> st \<and> 0 < n \<longrightarrow> 0 < k \<or> out \<noteq> [] \<or> st = Z_STREAM_END)"
    unfolding inflate_laws_def by (elim conjE) (drule spec [of _ i], drule spec [of _ n], drule spec [of _ z], assumption)
  ultimately show "k \<le> length i \<and> length out \<le> n \<and> taken z' = taken z @ take k i \<and> made z' = made z @ out
       \<and> (0 \<le> st \<and> 0 < n \<longrightarrow> 0 < k \<or> out \<noteq> [] \<or> st = Z_STREAM_END)" by simp
qed

section \<open>The output of the decompressor\<close>

definition unread_output :: "'z decompressor \<Rightarrow> bytes" where
  "unread_output d = drop (z_output_pos d) (z_output d)"

text \<open>The invariant of a stream over a block of memory: the output buffer is filled up to the room
  that is left, the pending output is the part of it that was not handed out, \<open>inp\<close> is what was
  consumed, what zlib was given and what is left, and \<open>done\<close> was handed out before.\<close>

definition stream_ok ::
    "('z \<Rightarrow> bytes) \<Rightarrow> ('z \<Rightarrow> bytes) \<Rightarrow> bytes \<Rightarrow> bytes \<Rightarrow> 'z decompressor \<Rightarrow> bool" where
  "stream_ok taken made inp given d \<longleftrightarrow>
     avail_out d \<le> GZIP_CHUNK_SIZE \<and> length (z_output d) = GZIP_CHUNK_SIZE - avail_out d
     \<and> z_output_pos d + z_output_len d = length (z_output d)
     \<and> (\<exists>z rest. z_state d = Some z \<and> z_input d = Some rest
          \<and> inp = taken z @ next_in d @ rest \<and> made z = given @ unread_output d)"

definition left :: "'z decompressor \<Rightarrow> nat" where
  "left d = length (next_in d) + length (the (z_input d))"

definition out_idle :: "'z decompressor \<Rightarrow> nat" where
  "out_idle d = (if z_output_len d \<noteq> 0 \<or> z_status d = Z_STREAM_END then 0 else 1)"

lemma NextChunk_ok:
  assumes "stream_ok taken made inp given d" "next_in d = []"
  shows "\<exists>d1. NextChunk rd d h = (d1, h) \<and> stream_ok taken made inp given d1 \<and> left d1 = left d
    \<and> z_output_len d1 = z_output_len d"
  using assms by (auto simp: NextChunk_def stream_ok_def left_def unread_output_def Let_def)

lemma size_sub_chunk:
  assumes "p + a \<le> GZIP_CHUNK_SIZE"
  shows "size_sub (size_sub GZIP_CHUNK_SIZE p) a = GZIP_CHUNK_SIZE - p - a"
  using assms by (simp add: GZIP_CHUNK_SIZE_def)

text \<open>Asking zlib for more, with nothing pending: on success the new output is pending, nothing of
  the input is lost, and something was consumed or produced, or the end is reached.\<close>

lemma fill_ok:
  assumes laws: "inflate_laws zf taken made"
    and ok: "stream_ok taken made inp given d" and out_idle: "z_output_len d = 0"
  obtains good d1 where "fill_output zf rd d h = (good, d1, h)"
    "good \<longleftrightarrow> 0 \<le> z_status d1"
    "good \<longrightarrow> stream_ok taken made inp given d1
      \<and> (left d1 < left d \<or> left d1 = left d \<and> (z_output_len d1 \<noteq> 0 \<or> z_status d1 = Z_STREAM_END))"
proof -
  obtain da where da: "(if next_in d = [] then NextChunk rd d h else (d, h)) = (da, h)"
    "stream_ok taken made inp given da" "left da = left d" "z_output_len da = 0"
    using NextChunk_ok [OF ok] ok out_idle by (cases "next_in d = []") fastforce+
  define d2 where "d2 = (if avail_out da = 0
     then da\<lparr>z_output := [], avail_out := GZIP_CHUNK_SIZE, z_output_pos := 0\<rparr> else da)"
  have d2: "stream_ok taken made inp given d2" "left d2 = left d" "z_output_len d2 = 0" "0 < avail_out d2"
    using da by (auto simp: d2_def stream_ok_def left_def unread_output_def GZIP_CHUNK_SIZE_def)
  from d2(1) obtain z rest where z: "z_state d2 = Some z" "z_input d2 = Some rest"
    "inp = taken z @ next_in d2 @ rest" "made z = given @ unread_output d2"
    "avail_out d2 \<le> GZIP_CHUNK_SIZE" "length (z_output d2) = GZIP_CHUNK_SIZE - avail_out d2"
    "z_output_pos d2 = length (z_output d2)" using d2(3) by (auto simp: stream_ok_def)
  obtain st k out z' where r: "inflate zf (next_in d2) (avail_out d2) z = (st, k, out, z')"
    by (cases "inflate zf (next_in d2) (avail_out d2) z") auto
  from inflate_lawsD(2) [OF laws r] d2(4) have l: "k \<le> length (next_in d2)" "length out \<le> avail_out d2"
    "taken z' = taken z @ take k (next_in d2)" "made z' = made z @ out"
    "0 \<le> st \<longrightarrow> 0 < k \<or> out \<noteq> [] \<or> st = Z_STREAM_END"
    by auto
  define d3 where "d3 = d2\<lparr>z_status := st, next_in := drop k (next_in d2),
      avail_out := avail_out d2 - length out, z_output := z_output d2 @ out, z_state := Some z'\<rparr>"
  define d4 where "d4 = d3\<lparr>z_output_len :=
      size_sub (size_sub GZIP_CHUNK_SIZE (z_output_pos d3)) (avail_out d3), z_stop := False\<rparr>"
  have n: "size_sub (size_sub GZIP_CHUNK_SIZE (z_output_pos d3)) (avail_out d3) = length out"
    using z(5-7) l(2) by (subst size_sub_chunk) (auto simp: d3_def)
  have f: "fill_output zf rd d h = (if st < 0 then (False, d3\<lparr>z_stop := True\<rparr>, h) else (True, d4, h))"
    unfolding fill_output_def da(1) prod.case d2_def [symmetric] Let_def
    by (simp add: z(1) r d3_def d4_def)
  show thesis
  proof (cases "st < 0")
    case True
    with f that [of False "d3\<lparr>z_stop := True\<rparr>"] show thesis by (simp add: d3_def)
  next
    case False
    have "stream_ok taken made inp given d4" using z l(1-4)
      by (auto simp: stream_ok_def d4_def n unread_output_def) (auto simp: d3_def)
    moreover have "left d4 = left d2 - k" using l(1) z(2) by (simp add: left_def d4_def d3_def)
    moreover have "k \<le> left d2" using l(1) by (simp add: left_def)
    moreover have "z_output_len d4 = length out" "z_status d4 = st" by (simp_all add: d4_def n) (simp add: d3_def)
    ultimately show thesis using f False that [of True d4] l(5) d2(2) by force
  qed
qed

lemma read_loop_ok:
  assumes laws: "inflate_laws zf taken made" and "stream_ok taken made inp given d"
  shows "\<exists>o' d'. output_loop zf rd len out d h = Some (o', d', h)
    \<and> (0 \<le> z_status d' \<longrightarrow> (\<exists>b. o' = out @ b \<and> length b \<le> len \<and> stream_ok taken made inp (given @ b) d'
         \<and> (length b = len \<or> z_status d' = Z_STREAM_END \<and> unread_output d' = [])))
    \<and> (z_status d = Z_STREAM_END \<and> unread_output d = [] \<longrightarrow> z_status d' = Z_STREAM_END \<and> unread_output d' = [])"
  using assms(2)
proof (induction "(len, left d, out_idle d)" arbitrary: len out given d
    rule: wf_induct_rule [OF wf_lex_prod [OF wf_less_than wf_lex_prod [OF wf_less_than wf_less_than]]])
  case 1
  show ?case
  proof (cases "len = 0")
    case True
    with "1.prems" show ?thesis by (subst output_loop.simps) (auto intro!: exI [of _ "[]"])
  next
    case len: False
    show ?thesis
    proof (cases "z_output_len d = 0")
      case False
      let ?sz = "min (z_output_len d) len"
      let ?b = "take ?sz (unread_output d)"
      let ?d = "d\<lparr>z_output_pos := z_output_pos d + ?sz, z_output_len := z_output_len d - ?sz\<rparr>"
      have pl: "length (unread_output d) = z_output_len d" using "1.prems" by (auto simp: stream_ok_def unread_output_def)
      have "unread_output d = ?b @ unread_output ?d" by (simp add: unread_output_def) (metis append_take_drop_id drop_drop add.commute)
      with "1.prems" have ok: "stream_ok taken made inp (given @ ?b) ?d"
        by (auto simp: stream_ok_def)
      have "((len - ?sz, left ?d, out_idle ?d), (len, left d, out_idle d)) \<in> less_than <*lex*> less_than <*lex*> less_than"
        using False len by simp
      from "1.hyps" [OF this ok, of "out @ ?b"] obtain o' d' where r:
        "output_loop zf rd (len - ?sz) (out @ ?b) ?d h = Some (o', d', h)"
        "0 \<le> z_status d' \<Longrightarrow> \<exists>b. o' = (out @ ?b) @ b \<and> length b \<le> len - ?sz
           \<and> stream_ok taken made inp ((given @ ?b) @ b) d'
           \<and> (length b = len - ?sz \<or> z_status d' = Z_STREAM_END \<and> unread_output d' = [])" by blast
      have "output_loop zf rd len out d h = Some (o', d', h)"
        using r(1) False len by (subst output_loop.simps) (simp add: Let_def unread_output_def)
      moreover have "length ?b = ?sz" using pl by simp
      moreover have "unread_output d \<noteq> []" using False pl by auto
      ultimately show ?thesis using r(2)
        by (intro exI [of _ o'] exI [of _ d']) (auto 4 4 intro: exI [of _ "?b @ _"])
    next
      case out_idle: True
      show ?thesis
      proof (cases "z_status d = Z_STREAM_END")
        case True
        have "unread_output d = []" using "1.prems" out_idle by (auto simp: stream_ok_def unread_output_def)
        with True len out_idle "1.prems" show ?thesis
          by (subst output_loop.simps) (auto intro!: exI [of _ "[]"] simp: stream_ok_def unread_output_def)
      next
        case False
        from fill_ok [OF laws "1.prems" out_idle, of rd h] obtain good d1 where f:
          "fill_output zf rd d h = (good, d1, h)" "good \<longleftrightarrow> 0 \<le> z_status d1"
          "good \<longrightarrow> stream_ok taken made inp given d1
             \<and> (left d1 < left d \<or> left d1 = left d \<and> (z_output_len d1 \<noteq> 0 \<or> z_status d1 = Z_STREAM_END))" .
        show ?thesis
        proof (cases good)
          case True
          with f(3) False out_idle have "((len, left d1, out_idle d1), (len, left d, out_idle d))
              \<in> less_than <*lex*> less_than <*lex*> less_than" by (auto simp: out_idle_def)
          from "1.hyps" [OF this, of given out] f(3) True have "\<exists>o' d'. output_loop zf rd len out d1 h = Some (o', d', h)
            \<and> (0 \<le> z_status d' \<longrightarrow> (\<exists>b. o' = out @ b \<and> length b \<le> len \<and> stream_ok taken made inp (given @ b) d'
                 \<and> (length b = len \<or> z_status d' = Z_STREAM_END \<and> unread_output d' = [])))" by blast
          with f(1) True len out_idle False show ?thesis by (subst output_loop.simps) simp
        next
          case bad: False
          with f len out_idle False show ?thesis by (subst output_loop.simps) simp
        qed
      qed
    qed
  qed
qed

text \<open>Reading the whole output by blocks of the given sizes, until a read delivers nothing.\<close>

fun read_all ::
    "'z zlib \<Rightarrow> 'h reader \<Rightarrow> nat list \<Rightarrow> 'z decompressor \<Rightarrow> 'h \<Rightarrow> (bytes list \<times> 'z decompressor) option" where
  "read_all zf rd [] d h = Some ([], d)"
| "read_all zf rd (n # ns) d h =
     (case ReadOutput (Some zf) rd n d h of
        None \<Rightarrow> None
      | Some (b, d1, h1) \<Rightarrow>
          (if z_status d1 < 0 then Some ([b], d1)
           else map_option (\<lambda>(bs, d2). (b # bs, d2)) (read_all zf rd ns d1 h1)))"

lemma read_all_ok:
  assumes laws: "inflate_laws zf taken made" and "stream_ok taken made inp given d" "0 \<le> z_status d"
  shows "\<exists>bs d'. read_all zf rd ns d h = Some (bs, d')
    \<and> (0 \<le> z_status d' \<longrightarrow> stream_ok taken made inp (given @ concat bs) d'
         \<and> (length (concat bs) = sum_list ns \<or> z_status d' = Z_STREAM_END \<and> unread_output d' = []))
    \<and> (z_status d = Z_STREAM_END \<and> unread_output d = [] \<longrightarrow> z_status d' = Z_STREAM_END \<and> unread_output d' = [])"
  using assms(2,3)
proof (induction ns arbitrary: given d)
  case (Cons n ns)
  from read_loop_ok [OF laws Cons.prems(1), of rd n "[]" h] obtain b d1 where r:
    "ReadOutput (Some zf) rd n d h = Some (b, d1, h)"
    "0 \<le> z_status d1 \<Longrightarrow> stream_ok taken made inp (given @ b) d1
       \<and> (length b = n \<or> z_status d1 = Z_STREAM_END \<and> unread_output d1 = [])"
    "z_status d = Z_STREAM_END \<and> unread_output d = [] \<Longrightarrow> z_status d1 = Z_STREAM_END \<and> unread_output d1 = []"
    by (auto simp: ReadOutput_def)
  show ?case
  proof (cases "z_status d1 < 0")
    case True
    with r show ?thesis by (fastforce simp: Z_STREAM_END_def)
  next
    case False
    with r(2) Cons.IH [of "given @ b" d1] obtain bs d' where
      "read_all zf rd ns d1 h = Some (bs, d')"
      "0 \<le> z_status d' \<longrightarrow> stream_ok taken made inp ((given @ b) @ concat bs) d'
         \<and> (length (concat bs) = sum_list ns \<or> z_status d' = Z_STREAM_END \<and> unread_output d' = [])"
      "z_status d1 = Z_STREAM_END \<and> unread_output d1 = [] \<longrightarrow> z_status d' = Z_STREAM_END \<and> unread_output d' = []" by auto
    with r False show ?thesis by (intro exI [of _ "b # bs"] exI [of _ d']) auto
  qed
qed auto

lemma Decompressor_new_ok:
  assumes "inflate_laws zf taken made"
  shows "stream_ok taken made inp [] (Decompressor_new (Some zf) (Some inp) gzip)"
    "z_status (Decompressor_new (Some zf) (Some inp) gzip) = Z_OK"
proof -
  obtain st z where i: "inflateInit2 zf (if gzip then GZIP_WINDOWS_BIT else DFLT_WINDOWS_BIT) = (st, z)"
    by force
  from inflate_lawsD(1) [OF assms i] i
  show "stream_ok taken made inp [] (Decompressor_new (Some zf) (Some inp) gzip)"
    "z_status (Decompressor_new (Some zf) (Some inp) gzip) = Z_OK"
    by (simp_all add: Decompressor_new_def stream_new_def stream_ok_def unread_output_def)
qed


text \<open>A codec of stored bytes, as an instance: the first byte is the length of what follows.\<close>

definition stored :: "(bytes \<times> bytes) zlib" where
  "stored =
     \<lparr>inflateInit2 = (\<lambda>w. (Z_OK, [], [])),
      inflate = (\<lambda>i n (t, m).
        if i = [] then (Z_BUF_ERROR, 0, [], (t, m))
        else if t = [] then (Z_OK, 1, [], (take 1 i, m))
        else (let left = of_char (hd t) - length m; k = min (min (length i) n) left in
              (if k = left then Z_STREAM_END else if k = 0 then Z_BUF_ERROR else Z_OK,
               k, take k i, (t @ take k i, m @ take k i)))),
      deflateInit2 = (\<lambda>l w. (Z_OK, [], [])), deflate = (\<lambda>f i n z. (Z_STREAM_ERROR, 0, [], z))\<rparr>"

lemma stored_laws: "inflate_laws stored fst snd"
  by (auto simp: inflate_laws_def stored_def Let_def Z_OK_def Z_BUF_ERROR_def Z_STREAM_END_def
      take_Suc neq_Nil_conv split: prod.split)

lemmas stored_example = output_loop.simps ReadOutput_def fill_output_def NextChunk_def stored_def
  Decompressor_new_def stream_new_def IsCompleted_def HasBufferError_def HasOutputData_def Let_def
  Z_OK_def Z_BUF_ERROR_def Z_STREAM_END_def Z_STREAM_ERROR_def GZIP_CHUNK_SIZE_def size_sub_def


text \<open>A reader that breaks off before the end of the stream is not mistaken for one that is
  complete: what was copied in the failing read is given up, and the stream is not completed.\<close>

theorem decompressor_truncated:
  "map_option (\<lambda>(b, d, h). (b, IsCompleted d, HasBufferError d, HasOutputData d))
     (ReadOutput (Some stored) (\<lambda>n h. (None, h)) 4
        (Decompressor_new (Some stored) (Some (CHR 0x05 # ''abc'')) True) ()) = Some ([], False, True, False)"
  by (simp add: stored_example)

end
