(* ===== verification/WsResponse.thy ===== *)
theory WsResponse
  imports WsRequest Compressor Socket
begin

text \<open>
  The HTTP responses of \<open>private/wsresponse.h\<close>, \<open>private/wsresponse.cpp\<close> and \<open>private/wsheader.h\<close>:
  sending the request through the write buffer, reading the status line and the headers, and
  reading the content, plain or chunked, stored or compressed.

  The socket is the client socket of the theory \<open>Socket\<close>; a TLS socket has the same interface and
  stands behind the same model. The sizes of pointers into the chunk buffer are offsets; a null
  pointer is 0.
\<close>

section \<open>Header values\<close>

record wsheader =
  h_name :: string
  h_values :: "string list"

definition WSHeader_new :: wsheader where
  "WSHeader_new = \<lparr>h_name = '''', h_values = ['''']\<rparr>"

definition SetName :: "string \<Rightarrow> wsheader \<Rightarrow> wsheader" where
  "SetName n h = h\<lparr>h_name := n\<rparr>"

definition Last :: "wsheader \<Rightarrow> string" where
  "Last h = last (h_values h)"

text \<open>An assignment through the reference that \<open>Back\<close> returns.\<close>

definition set_Back :: "string \<Rightarrow> wsheader \<Rightarrow> wsheader" where
  "set_Back v h = h\<lparr>h_values := butlast (h_values h) @ [v]\<rparr>"

definition AddValue :: "string \<Rightarrow> wsheader \<Rightarrow> wsheader" where
  "AddValue val h =
     (if last (h_values h) = [] then set_Back val h else h\<lparr>h_values := h_values h @ [val]\<rparr>)"

definition SetValue :: "string \<Rightarrow> wsheader \<Rightarrow> wsheader" where
  "SetValue val h = h\<lparr>h_values := [val]\<rparr>"

definition MergeValue :: "string \<Rightarrow> wsheader \<Rightarrow> wsheader" where
  "MergeValue val h =
     (if last (h_values h) = [] then set_Back val h
      else set_Back (last (h_values h) @ '','' @ val) h)"

text \<open>\<open>std::map::operator[]\<close>: a missing entry is made.\<close>

definition map_get :: "string \<Rightarrow> (string \<times> wsheader) list \<Rightarrow> wsheader" where
  "map_get k m = (case map_of m k of Some h \<Rightarrow> h | None \<Rightarrow> WSHeader_new)"

section \<open>Reading a line\<close>

definition HTTP_TOKEN_MAXLEN :: nat where "HTTP_TOKEN_MAXLEN = 79"
definition HTTP_HEADER_MAXLEN :: nat where "HTTP_HEADER_MAXLEN = 0x4000"
definition RESPONSE_BUFFER_SIZE :: nat where "RESPONSE_BUFFER_SIZE = 0x400"
definition RESPONSE_MAX_SIZE :: nat where "RESPONSE_MAX_SIZE = 0x20000"
definition CHUNK_MAX_SIZE :: nat where "CHUNK_MAX_SIZE = 0x20000"
definition REQUEST_BUFFER_SIZE :: nat where "REQUEST_BUFFER_SIZE = 0x1000"

text \<open>
  The loop of \<open>ReadHeaderLine\<close>: \<open>buf\<close> holds the bytes \<open>buf[0..p)\<close>, \<open>p_eol\<close> the length of the
  matched part of the line end, \<open>l\<close> the count of the bytes of the line so far. A store outside of
  the array is the outcome \<open>LineOverflow\<close>; \<open>LineCut\<close> is the end of the data before a line end.
\<close>

datatype line_outcome = LineOk | LineCut | LineOverflow

function line_loop ::
    "(nat \<Rightarrow> 's \<Rightarrow> bytes \<times> 's) \<Rightarrow> string \<Rightarrow> bytes \<Rightarrow> nat \<Rightarrow> string \<Rightarrow> nat \<Rightarrow> 's
     \<Rightarrow> line_outcome \<times> string \<times> nat \<times> 's" where
  "line_loop rcv eol buf p_eol line l s =
     (if length buf \<ge> RESPONSE_BUFFER_SIZE then (LineOverflow, line, l, s)
      else case rcv 1 s of (d, s1) \<Rightarrow>
        (case d of
           [] \<Rightarrow> (LineCut, line, l, s1)
         | ch # _ \<Rightarrow>
             (let buf' = buf @ [ch]; p = length buf' in
              if ch = eol ! p_eol
              then (if Suc p_eol \<ge> length eol
                    then (LineOk, line @ cstr (take (p - length eol) buf'), l + (p - length eol), s1)
                    else if l < HTTP_HEADER_MAXLEN then line_loop rcv eol buf' (Suc p_eol) line l s1
                    else (LineOk, line, l, s1))
              else if p > RESPONSE_BUFFER_SIZE - 2 - length eol
              then (if p \<ge> RESPONSE_BUFFER_SIZE then (LineOverflow, line, l, s1)
                    else if l + p < HTTP_HEADER_MAXLEN
                    then line_loop rcv eol [] 0 (line @ cstr buf') (l + p) s1
                    else (LineOk, line @ cstr buf', l + p, s1))
              else if l < HTTP_HEADER_MAXLEN then line_loop rcv eol buf' 0 line l s1
              else (LineOk, line, l, s1))))"
  by pat_completeness auto
termination
  by (relation "measure (\<lambda>(rcv, eol, buf, p_eol, line, l, s).
        HTTP_HEADER_MAXLEN + RESPONSE_BUFFER_SIZE - (l + length buf))")
     (auto simp: HTTP_HEADER_MAXLEN_def RESPONSE_BUFFER_SIZE_def)

declare line_loop.simps [simp del]

text \<open>The result, the line, its length, and the state after it.\<close>

definition ReadHeaderLine ::
    "(nat \<Rightarrow> 's \<Rightarrow> bytes \<times> 's) \<Rightarrow> string \<Rightarrow> 's \<Rightarrow> bool \<times> string \<times> nat \<times> 's" where
  "ReadHeaderLine rcv eol s =
     (case line_loop rcv eol [] 0 [] 0 s of (out, line, len, s1) \<Rightarrow> (out = LineOk, line, len, s1))"

section \<open>The response\<close>

record 'z wsresponse =
  p_socket :: "tcpsocket option"
  p_successful :: bool
  p_statusCode :: i32
  p_serverInfo :: string
  p_etag :: string
  p_location :: string
  p_contentEncoding :: WS_CENCODING
  p_hasContent :: bool
  p_contentEmpty :: bool
  p_contentChunked :: bool
  p_chunkNext :: bool
  p_contentLength :: nat
  p_consumed :: nat
  p_chunkBuffer :: "bytes option"
  p_chunkPtr :: nat
  p_chunkEOR :: nat
  p_chunkEnd :: nat
  p_decoder :: "'z decompressor option"
  p_headers :: "(string \<times> wsheader) list"

definition response_init :: "tcpsocket option \<Rightarrow> 'z wsresponse" where
  "response_init sk =
     \<lparr>p_socket = sk, p_successful = False, p_statusCode = 0, p_serverInfo = '''', p_etag = '''',
      p_location = '''', p_contentEncoding = WS_CENCODING_None, p_hasContent = False,
      p_contentEmpty = False, p_contentChunked = False, p_chunkNext = False, p_contentLength = 0,
      p_consumed = 0, p_chunkBuffer = None, p_chunkPtr = 0, p_chunkEOR = 0, p_chunkEnd = 0,
      p_decoder = None, p_headers = []\<rparr>"

text \<open>The operations of the socket on the response that holds it.\<close>

definition sock_send :: "bytes \<Rightarrow> 'z wsresponse \<Rightarrow> bool \<times> 'z wsresponse" where
  "sock_send d r = (case SendData d (the (p_socket r)) of (ok, sk) \<Rightarrow> (ok, r\<lparr>p_socket := Some sk\<rparr>))"

definition sock_receive :: "nat \<Rightarrow> 'z wsresponse \<Rightarrow> bytes \<times> 'z wsresponse" where
  "sock_receive n r = (case ReceiveData n (the (p_socket r)) of (d, sk) \<Rightarrow> (d, r\<lparr>p_socket := Some sk\<rparr>))"

definition no_buffer :: "'z wsresponse \<Rightarrow> 'z wsresponse" where
  "no_buffer r = r\<lparr>p_chunkBuffer := None, p_chunkPtr := 0, p_chunkEOR := 0, p_chunkEnd := 0\<rparr>"

section \<open>Sending the request\<close>

text \<open>The loop of \<open>WriteRequestStream\<close>. The buffer is the list of the bytes before \<open>m_chunkPtr\<close>;
  \<open>m_chunkEnd\<close> is the size of the buffer, never 0 (a round with an empty buffer would not end).\<close>

function write_loop :: "bytes \<Rightarrow> 'z wsresponse \<Rightarrow> bool \<times> 'z wsresponse" where
  "write_loop data r =
     (let buf = the (p_chunkBuffer r); s = p_chunkEnd r - p_chunkPtr r in
      if s \<ge> length data
      then (True, r\<lparr>p_chunkBuffer := Some (take (p_chunkPtr r) buf @ data),
                    p_chunkPtr := p_chunkPtr r + length data\<rparr>)
      else if p_chunkEnd r = 0 then (False, r)
      else (case sock_send (take (p_chunkPtr r) buf @ take s data)
                   (r\<lparr>p_chunkBuffer := Some (take (p_chunkPtr r) buf @ take s data)\<rparr>) of
              (ok, r1) \<Rightarrow>
                (if \<not> ok then (False, no_buffer r1)
                 else write_loop (drop s data) (r1\<lparr>p_chunkPtr := 0\<rparr>))))"
  by pat_completeness auto
termination
  by (relation "measure (\<lambda>(data, r). 2 * length data + (if p_chunkPtr r = 0 then 0 else 1))")
     (auto simp: sock_send_def split: prod.splits)

declare write_loop.simps [simp del]

definition WriteRequestStream :: "bytes \<Rightarrow> 'z wsresponse \<Rightarrow> bool \<times> 'z wsresponse" where
  "WriteRequestStream data r =
     write_loop data
       (case p_chunkBuffer r of
          None \<Rightarrow> r\<lparr>p_chunkBuffer := Some [], p_chunkPtr := 0, p_chunkEOR := 0,
                    p_chunkEnd := REQUEST_BUFFER_SIZE\<rparr>
        | Some b \<Rightarrow> r)"

definition FlushRequestStream :: "'z wsresponse \<Rightarrow> bool \<times> 'z wsresponse" where
  "FlushRequestStream r =
     (case p_chunkBuffer r of
        None \<Rightarrow> (False, r)
      | Some buf \<Rightarrow>
          (let s = p_chunkPtr r in
           case (if s > 0 then sock_send (take s buf) r else (True, r)) of
             (ok, r1) \<Rightarrow> (ok, no_buffer r1)))"

section \<open>Reading the headers\<close>

text \<open>\<open>sscanf(line, "%*s %d", &status)\<close>: a word, then a number. The number is read as a 64-bit
  integer and cut to 32 bits.\<close>

definition clamp64 :: "int \<Rightarrow> int" where
  "clamp64 i = max (- (2 ^ 63)) (min (2 ^ 63 - 1) i)"

definition scan_status :: "string \<Rightarrow> i32 option" where
  "scan_status line =
     (let t = skip_space line; u = skip_space (dropWhile (\<lambda>c. \<not> isspace c) t);
          v = (case u of c # cs \<Rightarrow> if c = CHR ''-'' \<or> c = CHR ''+'' then cs else u | [] \<Rightarrow> u);
          ds = takeWhile isdigit v
      in if t = [] \<or> ds = [] then None
         else Some (of_int (clamp64 (if hd u = CHR ''-'' then - int (dec_value ds) else int (dec_value ds)))))"

text \<open>The scan to the first character of the value: \<open>val\<close> points at the colon.\<close>

definition is_blank :: "string \<Rightarrow> bool" where
  "is_blank s \<longleftrightarrow> s \<noteq> [] \<and> (hd s = CHR '' '' \<or> hd s = CHR 0x09)"

fun skip_value :: "nat \<Rightarrow> string \<Rightarrow> string" where
  "skip_value 0 val = val"
| "skip_value (Suc n) val = (if is_blank (tl val) then skip_value n (tl val) else tl val)"

definition contains :: "string \<Rightarrow> string \<Rightarrow> bool" where
  "contains pat s \<longleftrightarrow> list_ex (\<lambda>i. take (length pat) (drop i s) = pat) [0..<Suc (length s)]"

text \<open>What a header does to the response once its value has grown to \<open>newval\<close>. A lookup of the
  token that reads outside of the table is one of a header that is not looked at here.\<close>

definition apply_header :: "string \<Rightarrow> string \<Rightarrow> 'z wsresponse \<Rightarrow> 'z wsresponse" where
  "apply_header tk newval r =
     (case ws_header_from_upperstr tk of
        Some WS_HEADER_ETag \<Rightarrow> r\<lparr>p_etag := newval\<rparr>
      | Some WS_HEADER_Server \<Rightarrow> r\<lparr>p_serverInfo := newval\<rparr>
      | Some WS_HEADER_Location \<Rightarrow> r\<lparr>p_location := newval\<rparr>
      | Some WS_HEADER_Content_Type \<Rightarrow> r\<lparr>p_hasContent := True\<rparr>
      | Some WS_HEADER_Content_Length \<Rightarrow>
          (let num = clamp64 (atoi newval) in
           if num \<ge> 0 then r\<lparr>p_contentLength := nat num, p_contentEmpty := (num = 0)\<rparr> else r)
      | Some WS_HEADER_Content_Encoding \<Rightarrow>
          r\<lparr>p_contentEncoding := the (ws_cencoding_from_str newval)\<rparr>
      | Some WS_HEADER_Transfer_Encoding \<Rightarrow>
          (if contains ''chunked'' newval then r\<lparr>p_contentChunked := True, p_chunkNext := True\<rparr> else r)
      | _ \<Rightarrow> r)"

text \<open>One line behind the status line, not empty: the tk after it (empty if there is none), and
  the response. \<open>len\<close> is the length of the line as received.\<close>

definition header_step ::
    "string \<Rightarrow> nat \<Rightarrow> string \<Rightarrow> 'z wsresponse \<Rightarrow> string \<times> 'z wsresponse" where
  "header_step line len tk r =
     (let (token1, val, r1) =
        (if is_blank line \<and> tk \<noteq> [] then (tk, Some line, r)
         else case strchr_split (CHR '':'') line of
           Some (nm, rest) \<Rightarrow>
             (let token_len = min (length nm) HTTP_TOKEN_MAXLEN;
                  tok = map upper (take token_len nm);
                  val = skip_value (len - (length nm + 1)) (CHR '':'' # rest);
                  hv = AddValue '''' (SetName (take token_len line) (map_get tok (p_headers r)))
              in (tok, Some val, r\<lparr>p_headers := map_set tok hv (p_headers r)\<rparr>))
         | None \<Rightarrow> ('''', None, r))
      in case val of
           None \<Rightarrow> (token1, r1)
         | Some v \<Rightarrow>
             (if token1 = [] then (token1, r1)
              else let hv = map_get token1 (p_headers r1); newval = Last hv @ v in
                   (token1, apply_header token1 newval
                      (r1\<lparr>p_headers := map_set token1 (set_Back newval hv) (p_headers r1)\<rparr>))))"

text \<open>Every line that is read takes something from the bytes that are still to come.\<close>

definition link_bytes :: "link \<Rightarrow> nat" where
  "link_bytes l = sum_list (map (\<lambda>ev. case ev of RxData d \<Rightarrow> length d | _ \<Rightarrow> 0) (rx l))"

definition to_come :: "tcpsocket \<Rightarrow> nat" where
  "to_come s = (m_rcvlen s - m_bufptr s) + (case m_socket s of None \<Rightarrow> 0 | Some l \<Rightarrow> link_bytes l)"

lemma link_bytes_poll: "poll_rx l = (ev, l1) \<Longrightarrow> link_bytes l1 \<le> link_bytes l"
  by (auto simp: poll_rx_def link_bytes_def split: list.splits rx_event.splits)

lemma link_bytes_recv:
  "recv_rx n l = (x, l1) \<Longrightarrow>
    (case x of Inl e \<Rightarrow> link_bytes l1 \<le> link_bytes l | Inr d \<Rightarrow> length d + link_bytes l1 \<le> link_bytes l)"
  by (auto simp: recv_rx_def link_bytes_def split: list.splits rx_event.splits if_splits)

lemma rcv_loop_to_come:
  "m_rcvlen s \<le> m_bufptr s \<Longrightarrow> length (fst (rcv_loop n s)) + to_come (snd (rcv_loop n s)) \<le> to_come s"
proof (induction n arbitrary: s rule: less_induct)
  case (less n)
  show ?case
  proof (cases "n = 0 \<or> m_socket s = None")
    case True
    then show ?thesis by (subst (1 2) rcv_loop.simps) auto
  next
    case False
    then obtain l where n: "0 < n" and l: "m_socket s = Some l" by auto
    obtain ev l1 where p: "poll_rx l = (ev, l1)" by force
    have b1: "link_bytes l1 \<le> link_bytes l" using p by (rule link_bytes_poll)
    have tc: "to_come s = link_bytes l" using l less.prems by (simp add: to_come_def)
    have stop: "to_come (s\<lparr>m_socket := Some l2, m_errno := er\<rparr>) \<le> to_come s"
        "to_come (s\<lparr>m_socket := Some l2\<rparr>) \<le> to_come s" if "link_bytes l2 \<le> link_bytes l" for l2 er
      using that less.prems by (simp_all add: to_come_def l)
    have buf: "length (take k d @ fst (rcv_loop (n - k) s2)) + to_come (snd (rcv_loop (n - k) s2)) \<le> to_come s"
      if "recv_rx m l1 = (Inr d, l2)" "d \<noteq> []" "k = min (length d) n"
        "s2 = s\<lparr>m_socket := Some l2, m_rcvlen := length d, m_buffer := B, m_bufptr := k\<rparr>" for m d l2 k s2 B
    proof (cases "n \<le> length d")
      case True
      then have k: "k = n" "n - k = 0" using that(3) by auto
      have "to_come s2 = length d - k + link_bytes l2" by (simp add: that(4) to_come_def)
      with link_bytes_recv [OF that(1)] b1 True show ?thesis by (simp add: tc k)
    next
      case False
      with that have k: "k = length d" "n - k < n" using n by auto
      with that have "m_rcvlen s2 \<le> m_bufptr s2" by simp
      moreover have "to_come s2 = link_bytes l2" by (simp add: that(4) k(1) to_come_def)
      ultimately show ?thesis using less.IH [OF k(2), of s2] link_bytes_recv [OF that(1)] b1
        by (simp add: tc k(1))
    qed
    have direct: "length (d @ fst (rcv_loop (n - length d) (s\<lparr>m_socket := Some l2\<rparr>)))
        + to_come (snd (rcv_loop (n - length d) (s\<lparr>m_socket := Some l2\<rparr>))) \<le> to_come s"
      if "recv_rx m l1 = (Inr d, l2)" "d \<noteq> []" for m d l2
    proof -
      have "n - length d < n" "m_rcvlen (s\<lparr>m_socket := Some l2\<rparr>) \<le> m_bufptr (s\<lparr>m_socket := Some l2\<rparr>)"
        using n that less.prems by (auto simp: length_greater_0_conv [symmetric] simp del: length_greater_0_conv)
      moreover have "to_come (s\<lparr>m_socket := Some l2\<rparr>) = link_bytes l2"
        using less.prems by (simp add: to_come_def)
      ultimately show ?thesis using less.IH [of "n - length d" "s\<lparr>m_socket := Some l2\<rparr>"]
          link_bytes_recv [OF that(1)] b1 by (simp add: tc)
    qed
    have err: "link_bytes l2 \<le> link_bytes l" if "recv_rx m l1 = (x, l2)" "x = Inl e \<or> x = Inr []" for m x l2 e
      using link_bytes_recv [OF that(1)] that(2) b1 by auto
    show ?thesis
    proof (cases "ev \<in> {RxTimeout, RxHangup, RxOther} \<or> (\<exists>e. ev = RxPollError e)")
      case True
      with n l p stop [OF b1] show ?thesis by (subst (1 2) rcv_loop.simps) auto
    next
      case False
      then have ev: "(\<exists>b. ev = RxData b) \<or> (\<exists>e. ev = RxRecvError e) \<or> ev = RxEof" by (cases ev) auto
      show ?thesis
      proof (cases "n < m_buflen s")
        case True
        obtain x l2 where r: "recv_rx (m_buflen s) l1 = (x, l2)" by force
        show ?thesis
        proof (cases "\<exists>d. x = Inr d \<and> d \<noteq> []")
          case False
          with n l p ev True r stop [OF err [OF r]] show ?thesis
            by (subst (1 2) rcv_loop.simps) (auto split: sum.split)
        next
          case d: True
          then obtain d where d: "x = Inr d" "d \<noteq> []" by blast
          note bd = buf [OF r [unfolded d(1)] d(2) refl refl,
              of "Some (d @ drop (length d) (case m_buffer s of None \<Rightarrow> [] | Some b \<Rightarrow> b))"]
          from n l p ev True r d bd show ?thesis
            by (subst (1 2) rcv_loop.simps) (auto simp: Let_def split_beta)
        qed
      next
        case False
        obtain x l2 where r: "recv_rx n l1 = (x, l2)" by force
        show ?thesis
        proof (cases "\<exists>d. x = Inr d \<and> d \<noteq> []")
          case d: False
          with n l p ev False r stop [OF err [OF r]] show ?thesis
            by (subst (1 2) rcv_loop.simps) (auto split: sum.split)
        next
          case d: True
          then obtain d where d: "x = Inr d" "d \<noteq> []" by blast
          note dd = direct [OF r [unfolded d(1)] d(2)]
          from n l p ev False r d dd show ?thesis
            by (subst (1 2) rcv_loop.simps) (auto simp: split_beta)
        qed
      qed
    qed
  qed
qed

lemma ReceiveData_to_come:
  "length (fst (ReceiveData n s)) + to_come (snd (ReceiveData n s)) \<le> to_come s"
proof -
  have l: "length (fst (rcv_loop m s1)) + to_come (snd (rcv_loop m s1)) \<le> to_come s1"
    if "m_bufptr s1 = 0" "m_rcvlen s1 = 0" for m s1 using rcv_loop_to_come [of s1 m] that by simp
  have t: "to_come (s1\<lparr>m_errno := e\<rparr>) = to_come s1" for s1 :: tcpsocket and e by (simp add: to_come_def)
  show ?thesis
  proof (cases "IsValid s \<and> (\<exists>b. m_buffer s = Some b) \<and> m_bufptr s < m_rcvlen s")
    case True
    then obtain b where b: "IsValid s" "m_buffer s = Some b" "m_bufptr s < m_rcvlen s" by blast
    define k where "k = min (m_rcvlen s - m_bufptr s) n"
    let ?d = "take k (drop (m_bufptr s) b)"
    let ?s1 = "s\<lparr>m_errno := None, m_bufptr := m_bufptr s + k\<rparr>"
    let ?s2 = "?s1\<lparr>m_bufptr := 0, m_rcvlen := 0\<rparr>"
    have r: "ReceiveData n s = (if n - k = 0 then (?d, ?s1)
        else (?d @ fst (rcv_loop (n - k) ?s2), snd (rcv_loop (n - k) ?s2)))"
      using b by (simp add: ReceiveData_def k_def Let_def split_beta)
    have kd: "length ?d \<le> k" by simp
    show ?thesis
    proof (cases "n - k = 0")
      case True
      with r kd show ?thesis by (auto simp: to_come_def k_def)
    next
      case False
      then have "k = m_rcvlen s - m_bufptr s" by (auto simp: k_def)
      then have "to_come ?s2 + k = to_come s" by (simp add: to_come_def)
      with l [of ?s2 "n - k"] kd r False show ?thesis by simp
    qed
  next
    case False
    have "to_come (s\<lparr>m_errno := None, m_buffer := B, m_bufptr := 0, m_rcvlen := 0\<rparr>) \<le> to_come s"
      "to_come (s\<lparr>m_errno := None, m_bufptr := 0, m_rcvlen := 0\<rparr>) \<le> to_come s" for B
      by (simp_all add: to_come_def)
    with l [of "s\<lparr>m_errno := None, m_buffer := Some (replicate (m_buflen s) NUL), m_bufptr := 0, m_rcvlen := 0\<rparr>" n]
      l [of "s\<lparr>m_errno := None, m_bufptr := 0, m_rcvlen := 0\<rparr>" n] False t
    show ?thesis
      by (auto simp: ReceiveData_def Let_def split: option.split) (meson le_trans)+
  qed
qed

lemma line_loop_to_come:
  "line_loop ReceiveData eol buf p_eol line l s = (out, line', len, s') \<Longrightarrow>
    to_come s' \<le> to_come s \<and> (out = LineOk \<longrightarrow> to_come s' < to_come s)"
proof (induction "HTTP_HEADER_MAXLEN + RESPONSE_BUFFER_SIZE - (l + length buf)"
    arbitrary: buf p_eol line l s out line' len s' rule: less_induct)
  case less
  show ?case
  proof (cases "length buf \<ge> RESPONSE_BUFFER_SIZE")
    case True
    with less.prems show ?thesis by (subst (asm) line_loop.simps) auto
  next
    case False
    obtain d s1 where r: "ReceiveData 1 s = (d, s1)" by force
    from ReceiveData_to_come [of 1 s] r have c: "length d + to_come s1 \<le> to_come s" by simp
    show ?thesis
    proof (cases d)
      case Nil
      with False less.prems r c show ?thesis by (subst (asm) line_loop.simps) auto
    next
      case (Cons ch d')
      with c have c': "to_come s1 < to_come s" by simp
      have IH: "to_come t \<le> to_come s \<and> (o2 = LineOk \<longrightarrow> to_come t < to_come s)"
        if "line_loop ReceiveData eol b q ln m s1 = (o2, ln2, len2, t)"
          "m + length b = Suc (l + length buf)" "l < HTTP_HEADER_MAXLEN" for b q ln m o2 ln2 len2 t
      proof -
        have "HTTP_HEADER_MAXLEN + RESPONSE_BUFFER_SIZE - (m + length b)
            < HTTP_HEADER_MAXLEN + RESPONSE_BUFFER_SIZE - (l + length buf)" using that(2,3) False by simp
        from less.hyps [OF this that(1)] c' show ?thesis by auto
      qed
      from less.prems show ?thesis using False r Cons c'
        by (subst (asm) line_loop.simps)
          (auto simp: Let_def split: if_splits dest!: IH)
    qed
  qed
qed

definition http_line :: "tcpsocket \<Rightarrow> bool \<times> string \<times> nat \<times> tcpsocket" where
  "http_line sk = ReadHeaderLine ReceiveData WS_CRLF sk"

lemma http_line_to_come: "http_line sk = (True, line, len, sk') \<Longrightarrow> to_come sk' < to_come sk"
  by (auto simp: http_line_def ReadHeaderLine_def dest!: line_loop_to_come split: prod.splits)

lemma apply_header_socket [simp]: "p_socket (apply_header tk v r) = p_socket r"
  by (simp add: apply_header_def Let_def split: option.split WS_HEADER.split)

lemma header_step_socket [simp]: "p_socket (snd (header_step line len tk r)) = p_socket r"
  by (auto simp: header_step_def Let_def split: option.split prod.split)

lemma header_step_sym: "(tk1, r1) = header_step line len tk r \<Longrightarrow> p_socket r1 = p_socket r"
  using header_step_socket [of line len tk r] by (metis snd_conv)

text \<open>The loop of \<open>ReadResponse\<close>: the number of lines so far, the sum of their lengths, the token
  buffer and the result so far.\<close>

function response_loop ::
    "nat \<Rightarrow> nat \<Rightarrow> string \<Rightarrow> bool \<Rightarrow> 'z wsresponse \<Rightarrow> bool \<times> 'z wsresponse" where
  "response_loop n tot tk ret r =
     (case http_line (the (p_socket r)) of (ok, line, len, sk) \<Rightarrow>
       (let r1 = r\<lparr>p_socket := Some sk\<rparr> in
        if \<not> ok then (ret, r1)
        else if tot + len > RESPONSE_MAX_SIZE then (False, r1)
        else
          (let st = (if n = 0 then (if len > 5 \<and> take 4 line = ''HTTP'' then scan_status line else None)
                     else Some (p_statusCode r1))
           in case st of
                None \<Rightarrow> (False, r1)
              | Some status \<Rightarrow>
                  (let r2 = r1\<lparr>p_statusCode := status\<rparr>; ret2 = (if n = 0 then True else ret) in
                   if len = 0 then (ret2, r2)
                   else case header_step line len tk r2 of
                          (tk1, r3) \<Rightarrow> response_loop (Suc n) (tot + len) tk1 ret2 r3))))"
  by pat_completeness auto
termination
  by (relation "measure (\<lambda>(n, tot, tk, ret, r). to_come (the (p_socket r)))")
    (auto dest!: header_step_sym http_line_to_come [OF sym])

declare response_loop.simps [simp del]

definition ReadResponse :: "'z wsresponse \<Rightarrow> bool \<times> 'z wsresponse" where
  "ReadResponse r = response_loop 0 0 [] False r"

section \<open>Reading the content\<close>

text \<open>The two loops over lines of \<open>ReadChunk\<close>: over empty lines before a chunk size, and over the
  trailers.\<close>

function skip_empty_lines :: "tcpsocket \<Rightarrow> string \<times> tcpsocket" where
  "skip_empty_lines sk =
     (case http_line sk of (ok, line, len, sk1) \<Rightarrow>
       (if ok \<and> len = 0 then skip_empty_lines sk1 else (line, sk1)))"
  by pat_completeness auto
termination
  by (relation "measure to_come") (auto dest!: http_line_to_come [OF sym])

function skip_trailers :: "tcpsocket \<Rightarrow> tcpsocket" where
  "skip_trailers sk =
     (case http_line sk of (ok, line, len, sk1) \<Rightarrow>
       (if ok \<and> len \<noteq> 0 then skip_trailers sk1 else sk1))"
  by pat_completeness auto
termination
  by (relation "measure to_come") (auto dest!: http_line_to_come [OF sym])

declare skip_empty_lines.simps [simp del] skip_trailers.simps [simp del]

text \<open>\<open>sscanf("0x0" + size, "%x", &chunkSize)\<close>: the hexadecimal digits at the front of the text
  before a semicolon, read as a 64-bit number and cut to 32 bits. The leading digit makes it
  succeed always.\<close>

definition hex_value :: "string \<Rightarrow> nat" where
  "hex_value s = foldl (\<lambda>v c. 16 * v + the (hex_val c)) 0 s"

definition scan_chunk_size :: "string \<Rightarrow> u32" where
  "scan_chunk_size s =
     of_nat (min (2 ^ 64 - 1)
       (hex_value (takeWhile (\<lambda>c. hex_val c \<noteq> None) (takeWhile (\<lambda>c. c \<noteq> CHR '';'') s))))"

text \<open>The start of a chunk: the result that ends the call (\<open>None\<close> for a negative one), or the
  response with an empty chunk buffer.\<close>

definition begin_chunk :: "'z wsresponse \<Rightarrow> (bytes option \<times> 'z wsresponse) + 'z wsresponse" where
  "begin_chunk r =
     (case skip_empty_lines (the (p_socket r)) of (line, sk) \<Rightarrow>
       (let r1 = (no_buffer r)\<lparr>p_socket := Some sk\<rparr> in
        if line = [] then Inl (None, r1)
        else
          (let chunkSize = scan_chunk_size line in
           if chunkSize > 0
           then (if unat chunkSize > CHUNK_MAX_SIZE then Inl (None, r1)
                 else Inr (r1\<lparr>p_chunkBuffer := Some [], p_chunkPtr := 0, p_chunkEOR := 0,
                              p_chunkEnd := unat chunkSize\<rparr>))
           else Inl (Some [], r1\<lparr>p_socket := Some (skip_trailers sk)\<rparr>))))"

definition ReadChunk :: "nat \<Rightarrow> 'z wsresponse \<Rightarrow> bytes option \<times> 'z wsresponse" where
  "ReadChunk buflen r =
     (if \<not> p_contentChunked r then (Some [], r)
      else case (if p_chunkPtr r \<ge> p_chunkEnd r then begin_chunk r else Inr r) of
        Inl res \<Rightarrow> res
      | Inr r1 \<Rightarrow>
          (let r2 = (if p_chunkPtr r1 \<ge> p_chunkEOR r1
                     then (case sock_receive (p_chunkEnd r1 - p_chunkEOR r1) r1 of
                             (d, r') \<Rightarrow>
                               r'\<lparr>p_chunkBuffer := Some (take (p_chunkEOR r1) (the (p_chunkBuffer r1)) @ d),
                                  p_chunkEOR := p_chunkEOR r1 + length d\<rparr>)
                     else r1)
           in if p_chunkEOR r2 < p_chunkPtr r2 then (None, r2)
              else (let s = min (p_chunkEOR r2 - p_chunkPtr r2) buflen in
                    (Some (take s (drop (p_chunkPtr r2) (the (p_chunkBuffer r2)))),
                     r2\<lparr>p_chunkPtr := p_chunkPtr r2 + s, p_consumed := p_consumed r2 + s\<rparr>))))"

text \<open>The two callbacks of the decoder.\<close>

definition SocketStreamReader :: "'z wsresponse reader" where
  "SocketStreamReader sz r =
     (case (if p_contentLength r = 0 \<and> \<not> p_contentEmpty r then sock_receive sz r
            else if p_contentLength r > p_consumed r
            then (let len = p_contentLength r - p_consumed r in sock_receive (if len > sz then sz else len) r)
            else ([], r)) of
        (d, r1) \<Rightarrow>
          (Some d, r1\<lparr>p_consumed := (if d = [] then p_contentLength r1 else p_consumed r1 + length d)\<rparr>))"

definition ChunkStreamReader :: "'z wsresponse reader" where
  "ChunkStreamReader sz r =
     (if p_chunkNext r
      then (case ReadChunk sz r of
              (d, r1) \<Rightarrow> (d, if d = None \<or> d = Some [] then r1\<lparr>p_chunkNext := False\<rparr> else r1))
      else (Some [], r))"

text \<open>The reading through the decoder. The outer \<open>None\<close> is a decoder that does not return.\<close>

definition read_decoded ::
    "'z zlib option \<Rightarrow> 'z wsresponse reader \<Rightarrow> nat \<Rightarrow> 'z wsresponse
     \<Rightarrow> (bytes option \<times> 'z wsresponse) option" where
  "read_decoded zl rd buflen r =
     (let d = (case p_decoder r of
                 Some d \<Rightarrow> d
               | None \<Rightarrow> Decompressor_new zl None (p_contentEncoding r = WS_CENCODING_Gzip))
      in map_option
           (\<lambda>(out, d1, r1).
              (if out = [] \<and> \<not> IsCompleted d1 then None else Some out, r1\<lparr>p_decoder := Some d1\<rparr>))
           (if HasOutputData d then ReadOutput zl rd buflen d r else Some ([], d, r)))"

definition ReadContent ::
    "'z zlib option \<Rightarrow> nat \<Rightarrow> 'z wsresponse \<Rightarrow> (bytes option \<times> 'z wsresponse) option" where
  "ReadContent zl buflen r =
     (if \<not> p_contentChunked r
      then (if p_contentEncoding r = WS_CENCODING_None
            then (if p_contentLength r > p_consumed r
                  then (let len = p_contentLength r - p_consumed r in
                        case sock_receive (if len > buflen then buflen else len) r of
                          (d, r1) \<Rightarrow>
                            Some (Some d, r1\<lparr>p_consumed := (if d = [] then p_contentLength r1
                                                              else p_consumed r1 + length d)\<rparr>))
                  else if p_contentLength r = 0 \<and> \<not> p_contentEmpty r \<and> p_hasContent r
                  then (case sock_receive buflen r of (d, r1) \<Rightarrow> Some (Some d, r1))
                  else Some (Some [], r))
            else if p_contentEncoding r = WS_CENCODING_Gzip \<or> p_contentEncoding r = WS_CENCODING_Deflate
            then read_decoded zl SocketStreamReader buflen r
            else Some (Some [], r))
      else (if p_contentEncoding r = WS_CENCODING_None
            then (if p_chunkNext r
                  then (case ReadChunk buflen r of
                          (d, r1) \<Rightarrow>
                            Some (d, if d = None \<or> d = Some [] then r1\<lparr>p_chunkNext := False\<rparr> else r1))
                  else Some (Some [], r))
            else if p_contentEncoding r = WS_CENCODING_Gzip \<or> p_contentEncoding r = WS_CENCODING_Deflate
            then read_decoded zl ChunkStreamReader buflen r
            else Some (Some [], r)))"

definition GetHeaderValue :: "string \<Rightarrow> 'z wsresponse \<Rightarrow> bool \<times> string" where
  "GetHeaderValue header r =
     (case map_of (p_headers r) header of None \<Rightarrow> (False, '''') | Some h \<Rightarrow> (True, Last h))"

section \<open>Request and response\<close>

text \<open>What a new socket is for a request is decided outside of the program: a plain or a TLS
  socket, or none.\<close>

type_synonym 'w network = "wsrequest \<Rightarrow> 'w \<Rightarrow> tcpsocket option \<times> 'w"

definition response_new ::
    "http_build \<Rightarrow> 'w network \<Rightarrow> wsrequest \<Rightarrow> 'w \<Rightarrow> 'z wsresponse \<times> 'w" where
  "response_new b net request w =
     (case net request w of
        (None, w1) \<Rightarrow> (response_init None, w1)
      | (Some sk, w1) \<Rightarrow>
          (case Connect SOCKET_RCVBUF_MINSIZE sk of
             (False, sk1) \<Rightarrow> (response_init (Some sk1), w1)
           | (True, sk1) \<Rightarrow>
               (let r0 = response_init (Some (sk1\<lparr>m_timeout := rq_timeout request\<rparr>));
                    r1 = snd (WriteMessage b WriteRequestStream FlushRequestStream request r0)
                in case ReadResponse r1 of
                     (False, r2) \<Rightarrow> (r2, w1)
                   | (True, r2) \<Rightarrow>
                       ((if sint (p_statusCode r2) < 200 then r2
                         else if sint (p_statusCode r2) < 300 then r2\<lparr>p_successful := True\<rparr>
                         else if sint (p_statusCode r2) < 400 then r2\<lparr>p_successful := False\<rparr>
                         else r2), w1))))"

text \<open>The decision on a redirection: the request to send instead.\<close>

definition redirection ::
    "wsrequest \<Rightarrow> bool \<Rightarrow> bool \<Rightarrow> 'z wsresponse \<Rightarrow> wsrequest option" where
  "redirection request trustedLocation followAny r =
     (let status = sint (p_statusCode r) in
      if status = 301 \<or> status = 302
      then (let uri = URIScan (p_location r);
                trusted = https uri;
                prt = (if port uri = 0 then (if trusted then 443 else 80) else port uri);
                samehost = (case host uri of None \<Rightarrow> True | Some h \<Rightarrow> rq_server request = h);
                sameorigin = (host uri = None \<or> samehost \<and> rq_port request = prt)
            in if sameorigin \<or> samehost \<and> (\<not> trustedLocation \<or> trusted)
                  \<or> followAny \<and> (\<not> trustedLocation \<or> trusted)
               then (let redir = WSRequest_redirect request uri in
                     Some (if \<not> sameorigin
                           then ClearHeader ''COOKIE''
                                  (ClearHeader (the (ws_header_to_upperstr WS_HEADER_Authorization)) redir)
                           else redir))
               else None)
      else None)"

fun redirect_loop ::
    "http_build \<Rightarrow> 'w network \<Rightarrow> wsrequest \<Rightarrow> bool \<Rightarrow> bool \<Rightarrow> nat \<Rightarrow> 'z wsresponse \<Rightarrow> 'w
     \<Rightarrow> 'z wsresponse \<times> 'w" where
  "redirect_loop b net request trustedLocation followAny 0 r w = (r, w)"
| "redirect_loop b net request trustedLocation followAny (Suc n) r w =
     (case redirection request trustedLocation followAny r of
        None \<Rightarrow> (r, w)
      | Some redir \<Rightarrow>
          (case response_new b net redir w of
             (r1, w1) \<Rightarrow> redirect_loop b net request trustedLocation followAny n r1 w1))"

definition WSResponse_init ::
    "http_build \<Rightarrow> 'w network \<Rightarrow> wsrequest \<Rightarrow> nat \<Rightarrow> bool \<Rightarrow> bool \<Rightarrow> 'w \<Rightarrow> 'z wsresponse \<times> 'w" where
  "WSResponse_init b net request maxRedirs trustedLocation followAny w =
     (case response_new b net request w of
        (r, w1) \<Rightarrow> redirect_loop b net request trustedLocation followAny maxRedirs r w1)"

definition WSResponse_new ::
    "http_build \<Rightarrow> 'w network \<Rightarrow> wsrequest \<Rightarrow> 'w \<Rightarrow> 'z wsresponse \<times> 'w" where
  "WSResponse_new b net request w = WSResponse_init b net request 1 True False w"

end
