(* ===== verification/WsTransfer.thy ===== *)
theory WsTransfer
  imports WsResponse
begin

text \<open>
  What the HTTP client transfers: the request that goes out over the buffered sink, the lines,
  headers and contents that come in, and where a redirection may lead.
\<close>

section \<open>The request goes out\<close>

text \<open>The sink of a response over a connection that accepts everything. The bytes written are those
  sent and those in the buffer.\<close>

definition accepting :: "'z wsresponse \<Rightarrow> bool" where
  "accepting r \<longleftrightarrow> (case p_socket r of None \<Rightarrow> False
     | Some sk \<Rightarrow> (case m_socket sk of None \<Rightarrow> False | Some l \<Rightarrow> tx l = []))"

definition sent_bytes :: "'z wsresponse \<Rightarrow> bytes" where
  "sent_bytes r = concat (os_sent (the (p_socket r)))"

definition sink_ready :: "'z wsresponse \<Rightarrow> bool" where
  "sink_ready r \<longleftrightarrow> accepting r \<and> (case p_chunkBuffer r of None \<Rightarrow> True
     | Some b \<Rightarrow> length b = p_chunkPtr r \<and> p_chunkPtr r \<le> REQUEST_BUFFER_SIZE \<and> p_chunkEnd r = REQUEST_BUFFER_SIZE)"

definition sink_written :: "'z wsresponse \<Rightarrow> bytes" where
  "sink_written r = sent_bytes r @ (case p_chunkBuffer r of None \<Rightarrow> [] | Some b \<Rightarrow> b)"

definition sink_started :: "'z wsresponse \<Rightarrow> bool" where
  "sink_started r \<longleftrightarrow> p_chunkBuffer r \<noteq> None"

lemma sock_send_accepting:
  assumes "accepting r"
  shows "\<exists>r'. sock_send d r = (True, r') \<and> accepting r' \<and> sent_bytes r' = sent_bytes r @ d
    \<and> (\<exists>sk. r' = r\<lparr>p_socket := Some sk\<rparr>)"
proof -
  from assms obtain sk l where s: "p_socket r = Some sk" "m_socket sk = Some l" "tx l = []"
    by (auto simp: accepting_def split: option.splits)
  let ?sk = "sk\<lparr>m_socket := Some (l\<lparr>tx := []\<rparr>), os_sent := os_sent sk @ [d], m_errno := None\<rparr>"
  have "sock_send d r = (True, r\<lparr>p_socket := Some ?sk\<rparr>)"
    using s by (simp add: sock_send_def SendData_def)
  then show ?thesis using s by (intro exI [of _ "r\<lparr>p_socket := Some ?sk\<rparr>"])
      (auto simp: accepting_def sent_bytes_def)
qed

lemma write_loop_sink:
  assumes "accepting r" "p_chunkBuffer r = Some b" "length b = p_chunkPtr r"
    "p_chunkPtr r \<le> REQUEST_BUFFER_SIZE" "p_chunkEnd r = REQUEST_BUFFER_SIZE"
  shows "\<exists>r'. write_loop data r = (True, r') \<and> sink_ready r' \<and> sink_started r'
    \<and> sink_written r' = sink_written r @ data"
  using assms
proof (induction "2 * length data + (if p_chunkPtr r = 0 then 0 else 1 :: nat)" arbitrary: data r b
    rule: less_induct)
  case less
  let ?s = "p_chunkEnd r - p_chunkPtr r"
  note p = less.prems
  show ?case
  proof (cases "?s \<ge> length data")
    case True
    with p show ?thesis
      by (subst write_loop.simps)
        (auto simp: sink_ready_def sink_written_def sink_started_def accepting_def sent_bytes_def)
  next
    case False
    let ?b = "b @ take ?s data"
    have acc: "accepting (r\<lparr>p_chunkBuffer := Some ?b\<rparr>)" using p(1) by (simp add: accepting_def)
    from sock_send_accepting [OF this, of ?b] obtain r1 sk where r1:
      "sock_send ?b (r\<lparr>p_chunkBuffer := Some ?b\<rparr>) = (True, r1)" "accepting r1"
      "sent_bytes r1 = sent_bytes r @ ?b" "r1 = r\<lparr>p_chunkBuffer := Some ?b, p_socket := Some sk\<rparr>"
      by (auto simp: sent_bytes_def)
    let ?r2 = "r1\<lparr>p_chunkPtr := 0, p_chunkBuffer := Some []\<rparr>"
    have w: "write_loop (drop ?s data) (r1\<lparr>p_chunkPtr := 0\<rparr>) = write_loop (drop ?s data) ?r2"
      using p(5) by (subst (1 2) write_loop.simps) (simp add: r1(4) Let_def sock_send_def REQUEST_BUFFER_SIZE_def)
    have "\<exists>r'. write_loop (drop ?s data) ?r2 = (True, r') \<and> sink_ready r' \<and> sink_started r'
        \<and> sink_written r' = sink_written ?r2 @ drop ?s data"
    proof (rule less.hyps)
      show "2 * length (drop ?s data) + (if p_chunkPtr ?r2 = 0 then 0 else 1)
          < 2 * length data + (if p_chunkPtr r = 0 then 0 else 1 :: nat)"
        using False p(5) by (auto simp: REQUEST_BUFFER_SIZE_def)
    qed (use r1 p in \<open>simp_all add: accepting_def\<close>)
    moreover have "sink_written ?r2 @ drop ?s data = sink_written r @ data"
      using r1(3) p(2) by (simp add: sink_written_def sent_bytes_def)
    moreover have "write_loop data r = write_loop (drop ?s data) (r1\<lparr>p_chunkPtr := 0\<rparr>)"
      using False p r1(1) by (subst write_loop.simps) (simp add: Let_def REQUEST_BUFFER_SIZE_def)
    ultimately show ?thesis using w by simp
  qed
qed

interpretation http_sink: request_sink sink_ready sink_written sink_started
  WriteRequestStream FlushRequestStream sent_bytes
proof unfold_locales
  fix r :: "'z wsresponse" and d
  assume r: "sink_ready r"
  show "\<exists>r'. WriteRequestStream d r = (True, r') \<and> sink_ready r' \<and> sink_started r'
      \<and> sink_written r' = sink_written r @ d"
  proof (cases "p_chunkBuffer r")
    case None
    let ?r = "r\<lparr>p_chunkBuffer := Some [], p_chunkPtr := 0, p_chunkEOR := 0, p_chunkEnd := REQUEST_BUFFER_SIZE\<rparr>"
    have "accepting ?r" using r by (simp add: sink_ready_def accepting_def)
    from write_loop_sink [OF this, of "[]" d] None show ?thesis
      by (simp add: WriteRequestStream_def sink_written_def sent_bytes_def)
  next
    case (Some b)
    with r write_loop_sink [of r b d] show ?thesis by (simp add: sink_ready_def WriteRequestStream_def)
  qed
  assume "sink_started r"
  then obtain b where b: "p_chunkBuffer r = Some b" by (auto simp: sink_started_def)
  with r have a: "accepting r" "length b = p_chunkPtr r" by (simp_all add: sink_ready_def)
  show "\<exists>r'. FlushRequestStream r = (True, r') \<and> sent_bytes r' = sink_written r"
    using sock_send_accepting [OF a(1), of b] a(2) b
    by (cases "p_chunkPtr r") (auto simp: FlushRequestStream_def sink_written_def no_buffer_def sent_bytes_def Let_def)
qed

text \<open>C22: Over a connection that accepts everything, whatever the size of the request, the bytes
  that go out are exactly the text of the request: the request line, each header once on its line,
  the empty line and the content. The buffering neither splits, loses nor repeats anything.\<close>

theorem request_sent:
  assumes "can_send q" "length (rq_contentData q) < 2 ^ 32"
    "map_option tx (m_socket sk) = Some []" "os_sent sk = []"
  shows "\<exists>r'. WriteMessage b WriteRequestStream FlushRequestStream q (response_init (Some sk)) = (True, r')
    \<and> concat (os_sent (the (p_socket r'))) = request_text b q"
proof -
  have "sink_ready (response_init (Some sk))"
    using assms(3) by (auto simp: sink_ready_def accepting_def response_init_def)
  moreover have "sink_written (response_init (Some sk)) = []"
    using assms(4) by (simp add: sink_written_def sent_bytes_def response_init_def)
  ultimately show ?thesis using http_sink.message_sends [OF _ _ assms(1,2), of _ b]
    unfolding sent_bytes_def by blast
qed

theorem request_sent_witness:
  "\<exists>r'. WriteMessage \<lparr>HAVE_ZLIB = True, LIBVERSION = ''2''\<rparr> WriteRequestStream FlushRequestStream
      (SetContentParam ''a'' ''b c'' (WSRequest_server \<lparr>HAVE_ZLIB = True, LIBVERSION = ''2''\<rparr> ''::1'' 6544))
      (response_init (Some (demo_socket []))) = (True, r')
    \<and> concat (os_sent (the (p_socket r'))) = request_text \<lparr>HAVE_ZLIB = True, LIBVERSION = ''2''\<rparr>
      (SetContentParam ''a'' ''b c'' (WSRequest_server \<lparr>HAVE_ZLIB = True, LIBVERSION = ''2''\<rparr> ''::1'' 6544))"
proof (rule request_sent)
  let ?q = "SetContentParam ''a'' ''b c'' (WSRequest_server \<lparr>HAVE_ZLIB = True, LIBVERSION = ''2''\<rparr> ''::1'' 6544)"
  have "rq_service_method ?q = WS_METHOD_Get" "rq_contentData ?q = ''a='' @ urlencode ''b c''"
    by (simp_all add: SetContentParam_def WSRequest_server_def RequestAcceptEncoding_def SetHeader_def request_init_def Let_def)
  moreover have "urlencode ''b c'' = ''b%20c''" by code_simp
  ultimately show "can_send ?q" "length (rq_contentData ?q) < 2 ^ 32" by (simp_all add: can_send_def)
qed (simp_all add: demo_socket_def TcpSocket_new_def)

section \<open>Lines come in\<close>

context byte_stream
begin

text \<open>The reader of lines never stores outside of its array, and what it counts stays below the
  limit and one more block.\<close>

lemma line_loop_safe:
  assumes "inv s" "k < 2" "length buf \<le> 1020 + k" "l < HTTP_HEADER_MAXLEN"
  shows "case line_loop rcv WS_CRLF buf k line l s of (out, line', l', s') \<Rightarrow>
    out \<noteq> LineOverflow \<and> inv s' \<and> env s s' \<and> l' < HTTP_HEADER_MAXLEN + 1022"
  using assms
proof (induction "HTTP_HEADER_MAXLEN + RESPONSE_BUFFER_SIZE - (l + length buf)" arbitrary: buf k line l s
    rule: less_induct)
  case less
  note p = less.prems
  obtain d s1 where r: "rcv 1 s = (d, s1)" "inv s1" "env s s1" using rcv_prefix [OF p(1), of 1] by blast
  have nb: "\<not> RESPONSE_BUFFER_SIZE \<le> length buf" using p(2,3) by (simp add: RESPONSE_BUFFER_SIZE_def)
  show ?case
  proof (cases d)
    case Nil
    with r nb p(4) show ?thesis by (subst line_loop.simps) simp
  next
    case (Cons ch d')
    have IH: "case line_loop rcv WS_CRLF b q ln m s1 of (out, line', l', s') \<Rightarrow>
        out \<noteq> LineOverflow \<and> inv s' \<and> env s s' \<and> l' < HTTP_HEADER_MAXLEN + 1022"
      if "m + length b = Suc (l + length buf)" "q < 2" "length b \<le> 1020 + q" "m < HTTP_HEADER_MAXLEN" for b q ln m
    proof -
      have "HTTP_HEADER_MAXLEN + RESPONSE_BUFFER_SIZE - (m + length b)
          < HTTP_HEADER_MAXLEN + RESPONSE_BUFFER_SIZE - (l + length buf)"
        using that(1) p nb by simp
      from less.hyps [OF this r(2) that(2,3,4), of ln] env_trans [OF r(3)] show ?thesis
        by (cases "line_loop rcv WS_CRLF b q ln m s1") auto
    qed
    have nc: "length WS_CRLF = 2" by (simp add: WS_CRLF_def)
    note step = line_loop.simps [of rcv WS_CRLF buf k line l s]
    consider (eol) "ch = WS_CRLF ! k" "k = 1" | (half) "ch = WS_CRLF ! k" "k = 0"
      | (full) "ch \<noteq> WS_CRLF ! k" "Suc (length buf) > 1020" | (more) "ch \<noteq> WS_CRLF ! k" "Suc (length buf) \<le> 1020"
      using p(2) by linarith
    then show ?thesis
    proof cases
      case eol
      with r Cons nb p nc show ?thesis
        by (simp add: line_loop.simps [of rcv WS_CRLF buf "Suc 0" line l s] Let_def)
    next
      case half
      with r Cons nb p nc IH [of l "buf @ [ch]" 1 line] show ?thesis
        by (simp add: line_loop.simps [of rcv WS_CRLF buf 0 line l s] Let_def)
    next
      case full
      with r Cons nb p nc IH [of "l + Suc (length buf)" "[]" 0 "line @ cstr (buf @ [ch])"] show ?thesis
        by (simp add: step Let_def RESPONSE_BUFFER_SIZE_def)
    next
      case more
      with r Cons nb p nc IH [of l "buf @ [ch]" 0 line] show ?thesis
        by (simp add: step Let_def RESPONSE_BUFFER_SIZE_def)
    qed
  qed
qed

text \<open>Scanning text without a carriage return.\<close>

lemma line_loop_scan:
  assumes "inv s" "stream s = a @ rest" "CHR 0x0D \<notin> set a" "is_cstring a" "is_cstring buf"
    "length buf \<le> 1020" "l + length buf + length a < HTTP_HEADER_MAXLEN"
  shows "\<exists>buf' line' l' s'. line_loop rcv WS_CRLF buf 0 line l s = line_loop rcv WS_CRLF buf' 0 line' l' s'
    \<and> line' @ buf' = line @ buf @ a \<and> l' + length buf' = l + length buf + length a \<and> inv s' \<and> env s s'
    \<and> stream s' = rest \<and> length buf' \<le> 1020 \<and> is_cstring buf'"
  using assms
proof (induction a arbitrary: buf line l s)
  case Nil
  then show ?case by (intro exI [of _ buf] exI [of _ line] exI [of _ l] exI [of _ s]) (simp add: env_refl)
next
  case (Cons ch a)
  from rcv_one [OF Cons.prems(1)] Cons.prems(2) obtain s1 where
    r: "rcv 1 s = ([ch], s1)" "inv s1" "env s s1" "stream s1 = a @ rest" by auto
  have ch: "ch \<noteq> WS_CRLF ! 0" "ch \<noteq> NUL" "length WS_CRLF = 2" using Cons.prems(3,4) by (auto simp: WS_CRLF_def)
  have nb: "\<not> RESPONSE_BUFFER_SIZE \<le> length buf" using Cons.prems(6) by (simp add: RESPONSE_BUFFER_SIZE_def)
  show ?case
  proof (cases "Suc (length buf) > 1020")
    case True
    have "line_loop rcv WS_CRLF buf 0 line l s
        = line_loop rcv WS_CRLF [] 0 (line @ buf @ [ch]) (l + Suc (length buf)) s1"
      using r(1) ch nb True Cons.prems(5,6,7)
      by (subst line_loop.simps) (simp add: RESPONSE_BUFFER_SIZE_def)
    moreover from Cons.IH [OF r(2,4), of "[]" "l + Suc (length buf)" "line @ buf @ [ch]"] Cons.prems
    obtain buf' line' l' s' where
      "line_loop rcv WS_CRLF [] 0 (line @ buf @ [ch]) (l + Suc (length buf)) s1 = line_loop rcv WS_CRLF buf' 0 line' l' s'"
      "line' @ buf' = (line @ buf @ [ch]) @ [] @ a" "l' + length buf' = l + Suc (length buf) + length a"
      "inv s'" "env s1 s'" "stream s' = rest" "length buf' \<le> 1020" "is_cstring buf'" by auto
    ultimately show ?thesis using env_trans [OF r(3)]
      by (intro exI [of _ buf'] exI [of _ line'] exI [of _ l'] exI [of _ s']) auto
  next
    case False
    have "line_loop rcv WS_CRLF buf 0 line l s = line_loop rcv WS_CRLF (buf @ [ch]) 0 line l s1"
      using r(1) ch nb False Cons.prems(5,6,7)
      by (subst line_loop.simps) (simp add: RESPONSE_BUFFER_SIZE_def)
    moreover from Cons.IH [OF r(2,4), of "buf @ [ch]" l line] Cons.prems False ch
    obtain buf' line' l' s' where
      "line_loop rcv WS_CRLF (buf @ [ch]) 0 line l s1 = line_loop rcv WS_CRLF buf' 0 line' l' s'"
      "line' @ buf' = line @ (buf @ [ch]) @ a" "l' + length buf' = l + length (buf @ [ch]) + length a"
      "inv s'" "env s1 s'" "stream s' = rest" "length buf' \<le> 1020" "is_cstring buf'" by auto
    ultimately show ?thesis using env_trans [OF r(3)]
      by (intro exI [of _ buf'] exI [of _ line'] exI [of _ l'] exI [of _ s']) auto
  qed
qed

text \<open>A line that ends with the line end is read as it is, and nothing beyond it.\<close>

lemma line_reads:
  assumes "inv s" "stream s = a @ WS_CRLF @ rest" "CHR 0x0D \<notin> set a" "is_cstring a"
    "length a < HTTP_HEADER_MAXLEN"
  shows "\<exists>s'. ReadHeaderLine rcv WS_CRLF s = (True, a, length a, s') \<and> inv s' \<and> env s s' \<and> stream s' = rest"
proof -
  have nc: "length WS_CRLF = 2" "WS_CRLF ! 0 = CHR 0x0D" "WS_CRLF ! 1 = CHR 0x0A" by (simp_all add: WS_CRLF_def)
  from line_loop_scan [OF assms(1,2,3,4), of "[]" 0 "[]"] assms(5) obtain buf line l s1 where
    1: "line_loop rcv WS_CRLF [] 0 [] 0 s = line_loop rcv WS_CRLF buf 0 line l s1"
    "line @ buf = a" "l + length buf = length a" "inv s1" "env s s1" "stream s1 = WS_CRLF @ rest"
    "length buf \<le> 1020" "is_cstring buf" by auto
  from rcv_one [OF 1(4), of "CHR 0x0D" "CHR 0x0A # rest"] 1(6) obtain s2 where
    2: "rcv 1 s1 = ([CHR 0x0D], s2)" "inv s2" "env s1 s2" "stream s2 = CHR 0x0A # rest"
    by (auto simp: WS_CRLF_def)
  from rcv_one [OF 2(2,4)] obtain s3 where
    3: "rcv 1 s2 = ([CHR 0x0A], s3)" "inv s3" "env s2 s3" "stream s3 = rest" by auto
  have "line_loop rcv WS_CRLF buf 0 line l s1 = line_loop rcv WS_CRLF (buf @ [CHR 0x0D]) 1 line l s2"
    using 1(3,7) 2(1) assms(5) nc by (subst line_loop.simps) (simp add: RESPONSE_BUFFER_SIZE_def)
  also have "\<dots> = (LineOk, line @ buf, l + length buf, s3)"
    using 1(7,8) 3(1) nc by (subst line_loop.simps) (simp add: RESPONSE_BUFFER_SIZE_def)
  finally have "ReadHeaderLine rcv WS_CRLF s = (True, a, length a, s3)"
    using 1(1-3) by (simp add: ReadHeaderLine_def)
  moreover have "env s s3" by (rule env_trans [OF 1(5) env_trans [OF 2(3) 3(3)]])
  ultimately show ?thesis using 3(2,4) by blast
qed

end

lemma http_line_reads:
  assumes "sock_ok sk" "avail sk = a @ WS_CRLF @ rest" "CHR 0x0D \<notin> set a" "is_cstring a"
    "length a < HTTP_HEADER_MAXLEN"
  shows "\<exists>sk'. http_line sk = (True, a, length a, sk') \<and> sock_ok sk' \<and> same_env sk sk' \<and> avail sk' = rest"
  unfolding http_line_def by (rule tcp.line_reads [OF assms])

section \<open>A response comes in\<close>

text \<open>A response as a server writes it, and the texts it is made of.\<close>

definition header_text :: "string \<Rightarrow> string \<Rightarrow> string" where
  "header_text n v = n @ '': '' @ v"

definition response_head :: "nat \<Rightarrow> string \<Rightarrow> (string \<times> string) list \<Rightarrow> string" where
  "response_head status reason hs =
     ''HTTP/1.1 '' @ dec_nat status @ '' '' @ reason @ WS_CRLF
     @ concat (map (\<lambda>(n, v). header_text n v @ WS_CRLF) hs) @ WS_CRLF"

definition line_ok :: "string \<Rightarrow> bool" where
  "line_ok l \<longleftrightarrow> CHR 0x0D \<notin> set l \<and> is_cstring l \<and> length l < HTTP_HEADER_MAXLEN"

definition header_wf :: "string \<times> string \<Rightarrow> bool" where
  "header_wf h = (case h of (n, v) \<Rightarrow>
     n \<noteq> [] \<and> length n \<le> HTTP_TOKEN_MAXLEN \<and> CHR '':'' \<notin> set n \<and> \<not> is_blank n
     \<and> v \<noteq> [] \<and> \<not> is_blank v \<and> line_ok (header_text n v))"

text \<open>The values of a header name, in the order they came in.\<close>

definition values_of :: "string \<Rightarrow> (string \<times> string) list \<Rightarrow> string list" where
  "values_of k hs = map snd (filter (\<lambda>(n, v). map upper n = k) hs)"

text \<open>What the headers have set after some lines.\<close>

definition headers_agree :: "(string \<times> string) list \<Rightarrow> 'z wsresponse \<Rightarrow> bool" where
  "headers_agree hs r \<longleftrightarrow> (\<forall>k. map_of (p_headers r) k
     = (if values_of k hs = [] then None
        else Some \<lparr>h_name = last (map fst (filter (\<lambda>(n, v). map upper n = k) hs)), h_values = values_of k hs\<rparr>))
     \<and> sorted_wrt (<) (map fst (p_headers r)) \<and> list_all (\<lambda>(n, v). v \<noteq> []) hs"

lemma apply_header_frame [simp]:
  "p_headers (apply_header tk v r) = p_headers r" "p_statusCode (apply_header tk v r) = p_statusCode r"
  by (simp_all add: apply_header_def Let_def split: option.split WS_HEADER.split)

text \<open>Everything else that a response holds, and what headers do to it.\<close>

definition core :: "'z wsresponse \<Rightarrow> 'z wsresponse" where
  "core r = r\<lparr>p_socket := None, p_statusCode := 0, p_headers := []\<rparr>"

definition effects :: "(string \<times> string) list \<Rightarrow> 'z wsresponse \<Rightarrow> 'z wsresponse" where
  "effects hs r = fold (\<lambda>(n, v). apply_header (map upper n) v) hs r"

definition fresh_names :: "(string \<times> string) list \<Rightarrow> (string \<times> string) list \<Rightarrow> bool" where
  "fresh_names hs0 hs \<longleftrightarrow> distinct (map (map upper \<circ> fst) hs) \<and> (\<forall>h\<in>set hs. values_of (map upper (fst h)) hs0 = [])"

lemma core_simps [simp]:
  "core (r\<lparr>p_socket := sk\<rparr>) = core r" "core (r\<lparr>p_statusCode := s\<rparr>) = core r" "core (r\<lparr>p_headers := m\<rparr>) = core r"
  "core (r\<lparr>p_socket := sk, p_statusCode := s\<rparr>) = core r"
  by (simp_all add: core_def)

lemma core_apply_header: "core (apply_header tk v r) = apply_header tk v (core r)"
  by (simp add: apply_header_def core_def Let_def split: option.split WS_HEADER.split)

lemma fresh_names_Cons:
  "fresh_names hs0 ((n, v) # hs) \<Longrightarrow> values_of (map upper n) hs0 = [] \<and> fresh_names (hs0 @ [(n, v)]) hs"
  by (force simp: fresh_names_def values_of_def)

lemma skip_value_one: "\<not> is_blank v \<Longrightarrow> v \<noteq> [] \<Longrightarrow> skip_value (Suc (length v)) (CHR '':'' # CHR '' '' # v) = v"
  by (cases "length v") (auto simp: is_blank_def)

lemma header_step_wf:
  assumes "header_wf (n, v)" "headers_agree hs r"
  shows "header_step (header_text n v) (length (header_text n v)) tk r
    = (map upper n, snd (header_step (header_text n v) (length (header_text n v)) tk r))"
    "headers_agree (hs @ [(n, v)]) (snd (header_step (header_text n v) (length (header_text n v)) tk r))"
    "p_statusCode (snd (header_step (header_text n v) (length (header_text n v)) tk r)) = p_statusCode r"
    "values_of (map upper n) hs = [] \<Longrightarrow>
      core (snd (header_step (header_text n v) (length (header_text n v)) tk r)) = apply_header (map upper n) v (core r)"
proof -
  let ?k = "map upper n"
  have n: "n \<noteq> []" "length n \<le> HTTP_TOKEN_MAXLEN" "CHR '':'' \<notin> set n" "\<not> is_blank n" "v \<noteq> []" "\<not> is_blank v"
    using assms(1) by (simp_all add: header_wf_def)
  let ?t = "header_text n v"
  have sp: "strchr_split (CHR '':'') ?t = Some (n, CHR '' '' # v)"
    using strchr_split_first [OF n(3), of "CHR '' '' # v"] by (simp add: header_text_def)
  have nb: "\<not> is_blank ?t" using n(1,4) by (simp add: is_blank_def header_text_def)
  have tk: "take (min (length n) HTTP_TOKEN_MAXLEN) n = n" "take (min (length n) HTTP_TOKEN_MAXLEN) ?t = n"
    using n(2) by (simp_all add: header_text_def min_absorb1)
  have sv: "skip_value (length ?t - (length n + 1)) (CHR '':'' # CHR '' '' # v) = v"
    using skip_value_one [OF n(6,5)] by (simp add: header_text_def)
  let ?hv = "AddValue [] (SetName n (map_get ?k (p_headers r)))"
  let ?r1 = "r\<lparr>p_headers := map_set ?k ?hv (p_headers r)\<rparr>"
  have srt: "sorted_wrt (<) (map fst (p_headers r))" using assms(2) by (simp add: headers_agree_def)
  have srt1: "sorted_wrt (<) (map fst (p_headers ?r1))" using map_set_sorted [OF srt] by simp
  have get: "map_get ?k (p_headers ?r1) = ?hv" by (simp add: map_get_def map_of_map_set [OF srt])
  let ?nv = "Last ?hv @ v"
  let ?r2 = "?r1\<lparr>p_headers := map_set ?k (set_Back ?nv ?hv) (p_headers ?r1)\<rparr>"
  have step: "header_step ?t (length ?t) tk r = (?k, apply_header ?k ?nv ?r2)"
    unfolding header_step_def sp option.case prod.case Let_def tk sv
    using nb n(1) get by simp
  then show "header_step ?t (length ?t) tk r = (?k, snd (header_step ?t (length ?t) tk r))" by simp
  show "p_statusCode (snd (header_step ?t (length ?t) tk r)) = p_statusCode r" by (simp add: step)
  have old: "map_of (p_headers r) k = (if values_of k hs = [] then None
      else Some \<lparr>h_name = last (map fst (filter (\<lambda>(n, v). map upper n = k) hs)), h_values = values_of k hs\<rparr>)" for k
    using assms(2) by (simp add: headers_agree_def)
  have bck: "set_Back ?nv ?hv = \<lparr>h_name = n, h_values = values_of ?k hs @ [v]\<rparr>"
  proof (cases "values_of ?k hs = []")
    case True
    then have "map_get ?k (p_headers r) = WSHeader_new" using old [of ?k] by (simp add: map_get_def)
    then show ?thesis using True by (simp add: WSHeader_new_def SetName_def AddValue_def set_Back_def Last_def)
  next
    case False
    then have "map_get ?k (p_headers r)
        = \<lparr>h_name = last (map fst (filter (\<lambda>(n, v). map upper n = ?k) hs)), h_values = values_of ?k hs\<rparr>"
      using old [of ?k] by (simp add: map_get_def)
    moreover have "last (values_of ?k hs) \<noteq> []"
      using assms(2) last_in_set [OF False] by (auto simp: headers_agree_def values_of_def list_all_iff)
    ultimately show ?thesis by (simp add: SetName_def AddValue_def set_Back_def Last_def)
  qed
  have "map_of (p_headers ?r2) = (map_of (p_headers r))(?k \<mapsto> \<lparr>h_name = n, h_values = values_of ?k hs @ [v]\<rparr>)"
    using map_of_map_set [OF srt1] map_of_map_set [OF srt] by (simp add: bck)
  show "core (snd (header_step ?t (length ?t) tk r)) = apply_header ?k v (core r)" if "values_of ?k hs = []"
  proof -
    have "map_get ?k (p_headers r) = WSHeader_new" using that old [of ?k] by (simp add: map_get_def)
    then have "?nv = v" by (simp add: WSHeader_new_def SetName_def AddValue_def set_Back_def Last_def)
    then show ?thesis by (simp add: step core_apply_header)
  qed
  from \<open>map_of (p_headers ?r2) = _\<close> show "headers_agree (hs @ [(n, v)]) (snd (header_step ?t (length ?t) tk r))"
    using old map_set_sorted [OF srt1] n(5) assms(2) by (auto simp: step headers_agree_def values_of_def)
qed

lemma response_loop_headers:
  assumes "list_all header_wf hs" "headers_agree hd0 r" "p_socket r = Some sk" "sock_ok sk"
    "avail sk = concat (map (\<lambda>(n, v). header_text n v @ WS_CRLF) hs) @ WS_CRLF @ body"
    "tot + sum_list (map (\<lambda>(n, v). length (header_text n v)) hs) \<le> RESPONSE_MAX_SIZE"
  shows "\<exists>r' sk'. response_loop (Suc m) tot tk True r = (True, r') \<and> headers_agree (hd0 @ hs) r'
    \<and> p_statusCode r' = p_statusCode r \<and> p_socket r' = Some sk' \<and> sock_ok sk' \<and> avail sk' = body
    \<and> same_env sk sk' \<and> (fresh_names hd0 hs \<longrightarrow> core r' = effects hs (core r))"
  using assms
proof (induction hs arbitrary: hd0 r sk tot tk m)
  case Nil
  from http_line_reads [OF Nil.prems(4), of "[]" body] Nil.prems(5) obtain sk1 where
    l: "http_line sk = (True, [], 0, sk1)" "sock_ok sk1" "avail sk1 = body" "same_env sk sk1"
    by (auto simp: HTTP_HEADER_MAXLEN_def)
  then have "response_loop (Suc m) tot tk True r = (True, r\<lparr>p_socket := Some sk1, p_statusCode := p_statusCode r\<rparr>)"
    using Nil.prems(3,6) by (subst response_loop.simps) simp
  with l Nil.prems(2) show ?case by (auto simp: headers_agree_def effects_def)
next
  case (Cons h hs)
  obtain n v where h: "h = (n, v)" by (cases h)
  let ?t = "header_text n v"
  have wf: "header_wf (n, v)" "line_ok ?t" using Cons.prems(1) by (simp_all add: h header_wf_def)
  from http_line_reads [OF Cons.prems(4), of ?t] Cons.prems(5) wf(2) obtain sk1 where
    l: "http_line sk = (True, ?t, length ?t, sk1)" "sock_ok sk1"
      "avail sk1 = concat (map (\<lambda>(n, v). header_text n v @ WS_CRLF) hs) @ WS_CRLF @ body" "same_env sk sk1"
    by (auto simp: h line_ok_def)
  let ?r1 = "r\<lparr>p_socket := Some sk1, p_statusCode := p_statusCode r\<rparr>"
  have agree: "headers_agree hd0 ?r1" using Cons.prems(2) by (simp add: headers_agree_def)
  let ?r2 = "snd (header_step ?t (length ?t) tk ?r1)"
  note st = header_step_wf [OF wf(1) agree, of tk]
  have len: "length ?t \<noteq> 0" "tot + length ?t + sum_list (map (\<lambda>(n, v). length (header_text n v)) hs) \<le> RESPONSE_MAX_SIZE"
    using Cons.prems(6) by (simp_all add: h header_text_def)
  have "p_socket ?r2 = Some sk1" by simp
  moreover have "list_all header_wf hs" using Cons.prems(1) by simp
  ultimately obtain r' sk' where r': "response_loop (Suc (Suc m)) (tot + length ?t) (map upper n) True ?r2 = (True, r')"
    "headers_agree ((hd0 @ [(n, v)]) @ hs) r'" "p_statusCode r' = p_statusCode ?r2"
    "p_socket r' = Some sk'" "sock_ok sk'" "avail sk' = body" "same_env sk1 sk'"
    "fresh_names (hd0 @ [(n, v)]) hs \<longrightarrow> core r' = effects hs (core ?r2)"
    using Cons.IH [OF _ st(2) _ l(2,3) len(2), of "Suc m" "map upper n"] by blast
  have eff: "core r' = effects (h # hs) (core r)" if "fresh_names hd0 (h # hs)"
    using r'(8) st(4) fresh_names_Cons that by (simp add: h effects_def)
  have "response_loop (Suc m) tot tk True r = response_loop (Suc (Suc m)) (tot + length ?t) (map upper n) True ?r2"
    using l(1) len st(1) Cons.prems(3)
    by (subst response_loop.simps) (simp add: Let_def split_beta del: upt_Suc, metis (no_types, lifting) fst_conv)
  with r' st(3) eff same_env_trans [OF l(4) r'(7)] show ?case by (auto simp: h)
qed

lemma scan_status_line:
  assumes "status < 2 ^ 31"
  shows "scan_status (''HTTP/1.1 '' @ dec_nat status @ '' '' @ reason) = Some (of_nat status)"
proof -
  have d: "list_all isdigit (dec_nat status)" by (rule dec_nat_digits)
  then have sd: "\<And>c. c \<in> set (dec_nat status) \<Longrightarrow> isdigit c" by (simp add: list_all_iff)
  obtain c cs where n: "dec_nat status = c # cs" by (cases "dec_nat status") auto
  with sd have c: "isdigit c" "\<not> isspace c" "c \<noteq> CHR ''-''" "c \<noteq> CHR ''+''"
    by (auto simp: isdigit_def isspace_def)
  have s1: "skip_space (''HTTP/1.1 '' @ dec_nat status @ '' '' @ reason) = ''HTTP/1.1 '' @ dec_nat status @ '' '' @ reason"
    by (simp add: isspace_def)
  have s2: "dropWhile (\<lambda>c. \<not> isspace c) (''HTTP/1.1 '' @ dec_nat status @ '' '' @ reason) = '' '' @ dec_nat status @ '' '' @ reason"
    by (simp add: isspace_def)
  have s3: "skip_space ('' '' @ dec_nat status @ '' '' @ reason) = dec_nat status @ '' '' @ reason"
    using n c by (simp add: isspace_def)
  have "takeWhile isdigit (dec_nat status @ '' '' @ reason) = dec_nat status @ takeWhile isdigit ('' '' @ reason)"
    using sd by (intro takeWhile_append2) auto
  then have s4: "takeWhile isdigit (dec_nat status @ '' '' @ reason) = dec_nat status" by (simp add: isdigit_def)
  have cl: "clamp64 (int status) = int status" using assms by (simp add: clamp64_def)
  show ?thesis unfolding scan_status_def s1 s2 s3 Let_def
    using s4 n c cl by (simp add: dec_value_dec_nat [of status, unfolded n])
qed

lemma ReadResponse_reads:
  assumes "status < 2 ^ 31" "list_all header_wf hs" "CHR '':'' \<notin> set reason"
    "line_ok (''HTTP/1.1 '' @ dec_nat status @ '' '' @ reason)"
    "length (response_head status reason hs) \<le> RESPONSE_MAX_SIZE"
    "p_socket r = Some sk" "p_headers r = []" "sock_ok sk" "avail sk = response_head status reason hs @ body"
  shows "\<exists>r' sk'. ReadResponse r = (True, r') \<and> p_statusCode r' = of_nat status \<and> headers_agree hs r'
    \<and> p_socket r' = Some sk' \<and> sock_ok sk' \<and> avail sk' = body \<and> same_env sk sk'
    \<and> (fresh_names [] hs \<longrightarrow> core r' = effects hs (core r))"
proof -
  define t where "t = ''HTTP/1.1 '' @ dec_nat status @ '' '' @ reason"
  let ?hs = "concat (map (\<lambda>(n, v). header_text n v @ WS_CRLF) hs)"
  have "avail sk = t @ WS_CRLF @ ?hs @ WS_CRLF @ body"
    by (simp only: assms(9) response_head_def append_assoc t_def)
  from http_line_reads [OF assms(8) this] assms(4) [folded t_def] obtain sk1 where
    l: "http_line sk = (True, t, length t, sk1)" "sock_ok sk1" "avail sk1 = ?hs @ WS_CRLF @ body" "same_env sk sk1"
    unfolding line_ok_def by blast
  let ?r = "r\<lparr>p_socket := Some sk1, p_statusCode := of_nat status\<rparr>"
  have "\<not> isdigit (CHR '':'')" by (simp add: isdigit_def)
  then have "CHR '':'' \<notin> set (dec_nat status)"
    using dec_nat_digits [of status] unfolding list_all_iff by blast
  then have nc: "strchr_split (CHR '':'') t = None" using assms(3) by (intro strchr_split_none) (auto simp: t_def)
  have hs1: "header_step t (length t) [] ?r = ([], ?r)"
    unfolding header_step_def nc Let_def by simp
  have hl: "length ?hs = sum_list (map (\<lambda>(n, v). length (header_text n v)) hs) + 2 * length hs"
    by (induction hs) (auto simp: WS_CRLF_def)
  have tot: "length t + sum_list (map (\<lambda>(n, v). length (header_text n v)) hs) \<le> RESPONSE_MAX_SIZE"
    using assms(5) hl by (simp add: response_head_def t_def)
  have agree: "headers_agree [] ?r" by (simp add: headers_agree_def values_of_def assms(7))
  from response_loop_headers [OF assms(2) agree _ l(2,3) tot, of 0 "[]"]
  obtain r' sk' where r': "response_loop 1 (length t) [] True ?r = (True, r')" "headers_agree hs r'"
    "p_statusCode r' = of_nat status" "p_socket r' = Some sk'" "sock_ok sk'" "avail sk' = body" "same_env sk1 sk'"
    "fresh_names [] hs \<longrightarrow> core r' = effects hs (core r)" by auto
  have th: "length t > 5" "take 4 t = ''HTTP''" "scan_status t = Some (of_nat status)"
    using scan_status_line [OF assms(1), of reason] by (simp_all add: t_def)
  have "\<not> 0 + length t > RESPONSE_MAX_SIZE" using tot by simp
  then have "ReadResponse r = response_loop 1 (length t) [] True ?r"
    unfolding ReadResponse_def using l(1) th hs1
    by (subst response_loop.simps) (auto simp add: assms(6) Let_def)
  with r' same_env_trans [OF l(4)] show ?thesis by auto
qed

text \<open>C23: A response is read back as it was written: the status, for each header name (in whatever
  case it was sent) all its values in their order, and nothing of what follows the empty line is
  consumed.\<close>

theorem response_read_back:
  assumes "status < 2 ^ 31" "list_all header_wf hs" "CHR '':'' \<notin> set reason"
    "line_ok (''HTTP/1.1 '' @ dec_nat status @ '' '' @ reason)"
    "length (response_head status reason hs) \<le> RESPONSE_MAX_SIZE"
    "sock_ok sk" "avail sk = response_head status reason hs @ body"
  shows "\<exists>r' sk'. ReadResponse (response_init (Some sk) :: 'z wsresponse) = (True, r') \<and> p_statusCode r' = of_nat status
    \<and> (\<forall>n. values_of (map upper n) hs \<noteq> [] \<longrightarrow>
         GetHeaderValue (map upper n) r' = (True, last (values_of (map upper n) hs))
         \<and> h_values (map_get (map upper n) (p_headers r')) = values_of (map upper n) hs)
    \<and> p_socket r' = Some sk' \<and> avail sk' = body"
proof -
  have "p_socket (response_init (Some sk) :: 'z wsresponse) = Some sk" "p_headers (response_init (Some sk) :: 'z wsresponse) = []"
    by (simp_all add: response_init_def)
  from ReadResponse_reads [OF assms(1-5) this assms(6,7)]
  show ?thesis by (auto simp: headers_agree_def GetHeaderValue_def map_get_def Last_def)
qed

theorem response_read_back_witness:
  "\<exists>r' sk'. ReadResponse (response_init (Some (demo_socket (response_head 200 ''OK''
      [(''Content-Type'', ''text/xml''), (''X-A'', ''1''), (''x-a'', ''2'')] @ ''body''))) :: unit wsresponse) = (True, r')
    \<and> p_statusCode r' = 200 \<and> GetHeaderValue ''X-A'' r' = (True, ''2'') \<and> p_socket r' = Some sk' \<and> avail sk' = ''body''"
proof -
  let ?hs = "[(''Content-Type'', ''text/xml''), (''X-A'', ''1''), (''x-a'', ''2'')]"
  have u: "map upper ''x-a'' = ''X-A''" by code_simp
  have v: "values_of ''X-A'' ?hs = [''1'', ''2'']" by code_simp
  have d: "dec_nat 200 = ''200''" by code_simp
  have "list_all header_wf ?hs"
    by (simp add: header_wf_def HTTP_TOKEN_MAXLEN_def is_blank_def line_ok_def header_text_def HTTP_HEADER_MAXLEN_def)
  moreover have "line_ok (''HTTP/1.1 '' @ dec_nat 200 @ '' '' @ ''OK'')"
    unfolding d by (simp add: line_ok_def HTTP_HEADER_MAXLEN_def)
  moreover have "length (response_head 200 ''OK'' ?hs) \<le> RESPONSE_MAX_SIZE"
    unfolding response_head_def d by (simp add: RESPONSE_MAX_SIZE_def header_text_def WS_CRLF_def)
  ultimately obtain r' sk' where r: "ReadResponse (response_init (Some (demo_socket (response_head 200 ''OK'' ?hs @ ''body''))) :: unit wsresponse) = (True, r')"
    "p_statusCode r' = of_nat 200" "p_socket r' = Some sk'" "avail sk' = ''body''"
    "\<And>n. values_of (map upper n) ?hs \<noteq> [] \<Longrightarrow> GetHeaderValue (map upper n) r' = (True, last (values_of (map upper n) ?hs))"
    using response_read_back [of 200 ?hs "''OK''" "demo_socket (response_head 200 ''OK'' ?hs @ ''body'')" "''body''"]
    by auto
  from r(5) [of "''x-a''"] have "GetHeaderValue ''X-A'' r' = (True, ''2'')" unfolding u v by simp
  with r(1-4) show ?thesis by auto
qed

section \<open>Chunked content\<close>

text \<open>The size of a chunk as a server writes it, with an extension behind it.\<close>

fun hex_nat :: "nat \<Rightarrow> string" where
  "hex_nat n = (if n < 16 then [uhex_digits ! n] else hex_nat (n div 16) @ [uhex_digits ! (n mod 16)])"

declare hex_nat.simps [simp del]

lemma hex_nat_digits: "c \<in> set (hex_nat n) \<Longrightarrow> c \<in> set uhex_digits"
proof (induction n rule: hex_nat.induct)
  case (1 n)
  then show ?case using uhex_digit(2) by (subst (asm) hex_nat.simps) (auto split: if_splits)
qed

lemma hex_nat_nonempty [simp]: "hex_nat n \<noteq> []"
  by (subst hex_nat.simps) simp

lemma hex_value_hex_nat: "hex_value (hex_nat n) = n"
proof (induction n rule: hex_nat.induct)
  case (1 n)
  show ?case
  proof (cases "n < 16")
    case True
    then show ?thesis by (subst hex_nat.simps) (simp add: hex_value_def uhex_digit(1))
  next
    case False
    with 1 show ?thesis by (subst hex_nat.simps) (simp add: hex_value_def uhex_digit(1))
  qed
qed

lemma uhex_digits_props:
  assumes "c \<in> set uhex_digits"
  shows "hex_val c \<noteq> None" "c \<noteq> CHR '';''" "c \<noteq> CHR 0x0D" "c \<noteq> NUL"
  using assms by (auto simp: uhex_digits_def hex_val_def)

definition extension :: "string \<Rightarrow> bool" where
  "extension e \<longleftrightarrow> e = [] \<or> hd e = CHR '';''"

lemma scan_chunk_size_hex:
  assumes "n < 2 ^ 32" "extension e"
  shows "scan_chunk_size (hex_nat n @ e) = of_nat n"
proof -
  have h: "c \<noteq> CHR '';''" "hex_val c \<noteq> None" if "c \<in> set (hex_nat n)" for c
    using uhex_digits_props hex_nat_digits [OF that] by auto
  then have "takeWhile (\<lambda>c. c \<noteq> CHR '';'') (hex_nat n @ e) = hex_nat n @ takeWhile (\<lambda>c. c \<noteq> CHR '';'') e"
    by (intro takeWhile_append2) auto
  also have "takeWhile (\<lambda>c. c \<noteq> CHR '';'') e = []" using assms(2) by (cases e) (auto simp: extension_def)
  finally have "takeWhile (\<lambda>c. c \<noteq> CHR '';'') (hex_nat n @ e) = hex_nat n" by simp
  moreover have "takeWhile (\<lambda>c. hex_val c \<noteq> None) (hex_nat n) = hex_nat n"
    using h(2) by (simp add: takeWhile_eq_all_conv)
  ultimately have "scan_chunk_size (hex_nat n @ e) = of_nat (min (2 ^ 64 - 1) n)"
    unfolding scan_chunk_size_def by (simp only: hex_value_hex_nat)
  also have "min (2 ^ 64 - 1) n = n" using assms(1) by simp
  finally show ?thesis .
qed

text \<open>The content as it is sent: each chunk with its size and extension, the last chunk, the
  trailers.\<close>

definition chunk_text :: "string \<times> bytes \<Rightarrow> bytes" where
  "chunk_text x = (case x of (e, c) \<Rightarrow> hex_nat (length c) @ e @ WS_CRLF @ c @ WS_CRLF)"

definition chunks_text :: "(string \<times> bytes) list \<Rightarrow> bytes \<Rightarrow> bytes" where
  "chunks_text cs rest = concat (map chunk_text cs) @ ''0'' @ WS_CRLF @ rest"

definition chunk_wf :: "string \<times> bytes \<Rightarrow> bool" where
  "chunk_wf x = (case x of (e, c) \<Rightarrow> extension e \<and> c \<noteq> [] \<and> length c \<le> CHUNK_MAX_SIZE
     \<and> line_ok (hex_nat (length c) @ e))"

text \<open>The states of a reader that still has to deliver \<open>c\<close> of the current chunk and then the
  chunks \<open>cs\<close>.\<close>

definition chunk_mode :: "'z wsresponse \<Rightarrow> bool" where
  "chunk_mode r \<longleftrightarrow> p_contentChunked r \<and> p_chunkNext r \<and> p_contentEncoding r = WS_CENCODING_None"

definition between :: "bytes \<Rightarrow> 'z wsresponse \<Rightarrow> bool" where
  "between text r \<longleftrightarrow> chunk_mode r \<and> p_chunkEnd r \<le> p_chunkPtr r
     \<and> (\<exists>sk. p_socket r = Some sk \<and> sock_ok sk \<and> (avail sk = text \<or> avail sk = WS_CRLF @ text))"

definition within :: "bytes \<Rightarrow> bytes \<Rightarrow> 'z wsresponse \<Rightarrow> bool" where
  "within c text r \<longleftrightarrow> chunk_mode r \<and> c \<noteq> []
     \<and> (\<exists>sk b d. p_socket r = Some sk \<and> sock_ok sk \<and> p_chunkBuffer r = Some b \<and> length b = p_chunkEOR r
          \<and> p_chunkPtr r \<le> p_chunkEOR r \<and> c = drop (p_chunkPtr r) b @ d \<and> p_chunkEnd r = p_chunkEOR r + length d
          \<and> avail sk = d @ WS_CRLF @ text)"

definition reading :: "bytes \<Rightarrow> bytes \<Rightarrow> 'z wsresponse \<Rightarrow> bool" where
  "reading c text r \<longleftrightarrow> (if c = [] then between text r else within c text r)"

lemma within_read:
  assumes "within c text r" "0 < n"
  shows "\<exists>d r'. ReadChunk n r = (Some d, r') \<and> d \<noteq> [] \<and> length d \<le> n
    \<and> (\<exists>c'. c = d @ c' \<and> reading c' text r')"
proof -
  from assms(1) obtain sk b d where w: "chunk_mode r" "c \<noteq> []" "p_socket r = Some sk" "sock_ok sk"
    "p_chunkBuffer r = Some b" "length b = p_chunkEOR r" "p_chunkPtr r \<le> p_chunkEOR r"
    "c = drop (p_chunkPtr r) b @ d" "p_chunkEnd r = p_chunkEOR r + length d" "avail sk = d @ WS_CRLF @ text"
    unfolding within_def by blast
  have len: "length c = p_chunkEnd r - p_chunkPtr r" using w by simp
  then have lt: "p_chunkPtr r < p_chunkEnd r" using w(2) by (metis length_greater_0_conv zero_less_diff)
  show ?thesis
  proof (cases "p_chunkEOR r \<le> p_chunkPtr r")
    case True
    then have e: "p_chunkEOR r = p_chunkPtr r" using w(7) by simp
    then have c: "c = d" using w(6,8) by simp
    have "length d \<le> length (avail sk)" by (simp add: w(10))
    from tcp.rcv_full [OF w(4) this] obtain sk1 where
      r1: "ReceiveData (length d) sk = (d, sk1)" "sock_ok sk1" "avail sk1 = WS_CRLF @ text" by (auto simp: w(10))
    let ?r2 = "r\<lparr>p_socket := Some sk1, p_chunkBuffer := Some (b @ d), p_chunkEOR := p_chunkEOR r + length d\<rparr>"
    let ?s = "min (length d) n"
    let ?r' = "?r2\<lparr>p_chunkPtr := p_chunkPtr r + ?s, p_consumed := p_consumed r + ?s\<rparr>"
    have "ReadChunk n r = (Some (take ?s d), ?r')"
      using lt w e r1(1) by (simp add: ReadChunk_def chunk_mode_def sock_receive_def Let_def)
    moreover have "take ?s d \<noteq> []" using assms(2) w(2) c by auto
    moreover have "d = take ?s d @ drop ?s d" by simp
    moreover have "reading (drop ?s d) text ?r'"
    proof (cases "drop ?s d = []")
      case True
      then have "?s = length d" by auto
      with True r1 w e show ?thesis by (simp add: reading_def between_def chunk_mode_def)
    next
      case False
      have "drop (p_chunkPtr r + ?s) (b @ d) = drop ?s d" using w(6) e by simp
      with False r1 w e show ?thesis
        by (simp add: reading_def within_def chunk_mode_def)
    qed
    moreover have "length (take ?s d) \<le> n" by simp
    ultimately show ?thesis unfolding c by blast
  next
    case False
    let ?s = "min (p_chunkEOR r - p_chunkPtr r) n"
    let ?p = "drop (p_chunkPtr r) b"
    let ?r' = "r\<lparr>p_chunkPtr := p_chunkPtr r + ?s, p_consumed := p_consumed r + ?s\<rparr>"
    have lp: "length ?p = p_chunkEOR r - p_chunkPtr r" using w(6) by simp
    have "ReadChunk n r = (Some (take ?s ?p), ?r')"
      using lt w False by (simp add: ReadChunk_def chunk_mode_def Let_def)
    moreover have "take ?s ?p \<noteq> []" "length (take ?s ?p) \<le> n" using assms(2) False lp by auto
    moreover have "c = take ?s ?p @ (drop ?s ?p @ d)" by (simp add: w(8) del: drop_drop)
    moreover have "reading (drop ?s ?p @ d) text ?r'"
    proof (cases "drop ?s ?p @ d = []")
      case True
      then have "length ?p \<le> ?s" "d = []" by (simp_all only: append_is_Nil_conv drop_eq_Nil)
      then have "p_chunkEnd r \<le> p_chunkPtr r + ?s" using w(9) lp by simp
      with True w show ?thesis by (simp add: reading_def between_def chunk_mode_def)
    next
      case nd: False
      have e: "drop ?s ?p = drop (p_chunkPtr r + ?s) b" by (simp add: add.commute)
      have le: "p_chunkPtr r + ?s \<le> p_chunkEOR r" using False by simp
      have "within (drop ?s ?p @ d) text ?r'" using nd w le unfolding within_def e
        by (intro conjI exI [of _ sk] exI [of _ b] exI [of _ d]) (simp_all add: chunk_mode_def)
      with nd show ?thesis by (simp only: reading_def if_False)
    qed
    ultimately show ?thesis by blast
  qed
qed

lemma skip_empty_line:
  assumes "sock_ok sk" "avail sk = a @ WS_CRLF @ rest \<or> avail sk = WS_CRLF @ a @ WS_CRLF @ rest"
    "line_ok a" "a \<noteq> []"
  shows "\<exists>sk'. skip_empty_lines sk = (a, sk') \<and> sock_ok sk' \<and> avail sk' = rest"
proof -
  have one: "\<exists>sk'. skip_empty_lines s = (a, sk') \<and> sock_ok sk' \<and> avail sk' = rest"
    if "sock_ok s" "avail s = a @ WS_CRLF @ rest" for s
  proof -
    from http_line_reads [OF that] assms(3) obtain sk' where
      "http_line s = (True, a, length a, sk')" "sock_ok sk'" "avail sk' = rest" unfolding line_ok_def by blast
    with assms(4) show ?thesis by (subst skip_empty_lines.simps) simp
  qed
  from assms(2) show ?thesis
  proof
    assume "avail sk = WS_CRLF @ a @ WS_CRLF @ rest"
    with http_line_reads [OF assms(1), of "[]" "a @ WS_CRLF @ rest"] obtain sk1 where
      "http_line sk = (True, [], 0, sk1)" "sock_ok sk1" "avail sk1 = a @ WS_CRLF @ rest"
      by (auto simp: HTTP_HEADER_MAXLEN_def)
    with one [of sk1] show ?thesis by (subst skip_empty_lines.simps) simp
  qed (use one assms(1) in blast)
qed

text \<open>Between two chunks the next one is entered.\<close>

lemma between_next:
  assumes "between (chunks_text ((e, c) # cs) rest) r" "chunk_wf (e, c)"
  shows "\<exists>r1. begin_chunk r = Inr r1 \<and> within c (chunks_text cs rest) r1"
proof -
  let ?z = "hex_nat (length c) @ e"
  have wf: "extension e" "c \<noteq> []" "length c \<le> CHUNK_MAX_SIZE" "line_ok ?z"
    using assms(2) by (simp_all add: chunk_wf_def)
  have t: "chunks_text ((e, c) # cs) rest = ?z @ WS_CRLF @ c @ WS_CRLF @ chunks_text cs rest"
    by (simp add: chunks_text_def chunk_text_def)
  from assms(1) obtain sk where sk: "chunk_mode r" "p_socket r = Some sk" "sock_ok sk"
    "avail sk = ?z @ WS_CRLF @ c @ WS_CRLF @ chunks_text cs rest
     \<or> avail sk = WS_CRLF @ ?z @ WS_CRLF @ c @ WS_CRLF @ chunks_text cs rest"
    unfolding between_def t by auto
  from skip_empty_line [OF sk(3,4) wf(4)] obtain sk' where
    s: "skip_empty_lines sk = (?z, sk')" "sock_ok sk'" "avail sk' = c @ WS_CRLF @ chunks_text cs rest" by auto
  have lc: "length c < 2 ^ 32" using wf(3) by (simp add: CHUNK_MAX_SIZE_def)
  then have u: "unat (scan_chunk_size ?z) = length c"
    using scan_chunk_size_hex [OF lc wf(1)] by (simp add: unat_of_nat_small)
  then have "scan_chunk_size ?z > 0" using wf(2) by (metis length_0_conv unat_0 word_gt_0)
  with s u wf(3) sk(2) show ?thesis
    using sk(1) wf(2)
    by (auto simp: begin_chunk_def Let_def within_def chunk_mode_def no_buffer_def)
qed

lemma ReadChunk_next:
  assumes "p_contentChunked r" "p_chunkEnd r \<le> p_chunkPtr r" "begin_chunk r = Inr r1" "within c text r1"
  shows "ReadChunk n r = ReadChunk n r1"
proof -
  have "\<not> p_chunkPtr r1 \<ge> p_chunkEnd r1"
  proof -
    from assms(4) obtain b d where "c \<noteq> []" "length b = p_chunkEOR r1" "p_chunkPtr r1 \<le> p_chunkEOR r1"
      "c = drop (p_chunkPtr r1) b @ d" "p_chunkEnd r1 = p_chunkEOR r1 + length d" unfolding within_def by blast
    then show ?thesis by (cases d) auto
  qed
  with assms show ?thesis by (simp add: ReadChunk_def within_def chunk_mode_def)
qed

lemma between_end:
  assumes "between (chunks_text [] rest) r"
  shows "\<exists>r'. ReadChunk n r = (Some [], r') \<and> p_contentChunked r' \<and> p_contentEncoding r' = WS_CENCODING_None"
proof -
  have z: "line_ok ''0''" "scan_chunk_size ''0'' = 0"
    by (simp_all add: line_ok_def HTTP_HEADER_MAXLEN_def scan_chunk_size_def hex_val_def hex_value_def)
  from assms obtain sk where sk: "chunk_mode r" "p_socket r = Some sk" "sock_ok sk" "p_chunkEnd r \<le> p_chunkPtr r"
    "avail sk = ''0'' @ WS_CRLF @ rest \<or> avail sk = WS_CRLF @ ''0'' @ WS_CRLF @ rest"
    unfolding between_def chunks_text_def by auto
  from skip_empty_line [OF sk(3,5) z(1)] obtain sk' where "skip_empty_lines sk = (''0'', sk')" by auto
  then have "begin_chunk r = Inl (Some [], (no_buffer r)\<lparr>p_socket := Some (skip_trailers sk')\<rparr>)"
    using sk(2) z(2) by (simp add: begin_chunk_def Let_def)
  with sk show ?thesis by (simp add: ReadChunk_def chunk_mode_def no_buffer_def)
qed

text \<open>Reading the content by blocks of the given sizes; \<open>None\<close> when a read fails.\<close>

fun drain :: "(nat \<Rightarrow> 'r \<Rightarrow> (bytes option \<times> 'r) option) \<Rightarrow> nat list \<Rightarrow> 'r \<Rightarrow> (bytes list \<times> 'r) option" where
  "drain rd [] r = Some ([], r)"
| "drain rd (n # ns) r =
     (case rd n r of
        Some (Some d, r1) \<Rightarrow> map_option (\<lambda>(ds, r2). (d # ds, r2)) (drain rd ns r1)
      | _ \<Rightarrow> None)"

text \<open>A reader that holds a content: a read of a positive size gives its next bytes, and none only at its
  end.\<close>

locale content_source =
  fixes rd :: "nat \<Rightarrow> 'r \<Rightarrow> (bytes option \<times> 'r) option"
    and holds :: "bytes \<Rightarrow> 'r \<Rightarrow> bool"
  assumes read_step: "holds c r \<Longrightarrow> 0 < n \<Longrightarrow>
    \<exists>d c' r'. rd n r = Some (Some d, r') \<and> c = d @ c' \<and> holds c' r' \<and> (d = [] \<longrightarrow> c = [])"
begin

lemma drain_delivers:
  assumes "holds c r" "0 \<notin> set ns"
  shows "\<exists>ds r' left. drain rd ns r = Some (ds, r') \<and> c = concat ds @ left \<and> ([] \<in> set ds \<longrightarrow> left = [])"
  using assms
proof (induction ns arbitrary: c r)
  case (Cons n ns)
  then have n: "0 < n" "0 \<notin> set ns" by auto
  from read_step [OF Cons.prems(1) n(1)] obtain d c' r1 where
    d: "rd n r = Some (Some d, r1)" "c = d @ c'" "holds c' r1" "d = [] \<longrightarrow> c = []" by blast
  from Cons.IH [OF d(3) n(2)] obtain ds r2 left where
    "drain rd ns r1 = Some (ds, r2)" "c' = concat ds @ left" "[] \<in> set ds \<longrightarrow> left = []" by blast
  with d show ?case by (intro exI [of _ "d # ds"] exI [of _ r2] exI [of _ left]) auto
qed simp

end

text \<open>A response holds a content in chunks: the rest of a chunk and the chunks behind it, or the end has been
  reached.\<close>

definition holds_chunks :: "bytes \<Rightarrow> 'z wsresponse \<Rightarrow> bool" where
  "holds_chunks c r \<longleftrightarrow>
     (\<exists>c1 cs rest. reading c1 (chunks_text cs rest) r \<and> list_all chunk_wf cs \<and> c = c1 @ concat (map snd cs))
     \<or> (c = [] \<and> p_contentChunked r \<and> \<not> p_chunkNext r \<and> p_contentEncoding r = WS_CENCODING_None)"

lemma within_step:
  assumes "within c1 (chunks_text cs rest) r1" "ReadChunk n r = ReadChunk n r1" "chunk_mode r" "list_all chunk_wf cs" "0 < n"
  shows "\<exists>d c' r'. ReadContent zl n r = Some (Some d, r') \<and> c1 @ concat (map snd cs) = d @ c' \<and> holds_chunks c' r' \<and> d \<noteq> []"
proof -
  from within_read [OF assms(1,5)] obtain d r' c' where
    d: "ReadChunk n r1 = (Some d, r')" "d \<noteq> []" "c1 = d @ c'" "reading c' (chunks_text cs rest) r'" by blast
  then have "holds_chunks (c' @ concat (map snd cs)) r'" using assms(4) unfolding holds_chunks_def by blast
  with d assms(2,3) show ?thesis
    by (intro exI [of _ d] exI [of _ "c' @ concat (map snd cs)"] exI [of _ r']) (simp add: ReadContent_def chunk_mode_def)
qed

lemma between_step:
  assumes "between (chunks_text cs rest) r" "list_all chunk_wf cs" "0 < n"
  shows "\<exists>d c' r'. ReadContent zl n r = Some (Some d, r') \<and> concat (map snd cs) = d @ c' \<and> holds_chunks c' r'
    \<and> (d = [] \<longrightarrow> concat (map snd cs) = [])"
proof -
  have m: "chunk_mode r" "p_contentChunked r" "p_chunkEnd r \<le> p_chunkPtr r"
    using assms(1) by (auto simp: between_def chunk_mode_def)
  show ?thesis
  proof (cases cs)
    case Nil
    with assms(1) between_end [of rest r n] obtain r' where
      "ReadChunk n r = (Some [], r')" "p_contentChunked r'" "p_contentEncoding r' = WS_CENCODING_None" by auto
    with m Nil show ?thesis
      by (intro exI [of _ "[]"] exI [of _ "r'\<lparr>p_chunkNext := False\<rparr>"])
         (simp add: ReadContent_def chunk_mode_def holds_chunks_def)
  next
    case (Cons x cs1)
    obtain e c1 where x: "x = (e, c1)" by (cases x)
    from assms(1,2) Cons x between_next [of e c1 cs1 rest r] obtain r1 where
      "begin_chunk r = Inr r1" "within c1 (chunks_text cs1 rest) r1" by auto
    with ReadChunk_next [OF m(2,3)] within_step [of c1 cs1 rest r1 n r zl] m(1) Cons x assms(2,3)
    show ?thesis by fastforce
  qed
qed

interpretation chunked: content_source "ReadContent zl" holds_chunks for zl
proof
  fix c :: bytes and n :: nat and r :: "'a wsresponse"
  assume "holds_chunks c r" "0 < n"
  then show "\<exists>d c' r'. ReadContent zl n r = Some (Some d, r') \<and> c = d @ c' \<and> holds_chunks c' r' \<and> (d = [] \<longrightarrow> c = [])"
    unfolding holds_chunks_def [of c]
  proof (elim disjE exE conjE)
    fix c1 cs rest
    assume r: "reading c1 (chunks_text cs rest) r" "list_all chunk_wf cs" "c = c1 @ concat (map snd cs)"
    show ?thesis
    proof (cases "c1 = []")
      case True
      with r between_step [of cs rest r n zl] \<open>0 < n\<close> show ?thesis by (simp add: reading_def)
    next
      case False
      with r have "within c1 (chunks_text cs rest) r" "chunk_mode r" by (auto simp: reading_def within_def)
      with within_step [OF this(1) refl this(2) r(2) \<open>0 < n\<close>, of zl] r(3) show ?thesis by blast
    qed
  next
    assume "c = []" "p_contentChunked r" "\<not> p_chunkNext r" "p_contentEncoding r = WS_CENCODING_None"
    then show ?thesis
      by (intro exI [of _ "[]"] exI [of _ r]) (simp add: ReadContent_def holds_chunks_def)
  qed
qed

text \<open>C24: A chunked content arrives as it was sent: reading it by blocks of any positive sizes
  never fails, what is delivered is the chunks put together from the start, whatever their sizes,
  extensions and trailers, and an empty block is delivered only after the last byte.\<close>

theorem chunked_content:
  assumes "list_all chunk_wf cs" "0 \<notin> set ns" "p_socket r = Some sk" "sock_ok sk"
    "avail sk = concat (map chunk_text cs) @ ''0'' @ WS_CRLF @ rest"
    "p_contentChunked r" "p_chunkNext r" "p_contentEncoding r = WS_CENCODING_None" "p_chunkEnd r = 0"
  shows "\<exists>ds r' left. drain (ReadContent zl) ns r = Some (ds, r') \<and> concat (map snd cs) = concat ds @ left
    \<and> ([] \<in> set ds \<longrightarrow> left = [])"
proof -
  have "reading [] (chunks_text cs rest) r"
    using assms(3-9) by (simp add: reading_def between_def chunk_mode_def chunks_text_def)
  then have "holds_chunks (concat (map snd cs)) r" using assms(1) unfolding holds_chunks_def by force
  from chunked.drain_delivers [OF this assms(2)] show ?thesis .
qed

theorem chunked_content_witness:
  "\<exists>ds r' left. drain (ReadContent None) [3, 7, 9, 2] ((response_init (Some (demo_socket
        (concat (map chunk_text [('''', ''abcd''), ('';x=1'', ''ef'')]) @ ''0'' @ WS_CRLF @ ''X: y'' @ WS_CRLF @ WS_CRLF)))
      :: unit wsresponse)\<lparr>p_contentChunked := True, p_chunkNext := True\<rparr>) = Some (ds, r')
    \<and> ''abcdef'' = concat ds @ left \<and> ([] \<in> set ds \<longrightarrow> left = [])"
proof -
  have h: "hex_nat 4 = ''4''" "hex_nat 2 = ''2''" by (simp_all add: hex_nat.simps uhex_digits_def)
  have l: "length ''abcd'' = 4" "length ''ef'' = 2" by simp_all
  have "chunk_wf ('''', ''abcd'')" unfolding chunk_wf_def prod.case l h
    by (simp add: extension_def CHUNK_MAX_SIZE_def line_ok_def HTTP_HEADER_MAXLEN_def)
  moreover have "chunk_wf ('';x=1'', ''ef'')" unfolding chunk_wf_def prod.case l h
    by (simp add: extension_def CHUNK_MAX_SIZE_def line_ok_def HTTP_HEADER_MAXLEN_def)
  ultimately have wf: "list_all chunk_wf [('''', ''abcd''), ('';x=1'', ''ef'')]" by simp
  from chunked_content [OF wf, of "[3, 7, 9, 2]" "(response_init (Some (demo_socket
        (concat (map chunk_text [('''', ''abcd''), ('';x=1'', ''ef'')]) @ ''0'' @ WS_CRLF @ ''X: y'' @ WS_CRLF @ WS_CRLF)))
      :: unit wsresponse)\<lparr>p_contentChunked := True, p_chunkNext := True\<rparr>" _ "''X: y'' @ WS_CRLF @ WS_CRLF" None]
  show ?thesis by (simp add: response_init_def)
qed

section \<open>Content of a known length\<close>

lemma plain_read:
  assumes "\<not> p_contentChunked r" "p_contentEncoding r = WS_CENCODING_None" "p_socket r = Some sk" "sock_ok sk"
    "avail sk = c @ rest" "p_contentLength r = p_consumed r + length c" "0 < n" "c \<noteq> []"
  shows "\<exists>d c' r' sk'. ReadContent zl n r = Some (Some d, r') \<and> d \<noteq> [] \<and> c = d @ c'
    \<and> \<not> p_contentChunked r' \<and> p_contentEncoding r' = WS_CENCODING_None \<and> p_socket r' = Some sk' \<and> sock_ok sk'
    \<and> avail sk' = c' @ rest \<and> p_contentLength r' = p_consumed r' + length c' \<and> p_contentLength r' = p_contentLength r"
proof -
  let ?m = "if length c > n then n else length c"
  have m: "?m \<le> length (avail sk)" "0 < ?m" using assms(5,7,8) by auto
  from tcp.rcv_full [OF assms(4) m(1)] obtain sk1 where
    r1: "ReceiveData ?m sk = (take ?m (avail sk), sk1)" "sock_ok sk1" "avail sk1 = drop ?m (avail sk)" .
  have t: "take ?m (avail sk) = take ?m c" "drop ?m (avail sk) = drop ?m c @ rest" using assms(5) by auto
  let ?r' = "r\<lparr>p_socket := Some sk1, p_consumed := p_consumed r + length (take ?m c)\<rparr>"
  have ne: "take ?m c \<noteq> []" using m(2) assms(8) by auto
  have "ReadContent zl n r = Some (Some (take ?m c), ?r')"
    using assms(1-3,6,8) r1(1) ne unfolding t(1)
    by (auto simp: ReadContent_def sock_receive_def Let_def)
  then show ?thesis using assms(1,2,6) r1 t ne
    by (intro exI [of _ "take ?m c"] exI [of _ "drop ?m c"] exI [of _ ?r'] exI [of _ sk1]) auto
qed

text \<open>A response holds a content of a known length: what is left of it comes first on its socket.\<close>

definition holds_plain :: "bytes \<Rightarrow> 'z wsresponse \<Rightarrow> bool" where
  "holds_plain c r \<longleftrightarrow>
     \<not> p_contentChunked r \<and> p_contentEncoding r = WS_CENCODING_None \<and> 0 < p_contentLength r
     \<and> p_contentLength r = p_consumed r + length c
     \<and> (\<exists>sk rest. p_socket r = Some sk \<and> sock_ok sk \<and> avail sk = c @ rest)"

interpretation plain: content_source "ReadContent zl" holds_plain for zl
proof
  fix c :: bytes and n :: nat and r :: "'a wsresponse"
  assume h: "holds_plain c r" and n: "0 < n"
  show "\<exists>d c' r'. ReadContent zl n r = Some (Some d, r') \<and> c = d @ c' \<and> holds_plain c' r' \<and> (d = [] \<longrightarrow> c = [])"
  proof (cases "c = []")
    case True
    with h show ?thesis
      by (intro exI [of _ "[]"] exI [of _ r]) (auto simp: ReadContent_def holds_plain_def)
  next
    case False
    from h obtain sk rest where s: "\<not> p_contentChunked r" "p_contentEncoding r = WS_CENCODING_None" "p_socket r = Some sk"
      "sock_ok sk" "avail sk = c @ rest" "p_contentLength r = p_consumed r + length c"
      unfolding holds_plain_def by blast
    from plain_read [OF s n False, of zl] h show ?thesis unfolding holds_plain_def by (metis append_Nil)
  qed
qed

text \<open>A content with a length is delivered from its start and never beyond its end, whatever
  follows on the connection.\<close>

theorem plain_content:
  assumes "\<not> p_contentChunked r" "p_contentEncoding r = WS_CENCODING_None" "p_socket r = Some sk" "sock_ok sk"
    "avail sk = body @ rest" "p_contentLength r = length body" "p_consumed r = 0" "body \<noteq> []" "0 \<notin> set ns"
  shows "\<exists>ds r' left. drain (ReadContent zl) ns r = Some (ds, r') \<and> body = concat ds @ left \<and> ([] \<in> set ds \<longrightarrow> left = [])"
proof -
  have "holds_plain body r" using assms(1-8) by (auto simp: holds_plain_def)
  from plain.drain_delivers [OF this assms(9)] show ?thesis .
qed

section \<open>What the parser lets through\<close>

text \<open>A response that breaks off anywhere behind its status line, before the empty line that
  ends the headers, is taken as a valid response with the headers read so far.\<close>

theorem response_cut_accepted:
  assumes "status < 2 ^ 31" "CHR '':'' \<notin> set reason" "line_ok (''HTTP/1.1 '' @ dec_nat status @ '' '' @ reason)"
    "sock_ok sk" "avail sk = ''HTTP/1.1 '' @ dec_nat status @ '' '' @ reason @ WS_CRLF"
  shows "\<exists>r'. ReadResponse (response_init (Some sk) :: 'z wsresponse) = (True, r')
    \<and> p_statusCode r' = of_nat status \<and> p_headers r' = []"
proof -
  define t where "t = ''HTTP/1.1 '' @ dec_nat status @ '' '' @ reason"
  have "avail sk = t @ WS_CRLF @ []" using assms(5) by (simp add: t_def)
  from http_line_reads [OF assms(4) this] assms(3) [folded t_def] obtain sk1 where
    l: "http_line sk = (True, t, length t, sk1)" "sock_ok sk1" "avail sk1 = []"
    unfolding line_ok_def by blast
  from tcp.rcv_prefix [OF l(2), of 1] l(3) obtain sk2 where "ReceiveData 1 sk1 = ([], sk2)" by auto
  then have l2: "http_line sk1 = (False, [], 0, sk2)"
    by (simp add: http_line_def ReadHeaderLine_def line_loop.simps RESPONSE_BUFFER_SIZE_def)
  let ?r = "(response_init (Some sk) :: 'z wsresponse)\<lparr>p_socket := Some sk1, p_statusCode := of_nat status\<rparr>"
  have "\<not> isdigit (CHR '':'')" by (simp add: isdigit_def)
  then have "CHR '':'' \<notin> set (dec_nat status)" using dec_nat_digits [of status] unfolding list_all_iff by blast
  then have nc: "strchr_split (CHR '':'') t = None" using assms(2) by (intro strchr_split_none) (auto simp: t_def)
  have hs1: "header_step t (length t) [] ?r = ([], ?r)" unfolding header_step_def nc Let_def by simp
  have th: "length t > 5" "take 4 t = ''HTTP''" "scan_status t = Some (of_nat status)"
    using scan_status_line [OF assms(1), of reason] by (simp_all add: t_def)
  have sk: "p_socket (response_init (Some sk) :: 'z wsresponse) = Some sk" by (simp add: response_init_def)
  have "length t < HTTP_HEADER_MAXLEN" using assms(3) by (simp add: t_def line_ok_def)
  then have "\<not> length t > RESPONSE_MAX_SIZE" by (simp add: HTTP_HEADER_MAXLEN_def RESPONSE_MAX_SIZE_def)
  then have "ReadResponse (response_init (Some sk) :: 'z wsresponse) = response_loop 1 (length t) [] True ?r"
    unfolding ReadResponse_def using l(1) th hs1 by (subst response_loop.simps) (auto simp add: sk Let_def)
  also have "\<dots> = (True, ?r\<lparr>p_socket := Some sk2\<rparr>)"
    by (subst response_loop.simps) (simp add: l2)
  finally show ?thesis by (simp add: response_init_def)
qed

theorem response_cut_accepted_witness:
  "\<exists>r'. ReadResponse (response_init (Some (demo_socket (''HTTP/1.1 200 OK'' @ WS_CRLF))) :: unit wsresponse) = (True, r')
    \<and> p_statusCode r' = 200 \<and> p_headers r' = []"
proof -
  have d: "dec_nat 200 = ''200''" by code_simp
  have "line_ok (''HTTP/1.1 '' @ dec_nat 200 @ '' '' @ ''OK'')" unfolding d by (simp add: line_ok_def HTTP_HEADER_MAXLEN_def)
  moreover have "avail (demo_socket (''HTTP/1.1 200 OK'' @ WS_CRLF)) = ''HTTP/1.1 '' @ dec_nat 200 @ '' '' @ ''OK'' @ WS_CRLF"
    unfolding d by (simp only: demo_socket_ok append.simps)
  ultimately show ?thesis
    using response_cut_accepted [of 200 "''OK''" "demo_socket (''HTTP/1.1 200 OK'' @ WS_CRLF)", where ?'z = unit]
    by fastforce
qed

text \<open>A header without a value gets the colon as its value, and one with blanks only keeps the last
  blank. A chunk size that is not a number is a size of 0, that is the end of the content, and one
  beyond 32 bits is cut.\<close>

theorem header_without_value:
  "GetHeaderValue ''X-A'' (snd (header_step ''X-A:'' 4 [] (response_init None :: unit wsresponse))) = (True, '':'')
   \<and> GetHeaderValue ''X-A'' (snd (header_step ''X-A:  '' 6 [] (response_init None :: unit wsresponse))) = (True, '' '')
   \<and> GetHeaderValue ''X-A'' (snd (header_step ''X-A: b'' 6 [] (response_init None :: unit wsresponse))) = (True, ''b'')"
  by code_simp

theorem chunk_size_lenient:
  "scan_chunk_size ''zz'' = 0 \<and> scan_chunk_size '' 5'' = 0 \<and> scan_chunk_size ''100000005'' = 5 \<and> scan_chunk_size ''1f;a=b'' = 31"
  by (simp add: scan_chunk_size_def hex_value_def hex_val_def)

section \<open>Where a redirection may lead\<close>

lemma clear_credentials:
  "map_of (rq_headers (ClearHeader ''COOKIE'' (ClearHeader (the (ws_header_to_upperstr WS_HEADER_Authorization)) q))) k
    = (if k = ''COOKIE'' \<or> k = ''AUTHORIZATION'' then None else map_of (rq_headers q) k)"
proof -
  have "map upper ''COOKIE'' = ''COOKIE''" "map upper (the (ws_header_to_upperstr WS_HEADER_Authorization)) = ''AUTHORIZATION''"
    by code_simp+
  then show ?thesis by (simp add: ClearHeader_def map_of_map_erase)
qed

lemma ClearHeader_target [simp]:
  "rq_server (ClearHeader h q) = rq_server q" "rq_port (ClearHeader h q) = rq_port q"
  "rq_secure_uri (ClearHeader h q) = rq_secure_uri q" "rq_timeout (ClearHeader h q) = rq_timeout q"
  by (simp_all add: ClearHeader_def)

lemma redirect_target:
  "rq_server (WSRequest_redirect q u) = (case host u of Some h \<Rightarrow> h | None \<Rightarrow> rq_server q)"
  "rq_secure_uri (WSRequest_redirect q u) = (if scheme u = None then rq_secure_uri q else https u)"
  "rq_port (WSRequest_redirect q u) = (if scheme u = None then rq_port q
     else if port u \<noteq> 0 then port u else if https u then 443 else 80)"
  "rq_headers (WSRequest_redirect q u) = rq_headers q"
  by (simp_all add: WSRequest_redirect_def https_def Let_def split: option.split)

text \<open>C25: A redirection never sends the credentials of a request to another host, nor to another
  port unless the location names a scheme and no host. Unless any location is to be followed it
  stays on the host; and when locations have to be trusted, another host is reached over TLS only.\<close>

theorem redirection_safe:
  assumes "redirection q trusted any r = Some q'"
  shows "(\<forall>k \<in> {''AUTHORIZATION'', ''COOKIE''}. map_of (rq_headers q') k \<noteq> None \<longrightarrow>
      rq_server q' = rq_server q
      \<and> (rq_port q' = rq_port q \<or> host (URIScan (p_location r)) = None \<and> scheme (URIScan (p_location r)) \<noteq> None))
    \<and> (\<not> any \<longrightarrow> rq_server q' = rq_server q)
    \<and> (trusted \<and> rq_server q' \<noteq> rq_server q \<longrightarrow> any \<and> rq_secure_uri q')
    \<and> (\<forall>k. k \<noteq> ''AUTHORIZATION'' \<and> k \<noteq> ''COOKIE'' \<longrightarrow> map_of (rq_headers q') k = map_of (rq_headers q) k)"
proof -
  define u where "u = URIScan (p_location r)"
  define prt where "prt = (if port u = 0 then (if https u then 443 else 80) else port u)"
  define samehost where "samehost = (case host u of None \<Rightarrow> True | Some h \<Rightarrow> rq_server q = h)"
  define sameorigin where "sameorigin = (host u = None \<or> samehost \<and> rq_port q = prt)"
  have d: "sameorigin \<or> samehost \<and> (\<not> trusted \<or> https u) \<or> any \<and> (\<not> trusted \<or> https u)"
    "q' = (if \<not> sameorigin then ClearHeader ''COOKIE'' (ClearHeader (the (ws_header_to_upperstr WS_HEADER_Authorization))
        (WSRequest_redirect q u)) else WSRequest_redirect q u)"
    using assms unfolding redirection_def u_def [symmetric] Let_def prt_def [symmetric] samehost_def [symmetric]
      sameorigin_def [symmetric] by (auto split: if_splits)
  have t: "rq_server q' = (case host u of Some h \<Rightarrow> h | None \<Rightarrow> rq_server q)"
    "rq_port q' = (if scheme u = None then rq_port q else prt)"
    "rq_secure_uri q' = (if scheme u = None then rq_secure_uri q else https u)"
    using d(2) by (auto simp: redirect_target prt_def)
  have hd: "map_of (rq_headers q') k = (if \<not> sameorigin \<and> (k = ''COOKIE'' \<or> k = ''AUTHORIZATION'') then None
      else map_of (rq_headers q) k)" for k
    using d(2) clear_credentials [of "WSRequest_redirect q u" k] by (simp add: redirect_target)
  have sh: "sameorigin \<Longrightarrow> samehost" by (auto simp: sameorigin_def samehost_def)
  have srv: "rq_server q' = rq_server q \<longleftrightarrow> samehost"
    by (auto simp: t(1) samehost_def split: option.split)
  have "https u \<Longrightarrow> scheme u \<noteq> None" by (cases "scheme u") (simp_all add: https_def)
  with d(1) sh srv t hd show ?thesis
    unfolding u_def [symmetric] by (auto simp: sameorigin_def split: if_splits)
qed

theorem redirection_safe_witness:
  "(case redirection (SetHeader ''Authorization'' ''t'' (WSRequest_secure \<lparr>HAVE_ZLIB = False, LIBVERSION = ''2''\<rparr> ''h'' 443 True))
      True True ((response_init None :: unit wsresponse)\<lparr>p_statusCode := 302, p_location := ''https://other/x''\<rparr>) of
      Some q' \<Rightarrow> rq_server q' = ''other'' \<and> map_of (rq_headers q') ''AUTHORIZATION'' = None | None \<Rightarrow> False)"
proof -
  let ?q = "SetHeader ''Authorization'' ''t'' (WSRequest_secure \<lparr>HAVE_ZLIB = False, LIBVERSION = ''2''\<rparr> ''h'' 443 True)"
  let ?r = "(response_init None :: unit wsresponse)\<lparr>p_statusCode := 302, p_location := ''https://other/x''\<rparr>"
  have "map_option rq_server (redirection ?q True True ?r) = Some ''other''" by code_simp
  then obtain q' where q: "redirection ?q True True ?r = Some q'" "rq_server q' = ''other''" by auto
  have "rq_server ?q = ''h''" by code_simp
  with q(2) have ne: "rq_server q' \<noteq> rq_server ?q" by simp
  from redirection_safe [OF q(1)]
  have "map_of (rq_headers q') ''AUTHORIZATION'' \<noteq> None \<longrightarrow> rq_server q' = rq_server ?q" by blast
  with ne have "map_of (rq_headers q') ''AUTHORIZATION'' = None" by blast
  with q show ?thesis by simp
qed

text \<open>The test of the origin does not look at the scheme: credentials sent over TLS are sent again
  in the clear, when the location keeps the port, or when it names the scheme and no host. A port
  without a scheme is not followed.\<close>

theorem redirection_downgrade:
  "map_option (\<lambda>q. (rq_secure_uri q, rq_port q, map_of (rq_headers q) ''AUTHORIZATION''))
     (redirection (SetHeader ''Authorization'' ''t'' (WSRequest_secure \<lparr>HAVE_ZLIB = False, LIBVERSION = ''2''\<rparr> ''h'' 443 True))
        True False ((response_init None :: unit wsresponse)\<lparr>p_statusCode := 302, p_location := ''http://h:443/x''\<rparr>))
     = Some (False, 443, Some (''Authorization'', ''t''))
   \<and> map_option (\<lambda>q. (rq_secure_uri q, rq_port q, map_of (rq_headers q) ''AUTHORIZATION''))
     (redirection (SetHeader ''Authorization'' ''t'' (WSRequest_secure \<lparr>HAVE_ZLIB = False, LIBVERSION = ''2''\<rparr> ''h'' 443 True))
        True False ((response_init None :: unit wsresponse)\<lparr>p_statusCode := 302, p_location := ''http:/x''\<rparr>))
     = Some (False, 80, Some (''Authorization'', ''t''))"
  by code_simp

end
