(* ===== verification/WsClient.thy ===== *)
theory WsClient
  imports WsPaging WsTransfer
begin

text \<open>
  The web service client over the HTTP client: the operations of \<open>WSResponse\<close> for those that \<open>WsApi\<close>
  abstracts from, the documents read from its contents, and the stream over it (\<open>mythwsstream.cpp\<close>).
\<close>

section \<open>The HTTP layer of the client\<close>

definition client_http :: "http_build \<Rightarrow> 'z zlib option \<Rightarrow> 'w network \<Rightarrow> ('z wsresponse, 'w) http" where
  "client_http b zl net =
     \<lparr>http_send = (\<lambda>q maxRedirs trusted any w. WSResponse_init b net q maxRedirs trusted any w),
      http_status = p_statusCode, http_successful = p_successful, http_read = ReadContent zl\<rparr>"

text \<open>The type of the content without its parameters. A stream without a response has none: the code follows the null
  pointer then.\<close>

definition WSStream_GetContentType :: "'z wsresponse wsstream \<Rightarrow> string option" where
  "WSStream_GetContentType s =
     map_option (\<lambda>r. takeWhile (\<lambda>c. c \<noteq> CHR '';'') (snd (GetHeaderValue ''CONTENT-TYPE'' r))) (ws_response s)"

section \<open>Documents\<close>

context content_source
begin

text \<open>A document is read to its end, whatever the pieces are.\<close>

lemma read_document_delivers:
  assumes "http_read h = rd" "holds c r"
  shows "read_document h r acc = Some (Some (acc @ c))"
  using assms(2)
proof (induction "length c" arbitrary: c r acc rule: less_induct)
  case less
  from read_step [OF less.prems, of 4000] obtain d c' r' where
    d: "rd 4000 r = Some (Some d, r')" "c = d @ c'" "holds c' r'" "d = [] \<longrightarrow> c = []" by auto
  show ?case
  proof (cases "d = []")
    case True
    then show ?thesis using d assms(1) by (simp add: read_document.simps [of h r])
  next
    case False
    then have "read_document h r' (acc @ d) = Some (Some ((acc @ d) @ c'))" using less.hyps [OF _ d(3), of "acc @ d"] d(2) by simp
    then show ?thesis using d False assms(1) by (simp add: read_document.simps [of h r])
  qed
qed

text \<open>A read through a stream moves its position by what it delivers.\<close>

lemma stream_read:
  assumes "http_read h = rd" "ws_response s = Some r" "holds c r" "0 < n"
  shows "\<exists>d c' r'. WSStream_Read h n s = Some (Some d, s\<lparr>ws_response := Some r', ws_position := ws_position s + of_nat (length d)\<rparr>)
    \<and> c = d @ c' \<and> holds c' r' \<and> (d = [] \<longrightarrow> c = [])"
  using read_step [OF assms(3,4)] assms(1,2) by (auto simp: WSStream_Read_def)

end

lemma document_holds:
  assumes "printable j" "well_typed j" "get_type j \<in> {TYPE_ARRAY, TYPE_OBJECT}"
    "pf_http pf = client_http b zl net" "holds_plain (render j) r \<or> holds_chunks (render j) r"
  shows "Document pf r = Some (Some j)"
proof -
  have "http_read (pf_http pf) = ReadContent zl" using assms(4) by (simp add: client_http_def)
  then have "read_document (pf_http pf) r [] = Some (Some (render j))"
    using assms(5) plain.read_document_delivers chunked.read_document_delivers by (metis append_Nil)
  moreover have "render j \<noteq> []" using assms(3) by (cases j) auto
  moreover have "parse (pf_fpu pf) (render j) = Inr j"
    using parse_render [OF assms(1,3)] canon_well_typed [OF assms(2)] by simp
  ultimately show ?thesis by (simp add: Document_def parse_document_def)
qed


definition demo_client :: "(unit wsresponse, unit) platform" where
  "demo_client =
     \<lparr>pf_build = \<lparr>HAVE_ZLIB = True, LIBVERSION = ''2''\<rparr>, pf_openssl = False,
      pf_http = client_http \<lparr>HAVE_ZLIB = True, LIBVERSION = ''2''\<rparr> None (\<lambda>q w. (None, w)), pf_fpu = demo_fpu,
      pf_libc = demo_libc, pf_zone = \<lparr>localtime_r = gmtime_r, mktime = timegm\<rparr>, pf_myhost = ''h''\<rparr>"


end
