(* ===== verification/Control.thy ===== *)
theory Control
  imports ProtoMonitor WsLaws
begin

text \<open>
  The facade of the library (\<open>mythcontrol.h\<close>, \<open>mythcontrol.cpp\<close>): the connection to the backend and the client
  of its web services behind one object. Most operations go to one of the two; those that both offer are given to the one that
  the version of the service Dvr calls for.

  An operation takes the two objects and the world of the web services; \<open>None\<close> is an operation that does not return.
\<close>

section \<open>State\<close>

record control =
  c_monitor :: monitor
  c_wsapi :: wsapi

type_synonym ('w, 'a) control_op = "control \<Rightarrow> 'w \<Rightarrow> ('a \<times> control \<times> 'w) option"

definition on_monitor :: "(monitor \<Rightarrow> 'a \<times> monitor) \<Rightarrow> ('w, 'a) control_op" where
  "on_monitor f c w = (case f (c_monitor c) of (r, m) \<Rightarrow> Some (r, c\<lparr>c_monitor := m\<rparr>, w))"

definition on_wsapi :: "('w, 'a) call \<Rightarrow> ('w, 'a) control_op" where
  "on_wsapi f c w = map_option (\<lambda>(r, api, w1). (r, c\<lparr>c_wsapi := api\<rparr>, w1)) (f (c_wsapi c) w)"

definition Control_Open :: "('r, 'w) platform \<Rightarrow> ('w, bool) control_op" where
  "Control_Open pf = on_monitor (\<lambda>m. case monitor_IsOpen m of (opened, m1) \<Rightarrow> if opened then (True, m1) else monitor_Open m1)"

definition Control_Close :: "('r, 'w) platform \<Rightarrow> ('w, unit) control_op" where
  "Control_Close pf c w =
     Some ((), c\<lparr>c_monitor := monitor_Close (c_monitor c), c_wsapi := InvalidateService (c_wsapi c)\<rparr>, w)"

definition Control_new ::
    "('r, 'w) platform \<Rightarrow> protobase \<Rightarrow> bool \<Rightarrow> string \<Rightarrow> u32 \<Rightarrow> string \<Rightarrow> 'w \<Rightarrow> (control \<times> 'w) option" where
  "Control_new pf pb frontend server wsapiPort pin w =
     (case WSAPI_new pf server wsapiPort pin w of
        None \<Rightarrow> None
      | Some (api, w1) \<Rightarrow>
          map_option snd (Control_Open pf \<lparr>c_monitor = ProtoMonitor_new pb frontend, c_wsapi = api\<rparr> w1))"

definition Control_IsOpen :: "('r, 'w) platform \<Rightarrow> ('w, bool) control_op" where
  "Control_IsOpen pf = on_monitor monitor_IsOpen"

definition Control_HasHanging :: "control \<Rightarrow> bool" where
  "Control_HasHanging c = HasHanging (c_monitor c)"

definition Control_CleanHanging :: "('r, 'w) platform \<Rightarrow> ('w, unit) control_op" where
  "Control_CleanHanging pf = on_monitor (\<lambda>m. ((), CleanHanging m))"

definition Control_GetProtoError :: "control \<Rightarrow> ERROR_t" where
  "Control_GetProtoError c = m_protoError (c_monitor c)"

definition Control_WithAuthorization :: "string \<Rightarrow> string \<Rightarrow> control \<Rightarrow> control" where
  "Control_WithAuthorization usr pwd c = c\<lparr>c_wsapi := WithAuthorization usr pwd (c_wsapi c)\<rparr>"

definition Control_WithSSL :: "('r, 'w) platform \<Rightarrow> bool \<Rightarrow> control \<Rightarrow> control" where
  "Control_WithSSL pf yesno c = c\<lparr>c_wsapi := WithSSL pf yesno (c_wsapi c)\<rparr>"

definition Control_GetServerHostName :: "control \<Rightarrow> string" where
  "Control_GetServerHostName c = GetServerHostName (c_wsapi c)"

definition Control_GetBaseURL :: "control \<Rightarrow> string" where
  "Control_GetBaseURL c = GetBaseURL (c_wsapi c)"

definition Control_GetVersion :: "control \<Rightarrow> Version" where
  "Control_GetVersion c = GetVersion (c_wsapi c)"

section \<open>Operations of the connection\<close>

definition Control_QueryFreeSpaceSummary ::
    "('r, 'w) platform \<Rightarrow> ('w, (i64 \<times> i64) option) control_op" where
  "Control_QueryFreeSpaceSummary pf = on_monitor QueryFreeSpaceSummary75"

definition Control_QueryGenPixmap ::
    "('r, 'w) platform \<Rightarrow> Program \<Rightarrow> ('w, bool) control_op" where
  "Control_QueryGenPixmap pf p = on_monitor (QueryGenpixmap75 (pf_libc pf) p)"

definition Control_CancelNextRecording ::
    "('r, 'w) platform \<Rightarrow> i32 \<Rightarrow> bool \<Rightarrow> ('w, bool) control_op" where
  "Control_CancelNextRecording pf rnum cancel = on_monitor (CancelNextRecording75 rnum cancel)"

definition Control_StopRecording ::
    "('r, 'w) platform \<Rightarrow> Program \<Rightarrow> ('w, bool) control_op" where
  "Control_StopRecording pf p = on_monitor (StopRecording75 (pf_libc pf) p)"

definition Control_BlockShutdown :: "('r, 'w) platform \<Rightarrow> ('w, bool) control_op" where
  "Control_BlockShutdown pf = on_monitor BlockShutdown75"

definition Control_AllowShutdown :: "('r, 'w) platform \<Rightarrow> ('w, bool) control_op" where
  "Control_AllowShutdown pf = on_monitor AllowShutdown75"

section \<open>Operations of the web services\<close>

definition Control_CheckService :: "('r, 'w) platform \<Rightarrow> ('w, u32) control_op" where
  "Control_CheckService pf = on_wsapi (CheckService pf)"

definition Control_GetHostSetting ::
    "('r, 'w) platform \<Rightarrow> string \<Rightarrow> string \<Rightarrow> ('w, Setting option) control_op" where
  "Control_GetHostSetting pf key hostname = on_wsapi (GetHostSetting pf key hostname)"

definition Control_GetSetting ::
    "('r, 'w) platform \<Rightarrow> string \<Rightarrow> bool \<Rightarrow> ('w, Setting option) control_op" where
  "Control_GetSetting pf key myhost = on_wsapi (GetSetting pf key myhost)"

definition Control_GetHostSettings ::
    "('r, 'w) platform \<Rightarrow> string \<Rightarrow> ('w, SettingMap) control_op" where
  "Control_GetHostSettings pf hostname = on_wsapi (GetHostSettings pf hostname)"

definition Control_GetSettings ::
    "('r, 'w) platform \<Rightarrow> bool \<Rightarrow> ('w, SettingMap) control_op" where
  "Control_GetSettings pf myhost = on_wsapi (GetSettings pf myhost)"

definition Control_PutSetting ::
    "('r, 'w) platform \<Rightarrow> string \<Rightarrow> string \<Rightarrow> bool \<Rightarrow> ('w, bool) control_op" where
  "Control_PutSetting pf key val myhost = on_wsapi (PutSetting pf key val myhost)"

definition Control_GetRecordedList ::
    "('r, 'w) platform \<Rightarrow> u32 \<Rightarrow> bool \<Rightarrow> ('w, Program list) control_op" where
  "Control_GetRecordedList pf n descending = on_wsapi (GetRecordedList pf n descending)"

definition Control_GetRecorded_time ::
    "('r, 'w) platform \<Rightarrow> u32 \<Rightarrow> time_t \<Rightarrow> ('w, Program option) control_op" where
  "Control_GetRecorded_time pf chanid recstartts = on_wsapi (GetRecorded_time pf chanid recstartts)"

definition Control_GetRecorded ::
    "('r, 'w) platform \<Rightarrow> u32 \<Rightarrow> ('w, Program option) control_op" where
  "Control_GetRecorded pf recordedid = on_wsapi (GetRecorded pf recordedid)"

definition Control_GetCaptureCardList :: "('r, 'w) platform \<Rightarrow> ('w, CaptureCard list) control_op" where
  "Control_GetCaptureCardList pf = on_wsapi (GetCaptureCardList pf)"

definition Control_GetVideoSourceList :: "('r, 'w) platform \<Rightarrow> ('w, VideoSource list) control_op" where
  "Control_GetVideoSourceList pf = on_wsapi (GetVideoSourceList pf)"

definition Control_GetChannelList ::
    "('r, 'w) platform \<Rightarrow> u32 \<Rightarrow> bool \<Rightarrow> ('w, Channel list) control_op" where
  "Control_GetChannelList pf sourceid onlyVisible = on_wsapi (GetChannelList pf sourceid onlyVisible)"

definition Control_GetChannel ::
    "('r, 'w) platform \<Rightarrow> u32 \<Rightarrow> ('w, Channel option) control_op" where
  "Control_GetChannel pf chanid = on_wsapi (GetChannel pf chanid)"

definition Control_GetProgramGuide_channel ::
    "('r, 'w) platform \<Rightarrow> u32 \<Rightarrow> time_t \<Rightarrow> time_t \<Rightarrow> ('w, ProgramMap) control_op" where
  "Control_GetProgramGuide_channel pf chanid starttime endtime = on_wsapi (GetProgramGuide_channel pf chanid starttime endtime)"

definition Control_GetProgramGuide ::
    "('r, 'w) platform \<Rightarrow> time_t \<Rightarrow> time_t \<Rightarrow> ('w, (u32 \<times> ProgramMap) list) control_op" where
  "Control_GetProgramGuide pf starttime endtime = on_wsapi (GetProgramGuide pf starttime endtime)"

definition Control_GetRecordScheduleList ::
    "('r, 'w) platform \<Rightarrow> ('w, RecordSchedule list) control_op" where
  "Control_GetRecordScheduleList pf = on_wsapi (GetRecordScheduleList pf)"

definition Control_GetRecordSchedule ::
    "('r, 'w) platform \<Rightarrow> u32 \<Rightarrow> ('w, RecordSchedule option) control_op" where
  "Control_GetRecordSchedule pf recordid = on_wsapi (GetRecordSchedule pf recordid)"

definition Control_AddRecordSchedule ::
    "('r, 'w) platform \<Rightarrow> RecordSchedule \<Rightarrow> ('w, bool \<times> RecordSchedule) control_op" where
  "Control_AddRecordSchedule pf r = on_wsapi (AddRecordSchedule pf r)"

definition Control_UpdateRecordSchedule ::
    "('r, 'w) platform \<Rightarrow> RecordSchedule \<Rightarrow> ('w, bool \<times> RecordSchedule) control_op" where
  "Control_UpdateRecordSchedule pf r = on_wsapi (UpdateRecordSchedule pf r)"

definition Control_DisableRecordSchedule ::
    "('r, 'w) platform \<Rightarrow> u32 \<Rightarrow> ('w, bool) control_op" where
  "Control_DisableRecordSchedule pf recordid = on_wsapi (DisableRecordSchedule pf recordid)"

definition Control_EnableRecordSchedule ::
    "('r, 'w) platform \<Rightarrow> u32 \<Rightarrow> ('w, bool) control_op" where
  "Control_EnableRecordSchedule pf recordid = on_wsapi (EnableRecordSchedule pf recordid)"

definition Control_RemoveRecordSchedule ::
    "('r, 'w) platform \<Rightarrow> u32 \<Rightarrow> ('w, bool) control_op" where
  "Control_RemoveRecordSchedule pf recordid = on_wsapi (RemoveRecordSchedule pf recordid)"

definition Control_GetUpcomingList :: "('r, 'w) platform \<Rightarrow> ('w, Program list) control_op" where
  "Control_GetUpcomingList pf = on_wsapi (GetUpcomingList pf)"

definition Control_GetConflictList :: "('r, 'w) platform \<Rightarrow> ('w, Program list) control_op" where
  "Control_GetConflictList pf = on_wsapi (GetConflictList pf)"

definition Control_GetExpiringList :: "('r, 'w) platform \<Rightarrow> ('w, Program list) control_op" where
  "Control_GetExpiringList pf = on_wsapi (GetExpiringList pf)"

definition Control_GetRecGroupList :: "('r, 'w) platform \<Rightarrow> ('w, string list) control_op" where
  "Control_GetRecGroupList pf = on_wsapi (GetRecGroupList pf)"

definition Control_GetFile ::
    "('r, 'w) platform \<Rightarrow> string \<Rightarrow> string \<Rightarrow> ('w, 'r wsstream option) control_op" where
  "Control_GetFile pf filename sgname = on_wsapi (GetFile pf filename sgname)"

definition Control_GetChannelIcon ::
    "('r, 'w) platform \<Rightarrow> u32 \<Rightarrow> u32 \<Rightarrow> u32 \<Rightarrow> ('w, 'r wsstream option) control_op" where
  "Control_GetChannelIcon pf chanid width height = on_wsapi (GetChannelIcon pf chanid width height)"

definition Control_GetChannelIconUrl ::
    "('r, 'w) platform \<Rightarrow> u32 \<Rightarrow> u32 \<Rightarrow> u32 \<Rightarrow> ('w, string) control_op" where
  "Control_GetChannelIconUrl pf chanid width height = on_wsapi (GetChannelIconUrl pf chanid width height)"

definition Control_GetPreviewImage ::
    "('r, 'w) platform \<Rightarrow> Program \<Rightarrow> u32 \<Rightarrow> u32 \<Rightarrow> ('w, 'r wsstream option) control_op" where
  "Control_GetPreviewImage pf p width height = on_wsapi (GetPreviewImage pf (chanId (channel p)) (startTs (recording p)) width height)"

definition Control_GetPreviewImageUrl ::
    "('r, 'w) platform \<Rightarrow> Program \<Rightarrow> u32 \<Rightarrow> u32 \<Rightarrow> ('w, string) control_op" where
  "Control_GetPreviewImageUrl pf p width height = on_wsapi (GetPreviewImageUrl pf (chanId (channel p)) (startTs (recording p)) width height)"

definition Control_GetRecordingArtwork ::
    "('r, 'w) platform \<Rightarrow> string \<Rightarrow> Program \<Rightarrow> u32 \<Rightarrow> u32 \<Rightarrow> ('w, 'r wsstream option) control_op" where
  "Control_GetRecordingArtwork pf typ p width height = on_wsapi (GetRecordingArtwork pf typ (inetref p) (season p) width height)"

definition Control_GetRecordingArtworkUrl ::
    "('r, 'w) platform \<Rightarrow> string \<Rightarrow> Program \<Rightarrow> u32 \<Rightarrow> u32 \<Rightarrow> ('w, string) control_op" where
  "Control_GetRecordingArtworkUrl pf typ p width height = on_wsapi (GetRecordingArtworkUrl pf typ (inetref p) (season p) width height)"

definition Control_GetRecordingArtworkList ::
    "('r, 'w) platform \<Rightarrow> u32 \<Rightarrow> time_t \<Rightarrow> ('w, Artwork list) control_op" where
  "Control_GetRecordingArtworkList pf chanid recstartts = on_wsapi (GetRecordingArtworkList pf chanid recstartts)"

definition Control_SetSavedBookmark ::
    "('r, 'w) platform \<Rightarrow> Program \<Rightarrow> int \<Rightarrow> i64 \<Rightarrow> ('w, bool) control_op" where
  "Control_SetSavedBookmark pf p u pos = on_wsapi (SetSavedBookmark pf (recordedId (recording p)) u pos)"

definition Control_GetSavedBookmark ::
    "('r, 'w) platform \<Rightarrow> Program \<Rightarrow> int \<Rightarrow> ('w, i64) control_op" where
  "Control_GetSavedBookmark pf p u = on_wsapi (GetSavedBookmark pf (recordedId (recording p)) u)"

section \<open>Operations of both\<close>

text \<open>The version of the service Dvr, and what is done for it.\<close>

definition dvr_ranking :: "('r, 'w) platform \<Rightarrow> ('w, u32) control_op" where
  "dvr_ranking pf = on_wsapi (\<lambda>api w. map_option (\<lambda>(v, s). (sv_ranking v, s)) (CheckService_id pf WS_Dvr api w))"

definition by_dvr :: "('r, 'w) platform \<Rightarrow> (u32 \<Rightarrow> ('w, 'a) control_op) \<Rightarrow> ('w, 'a) control_op" where
  "by_dvr pf f c w = do {
     (ranking, c1, w1) \<leftarrow> dvr_ranking pf c w;
     f ranking c1 w1
   }"

definition Control_UpdateRecordedWatchedStatus ::
    "('r, 'w) platform \<Rightarrow> Program \<Rightarrow> bool \<Rightarrow> ('w, bool) control_op" where
  "Control_UpdateRecordedWatchedStatus pf p watched = by_dvr pf (\<lambda>ranking.
     if ranking \<ge> 0x00060000 then on_wsapi (UpdateRecordedWatchedStatus pf (recordedId (recording p)) watched)
     else on_wsapi (UpdateRecordedWatchedStatus_time pf (chanId (channel p)) (startTs (recording p)) watched))"

definition Control_DeleteRecording ::
    "('r, 'w) platform \<Rightarrow> Program \<Rightarrow> bool \<Rightarrow> bool \<Rightarrow> ('w, bool) control_op" where
  "Control_DeleteRecording pf p forceDelete allowRerecord = by_dvr pf (\<lambda>ranking.
     if ranking \<ge> 0x00060000 then on_wsapi (DeleteRecording pf (recordedId (recording p)) forceDelete allowRerecord)
     else if ranking \<ge> 0x00020001
     then on_wsapi (DeleteRecording_time pf (chanId (channel p)) (startTs (recording p)) forceDelete allowRerecord)
     else on_monitor (DeleteRecording75 p forceDelete allowRerecord))"

definition Control_UndeleteRecording :: "('r, 'w) platform \<Rightarrow> Program \<Rightarrow> ('w, bool) control_op" where
  "Control_UndeleteRecording pf p = by_dvr pf (\<lambda>ranking.
     if ranking \<ge> 0x00060000 then on_wsapi (UnDeleteRecording pf (recordedId (recording p)))
     else if ranking \<ge> 0x00020001
     then on_wsapi (UnDeleteRecording_time pf (chanId (channel p)) (startTs (recording p)))
     else on_monitor (UndeleteRecording75 (pf_libc pf) p))"

text \<open>Without the web service only marks in frames can be had.\<close>

definition no_marks :: "('w, Mark list) control_op" where
  "no_marks c w = Some ([], c, w)"

definition Control_GetCutList :: "('r, 'w) platform \<Rightarrow> Program \<Rightarrow> int \<Rightarrow> ('w, Mark list) control_op" where
  "Control_GetCutList pf p u = by_dvr pf (\<lambda>ranking.
     if ranking \<ge> 0x00060001 then on_wsapi (GetRecordedCutList pf (recordedId (recording p)) u)
     else if u = 0 then on_monitor (GetCutList75 p) else no_marks)"

definition Control_GetCommBreakList :: "('r, 'w) platform \<Rightarrow> Program \<Rightarrow> int \<Rightarrow> ('w, Mark list) control_op" where
  "Control_GetCommBreakList pf p u = by_dvr pf (\<lambda>ranking.
     if ranking \<ge> 0x00060001 then on_wsapi (GetRecordedCommBreak pf (recordedId (recording p)) u)
     else if u = 0 then on_monitor (GetCommBreakList75 p) else no_marks)"

section \<open>Settings and artwork\<close>

definition backend_setting ::
    "('r, 'w) platform \<Rightarrow> string \<Rightarrow> string \<Rightarrow> (Setting option \<Rightarrow> 'a) \<Rightarrow> ('w, 'a) control_op" where
  "backend_setting pf key hostname f c w =
     map_option (\<lambda>(s, t). (f s, t)) (Control_GetHostSetting pf key hostname c w)"

definition Control_GetBackendServerIP :: "('r, 'w) platform \<Rightarrow> string \<Rightarrow> ('w, string) control_op" where
  "Control_GetBackendServerIP pf hostname = backend_setting pf ''BackendServerIP'' hostname
     (\<lambda>s. case s of Some t \<Rightarrow> if set_value t \<noteq> '''' then set_value t else '''' | None \<Rightarrow> '''')"

definition Control_GetBackendServerIP6 :: "('r, 'w) platform \<Rightarrow> string \<Rightarrow> ('w, string) control_op" where
  "Control_GetBackendServerIP6 pf hostname = backend_setting pf ''BackendServerIP6'' hostname
     (\<lambda>s. case s of Some t \<Rightarrow> if set_value t \<noteq> '''' \<and> set_value t \<noteq> ''::1'' then set_value t else '''' | None \<Rightarrow> '''')"

definition Control_GetBackendServerPort :: "('r, 'w) platform \<Rightarrow> string \<Rightarrow> ('w, u32) control_op" where
  "Control_GetBackendServerPort pf hostname = backend_setting pf ''BackendServerPort'' hostname
     (\<lambda>s. case s of
        Some t \<Rightarrow> if set_value t \<noteq> '''' \<and> sint (StringToInt (set_value t)) > 0 then StringToInt (set_value t) else 0
      | None \<Rightarrow> 0)"

text \<open>The program is changed in place: its artwork is cleared first.\<close>

definition Control_RefreshRecordedArtwork ::
    "('r, 'w) platform \<Rightarrow> Program \<Rightarrow> ('w, bool \<times> Program) control_op" where
  "Control_RefreshRecordedArtwork pf p c w =
     (let p0 = p\<lparr>artwork := []\<rparr> in
      if inetref p0 = [] then Some ((False, p0), c, w)
      else map_option (\<lambda>(arts, s). ((arts \<noteq> [], p0\<lparr>artwork := arts\<rparr>), s))
             (Control_GetRecordingArtworkList pf (chanId (channel p0)) (startTs (recording p0)) c w))"

section \<open>What the facade keeps\<close>

definition cerase :: "('w, 'a) control_op \<Rightarrow> ('w, unit) control_op" where
  "cerase f c w = map_option (\<lambda>(r, s). ((), s)) (f c w)"

text \<open>The operations that a user of the facade can call.\<close>

inductive control_op :: "('r, 'w) platform \<Rightarrow> ('w, unit) control_op \<Rightarrow> bool" for pf :: "('r, 'w) platform" where
  "control_op pf (cerase (Control_IsOpen pf))"
| "control_op pf (cerase (Control_Open pf))"
| "control_op pf (cerase (Control_Close pf))"
| "control_op pf (cerase (Control_CleanHanging pf))"
| "control_op pf (cerase (Control_GetBackendServerIP pf hostname))"
| "control_op pf (cerase (Control_GetBackendServerIP6 pf hostname))"
| "control_op pf (cerase (Control_GetBackendServerPort pf hostname))"
| "control_op pf (cerase (Control_UpdateRecordedWatchedStatus pf p watched))"
| "control_op pf (cerase (Control_DeleteRecording pf p forceDelete allowRerecord))"
| "control_op pf (cerase (Control_UndeleteRecording pf p))"
| "control_op pf (cerase (Control_RefreshRecordedArtwork pf p))"
| "control_op pf (cerase (Control_GetCutList pf p u))"
| "control_op pf (cerase (Control_GetCommBreakList pf p u))"
| "control_op pf (cerase (Control_QueryFreeSpaceSummary pf))"
| "control_op pf (cerase (Control_QueryGenPixmap pf p))"
| "control_op pf (cerase (Control_CancelNextRecording pf rnum cancel))"
| "control_op pf (cerase (Control_StopRecording pf p))"
| "control_op pf (cerase (Control_BlockShutdown pf))"
| "control_op pf (cerase (Control_AllowShutdown pf))"
| "control_op pf (cerase (Control_CheckService pf))"
| "control_op pf (cerase (Control_GetHostSetting pf key hostname))"
| "control_op pf (cerase (Control_GetSetting pf key myhost))"
| "control_op pf (cerase (Control_GetHostSettings pf hostname))"
| "control_op pf (cerase (Control_GetSettings pf myhost))"
| "control_op pf (cerase (Control_PutSetting pf key val myhost))"
| "control_op pf (cerase (Control_GetRecordedList pf n descending))"
| "control_op pf (cerase (Control_GetRecorded_time pf chanid recstartts))"
| "control_op pf (cerase (Control_GetRecorded pf recordedid))"
| "control_op pf (cerase (Control_GetCaptureCardList pf))"
| "control_op pf (cerase (Control_GetVideoSourceList pf))"
| "control_op pf (cerase (Control_GetChannelList pf sourceid onlyVisible))"
| "control_op pf (cerase (Control_GetChannel pf chanid))"
| "control_op pf (cerase (Control_GetProgramGuide_channel pf chanid starttime endtime))"
| "control_op pf (cerase (Control_GetProgramGuide pf starttime endtime))"
| "control_op pf (cerase (Control_GetRecordScheduleList pf))"
| "control_op pf (cerase (Control_GetRecordSchedule pf recordid))"
| "control_op pf (cerase (Control_AddRecordSchedule pf r))"
| "control_op pf (cerase (Control_UpdateRecordSchedule pf r))"
| "control_op pf (cerase (Control_DisableRecordSchedule pf recordid))"
| "control_op pf (cerase (Control_EnableRecordSchedule pf recordid))"
| "control_op pf (cerase (Control_RemoveRecordSchedule pf recordid))"
| "control_op pf (cerase (Control_GetUpcomingList pf))"
| "control_op pf (cerase (Control_GetConflictList pf))"
| "control_op pf (cerase (Control_GetExpiringList pf))"
| "control_op pf (cerase (Control_GetRecGroupList pf))"
| "control_op pf (cerase (Control_GetFile pf filename sgname))"
| "control_op pf (cerase (Control_GetChannelIcon pf chanid width height))"
| "control_op pf (cerase (Control_GetChannelIconUrl pf chanid width height))"
| "control_op pf (cerase (Control_GetPreviewImage pf p width height))"
| "control_op pf (cerase (Control_GetPreviewImageUrl pf p width height))"
| "control_op pf (cerase (Control_GetRecordingArtwork pf typ p width height))"
| "control_op pf (cerase (Control_GetRecordingArtworkUrl pf typ p width height))"
| "control_op pf (cerase (Control_GetRecordingArtworkList pf chanid recstartts))"
| "control_op pf (cerase (Control_SetSavedBookmark pf p u pos))"
| "control_op pf (cerase (Control_GetSavedBookmark pf p u))"

definition control_ok :: "control \<Rightarrow> bool" where
  "control_ok c \<longleftrightarrow> pb_ok (c_monitor c) \<and> api_ok (c_wsapi c)"

definition ckeeps :: "('w, 'a) control_op \<Rightarrow> bool" where
  "ckeeps f \<longleftrightarrow> (\<forall>c w r c1 w1. control_ok c \<longrightarrow> f c w = Some (r, c1, w1) \<longrightarrow> control_ok c1)"

lemma ckeepsI: "(\<And>c w r c1 w1. control_ok c \<Longrightarrow> f c w = Some (r, c1, w1) \<Longrightarrow> control_ok c1) \<Longrightarrow> ckeeps f"
  unfolding ckeeps_def by blast

lemma ckeepsD: "ckeeps f \<Longrightarrow> f c w = Some (r, c1, w1) \<Longrightarrow> control_ok c \<Longrightarrow> control_ok c1"
  unfolding ckeeps_def by blast

lemma ckeeps_cerase [simp]: "ckeeps (cerase f) = ckeeps f"
  unfolding ckeeps_def cerase_def by (simp add: split_paired_all) metis

lemma on_monitor_total: "\<exists>r m. on_monitor f c w = Some (r, c\<lparr>c_monitor := m\<rparr>, w)"
  by (cases "f (c_monitor c)") (auto simp: on_monitor_def)

lemma on_wsapi_keeps: "keeps stays_ok f \<Longrightarrow> ckeeps (on_wsapi f)"
  by (rule ckeepsI) (auto simp: on_wsapi_def control_ok_def stays_ok_def dest!: keepsD)

lemma on_monitor_keeps: "(\<And>m. pb_ok m \<Longrightarrow> mon_keeps m (snd (f m))) \<Longrightarrow> ckeeps (on_monitor f)"
  by (rule ckeepsI) (fastforce simp: on_monitor_def control_ok_def mon_keeps_def split: prod.splits)

lemma by_dvr_keeps:
  assumes "\<And>ranking. ckeeps (f ranking)"
  shows "ckeeps (by_dvr pf f)"
proof -
  have "ckeeps (dvr_ranking pf)"
    unfolding dvr_ranking_def
    by (rule on_wsapi_keeps, rule keepsI) (auto dest: keepsD [OF ok.CheckService_keeps(2)])
  with assms show ?thesis
    by (intro ckeepsI) (auto simp: by_dvr_def bind_eq_Some_conv dest!: ckeepsD)
qed

lemma backend_setting_keeps: "ckeeps (backend_setting pf key hostname f)"
  by (rule ckeepsI) (auto simp: backend_setting_def Control_GetHostSetting_def
      dest: ckeepsD [OF on_wsapi_keeps [OF ok.GetHostSetting_keeps]])

lemma no_marks_keeps: "ckeeps no_marks"
  by (simp add: ckeeps_def no_marks_def)

lemmas wsapi_delegates =
  Control_CheckService_def
  Control_GetHostSetting_def
  Control_GetSetting_def
  Control_GetHostSettings_def
  Control_GetSettings_def
  Control_PutSetting_def
  Control_GetRecordedList_def
  Control_GetRecorded_time_def
  Control_GetRecorded_def
  Control_GetCaptureCardList_def
  Control_GetVideoSourceList_def
  Control_GetChannelList_def
  Control_GetChannel_def
  Control_GetProgramGuide_channel_def
  Control_GetProgramGuide_def
  Control_GetRecordScheduleList_def
  Control_GetRecordSchedule_def
  Control_AddRecordSchedule_def
  Control_UpdateRecordSchedule_def
  Control_DisableRecordSchedule_def
  Control_EnableRecordSchedule_def
  Control_RemoveRecordSchedule_def
  Control_GetUpcomingList_def
  Control_GetConflictList_def
  Control_GetExpiringList_def
  Control_GetRecGroupList_def
  Control_GetFile_def
  Control_GetChannelIcon_def
  Control_GetChannelIconUrl_def
  Control_GetPreviewImage_def
  Control_GetPreviewImageUrl_def
  Control_GetRecordingArtwork_def
  Control_GetRecordingArtworkUrl_def
  Control_GetRecordingArtworkList_def
  Control_SetSavedBookmark_def
  Control_GetSavedBookmark_def

lemmas monitor_delegates =
  Control_QueryFreeSpaceSummary_def
  Control_QueryGenPixmap_def
  Control_CancelNextRecording_def
  Control_StopRecording_def
  Control_BlockShutdown_def
  Control_AllowShutdown_def

lemma wsapi_delegates_keep:
  "ckeeps (Control_CheckService pf)"
  "ckeeps (Control_GetHostSetting pf key hostname)"
  "ckeeps (Control_GetSetting pf key myhost)"
  "ckeeps (Control_GetHostSettings pf hostname)"
  "ckeeps (Control_GetSettings pf myhost)"
  "ckeeps (Control_PutSetting pf key val myhost)"
  "ckeeps (Control_GetRecordedList pf n descending)"
  "ckeeps (Control_GetRecorded_time pf chanid recstartts)"
  "ckeeps (Control_GetRecorded pf recordedid)"
  "ckeeps (Control_GetCaptureCardList pf)"
  "ckeeps (Control_GetVideoSourceList pf)"
  "ckeeps (Control_GetChannelList pf sourceid onlyVisible)"
  "ckeeps (Control_GetChannel pf chanid)"
  "ckeeps (Control_GetProgramGuide_channel pf chanid starttime endtime)"
  "ckeeps (Control_GetProgramGuide pf starttime endtime)"
  "ckeeps (Control_GetRecordScheduleList pf)"
  "ckeeps (Control_GetRecordSchedule pf recordid)"
  "ckeeps (Control_AddRecordSchedule pf r)"
  "ckeeps (Control_UpdateRecordSchedule pf r)"
  "ckeeps (Control_DisableRecordSchedule pf recordid)"
  "ckeeps (Control_EnableRecordSchedule pf recordid)"
  "ckeeps (Control_RemoveRecordSchedule pf recordid)"
  "ckeeps (Control_GetUpcomingList pf)"
  "ckeeps (Control_GetConflictList pf)"
  "ckeeps (Control_GetExpiringList pf)"
  "ckeeps (Control_GetRecGroupList pf)"
  "ckeeps (Control_GetFile pf filename sgname)"
  "ckeeps (Control_GetChannelIcon pf chanid width height)"
  "ckeeps (Control_GetChannelIconUrl pf chanid width height)"
  "ckeeps (Control_GetPreviewImage pf p width height)"
  "ckeeps (Control_GetPreviewImageUrl pf p width height)"
  "ckeeps (Control_GetRecordingArtwork pf typ p width height)"
  "ckeeps (Control_GetRecordingArtworkUrl pf typ p width height)"
  "ckeeps (Control_GetRecordingArtworkList pf chanid recstartts)"
  "ckeeps (Control_SetSavedBookmark pf p u pos)"
  "ckeeps (Control_GetSavedBookmark pf p u)"
  unfolding wsapi_delegates
  by (rule on_wsapi_keeps,
      rule ok.operations_keep ok.CheckService_keeps ok.GetHostSetting_keeps ok.GetRecordedList_keeps)+

lemma monitor_delegates_keep:
  "ckeeps (Control_QueryFreeSpaceSummary pf)"
  "ckeeps (Control_QueryGenPixmap pf p)"
  "ckeeps (Control_CancelNextRecording pf rnum cancel)"
  "ckeeps (Control_StopRecording pf p)"
  "ckeeps (Control_BlockShutdown pf)"
  "ckeeps (Control_AllowShutdown pf)"
  unfolding monitor_delegates
  by (rule on_monitor_keeps, erule monitor_ops_keep)+

lemma invalidate_ok: "api_ok api \<Longrightarrow> api_ok (InvalidateService api)"
  using ok.R_invalidate [of api] by (simp add: stays_ok_def)

lemma Control_Close_keeps: "ckeeps (Control_Close pf)"
  using monitor_ops_keep(3)
  by (intro ckeepsI) (auto simp: Control_Close_def control_ok_def mon_keeps_def invalidate_ok)

lemma Control_Open_keeps: "ckeeps (Control_Open pf)"
  unfolding Control_Open_def
proof (rule on_monitor_keeps)
  fix m :: monitor assume "pb_ok m"
  with monitor_ops_keep(1,2) show "mon_keeps m (snd (case monitor_IsOpen m of
      (opened, m1) \<Rightarrow> if opened then (True, m1) else monitor_Open m1))"
    by (cases "monitor_IsOpen m") (fastforce simp: mon_keeps_def)
qed

lemma Control_RefreshRecordedArtwork_keeps: "ckeeps (Control_RefreshRecordedArtwork pf p)"
  by (rule ckeepsI)
     (auto simp: Control_RefreshRecordedArtwork_def Let_def split: if_splits dest: ckeepsD [OF wsapi_delegates_keep(34)])

lemma CleanHanging_keeps: "pb_ok m \<Longrightarrow> mon_keeps m (snd ((), CleanHanging m))"
  by (auto simp: mon_keeps_def CleanHanging_def pb_ok_def pb_inv_def pb_quiet_def)

lemma control_op_keeps:
  assumes "control_op pf f"
  shows "ckeeps f"
  using assms
proof cases
qed (simp_all only: ckeeps_cerase wsapi_delegates_keep monitor_delegates_keep Control_Close_keeps Control_Open_keeps
    Control_RefreshRecordedArtwork_keeps,
  auto simp: Control_IsOpen_def Control_CleanHanging_def Control_GetBackendServerIP_def Control_GetBackendServerIP6_def
    Control_GetBackendServerPort_def Control_UpdateRecordedWatchedStatus_def Control_DeleteRecording_def
    Control_UndeleteRecording_def Control_GetCutList_def Control_GetCommBreakList_def
    intro!: on_monitor_keeps by_dvr_keeps backend_setting_keeps no_marks_keeps on_wsapi_keeps monitor_ops_keep
    ok.operations_keep CleanHanging_keeps)

section \<open>The life of the facade\<close>

inductive control_reachable :: "('r, 'w) platform \<Rightarrow> control \<times> 'w \<Rightarrow> bool" for pf :: "('r, 'w) platform" where
  reach_control: "Control_new pf (ProtoBase_new os me server prt ver junk) frontend server wsapiPort pin w = Some s \<Longrightarrow>
    control_reachable pf s"
| reach_call: "control_reachable pf (c, w) \<Longrightarrow> control_op pf f \<Longrightarrow> f c w = Some ((), s) \<Longrightarrow> control_reachable pf s"
| reach_account: "control_reachable pf (c, w) \<Longrightarrow> control_reachable pf (Control_WithAuthorization usr pwd c, w)"
| reach_tls: "control_reachable pf (c, w) \<Longrightarrow> control_reachable pf (Control_WithSSL pf yesno c, w)"

lemma Control_new_ok:
  assumes "Control_new pf (ProtoBase_new os me server prt ver junk) frontend server wsapiPort pin w = Some (c, w1)"
  shows "control_ok c"
proof -
  from assms obtain ok api v where
    e: "ensure_checked pf (WSAPI_init server wsapiPort pin) w = Some (ok, api, v)"
    "map_option snd (Control_Open pf
       \<lparr>c_monitor = ProtoMonitor_new (ProtoBase_new os me server prt ver junk) frontend, c_wsapi = api\<rparr> v) = Some (c, w1)"
    by (auto simp: Control_new_def WSAPI_new_def split: option.splits)
  have "api_ok (WSAPI_init server wsapiPort pin)" by (simp add: api_ok_def WSAPI_init_def)
  with ensure_checked_ok [OF e(1)] have "api_ok api" by simp
  moreover have "pb_ok (ProtoMonitor_new (ProtoBase_new os me server prt ver junk) frontend)"
    using ProtoBase_new_ok [of os me server prt ver junk]
    by (simp add: ProtoMonitor_new_def pb_ok_def pb_inv_def pb_quiet_def protobase.defs)
  ultimately have "control_ok \<lparr>c_monitor = ProtoMonitor_new (ProtoBase_new os me server prt ver junk) frontend, c_wsapi = api\<rparr>"
    by (simp add: control_ok_def)
  with e(2) show ?thesis using ckeepsD [OF Control_Open_keeps] by (auto simp: map_option_eq_Some)
qed

text \<open>C4: From its constructor on, whatever operations of the facade are called in whatever order, and whatever the
  backend and the web server answer, the connection keeps its invariant, and the client of the web services, when
  it counts as checked, knows a protocol other than 0 and talks to a service Myth of a version it supports.\<close>

theorem control_invariant:
  assumes "control_reachable pf s"
  shows "control_ok (fst s)"
  using assms
proof induction
  case (reach_control os me server prt ver junk frontend wsapiPort pin w s)
  then show ?case by (cases s) (auto dest: Control_new_ok)
next
  case (reach_call c w f s)
  then show ?case by (cases s) (auto dest: ckeepsD [OF control_op_keeps])
qed (auto simp: control_ok_def Control_WithAuthorization_def Control_WithSSL_def WithAuthorization_def WithSSL_def
  api_ok_def ranking_of_def)

text \<open>A client whose backend and web server do not answer, after a deletion that is tried in both.\<close>

theorem control_invariant_witness:
  "\<exists>c log. control_reachable (logging silent_platform) (c, log, ()) \<and> 2 \<le> length log \<and> control_ok c"
proof -
  let ?pf = "logging silent_platform"
  let ?api = "WSAPI_init ''h'' 6544 ''0000''"
  let ?pb = "ProtoBase_new [] ''me'' ''h'' 6543 0 []"
  have api: "api_authToken ?api = []" "\<not> api_checked ?api" "api_serviceVersion ?api = (\<lambda>sid. no_version)"
    by (simp_all add: WSAPI_init_def)
  let ?q = "make_query ?pf ''/Myth/version'' WS_METHOD_Get [] ?api"
  obtain r m where o: "Control_Open ?pf \<lparr>c_monitor = ProtoMonitor_new ?pb True, c_wsapi = ?api\<rparr> ([?q], ())
      = Some (r, \<lparr>c_monitor = m, c_wsapi = ?api\<rparr>, [?q], ())"
    unfolding Control_Open_def
    using on_monitor_total [of _ "\<lparr>c_monitor = ProtoMonitor_new ?pb True, c_wsapi = ?api\<rparr>" "([?q], ())"] by fastforce
  then have "Control_new ?pf ?pb True ''h'' 6544 ''0000'' ([], ()) = Some (\<lparr>c_monitor = m, c_wsapi = ?api\<rparr>, [?q], ())"
    using silent_ensure [OF api, of "[]"] by (simp add: Control_new_def WSAPI_new_def)
  then have r0: "control_reachable ?pf (\<lparr>c_monitor = m, c_wsapi = ?api\<rparr>, [?q], ())" by (rule reach_control)
  let ?del = "Control_DeleteRecording ?pf Program_init True False"
  have "CheckService_id ?pf WS_Dvr ?api ([?q], ()) = Some (no_version, ?api, [?q, ?q], ())"
    using silent_ensure [OF api, of "[?q]"] by (simp add: CheckService_id_def WSAPI_init_def)
  then have "dvr_ranking ?pf \<lparr>c_monitor = m, c_wsapi = ?api\<rparr> ([?q], ()) = Some (0, \<lparr>c_monitor = m, c_wsapi = ?api\<rparr>, [?q, ?q], ())"
    by (simp add: dvr_ranking_def on_wsapi_def no_version_def)
  then obtain c1 where d: "cerase ?del \<lparr>c_monitor = m, c_wsapi = ?api\<rparr> ([?q], ()) = Some ((), c1, [?q, ?q], ())"
    using on_monitor_total [of "DeleteRecording75 Program_init True False" "\<lparr>c_monitor = m, c_wsapi = ?api\<rparr>" "([?q, ?q], ())"]
    by (auto simp: cerase_def Control_DeleteRecording_def by_dvr_def)
  have "control_op ?pf (cerase ?del)" by (rule control_op.intros)
  from reach_call [OF r0 this, OF d] have "control_reachable ?pf (c1, [?q, ?q], ())" .
  with control_invariant [OF this] show ?thesis by (intro exI [of _ c1] exI [of _ "[?q, ?q]"]) simp
qed

end
