(* ===== verification/Spec2Isabelle.thy ===== *)
theory Spec2Isabelle
  imports ProtoEvent RingBuffer Latch PoolRuns LiveStream WsClient Control
begin

text \<open>
  A model of cppmyth, the C++ client library of the MythTV backend, and the theorems that make it
  correct. Paths are relative to \<open>src/cppmyth/src\<close>.

  \<^bold>\<open>The program.\<close> A client talks to a backend over TCP connections. Each connection is an object of
  a class derived from \<open>ProtoBase\<close>: it owns a \<open>TcpSocket\<close>, negotiates a version of the protocol,
  and exchanges messages, a length of eight characters followed by fields that are separated by
  the text \<open>[]:[]\<close>. \<open>ProtoMonitor\<close> sends requests about the backend, \<open>ProtoRecorder\<close> drives a
  tuner, \<open>ProtoPlayback\<close> asks for blocks of a file that arrive on a second connection
  \<open>ProtoTransfer\<close>, and \<open>ProtoEvent\<close> receives events. The fields are numbers, time stamps and
  enumerations, printed and parsed by \<open>private/builtin.c\<close> and \<open>mythtypes.cpp\<close>. Connections are
  shared between threads under a latch; live TV passes its packets through a ring buffer.
  The second way to the backend are its web services: \<open>WSAPI\<close> builds a \<open>WSRequest\<close> per call, sends it over HTTP,
  reads a \<open>WSResponse\<close>, parses its content as JSON and binds the nodes to the data types. \<open>Control\<close> is the
  facade over a \<open>ProtoMonitor\<close> and a \<open>WSAPI\<close>.

  \<^bold>\<open>The theories, in the order of their imports.\<close>
  \<^item> \<open>Prelude\<close>: machine integers, C strings, the decimal representation of a number, shared lemmas.
  \<^item> \<open>Builtin\<close> (\<open>private/builtin.c\<close>, \<open>builtin.h\<close>): integers of every width from and to text. Each
    parser is characterised by the texts it accepts; the printer that fills its array backwards
    and reverses it equals the reference digits; printing and parsing are inverse.
  \<^item> \<open>MythTypes\<close> (\<open>mythtypes.h\<close>, \<open>mythtypes.cpp\<close>): the structures, the enumerations and the tables
    that map them to numbers and texts of each protocol version.
  \<^item> \<open>CTime\<close> (\<open>private/builtin.c\<close>): time stamps over a Gregorian calendar; the offset of the local
    time zone is a parameter.
  \<^item> \<open>ByteStream\<close>: the contract between the protocol and its socket as the locales \<open>byte_stream\<close>
    and \<open>receive_frame\<close>, and the read loops of \<open>ReadField\<close> and \<open>FlushMessage\<close>, proved there once.
  \<^item> \<open>Socket\<close> (\<open>private/socket.cpp\<close>, class \<open>TcpSocket\<close>): connect, send, receive with the receive
    buffer, disconnect, listen. It interprets both locales.
  \<^item> \<open>ProtoBase\<close> (\<open>proto/mythprotobase.cpp\<close>): the connection object with its open, hang and error
    flags, framing, fields, version negotiation. The invariant of the object holds after every
    operation, whatever the peer does.
  \<^item> \<open>Conversation\<close>: the same operations with a peer whose answer is known.
  \<^item> \<open>ProgramInfo\<close> (\<open>proto/mythprotobase.cpp\<close>): the program information at all protocol versions,
    with round trips between sender and receiver.
  \<^item> \<open>Query\<close>: the shape that nearly every operation has (command, fields, the label \<open>out\<close>), and
    the locales \<open>announced_connection\<close> and \<open>reconnecting_connection\<close> for classes that open,
    announce themselves and reconnect.
  \<^item> \<open>ProtoTransfer\<close>, \<open>ProtoPlayback\<close>, \<open>ProtoRecorder\<close>, \<open>ProtoMonitor\<close>, \<open>ProtoEvent\<close>
    (\<open>proto/mythproto*.cpp\<close>): the derived classes, records that extend the one of \<open>ProtoBase\<close>,
    each with an interpretation of the locale that fits it.
  \<^item> \<open>RingBuffer\<close> (\<open>private/ringbuffer.cpp\<close>): the locale \<open>bounded_queue\<close> is the contract of a
    queue; the ring interprets it.
  \<^item> \<open>Uri\<close> (\<open>private/uriencoder.cpp\<close>, \<open>uriparser.cpp\<close>): encoders, decoders and the scanner.
  \<^item> \<open>Latch\<close> (\<open>private/os/threads/latch.cpp\<close>): the read-write lock as a step relation over all
    interleavings of its callers.
  \<^item> \<open>ThreadPool\<close>, \<open>PoolLaws\<close>, \<open>PoolRuns\<close> (\<open>private/os/threads/threadpool.cpp\<close>, \<open>event.h\<close>, \<open>thread.h\<close>): the pool of threads
    as a step relation over all interleavings, with its pointers in a store; the invariant, the end of
    a destroyed pool, and a reachable state in which a queued worker has nobody to run it.
  \<^item> \<open>MythStream\<close> (\<open>Read\<close> of the two players, and the interface \<open>mythstream.h\<close>): reading in packets from a
    source of blocks. The locale \<open>block_reader\<close> is the contract of the source, \<open>stream\<close> that of a
    reader; a source is a stream, and a source behind the buffer (\<open>chunked_reader\<close>) is one again.
  \<^item> \<open>FilePlayback\<close> (\<open>mythfileplayback.cpp\<close>): a control connection with one transfer, a \<open>block_reader\<close>.
  \<^item> \<open>EventHandler\<close> (\<open>mytheventhandler.cpp\<close>): subscriptions, their queues and the event thread.
  \<^item> \<open>RecordingPlayback\<close> (\<open>mythrecordingplayback.cpp\<close>): the buffered player of a recording that may
    still grow, a \<open>chunked_reader\<close>; what it delivers, its position, its seeks and its events.
  \<^item> \<open>LiveTV\<close>, \<open>LiveStream\<close> (\<open>mythlivetvplayback.cpp\<close>): tuning, the chain of files, reading and seeking
    through it. The invariant of the chain holds after every operation from the constructor on.
  \<^item> \<open>WsStatic\<close> (\<open>private/wsstatic.c\<close>): the tables of the HTTP client and their lookups.
  \<^item> \<open>WsRequest\<close> (\<open>private/wsrequest.cpp\<close>): HTTP requests. The locale \<open>request_sink\<close> is the contract of
    what a request is written to; inside it every request is written as its text.
  \<^item> \<open>Compressor\<close> (\<open>private/compressor.cpp\<close>): the streams over zlib, which is a parameter.
  \<^item> \<open>WsResponse\<close>, \<open>WsTransfer\<close> (\<open>private/wsresponse.cpp\<close>, \<open>wsheader.h\<close>): the write buffer, which
    interprets \<open>request_sink\<close>, reading lines (in the locale \<open>byte_stream\<close>), headers and contents,
    and redirections. The locale \<open>content_source\<close> is the contract of a content that is read in pieces; a
    content with its length and one in chunks interpret it.
  \<^item> \<open>Json\<close>, \<open>JsonPrint\<close> (\<open>private/sajson.h\<close>, \<open>jsonparser.cpp\<close>): the parser, one step per iteration of its loop,
    with the stack and the results that share one array; the nodes that the client reads. The array is
    kept by its two counters (\<open>ps_temp\<close>, \<open>ps_out\<close>, with the words each element takes) and the values by a stack of
    levels. A printer in \<open>JsonPrint\<close> is the reference that the parser inverts.
  \<^item> \<open>WsTypes\<close> (\<open>private/mythdto\<close>, \<open>mythjsonbinder.cpp\<close>): setters, tables of bindings and the binder.
  \<^item> \<open>WsApi\<close>, \<open>WsService\<close>, \<open>WsDvr\<close> (\<open>mythwsapi.cpp\<close>, \<open>mythwsapi.h\<close>, \<open>mythwsstream.cpp\<close>): the client of the web services: login,
    the check of the services and their versions, the shapes that its operations share (one reply, a
    list in one answer, a list in pages), every operation, and its choice by the version of the service.
  \<^item> \<open>WsLaws\<close>: the locales \<open>client_base\<close> and \<open>client_steps\<close> state what a property of the steps of a client needs so
    that every operation keeps it; they are interpreted three times: for the state of the checks, for what is left alone, and
    for the requests that go out.
  \<^item> \<open>WsPaging\<close>: lists in pages against a server that has a list. \<open>WsClient\<close>: the client over the HTTP layer.
  \<^item> \<open>Control\<close> (\<open>mythcontrol.cpp\<close>, \<open>mythcontrol.h\<close>): the facade, every operation, with the joint invariant.

  \<^bold>\<open>The environment.\<close> What the operating system and the peer do is a script inside the state: the
  outcomes of the calls of \<open>poll\<close>, \<open>send\<close>, \<open>recv\<close> and \<open>connect\<close> in the order of the calls (a part of
  the bytes, a timeout, an error, a closed connection). A theorem that quantifies over the state
  therefore holds for every peer and every network; a theorem about a conversation fixes a script
  with a well-behaved peer. The commands that were sent are kept in the state. The web service client takes a
  \<open>platform\<close>: the HTTP layer (how a request becomes a response in a world that it changes, the status, the content type and the
  reads of a response), the arithmetic on \<open>double\<close>, \<open>strtod\<close>, the time zone, the name of the host, and whether TLS is built
  in. Its theorems hold for every platform; \<open>WsClient\<close> puts the model of \<open>WSResponse\<close> in.

  \<^bold>\<open>Loops and fuel.\<close> Loops over a buffer, a counter or a script recurse on it and end. The two
  loops without such a bound take fuel: the negotiation \<open>open_loop\<close>, which a server can keep
  going, and the block loop of \<open>TransferRequestBlock\<close>, which does not return when the peer has
  closed the connection; the theorems state for both how much fuel is enough or that none is. The loops of the web
  service client that go on as long as the server answers, over the pages of a list and the pieces of a content, are partial
  functions into an option, and the theorems say when they have a result and when not.
  The loops of live TV that poll until a time limit consume the answers of the clock, a list; they have
  no result when it ends too early. The search of the ring buffer has the number of chunks as its fuel, after which it would repeat
  itself.

  \<^bold>\<open>Integers.\<close> Positions, sizes, identifiers and counters are machine words of the width the code
  gives them, and wrap around; parsed numbers carry the checks of the code. The counts of the
  latch are unbounded integers, as no run takes a lock two thousand million times.

  \<^bold>\<open>Concurrency.\<close> An operation of a connection runs under the write lock of its latch, so it is one
  function on the state. The latch itself is modelled with its interleavings. Where an operation of
  live TV sleeps or releases the latch, the messages that the event thread handles meanwhile are an
  argument.

  \<^bold>\<open>Not modelled.\<close> TLS wraps a third-party library; a TLS socket has the interface of the plain one. The server
  and UDP sockets are wrappers of system calls that the client does not use. The mutex of \<open>WSAPI\<close>
  guards its check and its cache, each of which is one step here. Where the code is undefined the model makes a choice and says so: the parser that reads behind its text has the outcome \<open>Overread\<close>; a schedule whose time
  \<open>localtime_r\<close> does not accept keeps its fields. Debug output,
  shared pointers, thread wrappers and the Windows port have no logic of the protocol.
\<close>

end
